(* ===== verification/Tomo_Prelude.thy ===== *)
theory Tomo_Prelude
  imports Complex_Main "HOL-Library.Word" "HOL-Library.List_Lexorder" "HOL-Library.Char_ord"
begin

text \<open>
  Shared layer of the development: the machine integers of the Rust sources
  (wrapping and saturating), little-endian byte encodings, two generic interfaces
  (a prefix-free code and a state machine with an inductive invariant), and the
  fact collections the component theories extend. Rust strings and byte strings
  of paths are \<^typ>\<open>string\<close>: one \<^typ>\<open>char\<close> per UTF-8 byte, ordered bytewise as
  Rust orders \<open>str\<close>.
\<close>

named_theorems tomo_inv \<open>preservation of the components' invariants\<close>
named_theorems tomo_eval \<open>definitions unfolded to evaluate a closed term\<close>

type_synonym u8 = "8 word"
type_synonym u16 = "16 word"
type_synonym u32 = "32 word"
type_synonym u64 = "64 word"
type_synonym bytes = "u8 list"

section \<open>Saturating arithmetic on u64\<close>

definition sat_add :: "u64 \<Rightarrow> u64 \<Rightarrow> u64" where
  "sat_add a b = (if unat a + unat b < 2 ^ 64 then a + b else - 1)"

definition sat_sub :: "u64 \<Rightarrow> u64 \<Rightarrow> u64" where
  "sat_sub a b = (if b \<le> a then a - b else 0)"

definition sat_mul :: "u64 \<Rightarrow> u64 \<Rightarrow> u64" where
  "sat_mul a b = (if unat a * unat b < 2 ^ 64 then a * b else - 1)"

lemma unat_max_u64: "unat (- 1 :: u64) = 2 ^ 64 - 1"
  by (simp add: unsigned_minus_1_eq_mask mask_eq_exp_minus_1)

lemma unat_u64_less [simp]: "unat (a :: u64) < 18446744073709551616"
  using unsigned_less [of a] by simp

lemma unat_u64_le [simp]: "unat (a :: u64) \<le> 18446744073709551615"
  using unat_u64_less [of a] by linarith

lemma unat_sat_add: "unat (sat_add a b) = min (unat a + unat b) (2 ^ 64 - 1)"
  by (auto simp: sat_add_def unat_word_ariths unat_max_u64)

lemma unat_sat_sub: "unat (sat_sub a b) = unat a - unat b"
  by (auto simp: sat_sub_def unat_sub word_le_nat_alt)

lemma unat_sat_mul: "unat (sat_mul a b) = min (unat a * unat b) (2 ^ 64 - 1)"
  by (auto simp: sat_mul_def unat_word_ariths unat_max_u64)

lemma sat_add_ge: "a \<le> sat_add a b"
  using unat_u64_less [of a] by (simp add: word_le_nat_alt unat_sat_add)

lemma sat_add_mono: "a \<le> a' \<Longrightarrow> sat_add a b \<le> sat_add a' b"
  by (auto simp: word_le_nat_alt unat_sat_add)

lemma sat_add_0 [simp]: "sat_add a 0 = a"
  by (simp add: sat_add_def)

lemma sat_sub_le: "sat_sub a b \<le> a"
  by (simp add: word_le_nat_alt unat_sat_sub)

lemma u64_neq_0_iff: "(n :: u64) \<noteq> 0 \<longleftrightarrow> 0 < n"
  by (simp add: word_neq_0_conv)

lemma u64_less_Suc: "(n :: u64) \<noteq> - 1 \<Longrightarrow> n < n + 1"
proof -
  assume "n \<noteq> - 1"
  then have "unat n \<noteq> unat (- 1 :: u64)"
    using unsigned_word_eqI by blast
  then have "unat n \<noteq> 18446744073709551615"
    by (simp add: unat_max_u64)
  then have "unat n + 1 < 18446744073709551616"
    using unat_u64_le [of n] by linarith
  then show ?thesis
    by (simp add: word_less_nat_alt unat_word_ariths)
qed

section \<open>Little-endian encodings\<close>

primrec nat_le :: "nat \<Rightarrow> nat \<Rightarrow> bytes" where
  "nat_le 0 k = []"
| "nat_le (Suc n) k = word_of_nat k # nat_le n (k div 256)"

primrec le_nat :: "bytes \<Rightarrow> nat" where
  "le_nat [] = 0"
| "le_nat (b # bs) = unat b + 256 * le_nat bs"

lemma length_nat_le [simp]: "length (nat_le n k) = n"
  by (induction n arbitrary: k) auto

lemma le_nat_nat_le: "le_nat (nat_le n k) = k mod 256 ^ n"
proof (induction n arbitrary: k)
  case 0
  then show ?case by simp
next
  case (Suc n)
  have "unat (word_of_nat k :: u8) = k mod 256"
    by (simp add: unat_of_nat)
  then show ?case
    by (simp add: Suc.IH mod_mult2_eq)
qed

lemma le_nat_bound: "le_nat bs < 256 ^ length bs"
proof (induction bs)
  case Nil
  then show ?case by simp
next
  case (Cons b bs)
  have "unat b < 256" using unsigned_less [of b] by simp
  with Cons show ?case by simp
qed

definition u64_le :: "u64 \<Rightarrow> bytes" where
  "u64_le w = nat_le 8 (unat w)"

definition u32_le :: "u32 \<Rightarrow> bytes" where
  "u32_le w = nat_le 4 (unat w)"

definition le_u32 :: "bytes \<Rightarrow> u32" where
  "le_u32 bs = word_of_nat (le_nat bs)"

lemma length_u64_le [simp]: "length (u64_le w) = 8"
  by (simp add: u64_le_def)

lemma length_u32_le [simp]: "length (u32_le w) = 4"
  by (simp add: u32_le_def)

lemma u64_le_inject [simp]: "u64_le a = u64_le b \<longleftrightarrow> a = b"
proof
  assume "u64_le a = u64_le b"
  then have "le_nat (u64_le a) = le_nat (u64_le b)" by simp
  then have "unat a = unat b"
    by (simp add: u64_le_def le_nat_nat_le)
  then show "a = b" by (rule unsigned_word_eqI)
qed simp

lemma le_u32_u32_le [simp]: "le_u32 (u32_le w) = w"
proof -
  have "unat w < 256 ^ 4" using unsigned_less [of w] by simp
  then have "unat w mod 4294967296 = unat w" by simp
  then show ?thesis
    by (simp add: le_u32_def u32_le_def le_nat_nat_le)
qed

text \<open>Bytes of a Rust string, and of a byte array.\<close>

definition byte_of_char :: "char \<Rightarrow> u8" where
  "byte_of_char c = word_of_nat (of_char c)"

lemma byte_of_char_inject [simp]: "byte_of_char a = byte_of_char b \<longleftrightarrow> a = b"
proof
  assume "byte_of_char a = byte_of_char b"
  then have "unat (byte_of_char a) = unat (byte_of_char b)" by simp
  then have "(of_char a :: nat) mod 256 = of_char b mod 256"
    by (simp add: byte_of_char_def unat_of_nat)
  then show "a = b"
    using of_char_eq_iff by simp
qed simp

definition str_bytes :: "string \<Rightarrow> bytes" where
  "str_bytes s = map byte_of_char s"

lemma length_str_bytes [simp]: "length (str_bytes s) = length s"
  by (simp add: str_bytes_def)

lemma str_bytes_inject [simp]: "str_bytes s = str_bytes t \<longleftrightarrow> s = t"
  by (simp add: str_bytes_def inj_map_eq_map inj_def)

section \<open>Interface: prefix-free codes\<close>

text \<open>
  A byte encoder whose output determines the encoded value up to \<open>eqv\<close> and the
  rest of the stream. The client lemmas read a concatenation of records back, with
  a known count or up to the end of the stream.
\<close>

locale prefix_code =
  fixes enc :: "'a \<Rightarrow> 'b list"
    and ok :: "'a \<Rightarrow> bool"
    and eqv :: "'a \<Rightarrow> 'a \<Rightarrow> bool"
  assumes decode: "ok x \<Longrightarrow> ok y \<Longrightarrow> enc x @ r = enc y @ s \<Longrightarrow> eqv x y \<and> r = s"
begin

lemma inject_upto: "ok x \<Longrightarrow> ok y \<Longrightarrow> enc x = enc y \<Longrightarrow> eqv x y"
  using decode [of x y "[]" "[]"] by simp

lemma records_decode:
  "length xs = length ys \<Longrightarrow> \<forall>x \<in> set xs. ok x \<Longrightarrow> \<forall>y \<in> set ys. ok y \<Longrightarrow>
   concat (map enc xs) @ r = concat (map enc ys) @ s \<Longrightarrow> list_all2 eqv xs ys \<and> r = s"
proof (induction xs ys rule: list_induct2)
  case Nil
  then show ?case by simp
next
  case (Cons x xs y ys)
  then have "enc x @ (concat (map enc xs) @ r) = enc y @ (concat (map enc ys) @ s)"
    by simp
  with Cons.prems have "eqv x y \<and> concat (map enc xs) @ r = concat (map enc ys) @ s"
    using decode [of x y "concat (map enc xs) @ r" "concat (map enc ys) @ s"] by auto
  with Cons show ?case by simp
qed

lemma stream_decode:
  assumes nonempty: "\<And>x. enc x \<noteq> []"
  shows "\<forall>x \<in> set xs. ok x \<Longrightarrow> \<forall>y \<in> set ys. ok y \<Longrightarrow>
    concat (map enc xs) = concat (map enc ys) \<Longrightarrow> list_all2 eqv xs ys"
proof (induction xs arbitrary: ys)
  case Nil
  then show ?case using nonempty by (cases ys) auto
next
  case (Cons x xs)
  from Cons.prems nonempty obtain y zs where ys: "ys = y # zs"
    by (cases ys) auto
  with Cons.prems have "eqv x y \<and> concat (map enc xs) = concat (map enc zs)"
    using decode [of x y "concat (map enc xs)" "concat (map enc zs)"] by auto
  with Cons.prems ys Cons.IH [of zs] show ?case by simp
qed

end

section \<open>Interface: a state machine with an inductive invariant\<close>

text \<open>
  A deterministic reducer and an invariant that every admissible message keeps.
  The client lemma lifts it to runs.
\<close>

locale state_machine =
  fixes step :: "'s \<Rightarrow> 'm \<Rightarrow> 's"
    and inv :: "'s \<Rightarrow> bool"
    and admissible :: "'m \<Rightarrow> bool"
  assumes step_inv: "inv s \<Longrightarrow> admissible m \<Longrightarrow> inv (step s m)"
begin

lemma run_inv: "inv s \<Longrightarrow> \<forall>m \<in> set ms. admissible m \<Longrightarrow> inv (foldl step s ms)"
  by (induction ms arbitrary: s) (auto simp: step_inv)

lemma run_prefix_inv:
  "inv s \<Longrightarrow> \<forall>m \<in> set ms. admissible m \<Longrightarrow> inv (foldl step s (take n ms))"
  by (rule run_inv) (auto dest: in_set_takeD)

end

text \<open>A machine whose states are seen through an abstraction on which a specification runs in
  step; the client lemma is the refinement of whole runs.\<close>

locale simulation = state_machine step inv admissible
  for step :: "'s \<Rightarrow> 'm \<Rightarrow> 's" and inv :: "'s \<Rightarrow> bool" and admissible :: "'m \<Rightarrow> bool" +
  fixes abstr :: "'s \<Rightarrow> 'a"
    and spec :: "'a \<Rightarrow> 'm \<Rightarrow> 'a"
  assumes step_sim: "inv s \<Longrightarrow> admissible m \<Longrightarrow> abstr (step s m) = spec (abstr s) m"
begin

lemma run_sim: "inv s \<Longrightarrow> \<forall>m \<in> set ms. admissible m \<Longrightarrow> abstr (foldl step s ms) = foldl spec (abstr s) ms"
  by (induction ms arbitrary: s) (auto simp: step_inv step_sim)

end

section \<open>Interface: machines that may fail and have outputs\<close>

text \<open>
  A step yields an error, or the next state and the outputs in order. A run threads the state,
  stops at the first error and collects the outputs. The interface: an invariant and a
  predicate on outputs that every admissible input guarantees.
\<close>

type_synonym ('e, 's, 'o) outcome = "'e + 's \<times> 'o list"

definition and_then :: "('e, 's, 'o) outcome \<Rightarrow> ('s \<Rightarrow> ('e, 's, 'o) outcome) \<Rightarrow> ('e, 's, 'o) outcome" where
  "and_then r f = (case r of
      Inl e \<Rightarrow> Inl e
    | Inr (s, xs) \<Rightarrow> (case f s of Inl e \<Rightarrow> Inl e | Inr (s', ys) \<Rightarrow> Inr (s', xs @ ys)))"

fun out_run :: "('s \<Rightarrow> 'm \<Rightarrow> ('e, 's, 'o) outcome) \<Rightarrow> 's \<Rightarrow> 'm list \<Rightarrow> ('e, 's, 'o) outcome" where
  "out_run step s [] = Inr (s, [])"
| "out_run step s (m # ms) = and_then (step s m) (\<lambda>s. out_run step s ms)"

lemma and_then_Inr:
  "and_then r f = Inr (s', os) \<longleftrightarrow>
     (\<exists>s xs ys. r = Inr (s, xs) \<and> f s = Inr (s', ys) \<and> os = xs @ ys)"
  by (auto simp: and_then_def split: sum.splits prod.splits)

lemma and_then_return [simp]:
  "and_then (Inr (s, [])) f = f s" "and_then r (\<lambda>s. Inr (s, [])) = r" "and_then (Inl e) f = Inl e"
  by (auto simp: and_then_def split: sum.splits prod.splits)

lemma and_then_assoc: "and_then (and_then r f) g = and_then r (\<lambda>s. and_then (f s) g)"
  by (auto simp: and_then_def split: sum.splits prod.splits)

lemma out_run_append: "out_run step s (ms @ ns) = and_then (out_run step s ms) (\<lambda>s. out_run step s ns)"
  by (induction ms arbitrary: s) (simp_all add: and_then_assoc)

locale output_machine =
  fixes step :: "'s \<Rightarrow> 'm \<Rightarrow> ('e, 's, 'o) outcome"
    and inv :: "'s \<Rightarrow> bool"
    and admissible :: "'m \<Rightarrow> bool"
    and allowed :: "'o \<Rightarrow> bool"
  assumes step_ok: "inv s \<Longrightarrow> admissible m \<Longrightarrow> step s m = Inr (s', os) \<Longrightarrow> inv s' \<and> list_all allowed os"
begin

lemma run_ok:
  "inv s \<Longrightarrow> \<forall>m \<in> set ms. admissible m \<Longrightarrow> out_run step s ms = Inr (s', os) \<Longrightarrow> inv s' \<and> list_all allowed os"
proof (induction ms arbitrary: s os)
  case (Cons m ms)
  from Cons.prems(3) obtain s1 xs ys where "step s m = Inr (s1, xs)" "out_run step s1 ms = Inr (s', ys)" "os = xs @ ys"
    by (auto simp: and_then_Inr)
  with Cons.prems(1,2) Cons.IH [of s1 ys] step_ok [of s m s1 xs] show ?case by simp
qed simp

end

section \<open>Generic list lemmas\<close>

lemma foldl_invariant:
  "P s \<Longrightarrow> (\<And>s x. P s \<Longrightarrow> x \<in> set xs \<Longrightarrow> P (f s x)) \<Longrightarrow> P (foldl f s xs)"
  by (induction xs arbitrary: s) auto

lemma sorted_wrt_less_distinct:
  "sorted_wrt (<) (xs :: 'a :: preorder list) \<Longrightarrow> distinct xs"
  by (induction xs) auto

lemma sorted_wrt_less_unique:
  "sorted_wrt (<) (xs :: 'a :: linorder list) \<Longrightarrow> sorted_wrt (<) ys \<Longrightarrow> set xs = set ys \<Longrightarrow> xs = ys"
  by (rule sorted_distinct_set_unique)
    (auto simp: strict_sorted_iff dest: sorted_wrt_less_distinct)

section \<open>Rust string operations\<close>

text \<open>\<^verbatim>\<open>str::split(c)\<close> (never empty: the empty string splits into one empty part),
  \<^verbatim>\<open>[&str]::join\<close>, \<^verbatim>\<open>str::strip_prefix\<close> and \<^verbatim>\<open>str::contains(&str)\<close>.\<close>

fun str_split :: "char \<Rightarrow> string \<Rightarrow> string list" where
  "str_split c [] = [[]]"
| "str_split c (x # xs) =
     (if x = c then [] # str_split c xs
      else (case str_split c xs of [] \<Rightarrow> [[x]] | p # ps \<Rightarrow> (x # p) # ps))"

fun str_join :: "string \<Rightarrow> string list \<Rightarrow> string" where
  "str_join sep [] = []"
| "str_join sep [p] = p"
| "str_join sep (p # q # ps) = p @ sep @ str_join sep (q # ps)"

fun strip_prefix :: "string \<Rightarrow> string \<Rightarrow> string option" where
  "strip_prefix [] s = Some s"
| "strip_prefix (c # cs) [] = None"
| "strip_prefix (c # cs) (x # xs) = (if c = x then strip_prefix cs xs else None)"

definition starts_with :: "string \<Rightarrow> string \<Rightarrow> bool" where
  "starts_with p s \<longleftrightarrow> strip_prefix p s \<noteq> None"

fun str_contains :: "string \<Rightarrow> string \<Rightarrow> bool" where
  "str_contains needle [] \<longleftrightarrow> needle = []"
| "str_contains needle (x # xs) \<longleftrightarrow> starts_with needle (x # xs) \<or> str_contains needle xs"

lemma str_split_nonempty [simp]: "str_split c s \<noteq> []"
  by (induction s) (auto split: list.splits)

lemma str_split_no_sep: "p \<in> set (str_split c s) \<Longrightarrow> c \<notin> set p"
  by (induction s arbitrary: p) (fastforce split: list.splits if_splits)+

lemma str_join_split: "str_join [c] (str_split c s) = s"
proof (induction s)
  case Nil
  then show ?case by simp
next
  case (Cons x xs)
  obtain p ps where "str_split c xs = p # ps" by (cases "str_split c xs") auto
  with Cons show ?case by (cases ps) auto
qed

lemma str_split_append: "str_split c (a @ c # b) = str_split c a @ str_split c b"
proof (induction a)
  case Nil
  then show ?case by simp
next
  case (Cons x a)
  obtain p ps where "str_split c a = p # ps" by (cases "str_split c a") auto
  with Cons show ?case by simp
qed

lemma str_split_single: "c \<notin> set p \<Longrightarrow> str_split c p = [p]"
  by (induction p) auto

lemma str_split_join:
  "ps \<noteq> [] \<Longrightarrow> \<forall>p \<in> set ps. c \<notin> set p \<Longrightarrow> str_split c (str_join [c] ps) = ps"
proof (induction ps rule: list_nonempty_induct)
  case (single p)
  then show ?case by (simp add: str_split_single)
next
  case (cons p ps)
  then have "str_join [c] (p # ps) = p @ c # str_join [c] ps" by (cases ps) auto
  with cons show ?case by (simp add: str_split_append str_split_single)
qed

lemma str_split_inject: "str_split c s = str_split c t \<Longrightarrow> s = t"
  by (metis str_join_split)

lemma strip_prefix_Some: "strip_prefix p s = Some r \<longleftrightarrow> s = p @ r"
  by (induction p s rule: strip_prefix.induct) auto

lemma str_contains_iff: "str_contains needle s \<longleftrightarrow> (\<exists>a b. s = a @ needle @ b)"
proof (induction s)
  case Nil
  then show ?case by simp
next
  case (Cons x xs)
  have "starts_with needle (x # xs) \<longleftrightarrow> (\<exists>b. x # xs = needle @ b)"
    by (auto simp: starts_with_def strip_prefix_Some)
  with Cons show ?case
    by (auto simp: Cons_eq_append_conv)
qed

section \<open>Rust orderings\<close>

text \<open>\<^verbatim>\<open>std::cmp::Ordering\<close>, \<^verbatim>\<open>Ord::cmp\<close> and \<^verbatim>\<open>Ordering::then\<close>.\<close>

datatype ordering = Less | Same | Greater

definition cmp :: "'a::linorder \<Rightarrow> 'a \<Rightarrow> ordering" where
  "cmp a b = (if a < b then Less else if a = b then Same else Greater)"

definition cmp_then :: "ordering \<Rightarrow> ordering \<Rightarrow> ordering" where
  "cmp_then c d = (if c = Same then d else c)"

lemma cmp_Greater [simp]: "cmp a b = Greater \<longleftrightarrow> b < a"
  by (auto simp: cmp_def)

lemma cmp_Less [simp]: "cmp a b = Less \<longleftrightarrow> a < b"
  by (auto simp: cmp_def)

lemma cmp_Same [simp]: "cmp a b = Same \<longleftrightarrow> a = b"
  by (auto simp: cmp_def)

end
