(* ===== verification/Tomo_BTreeMap.thy ===== *)
theory Tomo_BTreeMap
  imports Tomo_Prelude
begin

text \<open>
  Rust's \<^verbatim>\<open>BTreeMap\<close>, which the engine uses for every keyed collection whose
  iteration order is observable (clocks, the index, the echo journal, the staging
  buffer). A map is the list of its entries in strictly ascending key order, so
  structural equality of maps is equality of their contents. The interface the
  components rely on is the locale \<open>ordered_map\<close>, interpreted here.
\<close>

section \<open>Association lists in ascending key order\<close>

fun al_insert :: "'k::linorder \<Rightarrow> 'v \<Rightarrow> ('k \<times> 'v) list \<Rightarrow> ('k \<times> 'v) list" where
  "al_insert k v [] = [(k, v)]"
| "al_insert k v ((k', v') # kvs) =
     (if k < k' then (k, v) # (k', v') # kvs
      else if k = k' then (k, v) # kvs
      else (k', v') # al_insert k v kvs)"

definition al_remove :: "'k \<Rightarrow> ('k \<times> 'v) list \<Rightarrow> ('k \<times> 'v) list" where
  "al_remove k kvs = filter (\<lambda>kv. fst kv \<noteq> k) kvs"

abbreviation ascending :: "('k::linorder \<times> 'v) list \<Rightarrow> bool" where
  "ascending kvs \<equiv> sorted_wrt (<) (map fst kvs)"

lemma keys_al_insert: "fst ` set (al_insert k v kvs) = insert k (fst ` set kvs)"
  by (induction kvs rule: al_insert.induct) auto

lemma ascending_al_insert: "ascending kvs \<Longrightarrow> ascending (al_insert k v kvs)"
proof (induction k v kvs rule: al_insert.induct)
  case (1 k v)
  then show ?case by simp
next
  case (2 k v k' v' kvs)
  then have tail: "\<forall>x \<in> fst ` set kvs. k' < x" by auto
  from 2 show ?case
    using tail keys_al_insert [of k v kvs] by (auto simp: image_iff)
qed

lemma map_of_al_insert: "map_of (al_insert k v kvs) = (map_of kvs)(k \<mapsto> v)"
  by (induction k v kvs rule: al_insert.induct) auto

lemma ascending_filter: "ascending kvs \<Longrightarrow> ascending (filter P kvs)"
  by (induction kvs) auto

lemma map_of_al_remove: "map_of (al_remove k kvs) = (map_of kvs)(k := None)"
  by (induction kvs) (auto simp: al_remove_def)

lemma map_of_nth_Some:
  "distinct (map fst kvs) \<Longrightarrow> i < length kvs \<Longrightarrow> map_of kvs (fst (kvs ! i)) = Some (snd (kvs ! i))"
  by (simp add: map_of_eq_Some_iff)

lemma alist_from_keys:
  "distinct (map fst kvs) \<Longrightarrow> kvs = map (\<lambda>k. (k, the (map_of kvs k))) (map fst kvs)"
  by (rule nth_equalityI) (auto simp: map_of_nth_Some)

lemma ascending_ext:
  assumes "ascending kvs" "ascending kvs'" "map_of kvs = map_of kvs'"
  shows "kvs = kvs'"
proof -
  have "set (map fst kvs) = set (map fst kvs')"
    using arg_cong [OF assms(3), of dom] by (simp add: dom_map_of_conv_image_fst)
  with assms(1,2) have "map fst kvs = map fst kvs'"
    by (rule sorted_wrt_less_unique)
  with assms show ?thesis
    using alist_from_keys [of kvs] alist_from_keys [of kvs']
    by (metis sorted_wrt_less_distinct)
qed

section \<open>The type of ordered maps\<close>

typedef (overloaded) ('k::linorder, 'v) btree_map = "{kvs :: ('k \<times> 'v) list. ascending kvs}"
  morphisms bm_entries BTreeMap
  by (rule exI [of _ "[]"]) simp

setup_lifting type_definition_btree_map

lift_definition bm_empty :: "('k::linorder, 'v) btree_map" is "[]"
  by simp

lift_definition bm_get :: "('k::linorder, 'v) btree_map \<Rightarrow> 'k \<Rightarrow> 'v option" is "map_of" .

lift_definition bm_insert ::
    "'k::linorder \<Rightarrow> 'v \<Rightarrow> ('k, 'v) btree_map \<Rightarrow> ('k, 'v) btree_map" is al_insert
  by (rule ascending_al_insert)

lift_definition bm_remove ::
    "'k::linorder \<Rightarrow> ('k, 'v) btree_map \<Rightarrow> ('k, 'v) btree_map" is al_remove
  by (simp add: al_remove_def ascending_filter)

definition bm_keys :: "('k::linorder, 'v) btree_map \<Rightarrow> 'k list" where
  "bm_keys m = map fst (bm_entries m)"

definition bm_values :: "('k::linorder, 'v) btree_map \<Rightarrow> 'v list" where
  "bm_values m = map snd (bm_entries m)"

definition bm_len :: "('k::linorder, 'v) btree_map \<Rightarrow> nat" where
  "bm_len m = length (bm_entries m)"

lemma bm_entries_empty [simp, tomo_eval]: "bm_entries bm_empty = []"
  by transfer simp

lemma bm_entries_insert [tomo_eval]: "bm_entries (bm_insert k v m) = al_insert k v (bm_entries m)"
  by transfer simp

lemma bm_entries_remove [tomo_eval]: "bm_entries (bm_remove k m) = al_remove k (bm_entries m)"
  by transfer simp

lemma bm_entries_ascending: "ascending (bm_entries m)"
  by transfer simp

lemma bm_get_entries: "bm_get m k = map_of (bm_entries m) k"
  by transfer simp

lemma bm_eq_iff [tomo_eval]: "m = m' \<longleftrightarrow> bm_entries m = bm_entries m'"
  by (simp add: bm_entries_inject)

section \<open>Interface: ordered maps\<close>

locale ordered_map =
  fixes lookup :: "'m \<Rightarrow> 'k::linorder \<Rightarrow> 'v option"
    and insert_at :: "'k \<Rightarrow> 'v \<Rightarrow> 'm \<Rightarrow> 'm"
    and remove_at :: "'k \<Rightarrow> 'm \<Rightarrow> 'm"
    and entries :: "'m \<Rightarrow> ('k \<times> 'v) list"
  assumes lookup_insert: "lookup (insert_at k v m) = (lookup m)(k \<mapsto> v)"
    and lookup_remove: "lookup (remove_at k m) = (lookup m)(k := None)"
    and entries_lookup: "lookup m = map_of (entries m)"
    and entries_ascending: "ascending (entries m)"
    and extensional: "lookup m = lookup m' \<Longrightarrow> m = m'"
begin

lemma mem_entries: "(k, v) \<in> set (entries m) \<longleftrightarrow> lookup m k = Some v"
  using entries_ascending [of m]
  by (simp add: entries_lookup map_of_eq_Some_iff sorted_wrt_less_distinct)

lemma keys_eq_dom: "fst ` set (entries m) = dom (lookup m)"
  by (simp add: entries_lookup dom_map_of_conv_image_fst)

lemma finite_dom_lookup: "finite (dom (lookup m))"
  unfolding keys_eq_dom [symmetric] by simp

lemma distinct_keys: "distinct (map fst (entries m))"
  using entries_ascending by (rule sorted_wrt_less_distinct)

lemma insert_same: "lookup m k = Some v \<Longrightarrow> insert_at k v m = m"
  by (rule extensional) (simp add: lookup_insert fun_upd_idem)

lemma insert_insert: "insert_at k v (insert_at k w m) = insert_at k v m"
  by (rule extensional) (simp add: lookup_insert)

lemma insert_commute:
  "k \<noteq> l \<Longrightarrow> insert_at k v (insert_at l w m) = insert_at l w (insert_at k v m)"
  by (rule extensional) (simp add: lookup_insert fun_upd_twist)

lemma remove_absent: "lookup m k = None \<Longrightarrow> remove_at k m = m"
  by (rule extensional) (simp add: lookup_remove fun_upd_idem)

lemma remove_insert: "lookup m k = None \<Longrightarrow> remove_at k (insert_at k v m) = m"
  by (rule extensional) (simp add: lookup_insert lookup_remove fun_upd_idem)

end

interpretation bm: ordered_map bm_get bm_insert bm_remove bm_entries
proof
  fix k :: 'a and v :: 'b and m m' :: "('a, 'b) btree_map"
  show "bm_get (bm_insert k v m) = (bm_get m)(k \<mapsto> v)"
    by transfer (simp add: map_of_al_insert)
  show "bm_get (bm_remove k m) = (bm_get m)(k := None)"
    by transfer (simp add: map_of_al_remove)
  show "bm_get m = map_of (bm_entries m)"
    by transfer simp
  show "ascending (bm_entries m)"
    by (rule bm_entries_ascending)
  show "m = m'" if "bm_get m = bm_get m'"
    using that by transfer (rule ascending_ext)
qed

lemma bm_get_empty [simp]: "bm_get bm_empty k = None"
  by transfer simp

lemma bm_get_insert [simp]: "bm_get (bm_insert k v m) l = (if l = k then Some v else bm_get m l)"
  by (simp add: bm.lookup_insert)

lemma bm_get_remove [simp]: "bm_get (bm_remove k m) l = (if l = k then None else bm_get m l)"
  by (simp add: bm.lookup_remove)

lemma bm_eqI: "(\<And>k. bm_get m k = bm_get m' k) \<Longrightarrow> m = m'"
  by (rule bm.extensional) auto

lemma set_bm_keys: "set (bm_keys m) = dom (bm_get m)"
  by (simp add: bm_keys_def bm.keys_eq_dom)

lemma bm_values_mem: "v \<in> set (bm_values m) \<longleftrightarrow> (\<exists>k. bm_get m k = Some v)"
  by (force simp: bm_values_def bm.mem_entries [symmetric] image_iff)

end
