(* ===== verification/Tomo_Clock.thy ===== *)
theory Tomo_Clock
  imports Tomo_BTreeMap
begin

text \<open>
  \<^verbatim>\<open>crates/tomo-engine/src/clock.rs\<close>: replica identifiers, vector clocks with
  wrapping u64 counters, and their comparison. The order \<open>vc_le\<close> is the abstract
  specification (pointwise order of the counters); \<open>vc_compare\<close> is shown to decide
  it and \<open>vc_merge\<close> to be its least upper bound. \<open>vc_ok\<close> is the invariant the type
  documents: only positive counters are stored.
\<close>

section \<open>Data\<close>

datatype replica_id = ReplicaId (replica_raw: u64)

instantiation replica_id :: linorder
begin

definition less_eq_replica_id :: "replica_id \<Rightarrow> replica_id \<Rightarrow> bool" where
  "less_eq_replica_id a b \<longleftrightarrow> replica_raw a \<le> replica_raw b"

definition less_replica_id :: "replica_id \<Rightarrow> replica_id \<Rightarrow> bool" where
  "less_replica_id a b \<longleftrightarrow> replica_raw a < replica_raw b"

instance
  by standard (auto simp: less_eq_replica_id_def less_replica_id_def replica_id.expand)

end

declare less_eq_replica_id_def [tomo_eval] less_replica_id_def [tomo_eval]

datatype causality = Equal | Before | After | Concurrent

record vector_clock =
  counters :: "(replica_id, u64) btree_map"

section \<open>Operations\<close>

definition vc_new :: vector_clock where
  "vc_new = \<lparr>counters = bm_empty\<rparr>"

definition vc_tick :: "vector_clock \<Rightarrow> replica_id \<Rightarrow> vector_clock" where
  "vc_tick c r =
     c\<lparr>counters := bm_insert r
        ((case bm_get (counters c) r of None \<Rightarrow> 0 | Some n \<Rightarrow> n) + 1) (counters c)\<rparr>"

definition vc_get :: "vector_clock \<Rightarrow> replica_id \<Rightarrow> u64" where
  "vc_get c r = (case bm_get (counters c) r of None \<Rightarrow> 0 | Some n \<Rightarrow> n)"

definition vc_iter :: "vector_clock \<Rightarrow> (replica_id \<times> u64) list" where
  "vc_iter c = bm_entries (counters c)"

definition vc_merge_entry ::
    "(replica_id, u64) btree_map \<Rightarrow> replica_id \<times> u64 \<Rightarrow> (replica_id, u64) btree_map" where
  "vc_merge_entry m rc =
     (let e = (case bm_get m (fst rc) of None \<Rightarrow> 0 | Some n \<Rightarrow> n)
      in bm_insert (fst rc) (if snd rc > e then snd rc else e) m)"

definition vc_merge :: "vector_clock \<Rightarrow> vector_clock \<Rightarrow> vector_clock" where
  "vc_merge self other =
     self\<lparr>counters := foldl vc_merge_entry (counters self) (bm_entries (counters other))\<rparr>"

definition vc_compare :: "vector_clock \<Rightarrow> vector_clock \<Rightarrow> causality" where
  "vc_compare self other =
     (let (self_ahead, other_ahead) =
        foldl (\<lambda>(sa, oa) r.
            let a = vc_get self r; b = vc_get other r
            in (sa \<or> a > b, oa \<or> b > a))
          (False, False) (bm_keys (counters self) @ bm_keys (counters other))
      in case (self_ahead, other_ahead) of
           (False, False) \<Rightarrow> Equal
         | (False, True) \<Rightarrow> Before
         | (True, False) \<Rightarrow> After
         | (True, True) \<Rightarrow> Concurrent)"

section \<open>Specification: the pointwise order\<close>

definition vc_ok :: "vector_clock \<Rightarrow> bool" where
  "vc_ok c \<longleftrightarrow> (\<forall>n \<in> set (bm_values (counters c)). 0 < n)"

definition vc_le :: "vector_clock \<Rightarrow> vector_clock \<Rightarrow> bool" where
  "vc_le x y \<longleftrightarrow> (\<forall>r. vc_get x r \<le> vc_get y r)"

lemma vc_ok_iff: "vc_ok c \<longleftrightarrow> (\<forall>r n. bm_get (counters c) r = Some n \<longrightarrow> 0 < n)"
  by (auto simp: vc_ok_def bm_values_mem)

lemma vc_get_new [simp]: "vc_get vc_new r = 0"
  by (simp add: vc_get_def vc_new_def)

lemma vc_get_tick: "vc_get (vc_tick c r) q = (if q = r then vc_get c r + 1 else vc_get c q)"
  by (simp add: vc_get_def vc_tick_def)

lemma vc_get_outside: "r \<notin> set (bm_keys (counters c)) \<Longrightarrow> vc_get c r = 0"
  by (auto simp: vc_get_def set_bm_keys domIff)

lemma vc_eq_iff:
  assumes "vc_ok x" "vc_ok y"
  shows "x = y \<longleftrightarrow> (\<forall>r. vc_get x r = vc_get y r)"
proof
  assume eq: "\<forall>r. vc_get x r = vc_get y r"
  have "counters x = counters y"
  proof (rule bm_eqI)
    fix r
    show "bm_get (counters x) r = bm_get (counters y) r"
      using eq [rule_format, of r] assms unfolding vc_ok_iff vc_get_def
      by (cases "bm_get (counters x) r"; cases "bm_get (counters y) r") auto
  qed
  then show "x = y" by simp
qed simp

lemma vc_le_refl [simp, intro]: "vc_le x x"
  by (simp add: vc_le_def)

lemma vc_le_trans [trans]: "vc_le x y \<Longrightarrow> vc_le y z \<Longrightarrow> vc_le x z"
  unfolding vc_le_def by (meson order_trans)

lemma vc_le_antisym: "vc_ok x \<Longrightarrow> vc_ok y \<Longrightarrow> vc_le x y \<Longrightarrow> vc_le y x \<Longrightarrow> x = y"
  by (auto simp: vc_le_def vc_eq_iff intro: order_antisym)

section \<open>Merge\<close>

lemma vc_get_merge_entry:
  "vc_get \<lparr>counters = vc_merge_entry m (q, c)\<rparr> p =
     (if p = q then max (vc_get \<lparr>counters = m\<rparr> q) c else vc_get \<lparr>counters = m\<rparr> p)"
  by (auto simp: vc_get_def vc_merge_entry_def Let_def max_def split: option.splits)

lemma vc_get_merge_fold:
  "distinct (map fst kvs) \<Longrightarrow>
   vc_get \<lparr>counters = foldl vc_merge_entry m kvs\<rparr> r =
     max (vc_get \<lparr>counters = m\<rparr> r) (case map_of kvs r of None \<Rightarrow> 0 | Some c \<Rightarrow> c)"
proof (induction kvs arbitrary: m)
  case Nil
  then show ?case by (simp add: max_def)
next
  case (Cons kv kvs)
  obtain q c where kv: "kv = (q, c)" by (cases kv)
  with Cons.prems have "map_of kvs q = None"
    by (simp add: map_of_eq_None_iff)
  with Cons show ?case
    by (auto simp: kv vc_get_merge_entry)
qed

lemma vc_get_merge: "vc_get (vc_merge x y) r = max (vc_get x r) (vc_get y r)"
proof -
  have "vc_get (vc_merge x y) r =
      vc_get \<lparr>counters = foldl vc_merge_entry (counters x) (bm_entries (counters y))\<rparr> r"
    by (simp add: vc_merge_def vc_get_def)
  also have "\<dots> = max (vc_get \<lparr>counters = counters x\<rparr> r) (vc_get y r)"
    by (simp add: vc_get_merge_fold bm.distinct_keys vc_get_def [of y] bm.entries_lookup)
  finally show ?thesis by (simp add: vc_get_def)
qed

lemma counters_merge_pos:
  assumes "\<And>r n. bm_get m r = Some n \<Longrightarrow> 0 < n" "\<forall>c \<in> snd ` set kvs. 0 < c"
  shows "bm_get (foldl vc_merge_entry m kvs) r = Some n \<Longrightarrow> 0 < n"
  using assms
proof (induction kvs arbitrary: m r n)
  case Nil
  then show ?case by simp
next
  case (Cons kv kvs)
  have "0 < l" if "bm_get (vc_merge_entry m kv) q = Some l" for q l
    using that Cons.prems(2) [of q l] Cons.prems(3)
    by (auto simp: vc_merge_entry_def Let_def not_less split: if_splits option.splits)
  with Cons.prems Cons.IH [of "vc_merge_entry m kv"] show ?case by simp
qed

lemma vc_ok_new [tomo_inv, simp]: "vc_ok vc_new"
  by (simp add: vc_ok_iff vc_new_def)

lemma vc_ok_merge [tomo_inv]: "vc_ok x \<Longrightarrow> vc_ok y \<Longrightarrow> vc_ok (vc_merge x y)"
proof -
  assume ok: "vc_ok x" "vc_ok y"
  then have y: "\<forall>c \<in> snd ` set (bm_entries (counters y)). 0 < c"
    by (auto simp: vc_ok_iff bm.mem_entries)
  have x: "0 < n" if "bm_get (counters x) r = Some n" for r n
    using ok(1) that by (simp add: vc_ok_iff)
  show ?thesis
    unfolding vc_ok_iff vc_merge_def using counters_merge_pos [OF x y] by simp
qed

lemma vc_get_max_iff: "vc_get c r \<noteq> - 1 \<Longrightarrow> vc_get c r < vc_get c r + 1"
  by (rule u64_less_Suc)

lemma vc_ok_tick [tomo_inv]: "vc_ok c \<Longrightarrow> vc_get c r \<noteq> - 1 \<Longrightarrow> vc_ok (vc_tick c r)"
  using u64_less_Suc [of "vc_get c r"]
  by (auto simp: vc_ok_iff vc_tick_def vc_get_def word_gt_0 split: option.splits if_splits)

lemma vc_le_merge1: "vc_le x (vc_merge x y)" and vc_le_merge2: "vc_le y (vc_merge x y)"
  by (simp_all add: vc_le_def vc_get_merge)

lemma vc_merge_le_iff: "vc_le (vc_merge x y) z \<longleftrightarrow> vc_le x z \<and> vc_le y z"
  by (auto simp: vc_le_def vc_get_merge)

lemma vc_le_tick: "vc_get c r \<noteq> - 1 \<Longrightarrow> vc_le c (vc_tick c r)"
  using u64_less_Suc [of "vc_get c r"] by (auto simp: vc_le_def vc_get_tick)

lemma vc_not_tick_le: "vc_get c r \<noteq> - 1 \<Longrightarrow> \<not> vc_le (vc_tick c r) c"
  using u64_less_Suc [of "vc_get c r"]
  by (auto simp: vc_le_def vc_get_tick not_le intro!: exI [of _ r])

section \<open>Comparison decides the pointwise order\<close>

lemma compare_flags:
  "foldl (\<lambda>(sa, oa) r. let a = vc_get x r; b = vc_get y r in (sa \<or> a > b, oa \<or> b > a)) (p, q) rs =
     (p \<or> (\<exists>r \<in> set rs. vc_get x r > vc_get y r), q \<or> (\<exists>r \<in> set rs. vc_get y r > vc_get x r))"
  by (induction rs arbitrary: p q) (auto simp: Let_def)

lemma ahead_among_keys:
  "(\<exists>r \<in> set (bm_keys (counters x) @ bm_keys (counters y)). vc_get x r > vc_get y r) \<longleftrightarrow> \<not> vc_le x y"
  "(\<exists>r \<in> set (bm_keys (counters x) @ bm_keys (counters y)). vc_get y r > vc_get x r) \<longleftrightarrow> \<not> vc_le y x"
proof -
  have "vc_get x r = 0 \<and> vc_get y r = 0"
    if "r \<notin> set (bm_keys (counters x) @ bm_keys (counters y))" for r
    using that by (simp add: vc_get_outside)
  then show
    "(\<exists>r \<in> set (bm_keys (counters x) @ bm_keys (counters y)). vc_get x r > vc_get y r) \<longleftrightarrow> \<not> vc_le x y"
    "(\<exists>r \<in> set (bm_keys (counters x) @ bm_keys (counters y)). vc_get y r > vc_get x r) \<longleftrightarrow> \<not> vc_le y x"
    unfolding vc_le_def by (metis linorder_not_le order_refl)+
qed

lemma vc_compare_cases:
  "vc_compare x y =
     (if vc_le x y then if vc_le y x then Equal else Before
      else if vc_le y x then After else Concurrent)"
  unfolding vc_compare_def compare_flags ahead_among_keys by simp

text \<open>\<open>VectorClock::compare\<close> decides the pointwise order of the counters: it
  answers Equal, Before, After and Concurrent exactly for clocks that are equal,
  strictly below, strictly above and incomparable in that order.\<close>

theorem vc_compare_decides:
  "(vc_compare x y = Equal \<longleftrightarrow> (\<forall>r. vc_get x r = vc_get y r)) \<and>
   (vc_compare x y = Before \<longleftrightarrow> vc_le x y \<and> \<not> vc_le y x) \<and>
   (vc_compare x y = After \<longleftrightarrow> vc_le y x \<and> \<not> vc_le x y) \<and>
   (vc_compare x y = Concurrent \<longleftrightarrow> \<not> vc_le x y \<and> \<not> vc_le y x)"
  by (auto simp: vc_compare_cases vc_le_def order_antisym)

lemma vc_compare_Equal_iff: "vc_ok x \<Longrightarrow> vc_ok y \<Longrightarrow> vc_compare x y = Equal \<longleftrightarrow> x = y"
  by (auto simp: vc_compare_cases dest: vc_le_antisym)

lemma vc_compare_ge_iff: "vc_compare x y \<in> {After, Equal} \<longleftrightarrow> vc_le y x"
  by (auto simp: vc_compare_cases)

lemma vc_compare_le_iff: "vc_compare x y \<in> {Before, Equal} \<longleftrightarrow> vc_le x y"
  by (auto simp: vc_compare_cases)

text \<open>\<open>VectorClock::merge\<close> is the join of the clocks: least upper bound of the
  pointwise order, and on clocks of positive counters it is commutative, associative
  and idempotent as an operation on the stored maps.\<close>

theorem vc_merge_join:
  assumes "vc_ok x" "vc_ok y" "vc_ok z"
  shows "(\<forall>u. vc_le (vc_merge x y) u \<longleftrightarrow> vc_le x u \<and> vc_le y u) \<and>
    vc_merge x y = vc_merge y x \<and>
    vc_merge (vc_merge x y) z = vc_merge x (vc_merge y z) \<and>
    vc_merge x x = x"
  using assms
  by (auto simp: vc_merge_le_iff vc_eq_iff vc_ok_merge vc_get_merge ac_simps)

theorem vc_merge_join_witness:
  "vc_merge (vc_tick vc_new (ReplicaId 1)) (vc_tick vc_new (ReplicaId 2)) =
   vc_merge (vc_tick vc_new (ReplicaId 2)) (vc_tick vc_new (ReplicaId 1))"
proof -
  have ok: "vc_ok (vc_tick vc_new r)" for r
    by (rule vc_ok_tick) simp_all
  show ?thesis
    using vc_merge_join [OF ok [of "ReplicaId 1"] ok [of "ReplicaId 2"] vc_ok_new] by blast
qed

text \<open>\<open>VectorClock::tick\<close> strictly advances the clock unless the u64 counter
  is at its maximum, where the release build wraps it to zero and the clock moves
  strictly backwards.\<close>

theorem vc_tick_advances:
  "vc_compare (vc_tick c r) c = (if vc_get c r = - 1 then Before else After)"
proof (cases "vc_get c r = - 1")
  case True
  then have "vc_le (vc_tick c r) c" "\<not> vc_le c (vc_tick c r)"
    by (auto simp: vc_le_def vc_get_tick intro!: exI [of _ r])
  with True show ?thesis by (simp add: vc_compare_cases)
next
  case False
  then show ?thesis
    by (simp add: vc_compare_cases vc_le_tick vc_not_tick_le)
qed

end
