(* ===== verification/Tomo_Head.thy ===== *)
theory Tomo_Head
  imports Tomo_Clock "HOL-Library.Product_Lexorder"
begin

text \<open>
  First half of \<^verbatim>\<open>crates/tomo-engine/src/index.rs\<close>: content hashes and signatures,
  entry states, heads, their canonical encoding and the winner order. The equality
  the source derives (\<^verbatim>\<open>PartialEq\<close> of \<open>ContentSig\<close> leaves \<open>mtime_ms\<close> out, and every
  type containing a signature inherits it) is \<open>sig_eq\<close>, \<open>state_eq\<close>, \<open>head_eq\<close>; HOL
  equality compares every field.
\<close>

section \<open>Data\<close>

typedef content_hash = "{bs :: bytes. length bs = 32}"
  morphisms hash_bytes ContentHash
  by (rule exI [of _ "replicate 32 0"]) simp

lemma length_hash_bytes [simp]: "length (hash_bytes h) = 32"
  using hash_bytes [of h] by simp

lemma hash_bytes_ContentHash [simp]: "length bs = 32 \<Longrightarrow> hash_bytes (ContentHash bs) = bs"
  by (simp add: ContentHash_inverse)

lemma content_hash_eq_iff [tomo_eval]: "h = h' \<longleftrightarrow> hash_bytes h = hash_bytes h'"
  by (simp add: hash_bytes_inject)

definition hex_digit :: "nat \<Rightarrow> char" where
  "hex_digit n = (if n < 10 then char_of (48 + n) else char_of (87 + n))"

definition hash_display :: "content_hash \<Rightarrow> string" where
  "hash_display h =
     concat (map (\<lambda>b. [hex_digit (unat b div 16), hex_digit (unat b mod 16)]) (hash_bytes h))"

record content_sig =
  sig_hash :: content_hash
  sig_size :: u64
  sig_exec :: bool
  sig_mtime_ms :: u64

definition sig_eq :: "content_sig \<Rightarrow> content_sig \<Rightarrow> bool" where
  "sig_eq a b \<longleftrightarrow> sig_hash a = sig_hash b \<and> sig_size a = sig_size b \<and> sig_exec a = sig_exec b"

datatype entry_state = Present content_sig | Tombstone

fun state_eq :: "entry_state \<Rightarrow> entry_state \<Rightarrow> bool" where
  "state_eq (Present a) (Present b) \<longleftrightarrow> sig_eq a b"
| "state_eq Tombstone Tombstone \<longleftrightarrow> True"
| "state_eq _ _ \<longleftrightarrow> False"

record head =
  hd_version :: vector_clock
  hd_state :: entry_state

definition head_eq :: "head \<Rightarrow> head \<Rightarrow> bool" where
  "head_eq a b \<longleftrightarrow> hd_version a = hd_version b \<and> state_eq (hd_state a) (hd_state b)"

section \<open>Canonical encoding of a head\<close>

definition pair_bytes :: "replica_id \<times> u64 \<Rightarrow> bytes" where
  "pair_bytes rc = u64_le (replica_raw (fst rc)) @ u64_le (snd rc)"

definition head_encode :: "head \<Rightarrow> bytes \<Rightarrow> bytes" where
  "head_encode h out =
     (let clock = vc_iter (hd_version h)
      in out @ u64_le (of_nat (length clock)) @ concat (map pair_bytes clock) @
         (case hd_state h of
            Tombstone \<Rightarrow> [0]
          | Present sig \<Rightarrow>
              [1] @ hash_bytes (sig_hash sig) @ u64_le (sig_size sig) @ [if sig_exec sig then 1 else 0]))"

definition head_sort_key :: "head \<Rightarrow> bytes" where
  "head_sort_key h = head_encode h []"

definition clock_key :: "vector_clock \<Rightarrow> bytes" where
  "clock_key v = concat (map pair_bytes (vc_iter v))"

section \<open>Content comparison and the winner order\<close>

definition disjoint_support :: "vector_clock \<Rightarrow> vector_clock \<Rightarrow> bool" where
  "disjoint_support a b \<longleftrightarrow> \<not> list_ex (\<lambda>(replica, _). vc_get b replica > 0) (vc_iter a)"

fun same_content :: "entry_state \<Rightarrow> entry_state \<Rightarrow> bool" where
  "same_content (Present x) (Present y) \<longleftrightarrow> sig_hash x = sig_hash y \<and> sig_exec x = sig_exec y"
| "same_content Tombstone Tombstone \<longleftrightarrow> True"
| "same_content _ _ \<longleftrightarrow> False"

definition winner_cmp :: "head \<Rightarrow> head \<Rightarrow> bool \<Rightarrow> ordering" where
  "winner_cmp a b adoption =
     (case (hd_state a, hd_state b) of
        (Present sa, Present sb) \<Rightarrow>
          let standard =
            cmp_then (cmp_then
              (cmp (hash_bytes (sig_hash sa)) (hash_bytes (sig_hash sb)))
              (cmp (sig_exec sa) (sig_exec sb)))
              (cmp (clock_key (hd_version a)) (clock_key (hd_version b)))
          in if adoption then cmp_then (cmp (sig_mtime_ms sa) (sig_mtime_ms sb)) standard
             else standard
      | (Present _, Tombstone) \<Rightarrow> Greater
      | (Tombstone, Present _) \<Rightarrow> Less
      | (Tombstone, Tombstone) \<Rightarrow> cmp (clock_key (hd_version a)) (clock_key (hd_version b)))"

section \<open>The derived equalities are equivalences\<close>

lemma sig_eq_refl [simp]: "sig_eq a a"
  by (simp add: sig_eq_def)

lemma sig_eq_sym: "sig_eq a b \<longleftrightarrow> sig_eq b a"
  by (auto simp: sig_eq_def)

lemma sig_eq_trans: "sig_eq a b \<Longrightarrow> sig_eq b c \<Longrightarrow> sig_eq a c"
  by (simp add: sig_eq_def)

lemma state_eq_refl [simp]: "state_eq a a"
  by (cases a) auto

lemma state_eq_sym: "state_eq a b \<longleftrightarrow> state_eq b a"
  by (cases a; cases b) (auto simp: sig_eq_sym)

lemma state_eq_trans: "state_eq a b \<Longrightarrow> state_eq b c \<Longrightarrow> state_eq a c"
  by (cases a; cases b; cases c) (auto dest: sig_eq_trans)

lemma head_eq_refl [simp]: "head_eq h h"
  by (simp add: head_eq_def)

lemma state_eq_same_content: "state_eq a b \<Longrightarrow> same_content a b"
  by (cases a; cases b) (auto simp: sig_eq_def)

lemma same_content_refl [simp]: "same_content a a"
  by (cases a) auto

lemma same_content_sym: "same_content a b \<longleftrightarrow> same_content b a"
  by (cases a; cases b) auto

section \<open>Encodings determine what they encode\<close>

lemma length_pair_bytes [simp]: "length (pair_bytes rc) = 16"
  by (simp add: pair_bytes_def)

lemma pair_bytes_decode: "pair_bytes a @ r = pair_bytes b @ s \<Longrightarrow> a = b \<and> r = s"
  by (cases a; cases b) (auto simp: pair_bytes_def replica_id.expand)

interpretation pair_code: prefix_code pair_bytes "\<lambda>_. True" "(=)"
  by unfold_locales (rule pair_bytes_decode)

lemma length_pairs [simp]: "length (concat (map pair_bytes ps)) = 16 * length ps"
  by (induction ps) auto

lemma pairs_decode:
  "length ps = length qs \<Longrightarrow> concat (map pair_bytes ps) @ r = concat (map pair_bytes qs) @ s \<Longrightarrow>
   ps = qs \<and> r = s"
  using pair_code.records_decode [of ps qs r s] by (simp add: list.rel_eq)

lemma vc_iter_inject: "vc_iter v = vc_iter w \<longleftrightarrow> v = w"
  by (auto simp: vc_iter_def bm_entries_inject)

lemma clock_key_inject [simp]: "clock_key v = clock_key w \<longleftrightarrow> v = w"
proof
  assume eq: "clock_key v = clock_key w"
  then have "length (clock_key v) = length (clock_key w)" by simp
  then have "length (vc_iter v) = length (vc_iter w)" by (simp add: clock_key_def)
  with eq have "vc_iter v = vc_iter w"
    using pairs_decode [of "vc_iter v" "vc_iter w" "[]" "[]"] by (simp add: clock_key_def)
  then show "v = w" by (simp add: vc_iter_inject)
qed simp

definition state_bytes :: "entry_state \<Rightarrow> bytes" where
  "state_bytes s = (case s of
      Tombstone \<Rightarrow> [0]
    | Present sig \<Rightarrow>
        [1] @ hash_bytes (sig_hash sig) @ u64_le (sig_size sig) @ [if sig_exec sig then 1 else 0])"

lemma head_encode_parts:
  "head_encode h out =
     out @ u64_le (of_nat (length (vc_iter (hd_version h)))) @
     clock_key (hd_version h) @ state_bytes (hd_state h)"
  by (simp add: head_encode_def clock_key_def state_bytes_def Let_def)

lemma state_bytes_decode: "state_bytes a @ r = state_bytes b @ s \<Longrightarrow> state_eq a b \<and> r = s"
proof (cases a; cases b)
  fix x y assume ab: "a = Present x" "b = Present y" and eq: "state_bytes a @ r = state_bytes b @ s"
  have "length (hash_bytes (sig_hash x)) = length (hash_bytes (sig_hash y))" by simp
  with eq ab show "state_eq a b \<and> r = s"
    by (auto simp: state_bytes_def sig_eq_def content_hash_eq_iff split: if_splits)
qed (auto simp: state_bytes_def)

lemma length_state_bytes: "length (state_bytes s) = (case s of Tombstone \<Rightarrow> 1 | Present _ \<Rightarrow> 42)"
  by (auto simp: state_bytes_def split: entry_state.splits)

text \<open>The sort key determines the clock: the total length fixes the number of pairs,
  since the two state encodings differ in length by 41, which is not a multiple of 16.\<close>

lemma head_sort_key_version:
  assumes "head_sort_key a = head_sort_key b"
  shows "hd_version a = hd_version b"
proof -
  let ?n = "\<lambda>h. length (vc_iter (hd_version h))" and ?t = "\<lambda>h. length (state_bytes (hd_state h))"
  have "length (head_sort_key a) = length (head_sort_key b)"
    using assms by simp
  then have "16 * ?n a + ?t a = 16 * ?n b + ?t b"
    by (simp add: head_sort_key_def head_encode_parts clock_key_def)
  moreover have "?t a = 1 \<or> ?t a = 42" "?t b = 1 \<or> ?t b = 42"
    by (auto simp: length_state_bytes split: entry_state.splits)
  ultimately have "?n a = ?n b" by presburger
  from assms have "concat (map pair_bytes (vc_iter (hd_version a))) @ state_bytes (hd_state a) =
      concat (map pair_bytes (vc_iter (hd_version b))) @ state_bytes (hd_state b)"
    by (simp add: head_sort_key_def head_encode_parts clock_key_def \<open>?n a = ?n b\<close>)
  from pairs_decode [OF \<open>?n a = ?n b\<close> this] show ?thesis by (simp add: vc_iter_inject)
qed

definition clock_fits :: "vector_clock \<Rightarrow> bool" where
  "clock_fits v \<longleftrightarrow> length (vc_iter v) < 2 ^ 64"

lemma of_nat_u64_inject:
  "m < 2 ^ 64 \<Longrightarrow> n < 2 ^ 64 \<Longrightarrow> (of_nat m :: u64) = of_nat n \<longleftrightarrow> m = n"
proof
  assume less: "m < 2 ^ 64" "n < 2 ^ 64" and "(of_nat m :: u64) = of_nat n"
  then have "unat (of_nat m :: u64) = unat (of_nat n :: u64)" by (simp only:)
  then have "m mod 2 ^ LENGTH(64) = n mod 2 ^ LENGTH(64)" by (simp only: unat_of_nat)
  then have "m mod 2 ^ 64 = n mod 2 ^ 64" by simp
  then show "m = n" using less by (simp only: mod_less)
qed simp

interpretation head_code: prefix_code "\<lambda>h. head_encode h []" "\<lambda>h. clock_fits (hd_version h)" head_eq
proof
  fix x y :: head and r s :: bytes
  assume fits: "clock_fits (hd_version x)" "clock_fits (hd_version y)"
    and eq: "head_encode x [] @ r = head_encode y [] @ s"
  from eq have "u64_le (of_nat (length (vc_iter (hd_version x)))) =
      u64_le (of_nat (length (vc_iter (hd_version y))))"
    and rest: "clock_key (hd_version x) @ state_bytes (hd_state x) @ r =
      clock_key (hd_version y) @ state_bytes (hd_state y) @ s"
    by (simp_all add: head_encode_parts)
  then have "length (vc_iter (hd_version x)) = length (vc_iter (hd_version y))"
    using fits by (simp add: clock_fits_def of_nat_u64_inject)
  from pairs_decode [OF this] rest have "vc_iter (hd_version x) = vc_iter (hd_version y)"
    and "state_bytes (hd_state x) @ r = state_bytes (hd_state y) @ s"
    by (auto simp: clock_key_def)
  then show "head_eq x y \<and> r = s"
    using state_bytes_decode by (simp add: head_eq_def vc_iter_inject)
qed

section \<open>The winner order as a lexicographic rank\<close>

definition winner_rank :: "bool \<Rightarrow> head \<Rightarrow> bool \<times> u64 \<times> bytes \<times> bool \<times> bytes" where
  "winner_rank adoption h = (case hd_state h of
      Tombstone \<Rightarrow> (False, 0, [], False, clock_key (hd_version h))
    | Present s \<Rightarrow> (True, if adoption then sig_mtime_ms s else 0, hash_bytes (sig_hash s),
        sig_exec s, clock_key (hd_version h)))"

lemma winner_cmp_rank: "winner_cmp a b adoption = cmp (winner_rank adoption a) (winner_rank adoption b)"
  by (auto simp: winner_cmp_def winner_rank_def cmp_then_def cmp_def Let_def less_prod_def
      split: entry_state.splits)

lemma winner_rank_version: "winner_rank m a = winner_rank m b \<Longrightarrow> hd_version a = hd_version b"
  by (auto simp: winner_rank_def split: entry_state.splits)

end
