(* ===== verification/Tomo_Entry.thy ===== *)
theory Tomo_Entry
  imports Tomo_Head "HOL-Library.Monad_Syntax"
begin

text \<open>
  The multi-value register of \<^verbatim>\<open>crates/tomo-engine/src/index.rs\<close>: an entry is the list
  of its concurrent heads, \<open>absorb\<close> integrates a version, \<open>winner\<close> picks the head that
  belongs on disk. \<open>winner\<close> returns \<open>None\<close> where the source reaches \<open>unreachable!\<close>
  (an entry without heads), and \<open>absorb\<close> passes that panic on.

  The abstract side is the locale \<open>causal_order\<close>: joining an element into an antichain
  keeps the maximal elements of everything absorbed so far. Interpreted on clocks, it
  gives convergence: an entry is a function of the set of versions it has absorbed.
\<close>

section \<open>Interface: maximal elements of a causal order\<close>

locale causal_order =
  fixes le :: "'a \<Rightarrow> 'a \<Rightarrow> bool"
    and ok :: "'a \<Rightarrow> bool"
  assumes refl: "le x x"
    and trans: "le x y \<Longrightarrow> le y z \<Longrightarrow> le x z"
    and antisym: "ok x \<Longrightarrow> ok y \<Longrightarrow> le x y \<Longrightarrow> le y x \<Longrightarrow> x = y"
begin

definition maximal :: "'a set \<Rightarrow> 'a set" where
  "maximal S = {x \<in> S. \<forall>y \<in> S. le x y \<longrightarrow> y = x}"

definition join :: "'a set \<Rightarrow> 'a \<Rightarrow> 'a set" where
  "join S x = (if \<exists>y \<in> S. le x y then S else insert x {y \<in> S. \<not> le y x})"

lemma maximal_subset: "maximal S \<subseteq> S"
  by (auto simp: maximal_def)

lemma maximal_idem: "maximal (maximal S) = maximal S"
  by (auto simp: maximal_def)

lemma maximal_above:
  assumes "finite S" "\<forall>y \<in> S. ok y" "x \<in> S"
  shows "\<exists>m \<in> maximal S. le x m"
  using assms
proof (induction "card {y \<in> S. le x y}" arbitrary: x rule: less_induct)
  case less
  show ?case
  proof (cases "x \<in> maximal S")
    case True
    then show ?thesis using refl by blast
  next
    case False
    with less.prems obtain y where y: "y \<in> S" "le x y" "y \<noteq> x"
      by (auto simp: maximal_def)
    have "x \<notin> {z \<in> S. le y z}"
      using y less.prems antisym by blast
    moreover have "{z \<in> S. le y z} \<subseteq> {z \<in> S. le x z}"
      using y trans by blast
    moreover have "x \<in> {z \<in> S. le x z}" using less.prems refl by blast
    ultimately have "{z \<in> S. le y z} \<subset> {z \<in> S. le x z}" by blast
    then have "card {z \<in> S. le y z} < card {z \<in> S. le x z}"
      using less.prems by (intro psubset_card_mono) auto
    with less y show ?thesis by (meson trans)
  qed
qed

lemma maximal_nonempty:
  "finite S \<Longrightarrow> \<forall>y \<in> S. ok y \<Longrightarrow> S \<noteq> {} \<Longrightarrow> maximal S \<noteq> {}"
  using maximal_above by blast

lemma join_maximal:
  assumes "finite S" "\<forall>y \<in> S. ok y" "ok x"
  shows "join (maximal S) x = maximal (insert x S)"
proof (cases "\<exists>y \<in> maximal S. le x y")
  case True
  then obtain m where m: "m \<in> maximal S" "le x m" by blast
  then have mS: "m \<in> S" using maximal_subset by blast
  have "maximal (insert x S) = maximal S"
  proof
    show "maximal (insert x S) \<subseteq> maximal S"
      using m mS by (auto simp: maximal_def)
    show "maximal S \<subseteq> maximal (insert x S)"
    proof
      fix z assume z: "z \<in> maximal S"
      then have "le z x \<Longrightarrow> m = z"
        using m trans mS by (auto simp: maximal_def)
      with z m mS assms antisym have "le z x \<Longrightarrow> x = z" by blast
      with z show "z \<in> maximal (insert x S)" by (auto simp: maximal_def)
    qed
  qed
  with True show ?thesis by (simp add: join_def)
next
  case False
  then have no: "\<not> le x y" if "y \<in> S" for y
    using that maximal_above [OF assms(1,2) that] trans by blast
  have "maximal (insert x S) = insert x {y \<in> maximal S. \<not> le y x}"
    using no refl by (auto simp: maximal_def)
  with False show ?thesis by (simp add: join_def)
qed

lemma join_fold:
  "finite S \<Longrightarrow> \<forall>y \<in> S. ok y \<Longrightarrow> \<forall>x \<in> set xs. ok x \<Longrightarrow>
   foldl join (maximal S) xs = maximal (S \<union> set xs)"
proof (induction xs arbitrary: S)
  case Nil
  then show ?case by simp
next
  case (Cons x xs)
  then show ?case using Cons.IH [of "insert x S"] by (simp add: join_maximal)
qed

lemma maximal_union:
  assumes "finite S" "\<forall>y \<in> S. ok y" "\<forall>y \<in> T. ok y"
  shows "maximal (maximal S \<union> T) = maximal (S \<union> T)"
proof
  show "maximal (maximal S \<union> T) \<subseteq> maximal (S \<union> T)"
  proof
    fix x assume x: "x \<in> maximal (maximal S \<union> T)"
    then have xS: "x \<in> S \<union> T" and max: "\<And>y. y \<in> maximal S \<union> T \<Longrightarrow> le x y \<Longrightarrow> y = x"
      by (auto simp: maximal_def)
    have "y = x" if y: "y \<in> S" "le x y" for y
    proof -
      obtain m where m: "m \<in> maximal S" "le y m" using maximal_above [OF assms(1,2) y(1)] by blast
      then have "m = x" using max [of m] trans [OF y(2)] by blast
      then show ?thesis using antisym [of y x] m y xS assms(2,3) by blast
    qed
    with xS max show "x \<in> maximal (S \<union> T)" by (auto simp: maximal_def)
  qed
  show "maximal (S \<union> T) \<subseteq> maximal (maximal S \<union> T)"
    by (auto simp: maximal_def)
qed

lemma maximal_antichain: "x \<in> maximal S \<Longrightarrow> y \<in> maximal S \<Longrightarrow> le x y \<Longrightarrow> x = y"
  by (auto simp: maximal_def)

lemma maximal_of_antichain:
  "(\<And>x y. x \<in> S \<Longrightarrow> y \<in> S \<Longrightarrow> le x y \<Longrightarrow> x = y) \<Longrightarrow> maximal S = S"
  by (auto simp: maximal_def)

lemma maximal_singleton [simp]: "maximal {x} = {x}"
  by (auto simp: maximal_def)

lemma maximal_insert_top:
  "\<forall>y \<in> S. le y x \<Longrightarrow> \<forall>y \<in> S. \<not> le x y \<Longrightarrow> maximal (insert x S) = {x}"
  using refl by (auto simp: maximal_def)

end

interpretation clocks: causal_order vc_le vc_ok
  by unfold_locales (auto intro: vc_le_trans vc_le_antisym)

section \<open>Entries\<close>

record entry =
  heads :: "head list"

datatype absorb_outcome =
    AlreadyKnown
  | Absorbed (winner_changed: bool) (new_conflict: bool) (novel_content: bool)

definition entry_single :: "vector_clock \<Rightarrow> entry_state \<Rightarrow> entry" where
  "entry_single v s = \<lparr>heads = [\<lparr>hd_version = v, hd_state = s\<rparr>]\<rparr>"

fun pairwise_disjoint :: "head list \<Rightarrow> bool" where
  "pairwise_disjoint [] \<longleftrightarrow> True"
| "pairwise_disjoint (h # hs) \<longleftrightarrow>
     list_all (\<lambda>other. disjoint_support (hd_version h) (hd_version other)) hs \<and> pairwise_disjoint hs"

definition adoption_mode :: "entry \<Rightarrow> bool" where
  "adoption_mode e = (if length (heads e) < 2 then False else pairwise_disjoint (heads e))"

definition winner :: "entry \<Rightarrow> head option" where
  "winner e = (let adoption = adoption_mode e
     in case heads e of
          [] \<Rightarrow> None
        | best # iter \<Rightarrow>
            Some (foldl (\<lambda>best h. if winner_cmp h best adoption = Greater then h else best) best iter))"

definition merged_clock :: "entry \<Rightarrow> vector_clock" where
  "merged_clock e = foldl (\<lambda>clock h. vc_merge clock (hd_version h)) vc_new (heads e)"

definition heads_conflict :: "entry \<Rightarrow> bool" where
  "heads_conflict e = (case heads e of
      [] \<Rightarrow> False
    | first # _ \<Rightarrow> list_ex (\<lambda>h. \<not> same_content (hd_state h) (hd_state first)) (heads e))"

definition absorb :: "entry \<Rightarrow> vector_clock \<Rightarrow> entry_state \<Rightarrow> (entry \<times> absorb_outcome) option" where
  "absorb e v s =
     (if list_ex (\<lambda>h. vc_compare (hd_version h) v = After \<or> vc_compare (hd_version h) v = Equal) (heads e)
      then Some (e, AlreadyKnown)
      else do {
        winner_before \<leftarrow> map_option hd_state (winner e);
        let before_len = length (heads e);
        let novel = \<not> list_ex (\<lambda>h. same_content (hd_state h) s) (heads e);
        let kept = filter (\<lambda>h. vc_compare (hd_version h) v \<noteq> Before) (heads e);
        let e' = e\<lparr>heads := sort_key head_sort_key (kept @ [\<lparr>hd_version = v, hd_state = s\<rparr>])\<rparr>;
        let after_len = length (heads e');
        winner_after \<leftarrow> map_option hd_state (winner e');
        Some (e', Absorbed (\<not> state_eq winner_before winner_after)
          (before_len = 1 \<and> after_len \<ge> 2 \<and> heads_conflict e') novel)
      })"

section \<open>Invariant of an entry\<close>

definition versions :: "entry \<Rightarrow> vector_clock set" where
  "versions e = hd_version ` set (heads e)"

definition entry_wf :: "entry \<Rightarrow> bool" where
  "entry_wf e \<longleftrightarrow> heads e \<noteq> [] \<and>
     (\<forall>h \<in> set (heads e). vc_ok (hd_version h)) \<and>
     (\<forall>h \<in> set (heads e). \<forall>h' \<in> set (heads e). h \<noteq> h' \<longrightarrow>
        vc_compare (hd_version h) (hd_version h') = Concurrent) \<and>
     sorted_wrt (<) (map head_sort_key (heads e))"

lemma entry_wf_nonempty: "entry_wf e \<Longrightarrow> heads e \<noteq> []"
  and entry_wf_ok: "entry_wf e \<Longrightarrow> h \<in> set (heads e) \<Longrightarrow> vc_ok (hd_version h)"
  and entry_wf_sorted: "entry_wf e \<Longrightarrow> sorted_wrt (<) (map head_sort_key (heads e))"
  by (simp_all add: entry_wf_def)

lemma entry_wf_antichain:
  "entry_wf e \<Longrightarrow> h \<in> set (heads e) \<Longrightarrow> h' \<in> set (heads e) \<Longrightarrow>
   vc_le (hd_version h) (hd_version h') \<Longrightarrow> h = h'"
  unfolding entry_wf_def by (metis causality.distinct(5,9,11) vc_compare_cases)

lemma entry_wf_distinct: "entry_wf e \<Longrightarrow> distinct (heads e)"
  by (metis distinct_map entry_wf_sorted sorted_wrt_less_distinct)

lemma versions_finite [simp]: "finite (versions e)"
  by (simp add: versions_def)

lemma versions_ok: "entry_wf e \<Longrightarrow> v \<in> versions e \<Longrightarrow> vc_ok v"
  by (auto simp: versions_def entry_wf_ok)

lemma versions_maximal: "entry_wf e \<Longrightarrow> clocks.maximal (versions e) = versions e"
  by (rule clocks.maximal_of_antichain) (auto simp: versions_def dest: entry_wf_antichain)

lemma entry_wf_unique:
  assumes "entry_wf e" "entry_wf e'" "set (heads e) = set (heads e')"
  shows "e = e'"
proof -
  have "map head_sort_key (heads e) = map head_sort_key (heads e')"
    using assms by (intro sorted_wrt_less_unique) (auto simp: entry_wf_sorted)
  moreover have "inj_on head_sort_key (set (heads e) \<union> set (heads e'))"
    using assms by (metis Un_absorb distinct_map entry_wf_sorted sorted_wrt_less_distinct)
  ultimately show ?thesis
    by (simp add: inj_on_map_eq_map)
qed

lemma entry_wf_single [tomo_inv]: "vc_ok v \<Longrightarrow> entry_wf (entry_single v s)"
  by (simp add: entry_wf_def entry_single_def)

section \<open>The winner\<close>

lemma foldl_best:
  fixes rank :: "'h \<Rightarrow> 'r::linorder"
  defines "pick \<equiv> foldl (\<lambda>best h. if rank best < rank h then h else best)"
  shows "pick b hs \<in> set (b # hs) \<and> (\<forall>h \<in> set (b # hs). rank h \<le> rank (pick b hs))"
  unfolding pick_def
proof (induction hs arbitrary: b)
  case Nil
  then show ?case by simp
next
  case (Cons x hs)
  let ?c = "if rank b < rank x then x else b"
  let ?r = "foldl (\<lambda>best h. if rank best < rank h then h else best) ?c hs"
  have c: "rank b \<le> rank ?c" "rank x \<le> rank ?c" by auto
  have mem: "?r \<in> set (?c # hs)" and max: "\<forall>h \<in> set (?c # hs). rank h \<le> rank ?r"
    using Cons [of ?c] by blast+
  have "rank ?c \<le> rank ?r" using max by simp
  with c have "rank b \<le> rank ?r" "rank x \<le> rank ?r" by (blast intro: order_trans)+
  with max have "\<forall>h \<in> set (b # x # hs). rank h \<le> rank ?r" by simp
  moreover have "?r \<in> set (b # x # hs)" using mem by (auto split: if_splits)
  ultimately show ?case by simp
qed

lemma winner_best:
  assumes "heads e \<noteq> []"
  shows "\<exists>w. winner e = Some w \<and> w \<in> set (heads e) \<and>
    (\<forall>h \<in> set (heads e). winner_rank (adoption_mode e) h \<le> winner_rank (adoption_mode e) w)"
proof -
  from assms obtain b hs where h: "heads e = b # hs" by (cases "heads e") auto
  show ?thesis
    using foldl_best [of "winner_rank (adoption_mode e)" b hs]
    by (auto simp: winner_def h winner_cmp_rank Let_def)
qed

lemma winner_mem: "winner e = Some w \<Longrightarrow> w \<in> set (heads e)"
  using winner_best [of e] by (cases "heads e = []") (auto simp: winner_def)

lemma winner_rank_max:
  "winner e = Some w \<Longrightarrow> h \<in> set (heads e) \<Longrightarrow>
   winner_rank (adoption_mode e) h \<le> winner_rank (adoption_mode e) w"
  using winner_best [of e] by (cases "heads e = []") (auto simp: winner_def)

lemma winner_None_iff: "winner e = None \<longleftrightarrow> heads e = []"
  using winner_best [of e] by (cases "heads e = []") (auto simp: winner_def)

lemma entry_wf_versions_inj:
  "entry_wf e \<Longrightarrow> h \<in> set (heads e) \<Longrightarrow> h' \<in> set (heads e) \<Longrightarrow>
   hd_version h = hd_version h' \<Longrightarrow> h = h'"
  by (rule entry_wf_antichain) simp_all

text \<open>On a well-formed entry the winner exists, is one of the heads, and is the
  strict maximum of the winner order: every other head compares \<open>Less\<close> to it, so the
  winner depends on the set of heads and not on their order.\<close>

theorem winner_is_strict_maximum:
  assumes "entry_wf e"
  shows "\<exists>w. winner e = Some w \<and> w \<in> set (heads e) \<and>
    (\<forall>h \<in> set (heads e) - {w}. winner_cmp h w (adoption_mode e) = Less)"
proof -
  obtain w where w: "winner e = Some w" "w \<in> set (heads e)"
    using winner_best [OF entry_wf_nonempty [OF assms]] by blast
  have "winner_cmp h w (adoption_mode e) = Less" if "h \<in> set (heads e) - {w}" for h
  proof -
    have "winner_rank (adoption_mode e) h \<noteq> winner_rank (adoption_mode e) w"
      using that w(2) entry_wf_versions_inj [OF assms] winner_rank_version by blast
    then show ?thesis
      using winner_rank_max [OF w(1), of h] that by (simp add: winner_cmp_rank order_less_le)
  qed
  with w show ?thesis by blast
qed

text \<open>The two-head genesis entry used by the witnesses: replica 1 and replica 2 edited
  the same path before they met.\<close>

definition demo_sig :: "u8 \<Rightarrow> u64 \<Rightarrow> content_sig" where
  "demo_sig b mtime = \<lparr>sig_hash = ContentHash (replicate 32 b), sig_size = 3, sig_exec = False,
     sig_mtime_ms = mtime\<rparr>"

definition demo_clock :: "u64 \<Rightarrow> vector_clock" where
  "demo_clock r = vc_tick vc_new (ReplicaId r)"

lemma vc_ok_demo [simp]: "vc_ok (demo_clock r)"
  unfolding demo_clock_def by (rule vc_ok_tick) simp_all

lemma vc_get_demo: "vc_get (demo_clock r) (ReplicaId q) = (if q = r then 1 else 0)"
  by (simp add: demo_clock_def vc_get_tick)

lemma vc_compare_demo: "vc_compare (demo_clock r) (demo_clock q) = (if r = q then Equal else Concurrent)"
proof (cases "r = q")
  case True
  then show ?thesis by (simp add: vc_compare_cases)
next
  case False
  then have "\<not> vc_le (demo_clock r) (demo_clock q)" "\<not> vc_le (demo_clock q) (demo_clock r)"
    unfolding vc_le_def not_all
    by (auto intro: exI [of _ "ReplicaId r"] exI [of _ "ReplicaId q"] simp: vc_get_demo)
  with False show ?thesis by (simp add: vc_compare_cases)
qed

theorem winner_is_strict_maximum_witness:
  "winner (entry_single (demo_clock 1) Tombstone) =
     Some \<lparr>hd_version = demo_clock 1, hd_state = Tombstone\<rparr>"
  using winner_is_strict_maximum [OF entry_wf_single [OF vc_ok_demo], of 1 Tombstone]
  by (auto simp: entry_single_def)

section \<open>Absorbing a version\<close>

definition absorbed_heads :: "entry \<Rightarrow> vector_clock \<Rightarrow> entry_state \<Rightarrow> head list" where
  "absorbed_heads e v s =
     sort_key head_sort_key
       (filter (\<lambda>h. vc_compare (hd_version h) v \<noteq> Before) (heads e) @ [\<lparr>hd_version = v, hd_state = s\<rparr>])"

definition knows :: "entry \<Rightarrow> vector_clock \<Rightarrow> bool" where
  "knows e v \<longleftrightarrow> (\<exists>h \<in> set (heads e). vc_le v (hd_version h))"

lemma absorb_guard:
  "list_ex (\<lambda>h. vc_compare (hd_version h) v = After \<or> vc_compare (hd_version h) v = Equal) (heads e)
     \<longleftrightarrow> knows e v"
  using vc_compare_ge_iff by (auto simp: list_ex_iff knows_def)

lemma absorb_known: "knows e v \<Longrightarrow> absorb e v s = Some (e, AlreadyKnown)"
  by (simp add: absorb_def absorb_guard)

lemma absorbed_heads_set:
  "\<not> knows e v \<Longrightarrow> set (absorbed_heads e v s) =
     insert \<lparr>hd_version = v, hd_state = s\<rparr> {h \<in> set (heads e). \<not> vc_le (hd_version h) v}"
  by (auto simp: absorbed_heads_def vc_compare_cases knows_def)

lemma length_absorbed_heads:
  "length (absorbed_heads e v s) =
     Suc (length (filter (\<lambda>h. vc_compare (hd_version h) v \<noteq> Before) (heads e)))"
  by (simp add: absorbed_heads_def)

definition absorbed :: "entry \<Rightarrow> vector_clock \<Rightarrow> entry_state \<Rightarrow> entry" where
  "absorbed e v s = e\<lparr>heads := absorbed_heads e v s\<rparr>"

definition absorb_effect :: "entry \<Rightarrow> entry \<Rightarrow> entry_state \<Rightarrow> head \<Rightarrow> head \<Rightarrow> absorb_outcome" where
  "absorb_effect e e' s w w' =
     Absorbed (\<not> state_eq (hd_state w) (hd_state w'))
       (length (heads e) = 1 \<and> length (heads e') \<ge> 2 \<and> heads_conflict e')
       (\<not> list_ex (\<lambda>h. same_content (hd_state h) s) (heads e))"

lemma heads_absorbed [simp]: "heads (absorbed e v s) = absorbed_heads e v s"
  by (simp add: absorbed_def)

lemma winner_absorbed: "\<exists>w. winner (absorbed e v s) = Some w"
proof -
  have "heads (absorbed e v s) \<noteq> []" using length_absorbed_heads [of e v s] by auto
  then show ?thesis using winner_best by blast
qed

lemma absorb_new:
  assumes "winner e = Some w" "winner (absorbed e v s) = Some w'" "\<not> knows e v"
  shows "absorb e v s = Some (absorbed e v s, absorb_effect e (absorbed e v s) s w w')"
  using assms
  by (simp add: absorb_def absorb_guard absorbed_def absorb_effect_def absorbed_heads_def [symmetric]
      Let_def length_absorbed_heads numeral_2_eq_2)

lemma absorb_cases:
  assumes "entry_wf e" "absorb e v s = Some (e', out)"
  obtains (known) "knows e v" "e' = e" "out = AlreadyKnown"
    | (new) w w' where "\<not> knows e v" "e' = absorbed e v s"
        "winner e = Some w" "winner e' = Some w'" "out = absorb_effect e e' s w w'"
proof (cases "knows e v")
  case True
  with assms(2) have "e' = e" "out = AlreadyKnown" by (simp_all add: absorb_known)
  with True show ?thesis by (rule known)
next
  case False
  obtain w where w: "winner e = Some w"
    using winner_best [OF entry_wf_nonempty [OF assms(1)]] by blast
  obtain w' where w': "winner (absorbed e v s) = Some w'"
    using winner_absorbed by blast
  from absorb_new [OF w w' False] assms(2)
  have "e' = absorbed e v s" "out = absorb_effect e (absorbed e v s) s w w'" by simp_all
  with w w' False show ?thesis by (intro new) simp_all
qed

lemma absorb_total:
  assumes "entry_wf e"
  shows "\<exists>e' out. absorb e v s = Some (e', out)"
proof (cases "knows e v")
  case True
  then show ?thesis by (simp add: absorb_known)
next
  case False
  obtain w where "winner e = Some w"
    using winner_best [OF entry_wf_nonempty [OF assms]] by blast
  moreover obtain w' where "winner (absorbed e v s) = Some w'"
    using winner_absorbed by blast
  ultimately show ?thesis using absorb_new False by blast
qed

lemma versions_absorb:
  assumes "entry_wf e" "absorb e v s = Some (e', out)"
  shows "versions e' = clocks.join (versions e) v"
  using assms
proof (cases rule: absorb_cases)
  case known
  then show ?thesis by (auto simp: clocks.join_def versions_def knows_def)
next
  case (new w w')
  then have "\<not> (\<exists>y \<in> versions e. vc_le v y)" by (auto simp: knows_def versions_def)
  with new show ?thesis
    by (auto simp: clocks.join_def versions_def absorbed_heads_set)
qed

lemma absorb_wf [tomo_inv]:
  assumes wf: "entry_wf e" and ok: "vc_ok v" and absorb: "absorb e v s = Some (e', out)"
  shows "entry_wf e'"
  using wf absorb
proof (cases rule: absorb_cases)
  case known
  with wf show ?thesis by simp
next
  case (new w w')
  let ?new = "\<lparr>hd_version = v, hd_state = s\<rparr>"
  have set': "set (heads e') = insert ?new {h \<in> set (heads e). \<not> vc_le (hd_version h) v}"
    using new by (simp add: absorbed_heads_set)
  have conc: "h = h'" if "h \<in> set (heads e')" "h' \<in> set (heads e')" "vc_le (hd_version h) (hd_version h')"
    for h h'
    using that new(1) entry_wf_antichain [OF wf, of h h'] by (auto simp: set' knows_def)
  have "inj_on head_sort_key (set (heads e'))"
  proof (rule inj_onI)
    fix h h' assume h: "h \<in> set (heads e')" "h' \<in> set (heads e')" "head_sort_key h = head_sort_key h'"
    from h(3) have "hd_version h = hd_version h'" by (rule head_sort_key_version)
    then show "h = h'" by (intro conc [OF h(1,2)]) simp
  qed
  moreover have "distinct (heads e')"
  proof -
    have "?new \<notin> set (heads e)" using new(1) by (auto simp: knows_def)
    then show ?thesis
      using entry_wf_distinct [OF wf] by (simp add: new(2) absorbed_heads_def)
  qed
  ultimately have "distinct (map head_sort_key (heads e'))"
    by (simp add: distinct_map)
  moreover have "sorted (map head_sort_key (heads e'))"
    by (simp add: new(2) absorbed_heads_def)
  ultimately have "sorted_wrt (<) (map head_sort_key (heads e'))"
    by (simp add: strict_sorted_iff)
  moreover have "heads e' \<noteq> []" using set' by auto
  moreover have "\<forall>h \<in> set (heads e'). vc_ok (hd_version h)"
    using ok entry_wf_ok [OF wf] by (auto simp: set')
  moreover have "vc_compare (hd_version h) (hd_version h') = Concurrent"
    if "h \<in> set (heads e')" "h' \<in> set (heads e')" "h \<noteq> h'" for h h'
    using that conc by (auto simp: vc_compare_cases)
  ultimately show ?thesis unfolding entry_wf_def by blast
qed

section \<open>Convergence of an entry\<close>

text \<open>Clocks are minted by ticks, so a clock names one event and carries one state:
  \<open>coherent org\<close> says the heads carry the state \<open>org\<close> assigns to their clock.\<close>

definition coherent :: "(vector_clock \<Rightarrow> entry_state) \<Rightarrow> entry \<Rightarrow> bool" where
  "coherent org e \<longleftrightarrow> (\<forall>h \<in> set (heads e). hd_state h = org (hd_version h))"

lemma coherent_single [tomo_inv]: "s = org v \<Longrightarrow> coherent org (entry_single v s)"
  by (simp add: coherent_def entry_single_def)

lemma coherent_absorb [tomo_inv]:
  assumes "entry_wf e" "coherent org e" "s = org v" "absorb e v s = Some (e', out)"
  shows "coherent org e'"
  using assms(1,4)
proof (cases rule: absorb_cases)
  case known
  with assms(2) show ?thesis by simp
next
  case (new w w')
  with assms(2,3) show ?thesis by (auto simp: coherent_def absorbed_heads_set)
qed

lemma coherent_heads:
  "coherent org e \<Longrightarrow> set (heads e) = (\<lambda>v. \<lparr>hd_version = v, hd_state = org v\<rparr>) ` versions e"
proof -
  assume "coherent org e"
  then have "\<lparr>hd_version = hd_version h, hd_state = org (hd_version h)\<rparr> = h" if "h \<in> set (heads e)" for h
    using that by (simp add: coherent_def)
  then show ?thesis by (simp add: versions_def image_image)
qed

lemma entry_determined:
  assumes "entry_wf e" "entry_wf e'" "coherent org e" "coherent org e'" "versions e = versions e'"
  shows "e = e'"
  using assms by (intro entry_wf_unique) (simp_all add: coherent_heads)

fun absorb_all :: "entry \<Rightarrow> (vector_clock \<times> entry_state) list \<Rightarrow> entry option" where
  "absorb_all e [] = Some e"
| "absorb_all e ((v, s) # ds) = do { (e', _) \<leftarrow> absorb e v s; absorb_all e' ds }"

lemma absorb_all_maximal:
  assumes "entry_wf e" "coherent org e" "\<forall>(v, s) \<in> set ds. vc_ok v \<and> s = org v"
  shows "\<exists>e'. absorb_all e ds = Some e' \<and> entry_wf e' \<and> coherent org e' \<and>
    versions e' = clocks.maximal (versions e \<union> fst ` set ds)"
  using assms
proof (induction ds arbitrary: e)
  case Nil
  then show ?case by (simp add: versions_maximal)
next
  case (Cons d ds)
  obtain v s where d: "d = (v, s)" by (cases d)
  with Cons.prems have v: "vc_ok v" "s = org v" by auto
  obtain e1 out where e1: "absorb e v s = Some (e1, out)"
    using absorb_total [OF Cons.prems(1)] by blast
  have wf1: "entry_wf e1" by (rule absorb_wf [OF Cons.prems(1) v(1) e1])
  have coh1: "coherent org e1" by (rule coherent_absorb [OF Cons.prems(1,2) v(2) e1])
  obtain e' where e': "absorb_all e1 ds = Some e'" "entry_wf e'" "coherent org e'"
    "versions e' = clocks.maximal (versions e1 \<union> fst ` set ds)"
    using Cons.IH [OF wf1 coh1] Cons.prems(3) by auto
  let ?V = "versions e \<union> fst ` set (d # ds)"
  have okV: "\<forall>y \<in> versions e. vc_ok y" "\<forall>x \<in> set (map fst ds). vc_ok x"
    using versions_ok [OF Cons.prems(1)] Cons.prems(3) by auto
  have "versions e1 = clocks.maximal (insert v (versions e))"
    using versions_absorb [OF Cons.prems(1) e1] versions_maximal [OF Cons.prems(1)]
      clocks.join_maximal [OF versions_finite okV(1) v(1)] by simp
  then have "versions e' = clocks.maximal (clocks.maximal (insert v (versions e)) \<union> fst ` set ds)"
    using e'(4) by simp
  also have "\<dots> = clocks.maximal (insert v (versions e) \<union> fst ` set ds)"
    using okV v(1) by (intro clocks.maximal_union) simp_all
  finally have "versions e' = clocks.maximal ?V" by (simp add: d)
  with e1 e' show ?case by (simp add: d)
qed

text \<open>C5: \<open>Entry::absorb\<close> is the join of the head-set lattice: on a well-formed entry it
  never panics, keeps the entry well formed (non-empty antichain in canonical order),
  and leaves as versions exactly the causally maximal ones among the old versions and
  the new one.\<close>

theorem absorb_is_join:
  assumes "entry_wf e" "vc_ok v"
  shows "\<exists>e' out. absorb e v s = Some (e', out) \<and> entry_wf e' \<and>
    versions e' = clocks.maximal (insert v (versions e))"
proof -
  obtain e' out where e': "absorb e v s = Some (e', out)"
    using absorb_total [OF assms(1)] by blast
  have "versions e' = clocks.maximal (insert v (versions e))"
    using versions_absorb [OF assms(1) e'] versions_maximal [OF assms(1)]
      clocks.join_maximal [OF versions_finite _ assms(2), of e] versions_ok [OF assms(1)] by simp
  with e' absorb_wf [OF assms e'] show ?thesis by blast
qed

theorem absorb_is_join_witness:
  "\<exists>e' out. absorb (entry_single (demo_clock 1) Tombstone) (demo_clock 2) Tombstone = Some (e', out) \<and>
     versions e' = clocks.maximal {demo_clock 2, demo_clock 1}"
  using absorb_is_join [OF entry_wf_single [OF vc_ok_demo] vc_ok_demo, of 1 Tombstone 2 Tombstone]
  by (auto simp: versions_def entry_single_def)

text \<open>C4: Convergence of a path (invariant 5 of the source): two replicas that start
  from the same entry and absorb the same set of versions, in any order and with any
  repetitions, end with the same entry, heads and their order included.\<close>

theorem entry_convergence:
  assumes "entry_wf e" "coherent org e"
    and "\<forall>(v, s) \<in> set ds. vc_ok v \<and> s = org v"
    and "set ds = set ds'"
  shows "\<exists>e'. absorb_all e ds = Some e' \<and> absorb_all e ds' = Some e' \<and> entry_wf e'"
proof -
  obtain e1 where e1: "absorb_all e ds = Some e1" "entry_wf e1" "coherent org e1"
    "versions e1 = clocks.maximal (versions e \<union> fst ` set ds)"
    using absorb_all_maximal [OF assms(1,2,3)] by blast
  obtain e2 where e2: "absorb_all e ds' = Some e2" "entry_wf e2" "coherent org e2"
    "versions e2 = clocks.maximal (versions e \<union> fst ` set ds')"
    using absorb_all_maximal [OF assms(1,2), of ds'] assms(3,4) by auto
  have "e1 = e2"
    using e1 e2 assms(4) by (intro entry_determined) simp_all
  with e1 e2 show ?thesis by blast
qed

theorem entry_convergence_witness:
  "\<exists>e'. absorb_all (entry_single (demo_clock 1) Tombstone)
          [(demo_clock 2, Tombstone), (demo_clock 3, Tombstone)] = Some e' \<and>
        absorb_all (entry_single (demo_clock 1) Tombstone)
          [(demo_clock 3, Tombstone), (demo_clock 2, Tombstone), (demo_clock 3, Tombstone)] = Some e'"
proof -
  have wf: "entry_wf (entry_single (demo_clock 1) Tombstone)"
    by (rule entry_wf_single) simp
  have coh: "coherent (\<lambda>_. Tombstone) (entry_single (demo_clock 1) Tombstone)"
    by (rule coherent_single) simp
  show ?thesis
    using entry_convergence [OF wf coh, of "[(demo_clock 2, Tombstone), (demo_clock 3, Tombstone)]"
        "[(demo_clock 3, Tombstone), (demo_clock 2, Tombstone), (demo_clock 3, Tombstone)]"]
    by auto
qed

section \<open>What the winner may depend on\<close>

lemma foldl_cong_pick:
  "\<forall>a \<in> set (b # hs). \<forall>c \<in> set (b # hs). P a c \<longleftrightarrow> Q (f a) (f c) \<Longrightarrow>
   f (foldl (\<lambda>best h. if P h best then h else best) b hs) =
   foldl (\<lambda>best h. if Q h best then h else best) (f b) (map f hs)"
  by (induction hs arbitrary: b) auto

definition with_mtimes :: "(content_sig \<Rightarrow> u64) \<Rightarrow> head \<Rightarrow> head" where
  "with_mtimes t h = h\<lparr>hd_state := (case hd_state h of
      Present s \<Rightarrow> Present (s\<lparr>sig_mtime_ms := t s\<rparr>) | Tombstone \<Rightarrow> Tombstone)\<rparr>"

lemma hd_version_with_mtimes [simp]: "hd_version (with_mtimes t h) = hd_version h"
  by (simp add: with_mtimes_def)

lemma pairwise_disjoint_with_mtimes: "pairwise_disjoint (map (with_mtimes t) hs) = pairwise_disjoint hs"
  by (induction hs) (simp_all add: list.pred_map comp_def)

lemma winner_rank_with_mtimes: "winner_rank False (with_mtimes t h) = winner_rank False h"
  by (auto simp: winner_rank_def with_mtimes_def split: entry_state.splits)

text \<open>Outside adoption mode the winner does not depend on wall-clock time: giving
  every head arbitrary modification times leaves the same head the winner.\<close>

theorem winner_ignores_mtime:
  assumes "\<not> adoption_mode e"
  shows "winner (e\<lparr>heads := map (with_mtimes t) (heads e)\<rparr>) = map_option (with_mtimes t) (winner e)"
proof -
  have mode: "\<not> adoption_mode (e\<lparr>heads := map (with_mtimes t) (heads e)\<rparr>)"
    using assms by (auto simp: adoption_mode_def pairwise_disjoint_with_mtimes)
  show ?thesis
  proof (cases "heads e")
    case Nil
    then show ?thesis by (simp add: winner_def)
  next
    case (Cons b hs)
    have "with_mtimes t (foldl (\<lambda>best h. if winner_cmp h best False = Greater then h else best) b hs) =
        foldl (\<lambda>best h. if winner_cmp h best False = Greater then h else best) (with_mtimes t b)
          (map (with_mtimes t) hs)"
      by (rule foldl_cong_pick) (simp add: winner_cmp_rank winner_rank_with_mtimes)
    with assms mode Cons show ?thesis by (simp add: winner_def Let_def)
  qed
qed

theorem winner_ignores_mtime_witness:
  "winner \<lparr>heads = [\<lparr>hd_version = demo_clock 1, hd_state = Present (demo_sig 7 99)\<rparr>]\<rparr> =
   map_option (with_mtimes (\<lambda>_. 99))
     (winner \<lparr>heads = [\<lparr>hd_version = demo_clock 1, hd_state = Present (demo_sig 7 5)\<rparr>]\<rparr>)"
proof -
  let ?e = "\<lparr>heads = [\<lparr>hd_version = demo_clock 1, hd_state = Present (demo_sig 7 5)\<rparr>]\<rparr>"
  have "\<not> adoption_mode ?e" by (simp add: adoption_mode_def)
  from winner_ignores_mtime [OF this, of "\<lambda>_. 99"] show ?thesis
    by (simp add: with_mtimes_def demo_sig_def)
qed

text \<open>Adoption mode is genesis only: as soon as two heads of an entry share a
  replica with a positive counter, the mode is off.\<close>

theorem adoption_needs_disjoint_support:
  assumes "adoption_mode e" "h \<in> set (heads e)" "h' \<in> set (heads e)" "hd_version h \<noteq> hd_version h'"
  shows "vc_get (hd_version h) r = 0 \<or> vc_get (hd_version h') r = 0"
proof -
  have disj: "vc_get a r = 0 \<or> vc_get b r = 0" if "disjoint_support a b" for a b
  proof (cases "bm_get (counters a) r")
    case None
    then show ?thesis by (simp add: vc_get_def)
  next
    case (Some n)
    then have "(r, n) \<in> set (vc_iter a)" by (simp add: vc_iter_def bm.mem_entries)
    with that have "\<not> 0 < vc_get b r" by (auto simp: disjoint_support_def list_ex_iff)
    then show ?thesis by (simp add: word_gt_0)
  qed
  have "disjoint_support (hd_version a) (hd_version b) \<or> disjoint_support (hd_version b) (hd_version a)"
    if "pairwise_disjoint hs" "a \<in> set hs" "b \<in> set hs" "a \<noteq> b" for hs a b
    using that by (induction hs) (auto simp: list_all_iff)
  moreover have "pairwise_disjoint (heads e)"
    using assms(1) by (simp add: adoption_mode_def split: if_splits)
  ultimately show ?thesis using assms disj by blast
qed

theorem adoption_needs_disjoint_support_witness:
  "vc_get (demo_clock 1) (ReplicaId 1) = 0 \<or> vc_get (demo_clock 2) (ReplicaId 1) = 0"
proof -
  let ?a = "\<lparr>hd_version = demo_clock 1, hd_state = Tombstone\<rparr>"
  let ?b = "\<lparr>hd_version = demo_clock 2, hd_state = Tombstone\<rparr>"
  have it: "vc_iter (demo_clock 1) = [(ReplicaId 1, 1)]"
    by (simp add: vc_iter_def demo_clock_def vc_tick_def vc_new_def bm_entries_insert)
  have "adoption_mode \<lparr>heads = [?a, ?b]\<rparr>"
    by (simp add: adoption_mode_def disjoint_support_def it vc_get_demo)
  moreover have "demo_clock 1 \<noteq> demo_clock 2"
    using vc_get_demo [of 1 1] vc_get_demo [of 2 1] by auto
  ultimately show ?thesis
    using adoption_needs_disjoint_support [of "\<lparr>heads = [?a, ?b]\<rparr>" ?a ?b "ReplicaId 1"] by simp
qed

end
