(* ===== verification/Tomo_Path.thy ===== *)
theory Tomo_Path
  imports Tomo_BTreeMap
begin

text \<open>
  \<^verbatim>\<open>crates/tomo-engine/src/path.rs\<close>: the validated repo-relative path. The
  constructor \<open>relpath_new\<close> keeps the order of the source's checks, so that the first
  violated rule names the error; \<open>relpath_wf\<close> is the specification it is measured
  against (the invariants the type documents).
\<close>

datatype path_error =
    Empty | Absolute | TrailingSlash | Backslash | NulByte | ControlChar
  | EmptyComponent | DotComponent | ReservedTomo

datatype relpath = RelPath (as_str: string)

instantiation relpath :: linorder
begin

definition less_eq_relpath :: "relpath \<Rightarrow> relpath \<Rightarrow> bool" where
  "less_eq_relpath a b \<longleftrightarrow> as_str a \<le> as_str b"

definition less_relpath :: "relpath \<Rightarrow> relpath \<Rightarrow> bool" where
  "less_relpath a b \<longleftrightarrow> as_str a < as_str b"

instance
  by standard (auto simp: less_eq_relpath_def less_relpath_def relpath.expand)

end

declare less_eq_relpath_def [tomo_eval] less_relpath_def [tomo_eval]

fun check_components :: "string option \<Rightarrow> string list \<Rightarrow> path_error + string option" where
  "check_components first [] = Inr first"
| "check_components first (seg # segs) =
     (if seg = [] then Inl EmptyComponent
      else if seg = ''.'' \<or> seg = ''..'' then Inl DotComponent
      else check_components (if first = None then Some seg else first) segs)"

definition relpath_new :: "string \<Rightarrow> path_error + relpath" where
  "relpath_new raw =
     (if raw = [] then Inl Empty
      else if CHR 0x00 \<in> set raw then Inl NulByte
      else if list_ex (\<lambda>b. of_char b < (0x20 :: nat)) raw then Inl ControlChar
      else if CHR 0x5C \<in> set raw then Inl Backslash
      else if starts_with ''/'' raw then Inl Absolute
      else if last raw = CHR ''/'' then Inl TrailingSlash
      else (case check_components None (str_split CHR ''/'' raw) of
              Inl e \<Rightarrow> Inl e
            | Inr first \<Rightarrow>
                if first = Some ''.tomo'' then Inl ReservedTomo else Inr (RelPath raw)))"

definition components :: "relpath \<Rightarrow> string list" where
  "components p = str_split CHR ''/'' (as_str p)"

definition file_name :: "relpath \<Rightarrow> string" where
  "file_name p = last (str_split CHR ''/'' (as_str p))"

text \<open>\<open>From<RelPath> for String\<close> and \<open>TryFrom<String>\<close>, the conversions serde uses.\<close>

definition relpath_into_string :: "relpath \<Rightarrow> string" where
  "relpath_into_string p = as_str p"

definition relpath_try_from :: "string \<Rightarrow> path_error + relpath" where
  "relpath_try_from s = relpath_new s"

definition path_error_message :: "path_error \<Rightarrow> string" where
  "path_error_message e = (case e of
      Empty \<Rightarrow> ''path is empty''
    | Absolute \<Rightarrow> ''path is absolute (must be repo-relative)''
    | TrailingSlash \<Rightarrow> ''path has a trailing slash''
    | Backslash \<Rightarrow> ''path contains a backslash''
    | NulByte \<Rightarrow> ''path contains a NUL byte''
    | ControlChar \<Rightarrow> ''path contains an ASCII control character''
    | EmptyComponent \<Rightarrow> ''path contains an empty component''
    | DotComponent \<Rightarrow> ''path contains a '' @ [CHR 0x27] @ ''.'' @ [CHR 0x27] @ '' or ''
        @ [CHR 0x27] @ ''..'' @ [CHR 0x27] @ '' component''
    | ReservedTomo \<Rightarrow> ''path is inside the reserved .tomo directory'')"

section \<open>Specification\<close>

definition component_ok :: "string \<Rightarrow> bool" where
  "component_ok seg \<longleftrightarrow> seg \<noteq> [] \<and> seg \<noteq> ''.'' \<and> seg \<noteq> ''..''"

definition relpath_wf :: "string \<Rightarrow> bool" where
  "relpath_wf s \<longleftrightarrow>
     (\<forall>b \<in> set s. 0x20 \<le> (of_char b :: nat) \<and> b \<noteq> CHR 0x5C) \<and>
     (\<forall>seg \<in> set (str_split CHR ''/'' s). component_ok seg) \<and>
     hd (str_split CHR ''/'' s) \<noteq> ''.tomo''"

lemma check_components_Inr:
  "check_components first segs = Inr r \<longleftrightarrow>
     (\<forall>seg \<in> set segs. component_ok seg) \<and>
     r = (case first of Some f \<Rightarrow> Some f | None \<Rightarrow> (case segs of [] \<Rightarrow> None | c # _ \<Rightarrow> Some c))"
  by (induction first segs rule: check_components.induct)
    (auto simp: component_ok_def split: option.splits)

lemma slash_gives_empty_component:
  "starts_with ''/'' raw \<Longrightarrow> [] \<in> set (str_split CHR ''/'' raw)"
  "raw \<noteq> [] \<Longrightarrow> last raw = CHR ''/'' \<Longrightarrow> [] \<in> set (str_split CHR ''/'' raw)"
proof -
  show "[] \<in> set (str_split CHR ''/'' raw)" if "starts_with ''/'' raw"
    using that by (auto simp: starts_with_def strip_prefix_Some)
  show "[] \<in> set (str_split CHR ''/'' raw)" if "raw \<noteq> []" "last raw = CHR ''/''"
  proof -
    from that have "raw = butlast raw @ [CHR ''/'']"
      by (metis append_butlast_last_id)
    then show ?thesis
      using str_split_append [of "CHR ''/''" "butlast raw" "[]"] by simp
  qed
qed

lemma relpath_wf_guards:
  assumes "relpath_wf raw"
  shows "raw \<noteq> []" "CHR 0x00 \<notin> set raw" "\<not> list_ex (\<lambda>b. of_char b < (0x20 :: nat)) raw"
    "CHR 0x5C \<notin> set raw" "\<not> starts_with ''/'' raw" "last raw \<noteq> CHR ''/''"
proof -
  have segs: "[] \<notin> set (str_split CHR ''/'' raw)"
    using assms by (auto simp: relpath_wf_def component_ok_def)
  then show ne: "raw \<noteq> []" by auto
  have bytes: "\<forall>b \<in> set raw. 0x20 \<le> (of_char b :: nat) \<and> b \<noteq> CHR 0x5C"
    using assms by (simp add: relpath_wf_def)
  then show "CHR 0x5C \<notin> set raw" by auto
  show "\<not> list_ex (\<lambda>b. of_char b < (0x20 :: nat)) raw"
    using bytes by (fastforce simp: list_ex_iff)
  show "CHR 0x00 \<notin> set raw"
    using bytes by fastforce
  show "\<not> starts_with ''/'' raw" "last raw \<noteq> CHR ''/''"
    using segs ne slash_gives_empty_component by blast+
qed

lemma relpath_wf_segments:
  "relpath_wf raw \<longleftrightarrow>
     \<not> list_ex (\<lambda>b. of_char b < (0x20 :: nat)) raw \<and> CHR 0x5C \<notin> set raw \<and>
     (\<exists>first. check_components None (str_split CHR ''/'' raw) = Inr first \<and> first \<noteq> Some ''.tomo'')"
proof -
  obtain f fs where split: "str_split CHR ''/'' raw = f # fs"
    by (cases "str_split CHR ''/'' raw") auto
  show ?thesis
    unfolding relpath_wf_def check_components_Inr split by (auto simp: list_ex_iff not_less)
qed

lemma relpath_new_Inr: "relpath_new raw = Inr p \<longleftrightarrow> p = RelPath raw \<and> relpath_wf raw"
proof (cases "relpath_wf raw")
  case True
  then obtain first where "check_components None (str_split CHR ''/'' raw) = Inr first"
    "first \<noteq> Some ''.tomo''" by (auto simp: relpath_wf_segments)
  with relpath_wf_guards [OF True] True show ?thesis
    by (auto simp: relpath_new_def)
next
  case False
  then have "relpath_new raw \<noteq> Inr p"
    unfolding relpath_wf_segments by (auto simp: relpath_new_def split: sum.splits)
  with False show ?thesis by simp
qed

text \<open>\<open>RelPath::new\<close> accepts exactly the strings that satisfy the documented
  invariants (no control byte, no backslash, every \<open>/\<close>-component non-empty and
  neither \<open>.\<close> nor \<open>..\<close>, first component not \<open>.tomo\<close>), and keeps the string unchanged.\<close>

theorem relpath_new_accepts:
  "relpath_new raw = Inr p \<longleftrightarrow> as_str p = raw \<and> relpath_wf raw"
  by (cases p) (auto simp: relpath_new_Inr)

text \<open>A validated path survives the string conversions used by serde, and its
  components are non-empty, are the path when joined with \<open>/\<close>, and end in the file name.\<close>

theorem relpath_roundtrip:
  assumes "relpath_new raw = Inr p"
  shows "relpath_try_from (relpath_into_string p) = Inr p \<and>
    str_join ''/'' (components p) = raw \<and>
    (\<forall>seg \<in> set (components p). component_ok seg) \<and>
    file_name p = last (components p) \<and> file_name p \<noteq> []"
proof -
  from assms have p: "p = RelPath raw" and wf: "relpath_wf raw"
    by (simp_all add: relpath_new_Inr)
  have "file_name p \<in> set (components p)"
    by (simp add: file_name_def components_def)
  moreover have "\<forall>seg \<in> set (components p). component_ok seg"
    using wf by (simp add: p components_def relpath_wf_def)
  ultimately show ?thesis
    using wf p
    by (auto simp: relpath_try_from_def relpath_into_string_def relpath_new_Inr components_def
        file_name_def str_join_split component_ok_def)
qed

theorem relpath_roundtrip_witness:
  "relpath_try_from (relpath_into_string (RelPath ''src/main.rs'')) = Inr (RelPath ''src/main.rs'') \<and>
   file_name (RelPath ''src/main.rs'') = last (components (RelPath ''src/main.rs''))"
proof -
  have "relpath_new ''src/main.rs'' = Inr (RelPath ''src/main.rs'')"
    by (simp add: relpath_new_def starts_with_def)
  from relpath_roundtrip [OF this] show ?thesis by simp
qed

end
