(* ===== verification/Tomo_Index.thy ===== *)
theory Tomo_Index
  imports Tomo_Entry Tomo_Path
begin

text \<open>
  The map of \<^verbatim>\<open>crates/tomo-engine/src/index.rs\<close> from paths to entries and its
  canonical byte serialization, which adapters hash into the "equal roots" digest.
  \<open>index_eq\<close> is the equality the source derives (modification times excluded, as in
  \<open>sig_eq\<close>); the digest input is shown to decide exactly that equality.
\<close>

section \<open>Operations\<close>

record index =
  idx_entries :: "(relpath, entry) btree_map"

definition index_new :: index where
  "index_new = \<lparr>idx_entries = bm_empty\<rparr>"

definition index_get :: "index \<Rightarrow> relpath \<Rightarrow> entry option" where
  "index_get i p = bm_get (idx_entries i) p"

definition index_upsert :: "index \<Rightarrow> relpath \<Rightarrow> entry \<Rightarrow> index \<times> entry option" where
  "index_upsert i p e =
     (i\<lparr>idx_entries := bm_insert p e (idx_entries i)\<rparr>, bm_get (idx_entries i) p)"

definition index_iter :: "index \<Rightarrow> (relpath \<times> entry) list" where
  "index_iter i = bm_entries (idx_entries i)"

definition index_len :: "index \<Rightarrow> nat" where
  "index_len i = bm_len (idx_entries i)"

definition index_is_empty :: "index \<Rightarrow> bool" where
  "index_is_empty i \<longleftrightarrow> bm_len (idx_entries i) = 0"

definition canonical_bytes :: "index \<Rightarrow> bytes" where
  "canonical_bytes i =
     foldl (\<lambda>out (path, e).
        let path_bytes = str_bytes (as_str path);
            out = out @ u64_le (of_nat (length path_bytes)) @ path_bytes @ u64_le (of_nat (length (heads e)))
        in foldl (\<lambda>out h. head_encode h out) out (heads e))
      [] (bm_entries (idx_entries i))"

abbreviation index_put :: "index \<Rightarrow> relpath \<Rightarrow> entry \<Rightarrow> index" where
  "index_put i p e \<equiv> fst (index_upsert i p e)"

lemma index_get_new [simp]: "index_get index_new p = None"
  by (simp add: index_get_def index_new_def)

lemma index_get_put: "index_get (index_put i p e) q = (if q = p then Some e else index_get i q)"
  by (simp add: index_get_def index_upsert_def)

lemma index_eqI: "(\<And>p. index_get i p = index_get j p) \<Longrightarrow> i = j"
  by (auto simp: index_get_def intro!: index.equality bm_eqI)

lemma index_put_same: "index_get i p = Some e \<Longrightarrow> index_put i p e = i"
  by (rule index_eqI) (simp add: index_get_put)

lemma index_iter_mem: "(p, e) \<in> set (index_iter i) \<longleftrightarrow> index_get i p = Some e"
  by (simp add: index_iter_def index_get_def bm.mem_entries)

section \<open>The equality of the source, and well-formed indices\<close>

definition entry_eq :: "entry \<Rightarrow> entry \<Rightarrow> bool" where
  "entry_eq a b \<longleftrightarrow> list_all2 head_eq (heads a) (heads b)"

definition record_eq :: "relpath \<times> entry \<Rightarrow> relpath \<times> entry \<Rightarrow> bool" where
  "record_eq a b \<longleftrightarrow> fst a = fst b \<and> entry_eq (snd a) (snd b)"

definition index_eq :: "index \<Rightarrow> index \<Rightarrow> bool" where
  "index_eq i j \<longleftrightarrow> list_all2 record_eq (index_iter i) (index_iter j)"

definition index_wf :: "index \<Rightarrow> bool" where
  "index_wf i \<longleftrightarrow> (\<forall>p e. index_get i p = Some e \<longrightarrow> entry_wf e)"

lemma index_wf_new [tomo_inv]: "index_wf index_new"
  by (simp add: index_wf_def)

lemma index_wf_put [tomo_inv]: "index_wf i \<Longrightarrow> entry_wf e \<Longrightarrow> index_wf (index_put i p e)"
  by (simp add: index_wf_def index_get_put)

lemma index_wf_get: "index_wf i \<Longrightarrow> index_get i p = Some e \<Longrightarrow> entry_wf e"
  by (simp add: index_wf_def)

section \<open>The canonical bytes\<close>

text \<open>Lengths are written as u64; the encoding is unambiguous as long as they fit.\<close>

definition record_fits :: "relpath \<times> entry \<Rightarrow> bool" where
  "record_fits pe \<longleftrightarrow> length (as_str (fst pe)) < 2 ^ 64 \<and> length (heads (snd pe)) < 2 ^ 64 \<and>
     (\<forall>h \<in> set (heads (snd pe)). clock_fits (hd_version h))"

definition index_fits :: "index \<Rightarrow> bool" where
  "index_fits i \<longleftrightarrow> (\<forall>pe \<in> set (index_iter i). record_fits pe)"

definition record_bytes :: "relpath \<times> entry \<Rightarrow> bytes" where
  "record_bytes pe =
     u64_le (of_nat (length (as_str (fst pe)))) @ str_bytes (as_str (fst pe)) @
     u64_le (of_nat (length (heads (snd pe)))) @
     concat (map (\<lambda>h. head_encode h []) (heads (snd pe)))"

lemma head_encode_append: "head_encode h out = out @ head_encode h []"
  by (simp add: head_encode_def Let_def)

lemma foldl_concat:
  "(\<And>out x. f out x = out @ g x) \<Longrightarrow> foldl f out xs = out @ concat (map g xs)"
  by (induction xs arbitrary: out) simp_all

lemma foldl_encode_heads:
  "foldl (\<lambda>out h. head_encode h out) out hs = out @ concat (map (\<lambda>h. head_encode h []) hs)"
  by (rule foldl_concat) (rule head_encode_append)

lemma canonical_bytes_records: "canonical_bytes i = concat (map record_bytes (index_iter i))"
proof -
  have "canonical_bytes i = [] @ concat (map record_bytes (bm_entries (idx_entries i)))"
    unfolding canonical_bytes_def
    by (rule foldl_concat) (auto simp: record_bytes_def foldl_encode_heads Let_def split: prod.splits)
  then show ?thesis by (simp add: index_iter_def)
qed

lemma record_bytes_decode:
  assumes fits: "record_fits a" "record_fits b" and eq: "record_bytes a @ r = record_bytes b @ s"
  shows "record_eq a b \<and> r = s"
proof -
  let ?len = "\<lambda>pe. length (as_str (fst pe))" and ?n = "\<lambda>pe. length (heads (snd pe))"
  let ?hs = "\<lambda>pe. concat (map (\<lambda>h. head_encode h []) (heads (snd pe)))"
  from eq have "(of_nat (?len a) :: u64) = of_nat (?len b)"
    by (simp add: record_bytes_def)
  then have len: "?len a = ?len b"
    using fits by (simp add: record_fits_def of_nat_u64_inject)
  with eq have path: "as_str (fst a) = as_str (fst b)"
    and rest: "u64_le (of_nat (?n a)) @ ?hs a @ r = u64_le (of_nat (?n b)) @ ?hs b @ s"
    by (simp_all add: record_bytes_def)
  from rest have "(of_nat (?n a) :: u64) = of_nat (?n b)" and hs: "?hs a @ r = ?hs b @ s"
    by simp_all
  then have n: "?n a = ?n b"
    using fits by (simp add: record_fits_def of_nat_u64_inject)
  have "list_all2 head_eq (heads (snd a)) (heads (snd b)) \<and> r = s"
    using fits by (intro head_code.records_decode [OF n _ _ hs]) (simp_all add: record_fits_def)
  with path show ?thesis by (simp add: record_eq_def entry_eq_def relpath.expand)
qed

interpretation record_code: prefix_code record_bytes record_fits record_eq
  by unfold_locales (rule record_bytes_decode)

lemma head_eq_encode: "head_eq a b \<Longrightarrow> head_encode a [] = head_encode b []"
  by (cases "hd_state a"; cases "hd_state b") (auto simp: head_eq_def head_encode_def sig_eq_def)

lemma record_eq_bytes: "record_eq a b \<Longrightarrow> record_bytes a = record_bytes b"
proof -
  assume eq: "record_eq a b"
  then have "list_all2 head_eq (heads (snd a)) (heads (snd b))"
    by (simp add: record_eq_def entry_eq_def)
  then have "map (\<lambda>h. head_encode h []) (heads (snd a)) = map (\<lambda>h. head_encode h []) (heads (snd b))"
    and "length (heads (snd a)) = length (heads (snd b))"
    by (induction rule: list_all2_induct) (simp_all add: head_eq_encode)
  with eq show ?thesis by (simp add: record_bytes_def record_eq_def)
qed

text \<open>The canonical bytes decide the equality of indices: two indices (whose
  lengths fit the u64 prefixes) have the same bytes exactly when they hold the same
  paths with the same heads, clocks and signatures (modification times aside).\<close>

theorem canonical_bytes_decide:
  assumes "index_fits i" "index_fits j"
  shows "canonical_bytes i = canonical_bytes j \<longleftrightarrow> index_eq i j"
proof
  assume "canonical_bytes i = canonical_bytes j"
  moreover have "record_bytes pe \<noteq> []" for pe
  proof -
    have "0 < length (record_bytes pe)" by (simp add: record_bytes_def)
    then show ?thesis by simp
  qed
  ultimately show "index_eq i j"
    unfolding index_eq_def using assms
    by (intro record_code.stream_decode) (auto simp: canonical_bytes_records index_fits_def)
next
  assume "index_eq i j"
  then have "map record_bytes (index_iter i) = map record_bytes (index_iter j)"
    unfolding index_eq_def by (induction rule: list_all2_induct) (simp_all add: record_eq_bytes)
  then show "canonical_bytes i = canonical_bytes j"
    by (simp add: canonical_bytes_records)
qed

theorem canonical_bytes_decide_witness:
  "canonical_bytes (index_put index_new (RelPath ''f'') (entry_single (demo_clock 1) (Present (demo_sig 7 5)))) =
   canonical_bytes (index_put index_new (RelPath ''f'') (entry_single (demo_clock 1) (Present (demo_sig 7 99))))"
proof -
  let ?i = "\<lambda>t. index_put index_new (RelPath ''f'') (entry_single (demo_clock 1) (Present (demo_sig 7 t)))"
  have it: "index_iter (?i t) = [(RelPath ''f'', entry_single (demo_clock 1) (Present (demo_sig 7 t)))]" for t
    by (simp add: index_iter_def index_upsert_def index_new_def bm_entries_insert)
  have "clock_fits (demo_clock 1)"
    by (simp add: clock_fits_def vc_iter_def demo_clock_def vc_tick_def vc_new_def bm_entries_insert)
  then have fits: "index_fits (?i t)" for t
    unfolding index_fits_def it by (simp add: record_fits_def entry_single_def)
  have "index_eq (?i 5) (?i 99)"
    unfolding index_eq_def it
    by (simp add: record_eq_def entry_eq_def entry_single_def head_eq_def demo_sig_def sig_eq_def)
  with canonical_bytes_decide [OF fits fits] show ?thesis by blast
qed

end
