(* ===== verification/Tomo_Engine.thy ===== *)
theory Tomo_Engine
  imports Tomo_Index "HOL-Library.Multiset"
begin

text \<open>
  \<^verbatim>\<open>crates/tomo-engine/src/event.rs\<close> and \<^verbatim>\<open>crates/tomo-engine/src/engine.rs\<close>: the
  change events, the echo journal and the transition function \<open>handle\<close>. Every operation
  returns the new engine with the actions it emits; the result is \<open>None\<close> only where the
  source panics (\<open>unreachable!\<close> in \<open>Entry::winner\<close>).
\<close>

section \<open>Events and actions\<close>

datatype change_kind = Modified content_sig | Removed

record local_change =
  lc_path :: relpath
  lc_kind :: change_kind

record remote_change =
  rc_path :: relpath
  rc_kind :: change_kind
  rc_version :: vector_clock

datatype expectation = ExpPresent content_sig | ExpAbsent

fun exp_eq :: "expectation \<Rightarrow> expectation \<Rightarrow> bool" where
  "exp_eq (ExpPresent a) (ExpPresent b) \<longleftrightarrow> sig_eq a b"
| "exp_eq ExpAbsent ExpAbsent \<longleftrightarrow> True"
| "exp_eq _ _ \<longleftrightarrow> False"

datatype event = Local local_change | Remote remote_change | PeerIndex index

datatype action =
    Send remote_change
  | Apply relpath expectation
  | RecordVersion relpath entry_state vector_clock
  | ConflictResolved (cr_path: relpath) (cr_winner: entry_state) (cr_winner_version: vector_clock)
      (cr_loser: entry_state) (cr_loser_version: vector_clock) (cr_adopted: bool)

definition state_from_kind :: "change_kind \<Rightarrow> entry_state" where
  "state_from_kind k = (case k of Modified sig \<Rightarrow> Present sig | Removed \<Rightarrow> Tombstone)"

definition kind_from_state :: "entry_state \<Rightarrow> change_kind" where
  "kind_from_state s = (case s of Present sig \<Rightarrow> Modified sig | Tombstone \<Rightarrow> Removed)"

definition expectation_from_state :: "entry_state \<Rightarrow> expectation" where
  "expectation_from_state s = (case s of Present sig \<Rightarrow> ExpPresent sig | Tombstone \<Rightarrow> ExpAbsent)"

section \<open>The echo journal\<close>

record echo_journal =
  outstanding :: "(relpath, expectation list) btree_map"

fun position :: "('a \<Rightarrow> bool) \<Rightarrow> 'a list \<Rightarrow> nat option" where
  "position P [] = None"
| "position P (x # xs) = (if P x then Some 0 else map_option Suc (position P xs))"

definition swap_remove :: "'a list \<Rightarrow> nat \<Rightarrow> 'a list" where
  "swap_remove xs i = butlast (xs[i := last xs])"

definition echo_new :: echo_journal where
  "echo_new = \<lparr>outstanding = bm_empty\<rparr>"

definition echo_add :: "echo_journal \<Rightarrow> relpath \<Rightarrow> expectation \<Rightarrow> echo_journal" where
  "echo_add j path target =
     j\<lparr>outstanding := bm_insert path
        ((case bm_get (outstanding j) path of None \<Rightarrow> [] | Some l \<Rightarrow> l) @ [target]) (outstanding j)\<rparr>"

definition echo_contains :: "echo_journal \<Rightarrow> relpath \<Rightarrow> expectation \<Rightarrow> bool" where
  "echo_contains j path observed \<longleftrightarrow>
     (case bm_get (outstanding j) path of
        None \<Rightarrow> False
      | Some l \<Rightarrow> list_ex (\<lambda>e. exp_eq e observed) l)"

definition echo_retire :: "echo_journal \<Rightarrow> relpath \<Rightarrow> expectation \<Rightarrow> bool \<times> echo_journal" where
  "echo_retire j path observed =
     (case bm_get (outstanding j) path of
        None \<Rightarrow> (False, j)
      | Some l \<Rightarrow>
          (case position (\<lambda>e. exp_eq e observed) l of
             None \<Rightarrow> (False, j)
           | Some pos \<Rightarrow>
               let l = swap_remove l pos
               in (True, j\<lparr>outstanding :=
                    (if l = [] then bm_remove path (outstanding j)
                     else bm_insert path l (outstanding j))\<rparr>)))"

section \<open>The engine\<close>

record engine =
  eng_replica :: replica_id
  eng_index :: index
  eng_echo :: echo_journal

type_synonym transition = "(engine \<times> action list) option"

definition engine_new :: "replica_id \<Rightarrow> index \<Rightarrow> engine" where
  "engine_new r i = \<lparr>eng_replica = r, eng_index = i, eng_echo = echo_new\<rparr>"

definition is_expected_echo :: "engine \<Rightarrow> relpath \<Rightarrow> expectation \<Rightarrow> bool" where
  "is_expected_echo e path observed = echo_contains (eng_echo e) path observed"

text \<open>The common tail of the two local edits: tick the merged clock, collapse the entry
  to the new head, ship and record it.\<close>

definition local_commit ::
    "engine \<Rightarrow> relpath \<Rightarrow> vector_clock \<Rightarrow> entry_state \<Rightarrow> change_kind \<Rightarrow> engine \<times> action list" where
  "local_commit e path base s kind =
     (let version = vc_tick base (eng_replica e)
      in (e\<lparr>eng_index := index_put (eng_index e) path (entry_single version s)\<rparr>,
          [Send \<lparr>rc_path = path, rc_kind = kind, rc_version = version\<rparr>,
           RecordVersion path s version]))"

definition local_modified :: "engine \<Rightarrow> relpath \<Rightarrow> content_sig \<Rightarrow> transition" where
  "local_modified e path sig =
     (case index_get (eng_index e) path of
        Some entry \<Rightarrow> do {
          w \<leftarrow> winner entry;
          if state_eq (hd_state w) (Present sig) then Some (e, [])
          else Some (local_commit e path (merged_clock entry) (Present sig) (Modified sig))
        }
      | None \<Rightarrow> Some (local_commit e path vc_new (Present sig) (Modified sig)))"

definition local_removed :: "engine \<Rightarrow> relpath \<Rightarrow> transition" where
  "local_removed e path =
     (case index_get (eng_index e) path of
        Some entry \<Rightarrow> do {
          w \<leftarrow> winner entry;
          if state_eq (hd_state w) Tombstone then Some (e, [])
          else Some (local_commit e path (merged_clock entry) Tombstone Removed)
        }
      | None \<Rightarrow> Some (e, []))"

definition handle_local :: "engine \<Rightarrow> local_change \<Rightarrow> transition" where
  "handle_local e change =
     (case lc_kind change of
        Modified sig \<Rightarrow>
          (case echo_retire (eng_echo e) (lc_path change) (ExpPresent sig) of
             (True, j) \<Rightarrow> Some (e\<lparr>eng_echo := j\<rparr>, [])
           | (False, _) \<Rightarrow> local_modified e (lc_path change) sig)
      | Removed \<Rightarrow>
          (case echo_retire (eng_echo e) (lc_path change) ExpAbsent of
             (True, j) \<Rightarrow> Some (e\<lparr>eng_echo := j\<rparr>, [])
           | (False, _) \<Rightarrow> local_removed e (lc_path change)))"

definition emit_apply :: "engine \<Rightarrow> action list \<Rightarrow> relpath \<Rightarrow> expectation \<Rightarrow> engine \<times> action list" where
  "emit_apply e actions path target =
     (e\<lparr>eng_echo := echo_add (eng_echo e) path target\<rparr>, actions @ [Apply path target])"

definition remote_unseen :: "engine \<Rightarrow> relpath \<Rightarrow> entry_state \<Rightarrow> vector_clock \<Rightarrow> engine \<times> action list" where
  "remote_unseen e path s version =
     (let e = e\<lparr>eng_index := index_put (eng_index e) path (entry_single version s)\<rparr>;
          (e, actions) = (case s of
              Present sig \<Rightarrow> emit_apply e [] path (ExpPresent sig)
            | Tombstone \<Rightarrow> (e, []))
      in (e, actions @ [RecordVersion path s version]))"

definition conflict_actions :: "relpath \<Rightarrow> entry \<Rightarrow> head \<Rightarrow> action list" where
  "conflict_actions path entry w =
     map (\<lambda>h. ConflictResolved path (hd_state w) (hd_version w) (hd_state h) (hd_version h)
                (adoption_mode entry))
       (filter (\<lambda>h. \<not> head_eq h w) (heads entry))"

definition absorb_remote :: "engine \<Rightarrow> relpath \<Rightarrow> entry_state \<Rightarrow> vector_clock \<Rightarrow> transition" where
  "absorb_remote e path s version =
     (case index_get (eng_index e) path of
        None \<Rightarrow> Some (remote_unseen e path s version)
      | Some entry0 \<Rightarrow> do {
          (entry, outcome) \<leftarrow> absorb entry0 version s;
          case outcome of
            AlreadyKnown \<Rightarrow> Some (e, [])
          | Absorbed changed conflict novel \<Rightarrow> do {
              w \<leftarrow> winner entry;
              let (e, actions) =
                (if changed then emit_apply e [] path (expectation_from_state (hd_state w)) else (e, []));
              let actions = actions @ (if conflict then conflict_actions path entry w else []);
              let actions = actions @ (if novel then [RecordVersion path s version] else []);
              Some (e\<lparr>eng_index := index_put (eng_index e) path entry\<rparr>, actions)
            }
        })"

definition handle_remote :: "engine \<Rightarrow> remote_change \<Rightarrow> transition" where
  "handle_remote e change =
     absorb_remote e (rc_path change) (state_from_kind (rc_kind change)) (rc_version change)"

fun absorb_heads :: "engine \<Rightarrow> relpath \<Rightarrow> head list \<Rightarrow> transition" where
  "absorb_heads e path [] = Some (e, [])"
| "absorb_heads e path (h # hs) = do {
     (e, as) \<leftarrow> absorb_remote e path (hd_state h) (hd_version h);
     (e, bs) \<leftarrow> absorb_heads e path hs;
     Some (e, as @ bs)
   }"

definition send_head :: "relpath \<Rightarrow> head \<Rightarrow> action" where
  "send_head path h =
     Send \<lparr>rc_path = path, rc_kind = kind_from_state (hd_state h), rc_version = hd_version h\<rparr>"

definition head_covered :: "entry \<Rightarrow> head \<Rightarrow> bool" where
  "head_covered remote_entry local_head \<longleftrightarrow>
     list_ex (\<lambda>rh. vc_compare (hd_version local_head) (hd_version rh) = Before \<or>
                    vc_compare (hd_version local_head) (hd_version rh) = Equal) (heads remote_entry)"

definition reconcile_path :: "engine \<Rightarrow> index \<Rightarrow> relpath \<Rightarrow> transition" where
  "reconcile_path e remote path =
     (case index_get remote path of
        Some remote_entry \<Rightarrow> do {
          (e, as) \<leftarrow> absorb_heads e path (heads remote_entry);
          let sends = (case index_get (eng_index e) path of
              Some local_entry \<Rightarrow>
                map (send_head path) (filter (\<lambda>h. \<not> head_covered remote_entry h) (heads local_entry))
            | None \<Rightarrow> []);
          Some (e, as @ sends)
        }
      | None \<Rightarrow>
          (case index_get (eng_index e) path of
             Some local_entry \<Rightarrow> Some (e, map (send_head path) (heads local_entry))
           | None \<Rightarrow> Some (e, [])))"

fun reconcile_paths :: "engine \<Rightarrow> index \<Rightarrow> relpath list \<Rightarrow> transition" where
  "reconcile_paths e remote [] = Some (e, [])"
| "reconcile_paths e remote (p # ps) = do {
     (e, as) \<leftarrow> reconcile_path e remote p;
     (e, bs) \<leftarrow> reconcile_paths e remote ps;
     Some (e, as @ bs)
   }"

definition index_paths :: "index \<Rightarrow> relpath list" where
  "index_paths i = bm_keys (idx_entries i)"

definition handle_peer_index :: "engine \<Rightarrow> index \<Rightarrow> transition" where
  "handle_peer_index e remote =
     reconcile_paths e remote
       (sorted_list_of_set (set (index_paths (eng_index e)) \<union> set (index_paths remote)))"

definition handle :: "engine \<Rightarrow> event \<Rightarrow> transition" where
  "handle e ev = (case ev of
      Local change \<Rightarrow> handle_local e change
    | Remote change \<Rightarrow> handle_remote e change
    | PeerIndex remote \<Rightarrow> handle_peer_index e remote)"

fun handle_all :: "engine \<Rightarrow> event list \<Rightarrow> transition" where
  "handle_all e [] = Some (e, [])"
| "handle_all e (ev # evs) = do {
     (e, as) \<leftarrow> handle e ev;
     (e, bs) \<leftarrow> handle_all e evs;
     Some (e, as @ bs)
   }"

section \<open>Expectations and the journal\<close>

lemma exp_eq_refl [simp]: "exp_eq a a"
  by (cases a) (simp_all add: sig_eq_def)

lemma exp_eq_sym: "exp_eq a b \<Longrightarrow> exp_eq b a"
  by (cases a; cases b) (auto simp: sig_eq_def)

lemma exp_eq_trans: "exp_eq a b \<Longrightarrow> exp_eq b c \<Longrightarrow> exp_eq a c"
  by (cases a; cases b; cases c) (auto simp: sig_eq_def)

lemma exp_eq_cong: "exp_eq a b \<Longrightarrow> exp_eq a c \<longleftrightarrow> exp_eq b c"
  using exp_eq_sym exp_eq_trans by blast

lemma exp_eq_of_state: "exp_eq (expectation_from_state s) (expectation_from_state t) \<longleftrightarrow> state_eq s t"
  by (cases s; cases t) (simp_all add: expectation_from_state_def)

text \<open>The expectations outstanding at a path, and how many of them an observation of the
  tree would match.\<close>

definition pending :: "echo_journal \<Rightarrow> relpath \<Rightarrow> expectation list" where
  "pending j p = (case bm_get (outstanding j) p of None \<Rightarrow> [] | Some l \<Rightarrow> l)"

definition pending_count :: "echo_journal \<Rightarrow> relpath \<Rightarrow> expectation \<Rightarrow> nat" where
  "pending_count j p t = length (filter (\<lambda>x. exp_eq x t) (pending j p))"

lemma pending_new [simp]: "pending echo_new p = []"
  by (simp add: pending_def echo_new_def)

lemma pending_add: "pending (echo_add j p t) q = (if q = p then pending j p @ [t] else pending j q)"
  by (simp add: pending_def echo_add_def)

lemma pending_count_add:
  "pending_count (echo_add j p t) q u =
     pending_count j q u + (if q = p \<and> exp_eq t u then 1 else 0)"
  by (simp add: pending_count_def pending_add)

lemma echo_contains_pending: "echo_contains j p t \<longleftrightarrow> 0 < pending_count j p t"
  by (auto simp: echo_contains_def pending_count_def pending_def list_ex_iff filter_empty_conv split: option.splits)

lemma position_Some:
  "position P xs = Some i \<Longrightarrow> i < length xs \<and> P (xs ! i)"
  by (induction xs arbitrary: i) (auto split: if_splits simp: nth_Cons')

lemma position_None_iff: "position P xs = None \<longleftrightarrow> \<not> list_ex P xs"
  by (induction xs) auto

lemma mset_swap_remove:
  assumes "i < length xs"
  shows "add_mset (xs ! i) (mset (swap_remove xs i)) = mset xs"
proof -
  from assms obtain ys y where xs: "xs = ys @ [y]" by (cases xs rule: rev_cases) auto
  show ?thesis
  proof (cases "i < length ys")
    case True
    then have "swap_remove xs i = ys[i := y]"
      by (simp add: swap_remove_def xs list_update_append butlast_append)
    with True show ?thesis
      by (simp add: xs nth_append mset_update add_mset_commute)
  next
    case False
    with assms have "i = length ys" by (simp add: xs)
    then show ?thesis by (simp add: swap_remove_def xs)
  qed
qed

lemma pending_update:
  "pending (j\<lparr>outstanding := if l = [] then bm_remove p m else bm_insert p l m\<rparr>) q =
     (if q = p then l else (case bm_get m q of None \<Rightarrow> [] | Some l \<Rightarrow> l))"
  by (simp add: pending_def)

lemma echo_retire_cases:
  assumes "echo_retire j p t = (hit, j')"
  obtains (miss) "\<not> hit" "j' = j" "\<not> echo_contains j p t"
    | (hit) x where hit "exp_eq x t" "mset (pending j p) = add_mset x (mset (pending j' p))"
        "\<And>q. q \<noteq> p \<Longrightarrow> pending j' q = pending j q"
proof (cases "bm_get (outstanding j) p")
  case None
  with assms show ?thesis
    by (intro miss) (simp_all add: echo_retire_def echo_contains_def)
next
  case (Some l)
  show ?thesis
  proof (cases "position (\<lambda>e. exp_eq e t) l")
    case None
    with assms Some show ?thesis
      by (intro miss) (auto simp: echo_retire_def echo_contains_def position_None_iff)
  next
    case pos: (Some i)
    let ?l = "swap_remove l i"
    have i: "i < length l" "exp_eq (l ! i) t" using position_Some [OF pos] by simp_all
    from assms Some pos have "hit"
      and j': "j' = j\<lparr>outstanding := if ?l = [] then bm_remove p (outstanding j)
                      else bm_insert p ?l (outstanding j)\<rparr>"
      by (auto simp: echo_retire_def Let_def)
    have pq: "pending j' q = (if q = p then ?l else pending j q)" for q
      unfolding j' pending_update by (simp add: pending_def)
    show ?thesis
      using \<open>hit\<close> i mset_swap_remove [OF i(1)] pq Some
      by (intro hit [of "l ! i"]) (simp_all add: pending_def [of j])
  qed
qed

lemma echo_retire_hit_iff: "fst (echo_retire j p t) \<longleftrightarrow> echo_contains j p t"
proof (cases "echo_retire j p t")
  case (Pair hit j')
  then show ?thesis
  proof (cases rule: echo_retire_cases)
    case miss
    with Pair show ?thesis by (simp del: split_paired_All)
  next
    case (hit x)
    from hit(3) have "x \<in># mset (pending j p)" by simp
    with hit(2) have "0 < pending_count j p t" by (auto simp: pending_count_def filter_empty_conv)
    with hit(1) Pair show ?thesis by (simp add: echo_contains_pending)
  qed
qed

lemma pending_count_mset:
  "pending_count j p t = size (filter_mset (\<lambda>x. exp_eq x t) (mset (pending j p)))"
  unfolding pending_count_def by (metis mset_filter size_mset)

lemma echo_retire_count:
  assumes "echo_contains j p t"
  shows "pending_count (snd (echo_retire j p t)) q u + (if q = p \<and> exp_eq t u then 1 else 0) =
    pending_count j q u"
proof (cases "echo_retire j p t")
  case (Pair hit j')
  then show ?thesis
  proof (cases rule: echo_retire_cases)
    case miss
    with assms show ?thesis by simp
  next
    case (hit x)
    have "exp_eq x u \<longleftrightarrow> exp_eq t u" by (rule exp_eq_cong [OF hit(2)])
    with hit(3,4) Pair show ?thesis by (cases "q = p") (simp_all add: pending_count_mset)
  qed
qed

section \<open>Well-formed engines never panic\<close>

definition engine_wf :: "engine \<Rightarrow> bool" where
  "engine_wf e \<longleftrightarrow> index_wf (eng_index e)"

lemma engine_wf_new [tomo_inv]: "index_wf i \<Longrightarrow> engine_wf (engine_new r i)"
  by (simp add: engine_wf_def engine_new_def)

lemma engine_wf_entry: "engine_wf e \<Longrightarrow> index_get (eng_index e) p = Some entry \<Longrightarrow> entry_wf entry"
  by (simp add: engine_wf_def index_wf_get)

lemma vc_ok_merged [tomo_inv]: "entry_wf entry \<Longrightarrow> vc_ok (merged_clock entry)"
  unfolding merged_clock_def
  by (rule foldl_invariant [where P = vc_ok]) (auto intro: vc_ok_merge entry_wf_ok)

lemma merged_clock_fold_le:
  "vc_le (foldl (\<lambda>c h. vc_merge c (hd_version h)) c hs) z \<longleftrightarrow>
     vc_le c z \<and> (\<forall>h \<in> set hs. vc_le (hd_version h) z)"
  by (induction hs arbitrary: c) (auto simp: vc_merge_le_iff)

lemma merged_clock_le:
  "vc_le (merged_clock entry) z \<longleftrightarrow> (\<forall>v \<in> versions entry. vc_le v z)"
  unfolding merged_clock_def merged_clock_fold_le
  by (auto simp: versions_def vc_le_def)

lemma merged_clock_upper: "v \<in> versions entry \<Longrightarrow> vc_le v (merged_clock entry)"
  using merged_clock_le [of entry "merged_clock entry"] by blast

text \<open>The clock a local edit of a path starts from.\<close>

definition base_clock :: "engine \<Rightarrow> relpath \<Rightarrow> vector_clock" where
  "base_clock e p = (case index_get (eng_index e) p of None \<Rightarrow> vc_new | Some entry \<Rightarrow> merged_clock entry)"

text \<open>What an event must satisfy: clocks hold positive counters, a peer index is well
  formed, and a local edit does not overflow this replica's u64 counter at the path.\<close>

fun event_ok :: "engine \<Rightarrow> event \<Rightarrow> bool" where
  "event_ok e (Local c) \<longleftrightarrow> vc_get (base_clock e (lc_path c)) (eng_replica e) \<noteq> - 1"
| "event_ok e (Remote c) \<longleftrightarrow> vc_ok (rc_version c)"
| "event_ok e (PeerIndex i) \<longleftrightarrow> index_wf i"

lemma vc_ok_base [tomo_inv]: "engine_wf e \<Longrightarrow> vc_ok (base_clock e p)"
  by (auto simp: base_clock_def split: option.splits intro: vc_ok_merged engine_wf_entry)

lemma local_commit_wf [tomo_inv]:
  assumes "engine_wf e" "vc_get (base_clock e p) (eng_replica e) \<noteq> - 1"
    "local_commit e p (base_clock e p) s k = (e', as)"
  shows "engine_wf e'"
  using assms
  by (auto simp: local_commit_def Let_def engine_wf_def intro!: tomo_inv)

lemma entry_winner: "entry_wf entry \<Longrightarrow> \<exists>w. winner entry = Some w"
  using winner_None_iff [of entry] entry_wf_nonempty by fastforce

text \<open>The state a path has on disk according to the index.\<close>

definition disk_state :: "engine \<Rightarrow> relpath \<Rightarrow> entry_state" where
  "disk_state e p = (case index_get (eng_index e) p of
      None \<Rightarrow> Tombstone
    | Some entry \<Rightarrow> (case winner entry of None \<Rightarrow> Tombstone | Some w \<Rightarrow> hd_state w))"

lemma disk_state_cong: "index_get (eng_index e) p = index_get (eng_index e') p \<Longrightarrow> disk_state e p = disk_state e' p"
  by (simp add: disk_state_def)

text \<open>Local edits, on every branch.\<close>

lemma local_modified_cases:
  assumes "engine_wf e"
  shows "local_modified e p sig =
    (if state_eq (disk_state e p) (Present sig) then Some (e, [])
     else Some (local_commit e p (base_clock e p) (Present sig) (Modified sig)))"
proof (cases "index_get (eng_index e) p")
  case None
  then show ?thesis by (simp add: local_modified_def disk_state_def base_clock_def)
next
  case (Some entry)
  with assms obtain w where "winner entry = Some w"
    using entry_winner engine_wf_entry by blast
  with Some show ?thesis
    by (simp add: local_modified_def disk_state_def base_clock_def)
qed

lemma local_removed_cases:
  assumes "engine_wf e"
  shows "local_removed e p =
    (if state_eq (disk_state e p) Tombstone then Some (e, [])
     else Some (local_commit e p (base_clock e p) Tombstone Removed))"
proof (cases "index_get (eng_index e) p")
  case None
  then show ?thesis by (simp add: local_removed_def disk_state_def base_clock_def)
next
  case (Some entry)
  with assms obtain w where "winner entry = Some w"
    using entry_winner engine_wf_entry by blast
  with Some show ?thesis
    by (simp add: local_removed_def disk_state_def base_clock_def)
qed

definition observed :: "change_kind \<Rightarrow> expectation" where
  "observed k = expectation_from_state (state_from_kind k)"

lemma state_kind [simp]: "kind_from_state (state_from_kind k) = k" "state_from_kind (kind_from_state s) = s"
  by (simp_all add: kind_from_state_def state_from_kind_def split: change_kind.splits entry_state.splits)

lemma handle_local_echo:
  "is_expected_echo e (lc_path c) (observed (lc_kind c)) \<Longrightarrow>
   handle_local e c = Some (e\<lparr>eng_echo := snd (echo_retire (eng_echo e) (lc_path c) (observed (lc_kind c)))\<rparr>, [])"
  using echo_retire_hit_iff [of "eng_echo e" "lc_path c" "observed (lc_kind c)"]
  by (auto simp: handle_local_def is_expected_echo_def observed_def state_from_kind_def
      expectation_from_state_def split: change_kind.splits prod.splits bool.splits)

lemma handle_local_edit:
  assumes "engine_wf e" "\<not> is_expected_echo e (lc_path c) (observed (lc_kind c))"
  shows "handle_local e c =
    (if state_eq (disk_state e (lc_path c)) (state_from_kind (lc_kind c)) then Some (e, [])
     else Some (local_commit e (lc_path c) (base_clock e (lc_path c)) (state_from_kind (lc_kind c)) (lc_kind c)))"
  using assms(2) echo_retire_hit_iff [of "eng_echo e" "lc_path c" "observed (lc_kind c)"]
  by (auto simp: handle_local_def is_expected_echo_def observed_def state_from_kind_def
      expectation_from_state_def local_modified_cases [OF assms(1)] local_removed_cases [OF assms(1)]
      split: change_kind.splits prod.splits bool.splits)

section \<open>Remote changes, on every branch\<close>

definition applies :: "action list \<Rightarrow> (relpath \<times> expectation) list" where
  "applies as = concat (map (\<lambda>a. case a of Apply p t \<Rightarrow> [(p, t)] | _ \<Rightarrow> []) as)"

definition sends :: "action list \<Rightarrow> remote_change list" where
  "sends as = concat (map (\<lambda>a. case a of Send c \<Rightarrow> [c] | _ \<Rightarrow> []) as)"

lemma applies_simps [simp]:
  "applies [] = []" "applies (Apply p t # as) = (p, t) # applies as"
  "applies (Send c # as) = applies as" "applies (RecordVersion p s v # as) = applies as"
  "applies (ConflictResolved p s v s' v' b # as) = applies as"
  "applies (as @ bs) = applies as @ applies bs"
  by (simp_all add: applies_def)

lemma sends_simps [simp]:
  "sends [] = []" "sends (Send c # as) = c # sends as"
  "sends (Apply p t # as) = sends as" "sends (RecordVersion p s v # as) = sends as"
  "sends (ConflictResolved p s v s' v' b # as) = sends as"
  "sends (as @ bs) = sends as @ sends bs"
  by (simp_all add: sends_def)

lemma conflict_actions_plain [simp]:
  "applies (conflict_actions p entry w) = []" "sends (conflict_actions p entry w) = []"
  by (simp_all add: applies_def sends_def conflict_actions_def comp_def)

text \<open>The engine and the actions after absorbing a new version into a known path.\<close>

definition absorbed_engine :: "engine \<Rightarrow> relpath \<Rightarrow> entry \<Rightarrow> bool \<Rightarrow> head \<Rightarrow> engine" where
  "absorbed_engine e p entry changed w =
     (if changed then e\<lparr>eng_echo := echo_add (eng_echo e) p (expectation_from_state (hd_state w))\<rparr> else e)
       \<lparr>eng_index := index_put (eng_index e) p entry\<rparr>"

definition absorbed_actions ::
    "relpath \<Rightarrow> entry \<Rightarrow> head \<Rightarrow> absorb_outcome \<Rightarrow> entry_state \<Rightarrow> vector_clock \<Rightarrow> action list" where
  "absorbed_actions p entry w out s v =
     (if winner_changed out then [Apply p (expectation_from_state (hd_state w))] else []) @
     (if new_conflict out then conflict_actions p entry w else []) @
     (if novel_content out then [RecordVersion p s v] else [])"

lemma absorb_remote_cases:
  assumes wf: "engine_wf e"
  obtains (unseen) "index_get (eng_index e) p = None"
      "absorb_remote e p s v = Some (remote_unseen e p s v)"
    | (known) entry where "index_get (eng_index e) p = Some entry" "knows entry v"
      "absorb_remote e p s v = Some (e, [])"
    | (new) entry w w' out where "index_get (eng_index e) p = Some entry" "\<not> knows entry v"
      "winner entry = Some w" "winner (absorbed entry v s) = Some w'"
      "out = absorb_effect entry (absorbed entry v s) s w w'"
      "absorb_remote e p s v =
         Some (absorbed_engine e p (absorbed entry v s) (winner_changed out) w',
               absorbed_actions p (absorbed entry v s) w' out s v)"
proof (cases "index_get (eng_index e) p")
  case None
  then show ?thesis by (intro unseen) (simp_all add: absorb_remote_def)
next
  case (Some entry)
  show ?thesis
  proof (cases "knows entry v")
    case True
    with Some show ?thesis
      by (intro known) (simp_all add: absorb_remote_def absorb_known)
  next
    case False
    obtain w where w: "winner entry = Some w"
      using entry_winner engine_wf_entry [OF wf Some] by blast
    obtain w' where w': "winner (absorbed entry v s) = Some w'"
      using winner_absorbed by blast
    let ?out = "absorb_effect entry (absorbed entry v s) s w w'"
    have "absorb_remote e p s v =
         Some (absorbed_engine e p (absorbed entry v s) (winner_changed ?out) w',
               absorbed_actions p (absorbed entry v s) w' ?out s v)"
      using Some w'
      by (simp add: absorb_remote_def absorb_new [OF w w' False] absorb_effect_def emit_apply_def
          absorbed_engine_def absorbed_actions_def Let_def)
    with Some False w w' show ?thesis by (intro new) simp_all
  qed
qed

lemma eng_index_unseen [simp]:
  "eng_index (fst (remote_unseen e p s v)) = index_put (eng_index e) p (entry_single v s)"
  "eng_replica (fst (remote_unseen e p s v)) = eng_replica e"
  by (auto simp: remote_unseen_def emit_apply_def Let_def split: entry_state.splits)

lemma eng_index_absorbed [simp]:
  "eng_index (absorbed_engine e p entry c w) = index_put (eng_index e) p entry"
  "eng_replica (absorbed_engine e p entry c w) = eng_replica e"
  by (simp_all add: absorbed_engine_def)

section \<open>The versions known at a path\<close>

definition path_versions :: "index \<Rightarrow> relpath \<Rightarrow> vector_clock set" where
  "path_versions i p = (case index_get i p of None \<Rightarrow> {} | Some entry \<Rightarrow> versions entry)"

definition index_coherent :: "(relpath \<Rightarrow> vector_clock \<Rightarrow> entry_state) \<Rightarrow> index \<Rightarrow> bool" where
  "index_coherent org i \<longleftrightarrow> (\<forall>p entry. index_get i p = Some entry \<longrightarrow> coherent (org p) entry)"

lemma path_versions_put:
  "path_versions (index_put i p entry) q = (if q = p then versions entry else path_versions i q)"
  by (simp add: path_versions_def index_get_put)

lemma path_versions_finite [simp]: "finite (path_versions i p)"
  by (simp add: path_versions_def split: option.splits)

lemma path_versions_ok: "index_wf i \<Longrightarrow> v \<in> path_versions i p \<Longrightarrow> vc_ok v"
  by (auto simp: path_versions_def split: option.splits dest: index_wf_get intro: versions_ok)

lemma path_versions_maximal: "index_wf i \<Longrightarrow> clocks.maximal (path_versions i p) = path_versions i p"
  by (cases "index_get i p")
    (simp_all add: path_versions_def index_wf_get versions_maximal, simp add: clocks.maximal_def)

lemma path_versions_empty_iff: "index_wf i \<Longrightarrow> path_versions i p = {} \<longleftrightarrow> index_get i p = None"
  by (auto simp: path_versions_def versions_def index_wf_def entry_wf_def split: option.splits)

lemma index_coherent_put [tomo_inv]:
  "index_coherent org i \<Longrightarrow> coherent (org p) entry \<Longrightarrow> index_coherent org (index_put i p entry)"
  by (simp add: index_coherent_def index_get_put)

lemma index_coherent_get:
  "index_coherent org i \<Longrightarrow> index_get i p = Some entry \<Longrightarrow> coherent (org p) entry"
  by (simp add: index_coherent_def)

lemma index_determined:
  assumes "index_wf i" "index_wf j" "index_coherent org i" "index_coherent org j"
    and eq: "\<And>p. path_versions i p = path_versions j p"
  shows "i = j"
proof (rule index_eqI)
  fix p
  show "index_get i p = index_get j p"
  proof (cases "index_get i p")
    case None
    then have "path_versions j p = {}" using eq [of p] by (simp add: path_versions_def)
    with None assms(2) show ?thesis by (simp add: path_versions_empty_iff)
  next
    case (Some a)
    then have "path_versions j p \<noteq> {}"
      using eq [of p] path_versions_empty_iff [OF assms(1), of p] by simp
    then obtain b where b: "index_get j p = Some b"
      using path_versions_empty_iff [OF assms(2), of p] by auto
    have "versions a = versions b" using eq [of p] Some b by (simp add: path_versions_def)
    then have "a = b"
      using assms Some b by (intro entry_determined) (auto simp: index_wf_def index_coherent_def)
    with Some b show ?thesis by simp
  qed
qed

lemma path_knows: "knows entry v \<longleftrightarrow> (\<exists>u \<in> versions entry. vc_le v u)"
  by (auto simp: knows_def versions_def)

lemma entry_wf_absorbed:
  assumes "entry_wf entry" "vc_ok v" "winner entry = Some w" "winner (absorbed entry v s) = Some w'"
    "\<not> knows entry v"
  shows "entry_wf (absorbed entry v s)"
    and "versions (absorbed entry v s) = clocks.join (versions entry) v"
    and "coherent org entry \<Longrightarrow> s = org v \<Longrightarrow> coherent org (absorbed entry v s)"
  using absorb_new [OF assms(3,4,5)] assms(1,2) absorb_wf versions_absorb coherent_absorb by blast+

lemma absorb_remote_index:
  assumes wf: "engine_wf e" and ok: "vc_ok v"
  shows "\<exists>e' as. absorb_remote e p s v = Some (e', as) \<and> engine_wf e' \<and>
    eng_replica e' = eng_replica e \<and> sends as = [] \<and>
    (\<forall>q. path_versions (eng_index e') q =
       (if q = p then clocks.maximal (insert v (path_versions (eng_index e) p))
        else path_versions (eng_index e) q)) \<and>
    (\<forall>org. index_coherent org (eng_index e) \<longrightarrow> s = org p v \<longrightarrow> index_coherent org (eng_index e'))"
  using wf
proof (cases rule: absorb_remote_cases [where p = p and s = s and v = v])
  case unseen
  let ?r = "remote_unseen e p s v"
  have "sends (snd ?r) = []"
    by (auto simp: remote_unseen_def emit_apply_def Let_def split: entry_state.splits)
  moreover have "engine_wf (fst ?r)"
    using wf ok by (simp add: engine_wf_def tomo_inv)
  moreover have "path_versions (eng_index (fst ?r)) q =
      (if q = p then clocks.maximal (insert v (path_versions (eng_index e) p))
       else path_versions (eng_index e) q)" for q
    using unseen(1) by (simp add: path_versions_put path_versions_def [of _ p] versions_def entry_single_def)
  moreover have "index_coherent org (eng_index (fst ?r))" if "index_coherent org (eng_index e)" "s = org p v" for org
    using that by (simp add: tomo_inv)
  ultimately show ?thesis
    using unseen(2) by (intro exI [of _ "fst ?r"] exI [of _ "snd ?r"]) simp
next
  case (known entry)
  then have "clocks.join (versions entry) v = versions entry"
    by (auto simp: clocks.join_def path_knows)
  moreover have entry: "entry_wf entry" by (rule engine_wf_entry [OF wf known(1)])
  ultimately have "clocks.maximal (insert v (versions entry)) = versions entry"
    using clocks.join_maximal [OF versions_finite _ ok, of entry] versions_maximal [OF entry]
      versions_ok [OF entry] by simp
  with known wf show ?thesis by (simp add: path_versions_def)
next
  case (new entry w w' out)
  have entry: "entry_wf entry" by (rule engine_wf_entry [OF wf new(1)])
  note facts = entry_wf_absorbed [OF entry ok new(3,4,2)]
  have "clocks.join (versions entry) v = clocks.maximal (insert v (versions entry))"
    using clocks.join_maximal [OF versions_finite _ ok, of entry] versions_maximal [OF entry]
      versions_ok [OF entry] by simp
  with facts(1,2) new(1) wf
  have "engine_wf (absorbed_engine e p (absorbed entry v s) (winner_changed out) w')"
    and "path_versions (eng_index (absorbed_engine e p (absorbed entry v s) (winner_changed out) w')) q =
      (if q = p then clocks.maximal (insert v (path_versions (eng_index e) p))
       else path_versions (eng_index e) q)" for q
    by (simp_all add: engine_wf_def tomo_inv path_versions_put path_versions_def [of _ p])
  moreover have "sends (absorbed_actions p (absorbed entry v s) w' out s v) = []"
    by (simp add: absorbed_actions_def)
  moreover have "index_coherent org (eng_index (absorbed_engine e p (absorbed entry v s) (winner_changed out) w'))"
    if "index_coherent org (eng_index e)" "s = org p v" for org
    using that facts(3) [of "org p"] index_coherent_get [OF that(1) new(1)] by (simp add: tomo_inv)
  ultimately show ?thesis using new(6) by simp
qed

end
