(* ===== verification/Tomo_Reconcile.thy ===== *)
theory Tomo_Reconcile
  imports Tomo_Engine
begin

text \<open>
  Convergence of the engine of \<^verbatim>\<open>crates/tomo-engine/src/engine.rs\<close>: the abstract view of an
  index is \<open>path_versions\<close>, the set of causally maximal versions of each path, and every
  event that comes from the peer is a join on that view. From this follow totality,
  duplicate and order independence of remote changes, and the reconciliation of two
  replicas by exchanging their indices.
\<close>

section \<open>Reconciliation as a join\<close>

definition index_heads :: "index \<Rightarrow> relpath \<Rightarrow> head list" where
  "index_heads i p = (case index_get i p of None \<Rightarrow> [] | Some entry \<Rightarrow> heads entry)"

definition head_change :: "relpath \<Rightarrow> head \<Rightarrow> remote_change" where
  "head_change p h = \<lparr>rc_path = p, rc_kind = kind_from_state (hd_state h), rc_version = hd_version h\<rparr>"

definition covers :: "index \<Rightarrow> relpath \<Rightarrow> head \<Rightarrow> bool" where
  "covers i p h \<longleftrightarrow> (\<exists>u \<in> path_versions i p. vc_le (hd_version h) u)"

lemma path_versions_heads: "path_versions i p = hd_version ` set (index_heads i p)"
  by (simp add: path_versions_def index_heads_def versions_def split: option.splits)

lemma head_covered_iff:
  "index_get i p = Some entry \<Longrightarrow> head_covered entry h \<longleftrightarrow> covers i p h"
  using vc_compare_le_iff
  by (auto simp: head_covered_def covers_def path_versions_def versions_def list_ex_iff)

lemma sends_send_heads: "sends (map (send_head p) hs) = map (head_change p) hs"
  by (induction hs) (simp_all add: send_head_def head_change_def)

lemma absorb_heads_effect:
  assumes "engine_wf e" "\<forall>h \<in> set hs. vc_ok (hd_version h)"
  shows "\<exists>e' as. absorb_heads e p hs = Some (e', as) \<and> engine_wf e' \<and>
    eng_replica e' = eng_replica e \<and> sends as = [] \<and>
    (\<forall>q. path_versions (eng_index e') q =
       (if q = p then clocks.maximal (hd_version ` set hs \<union> path_versions (eng_index e) p)
        else path_versions (eng_index e) q)) \<and>
    (\<forall>org. index_coherent org (eng_index e) \<longrightarrow> (\<forall>h \<in> set hs. hd_state h = org p (hd_version h)) \<longrightarrow>
       index_coherent org (eng_index e'))"
  using assms
proof (induction hs arbitrary: e)
  case Nil
  then show ?case by (simp add: path_versions_maximal engine_wf_def)
next
  case (Cons h hs)
  let ?v = "hd_version h" and ?P = "path_versions (eng_index e) p"
  obtain e1 as where e1: "absorb_remote e p (hd_state h) ?v = Some (e1, as)" "engine_wf e1"
    "eng_replica e1 = eng_replica e" "sends as = []"
    and v1: "\<And>q. path_versions (eng_index e1) q =
       (if q = p then clocks.maximal (insert ?v ?P) else path_versions (eng_index e) q)"
    and c1: "\<And>org. index_coherent org (eng_index e) \<Longrightarrow> hd_state h = org p ?v \<Longrightarrow> index_coherent org (eng_index e1)"
    using absorb_remote_index [OF Cons.prems(1), of ?v p "hd_state h"] Cons.prems(2) by auto
  obtain e2 bs where e2: "absorb_heads e1 p hs = Some (e2, bs)" "engine_wf e2"
    "eng_replica e2 = eng_replica e1" "sends bs = []"
    and v2: "\<And>q. path_versions (eng_index e2) q =
       (if q = p then clocks.maximal (hd_version ` set hs \<union> path_versions (eng_index e1) p)
        else path_versions (eng_index e1) q)"
    and c2: "\<And>org. index_coherent org (eng_index e1) \<Longrightarrow> \<forall>h \<in> set hs. hd_state h = org p (hd_version h) \<Longrightarrow>
       index_coherent org (eng_index e2)"
    using Cons.IH [OF e1(2)] Cons.prems(2) by auto
  have ok: "\<forall>y \<in> ?P. vc_ok y" "\<forall>x \<in> set (map hd_version hs). vc_ok x" "vc_ok ?v"
    using Cons.prems path_versions_ok by (auto simp: engine_wf_def)
  have "clocks.maximal (hd_version ` set hs \<union> clocks.maximal (insert ?v ?P)) =
      clocks.maximal (hd_version ` set (h # hs) \<union> ?P)"
    using clocks.maximal_union [of "insert ?v ?P" "hd_version ` set hs"] ok
    by (simp add: ac_simps)
  with e1 e2 v1 v2 c1 c2 show ?case by simp
qed

lemma absorb_remote_other:
  assumes "absorb_remote e p s v = Some (e', as)" "q \<noteq> p"
  shows "index_get (eng_index e') q = index_get (eng_index e) q"
proof (cases "index_get (eng_index e) p")
  case None
  with assms have "e' = fst (remote_unseen e p s v)" by (simp add: absorb_remote_def)
  with assms(2) show ?thesis by (simp add: index_get_put)
next
  case (Some entry)
  with assms(1) obtain entry' out where a: "absorb entry v s = Some (entry', out)"
    by (auto simp: absorb_remote_def bind_eq_Some_conv)
  show ?thesis
  proof (cases out)
    case AlreadyKnown
    with assms(1) Some a show ?thesis by (simp add: absorb_remote_def)
  next
    case (Absorbed c n k)
    with assms(1) Some a obtain w where "winner entry' = Some w"
      by (auto simp: absorb_remote_def bind_eq_Some_conv)
    with assms Some a Absorbed show ?thesis
      by (cases c) (auto simp: absorb_remote_def emit_apply_def Let_def index_get_put)
  qed
qed

lemma absorb_heads_other:
  "absorb_heads e p hs = Some (e', as) \<Longrightarrow> q \<noteq> p \<Longrightarrow>
   index_get (eng_index e') q = index_get (eng_index e) q"
  by (induction hs arbitrary: e as) (auto simp: bind_eq_Some_conv absorb_remote_other)

lemma reconcile_path_other:
  "reconcile_path e i p = Some (e', as) \<Longrightarrow> q \<noteq> p \<Longrightarrow>
   index_get (eng_index e') q = index_get (eng_index e) q"
  by (auto simp: reconcile_path_def bind_eq_Some_conv absorb_heads_other split: option.splits)

lemma index_heads_cong: "index_get i p = index_get j p \<Longrightarrow> index_heads i p = index_heads j p"
  by (simp add: index_heads_def)

definition uncovered :: "index \<Rightarrow> index \<Rightarrow> relpath \<Rightarrow> remote_change set" where
  "uncovered mine theirs p = head_change p ` {h \<in> set (index_heads mine p). \<not> covers theirs p h}"

lemma index_heads_ok: "index_wf i \<Longrightarrow> h \<in> set (index_heads i p) \<Longrightarrow> vc_ok (hd_version h)"
  by (auto simp: path_versions_heads dest: path_versions_ok [of i "hd_version h" p])

lemma reconcile_path_effect:
  assumes wf: "engine_wf e" and i: "index_wf i"
  shows "\<exists>e' as. reconcile_path e i p = Some (e', as) \<and> engine_wf e' \<and> eng_replica e' = eng_replica e \<and>
    path_versions (eng_index e') p = clocks.maximal (path_versions (eng_index e) p \<union> path_versions i p) \<and>
    set (sends as) = uncovered (eng_index e') i p \<and>
    (\<forall>org. index_coherent org (eng_index e) \<longrightarrow> index_coherent org i \<longrightarrow> index_coherent org (eng_index e'))"
proof (cases "index_get i p")
  case None
  then have none: "path_versions i p = {}" "\<And>h. \<not> covers i p h"
    by (simp_all add: path_versions_def covers_def)
  have "reconcile_path e i p = Some (e, map (send_head p) (index_heads (eng_index e) p))"
    using None by (simp add: reconcile_path_def index_heads_def split: option.splits)
  then show ?thesis
    using wf none by (simp add: engine_wf_def path_versions_maximal sends_send_heads uncovered_def)
next
  case (Some entry)
  have hs: "index_heads i p = heads entry" using Some by (simp add: index_heads_def)
  then have ok: "\<forall>h \<in> set (heads entry). vc_ok (hd_version h)"
    using index_heads_ok [OF i, of _ p] by simp
  obtain e' as where e': "absorb_heads e p (heads entry) = Some (e', as)" "engine_wf e'"
    "eng_replica e' = eng_replica e" "sends as = []"
    and v: "path_versions (eng_index e') p =
       clocks.maximal (hd_version ` set (heads entry) \<union> path_versions (eng_index e) p)"
    and c: "\<And>org. index_coherent org (eng_index e) \<Longrightarrow> \<forall>h \<in> set (heads entry). hd_state h = org p (hd_version h) \<Longrightarrow>
       index_coherent org (eng_index e')"
    using absorb_heads_effect [OF wf ok, of p] by auto
  let ?sends = "map (send_head p) (filter (\<lambda>h. \<not> covers i p h) (index_heads (eng_index e') p))"
  have "reconcile_path e i p = Some (e', as @ ?sends)"
    using Some e'(1)
    by (simp add: reconcile_path_def head_covered_iff index_heads_def split: option.splits)
  moreover have "path_versions (eng_index e') p = clocks.maximal (path_versions (eng_index e) p \<union> path_versions i p)"
    using v by (simp add: path_versions_heads hs ac_simps)
  moreover have "index_coherent org (eng_index e')" if "index_coherent org (eng_index e)" "index_coherent org i" for org
    using that c Some by (auto simp: index_coherent_def coherent_def)
  ultimately show ?thesis
    using e' by (simp add: sends_send_heads uncovered_def)
qed

lemma reconcile_paths_effect:
  assumes "engine_wf e" "index_wf i" "distinct ps"
  shows "\<exists>e' as. reconcile_paths e i ps = Some (e', as) \<and> engine_wf e' \<and> eng_replica e' = eng_replica e \<and>
    (\<forall>q. q \<notin> set ps \<longrightarrow> index_get (eng_index e') q = index_get (eng_index e) q) \<and>
    (\<forall>p \<in> set ps. path_versions (eng_index e') p =
       clocks.maximal (path_versions (eng_index e) p \<union> path_versions i p)) \<and>
    set (sends as) = (\<Union>p \<in> set ps. uncovered (eng_index e') i p) \<and>
    (\<forall>org. index_coherent org (eng_index e) \<longrightarrow> index_coherent org i \<longrightarrow> index_coherent org (eng_index e'))"
  using assms
proof (induction ps arbitrary: e)
  case Nil
  then show ?case by simp
next
  case (Cons p ps)
  obtain e1 as where e1: "reconcile_path e i p = Some (e1, as)" "engine_wf e1" "eng_replica e1 = eng_replica e"
    "path_versions (eng_index e1) p = clocks.maximal (path_versions (eng_index e) p \<union> path_versions i p)"
    "set (sends as) = uncovered (eng_index e1) i p"
    "\<And>org. index_coherent org (eng_index e) \<Longrightarrow> index_coherent org i \<Longrightarrow> index_coherent org (eng_index e1)"
    using reconcile_path_effect [OF Cons.prems(1,2), of p] by blast
  obtain e2 bs where e2: "reconcile_paths e1 i ps = Some (e2, bs)" "engine_wf e2" "eng_replica e2 = eng_replica e1"
    "\<And>q. q \<notin> set ps \<Longrightarrow> index_get (eng_index e2) q = index_get (eng_index e1) q"
    "\<And>p. p \<in> set ps \<Longrightarrow> path_versions (eng_index e2) p =
       clocks.maximal (path_versions (eng_index e1) p \<union> path_versions i p)"
    "set (sends bs) = (\<Union>p \<in> set ps. uncovered (eng_index e2) i p)"
    "\<And>org. index_coherent org (eng_index e1) \<Longrightarrow> index_coherent org i \<Longrightarrow> index_coherent org (eng_index e2)"
    using Cons.IH [OF e1(2) Cons.prems(2)] Cons.prems(3) by auto
  have other: "index_get (eng_index e1) q = index_get (eng_index e) q" if "q \<noteq> p" for q
    using reconcile_path_other [OF e1(1) that] .
  have same_p: "index_get (eng_index e2) p = index_get (eng_index e1) p"
    using e2(4) Cons.prems(3) by simp
  then have "uncovered (eng_index e2) i p = uncovered (eng_index e1) i p"
    and "path_versions (eng_index e2) p = path_versions (eng_index e1) p"
    by (simp_all add: uncovered_def index_heads_def path_versions_def)
  moreover have "path_versions (eng_index e1) q = path_versions (eng_index e) q" if "q \<in> set ps" for q
  proof -
    have "q \<noteq> p" using that Cons.prems(3) by auto
    then show ?thesis by (simp add: path_versions_def other)
  qed
  moreover have "index_get (eng_index e2) q = index_get (eng_index e) q" if "q \<notin> set (p # ps)" for q
    using that other [of q] e2(4) [of q] by simp
  ultimately show ?case using e1 e2 by auto
qed

lemma index_paths_mem: "p \<in> set (index_paths i) \<longleftrightarrow> index_get i p \<noteq> None"
  by (simp add: index_paths_def set_bm_keys index_get_def domIff)

text \<open>A peer index is joined into the own index path by path, and answered with exactly
  the heads the peer does not cover.\<close>

lemma handle_peer_index_effect:
  assumes "engine_wf e" "index_wf i"
  shows "\<exists>e' as. handle_peer_index e i = Some (e', as) \<and> engine_wf e' \<and> eng_replica e' = eng_replica e \<and>
    (\<forall>p. path_versions (eng_index e') p =
       clocks.maximal (path_versions (eng_index e) p \<union> path_versions i p)) \<and>
    set (sends as) = (\<Union>p. uncovered (eng_index e') i p) \<and>
    (\<forall>org. index_coherent org (eng_index e) \<longrightarrow> index_coherent org i \<longrightarrow> index_coherent org (eng_index e'))"
proof -
  let ?ps = "sorted_list_of_set (set (index_paths (eng_index e)) \<union> set (index_paths i))"
  have "distinct ?ps" by simp
  then obtain e' as where e': "reconcile_paths e i ?ps = Some (e', as)" "engine_wf e'" "eng_replica e' = eng_replica e"
    "\<And>q. q \<notin> set ?ps \<Longrightarrow> index_get (eng_index e') q = index_get (eng_index e) q"
    "\<And>p. p \<in> set ?ps \<Longrightarrow> path_versions (eng_index e') p =
       clocks.maximal (path_versions (eng_index e) p \<union> path_versions i p)"
    "set (sends as) = (\<Union>p \<in> set ?ps. uncovered (eng_index e') i p)"
    "\<And>org. index_coherent org (eng_index e) \<Longrightarrow> index_coherent org i \<Longrightarrow> index_coherent org (eng_index e')"
    using reconcile_paths_effect [OF assms] by metis
  have out: "index_get (eng_index e) p = None" "index_get i p = None" if "p \<notin> set ?ps" for p
    using that index_paths_mem [of p "eng_index e"] index_paths_mem [of p i] by auto
  have out': "index_get (eng_index e') p = None" if "p \<notin> set ?ps" for p
    using e'(4) [OF that] out(1) [OF that] by simp
  have "path_versions (eng_index e') p = clocks.maximal (path_versions (eng_index e) p \<union> path_versions i p)" for p
  proof (cases "p \<in> set ?ps")
    case True
    then show ?thesis by (rule e'(5))
  next
    case False
    from out [OF this] out' [OF this] show ?thesis by (simp add: path_versions_def clocks.maximal_def)
  qed
  moreover have "uncovered (eng_index e') i p = {}" if "p \<notin> set ?ps" for p
    using out' [OF that] by (simp add: uncovered_def index_heads_def)
  then have "(\<Union>p \<in> set ?ps. uncovered (eng_index e') i p) = (\<Union>p. uncovered (eng_index e') i p)"
    by blast
  ultimately show ?thesis
    using e' by (simp add: handle_peer_index_def)
qed

section \<open>Totality\<close>

lemma handle_local_effect:
  assumes "engine_wf e" "event_ok e (Local c)"
  shows "\<exists>e' as. handle_local e c = Some (e', as) \<and> engine_wf e' \<and> eng_replica e' = eng_replica e"
proof (cases "is_expected_echo e (lc_path c) (observed (lc_kind c))")
  case True
  with assms(1) show ?thesis by (simp add: handle_local_echo engine_wf_def)
next
  case False
  let ?r = "local_commit e (lc_path c) (base_clock e (lc_path c)) (state_from_kind (lc_kind c)) (lc_kind c)"
  obtain e' as where r: "?r = (e', as)" by (cases ?r)
  then have "engine_wf e'"
    using assms by (intro local_commit_wf [OF assms(1) _ r]) simp
  moreover have "eng_replica e' = eng_replica e"
    using r by (auto simp: local_commit_def Let_def)
  ultimately show ?thesis
    using assms(1) unfolding handle_local_edit [OF assms(1) False] r by simp
qed

text \<open>C6: The engine never panics and keeps its index well formed: on any well-formed
  engine every admissible event (local edit, remote change, peer index) is handled, the
  \<open>unreachable!\<close> of an entry without heads is not reached, and the new engine is well
  formed and belongs to the same replica.\<close>

theorem engine_never_panics:
  assumes "engine_wf e" "event_ok e ev"
  shows "\<exists>e' as. handle e ev = Some (e', as) \<and> engine_wf e' \<and> eng_replica e' = eng_replica e"
proof (cases ev)
  case (Local c)
  with assms handle_local_effect show ?thesis by (simp add: handle_def)
next
  case (Remote c)
  with assms absorb_remote_index [OF assms(1), of "rc_version c" "rc_path c" "state_from_kind (rc_kind c)"]
  show ?thesis by (auto simp: handle_def handle_remote_def)
next
  case (PeerIndex i)
  with assms handle_peer_index_effect [OF assms(1), of i] show ?thesis by (auto simp: handle_def)
qed

definition demo_path :: relpath where
  "demo_path = RelPath ''f''"

definition demo_remote :: "u64 \<Rightarrow> remote_change" where
  "demo_remote r = \<lparr>rc_path = demo_path, rc_kind = Modified (demo_sig (of_nat (unat r)) r), rc_version = demo_clock r\<rparr>"

lemma engine_wf_fresh [simp]: "engine_wf (engine_new r index_new)"
  by (rule engine_wf_new [OF index_wf_new])

theorem engine_never_panics_witness:
  "\<exists>e' as. handle (engine_new (ReplicaId 1) index_new) (Remote (demo_remote 2)) = Some (e', as) \<and>
     engine_wf e' \<and> eng_replica e' = ReplicaId 1"
  using engine_never_panics [OF engine_wf_fresh, of "ReplicaId 1" "Remote (demo_remote 2)"]
  by (simp add: demo_remote_def engine_new_def)

section \<open>Remote changes commute and repeat\<close>

definition change_ok :: "(relpath \<Rightarrow> vector_clock \<Rightarrow> entry_state) \<Rightarrow> remote_change \<Rightarrow> bool" where
  "change_ok org c \<longleftrightarrow> vc_ok (rc_version c) \<and> state_from_kind (rc_kind c) = org (rc_path c) (rc_version c)"

definition versions_at :: "relpath \<Rightarrow> remote_change set \<Rightarrow> vector_clock set" where
  "versions_at p cs = {rc_version c |c. c \<in> cs \<and> rc_path c = p}"

lemma versions_at_insert:
  "versions_at p (insert c cs) = (if rc_path c = p then insert (rc_version c) (versions_at p cs) else versions_at p cs)"
  by (auto simp: versions_at_def)

lemma remote_effect:
  assumes "engine_wf e" "vc_ok (rc_version c)"
  shows "\<exists>e' as. handle e (Remote c) = Some (e', as) \<and> engine_wf e' \<and> eng_replica e' = eng_replica e \<and>
    sends as = [] \<and>
    (\<forall>p. path_versions (eng_index e') p =
       clocks.maximal (path_versions (eng_index e) p \<union> versions_at p {c})) \<and>
    (\<forall>org. index_coherent org (eng_index e) \<longrightarrow> change_ok org c \<longrightarrow> index_coherent org (eng_index e'))"
  using absorb_remote_index [OF assms, of "rc_path c" "state_from_kind (rc_kind c)"] assms(1)
  by (auto simp: handle_def handle_remote_def change_ok_def versions_at_def engine_wf_def path_versions_maximal)

lemma remote_all_effect:
  assumes "engine_wf e" "\<forall>c \<in> set cs. vc_ok (rc_version c)"
  shows "\<exists>e' as. handle_all e (map Remote cs) = Some (e', as) \<and> engine_wf e' \<and> eng_replica e' = eng_replica e \<and>
    sends as = [] \<and>
    (\<forall>p. path_versions (eng_index e') p =
       clocks.maximal (path_versions (eng_index e) p \<union> versions_at p (set cs))) \<and>
    (\<forall>org. index_coherent org (eng_index e) \<longrightarrow> (\<forall>c \<in> set cs. change_ok org c) \<longrightarrow>
       index_coherent org (eng_index e'))"
  using assms
proof (induction cs arbitrary: e)
  case Nil
  then show ?case by (simp add: versions_at_def engine_wf_def path_versions_maximal)
next
  case (Cons c cs)
  obtain e1 as where e1: "handle e (Remote c) = Some (e1, as)" "engine_wf e1"
    "eng_replica e1 = eng_replica e" "sends as = []"
    and v1: "\<And>p. path_versions (eng_index e1) p =
       clocks.maximal (path_versions (eng_index e) p \<union> versions_at p {c})"
    and c1: "\<And>org. index_coherent org (eng_index e) \<Longrightarrow> change_ok org c \<Longrightarrow> index_coherent org (eng_index e1)"
    using remote_effect [OF Cons.prems(1), of c] Cons.prems(2) by auto
  obtain e2 bs where e2: "handle_all e1 (map Remote cs) = Some (e2, bs)" "engine_wf e2"
    "eng_replica e2 = eng_replica e1" "sends bs = []"
    and v2: "\<And>p. path_versions (eng_index e2) p =
       clocks.maximal (path_versions (eng_index e1) p \<union> versions_at p (set cs))"
    and c2: "\<And>org. index_coherent org (eng_index e1) \<Longrightarrow> \<forall>c \<in> set cs. change_ok org c \<Longrightarrow> index_coherent org (eng_index e2)"
    using Cons.IH [OF e1(2)] Cons.prems(2) by auto
  have "path_versions (eng_index e2) p =
      clocks.maximal (path_versions (eng_index e) p \<union> versions_at p (set (c # cs)))" for p
  proof -
    have "\<forall>y \<in> path_versions (eng_index e) p \<union> versions_at p {c}. vc_ok y"
      "\<forall>y \<in> versions_at p (set cs). vc_ok y" "finite (versions_at p {c})"
      using Cons.prems path_versions_ok by (auto simp: versions_at_def engine_wf_def)
    then show ?thesis
      using clocks.maximal_union [of "path_versions (eng_index e) p \<union> versions_at p {c}" "versions_at p (set cs)"]
      by (simp add: v1 v2 versions_at_insert [of p c "set cs"] versions_at_insert [of p c "{}"] ac_simps)
        (simp add: versions_at_def)
  qed
  with e1 e2 c1 c2 show ?case by simp
qed

text \<open>C3: Strong eventual consistency (invariant 5 of the source): two replicas with equal
  indices that are handed the same set of remote changes, in any two orders and with any
  repetitions, end with equal indices and send nothing in reply.\<close>

theorem remote_changes_converge:
  assumes "engine_wf e1" "engine_wf e2" "eng_index e1 = eng_index e2" "index_coherent org (eng_index e1)"
    and "\<forall>c \<in> set cs. change_ok org c" "set cs = set cs'"
  shows "\<exists>f1 f2 as1 as2. handle_all e1 (map Remote cs) = Some (f1, as1) \<and>
    handle_all e2 (map Remote cs') = Some (f2, as2) \<and> eng_index f1 = eng_index f2 \<and>
    sends as1 = [] \<and> sends as2 = []"
proof -
  have ok: "\<forall>c \<in> set cs. vc_ok (rc_version c)" "\<forall>c \<in> set cs'. vc_ok (rc_version c)"
    using assms(5,6) by (auto simp: change_ok_def)
  obtain f1 as1 where f1: "handle_all e1 (map Remote cs) = Some (f1, as1)" "engine_wf f1" "sends as1 = []"
    "\<And>p. path_versions (eng_index f1) p = clocks.maximal (path_versions (eng_index e1) p \<union> versions_at p (set cs))"
    "index_coherent org (eng_index f1)"
    using remote_all_effect [OF assms(1) ok(1)] assms(4,5) by auto
  obtain f2 as2 where f2: "handle_all e2 (map Remote cs') = Some (f2, as2)" "engine_wf f2" "sends as2 = []"
    "\<And>p. path_versions (eng_index f2) p = clocks.maximal (path_versions (eng_index e2) p \<union> versions_at p (set cs'))"
    "index_coherent org (eng_index f2)"
    using remote_all_effect [OF assms(2) ok(2)] assms(3-6) by auto
  have "eng_index f1 = eng_index f2"
    using f1 f2 assms(3,6) by (intro index_determined) (simp_all add: engine_wf_def)
  with f1 f2 show ?thesis by blast
qed

lemma index_coherent_new [tomo_inv]: "index_coherent org index_new"
  by (simp add: index_coherent_def)

lemma eng_index_new [simp]: "eng_index (engine_new r i) = i" and eng_replica_new [simp]: "eng_replica (engine_new r i) = r"
  by (simp_all add: engine_new_def)

definition demo_org :: "relpath \<Rightarrow> vector_clock \<Rightarrow> entry_state" where
  "demo_org p v = (if v = demo_clock 2 then Present (demo_sig 2 2) else Present (demo_sig 3 3))"

lemma demo_clock_inject [simp]: "demo_clock r = demo_clock q \<longleftrightarrow> r = q"
  by (metis vc_get_demo zero_neq_one)

lemma demo_change_ok [simp]: "change_ok demo_org (demo_remote 2)" "change_ok demo_org (demo_remote 3)"
  by (simp_all add: change_ok_def demo_remote_def demo_org_def state_from_kind_def)

theorem remote_changes_converge_witness:
  "\<exists>f1 f2 as1 as2.
     handle_all (engine_new (ReplicaId 1) index_new) (map Remote [demo_remote 2, demo_remote 3]) = Some (f1, as1) \<and>
     handle_all (engine_new (ReplicaId 4) index_new)
       (map Remote [demo_remote 3, demo_remote 2, demo_remote 3]) = Some (f2, as2) \<and>
     eng_index f1 = eng_index f2 \<and> sends as1 = [] \<and> sends as2 = []"
proof -
  have coh: "index_coherent demo_org (eng_index (engine_new (ReplicaId 1) index_new))"
    by (simp add: index_coherent_new)
  show ?thesis
    using remote_changes_converge [OF engine_wf_fresh engine_wf_fresh _ coh,
        of "ReplicaId 4" "[demo_remote 2, demo_remote 3]" "[demo_remote 3, demo_remote 2, demo_remote 3]"]
    by auto
qed

section \<open>Reconciliation at connect\<close>

definition demo_index :: "u64 \<Rightarrow> index" where
  "demo_index r = index_put index_new demo_path
     (entry_single (demo_clock r) (Present (demo_sig (of_nat (unat r)) r)))"

lemma demo_index_wf [simp]: "index_wf (demo_index r)"
  unfolding demo_index_def by (intro index_wf_put index_wf_new entry_wf_single vc_ok_demo)

lemma demo_index_coherent [simp]: "index_coherent demo_org (demo_index 2)" "index_coherent demo_org (demo_index 3)"
  unfolding demo_index_def
  by (intro index_coherent_put index_coherent_new coherent_single, simp add: demo_org_def)+

text \<open>Exchanging indices reconciles two replicas: when each handles the other's index,
  the two indices end equal, whatever the replicas did while they were apart.\<close>

theorem peer_index_exchange_converges:
  assumes "engine_wf a" "engine_wf b" "index_coherent org (eng_index a)" "index_coherent org (eng_index b)"
  shows "\<exists>a' b' as bs. handle a (PeerIndex (eng_index b)) = Some (a', as) \<and>
    handle b (PeerIndex (eng_index a)) = Some (b', bs) \<and> eng_index a' = eng_index b'"
proof -
  have wf: "index_wf (eng_index a)" "index_wf (eng_index b)"
    using assms by (simp_all add: engine_wf_def)
  obtain a' as where a': "handle_peer_index a (eng_index b) = Some (a', as)" "engine_wf a'"
    "\<And>p. path_versions (eng_index a') p = clocks.maximal (path_versions (eng_index a) p \<union> path_versions (eng_index b) p)"
    "index_coherent org (eng_index a')"
    using handle_peer_index_effect [OF assms(1) wf(2)] assms(3,4) by auto
  obtain b' bs where b': "handle_peer_index b (eng_index a) = Some (b', bs)" "engine_wf b'"
    "\<And>p. path_versions (eng_index b') p = clocks.maximal (path_versions (eng_index b) p \<union> path_versions (eng_index a) p)"
    "index_coherent org (eng_index b')"
    using handle_peer_index_effect [OF assms(2) wf(1)] assms(3,4) by auto
  have "eng_index a' = eng_index b'"
    using a' b' by (intro index_determined) (simp_all add: engine_wf_def Un_commute)
  with a' b' show ?thesis by (auto simp: handle_def)
qed

theorem peer_index_exchange_converges_witness:
  "\<exists>a' b' as bs.
     handle (engine_new (ReplicaId 1) (demo_index 2)) (PeerIndex (demo_index 3)) = Some (a', as) \<and>
     handle (engine_new (ReplicaId 4) (demo_index 3)) (PeerIndex (demo_index 2)) = Some (b', bs) \<and>
     eng_index a' = eng_index b'"
  by (rule peer_index_exchange_converges [of "engine_new (ReplicaId 1) (demo_index 2)"
        "engine_new (ReplicaId 4) (demo_index 3)" demo_org, unfolded eng_index_new,
        OF engine_wf_new [OF demo_index_wf] engine_wf_new [OF demo_index_wf] demo_index_coherent])

text \<open>The reply to a peer index is exact: it ships precisely the heads of the merged
  index that the peer's own heads do not cover, each with its state and clock, so nothing
  the peer already has is sent and nothing it lacks is withheld.\<close>

theorem peer_index_reply_exact:
  assumes "engine_wf e" "index_wf i"
  shows "\<exists>e' as. handle e (PeerIndex i) = Some (e', as) \<and>
    set (sends as) =
      {head_change p h |p h. h \<in> set (index_heads (eng_index e') p) \<and> \<not> covers i p h}"
proof -
  obtain e' as where e': "handle_peer_index e i = Some (e', as)"
    and sends: "set (sends as) = (\<Union>p. uncovered (eng_index e') i p)"
    using handle_peer_index_effect [OF assms] by (elim exE conjE)
  have "(\<Union>p. uncovered (eng_index e') i p) =
      {head_change p h |p h. h \<in> set (index_heads (eng_index e') p) \<and> \<not> covers i p h}"
    unfolding uncovered_def by blast
  with e' sends have "handle e (PeerIndex i) = Some (e', as) \<and> set (sends as) =
      {head_change p h |p h. h \<in> set (index_heads (eng_index e') p) \<and> \<not> covers i p h}"
    by (simp add: handle_def)
  then show ?thesis by blast
qed

theorem peer_index_reply_exact_witness:
  "\<exists>e' as. handle (engine_new (ReplicaId 1) index_new) (PeerIndex index_new) = Some (e', as) \<and>
    set (sends as) = {head_change p h |p h. h \<in> set (index_heads (eng_index e') p) \<and> \<not> covers index_new p h}"
  by (rule peer_index_reply_exact [OF engine_wf_fresh index_wf_new])

end
