(* ===== verification/Tomo_Echo.thy ===== *)
theory Tomo_Echo
  imports Tomo_Reconcile
begin

text \<open>
  What the engine of \<^verbatim>\<open>crates/tomo-engine/src/engine.rs\<close> promises to the tree on disk:
  executing the \<open>Apply\<close> actions keeps the tree at the winners of the index, the journal
  counts exactly the writes not yet echoed, their echoes are swallowed, and a genuine
  local edit supersedes everything the replica knows of the path. The last section shows
  the limit of the journal: an expectation that is never echoed stays in it.
\<close>

section \<open>The tree and the journal follow the actions\<close>

type_synonym tree = "relpath \<Rightarrow> expectation"

definition run_applies :: "tree \<Rightarrow> action list \<Rightarrow> tree" where
  "run_applies d as = foldl (\<lambda>d (p, t). d(p := t)) d (applies as)"

definition tree_matches :: "engine \<Rightarrow> tree \<Rightarrow> bool" where
  "tree_matches e d \<longleftrightarrow> (\<forall>p. exp_eq (d p) (expectation_from_state (disk_state e p)))"

definition apply_count :: "action list \<Rightarrow> relpath \<Rightarrow> expectation \<Rightarrow> nat" where
  "apply_count as p t = length (filter (\<lambda>(q, u). q = p \<and> exp_eq u t) (applies as))"

definition journal_follows :: "engine \<Rightarrow> action list \<Rightarrow> engine \<Rightarrow> bool" where
  "journal_follows e as e' \<longleftrightarrow> (\<forall>p t.
     pending_count (eng_echo e') p t = pending_count (eng_echo e) p t + apply_count as p t)"

definition tree_follows :: "engine \<Rightarrow> action list \<Rightarrow> engine \<Rightarrow> bool" where
  "tree_follows e as e' \<longleftrightarrow> (\<forall>d. tree_matches e d \<longrightarrow> tree_matches e' (run_applies d as))"

definition peer_step :: "engine \<Rightarrow> action list \<Rightarrow> engine \<Rightarrow> bool" where
  "peer_step e as e' \<longleftrightarrow> journal_follows e as e' \<and> tree_follows e as e'"

lemma run_applies_append: "run_applies d (as @ bs) = run_applies (run_applies d as) bs"
  by (simp add: run_applies_def)

lemma peer_step_plain: "applies as = [] \<Longrightarrow> peer_step e as e"
  by (simp add: peer_step_def journal_follows_def tree_follows_def run_applies_def apply_count_def)

lemma peer_step_trans: "peer_step e as e1 \<Longrightarrow> peer_step e1 bs e2 \<Longrightarrow> peer_step e (as @ bs) e2"
  by (simp add: peer_step_def journal_follows_def tree_follows_def run_applies_append apply_count_def)

lemma peer_step_one:
  assumes "applies as = [(p, expectation_from_state s)]"
    and "eng_echo e' = echo_add (eng_echo e) p (expectation_from_state s)"
    and "\<And>q. disk_state e' q = (if q = p then s else disk_state e q)"
  shows "peer_step e as e'"
  using assms
  by (simp add: peer_step_def journal_follows_def tree_follows_def tree_matches_def run_applies_def
      apply_count_def pending_count_add)

lemma peer_step_quiet:
  assumes "applies as = []" "eng_echo e' = eng_echo e"
    and disk: "\<And>q. disk_state e' q = (if q = p then s else disk_state e q)"
    and same: "state_eq (disk_state e p) s"
  shows "peer_step e as e'"
proof -
  have "exp_eq x (expectation_from_state (disk_state e q)) \<Longrightarrow>
      exp_eq x (expectation_from_state (disk_state e' q))" for x q
    using exp_eq_trans [of x "expectation_from_state (disk_state e q)"] same
    by (simp add: disk exp_eq_of_state split: if_splits)
  with assms(1,2) show ?thesis
    by (simp add: peer_step_def journal_follows_def tree_follows_def tree_matches_def run_applies_def
        apply_count_def)
qed

lemma peer_step_unseen:
  assumes "index_get (eng_index e) p = None"
  shows "peer_step e (snd (remote_unseen e p s v)) (fst (remote_unseen e p s v))"
proof -
  let ?r = "remote_unseen e p s v"
  have disk: "disk_state (fst ?r) q = (if q = p then s else disk_state e q)" for q
    by (auto simp: disk_state_def index_get_put winner_def entry_single_def)
  show ?thesis
  proof (cases s)
    case (Present sig)
    then have "applies (snd ?r) = [(p, expectation_from_state s)]"
      and "eng_echo (fst ?r) = echo_add (eng_echo e) p (expectation_from_state s)"
      by (simp_all add: remote_unseen_def emit_apply_def Let_def expectation_from_state_def)
    then show ?thesis using disk by (rule peer_step_one)
  next
    case Tombstone
    then have "applies (snd ?r) = []" and "eng_echo (fst ?r) = eng_echo e"
      by (simp_all add: remote_unseen_def emit_apply_def Let_def)
    moreover have "state_eq (disk_state e p) s"
      using assms Tombstone by (simp add: disk_state_def)
    ultimately show ?thesis using disk by (intro peer_step_quiet)
  qed
qed

lemma peer_step_absorbed:
  assumes "index_get (eng_index e) p = Some entry" "winner entry = Some w" "winner entry' = Some w'"
    and out: "winner_changed out \<longleftrightarrow> \<not> state_eq (hd_state w) (hd_state w')"
  shows "peer_step e (absorbed_actions p entry' w' out s v) (absorbed_engine e p entry' (winner_changed out) w')"
proof -
  let ?e = "absorbed_engine e p entry' (winner_changed out) w'"
  let ?as = "absorbed_actions p entry' w' out s v"
  have disk: "disk_state ?e q = (if q = p then hd_state w' else disk_state e q)" for q
    using assms(3) by (simp add: disk_state_def index_get_put)
  show ?thesis
  proof (cases "winner_changed out")
    case True
    then have "applies ?as = [(p, expectation_from_state (hd_state w'))]"
      and "eng_echo ?e = echo_add (eng_echo e) p (expectation_from_state (hd_state w'))"
      by (simp_all add: absorbed_actions_def absorbed_engine_def)
    then show ?thesis using disk by (rule peer_step_one)
  next
    case False
    then have "applies ?as = []" and "eng_echo ?e = eng_echo e"
      by (simp_all add: absorbed_actions_def absorbed_engine_def)
    moreover have "state_eq (disk_state e p) (hd_state w')"
      using assms(1,2) False out by (simp add: disk_state_def)
    ultimately show ?thesis using disk by (intro peer_step_quiet)
  qed
qed

lemma peer_step_absorb_remote:
  assumes wf: "engine_wf e" and r: "absorb_remote e p s v = Some (e', as)"
  shows "peer_step e as e'"
  using wf
proof (cases rule: absorb_remote_cases [where p = p and s = s and v = v])
  case unseen
  with r peer_step_unseen [OF unseen(1), of s v] show ?thesis by simp
next
  case (known entry)
  with r show ?thesis by (simp add: peer_step_plain)
next
  case (new entry w w' out)
  have "winner_changed out \<longleftrightarrow> \<not> state_eq (hd_state w) (hd_state w')"
    by (simp add: new(5) absorb_effect_def)
  from peer_step_absorbed [OF new(1,3,4) this, of s v] r new(6) show ?thesis by simp
qed

lemma peer_step_absorb_heads:
  assumes "engine_wf e" "\<forall>h \<in> set hs. vc_ok (hd_version h)" "absorb_heads e p hs = Some (e', as)"
  shows "peer_step e as e'"
  using assms
proof (induction hs arbitrary: e as)
  case Nil
  then show ?case by (simp add: peer_step_plain)
next
  case (Cons h hs)
  obtain e1 bs where e1: "absorb_remote e p (hd_state h) (hd_version h) = Some (e1, bs)" "engine_wf e1"
    using absorb_remote_index [OF Cons.prems(1), of "hd_version h" p "hd_state h"] Cons.prems(2) by auto
  with Cons.prems(3) obtain cs where cs: "absorb_heads e1 p hs = Some (e', cs)" "as = bs @ cs"
    by (auto simp: bind_eq_Some_conv)
  have "peer_step e bs e1" by (rule peer_step_absorb_remote [OF Cons.prems(1) e1(1)])
  moreover have "peer_step e1 cs e'" using Cons.IH [OF e1(2) _ cs(1)] Cons.prems(2) by simp
  ultimately show ?case unfolding cs(2) by (rule peer_step_trans)
qed

lemma applies_send_heads [simp]: "applies (map (send_head p) hs) = []"
  by (induction hs) (simp_all add: send_head_def)

lemma peer_step_reconcile_path:
  assumes "engine_wf e" "index_wf i" "reconcile_path e i p = Some (e', as)"
  shows "peer_step e as e'"
proof (cases "index_get i p")
  case None
  with assms(3) show ?thesis
    by (auto simp: reconcile_path_def split: option.splits intro!: peer_step_plain)
next
  case (Some entry)
  then have ok: "\<forall>h \<in> set (heads entry). vc_ok (hd_version h)"
    using index_heads_ok [OF assms(2), of _ p] by (simp add: index_heads_def)
  from Some assms(3) obtain bs cs where bs: "absorb_heads e p (heads entry) = Some (e', bs)"
    "as = bs @ cs" "applies cs = []"
    by (auto simp: reconcile_path_def bind_eq_Some_conv split: option.splits)
  show ?thesis
    unfolding bs(2) by (rule peer_step_trans [OF peer_step_absorb_heads [OF assms(1) ok bs(1)] peer_step_plain [OF bs(3)]])
qed

lemma peer_step_reconcile_paths:
  assumes "engine_wf e" "index_wf i" "reconcile_paths e i ps = Some (e', as)"
  shows "peer_step e as e'"
  using assms
proof (induction ps arbitrary: e as)
  case Nil
  then show ?case by (simp add: peer_step_plain)
next
  case (Cons p ps)
  obtain e1 bs where e1: "reconcile_path e i p = Some (e1, bs)" "engine_wf e1"
    using reconcile_path_effect [OF Cons.prems(1,2), of p] by (elim exE conjE)
  with Cons.prems(3) obtain cs where cs: "reconcile_paths e1 i ps = Some (e', cs)" "as = bs @ cs"
    by (auto simp: bind_eq_Some_conv)
  show ?case
    unfolding cs(2)
    by (rule peer_step_trans [OF peer_step_reconcile_path [OF Cons.prems(1,2) e1(1)] Cons.IH [OF e1(2) Cons.prems(2) cs(1)]])
qed

definition from_peer :: "event \<Rightarrow> bool" where
  "from_peer ev \<longleftrightarrow> (case ev of Local _ \<Rightarrow> False | _ \<Rightarrow> True)"

lemma peer_step_handle:
  assumes "engine_wf e" "event_ok e ev" "from_peer ev" "handle e ev = Some (e', as)"
  shows "peer_step e as e'"
  using assms
  by (cases ev)
    (auto simp: from_peer_def handle_def handle_remote_def handle_peer_index_def
      intro: peer_step_absorb_remote peer_step_reconcile_paths)

section \<open>Properties\<close>

text \<open>C8: The tree follows the index: if the tree shows, at every path, the state of the
  winning head, then executing the actions of any event from the peer keeps it so. An
  \<open>Apply\<close> is therefore emitted whenever the winner moves, and only its target is needed.\<close>

theorem tree_follows_winners:
  assumes "engine_wf e" "event_ok e ev" "from_peer ev" "handle e ev = Some (e', as)" "tree_matches e d"
  shows "tree_matches e' (run_applies d as)"
  using peer_step_handle [OF assms(1-4)] assms(5) by (simp add: peer_step_def tree_follows_def)

lemma demo_remote_fresh:
  "handle (engine_new r index_new) (Remote (demo_remote q)) =
     Some (\<lparr>eng_replica = r, eng_index = demo_index q,
            eng_echo = echo_add echo_new demo_path (ExpPresent (demo_sig (of_nat (unat q)) q))\<rparr>,
       [Apply demo_path (ExpPresent (demo_sig (of_nat (unat q)) q)),
        RecordVersion demo_path (Present (demo_sig (of_nat (unat q)) q)) (demo_clock q)])"
  by (simp add: handle_def handle_remote_def absorb_remote_def remote_unseen_def emit_apply_def
      demo_remote_def state_from_kind_def engine_new_def demo_index_def)

theorem tree_follows_winners_witness:
  "tree_matches \<lparr>eng_replica = ReplicaId 1, eng_index = demo_index 2,
       eng_echo = echo_add echo_new demo_path (ExpPresent (demo_sig 2 2))\<rparr>
     (run_applies (\<lambda>_. ExpAbsent) [Apply demo_path (ExpPresent (demo_sig 2 2)),
        RecordVersion demo_path (Present (demo_sig 2 2)) (demo_clock 2)])"
proof -
  have "tree_matches (engine_new (ReplicaId 1) index_new) (\<lambda>_. ExpAbsent)"
    by (simp add: tree_matches_def disk_state_def expectation_from_state_def)
  moreover have "event_ok (engine_new (ReplicaId 1) index_new) (Remote (demo_remote 2))"
    by (simp add: demo_remote_def)
  ultimately show ?thesis
    using tree_follows_winners [OF engine_wf_fresh _ _ demo_remote_fresh, of "ReplicaId 1" 2 "\<lambda>_. ExpAbsent"]
    by (simp add: from_peer_def)
qed

text \<open>The watcher event an executed \<open>Apply\<close> raises.\<close>

definition echo_event :: "relpath \<times> expectation \<Rightarrow> event" where
  "echo_event pt = Local \<lparr>lc_path = fst pt,
     lc_kind = (case snd pt of ExpPresent sig \<Rightarrow> Modified sig | ExpAbsent \<Rightarrow> Removed)\<rparr>"

definition target_count :: "(relpath \<times> expectation) list \<Rightarrow> relpath \<Rightarrow> expectation \<Rightarrow> nat" where
  "target_count pts p t = length (filter (\<lambda>(q, u). q = p \<and> exp_eq u t) pts)"

lemma apply_count_target: "apply_count as p t = target_count (applies as) p t"
  by (simp add: apply_count_def target_count_def)

lemma target_count_mset: "mset pts = mset pts' \<Longrightarrow> target_count pts p t = target_count pts' p t"
  unfolding target_count_def by (metis mset_filter size_mset)

lemma handle_echo:
  assumes "is_expected_echo e p t"
  shows "handle e (echo_event (p, t)) = Some (e\<lparr>eng_echo := snd (echo_retire (eng_echo e) p t)\<rparr>, [])"
proof -
  let ?k = "case t of ExpPresent sig \<Rightarrow> Modified sig | ExpAbsent \<Rightarrow> Removed"
  have "observed ?k = t"
    by (simp add: observed_def state_from_kind_def expectation_from_state_def split: expectation.splits)
  with assms handle_local_echo [of e "\<lparr>lc_path = p, lc_kind = ?k\<rparr>"] show ?thesis
    by (simp add: handle_def echo_event_def)
qed

lemma echoes_swallowed:
  "\<forall>p t. target_count pts p t \<le> pending_count (eng_echo e) p t \<Longrightarrow>
   \<exists>e'. handle_all e (map echo_event pts) = Some (e', []) \<and> eng_index e' = eng_index e \<and>
     eng_replica e' = eng_replica e \<and>
     (\<forall>p t. pending_count (eng_echo e) p t = pending_count (eng_echo e') p t + target_count pts p t)"
proof (induction pts arbitrary: e)
  case Nil
  then show ?case by (simp add: target_count_def)
next
  case (Cons pt pts)
  obtain p t where pt: "pt = (p, t)" by (cases pt)
  have cons: "target_count (pt # pts) q u = (if q = p \<and> exp_eq t u then 1 else 0) + target_count pts q u" for q u
    by (simp add: target_count_def pt)
  have "0 < pending_count (eng_echo e) p t"
    using Cons.prems cons [of p t] by (metis add_gr_0 exp_eq_refl le_zero_eq less_one neq0_conv)
  then have exp: "echo_contains (eng_echo e) p t" by (simp add: echo_contains_pending)
  let ?e = "e\<lparr>eng_echo := snd (echo_retire (eng_echo e) p t)\<rparr>"
  have h: "handle e (echo_event pt) = Some (?e, [])"
    using handle_echo [of e p t] exp by (simp add: is_expected_echo_def pt)
  have left: "pending_count (eng_echo ?e) q u + (if q = p \<and> exp_eq t u then 1 else 0) =
      pending_count (eng_echo e) q u" for q u
    using echo_retire_count [OF exp, of q u] by simp
  have "target_count pts q u \<le> pending_count (eng_echo ?e) q u" for q u
    using Cons.prems [rule_format, of q u] cons [of q u] left [of q u] by simp
  then obtain e' where e': "handle_all ?e (map echo_event pts) = Some (e', [])" "eng_index e' = eng_index ?e"
    "eng_replica e' = eng_replica ?e"
    "\<And>q u. pending_count (eng_echo ?e) q u = pending_count (eng_echo e') q u + target_count pts q u"
    using Cons.IH [of ?e] by blast
  have "pending_count (eng_echo e) q u = pending_count (eng_echo e') q u + target_count (pt # pts) q u" for q u
    using left [of q u] cons [of q u] e'(4) [of q u] by linarith
  moreover have "handle_all e (map echo_event (pt # pts)) = Some (e', [])"
    using h e'(1) by simp
  ultimately show ?case using e'(2,3) by (intro exI [of _ e']) simp
qed

text \<open>C9: Echo suppression: after any event from the peer, feeding back the watcher echo of
  every \<open>Apply\<close> it emitted, in any order, produces no actions at all, leaves the index as
  it was, and returns the journal to the same outstanding expectations as before the
  event. The engine never re-ships its own writes.\<close>

theorem echoes_are_swallowed:
  assumes "engine_wf e" "event_ok e ev" "from_peer ev" "handle e ev = Some (e', as)"
    and "mset pts = mset (applies as)"
  shows "\<exists>e''. handle_all e' (map echo_event pts) = Some (e'', []) \<and> eng_index e'' = eng_index e' \<and>
    (\<forall>p t. pending_count (eng_echo e'') p t = pending_count (eng_echo e) p t)"
proof -
  have "pending_count (eng_echo e') p t = pending_count (eng_echo e) p t + target_count pts p t" for p t
    using peer_step_handle [OF assms(1-4)] target_count_mset [OF assms(5)]
    by (simp add: peer_step_def journal_follows_def apply_count_target)
  then show ?thesis using echoes_swallowed [of pts e'] by auto
qed

theorem echoes_are_swallowed_witness:
  "\<exists>e''. handle_all \<lparr>eng_replica = ReplicaId 1, eng_index = demo_index 2,
       eng_echo = echo_add echo_new demo_path (ExpPresent (demo_sig 2 2))\<rparr>
     [echo_event (demo_path, ExpPresent (demo_sig 2 2))] = Some (e'', []) \<and> eng_index e'' = demo_index 2"
proof -
  have "event_ok (engine_new (ReplicaId 1) index_new) (Remote (demo_remote 2))"
    by (simp add: demo_remote_def)
  then show ?thesis
    using echoes_are_swallowed [OF engine_wf_fresh _ _ demo_remote_fresh,
        of "ReplicaId 1" 2 "[(demo_path, ExpPresent (demo_sig 2 2))]"]
    by (auto simp: from_peer_def)
qed

text \<open>C10: A genuine local edit supersedes the path: an observation that is neither a
  journaled echo nor the winner's state is committed as the single head of the path, with
  a version strictly above every head the replica held; that version and state are sent
  to the peer and recorded, once each, and nothing else happens.\<close>

theorem local_edit_supersedes:
  assumes "engine_wf e" "event_ok e (Local c)"
    and "\<not> is_expected_echo e (lc_path c) (observed (lc_kind c))"
    and "\<not> state_eq (disk_state e (lc_path c)) (state_from_kind (lc_kind c))"
  shows "\<exists>v. handle e (Local c) =
      Some (e\<lparr>eng_index := index_put (eng_index e) (lc_path c) (entry_single v (state_from_kind (lc_kind c)))\<rparr>,
        [Send \<lparr>rc_path = lc_path c, rc_kind = lc_kind c, rc_version = v\<rparr>,
         RecordVersion (lc_path c) (state_from_kind (lc_kind c)) v]) \<and>
    (\<forall>u \<in> path_versions (eng_index e) (lc_path c). vc_compare u v = Before)"
proof (rule exI, rule conjI)
  let ?base = "base_clock e (lc_path c)"
  let ?v = "vc_tick ?base (eng_replica e)"
  show "handle e (Local c) =
      Some (e\<lparr>eng_index := index_put (eng_index e) (lc_path c) (entry_single ?v (state_from_kind (lc_kind c)))\<rparr>,
        [Send \<lparr>rc_path = lc_path c, rc_kind = lc_kind c, rc_version = ?v\<rparr>,
         RecordVersion (lc_path c) (state_from_kind (lc_kind c)) ?v])"
    using assms(4) by (simp add: handle_def handle_local_edit [OF assms(1,3)] local_commit_def Let_def)
  have room: "vc_get ?base (eng_replica e) \<noteq> - 1" using assms(2) by simp
  show "\<forall>u \<in> path_versions (eng_index e) (lc_path c). vc_compare u ?v = Before"
  proof
    fix u assume "u \<in> path_versions (eng_index e) (lc_path c)"
    then have "vc_le u ?base"
      by (auto simp: path_versions_def base_clock_def merged_clock_upper split: option.splits)
    then show "vc_compare u ?v = Before"
      using vc_le_trans vc_le_tick [OF room] vc_not_tick_le [OF room] by (auto simp: vc_compare_cases)
  qed
qed

theorem local_edit_supersedes_witness:
  "\<exists>v. handle (engine_new (ReplicaId 1) (demo_index 2)) (Local \<lparr>lc_path = demo_path, lc_kind = Removed\<rparr>) =
      Some (engine_new (ReplicaId 1) (index_put (demo_index 2) demo_path (entry_single v Tombstone)),
        [Send \<lparr>rc_path = demo_path, rc_kind = Removed, rc_version = v\<rparr>, RecordVersion demo_path Tombstone v]) \<and>
    (\<forall>u \<in> path_versions (demo_index 2) demo_path. vc_compare u v = Before)"
proof -
  let ?e = "engine_new (ReplicaId 1) (demo_index 2)" and ?c = "\<lparr>lc_path = demo_path, lc_kind = Removed\<rparr>"
  have get: "index_get (demo_index 2) demo_path = Some (entry_single (demo_clock 2) (Present (demo_sig 2 2)))"
    by (simp add: demo_index_def index_get_put)
  have "event_ok ?e (Local ?c)"
    by (simp add: base_clock_def get merged_clock_def entry_single_def vc_get_merge vc_get_demo)
  moreover have "\<not> is_expected_echo ?e demo_path (observed Removed)"
    by (simp add: is_expected_echo_def echo_contains_pending pending_count_def engine_new_def)
  moreover have "\<not> state_eq (disk_state ?e demo_path) (state_from_kind Removed)"
    by (simp add: disk_state_def get winner_def entry_single_def state_from_kind_def)
  ultimately show ?thesis
    using local_edit_supersedes [OF engine_wf_new [OF demo_index_wf], of "ReplicaId 1" 2 ?c]
    by (simp add: state_from_kind_def engine_new_def)
qed

section \<open>Conflicts\<close>

lemma entry_wf_heads_single:
  assumes "entry_wf entry" "heads entry = [h]" "\<not> vc_le v (hd_version h)" "\<not> vc_le (hd_version h) v" "vc_ok v"
  shows "set (heads (absorbed entry v s)) = {h, \<lparr>hd_version = v, hd_state = s\<rparr>}"
    and "length (heads (absorbed entry v s)) = 2" and "entry_wf (absorbed entry v s)"
proof -
  have new: "\<not> knows entry v" using assms(2,3) by (simp add: knows_def)
  then show "set (heads (absorbed entry v s)) = {h, \<lparr>hd_version = v, hd_state = s\<rparr>}"
    using assms(2,4) by (auto simp: absorbed_heads_set)
  show "length (heads (absorbed entry v s)) = 2"
    using assms(2-4) by (simp add: length_absorbed_heads vc_compare_cases)
  obtain w where w: "winner entry = Some w" using entry_winner assms(1) by blast
  obtain w' where w': "winner (absorbed entry v s) = Some w'" using winner_absorbed by blast
  show "entry_wf (absorbed entry v s)"
    by (rule entry_wf_absorbed(1) [OF assms(1,5) w w' new])
qed

lemma heads_conflict_two:
  assumes "set (heads entry) = {a, b}" "\<not> same_content (hd_state a) (hd_state b)"
    and sym: "\<not> same_content (hd_state b) (hd_state a)"
  shows "heads_conflict entry"
proof -
  obtain x xs where h: "heads entry = x # xs" using assms(1) by (cases "heads entry") auto
  then have "x \<in> {a, b}" using assms(1) by auto
  moreover have "a \<in> set (heads entry)" "b \<in> set (heads entry)" using assms(1) by auto
  ultimately show ?thesis
    using assms(2) sym unfolding heads_conflict_def h list_ex_iff by auto
qed

text \<open>One replica's view of a two-way conflict: it holds \<open>h\<close> and receives \<open>g\<close>.\<close>

lemma conflict_at_one_replica:
  assumes wf: "engine_wf e" and get: "index_get (eng_index e) p = Some entry" and hs: "heads entry = [h]"
    and ok: "vc_ok (hd_version g)" and conc: "vc_compare (hd_version h) (hd_version g) = Concurrent"
    and diff: "\<not> same_content (hd_state h) (hd_state g)" "\<not> same_content (hd_state g) (hd_state h)"
  obtains e' as entry' w where "handle e (Remote (head_change p g)) = Some (e', as)"
    "index_get (eng_index e') p = Some entry'" "entry_wf entry'" "set (heads entry') = {h, g}" "winner entry' = Some w"
    "set (conflict_actions p entry' w) \<subseteq> set as"
proof -
  have entry: "entry_wf entry" by (rule engine_wf_entry [OF wf get])
  let ?e' = "absorbed entry (hd_version g) (hd_state g)"
  have le: "\<not> vc_le (hd_version g) (hd_version h)" "\<not> vc_le (hd_version h) (hd_version g)"
    using conc by (auto simp: vc_compare_cases split: if_splits)
  have g: "\<lparr>hd_version = hd_version g, hd_state = hd_state g\<rparr> = g" by simp
  note two = entry_wf_heads_single [OF entry hs le ok, of "hd_state g", unfolded g]
  have new: "\<not> knows entry (hd_version g)" using hs le by (simp add: knows_def)
  obtain w where w: "winner entry = Some w" using entry_winner entry by blast
  obtain w' where w': "winner ?e' = Some w'" using winner_absorbed by blast
  let ?out = "absorb_effect entry ?e' (hd_state g) w w'"
  have "heads_conflict ?e'"
    by (rule heads_conflict_two [OF two(1) diff])
  then have "new_conflict ?out" using hs two(2) by (simp add: absorb_effect_def)
  moreover have "handle e (Remote (head_change p g)) =
      Some (absorbed_engine e p ?e' (winner_changed ?out) w', absorbed_actions p ?e' w' ?out (hd_state g) (hd_version g))"
    using get w' by (simp add: handle_def handle_remote_def head_change_def absorb_remote_def absorb_new [OF w w' new]
        absorb_effect_def emit_apply_def absorbed_engine_def absorbed_actions_def Let_def)
  ultimately show ?thesis
    using w' two by (intro that) (auto simp: index_get_put absorbed_actions_def)
qed

text \<open>C7: Conflicts are resolved locally and identically (invariant 5): when two replicas
  hold concurrent edits of a path with different content and each receives the other's,
  both keep both versions as heads, agree on the winner, and both emit the same
  \<open>ConflictResolved\<close> action, which carries the losing version.\<close>

theorem conflict_resolved_identically:
  assumes "engine_wf a" "index_get (eng_index a) p = Some (entry_single (hd_version g) (hd_state g))"
    and "engine_wf b" "index_get (eng_index b) p = Some (entry_single (hd_version h) (hd_state h))"
    and "vc_compare (hd_version g) (hd_version h) = Concurrent"
    and "\<not> same_content (hd_state g) (hd_state h)"
  shows "\<exists>a' b' as bs entry w l m.
    handle a (Remote (head_change p h)) = Some (a', as) \<and> index_get (eng_index a') p = Some entry \<and>
    handle b (Remote (head_change p g)) = Some (b', bs) \<and> index_get (eng_index b') p = Some entry \<and>
    set (heads entry) = {g, h} \<and> winner entry = Some w \<and> {w, l} = {g, h} \<and> w \<noteq> l \<and>
    ConflictResolved p (hd_state w) (hd_version w) (hd_state l) (hd_version l) m \<in> set as \<inter> set bs"
proof -
  let ?g = "entry_single (hd_version g) (hd_state g)" and ?h = "entry_single (hd_version h) (hd_state h)"
  have heads: "heads ?g = [g]" "heads ?h = [h]" by (simp_all add: entry_single_def)
  have ok: "vc_ok (hd_version g)" "vc_ok (hd_version h)"
    using entry_wf_ok [OF engine_wf_entry [OF assms(1,2)], of g]
      entry_wf_ok [OF engine_wf_entry [OF assms(3,4)], of h] heads by simp_all
  have conc: "vc_compare (hd_version h) (hd_version g) = Concurrent"
    using assms(5) by (auto simp: vc_compare_cases split: if_splits)
  have diff: "\<not> same_content (hd_state h) (hd_state g)"
    using assms(6) same_content_sym by blast
  obtain a' as ea wa where a: "handle a (Remote (head_change p h)) = Some (a', as)"
    "index_get (eng_index a') p = Some ea" "entry_wf ea" "set (heads ea) = {g, h}" "winner ea = Some wa"
    "set (conflict_actions p ea wa) \<subseteq> set as"
    by (rule conflict_at_one_replica [OF assms(1,2) heads(1) ok(2) assms(5,6) diff])
  obtain b' bs eb wb where b: "handle b (Remote (head_change p g)) = Some (b', bs)"
    "index_get (eng_index b') p = Some eb" "entry_wf eb" "set (heads eb) = {h, g}" "winner eb = Some wb"
    "set (conflict_actions p eb wb) \<subseteq> set bs"
    by (rule conflict_at_one_replica [OF assms(3,4) heads(2) ok(1) conc diff assms(6)])
  have same: "eb = ea" using a b by (intro entry_wf_unique) auto
  with a b have "wb = wa" by simp
  have "wa \<in> {g, h}" using winner_mem [OF a(5)] a(4) by simp
  have ne: "\<not> head_eq g h" "\<not> head_eq h g"
    using assms(5) conc by (auto simp: head_eq_def vc_compare_cases)
  define l where "l = (if wa = g then h else g)"
  have l: "{wa, l} = {g, h}" "wa \<noteq> l" "\<not> head_eq l wa"
    using \<open>wa \<in> {g, h}\<close> ne assms(5) by (auto simp: l_def vc_compare_cases)
  have "l \<in> set (heads ea)" using l(1) a(4) by auto
  with l(3) have "ConflictResolved p (hd_state wa) (hd_version wa) (hd_state l) (hd_version l) (adoption_mode ea)
      \<in> set (conflict_actions p ea wa)"
    by (auto simp: conflict_actions_def)
  with a b same \<open>wb = wa\<close> have "ConflictResolved p (hd_state wa) (hd_version wa) (hd_state l) (hd_version l)
      (adoption_mode ea) \<in> set as \<inter> set bs" by auto
  with a b same l show ?thesis by blast
qed

theorem conflict_resolved_identically_witness:
  "\<exists>a' b' as bs entry.
     handle (engine_new (ReplicaId 1) (demo_index 2)) (Remote (demo_remote 3)) = Some (a', as) \<and>
     index_get (eng_index a') demo_path = Some entry \<and>
     handle (engine_new (ReplicaId 4) (demo_index 3)) (Remote (demo_remote 2)) = Some (b', bs) \<and>
     index_get (eng_index b') demo_path = Some entry"
proof -
  let ?h = "\<lambda>r. \<lparr>hd_version = demo_clock r, hd_state = Present (demo_sig (of_nat (unat r)) r)\<rparr>"
  have get: "index_get (demo_index r) demo_path = Some (entry_single (hd_version (?h r)) (hd_state (?h r)))" for r
    by (simp add: demo_index_def index_get_put)
  have change: "demo_remote r = head_change demo_path (?h r)" for r
    by (simp add: demo_remote_def head_change_def kind_from_state_def)
  have conc: "vc_compare (hd_version (?h 2)) (hd_version (?h 3)) = Concurrent"
    by (simp add: vc_compare_demo)
  have diff: "\<not> same_content (hd_state (?h 2)) (hd_state (?h 3))"
    by (simp add: demo_sig_def content_hash_eq_iff)
  show ?thesis
    unfolding change
    using conflict_resolved_identically [of "engine_new (ReplicaId 1) (demo_index 2)" demo_path "?h 2"
        "engine_new (ReplicaId 4) (demo_index 3)" "?h 3", unfolded eng_index_new,
        OF engine_wf_new [OF demo_index_wf] get engine_wf_new [OF demo_index_wf] get conc diff]
    by (elim exE conjE) (intro exI conjI)
qed

section \<open>Expectations that are never echoed\<close>

text \<open>C11: A journaled expectation swallows the next matching observation, whatever caused
  it: if an \<open>Apply\<close> was superseded before the watcher reported it (the debouncer merges
  the two writes), a later genuine edit back to the superseded content is taken for its
  echo. Nothing is sent or recorded, the index keeps the old winner, and the tree no
  longer matches the index.\<close>

theorem stale_expectation_swallows_edit:
  assumes "is_expected_echo e p (observed k)" "\<not> state_eq (disk_state e p) (state_from_kind k)"
    and "d p = observed k"
  shows "\<exists>e'. handle e (Local \<lparr>lc_path = p, lc_kind = k\<rparr>) = Some (e', []) \<and>
    eng_index e' = eng_index e \<and> \<not> tree_matches e' d"
proof -
  let ?e = "e\<lparr>eng_echo := snd (echo_retire (eng_echo e) p (observed k))\<rparr>"
  have "handle e (Local \<lparr>lc_path = p, lc_kind = k\<rparr>) = Some (?e, [])"
    using handle_local_echo [of e "\<lparr>lc_path = p, lc_kind = k\<rparr>"] assms(1) by (simp add: handle_def)
  moreover have "disk_state ?e p = disk_state e p" by (rule disk_state_cong) simp
  with assms(2,3) have "\<not> exp_eq (d p) (expectation_from_state (disk_state ?e p))"
    by (metis exp_eq_of_state exp_eq_sym observed_def)
  then have "\<not> tree_matches ?e d" by (auto simp: tree_matches_def)
  ultimately show ?thesis by simp
qed

text \<open>The run that reaches it: two remote edits are applied, the watcher reports only the
  second, and the user then restores the first content.\<close>

definition stale_first :: remote_change where
  "stale_first = \<lparr>rc_path = demo_path, rc_kind = Modified (demo_sig 1 1), rc_version = demo_clock 2\<rparr>"

definition stale_second :: remote_change where
  "stale_second = \<lparr>rc_path = demo_path, rc_kind = Modified (demo_sig 9 2),
     rc_version = vc_tick (demo_clock 2) (ReplicaId 2)\<rparr>"

lemma stale_first_handled:
  "handle (engine_new r index_new) (Remote stale_first) =
     Some (\<lparr>eng_replica = r,
            eng_index = index_put index_new demo_path (entry_single (demo_clock 2) (Present (demo_sig 1 1))),
            eng_echo = echo_add echo_new demo_path (ExpPresent (demo_sig 1 1))\<rparr>,
       [Apply demo_path (ExpPresent (demo_sig 1 1)),
        RecordVersion demo_path (Present (demo_sig 1 1)) (demo_clock 2)])"
  by (simp add: handle_def handle_remote_def absorb_remote_def remote_unseen_def emit_apply_def
      stale_first_def state_from_kind_def engine_new_def)

lemma winner_single [simp]: "winner (entry_single v s) = Some \<lparr>hd_version = v, hd_state = s\<rparr>"
  by (simp add: winner_def entry_single_def)

lemma stale_absorb:
  "absorb (entry_single (demo_clock 2) (Present (demo_sig 1 1))) (vc_tick (demo_clock 2) (ReplicaId 2))
     (Present (demo_sig 9 2)) =
   Some (entry_single (vc_tick (demo_clock 2) (ReplicaId 2)) (Present (demo_sig 9 2)), Absorbed True False True)"
proof -
  let ?v = "vc_tick (demo_clock 2) (ReplicaId 2)"
  have room: "vc_get (demo_clock 2) (ReplicaId 2) \<noteq> - 1" by (simp add: vc_get_demo)
  have "vc_compare (demo_clock 2) ?v = Before"
    using vc_le_tick [OF room] vc_not_tick_le [OF room] by (simp add: vc_compare_cases)
  then show ?thesis
    by (simp add: absorb_def entry_single_def winner_def demo_sig_def sig_eq_def content_hash_eq_iff)
qed

definition stale_journal :: echo_journal where
  "stale_journal = echo_add (echo_add echo_new demo_path (ExpPresent (demo_sig 1 1))) demo_path
     (ExpPresent (demo_sig 9 2))"

lemma stale_second_handled:
  "\<exists>e as. handle_all (engine_new r index_new) [Remote stale_first, Remote stale_second] = Some (e, as) \<and>
     eng_index e = index_put index_new demo_path
       (entry_single (vc_tick (demo_clock 2) (ReplicaId 2)) (Present (demo_sig 9 2))) \<and>
     eng_echo e = stale_journal"
  by (simp add: stale_first_handled)
    (simp add: handle_def handle_remote_def absorb_remote_def stale_second_def state_from_kind_def
      stale_absorb index_get_put emit_apply_def stale_journal_def expectation_from_state_def,
     simp add: index_upsert_def index_new_def bm.insert_insert)

theorem stale_expectation_swallows_edit_witness:
  "\<exists>e as e'. handle_all (engine_new (ReplicaId 1) index_new) [Remote stale_first, Remote stale_second,
       Local \<lparr>lc_path = demo_path, lc_kind = Modified (demo_sig 9 2)\<rparr>] = Some (e, as) \<and>
     handle e (Local \<lparr>lc_path = demo_path, lc_kind = Modified (demo_sig 1 1)\<rparr>) = Some (e', []) \<and>
     disk_state e' demo_path = Present (demo_sig 9 2) \<and>
     \<not> tree_matches e' (\<lambda>_. ExpPresent (demo_sig 1 1))"
proof -
  let ?s = "demo_sig 1 1" and ?t = "demo_sig 9 2"
  obtain e as where e: "handle_all (engine_new (ReplicaId 1) index_new) [Remote stale_first, Remote stale_second] = Some (e, as)"
    and index: "eng_index e = index_put index_new demo_path
       (entry_single (vc_tick (demo_clock 2) (ReplicaId 2)) (Present ?t))"
    and echo: "eng_echo e = stale_journal"
    using stale_second_handled by blast
  have pending: "pending stale_journal demo_path = [ExpPresent ?s, ExpPresent ?t]"
    by (simp add: stale_journal_def pending_add)
  have obs: "observed (Modified x) = ExpPresent x" for x
    by (simp add: observed_def state_from_kind_def expectation_from_state_def)
  have contains: "echo_contains stale_journal demo_path (ExpPresent ?t)"
    by (simp add: echo_contains_pending pending_count_def pending)
  let ?e2 = "e\<lparr>eng_echo := snd (echo_retire stale_journal demo_path (ExpPresent ?t))\<rparr>"
  have second: "handle e (Local \<lparr>lc_path = demo_path, lc_kind = Modified ?t\<rparr>) = Some (?e2, [])"
    using handle_local_echo [of e "\<lparr>lc_path = demo_path, lc_kind = Modified ?t\<rparr>"] contains
    by (simp add: handle_def is_expected_echo_def obs echo)
  have differ: "\<not> exp_eq (ExpPresent ?t) (ExpPresent ?s)"
    by (simp add: sig_eq_def demo_sig_def content_hash_eq_iff)
  have "pending_count (eng_echo ?e2) demo_path (ExpPresent ?s) = 1"
    using echo_retire_count [OF contains, of demo_path "ExpPresent ?s"] differ
    by (simp add: pending_count_def [of stale_journal] pending)
  then have expected: "is_expected_echo ?e2 demo_path (observed (Modified ?s))"
    by (simp add: is_expected_echo_def echo_contains_pending obs)
  have disk: "disk_state x demo_path = Present ?t" if "eng_index x = eng_index e" for x
    using that index by (simp add: disk_state_def index_get_put)
  obtain e' where e': "handle ?e2 (Local \<lparr>lc_path = demo_path, lc_kind = Modified ?s\<rparr>) = Some (e', [])"
    "eng_index e' = eng_index ?e2" "\<not> tree_matches e' (\<lambda>_. ExpPresent ?s)"
    using stale_expectation_swallows_edit [OF expected, of "\<lambda>_. ExpPresent ?s"] disk [of ?e2] differ
    by (auto simp: obs state_from_kind_def)
  have "handle_all (engine_new (ReplicaId 1) index_new) [Remote stale_first, Remote stale_second,
       Local \<lparr>lc_path = demo_path, lc_kind = Modified ?t\<rparr>] = Some (?e2, as)"
    using e second by (auto simp: bind_eq_Some_conv)
  with e' disk [of e'] show ?thesis by (intro exI conjI) auto
qed

end
