(* ===== verification/Tomo_Replicas.thy ===== *)
theory Tomo_Replicas
  imports Tomo_Echo
begin

text \<open>
  Two engines and the link between them, as a step relation: local edits whose \<open>Send\<close>
  actions enter the channel, delivery of any packet in flight (the order is not assumed),
  and a reconnect that drops everything in flight and makes both sides ship their index.
  The engines are those of \<^verbatim>\<open>crates/tomo-engine/src/engine.rs\<close>, driven through \<open>handle\<close>
  only. The invariant says that whatever one replica holds the other knows or is about to
  receive; a quiescent network therefore has equal indices, and draining reaches one.
\<close>

section \<open>The network\<close>

datatype side = SideA | SideB

fun other :: "side \<Rightarrow> side" where
  "other SideA = SideB"
| "other SideB = SideA"

datatype packet = PktChange remote_change | PktIndex index

fun packet_event :: "packet \<Rightarrow> event" where
  "packet_event (PktChange c) = Remote c"
| "packet_event (PktIndex i) = PeerIndex i"

text \<open>The engine of each side, and the packets in flight towards it.\<close>

record net =
  engine_at :: "side \<Rightarrow> engine"
  inbound :: "side \<Rightarrow> packet list"

definition ship :: "net \<Rightarrow> side \<Rightarrow> engine \<Rightarrow> action list \<Rightarrow> net" where
  "ship n x e as = n\<lparr>engine_at := (engine_at n)(x := e),
     inbound := (inbound n)(other x := inbound n (other x) @ map PktChange (sends as))\<rparr>"

inductive deliver_step :: "net \<Rightarrow> net \<Rightarrow> bool" where
  deliver: "inbound n x = ps @ pk # qs \<Longrightarrow> handle (engine_at n x) (packet_event pk) = Some (e, as) \<Longrightarrow>
    deliver_step n (ship (n\<lparr>inbound := (inbound n)(x := ps @ qs)\<rparr>) x e as)"

inductive net_step :: "net \<Rightarrow> net \<Rightarrow> bool" where
  edit: "event_ok (engine_at n x) (Local c) \<Longrightarrow> handle (engine_at n x) (Local c) = Some (e, as) \<Longrightarrow>
    net_step n (ship n x e as)"
| delivery: "deliver_step n n' \<Longrightarrow> net_step n n'"
| reconnect: "net_step n (n\<lparr>inbound := (\<lambda>x. [PktIndex (eng_index (engine_at n (other x)))])\<rparr>)"

inductive_cases deliver_stepE: "deliver_step n n'"
inductive_cases net_stepE: "net_step n n'"

definition quiescent :: "net \<Rightarrow> bool" where
  "quiescent n \<longleftrightarrow> inbound n SideA = [] \<and> inbound n SideB = []"

definition net_start :: "replica_id \<Rightarrow> replica_id \<Rightarrow> net" where
  "net_start a b = \<lparr>engine_at = (\<lambda>x. engine_new (case x of SideA \<Rightarrow> a | SideB \<Rightarrow> b) index_new),
     inbound = (\<lambda>x. [])\<rparr>"

lemma other_other [simp]: "other (other x) = x"
  by (cases x) simp_all

lemma other_neq [simp]: "other x \<noteq> x" "x \<noteq> other x"
  by (cases x; simp)+

lemma side_cases: "y = x \<or> y = other x"
  by (cases x; cases y) simp_all

lemma engine_at_ship [simp]: "engine_at (ship n x e as) y = (if y = x then e else engine_at n y)"
  by (simp add: ship_def)

lemma inbound_ship [simp]:
  "inbound (ship n x e as) y = (if y = other x then inbound n y @ map PktChange (sends as) else inbound n y)"
  by (simp add: ship_def)

section \<open>The invariant\<close>

fun packet_heads :: "packet \<Rightarrow> relpath \<Rightarrow> head set" where
  "packet_heads (PktChange c) p =
     (if rc_path c = p then {\<lparr>hd_version = rc_version c, hd_state = state_from_kind (rc_kind c)\<rparr>} else {})"
| "packet_heads (PktIndex i) p = set (index_heads i p)"

definition flight_heads :: "net \<Rightarrow> side \<Rightarrow> relpath \<Rightarrow> head set" where
  "flight_heads n x p = (\<Union>pk \<in> set (inbound n x). packet_heads pk p)"

definition held_heads :: "net \<Rightarrow> side \<Rightarrow> relpath \<Rightarrow> head set" where
  "held_heads n x p = set (index_heads (eng_index (engine_at n x)) p)"

definition net_heads :: "net \<Rightarrow> relpath \<Rightarrow> head set" where
  "net_heads n p = (\<Union>x. held_heads n x p \<union> flight_heads n x p)"

definition knows_at :: "engine \<Rightarrow> relpath \<Rightarrow> vector_clock \<Rightarrow> bool" where
  "knows_at e p v \<longleftrightarrow> (\<exists>u \<in> path_versions (eng_index e) p. vc_le v u)"

fun packet_ok :: "packet \<Rightarrow> bool" where
  "packet_ok (PktChange c) \<longleftrightarrow> vc_ok (rc_version c)"
| "packet_ok (PktIndex i) \<longleftrightarrow> index_wf i"

definition own_bound :: "engine \<Rightarrow> relpath \<Rightarrow> head set \<Rightarrow> bool" where
  "own_bound e p H \<longleftrightarrow>
     (\<forall>h \<in> H. vc_get (hd_version h) (eng_replica e) \<le> vc_get (base_clock e p) (eng_replica e))"

definition functional :: "head set \<Rightarrow> bool" where
  "functional H \<longleftrightarrow> (\<forall>g \<in> H. \<forall>h \<in> H. hd_version g = hd_version h \<longrightarrow> g = h)"

definition net_inv :: "net \<Rightarrow> bool" where
  "net_inv n \<longleftrightarrow>
     eng_replica (engine_at n SideA) \<noteq> eng_replica (engine_at n SideB) \<and>
     (\<forall>x. engine_wf (engine_at n x) \<and> (\<forall>pk \<in> set (inbound n x). packet_ok pk)) \<and>
     (\<forall>x p. \<forall>h \<in> flight_heads n x p. knows_at (engine_at n (other x)) p (hd_version h)) \<and>
     (\<forall>x p. \<forall>h \<in> held_heads n x p. knows_at (engine_at n (other x)) p (hd_version h) \<or>
        (\<exists>g \<in> flight_heads n (other x) p. vc_le (hd_version h) (hd_version g))) \<and>
     (\<forall>x p. own_bound (engine_at n x) p (net_heads n p)) \<and>
     (\<forall>p. functional (net_heads n p))"

lemma versions_held: "path_versions (eng_index (engine_at n x)) p = hd_version ` held_heads n x p"
  by (simp add: held_heads_def path_versions_heads)

lemma held_in_net: "held_heads n x p \<subseteq> net_heads n p" and flight_in_net: "flight_heads n x p \<subseteq> net_heads n p"
  by (auto simp: net_heads_def)

lemma merge_fold_get_le:
  "vc_get c r \<le> k \<Longrightarrow> \<forall>h \<in> set hs. vc_get (hd_version h) r \<le> k \<Longrightarrow>
   vc_get (foldl (\<lambda>c h. vc_merge c (hd_version h)) c hs) r \<le> k"
  by (induction hs arbitrary: c) (simp_all add: vc_get_merge)

lemma base_clock_get_le:
  "(\<And>u. u \<in> path_versions (eng_index e) p \<Longrightarrow> vc_get u r \<le> k) \<Longrightarrow> vc_get (base_clock e p) r \<le> k"
  by (auto simp: base_clock_def path_versions_def versions_def merged_clock_def
      split: option.splits intro!: merge_fold_get_le)

lemma base_clock_upper: "u \<in> path_versions (eng_index e) p \<Longrightarrow> vc_le u (base_clock e p)"
  by (auto simp: base_clock_def path_versions_def merged_clock_upper split: option.splits)

lemma base_clock_lub:
  "(\<And>u. u \<in> path_versions (eng_index e) p \<Longrightarrow> vc_le u z) \<Longrightarrow> vc_le (base_clock e p) z"
  unfolding vc_le_def by (intro allI base_clock_get_le) blast

text \<open>What a step does to one engine, seen from the invariant.\<close>

definition advances :: "engine \<Rightarrow> engine \<Rightarrow> bool" where
  "advances e e' \<longleftrightarrow> eng_replica e' = eng_replica e \<and> engine_wf e' \<and>
     (\<forall>p v. knows_at e p v \<longrightarrow> knows_at e' p v)"

lemma advances_base: "advances e e' \<Longrightarrow> vc_le (base_clock e p) (base_clock e' p)"
proof (rule base_clock_lub)
  fix u assume "advances e e'" "u \<in> path_versions (eng_index e) p"
  then have "knows_at e' p u" unfolding advances_def knows_at_def by blast
  then show "vc_le u (base_clock e' p)"
    unfolding knows_at_def using base_clock_upper vc_le_trans by blast
qed

lemma advances_own_bound: "advances e e' \<Longrightarrow> own_bound e p H \<Longrightarrow> own_bound e' p H"
  using advances_base [of e e' p] unfolding own_bound_def advances_def vc_le_def
  by (metis order_trans)

lemma own_bound_mono: "own_bound e p H \<Longrightarrow> G \<subseteq> H \<Longrightarrow> own_bound e p G"
  by (auto simp: own_bound_def)

lemma own_bound_Un: "own_bound e p (G \<union> H) \<longleftrightarrow> own_bound e p G \<and> own_bound e p H"
  by (auto simp: own_bound_def)

lemma functional_mono: "functional H \<Longrightarrow> G \<subseteq> H \<Longrightarrow> functional G"
  unfolding functional_def by blast

abbreviation engine_heads :: "engine \<Rightarrow> relpath \<Rightarrow> head set" where
  "engine_heads e p \<equiv> set (index_heads (eng_index e) p)"

lemma engine_heads_known: "h \<in> engine_heads e p \<Longrightarrow> knows_at e p (hd_version h)"
  by (auto simp: knows_at_def path_versions_heads)

lemma flight_heads_ship:
  "flight_heads (ship n x e as) y p =
     (if y = other x then flight_heads n y p \<union> (\<Union>c \<in> set (sends as). packet_heads (PktChange c) p)
      else flight_heads n y p)"
  by (auto simp: flight_heads_def)

text \<open>A step of one engine, in terms of the heads \<open>K\<close> it introduces.\<close>

definition introduces :: "engine \<Rightarrow> (relpath \<Rightarrow> head set) \<Rightarrow> engine \<Rightarrow> action list \<Rightarrow> bool" where
  "introduces e K e' as \<longleftrightarrow> advances e e' \<and>
     (\<forall>p. engine_heads e' p \<subseteq> engine_heads e p \<union> K p) \<and>
     (\<forall>p. \<forall>h \<in> K p. knows_at e' p (hd_version h)) \<and>
     (\<forall>c \<in> set (sends as). vc_ok (rc_version c) \<and> (\<forall>p. packet_heads (PktChange c) p \<subseteq> engine_heads e' p))"

lemma ship_inv:
  assumes inv: "net_inv n" and step: "introduces (engine_at n x) K e' as"
    and n0: "engine_at n0 = engine_at n" "\<And>y. set (inbound n0 y) \<subseteq> set (inbound n y)"
    and lost: "\<And>y p h. h \<in> flight_heads n y p \<Longrightarrow> h \<notin> flight_heads n0 y p \<Longrightarrow> y = x \<and> h \<in> K p"
    and told: "\<And>p h. h \<in> K p \<Longrightarrow> knows_at (engine_at n (other x)) p (hd_version h) \<or>
      (\<exists>c \<in> set (sends as). h \<in> packet_heads (PktChange c) p)"
    and bound: "\<And>y p. own_bound (engine_at (ship n0 x e' as) y) p (K p)"
    and fn: "\<And>p. functional (net_heads n p \<union> K p)"
  shows "net_inv (ship n0 x e' as)"
proof -
  let ?n = "ship n0 x e' as"
  have adv: "advances (engine_at n x) e'"
    and heads: "\<And>p. engine_heads e' p \<subseteq> engine_heads (engine_at n x) p \<union> K p"
    and known: "\<And>p h. h \<in> K p \<Longrightarrow> knows_at e' p (hd_version h)"
    and sent: "\<And>c. c \<in> set (sends as) \<Longrightarrow> vc_ok (rc_version c)"
      "\<And>c p. c \<in> set (sends as) \<Longrightarrow> packet_heads (PktChange c) p \<subseteq> engine_heads e' p"
    using step by (auto simp: introduces_def)
  have grows: "knows_at (engine_at n y) p v \<Longrightarrow> knows_at (engine_at ?n y) p v" for y p v
    using adv by (auto simp: n0(1) advances_def)
  have less_flight: "flight_heads n0 y p \<subseteq> flight_heads n y p" for y p
    using n0(2) [of y] by (auto simp: flight_heads_def)
  have held: "held_heads ?n y p = (if y = x then engine_heads e' p else held_heads n y p)" for y p
    by (simp add: held_heads_def n0(1))
  have all: "net_heads ?n p \<subseteq> net_heads n p \<union> K p" for p
  proof -
    have 1: "engine_heads e' p \<subseteq> net_heads n p \<union> K p"
      using heads [of p] held_in_net [of n x p] unfolding held_heads_def by blast
    have 2: "(\<Union>c \<in> set (sends as). packet_heads (PktChange c) p) \<subseteq> net_heads n p \<union> K p"
      using sent(2) 1 by blast
    have "held_heads ?n y p \<subseteq> net_heads n p \<union> K p" for y
      unfolding held using 1 held_in_net [of n y p] by (cases "y = x") auto
    moreover have "flight_heads ?n y p \<subseteq> net_heads n p \<union> K p" for y
      unfolding flight_heads_ship using 2 less_flight [of y p] flight_in_net [of n y p]
      by (cases "y = other x") auto
    ultimately show ?thesis unfolding net_heads_def [of ?n] by blast
  qed
  have i1: "eng_replica (engine_at ?n SideA) \<noteq> eng_replica (engine_at ?n SideB)"
    using inv adv by (auto simp: net_inv_def advances_def n0(1))
  have i2: "engine_wf (engine_at ?n y) \<and> (\<forall>pk \<in> set (inbound ?n y). packet_ok pk)" for y
    using inv adv sent(1) n0(2) [of y] by (auto simp: net_inv_def advances_def n0(1))
  have i3: "knows_at (engine_at ?n (other y)) p (hd_version h)" if "h \<in> flight_heads ?n y p" for y p h
  proof (cases "h \<in> flight_heads n0 y p")
    case True
    then have "h \<in> flight_heads n y p" using less_flight by blast
    with inv have "knows_at (engine_at n (other y)) p (hd_version h)" unfolding net_inv_def by blast
    then show ?thesis by (rule grows)
  next
    case False
    with that have "y = other x" "h \<in> (\<Union>c \<in> set (sends as). packet_heads (PktChange c) p)"
      unfolding flight_heads_ship by (auto simp del: packet_heads.simps split: if_splits)
    with sent(2) have "y = other x" "h \<in> engine_heads e' p" by blast+
    then show ?thesis by (simp add: engine_heads_known)
  qed
  have i4: "knows_at (engine_at ?n (other y)) p (hd_version h) \<or>
      (\<exists>g \<in> flight_heads ?n (other y) p. vc_le (hd_version h) (hd_version g))"
    if h: "h \<in> held_heads ?n y p" for y p h
  proof (cases "h \<in> held_heads n y p")
    case True
    with inv consider "knows_at (engine_at n (other y)) p (hd_version h)"
      | g where "g \<in> flight_heads n (other y) p" "vc_le (hd_version h) (hd_version g)"
      unfolding net_inv_def by blast
    then show ?thesis
    proof cases
      case 1
      then show ?thesis using grows by blast
    next
      case 2
      show ?thesis
      proof (cases "g \<in> flight_heads n0 (other y) p")
        case True
        with 2 show ?thesis by (auto simp: flight_heads_ship)
      next
        case False
        with lost [OF 2(1)] have "other y = x" "g \<in> K p" by blast+
        with known 2(2) show ?thesis unfolding knows_at_def by (metis engine_at_ship vc_le_trans)
      qed
    qed
  next
    case False
    with h have y: "y = x" unfolding held by (auto split: if_splits)
    with h heads [of p] False have "h \<in> K p" unfolding held by (auto simp: held_heads_def)
    from told [OF this] show ?thesis
      unfolding flight_heads_ship y by (auto simp: n0(1) simp del: packet_heads.simps)
  qed
  have i5: "own_bound (engine_at ?n y) p (net_heads ?n p)" for y p
  proof (rule own_bound_mono [OF _ all])
    have "own_bound (engine_at n y) p (net_heads n p)" using inv by (simp add: net_inv_def)
    then have "own_bound (engine_at ?n y) p (net_heads n p)"
      using advances_own_bound [OF adv] by (auto simp: n0(1))
    with bound show "own_bound (engine_at ?n y) p (net_heads n p \<union> K p)" by (simp add: own_bound_Un)
  qed
  have i6: "functional (net_heads ?n p)" for p
    by (rule functional_mono [OF fn all])
  show ?thesis unfolding net_inv_def using i1 i2 i3 i4 i5 i6 by blast
qed


section \<open>Every step keeps the invariant\<close>

lemma functional_org: "functional H \<Longrightarrow> \<exists>org. \<forall>h \<in> H. hd_state h = org (hd_version h)"
proof -
  assume fn: "functional H"
  have "\<exists>s. \<forall>h \<in> H. hd_version h = v \<longrightarrow> hd_state h = s" for v
  proof (cases "\<exists>h \<in> H. hd_version h = v")
    case True
    then obtain g where g: "g \<in> H" "hd_version g = v" by blast
    then have "\<forall>h \<in> H. hd_version h = v \<longrightarrow> h = g" using fn unfolding functional_def by blast
    then show ?thesis by blast
  next
    case False
    then show ?thesis by blast
  qed
  then obtain org where "\<forall>v. \<forall>h \<in> H. hd_version h = v \<longrightarrow> hd_state h = org v" by metis
  then show ?thesis by blast
qed

lemma index_coherent_heads:
  "index_coherent org i \<longleftrightarrow> (\<forall>p. \<forall>h \<in> set (index_heads i p). hd_state h = org p (hd_version h))"
proof -
  have "(\<forall>entry. index_get i p = Some entry \<longrightarrow> coherent (org p) entry) \<longleftrightarrow>
      (\<forall>h \<in> set (index_heads i p). hd_state h = org p (hd_version h))" for p
    by (cases "index_get i p") (simp_all add: index_heads_def coherent_def)
  then show ?thesis by (simp add: index_coherent_def)
qed

lemma head_change_packet: "packet_heads (PktChange (head_change p h)) q = (if q = p then {h} else {})"
  by (simp add: head_change_def)

lemma packet_versions_finite: "finite (hd_version ` packet_heads pk p)"
  by (cases pk) simp_all

lemma packet_ok_version: "packet_ok pk \<Longrightarrow> h \<in> packet_heads pk p \<Longrightarrow> vc_ok (hd_version h)"
  by (cases pk) (auto split: if_splits intro: index_heads_ok)

lemma handle_packet_effect:
  assumes "engine_wf e" "packet_ok pk"
  shows "\<exists>e' as. handle e (packet_event pk) = Some (e', as) \<and> engine_wf e' \<and> eng_replica e' = eng_replica e \<and>
    (\<forall>p. path_versions (eng_index e') p =
       clocks.maximal (path_versions (eng_index e) p \<union> hd_version ` packet_heads pk p)) \<and>
    (\<forall>c \<in> set (sends as). \<exists>p h. c = head_change p h \<and> h \<in> engine_heads e' p) \<and>
    (\<forall>org. index_coherent org (eng_index e) \<longrightarrow>
       (\<forall>p. \<forall>h \<in> packet_heads pk p. hd_state h = org p (hd_version h)) \<longrightarrow> index_coherent org (eng_index e'))"
proof (cases pk)
  case (PktChange c)
  have v: "versions_at p {c} = hd_version ` packet_heads pk p" for p
    by (auto simp: versions_at_def PktChange)
  have o: "(\<forall>p. \<forall>h \<in> packet_heads pk p. hd_state h = org p (hd_version h)) \<Longrightarrow> change_ok org c" for org
    using assms(2) by (auto simp: PktChange change_ok_def dest: spec [of _ "rc_path c"])
  obtain e' as where "handle e (Remote c) = Some (e', as)" "engine_wf e'" "eng_replica e' = eng_replica e"
    "sends as = []" and pv: "\<And>p. path_versions (eng_index e') p =
       clocks.maximal (path_versions (eng_index e) p \<union> versions_at p {c})"
    and co: "\<And>org. index_coherent org (eng_index e) \<Longrightarrow> change_ok org c \<Longrightarrow> index_coherent org (eng_index e')"
    using remote_effect [OF assms(1), of c] assms(2) by (auto simp: PktChange)
  then show ?thesis using o v by (simp add: PktChange del: packet_heads.simps)
next
  case (PktIndex i)
  then have i: "index_wf i" using assms(2) by simp
  obtain e' as where e': "handle_peer_index e i = Some (e', as)" "engine_wf e'" "eng_replica e' = eng_replica e"
    "\<forall>p. path_versions (eng_index e') p =
       clocks.maximal (path_versions (eng_index e) p \<union> path_versions i p)"
    "set (sends as) = (\<Union>p. uncovered (eng_index e') i p)"
    "\<forall>org. index_coherent org (eng_index e) \<longrightarrow> index_coherent org i \<longrightarrow> index_coherent org (eng_index e')"
    using handle_peer_index_effect [OF assms(1) i] by (elim exE conjE)
  have "\<exists>p h. c = head_change p h \<and> h \<in> engine_heads e' p" if "c \<in> set (sends as)" for c
    using that unfolding e'(5) uncovered_def by blast
  with e'(1-4,6) show ?thesis
    by (simp add: PktIndex handle_def path_versions_heads index_coherent_heads [of _ i])
qed

lemma handle_packet_introduces:
  assumes "engine_wf e" "packet_ok pk" and fn: "\<And>p. functional (engine_heads e p \<union> packet_heads pk p)"
    and h: "handle e (packet_event pk) = Some (e', as)"
  shows "introduces e (packet_heads pk) e' as"
proof -
  have wf': "engine_wf e'" and rep: "eng_replica e' = eng_replica e"
    and v: "\<And>p. path_versions (eng_index e') p =
       clocks.maximal (path_versions (eng_index e) p \<union> hd_version ` packet_heads pk p)"
    and s: "\<And>c. c \<in> set (sends as) \<Longrightarrow> \<exists>p h. c = head_change p h \<and> h \<in> engine_heads e' p"
    and co: "\<And>org. index_coherent org (eng_index e) \<Longrightarrow>
       (\<And>p h. h \<in> packet_heads pk p \<Longrightarrow> hd_state h = org p (hd_version h)) \<Longrightarrow> index_coherent org (eng_index e')"
    using handle_packet_effect [OF assms(1,2)] h by auto
  let ?all = "\<lambda>p. path_versions (eng_index e) p \<union> hd_version ` packet_heads pk p"
  have fin: "finite (?all p)" "\<forall>y \<in> ?all p. vc_ok y" for p
    using assms(1,2) packet_versions_finite [of pk p] path_versions_ok packet_ok_version
    by (auto simp: engine_wf_def)
  have above: "knows_at e' p u" if "u \<in> ?all p" for p u
    using clocks.maximal_above [OF fin that] by (simp add: knows_at_def v)
  have mono: "knows_at e' p u" if "knows_at e p u" for p u
    using that above unfolding knows_at_def by (meson UnI1 vc_le_trans)
  obtain org where org: "\<And>p h. h \<in> engine_heads e p \<union> packet_heads pk p \<Longrightarrow> hd_state h = org p (hd_version h)"
    using functional_org [OF fn] by metis
  have "index_coherent org (eng_index e')"
    by (rule co) (use org in \<open>auto simp: index_coherent_heads\<close>)
  then have org': "\<And>p h. h \<in> engine_heads e' p \<Longrightarrow> hd_state h = org p (hd_version h)"
    by (auto simp: index_coherent_heads)
  have "engine_heads e' p \<subseteq> engine_heads e p \<union> packet_heads pk p" for p
  proof
    fix g assume g: "g \<in> engine_heads e' p"
    then have "hd_version g \<in> path_versions (eng_index e') p" unfolding path_versions_heads by (rule imageI)
    then have "hd_version g \<in> clocks.maximal (?all p)" unfolding v .
    then have "hd_version g \<in> ?all p" using clocks.maximal_subset by blast
    then obtain k where k: "k \<in> engine_heads e p \<union> packet_heads pk p" "hd_version k = hd_version g"
      unfolding path_versions_heads image_Un [symmetric] by (elim imageE) simp
    with org [OF k(1)] org' [OF g] have "k = g" by simp
    with k(1) show "g \<in> engine_heads e p \<union> packet_heads pk p" by simp
  qed
  moreover have "vc_ok (rc_version c) \<and> (\<forall>p. packet_heads (PktChange c) p \<subseteq> engine_heads e' p)"
    if c: "c \<in> set (sends as)" for c
  proof -
    obtain q k where k: "c = head_change q k" "k \<in> engine_heads e' q" using s [OF c] by blast
    have "vc_ok (hd_version k)" using wf' k(2) by (auto simp: engine_wf_def intro: index_heads_ok)
    with k show ?thesis unfolding k(1) head_change_packet by (auto simp: head_change_def)
  qed
  moreover have "knows_at e' p (hd_version k)" if "k \<in> packet_heads pk p" for p k
    using that by (intro above) blast
  ultimately show ?thesis
    unfolding introduces_def advances_def using wf' rep mono by blast
qed

lemma net_inv_facts:
  assumes "net_inv n"
  shows net_inv_wf: "engine_wf (engine_at n x)"
    and net_inv_packet: "pk \<in> set (inbound n x) \<Longrightarrow> packet_ok pk"
    and net_inv_bound: "own_bound (engine_at n x) p (net_heads n p)"
    and net_inv_functional: "functional (net_heads n p)"
    and net_inv_sent: "h \<in> flight_heads n x p \<Longrightarrow> knows_at (engine_at n (other x)) p (hd_version h)"
    and net_inv_replica: "eng_replica (engine_at n (other x)) \<noteq> eng_replica (engine_at n x)"
  using assms unfolding net_inv_def by (blast, blast, blast, blast, blast, metis other.simps side.exhaust)

lemma deliver_inv [tomo_inv]:
  assumes inv: "net_inv n" and step: "deliver_step n n'"
  shows "net_inv n'"
  using step
proof (rule deliver_stepE)
  fix x ps pk qs e as
  assume n': "n' = ship (n\<lparr>inbound := (inbound n)(x := ps @ qs)\<rparr>) x e as"
    and q: "inbound n x = ps @ pk # qs" and h: "handle (engine_at n x) (packet_event pk) = Some (e, as)"
  let ?n0 = "n\<lparr>inbound := (inbound n)(x := ps @ qs)\<rparr>"
  have pk: "pk \<in> set (inbound n x)" using q by simp
  then have K: "packet_heads pk p \<subseteq> flight_heads n x p" for p by (auto simp: flight_heads_def)
  have sub: "engine_heads (engine_at n x) p \<union> packet_heads pk p \<subseteq> net_heads n p" for p
    using K [of p] held_in_net [of n x p] flight_in_net [of n x p] by (auto simp: held_heads_def)
  have step: "introduces (engine_at n x) (packet_heads pk) e as"
    by (rule handle_packet_introduces [OF net_inv_wf [OF inv] net_inv_packet [OF inv pk] _ h])
      (rule functional_mono [OF net_inv_functional [OF inv] sub])
  have adv: "advances (engine_at n x) e" using step by (simp add: introduces_def)
  show "net_inv n'"
    unfolding n'
  proof (rule ship_inv [OF inv step])
    show "set (inbound ?n0 y) \<subseteq> set (inbound n y)" for y using q by auto
    show "y = x \<and> k \<in> packet_heads pk p" if "k \<in> flight_heads n y p" "k \<notin> flight_heads ?n0 y p" for y p k
      using that q by (auto simp: flight_heads_def split: if_splits)
    show "knows_at (engine_at n (other x)) p (hd_version k) \<or>
        (\<exists>c \<in> set (sends as). k \<in> packet_heads (PktChange c) p)" if "k \<in> packet_heads pk p" for p k
      using that K net_inv_sent [OF inv] by blast
    show "own_bound (engine_at (ship ?n0 x e as) y) p (packet_heads pk p)" for y p
    proof (rule own_bound_mono [OF _ order_trans [OF Un_upper2 sub]])
      have "own_bound (engine_at n y) p (net_heads n p)" by (rule net_inv_bound [OF inv])
      then show "own_bound (engine_at (ship ?n0 x e as) y) p (net_heads n p)"
        using advances_own_bound [OF adv] by auto
    qed
    show "functional (net_heads n p \<union> packet_heads pk p)" for p
      using sub [of p] net_inv_functional [OF inv, of p] by (simp add: Un_absorb2)
  qed simp
qed

text \<open>A local edit that is committed introduces one head, above everything the replica holds.\<close>

lemma edit_introduces:
  assumes wf: "engine_wf e" and ok: "event_ok e (Local c)" and h: "handle e (Local c) = Some (e', as)"
  obtains (quiet) "eng_index e' = eng_index e" "eng_replica e' = eng_replica e" "as = []"
    | (commit) g where "hd_version g = vc_tick (base_clock e (lc_path c)) (eng_replica e)"
        "engine_heads e' (lc_path c) = {g}" "sends as = [head_change (lc_path c) g]"
        "introduces e (\<lambda>p. if p = lc_path c then {g} else {}) e' as"
proof (cases "is_expected_echo e (lc_path c) (observed (lc_kind c))")
  case True
  with h show ?thesis by (intro quiet) (auto simp: handle_def handle_local_echo)
next
  case noecho: False
  show ?thesis
  proof (cases "state_eq (disk_state e (lc_path c)) (state_from_kind (lc_kind c))")
    case True
    with h show ?thesis
      by (intro quiet) (auto simp: handle_def handle_local_edit [OF wf noecho])
  next
    case False
    let ?p = "lc_path c" and ?s = "state_from_kind (lc_kind c)"
    let ?v = "vc_tick (base_clock e ?p) (eng_replica e)"
    let ?g = "\<lparr>hd_version = ?v, hd_state = ?s\<rparr>"
    have room: "vc_get (base_clock e ?p) (eng_replica e) \<noteq> - 1" using ok by simp
    have e': "e' = e\<lparr>eng_index := index_put (eng_index e) ?p (entry_single ?v ?s)\<rparr>"
      and as: "as = [Send \<lparr>rc_path = ?p, rc_kind = lc_kind c, rc_version = ?v\<rparr>, RecordVersion ?p ?s ?v]"
      using h False by (auto simp: handle_def handle_local_edit [OF wf noecho] local_commit_def Let_def)
    have heads: "engine_heads e' q = (if q = ?p then {?g} else engine_heads e q)" for q
      by (simp add: e' index_heads_def index_get_put entry_single_def)
    have sends: "sends as = [head_change ?p ?g]" by (simp add: as head_change_def)
    have okv: "vc_ok ?v" by (rule vc_ok_tick [OF vc_ok_base [OF wf] room])
    have wf': "engine_wf e'"
      using wf okv by (simp add: e' engine_wf_def tomo_inv)
    have top: "knows_at e' ?p u" if "knows_at e ?p u \<or> u = ?v" for u
    proof -
      have "vc_le u ?v"
        using that base_clock_upper vc_le_tick [OF room] vc_le_trans unfolding knows_at_def by blast
      moreover have "path_versions (eng_index e') ?p = {?v}"
        unfolding path_versions_heads heads by simp
      ultimately show ?thesis by (simp add: knows_at_def)
    qed
    have "advances e e'"
      unfolding advances_def
    proof (intro conjI allI impI)
      fix p v assume k: "knows_at e p v"
      show "knows_at e' p v"
      proof (cases "p = ?p")
        case True
        with k top show ?thesis by blast
      next
        case False
        with k show ?thesis unfolding knows_at_def path_versions_heads heads by simp
      qed
    qed (use wf' in \<open>simp_all add: e'\<close>)
    moreover have "packet_heads (PktChange (head_change ?p ?g)) q \<subseteq> engine_heads e' q" for q
      unfolding head_change_packet heads by simp
    ultimately have "introduces e (\<lambda>p. if p = ?p then {?g} else {}) e' as"
      unfolding introduces_def sends using top okv by (auto simp: heads head_change_def)
    with heads sends show ?thesis by (intro commit [of ?g]) simp_all
  qed
qed

lemma net_inv_cong:
  assumes "net_inv n" "eng_index e = eng_index (engine_at n x)" "eng_replica e = eng_replica (engine_at n x)"
  shows "net_inv (ship n x e [])"
proof -
  have b: "base_clock e p = base_clock (engine_at n x) p" for p
    using assms(2) by (simp add: base_clock_def)
  show ?thesis
  proof (rule ship_inv [OF assms(1), where K = "\<lambda>_. {}"])
    show "introduces (engine_at n x) (\<lambda>_. {}) e []"
      using net_inv_wf [OF assms(1), of x] assms(2,3)
      by (simp add: introduces_def advances_def engine_wf_def knows_at_def)
  qed (simp_all add: own_bound_def net_inv_functional [OF assms(1)])
qed

lemma edit_inv [tomo_inv]:
  assumes inv: "net_inv n" and ok: "event_ok (engine_at n x) (Local c)"
    and h: "handle (engine_at n x) (Local c) = Some (e, as)"
  shows "net_inv (ship n x e as)"
  using net_inv_wf [OF inv] ok h
proof (cases rule: edit_introduces)
  case quiet
  then show ?thesis using net_inv_cong [OF inv] by simp
next
  case (commit g)
  let ?e = "engine_at n x" and ?p = "lc_path c"
  let ?K = "\<lambda>p. if p = ?p then {g} else {}"
  have room: "vc_get (base_clock ?e ?p) (eng_replica ?e) \<noteq> - 1" using ok by simp
  have adv: "advances ?e e" using commit(4) by (simp add: introduces_def)
  show ?thesis
  proof (rule ship_inv [OF inv commit(4)])
    show "knows_at (engine_at n (other x)) p (hd_version h) \<or>
        (\<exists>c \<in> set (sends as). h \<in> packet_heads (PktChange c) p)" if "h \<in> ?K p" for p h
      using that unfolding commit(3) by (auto simp: head_change_def split: if_splits)
    show "own_bound (engine_at (ship n x e as) y) p (?K p)" for y p
    proof (cases "p = ?p")
      case False
      then show ?thesis by (simp add: own_bound_def)
    next
      case p: True
      show ?thesis
      proof (cases "y = x")
        case True
        have "vc_le (hd_version g) (base_clock e ?p)"
          using commit(2) by (intro base_clock_upper) (simp add: path_versions_heads)
        with True p show ?thesis by (simp add: own_bound_def vc_le_def)
      next
        case False
        then have y: "y = other x" using side_cases by blast
        let ?r = "eng_replica (engine_at n y)"
        have "vc_get (hd_version g) ?r = vc_get (base_clock ?e ?p) ?r"
          using net_inv_replica [OF inv, of x] by (simp add: commit(1) vc_get_tick y)
        also have "\<dots> \<le> vc_get (base_clock (engine_at n y) ?p) ?r"
          using net_inv_bound [OF inv, of y ?p] held_in_net [of n x ?p]
          by (intro base_clock_get_le) (auto simp: own_bound_def versions_held)
        finally show ?thesis using p False by (simp add: own_bound_def)
      qed
    qed
    have fresh: "hd_version h \<noteq> hd_version g" if "h \<in> net_heads n ?p" for h
    proof -
      have "vc_get (hd_version h) (eng_replica ?e) \<le> vc_get (base_clock ?e ?p) (eng_replica ?e)"
        using that net_inv_bound [OF inv, of x ?p] by (auto simp: own_bound_def)
      moreover have "vc_get (base_clock ?e ?p) (eng_replica ?e) < vc_get (hd_version g) (eng_replica ?e)"
        using u64_less_Suc [OF room] by (simp add: commit(1) vc_get_tick)
      ultimately show ?thesis by auto
    qed
    show "functional (net_heads n p \<union> ?K p)" for p
    proof (cases "p = ?p")
      case True
      with fresh net_inv_functional [OF inv, of p] show ?thesis
        unfolding functional_def by (simp add: ball_Un) metis
    next
      case False
      with net_inv_functional [OF inv, of p] show ?thesis by simp
    qed
  qed simp_all
qed

lemma reconnect_inv [tomo_inv]:
  assumes inv: "net_inv n"
  shows "net_inv (n\<lparr>inbound := (\<lambda>x. [PktIndex (eng_index (engine_at n (other x)))])\<rparr>)"
proof -
  let ?n = "n\<lparr>inbound := (\<lambda>x. [PktIndex (eng_index (engine_at n (other x)))])\<rparr>"
  have fl: "flight_heads ?n x p = held_heads n (other x) p" for x p
    by (simp add: flight_heads_def held_heads_def)
  have held: "held_heads ?n x p = held_heads n x p" for x p by (simp add: held_heads_def)
  have net: "net_heads ?n p \<subseteq> net_heads n p" for p
    using held_in_net by (auto simp: net_heads_def fl held)
  have wf: "engine_wf (engine_at n x)" for x by (rule net_inv_wf [OF inv])
  have "own_bound (engine_at ?n x) p (net_heads ?n p)" for x p
    using own_bound_mono [OF net_inv_bound [OF inv] net] by simp
  moreover have "functional (net_heads ?n p)" for p
    by (rule functional_mono [OF net_inv_functional [OF inv] net])
  moreover have "h \<in> held_heads n (other x) p \<Longrightarrow> knows_at (engine_at ?n (other x)) p (hd_version h)" for h x p
    by (simp add: held_heads_def engine_heads_known)
  moreover have "eng_replica (engine_at ?n SideA) \<noteq> eng_replica (engine_at ?n SideB)"
    using net_inv_replica [OF inv, of SideA] by simp
  moreover have "engine_wf (engine_at ?n x) \<and> (\<forall>pk \<in> set (inbound ?n x). packet_ok pk)" for x
    using wf by (simp add: engine_wf_def)
  moreover have "\<exists>g \<in> flight_heads ?n (other x) p. vc_le (hd_version h) (hd_version g)"
    if "h \<in> held_heads n x p" for h x p
    using that unfolding fl by auto
  ultimately show ?thesis unfolding net_inv_def fl held by blast
qed

lemma net_step_inv: "net_step n n' \<Longrightarrow> net_inv n \<Longrightarrow> net_inv n'"
  by (induction rule: net_step.induct) (auto intro: edit_inv deliver_inv reconnect_inv)

lemma net_inv_start: "a \<noteq> b \<Longrightarrow> net_inv (net_start a b)"
  by (simp add: net_inv_def net_start_def flight_heads_def held_heads_def net_heads_def index_heads_def
      own_bound_def functional_def split: side.splits)

lemma net_reachable_inv: "net_step\<^sup>*\<^sup>* n n' \<Longrightarrow> net_inv n \<Longrightarrow> net_inv n'"
  by (induction rule: rtranclp_induct) (auto intro: net_step_inv)

section \<open>Quiescent networks agree\<close>

lemma quiescent_agree:
  assumes inv: "net_inv n" and q: "quiescent n"
  shows "eng_index (engine_at n SideA) = eng_index (engine_at n SideB)"
proof -
  let ?V = "\<lambda>x. path_versions (eng_index (engine_at n x))"
  have empty: "flight_heads n x p = {}" for x p
    using q by (cases x) (simp_all add: flight_heads_def quiescent_def)
  have wf: "index_wf (eng_index (engine_at n x))" for x
    using net_inv_wf [OF inv, of x] by (simp add: engine_wf_def)
  have cover: "\<exists>u \<in> ?V (other x) p. vc_le v u" if "v \<in> ?V x p" for x p v
  proof -
    obtain h where h: "h \<in> held_heads n x p" "v = hd_version h"
      using \<open>v \<in> ?V x p\<close> unfolding versions_held by blast
    with inv empty [of "other x" p] show ?thesis unfolding net_inv_def knows_at_def by blast
  qed
  have sub: "?V x p \<subseteq> ?V (other x) p" for x p
  proof
    fix v assume v: "v \<in> ?V x p"
    obtain u where u: "u \<in> ?V (other x) p" "vc_le v u" using cover [OF v] by blast
    obtain w where w: "w \<in> ?V x p" "vc_le u w" using cover [OF u(1)] by auto
    have "w = v"
      using clocks.maximal_antichain [of v "?V x p" w] v w(1) vc_le_trans [OF u(2) w(2)]
      unfolding path_versions_maximal [OF wf] by simp
    then have "u = v"
      using vc_le_antisym [of u v] u w path_versions_ok [OF wf u(1)] path_versions_ok [OF wf v] by simp
    with u(1) show "v \<in> ?V (other x) p" by simp
  qed
  obtain org where org: "\<And>p h. h \<in> net_heads n p \<Longrightarrow> hd_state h = org p (hd_version h)"
    using functional_org [OF net_inv_functional [OF inv]] by metis
  have coh: "index_coherent org (eng_index (engine_at n x))" for x
    unfolding index_coherent_heads using org held_in_net [of n x] unfolding held_heads_def by blast
  show ?thesis
    using sub [of SideA] sub [of SideB] by (intro index_determined [OF wf wf coh coh]) auto
qed

text \<open>C1: The two replicas converge: in every state reachable from two fresh replicas by
  local edits, deliveries in any order, and reconnects that lose everything in flight,
  if nothing is in flight the two indices are equal.\<close>

theorem quiescent_replicas_agree:
  assumes "a \<noteq> b" "net_step\<^sup>*\<^sup>* (net_start a b) n" "quiescent n"
  shows "eng_index (engine_at n SideA) = eng_index (engine_at n SideB)"
  using quiescent_agree [OF net_reachable_inv [OF assms(2) net_inv_start [OF assms(1)]] assms(3)] .

section \<open>Draining the network\<close>

fun is_snapshot :: "packet \<Rightarrow> bool" where
  "is_snapshot (PktIndex _) \<longleftrightarrow> True"
| "is_snapshot (PktChange _) \<longleftrightarrow> False"

definition snapshots :: "net \<Rightarrow> nat" where
  "snapshots n = length (filter is_snapshot (inbound n SideA)) + length (filter is_snapshot (inbound n SideB))"

definition packets :: "net \<Rightarrow> nat" where
  "packets n = length (inbound n SideA) + length (inbound n SideB)"

lemma no_snapshot_sent [simp]: "filter is_snapshot (map PktChange cs) = []"
  by (induction cs) simp_all

lemma deliver_possible:
  assumes inv: "net_inv n" and q: "\<not> quiescent n"
  shows "\<exists>n'. deliver_step n n' \<and> (n', n) \<in> measures [snapshots, packets]"
proof -
  obtain x pk qs where pk: "inbound n x = [] @ pk # qs"
    using q unfolding quiescent_def by (metis append_Nil neq_Nil_conv)
  have wf: "engine_wf (engine_at n x)" "packet_ok pk"
    using net_inv_wf [OF inv] net_inv_packet [OF inv, of pk x] pk by simp_all
  obtain e as where h: "handle (engine_at n x) (packet_event pk) = Some (e, as)"
    using handle_packet_effect [OF wf] by blast
  have silent: "sends as = []" if "\<not> is_snapshot pk"
  proof (cases pk)
    case (PktChange c)
    with wf h remote_effect [OF wf(1), of c] show ?thesis by auto
  next
    case (PktIndex i)
    with that show ?thesis by simp
  qed
  let ?n = "ship (n\<lparr>inbound := (inbound n)(x := [] @ qs)\<rparr>) x e as"
  have "(?n, n) \<in> measures [snapshots, packets]"
    using pk silent by (cases x; cases "is_snapshot pk") (simp_all add: snapshots_def packets_def)
  moreover have "deliver_step n ?n" by (rule deliver [OF pk h])
  ultimately show ?thesis by blast
qed

text \<open>C2: Convergence is reached: from every reachable state, delivering packets (each
  delivery succeeds) leads after finitely many steps to a quiescent state, in which the
  two indices are equal.\<close>

theorem replicas_drain_and_agree:
  assumes "a \<noteq> b" "net_step\<^sup>*\<^sup>* (net_start a b) n"
  shows "\<exists>n'. deliver_step\<^sup>*\<^sup>* n n' \<and> quiescent n' \<and>
    eng_index (engine_at n' SideA) = eng_index (engine_at n' SideB)"
proof -
  have "net_inv n" by (rule net_reachable_inv [OF assms(2) net_inv_start [OF assms(1)]])
  then have "\<exists>n'. deliver_step\<^sup>*\<^sup>* n n' \<and> quiescent n' \<and> net_inv n'"
  proof (induction n rule: wf_induct [OF wf_measures [of "[snapshots, packets]"]])
    case (1 n)
    show ?case
    proof (cases "quiescent n")
      case True
      with 1(2) show ?thesis by blast
    next
      case False
      obtain n1 where n1: "deliver_step n n1" "(n1, n) \<in> measures [snapshots, packets]"
        using deliver_possible [OF 1(2) False] by blast
      from 1(1) n1(2) deliver_inv [OF 1(2) n1(1)]
      obtain n' where "deliver_step\<^sup>*\<^sup>* n1 n'" "quiescent n'" "net_inv n'" by blast
      with n1(1) show ?thesis by (meson converse_rtranclp_into_rtranclp)
    qed
  qed
  then show ?thesis using quiescent_agree by blast
qed

text \<open>A run for the witnesses: replica 1 creates a file while offline, then the two connect.\<close>

definition demo_edit :: local_change where
  "demo_edit = \<lparr>lc_path = demo_path, lc_kind = Modified (demo_sig 7 5)\<rparr>"

lemma demo_edit_step:
  "\<exists>n. net_step\<^sup>*\<^sup>* (net_start (ReplicaId 1) (ReplicaId 2)) n \<and>
     inbound n SideB = [PktChange \<lparr>rc_path = demo_path, rc_kind = Modified (demo_sig 7 5), rc_version = demo_clock 1\<rparr>]"
proof -
  let ?n = "net_start (ReplicaId 1) (ReplicaId 2)"
  let ?e = "engine_new (ReplicaId 1) index_new"
  have at: "engine_at ?n SideA = ?e" by (simp add: net_start_def)
  have ok: "event_ok (engine_at ?n SideA) (Local demo_edit)"
    by (simp add: at demo_edit_def base_clock_def)
  have "\<not> is_expected_echo ?e demo_path (observed (Modified (demo_sig 7 5)))"
    by (simp add: is_expected_echo_def echo_contains_pending pending_count_def engine_new_def)
  then have "handle ?e (Local demo_edit) =
      Some (local_commit ?e demo_path vc_new (Present (demo_sig 7 5)) (Modified (demo_sig 7 5)))"
    using handle_local_edit [OF engine_wf_fresh, of "ReplicaId 1" demo_edit]
    by (simp add: handle_def demo_edit_def disk_state_def base_clock_def state_from_kind_def)
  then obtain e as where h: "handle (engine_at ?n SideA) (Local demo_edit) = Some (e, as)"
    and as: "sends as = [\<lparr>rc_path = demo_path, rc_kind = Modified (demo_sig 7 5), rc_version = demo_clock 1\<rparr>]"
    by (auto simp: at local_commit_def Let_def demo_clock_def)
  have "net_step ?n (ship ?n SideA e as)" by (rule edit [OF ok h])
  moreover have "inbound (ship ?n SideA e as) SideB =
      [PktChange \<lparr>rc_path = demo_path, rc_kind = Modified (demo_sig 7 5), rc_version = demo_clock 1\<rparr>]"
    by (simp add: as) (simp add: net_start_def)
  ultimately show ?thesis by blast
qed

theorem replicas_drain_and_agree_witness:
  "\<exists>n n'. inbound n SideB = [PktChange \<lparr>rc_path = demo_path, rc_kind = Modified (demo_sig 7 5), rc_version = demo_clock 1\<rparr>] \<and>
     deliver_step\<^sup>*\<^sup>* n n' \<and> quiescent n' \<and>
     eng_index (engine_at n' SideA) = eng_index (engine_at n' SideB)"
  using demo_edit_step replicas_drain_and_agree [of "ReplicaId 1" "ReplicaId 2"] by fastforce

theorem quiescent_replicas_agree_witness:
  "eng_index (engine_at (net_start (ReplicaId 1) (ReplicaId 2)) SideA) =
   eng_index (engine_at (net_start (ReplicaId 1) (ReplicaId 2)) SideB)"
  by (rule quiescent_replicas_agree [of "ReplicaId 1" "ReplicaId 2"])
    (simp_all add: quiescent_def net_start_def)

end
