(* ===== verification/Tomo_Frame.thy ===== *)
theory Tomo_Frame
  imports Tomo_Engine
begin

text \<open>
  \<^verbatim>\<open>crates/tomo-proto/src\<close>: the wire messages, the length-prefixed frames and the push-based
  decoder. The payload codec (the postcard crate) is a pair of parameters \<open>to_bytes\<close> and
  \<open>from_bytes\<close>; the one thing the frames rely on, that decoding an encoded message gives
  the message back, is a named hypothesis of the round trip. The reference parser
  \<open>parse_frames\<close> reads a whole byte string at once; the decoder is shown to refine it for
  every way of cutting the stream into chunks.
\<close>

section \<open>Messages\<close>

definition PROTOCOL_VERSION :: u16 where
  "PROTOCOL_VERSION = 4"

definition INLINE_THRESHOLD :: nat where
  "INLINE_THRESHOLD = 1024 * 1024"

type_synonym chunk_hash = content_hash

datatype message =
    Hello (protocol: u16) (binary_version: string) (replica: replica_id)
  | IndexExchange index
  | Change (change: remote_change) (inline_bytes: "bytes option")
  | ChangeManifest (mchange: remote_change) (total_size: u64) (manifest: "chunk_hash list")
  | ChunkRequest (hashes: "chunk_hash list")
  | ChunkData (chunk: chunk_hash) (chunk_bytes: bytes)
  | Ping (nonce: u64)
  | Pong (nonce: u64)
  | Pause
  | Resume

section \<open>Frames\<close>

definition LEN_PREFIX :: nat where
  "LEN_PREFIX = 4"

definition MAX_FRAME_LEN :: u32 where
  "MAX_FRAME_LEN = 256 * 1024 * 1024"

datatype 'e proto_error = FrameTooLarge u32 | Decode 'e | Encode 'e

definition frame_encode :: "(message \<Rightarrow> 'e + bytes) \<Rightarrow> message \<Rightarrow> 'e proto_error + bytes" where
  "frame_encode to_bytes msg = (case to_bytes msg of
      Inl e \<Rightarrow> Inl (Encode e)
    | Inr payload \<Rightarrow>
        if length payload \<ge> 2 ^ 32 then Inl (FrameTooLarge (- 1))
        else let len = word_of_nat (length payload)
          in if len > MAX_FRAME_LEN then Inl (FrameTooLarge len)
             else Inr (u32_le len @ payload))"

record frame_decoder =
  fd_buf :: bytes
  fd_pos :: nat

definition fd_new :: frame_decoder where
  "fd_new = \<lparr>fd_buf = [], fd_pos = 0\<rparr>"

definition fd_push :: "frame_decoder \<Rightarrow> bytes \<Rightarrow> frame_decoder" where
  "fd_push d bs =
     (let d = (if fd_pos d > 0 then d\<lparr>fd_buf := drop (fd_pos d) (fd_buf d), fd_pos := 0\<rparr> else d)
      in d\<lparr>fd_buf := fd_buf d @ bs\<rparr>)"

definition fd_next ::
    "(bytes \<Rightarrow> 'e + message) \<Rightarrow> frame_decoder \<Rightarrow> ('e proto_error + message option) \<times> frame_decoder" where
  "fd_next from_bytes d =
     (let avail = drop (fd_pos d) (fd_buf d)
      in if length avail < LEN_PREFIX then (Inr None, d)
         else let len = le_u32 (take 4 avail)
           in if len > MAX_FRAME_LEN then (Inl (FrameTooLarge len), d)
              else let stop = LEN_PREFIX + unat len
                in if length avail < stop then (Inr None, d)
                   else (case from_bytes (take (unat len) (drop LEN_PREFIX avail)) of
                      Inl e \<Rightarrow> (Inl (Decode e), d)
                    | Inr msg \<Rightarrow> (Inr (Some msg), d\<lparr>fd_pos := fd_pos d + stop\<rparr>)))"

text \<open>Draining a decoder, as its documentation prescribes: \<open>next\<close> until no complete frame
  is buffered or an error is met.\<close>

definition fd_rest :: "frame_decoder \<Rightarrow> bytes" where
  "fd_rest d = drop (fd_pos d) (fd_buf d)"

lemma fd_next_shrinks:
  "fd_next from_bytes d = (Inr (Some m), d') \<Longrightarrow> length (fd_rest d') < length (fd_rest d)"
  by (auto simp: fd_next_def Let_def LEN_PREFIX_def fd_rest_def split: if_splits sum.splits)

function fd_drain ::
    "(bytes \<Rightarrow> 'e + message) \<Rightarrow> frame_decoder \<Rightarrow> message list \<times> 'e proto_error option \<times> frame_decoder" where
  "fd_drain from_bytes d = (case fd_next from_bytes d of
      (Inl e, d') \<Rightarrow> ([], Some e, d')
    | (Inr None, d') \<Rightarrow> ([], None, d')
    | (Inr (Some m), d') \<Rightarrow> (let (ms, r) = fd_drain from_bytes d' in (m # ms, r)))"
  by pat_completeness auto
termination
  by (relation "measure (\<lambda>(f, d). length (fd_rest d))") (auto dest: fd_next_shrinks [OF sym])

fun fd_feed ::
    "(bytes \<Rightarrow> 'e + message) \<Rightarrow> frame_decoder \<Rightarrow> bytes list \<Rightarrow>
     message list \<times> 'e proto_error option \<times> frame_decoder" where
  "fd_feed from_bytes d [] = ([], None, d)"
| "fd_feed from_bytes d (c # cs) = (case fd_drain from_bytes (fd_push d c) of
      (ms, Some e, d') \<Rightarrow> (ms, Some e, d')
    | (ms, None, d') \<Rightarrow> (let (ms', r) = fd_feed from_bytes d' cs in (ms @ ms', r)))"

section \<open>Reference parser\<close>

function parse_frames :: "(bytes \<Rightarrow> 'e + message) \<Rightarrow> bytes \<Rightarrow> message list \<times> 'e proto_error option" where
  "parse_frames from_bytes bs =
     (if length bs < 4 then ([], None)
      else if le_u32 (take 4 bs) > MAX_FRAME_LEN then ([], Some (FrameTooLarge (le_u32 (take 4 bs))))
      else if length bs < 4 + unat (le_u32 (take 4 bs)) then ([], None)
      else (case from_bytes (take (unat (le_u32 (take 4 bs))) (drop 4 bs)) of
              Inl e \<Rightarrow> ([], Some (Decode e))
            | Inr m \<Rightarrow> (let (ms, r) = parse_frames from_bytes (drop (4 + unat (le_u32 (take 4 bs))) bs)
                        in (m # ms, r))))"
  by pat_completeness auto
termination
  by (relation "measure (\<lambda>(f, bs). length bs)") auto

declare fd_drain.simps [simp del] parse_frames.simps [simp del]

section \<open>The decoder refines the parser\<close>

text \<open>One frame at the front of a byte string: incomplete, an error, or a message with the
  number of bytes it takes.\<close>

definition front :: "(bytes \<Rightarrow> 'e + message) \<Rightarrow> bytes \<Rightarrow> ('e proto_error + message \<times> nat) option" where
  "front from_bytes bs =
     (if length bs < 4 then None
      else if le_u32 (take 4 bs) > MAX_FRAME_LEN then Some (Inl (FrameTooLarge (le_u32 (take 4 bs))))
      else if length bs < 4 + unat (le_u32 (take 4 bs)) then None
      else (case from_bytes (take (unat (le_u32 (take 4 bs))) (drop 4 bs)) of
              Inl e \<Rightarrow> Some (Inl (Decode e))
            | Inr m \<Rightarrow> Some (Inr (m, 4 + unat (le_u32 (take 4 bs))))))"

lemma front_bound: "front f bs = Some (Inr (m, n)) \<Longrightarrow> 0 < n \<and> n \<le> length bs"
  by (auto simp: front_def split: if_splits sum.splits)

lemma front_append: "front f bs = Some r \<Longrightarrow> front f (bs @ cs) = Some r"
  by (auto simp: front_def take_append split: if_splits sum.splits)

lemma parse_front:
  "parse_frames f bs = (case front f bs of
      None \<Rightarrow> ([], None)
    | Some (Inl e) \<Rightarrow> ([], Some e)
    | Some (Inr (m, n)) \<Rightarrow> (m # fst (parse_frames f (drop n bs)), snd (parse_frames f (drop n bs))))"
  by (subst parse_frames.simps) (simp add: front_def split_beta Let_def split: sum.splits)

lemma parse_incomplete: "front f bs = None \<Longrightarrow> parse_frames f bs = ([], None)"
  by (subst parse_front) simp

lemma next_front:
  "fd_next f d = (case front f (fd_rest d) of
      None \<Rightarrow> (Inr None, d)
    | Some (Inl e) \<Rightarrow> (Inl e, d)
    | Some (Inr (m, n)) \<Rightarrow> (Inr (Some m), d\<lparr>fd_pos := fd_pos d + n\<rparr>))"
  by (simp add: fd_next_def front_def fd_rest_def LEN_PREFIX_def Let_def split: sum.splits)

definition fd_ok :: "frame_decoder \<Rightarrow> bool" where
  "fd_ok d \<longleftrightarrow> fd_pos d \<le> length (fd_buf d)"

lemma fd_ok_new [tomo_inv]: "fd_ok fd_new"
  by (simp add: fd_ok_def fd_new_def)

lemma fd_rest_advance: "fd_rest (d\<lparr>fd_pos := fd_pos d + n\<rparr>) = drop n (fd_rest d)"
  by (simp add: fd_rest_def add.commute)

lemma fd_rest_push [simp]: "fd_rest (fd_push d bs) = fd_rest d @ bs" if "fd_ok d"
  using that by (simp add: fd_rest_def fd_push_def Let_def fd_ok_def)

lemma fd_ok_push [tomo_inv]: "fd_ok d \<Longrightarrow> fd_ok (fd_push d bs)"
  by (auto simp: fd_ok_def fd_push_def Let_def)

lemma fd_ok_advance: "fd_ok d \<Longrightarrow> n \<le> length (fd_rest d) \<Longrightarrow> fd_ok (d\<lparr>fd_pos := fd_pos d + n\<rparr>)"
  by (auto simp: fd_ok_def fd_rest_def)

lemma drain_parses:
  "fd_ok d \<Longrightarrow> fd_drain f d = (ms, err, d') \<Longrightarrow>
   fd_ok d' \<and> parse_frames f (fd_rest d) = (ms, err) \<and>
   (err = None \<longrightarrow> front f (fd_rest d') = None \<and>
      (\<forall>cs. parse_frames f (fd_rest d @ cs) =
         (ms @ fst (parse_frames f (fd_rest d' @ cs)), snd (parse_frames f (fd_rest d' @ cs))))) \<and>
   (\<forall>e. err = Some e \<longrightarrow> (\<forall>cs. parse_frames f (fd_rest d @ cs) = (ms, err)))"
proof (induction f d arbitrary: ms rule: fd_drain.induct)
  case (1 f d)
  show ?case
  proof (cases "front f (fd_rest d)")
    case None
    then have "ms = []" "err = None" "d' = d"
      using 1(3) by (simp_all add: fd_drain.simps [of f d] next_front)
    with None 1(2) show ?thesis by (simp add: parse_front [of f "fd_rest d"])
  next
    case (Some r)
    show ?thesis
    proof (cases r)
      case (Inl e)
      then have "ms = []" "err = Some e" "d' = d"
        using 1(3) Some by (simp_all add: fd_drain.simps [of f d] next_front)
      with Some Inl 1(2) front_append [OF Some] show ?thesis by (simp add: parse_front [of f "fd_rest d"] parse_front [of f "fd_rest d @ _"])
    next
      case (Inr mn)
      obtain m n where mn: "mn = (m, n)" by (cases mn)
      let ?d = "d\<lparr>fd_pos := fd_pos d + n\<rparr>"
      have n: "front f (fd_rest d) = Some (Inr (m, n))" using Some Inr mn by simp
      have next': "fd_next f d = (Inr (Some m), ?d)" by (simp add: next_front n)
      obtain ms' r' where rec: "fd_drain f ?d = (ms', r')" by (cases "fd_drain f ?d")
      with 1(3) have ms: "ms = m # ms'" "r' = (err, d')"
        by (simp_all add: fd_drain.simps [of f d] next')
      have bound: "n \<le> length (fd_rest d)" using front_bound [OF n] by simp
      have ok: "fd_ok ?d" by (rule fd_ok_advance [OF 1(2) bound])
      note ih = 1(1) [OF next' [symmetric] refl refl ok rec [unfolded ms(2)]]
      have app: "parse_frames f (fd_rest d @ cs) =
          (m # fst (parse_frames f (fd_rest ?d @ cs)), snd (parse_frames f (fd_rest ?d @ cs)))" for cs
        using front_append [OF n, of cs] bound
        by (simp add: parse_front [of f "fd_rest d @ cs"] fd_rest_advance)
      show ?thesis using ih app app [of "[]"] ms(1) by simp
    qed
  qed
qed

lemma feed_parses:
  "fd_ok d \<Longrightarrow> front f (fd_rest d) = None \<Longrightarrow> fd_feed f d cs = (ms, err, d') \<Longrightarrow>
   parse_frames f (fd_rest d @ concat cs) = (ms, err)"
proof (induction cs arbitrary: d ms)
  case Nil
  then show ?case by (auto simp: parse_incomplete)
next
  case (Cons c cs)
  obtain ms1 err1 d1 where d1: "fd_drain f (fd_push d c) = (ms1, err1, d1)"
    by (cases "fd_drain f (fd_push d c)")
  note facts = drain_parses [OF fd_ok_push [OF Cons.prems(1)] d1, unfolded fd_rest_push [OF Cons.prems(1)]]
  show ?case
  proof (cases err1)
    case None
    obtain ms2 r2 where f2: "fd_feed f d1 cs = (ms2, r2)" by (cases "fd_feed f d1 cs")
    with Cons.prems(3) d1 None have ms: "ms = ms1 @ ms2" "r2 = (err, d')" by simp_all
    have "parse_frames f (fd_rest d1 @ concat cs) = (ms2, err)"
      using Cons.IH [of d1 ms2] facts None f2 ms(2) by simp
    with facts None ms(1) show ?thesis by simp
  next
    case (Some e)
    with Cons.prems(3) d1 have "ms1 = ms" "err = Some e" by simp_all
    with Some facts show ?thesis by auto
  qed
qed

text \<open>The bytes of a stream that its complete frames leave over, or that an erroneous frame stops at.\<close>

function leftover :: "(bytes \<Rightarrow> 'e + message) \<Rightarrow> bytes \<Rightarrow> bytes" where
  "leftover f bs = (case front f bs of Some (Inr (_, n)) \<Rightarrow> leftover f (drop n bs) | _ \<Rightarrow> bs)"
  by pat_completeness auto
termination
  by (relation "measure (\<lambda>(f, bs). length bs)") (auto dest!: front_bound)

declare leftover.simps [simp del]

lemma leftover_stop: "front f bs = None \<Longrightarrow> leftover f bs = bs" "front f bs = Some (Inl e) \<Longrightarrow> leftover f bs = bs"
  by (simp_all add: leftover.simps [of f bs])

lemma drain_leftover:
  "fd_ok d \<Longrightarrow> fd_drain f d = (ms, err, d') \<Longrightarrow>
   leftover f (fd_rest d @ cs) = leftover f (fd_rest d' @ cs) \<and> front f (fd_rest d') = map_option Inl err"
proof (induction f d arbitrary: ms rule: fd_drain.induct)
  case (1 f d)
  show ?case
  proof (cases "\<exists>m n. front f (fd_rest d) = Some (Inr (m, n))")
    case True
    then obtain m n where n: "front f (fd_rest d) = Some (Inr (m, n))" by blast
    let ?d = "d\<lparr>fd_pos := fd_pos d + n\<rparr>"
    have next': "fd_next f d = (Inr (Some m), ?d)" by (simp add: next_front n)
    obtain ms' r' where rec: "fd_drain f ?d = (ms', r')" by (cases "fd_drain f ?d")
    with 1(3) have r': "r' = (err, d')" by (simp add: fd_drain.simps [of f d] next')
    have bound: "n \<le> length (fd_rest d)" using front_bound [OF n] by simp
    have "leftover f (fd_rest d @ cs) = leftover f (fd_rest ?d @ cs)"
      using front_append [OF n, of cs] bound by (simp add: leftover.simps [of f "fd_rest d @ cs"] fd_rest_advance)
    then show ?thesis using 1(1) [OF next' [symmetric] refl refl fd_ok_advance [OF 1(2) bound] rec [unfolded r']] by simp
  next
    case False
    then have "d' = d \<and> front f (fd_rest d) = map_option Inl err"
      using 1(3) by (auto simp: fd_drain.simps [of f d] next_front split: option.splits sum.splits)
    then show ?thesis by simp
  qed
qed

lemma feed_leftover:
  "fd_ok d \<Longrightarrow> front f (fd_rest d) = None \<Longrightarrow> fd_feed f d cs = (ms, err, d') \<Longrightarrow>
   \<exists>k. leftover f (fd_rest d @ concat cs) = fd_rest d' @ concat (drop k cs) \<and> (err = None \<longrightarrow> length cs \<le> k) \<and>
     front f (fd_rest d') = map_option Inl err"
proof (induction cs arbitrary: d ms)
  case Nil
  then show ?case by (auto simp: leftover_stop)
next
  case (Cons c cs)
  obtain ms1 err1 d1 where d1: "fd_drain f (fd_push d c) = (ms1, err1, d1)" by (cases "fd_drain f (fd_push d c)")
  have ok: "fd_ok (fd_push d c)" by (rule fd_ok_push [OF Cons.prems(1)])
  note facts = drain_leftover [OF ok d1, of "concat cs", unfolded fd_rest_push [OF Cons.prems(1)]]
  show ?case
  proof (cases err1)
    case None
    obtain ms2 r2 where f2: "fd_feed f d1 cs = (ms2, r2)" by (cases "fd_feed f d1 cs")
    with Cons.prems(3) d1 None have r2: "r2 = (err, d')" by simp
    have "fd_ok d1" using drain_parses [OF ok d1] by simp
    from Cons.IH [OF this _ f2 [unfolded r2]] facts None
    obtain k where "leftover f (fd_rest d1 @ concat cs) = fd_rest d' @ concat (drop k cs)" "err = None \<longrightarrow> length cs \<le> k"
      "front f (fd_rest d') = map_option Inl err" by auto
    then show ?thesis using facts by (intro exI [of _ "Suc k"]) simp
  next
    case (Some e)
    with Cons.prems(3) d1 have d': "err = Some e" "d' = d1" by simp_all
    then have "front f (fd_rest d1 @ concat cs) = Some (Inl e)" using facts Some front_append [of f "fd_rest d1" "Inl e"] by simp
    then show ?thesis using facts Some d' leftover_stop(2) by (intro exI [of _ 1]) auto
  qed
qed

text \<open>C39: Chunking does not matter: however the received byte stream is cut into pushes, the
  decoder yields the same messages and the same error, if any, as parsing the whole stream at
  once. The state it ends in holds exactly the bytes that the complete frames leave over (after
  an error, those of them that were pushed: the chunks after the error are not), and asking it
  once more gives no frame, or the same error, and leaves it as it is.\<close>

theorem decoder_ignores_chunking:
  "case fd_feed f fd_new cs of (ms, err, d) \<Rightarrow>
     parse_frames f (concat cs) = (ms, err) \<and>
     (\<exists>k. leftover f (concat cs) = fd_rest d @ concat (case err of None \<Rightarrow> [] | Some _ \<Rightarrow> drop k cs)) \<and>
     fd_next f d = (case err of None \<Rightarrow> Inr None | Some e \<Rightarrow> Inl e, d)"
proof -
  obtain ms err d where r: "fd_feed f fd_new cs = (ms, err, d)" by (cases "fd_feed f fd_new cs")
  have new: "fd_rest fd_new = []" "front f (fd_rest fd_new) = None" by (simp_all add: fd_rest_def fd_new_def front_def)
  have "parse_frames f (concat cs) = (ms, err)" using feed_parses [OF fd_ok_new new(2) r] new(1) by simp
  moreover obtain k where "leftover f (concat cs) = fd_rest d @ concat (drop k cs)" "err = None \<longrightarrow> length cs \<le> k"
    "front f (fd_rest d) = map_option Inl err" using feed_leftover [OF fd_ok_new new(2) r] new(1) by auto
  ultimately show ?thesis unfolding r by (cases err) (simp_all add: next_front, blast)
qed

lemma parse_encoded:
  assumes codec: "\<And>m bs. to_bytes m = Inr bs \<Longrightarrow> from_bytes bs = Inr m"
    and enc: "list_all2 (\<lambda>m bs. frame_encode to_bytes m = Inr bs) ms frames"
  shows "parse_frames from_bytes (concat frames) = (ms, None)"
  using enc
proof (induction rule: list_all2_induct)
  case Nil
  then show ?case by (simp add: parse_frames.simps)
next
  case (Cons m ms fr frames)
  then obtain payload where p: "to_bytes m = Inr payload" "length payload < 2 ^ 32"
      "\<not> (word_of_nat (length payload) :: u32) > MAX_FRAME_LEN"
      "fr = u32_le (word_of_nat (length payload)) @ payload"
    by (auto simp: frame_encode_def Let_def split: sum.splits if_splits)
  have len: "unat (word_of_nat (length payload) :: u32) = length payload"
    using p(2) by (simp add: unat_of_nat)
  have "front from_bytes (concat (fr # frames)) = Some (Inr (m, 4 + length payload))"
    using p(3) codec [OF p(1)] len by (simp add: front_def p(4))
  with Cons.IH show ?case
    by (subst parse_front) (simp add: p(4))
qed

text \<open>C40: Frames round-trip over any chunking: if the payload codec decodes what it encoded,
  a sequence of messages that encodes without error, sent as one byte stream and
  received in arbitrary chunks, is decoded to exactly that sequence with no error.\<close>

theorem frames_roundtrip:
  assumes "\<And>m bs. to_bytes m = Inr bs \<Longrightarrow> from_bytes bs = Inr m"
    and "list_all2 (\<lambda>m bs. frame_encode to_bytes m = Inr bs) ms frames"
    and "concat cs = concat frames"
  shows "fst (fd_feed from_bytes fd_new cs) = ms \<and> fst (snd (fd_feed from_bytes fd_new cs)) = None"
proof -
  obtain ms' err d where r: "fd_feed from_bytes fd_new cs = (ms', err, d)" by (cases "fd_feed from_bytes fd_new cs")
  have "parse_frames from_bytes (concat cs) = (ms', err)"
    using feed_parses [OF fd_ok_new _ r] by (simp add: fd_rest_def fd_new_def front_def)
  with r assms(3) parse_encoded [OF assms(1,2)] show ?thesis by simp
qed

text \<open>A codec for the witness: the two messages without payload.\<close>

definition tiny_to :: "message \<Rightarrow> unit + bytes" where
  "tiny_to m = (if m = Pause then Inr [8] else if m = Resume then Inr [9] else Inl ())"

definition tiny_from :: "bytes \<Rightarrow> unit + message" where
  "tiny_from bs = (if bs = [8] then Inr Pause else if bs = [9] then Inr Resume else Inl ())"

lemma u32_le_one: "u32_le 1 = [1, 0, 0, 0]"
proof -
  have four: "(4 :: nat) = Suc (Suc (Suc (Suc 0)))" by simp
  show ?thesis unfolding u32_le_def four by simp
qed

theorem frames_roundtrip_witness:
  "fst (fd_feed tiny_from fd_new [[1, 0], [0, 0, 8, 1, 0, 0], [0, 9]]) = [Pause, Resume]"
proof -
  have codec: "tiny_to m = Inr bs \<Longrightarrow> tiny_from bs = Inr m" for m bs
    by (auto simp: tiny_to_def tiny_from_def split: if_splits)
  have enc: "list_all2 (\<lambda>m bs. frame_encode tiny_to m = Inr bs) [Pause, Resume] [[1, 0, 0, 0, 8], [1, 0, 0, 0, 9]]"
    by (simp add: frame_encode_def tiny_to_def MAX_FRAME_LEN_def u32_le_one)
  show ?thesis
    using frames_roundtrip [OF codec enc, where cs = "[[1, 0], [0, 0, 8, 1, 0, 0], [0, 9]]"] by simp
qed

text \<open>A framing error is terminal: it leaves the decoder where it was, and after any
  further pushes the next call reports the same error again; no later frame is ever
  decoded past it.\<close>

theorem frame_error_terminal:
  assumes "fd_ok d" "fd_next f d = (Inl e, d')"
  shows "d' = d \<and> fd_next f (foldl fd_push d cs) = (Inl e, foldl fd_push d cs)"
proof -
  have fr: "front f (fd_rest d) = Some (Inl e)" and d': "d' = d"
    using assms(2) by (auto simp: next_front split: option.splits sum.splits)
  have "fd_ok (foldl fd_push d cs) \<and> fd_rest (foldl fd_push d cs) = fd_rest d @ concat cs"
    using assms(1) by (induction cs arbitrary: d) (simp_all add: fd_ok_push)
  then have "front f (fd_rest (foldl fd_push d cs)) = Some (Inl e)"
    using front_append [OF fr] by simp
  with d' show ?thesis by (simp add: next_front)
qed

theorem frame_error_terminal_witness:
  "fd_next tiny_from (foldl fd_push \<lparr>fd_buf = [1, 0, 0, 0, 7], fd_pos = 0\<rparr> [[1, 2], [3]]) =
     (Inl (Decode ()), foldl fd_push \<lparr>fd_buf = [1, 0, 0, 0, 7], fd_pos = 0\<rparr> [[1, 2], [3]])"
proof -
  let ?d = "\<lparr>fd_buf = [1, 0, 0, 0, 7], fd_pos = 0\<rparr>"
  have "fd_next tiny_from ?d = (Inl (Decode ()), ?d)"
    by (simp add: fd_next_def LEN_PREFIX_def le_u32_def MAX_FRAME_LEN_def Let_def tiny_from_def)
  then show ?thesis
    using frame_error_terminal [of ?d tiny_from "Decode ()" ?d "[[1, 2], [3]]"] by (simp add: fd_ok_def)
qed

end
