(* ===== verification/Tomo_Pressure.thy ===== *)
theory Tomo_Pressure
  imports Tomo_Index "HOL-Library.Multiset"
begin

text \<open>
  \<^verbatim>\<open>crates/tomo-engine/src/pressure.rs\<close>: the adaptive history pressure controller. Times and
  sizes are u64 with the source's saturating operations, the rung is a nat (usize), the
  f64 rate threshold is a real number. \<open>pc_note\<close> returns \<open>None\<close> where indexing the ladder
  would panic. The controller is an instance of the \<open>state_machine\<close> interface; the last
  section runs it with the log of recorded versions and shows that no final write is lost.
\<close>

section \<open>Data\<close>

definition RATE_WINDOW_MS :: u64 where
  "RATE_WINDOW_MS = 1000"

definition QUEUE_HIGH_WATER :: u64 where
  "QUEUE_HIGH_WATER = 64"

record pressure_config =
  ladder_ms :: "u64 list"
  escalate_events_per_sec :: real
  decay_idle_ms :: u64
  max_staged_bytes :: u64
  min_capture_window_ms :: u64

definition pressure_config_default :: pressure_config where
  "pressure_config_default = \<lparr>ladder_ms = [0, 250, 1000, 5000], escalate_events_per_sec = 20,
     decay_idle_ms = 2000, max_staged_bytes = 8 * 1024 * 1024, min_capture_window_ms = 75\<rparr>"

datatype history_mode = Adaptive | EveryChange | Off | IntervalMs u64

record capture_input =
  ci_state :: entry_state
  ci_version :: vector_clock
  ci_origin_is_local :: bool
  ci_size_hint :: u64

record staged_capture =
  sc_state :: entry_state
  sc_version :: vector_clock
  sc_origin_is_local :: bool
  sc_staged_at_ms :: u64
  sc_due_at_ms :: u64
  sc_size_hint :: u64

datatype capture_decision = Immediate | Deferred (due_at_ms: u64) | Dropped

record pressure_controller =
  pc_mode :: history_mode
  pc_config :: pressure_config
  pc_rung :: nat
  pc_staging :: "(relpath, staged_capture) btree_map"
  pc_staged_bytes :: u64
  pc_window :: "u64 list"
  pc_decay_anchor_ms :: u64

section \<open>Operations\<close>

definition pressure_new :: "history_mode \<Rightarrow> pressure_config \<Rightarrow> pressure_controller" where
  "pressure_new mode config =
     (let config = (if ladder_ms config = [] then config\<lparr>ladder_ms := [0]\<rparr> else config)
      in \<lparr>pc_mode = mode, pc_config = config, pc_rung = 0, pc_staging = bm_empty, pc_staged_bytes = 0,
          pc_window = [], pc_decay_anchor_ms = 0\<rparr>)"

definition decay :: "pressure_controller \<Rightarrow> u64 \<Rightarrow> pressure_controller" where
  "decay pc now =
     (let d = decay_idle_ms (pc_config pc)
      in if d = 0 \<or> now \<le> pc_decay_anchor_ms pc then pc
         else let idle = now - pc_decay_anchor_ms pc; steps = idle div d
           in if steps = 0 then pc
              else pc\<lparr>pc_rung := pc_rung pc - unat steps,
                pc_decay_anchor_ms := sat_add (pc_decay_anchor_ms pc) (sat_mul steps d)\<rparr>)"

definition observed_rate :: "pressure_controller \<Rightarrow> u64 \<Rightarrow> nat \<times> pressure_controller" where
  "observed_rate pc now =
     (let cutoff = sat_sub now RATE_WINDOW_MS;
          window = dropWhile (\<lambda>front. front < cutoff) (pc_window pc)
      in (length window, pc\<lparr>pc_window := window\<rparr>))"

definition escalate :: "pressure_controller \<Rightarrow> u64 \<Rightarrow> bool \<Rightarrow> pressure_controller" where
  "escalate pc now queue_high =
     (if pc_rung pc + 1 \<ge> length (ladder_ms (pc_config pc)) then pc
      else let (rate, pc) = observed_rate pc now
        in if real rate > escalate_events_per_sec (pc_config pc) \<or>
              pc_staged_bytes pc > max_staged_bytes (pc_config pc) \<or> queue_high
           then pc\<lparr>pc_rung := pc_rung pc + 1\<rparr> else pc)"

definition decide ::
    "pressure_controller \<Rightarrow> relpath \<Rightarrow> capture_input \<Rightarrow> u64 \<Rightarrow> u64 \<Rightarrow> pressure_controller \<times> capture_decision" where
  "decide pc path capture now interval =
     (if interval = 0 \<and> bm_get (pc_staging pc) path = None then (pc, Immediate)
      else let ladder_due = sat_add now interval;
               (due, prev_bytes) = (case bm_get (pc_staging pc) path of
                   Some existing \<Rightarrow> (min (sc_due_at_ms existing) ladder_due, sc_size_hint existing)
                 | None \<Rightarrow> (ladder_due, 0))
           in (pc\<lparr>pc_staged_bytes := sat_add (sat_sub (pc_staged_bytes pc) prev_bytes) (ci_size_hint capture),
                  pc_staging := bm_insert path
                    \<lparr>sc_state = ci_state capture, sc_version = ci_version capture,
                     sc_origin_is_local = ci_origin_is_local capture, sc_staged_at_ms = now,
                     sc_due_at_ms = due, sc_size_hint = ci_size_hint capture\<rparr> (pc_staging pc)\<rparr>,
               Deferred due))"

definition ladder_at :: "pressure_controller \<Rightarrow> u64 option" where
  "ladder_at pc =
     (if pc_rung pc < length (ladder_ms (pc_config pc)) then Some (ladder_ms (pc_config pc) ! pc_rung pc)
      else None)"

definition pc_note ::
    "pressure_controller \<Rightarrow> relpath \<Rightarrow> capture_input \<Rightarrow> u64 \<Rightarrow> (pressure_controller \<times> capture_decision) option" where
  "pc_note pc path capture now = (case pc_mode pc of
      Off \<Rightarrow> Some (pc, Dropped)
    | EveryChange \<Rightarrow> Some (pc, Immediate)
    | IntervalMs interval \<Rightarrow> Some (decide pc path capture now interval)
    | Adaptive \<Rightarrow>
        let pc = decay pc now;
            pc = pc\<lparr>pc_window := pc_window pc @ [now]\<rparr>;
            pc = escalate pc now False;
            pc = pc\<lparr>pc_decay_anchor_ms := now\<rparr>
        in (case ladder_at pc of
              None \<Rightarrow> None
            | Some step \<Rightarrow>
                Some (decide pc path capture now (max step (min_capture_window_ms (pc_config pc))))))"

definition signals :: "pressure_controller \<Rightarrow> u64 \<Rightarrow> u64 \<Rightarrow> pressure_controller" where
  "signals pc depth now =
     (if pc_mode pc = Adaptive then escalate (decay pc now) now (depth > QUEUE_HIGH_WATER) else pc)"

fun drain :: "pressure_controller \<Rightarrow> relpath list \<Rightarrow> pressure_controller \<times> (relpath \<times> staged_capture) list" where
  "drain pc [] = (pc, [])"
| "drain pc (path # paths) =
     (case bm_get (pc_staging pc) path of
        None \<Rightarrow> drain pc paths
      | Some cap \<Rightarrow>
          let (pc', out) = drain (pc\<lparr>pc_staging := bm_remove path (pc_staging pc),
                pc_staged_bytes := sat_sub (pc_staged_bytes pc) (sc_size_hint cap)\<rparr>) paths
          in (pc', (path, cap) # out))"

definition due_paths :: "pressure_controller \<Rightarrow> u64 \<Rightarrow> relpath list" where
  "due_paths pc now = map fst (filter (\<lambda>(_, cap). sc_due_at_ms cap \<le> now) (bm_entries (pc_staging pc)))"

definition poll_due :: "pressure_controller \<Rightarrow> u64 \<Rightarrow> pressure_controller \<times> (relpath \<times> staged_capture) list" where
  "poll_due pc now =
     (let pc = (if pc_mode pc = Adaptive then decay pc now else pc);
          (pc', out) = drain pc (due_paths pc now)
      in (pc', sort_key (\<lambda>(path, cap). (sc_due_at_ms cap, path)) out))"

definition next_due_ms :: "pressure_controller \<Rightarrow> u64 option" where
  "next_due_ms pc = (case map sc_due_at_ms (bm_values (pc_staging pc)) of
      [] \<Rightarrow> None | d # ds \<Rightarrow> Some (foldl min d ds))"

definition rung :: "pressure_controller \<Rightarrow> nat" where
  "rung pc = pc_rung pc"

definition staged_len :: "pressure_controller \<Rightarrow> nat" where
  "staged_len pc = bm_len (pc_staging pc)"

section \<open>Frame lemmas\<close>

lemma decay_frame [simp]:
  "pc_mode (decay pc now) = pc_mode pc" "pc_config (decay pc now) = pc_config pc"
  "pc_staging (decay pc now) = pc_staging pc" "pc_staged_bytes (decay pc now) = pc_staged_bytes pc"
  "pc_rung (decay pc now) \<le> pc_rung pc"
  by (simp_all add: decay_def Let_def)

lemma escalate_frame [simp]:
  "pc_mode (escalate pc now q) = pc_mode pc" "pc_config (escalate pc now q) = pc_config pc"
  "pc_staging (escalate pc now q) = pc_staging pc" "pc_staged_bytes (escalate pc now q) = pc_staged_bytes pc"
  by (simp_all add: escalate_def observed_rate_def Let_def)

lemma decide_frame [simp]:
  "pc_mode (fst (decide pc p c now i)) = pc_mode pc" "pc_config (fst (decide pc p c now i)) = pc_config pc"
  "pc_rung (fst (decide pc p c now i)) = pc_rung pc"
  by (simp_all add: decide_def Let_def split: option.splits)

section \<open>The invariant\<close>

definition pressure_wf :: "pressure_controller \<Rightarrow> bool" where
  "pressure_wf pc \<longleftrightarrow> pc_rung pc < length (ladder_ms (pc_config pc))"

lemma pressure_wf_new [tomo_inv]: "pressure_wf (pressure_new mode config)"
  by (auto simp: pressure_wf_def pressure_new_def Let_def)

lemma pressure_wf_decay [tomo_inv]: "pressure_wf pc \<Longrightarrow> pressure_wf (decay pc now)"
  unfolding pressure_wf_def decay_frame using decay_frame(5) [of pc now] by (rule le_less_trans)

lemma pressure_wf_escalate [tomo_inv]: "pressure_wf pc \<Longrightarrow> pressure_wf (escalate pc now q)"
  by (auto simp: pressure_wf_def escalate_def observed_rate_def Let_def)

lemma pressure_wf_decide [tomo_inv]: "pressure_wf pc \<Longrightarrow> pressure_wf (fst (decide pc p c now i))"
  by (simp add: pressure_wf_def)

lemma pressure_wf_update [simp]:
  "pressure_wf (pc\<lparr>pc_window := w\<rparr>) = pressure_wf pc" "pressure_wf (pc\<lparr>pc_decay_anchor_ms := t\<rparr>) = pressure_wf pc"
  "pressure_wf (pc\<lparr>pc_staging := s\<rparr>) = pressure_wf pc" "pressure_wf (pc\<lparr>pc_staged_bytes := b\<rparr>) = pressure_wf pc"
  by (simp_all add: pressure_wf_def)

lemma ladder_at_wf: "pressure_wf pc \<Longrightarrow> ladder_at pc = Some (ladder_ms (pc_config pc) ! pc_rung pc)"
  by (simp add: pressure_wf_def ladder_at_def)

text \<open>The interval a note is staged for, and the controller it is staged in.\<close>

definition noted :: "pressure_controller \<Rightarrow> u64 \<Rightarrow> pressure_controller" where
  "noted pc now = (if pc_mode pc = Adaptive
     then escalate ((decay pc now)\<lparr>pc_window := pc_window (decay pc now) @ [now]\<rparr>) now False
            \<lparr>pc_decay_anchor_ms := now\<rparr>
     else pc)"

definition interval :: "pressure_controller \<Rightarrow> u64 \<Rightarrow> u64" where
  "interval pc now = (case pc_mode pc of
      IntervalMs i \<Rightarrow> i
    | Adaptive \<Rightarrow> max (ladder_ms (pc_config pc) ! pc_rung (noted pc now)) (min_capture_window_ms (pc_config pc))
    | _ \<Rightarrow> 0)"

lemma noted_frame [simp]:
  "pc_mode (noted pc now) = pc_mode pc" "pc_config (noted pc now) = pc_config pc"
  "pc_staging (noted pc now) = pc_staging pc" "pc_staged_bytes (noted pc now) = pc_staged_bytes pc"
  by (simp_all add: noted_def)

lemma pressure_wf_noted [tomo_inv]: "pressure_wf pc \<Longrightarrow> pressure_wf (noted pc now)"
  by (simp add: noted_def tomo_inv)

lemma pc_note_cases:
  assumes "pressure_wf pc"
  shows "pc_note pc p c now = Some (case pc_mode pc of
      Off \<Rightarrow> (pc, Dropped) | EveryChange \<Rightarrow> (pc, Immediate)
    | _ \<Rightarrow> decide (noted pc now) p c now (interval pc now))"
  using pressure_wf_noted [OF assms, of now]
  by (cases "pc_mode pc") (simp_all add: pc_note_def noted_def interval_def ladder_at_wf Let_def)

lemma drain_frame:
  "pc_mode (fst (drain pc ps)) = pc_mode pc \<and> pc_config (fst (drain pc ps)) = pc_config pc \<and>
   pc_rung (fst (drain pc ps)) = pc_rung pc"
  by (induction pc ps rule: drain.induct) (simp_all add: Let_def split_beta split: option.splits)

definition decayed :: "pressure_controller \<Rightarrow> u64 \<Rightarrow> pressure_controller" where
  "decayed pc now = (if pc_mode pc = Adaptive then decay pc now else pc)"

lemma decayed_frame [simp]:
  "pc_mode (decayed pc now) = pc_mode pc" "pc_config (decayed pc now) = pc_config pc"
  "pc_staging (decayed pc now) = pc_staging pc" "pc_staged_bytes (decayed pc now) = pc_staged_bytes pc"
  by (simp_all add: decayed_def)

lemma pressure_wf_decayed [tomo_inv]: "pressure_wf pc \<Longrightarrow> pressure_wf (decayed pc now)"
  by (simp add: decayed_def tomo_inv)

lemma poll_due_drain:
  "fst (poll_due pc now) = fst (drain (decayed pc now) (due_paths pc now))"
  "snd (poll_due pc now) =
     sort_key (\<lambda>(path, cap). (sc_due_at_ms cap, path)) (snd (drain (decayed pc now) (due_paths pc now)))"
proof -
  have "due_paths (decayed pc now) now = due_paths pc now" by (simp add: due_paths_def)
  then show "fst (poll_due pc now) = fst (drain (decayed pc now) (due_paths pc now))"
    "snd (poll_due pc now) =
     sort_key (\<lambda>(path, cap). (sc_due_at_ms cap, path)) (snd (drain (decayed pc now) (due_paths pc now)))"
    unfolding poll_due_def Let_def decayed_def [symmetric] split_beta by simp_all
qed

lemma pressure_wf_poll [tomo_inv]: "pressure_wf pc \<Longrightarrow> pressure_wf (fst (poll_due pc now))"
  using pressure_wf_decayed [of pc now] drain_frame [of "decayed pc now" "due_paths pc now"]
  by (simp add: poll_due_drain pressure_wf_def)

lemma drain_staging:
  "bm_get (pc_staging (fst (drain pc ps))) q = (if q \<in> set ps then None else bm_get (pc_staging pc) q)"
  by (induction pc ps rule: drain.induct) (auto simp: Let_def split_beta split: option.splits)

lemma drain_out:
  "distinct ps \<Longrightarrow> (p, cap) \<in> set (snd (drain pc ps)) \<longleftrightarrow> p \<in> set ps \<and> bm_get (pc_staging pc) p = Some cap"
proof (induction pc ps rule: drain.induct)
  case (1 pc)
  then show ?case by simp
next
  case (2 pc path paths)
  then show ?case
    by (cases "bm_get (pc_staging pc) path") (auto simp: Let_def split_beta split: if_splits)
qed

lemma drain_out_distinct: "distinct ps \<Longrightarrow> distinct (map fst (snd (drain pc ps)))"
proof (induction pc ps rule: drain.induct)
  case (1 pc)
  then show ?case by simp
next
  case (2 pc path paths)
  show ?case
  proof (cases "bm_get (pc_staging pc) path")
    case None
    with 2 show ?thesis by simp
  next
    case (Some cap)
    let ?pc = "pc\<lparr>pc_staging := bm_remove path (pc_staging pc),
        pc_staged_bytes := sat_sub (pc_staged_bytes pc) (sc_size_hint cap)\<rparr>"
    have "path \<notin> fst ` set (snd (drain ?pc paths))"
      using 2(3) drain_out [of paths _ _ ?pc] by auto
    with 2 Some show ?thesis by (simp add: Let_def split_beta)
  qed
qed

lemma due_paths_mem:
  "p \<in> set (due_paths pc now) \<longleftrightarrow> (\<exists>cap. bm_get (pc_staging pc) p = Some cap \<and> sc_due_at_ms cap \<le> now)"
  by (auto simp: due_paths_def bm.mem_entries image_iff)

lemma due_paths_distinct: "distinct (due_paths pc now)"
  unfolding due_paths_def using bm.distinct_keys [of "pc_staging pc"] by (simp add: distinct_map_filter)

section \<open>Runs of the controller\<close>

datatype pressure_event = Note relpath capture_input u64 | Signals u64 u64 | Poll u64

definition pressure_step :: "pressure_controller \<Rightarrow> pressure_event \<Rightarrow> pressure_controller" where
  "pressure_step pc ev = (case ev of
      Note p c now \<Rightarrow> (case pc_note pc p c now of None \<Rightarrow> pc | Some (pc', _) \<Rightarrow> pc')
    | Signals depth now \<Rightarrow> signals pc depth now
    | Poll now \<Rightarrow> fst (poll_due pc now))"

lemma pc_note_wf [tomo_inv]: "pressure_wf pc \<Longrightarrow> pc_note pc p c now = Some (pc', d) \<Longrightarrow> pressure_wf pc'"
proof -
  assume wf: "pressure_wf pc" and n: "pc_note pc p c now = Some (pc', d)"
  have "pressure_wf (fst (decide (noted pc now) p c now (interval pc now)))"
    using wf by (simp add: tomo_inv)
  with wf n show "pressure_wf pc'"
    by (auto simp: pc_note_cases [OF wf] split: history_mode.splits)
qed

interpretation pressure: state_machine pressure_step pressure_wf "\<lambda>_. True"
proof
  fix pc ev assume wf: "pressure_wf pc"
  show "pressure_wf (pressure_step pc ev)"
  proof (cases ev)
    case (Note p c now)
    with wf show ?thesis by (auto simp: pressure_step_def split: option.splits intro: pc_note_wf)
  next
    case (Signals depth now)
    with wf show ?thesis by (simp add: pressure_step_def signals_def tomo_inv)
  next
    case (Poll now)
    with wf show ?thesis by (simp add: pressure_step_def tomo_inv)
  qed
qed

text \<open>The ladder index is always valid: whatever notes, signals and polls a new
  controller has seen (with any configuration, the empty ladder included), its rung is a
  rung of the ladder and the next note does not panic.\<close>

theorem ladder_index_valid:
  "pc_rung (foldl pressure_step (pressure_new mode config) evs) <
     length (ladder_ms (pc_config (foldl pressure_step (pressure_new mode config) evs))) \<and>
   (\<exists>pc' d. pc_note (foldl pressure_step (pressure_new mode config) evs) p c now = Some (pc', d))"
proof -
  let ?pc = "foldl pressure_step (pressure_new mode config) evs"
  have wf: "pressure_wf ?pc" by (rule pressure.run_inv) (simp_all add: tomo_inv)
  moreover have "\<exists>pc' d. pc_note ?pc p c now = Some (pc', d)"
    unfolding pc_note_cases [OF wf] by (metis prod.collapse)
  ultimately show ?thesis by (simp add: pressure_wf_def)
qed

section \<open>Deadlines\<close>

lemma decide_staged:
  assumes "i \<noteq> 0 \<or> bm_get (pc_staging pc) p \<noteq> None"
  shows "\<exists>s'. bm_get (pc_staging (fst (decide pc p c now i))) p = Some s' \<and>
    sc_state s' = ci_state c \<and> sc_version s' = ci_version c \<and>
    sc_due_at_ms s' = (case bm_get (pc_staging pc) p of
        None \<Rightarrow> sat_add now i | Some s \<Rightarrow> min (sc_due_at_ms s) (sat_add now i)) \<and>
    snd (decide pc p c now i) = Deferred (sc_due_at_ms s')"
  using assms by (auto simp: decide_def Let_def split: option.splits)

lemma decide_other: "q \<noteq> p \<Longrightarrow> bm_get (pc_staging (fst (decide pc p c now i))) q = bm_get (pc_staging pc) q"
  by (auto simp: decide_def Let_def split: option.splits)

lemma decide_immediate:
  "i = 0 \<and> bm_get (pc_staging pc) p = None \<Longrightarrow> decide pc p c now i = (pc, Immediate)"
  by (simp add: decide_def)

text \<open>Bounded staleness: a note on a path with a staged capture replaces its content by
  the newest and never extends its deadline; the deadline is also never later than one
  interval from now. Other paths keep their captures.\<close>

theorem deadline_never_extended:
  assumes "pressure_wf pc" "bm_get (pc_staging pc) p = Some s" "pc_mode pc \<notin> {Off, EveryChange}"
  shows "\<exists>pc' s'. pc_note pc p c now = Some (pc', Deferred (sc_due_at_ms s')) \<and>
    bm_get (pc_staging pc') p = Some s' \<and> sc_state s' = ci_state c \<and> sc_version s' = ci_version c \<and>
    sc_due_at_ms s' \<le> sc_due_at_ms s \<and> sc_due_at_ms s' \<le> sat_add now (interval pc now) \<and>
    (\<forall>q. q \<noteq> p \<longrightarrow> bm_get (pc_staging pc') q = bm_get (pc_staging pc) q)"
proof -
  let ?r = "decide (noted pc now) p c now (interval pc now)"
  have r: "pc_note pc p c now = Some ?r"
    using assms(3) by (auto simp: pc_note_cases [OF assms(1)] split: history_mode.splits)
  obtain s' where s': "bm_get (pc_staging (fst ?r)) p = Some s'" "sc_state s' = ci_state c"
    "sc_version s' = ci_version c" "sc_due_at_ms s' = min (sc_due_at_ms s) (sat_add now (interval pc now))"
    "snd ?r = Deferred (sc_due_at_ms s')"
    using decide_staged [of "interval pc now" "noted pc now" p c now] assms(2) by auto
  have "q \<noteq> p \<Longrightarrow> bm_get (pc_staging (fst ?r)) q = bm_get (pc_staging pc) q" for q
    by (simp add: decide_other)
  moreover have "?r = (fst ?r, Deferred (sc_due_at_ms s'))" using s'(5) by (metis prod.collapse)
  ultimately show ?thesis using r s' by (intro exI [of _ "fst ?r"] exI [of _ s']) auto
qed

definition demo_capture :: capture_input where
  "demo_capture = \<lparr>ci_state = Tombstone, ci_version = vc_new, ci_origin_is_local = True, ci_size_hint = 3\<rparr>"

definition demo_controller :: pressure_controller where
  "demo_controller = fst (decide (pressure_new (IntervalMs 100) pressure_config_default) (RelPath ''f'') demo_capture 10 100)"

lemma demo_controller_wf: "pressure_wf demo_controller" "pc_mode demo_controller = IntervalMs 100"
  unfolding demo_controller_def by (intro pressure_wf_decide pressure_wf_new) (simp add: pressure_new_def Let_def)

lemma demo_controller_staging:
  "pc_staging demo_controller = bm_insert (RelPath ''f'')
     \<lparr>sc_state = Tombstone, sc_version = vc_new, sc_origin_is_local = True, sc_staged_at_ms = 10,
      sc_due_at_ms = 110, sc_size_hint = 3\<rparr> bm_empty"
  by (simp add: demo_controller_def decide_def demo_capture_def pressure_new_def Let_def sat_add_def)

theorem deadline_never_extended_witness:
  "\<exists>pc' s'. pc_note demo_controller (RelPath ''f'') demo_capture 90 = Some (pc', Deferred (sc_due_at_ms s')) \<and>
    bm_get (pc_staging pc') (RelPath ''f'') = Some s' \<and> sc_due_at_ms s' \<le> 110"
  using deadline_never_extended [OF demo_controller_wf(1), of "RelPath ''f''" _ demo_capture 90] demo_controller_wf(2)
  by (force simp: demo_controller_staging)

text \<open>\<open>poll_due\<close> is exact: it returns precisely the staged captures whose deadline has
  passed, in ascending order of deadline and path, each path once, and leaves precisely
  the others staged.\<close>

theorem poll_due_exact:
  "(set (snd (poll_due pc now)) = {(p, cap). bm_get (pc_staging pc) p = Some cap \<and> sc_due_at_ms cap \<le> now}) \<and>
   (\<forall>p. bm_get (pc_staging (fst (poll_due pc now))) p =
      (case bm_get (pc_staging pc) p of
         None \<Rightarrow> None | Some cap \<Rightarrow> if sc_due_at_ms cap \<le> now then None else Some cap)) \<and>
   distinct (map fst (snd (poll_due pc now))) \<and>
   sorted (map (\<lambda>(p, cap). (sc_due_at_ms cap, p)) (snd (poll_due pc now)))"
proof (intro conjI allI)
  let ?pc = "decayed pc now" and ?ps = "due_paths pc now"
  show "set (snd (poll_due pc now)) = {(p, cap). bm_get (pc_staging pc) p = Some cap \<and> sc_due_at_ms cap \<le> now}"
  proof (intro set_eqI)
    fix pc' :: "relpath \<times> staged_capture"
    obtain p cap where pc': "pc' = (p, cap)" by (cases pc')
    show "pc' \<in> set (snd (poll_due pc now)) \<longleftrightarrow>
        pc' \<in> {(p, cap). bm_get (pc_staging pc) p = Some cap \<and> sc_due_at_ms cap \<le> now}"
      unfolding pc' poll_due_drain set_sort drain_out [OF due_paths_distinct] due_paths_mem by auto
  qed
  show "distinct (map fst (snd (poll_due pc now)))"
  proof -
    have "mset (snd (poll_due pc now)) = mset (snd (drain ?pc ?ps))" by (simp add: poll_due_drain)
    then have "mset (map fst (snd (poll_due pc now))) = mset (map fst (snd (drain ?pc ?ps)))"
      by (metis mset_map)
    then show ?thesis using drain_out_distinct [OF due_paths_distinct] mset_eq_imp_distinct_iff by blast
  qed
  show "sorted (map (\<lambda>(p, cap). (sc_due_at_ms cap, p)) (snd (poll_due pc now)))"
    unfolding poll_due_drain by (rule sorted_sort_key)
  show "bm_get (pc_staging (fst (poll_due pc now))) p =
      (case bm_get (pc_staging pc) p of
         None \<Rightarrow> None | Some cap \<Rightarrow> if sc_due_at_ms cap \<le> now then None else Some cap)" for p
    unfolding poll_due_drain drain_staging due_paths_mem by (auto split: option.splits)
qed

section \<open>No final write is lost\<close>

text \<open>The controller with the log of recorded versions the caller keeps: an immediate note
  and every capture returned by a poll is recorded. \<open>hr_latest\<close> remembers, per path, the
  version last noted.\<close>

type_synonym recorded = "entry_state \<times> vector_clock"

record history_run =
  hr_pc :: pressure_controller
  hr_log :: "(relpath \<times> recorded) list"
  hr_latest :: "relpath \<rightharpoonup> recorded"

definition flushed :: "(relpath \<times> staged_capture) list \<Rightarrow> (relpath \<times> recorded) list" where
  "flushed out = map (\<lambda>(p, s). (p, (sc_state s, sc_version s))) out"

definition history_step :: "history_run \<Rightarrow> pressure_event \<Rightarrow> history_run" where
  "history_step h ev = (case ev of
      Note p c now \<Rightarrow> (case pc_note (hr_pc h) p c now of
          None \<Rightarrow> h
        | Some (pc, d) \<Rightarrow> h\<lparr>hr_pc := pc,
            hr_log := hr_log h @ (if d = Immediate then [(p, (ci_state c, ci_version c))] else []),
            hr_latest := (hr_latest h)(p \<mapsto> (ci_state c, ci_version c))\<rparr>)
    | Signals depth now \<Rightarrow> h\<lparr>hr_pc := signals (hr_pc h) depth now\<rparr>
    | Poll now \<Rightarrow> let (pc, out) = poll_due (hr_pc h) now in h\<lparr>hr_pc := pc, hr_log := hr_log h @ flushed out\<rparr>)"

definition history_new :: "history_mode \<Rightarrow> pressure_config \<Rightarrow> history_run" where
  "history_new mode config = \<lparr>hr_pc = pressure_new mode config, hr_log = [], hr_latest = (\<lambda>_. None)\<rparr>"

definition last_recorded :: "(relpath \<times> recorded) list \<Rightarrow> relpath \<Rightarrow> recorded option" where
  "last_recorded l p = map_of (rev l) p"

definition kept :: "pressure_controller \<Rightarrow> (relpath \<times> recorded) list \<Rightarrow> (relpath \<rightharpoonup> recorded) \<Rightarrow> relpath \<Rightarrow> bool" where
  "kept pc l latest p \<longleftrightarrow> (case bm_get (pc_staging pc) p of
      Some s \<Rightarrow> latest p = Some (sc_state s, sc_version s)
    | None \<Rightarrow> last_recorded l p = latest p)"

definition history_inv :: "history_run \<Rightarrow> bool" where
  "history_inv h \<longleftrightarrow> pressure_wf (hr_pc h) \<and> pc_mode (hr_pc h) \<noteq> Off \<and>
     (pc_mode (hr_pc h) = EveryChange \<longrightarrow> (\<forall>p. bm_get (pc_staging (hr_pc h)) p = None)) \<and>
     (\<forall>p. kept (hr_pc h) (hr_log h) (hr_latest h) p)"

lemma kept_None: "bm_get (pc_staging pc) p = None \<Longrightarrow> kept pc l latest p \<longleftrightarrow> last_recorded l p = latest p"
  and kept_Some: "bm_get (pc_staging pc) p = Some s \<Longrightarrow> kept pc l latest p \<longleftrightarrow> latest p = Some (sc_state s, sc_version s)"
  by (simp_all add: kept_def)

lemma kept_cong: "pc_staging pc = pc_staging pc' \<Longrightarrow> kept pc l latest p \<longleftrightarrow> kept pc' l latest p"
  by (simp add: kept_def)

lemma history_inv_kept: "history_inv h \<Longrightarrow> kept (hr_pc h) (hr_log h) (hr_latest h) p"
  by (simp add: history_inv_def)

lemma last_recorded_append:
  "last_recorded (l @ new) p = (case last_recorded new p of None \<Rightarrow> last_recorded l p | Some r \<Rightarrow> Some r)"
  by (simp add: last_recorded_def map_add_def split: option.splits)

lemma last_recorded_single: "last_recorded [(p, r)] q = (if q = p then Some r else None)"
  by (simp add: last_recorded_def)

lemma last_recorded_nil [simp]: "last_recorded [] p = None"
  by (simp add: last_recorded_def)

lemma last_recorded_flushed:
  assumes "distinct (map fst out)"
  shows "last_recorded (flushed out) p = Some r \<longleftrightarrow> (\<exists>s. (p, s) \<in> set out \<and> r = (sc_state s, sc_version s))"
proof -
  have "map fst (flushed out) = map fst out" by (auto simp: flushed_def)
  moreover have "map fst (rev (flushed out)) = rev (map fst (flushed out))" by (rule rev_map [symmetric])
  ultimately have d: "distinct (map fst (rev (flushed out)))" using assms by simp
  show ?thesis unfolding last_recorded_def map_of_eq_Some_iff [OF d] by (auto simp: flushed_def)
qed

lemma poll_due_facts:
  shows poll_due_out: "(p, s) \<in> set (snd (poll_due pc now)) \<longleftrightarrow>
      bm_get (pc_staging pc) p = Some s \<and> sc_due_at_ms s \<le> now"
    and poll_due_rest: "bm_get (pc_staging (fst (poll_due pc now))) p =
      (case bm_get (pc_staging pc) p of
         None \<Rightarrow> None | Some cap \<Rightarrow> if sc_due_at_ms cap \<le> now then None else Some cap)"
    and poll_due_distinct: "distinct (map fst (snd (poll_due pc now)))"
    and poll_due_mode: "pc_mode (fst (poll_due pc now)) = pc_mode pc"
proof -
  show "(p, s) \<in> set (snd (poll_due pc now)) \<longleftrightarrow> bm_get (pc_staging pc) p = Some s \<and> sc_due_at_ms s \<le> now"
    unfolding poll_due_drain set_sort drain_out [OF due_paths_distinct] due_paths_mem by auto
  show "bm_get (pc_staging (fst (poll_due pc now))) p =
      (case bm_get (pc_staging pc) p of
         None \<Rightarrow> None | Some cap \<Rightarrow> if sc_due_at_ms cap \<le> now then None else Some cap)"
    unfolding poll_due_drain drain_staging due_paths_mem by (auto split: option.splits)
  have "mset (map fst (snd (poll_due pc now))) = mset (map fst (snd (drain (decayed pc now) (due_paths pc now))))"
    by (simp add: poll_due_drain)
  then show "distinct (map fst (snd (poll_due pc now)))"
    using drain_out_distinct [OF due_paths_distinct] mset_eq_imp_distinct_iff by blast
  show "pc_mode (fst (poll_due pc now)) = pc_mode pc"
    unfolding poll_due_drain using drain_frame by simp
qed

lemma history_note_inv:
  assumes inv: "history_inv h" and n: "pc_note (hr_pc h) p c now = Some (pc, d)"
  shows "history_inv (history_step h (Note p c now))"
proof -
  let ?pc = "hr_pc h" and ?r = "(ci_state c, ci_version c)"
  have wf: "pressure_wf ?pc" "pc_mode ?pc \<noteq> Off" using inv by (simp_all add: history_inv_def)
  have wf': "pressure_wf pc" by (rule pc_note_wf [OF wf(1) n])
  note old = history_inv_kept [OF inv]
  consider (imm) "d = Immediate" "pc_mode pc = pc_mode ?pc" "pc_staging pc = pc_staging ?pc" "bm_get (pc_staging ?pc) p = None"
    | (stage) s' where "d \<noteq> Immediate" "pc_mode pc = pc_mode ?pc" "pc_mode pc \<noteq> EveryChange"
        "bm_get (pc_staging pc) p = Some s'" "sc_state s' = ci_state c" "sc_version s' = ci_version c"
        "\<And>q. q \<noteq> p \<Longrightarrow> bm_get (pc_staging pc) q = bm_get (pc_staging ?pc) q"
  proof (cases "pc_mode ?pc = EveryChange")
    case True
    with n inv show ?thesis by (intro imm) (simp_all add: pc_note_cases [OF wf(1)] history_inv_def)
  next
    case False
    let ?d = "decide (noted ?pc now) p c now (interval ?pc now)"
    have r: "?d = (pc, d)"
      using n False wf(2) by (auto simp: pc_note_cases [OF wf(1)] split: history_mode.splits)
    show ?thesis
    proof (cases "interval ?pc now = 0 \<and> bm_get (pc_staging ?pc) p = None")
      case True
      with r have "d = Immediate" "pc = noted ?pc now" by (simp_all add: decide_immediate)
      with True show ?thesis by (intro imm) simp_all
    next
      case staged: False
      have "pc_mode pc = pc_mode ?pc" using decide_frame(1) [of "noted ?pc now"] r by (metis fst_conv noted_frame(1))
      then show ?thesis
        using stage staged decide_staged [of "interval ?pc now" "noted ?pc now" p c now] r False
          decide_other [of _ p "noted ?pc now" c now "interval ?pc now"]
        by fastforce
    qed
  qed
  then show ?thesis
  proof cases
    case imm
    have "kept pc (hr_log h @ [(p, ?r)]) ((hr_latest h)(p \<mapsto> ?r)) q" for q
      using old [of q] imm(3,4)
      by (cases "q = p"; cases "bm_get (pc_staging pc) q")
        (simp_all add: kept_def last_recorded_append last_recorded_single)
    with inv wf' imm n show ?thesis by (simp add: history_inv_def history_step_def)
  next
    case stage
    have "kept pc (hr_log h) ((hr_latest h)(p \<mapsto> ?r)) q" for q
      using old [of q] stage
      by (cases "q = p"; cases "bm_get (pc_staging pc) q") (simp_all add: kept_def)
    with inv wf' stage n wf(2) show ?thesis by (simp add: history_inv_def history_step_def)
  qed
qed

lemma history_poll_inv: "history_inv h \<Longrightarrow> history_inv (history_step h (Poll now))"
proof -
  assume inv: "history_inv h"
  let ?pc = "hr_pc h" and ?out = "snd (poll_due (hr_pc h) now)" and ?pc' = "fst (poll_due (hr_pc h) now)"
  have wf': "pressure_wf ?pc'" using inv by (simp add: history_inv_def tomo_inv)
  have "kept ?pc' (hr_log h @ flushed ?out) (hr_latest h) p" for p
  proof (cases "bm_get (pc_staging ?pc) p")
    case None
    then have "last_recorded (flushed ?out) p = None"
      using last_recorded_flushed [OF poll_due_distinct, of ?pc now p] poll_due_out [of p _ ?pc now]
      by (cases "last_recorded (flushed ?out) p") auto
    with None history_inv_kept [OF inv, of p] show ?thesis
      by (simp add: kept_def poll_due_rest last_recorded_append)
  next
    case (Some s)
    then have latest: "hr_latest h p = Some (sc_state s, sc_version s)"
      using history_inv_kept [OF inv, of p] by (simp add: kept_def)
    show ?thesis
    proof (cases "sc_due_at_ms s \<le> now")
      case True
      then have "last_recorded (flushed ?out) p = Some (sc_state s, sc_version s)"
        using Some last_recorded_flushed [OF poll_due_distinct, of ?pc now p] poll_due_out [of p _ ?pc now] by auto
      with True Some latest show ?thesis by (simp add: kept_def poll_due_rest last_recorded_append)
    next
      case False
      with Some latest show ?thesis by (simp add: kept_def poll_due_rest)
    qed
  qed
  with inv wf' show ?thesis
    by (auto simp: history_inv_def history_step_def split_beta poll_due_mode poll_due_rest)
qed

interpretation history: state_machine history_step history_inv "\<lambda>_. True"
proof
  fix h ev assume inv: "history_inv h"
  show "history_inv (history_step h ev)"
  proof (cases ev)
    case (Note p c now)
    obtain r where n: "pc_note (hr_pc h) p c now = Some r"
      using inv by (auto simp: history_inv_def pc_note_cases)
    then show ?thesis unfolding Note using history_note_inv [OF inv, of p c now "fst r" "snd r"] by simp
  next
    case (Signals depth now)
    let ?pc = "signals (hr_pc h) depth now"
    have st: "pc_staging ?pc = pc_staging (hr_pc h)" "pc_mode ?pc = pc_mode (hr_pc h)"
      by (simp_all add: signals_def)
    moreover have "pressure_wf ?pc" using inv by (simp add: history_inv_def signals_def tomo_inv)
    ultimately show ?thesis
      using inv kept_cong [OF st(1), of "hr_log h" "hr_latest h"]
      unfolding Signals history_step_def history_inv_def by auto
  next
    case (Poll now)
    with inv history_poll_inv show ?thesis by simp
  qed
qed

lemma history_inv_new: "mode \<noteq> Off \<Longrightarrow> history_inv (history_new mode config)"
  by (simp add: history_inv_def history_new_def tomo_inv kept_def) (simp add: pressure_new_def Let_def)

text \<open>C38: No final write is lost (invariant 4): unless history is off, after any sequence of
  notes, signals and polls the version last noted of every path is the one last recorded
  or is still staged; and a poll at or after every staged deadline leaves it recorded.\<close>

theorem final_write_never_lost:
  fixes evs mode config
  defines "h \<equiv> foldl history_step (history_new mode config) evs"
  assumes "mode \<noteq> Off"
  shows "(\<forall>p r. hr_latest h p = Some r \<longrightarrow> last_recorded (hr_log h) p = Some r \<or>
      (\<exists>s. bm_get (pc_staging (hr_pc h)) p = Some s \<and> r = (sc_state s, sc_version s))) \<and>
    ((\<forall>p s. bm_get (pc_staging (hr_pc h)) p = Some s \<longrightarrow> sc_due_at_ms s \<le> now) \<longrightarrow>
      (\<forall>p. last_recorded (hr_log (history_step h (Poll now))) p = hr_latest h p))"
proof -
  have inv: "history_inv h"
    unfolding h_def by (rule history.run_inv) (simp_all add: history_inv_new assms(2))
  have now: "hr_latest h p = Some r \<Longrightarrow> last_recorded (hr_log h) p = Some r \<or>
      (\<exists>s. bm_get (pc_staging (hr_pc h)) p = Some s \<and> r = (sc_state s, sc_version s))" for p r
    using history_inv_kept [OF inv, of p] by (cases "bm_get (pc_staging (hr_pc h)) p") (simp_all add: kept_def)
  have "last_recorded (hr_log (history_step h (Poll now))) p = hr_latest h p"
    if due: "\<forall>p s. bm_get (pc_staging (hr_pc h)) p = Some s \<longrightarrow> sc_due_at_ms s \<le> now" for p
  proof -
    let ?h = "history_step h (Poll now)"
    have pc: "hr_pc ?h = fst (poll_due (hr_pc h) now)" and latest: "hr_latest ?h = hr_latest h"
      by (simp_all add: history_step_def split_beta)
    have "bm_get (pc_staging (hr_pc ?h)) p = None"
      unfolding pc poll_due_rest using due by (auto split: option.splits)
    then show ?thesis
      using history_inv_kept [OF history_poll_inv [OF inv, of now], of p] latest by (simp add: kept_None)
  qed
  with now show ?thesis by blast
qed

theorem final_write_never_lost_witness:
  "last_recorded (hr_log (history_step (history_step (history_new (IntervalMs 100) pressure_config_default)
     (Note (RelPath ''f'') demo_capture 10)) (Poll 110))) (RelPath ''f'') = Some (Tombstone, vc_new)"
proof -
  let ?h = "foldl history_step (history_new (IntervalMs 100) pressure_config_default) [Note (RelPath ''f'') demo_capture 10]"
  have h: "hr_pc ?h = demo_controller" "hr_latest ?h (RelPath ''f'') = Some (Tombstone, vc_new)"
    by (simp_all add: history_step_def history_new_def pc_note_def pressure_new_def Let_def demo_controller_def
        split_beta demo_capture_def)
  have "\<forall>p s. bm_get (pc_staging (hr_pc ?h)) p = Some s \<longrightarrow> sc_due_at_ms s \<le> 110"
    unfolding h demo_controller_staging by (auto split: if_splits)
  then show ?thesis
    using final_write_never_lost [of "IntervalMs 100" pressure_config_default "[Note (RelPath ''f'') demo_capture 10]" 110] h(2)
    by simp
qed

section \<open>Staged bytes and lazy decay\<close>

definition staged_total :: "(relpath, staged_capture) btree_map \<Rightarrow> nat" where
  "staged_total m = (\<Sum>p \<in> dom (bm_get m). unat (sc_size_hint (the (bm_get m p))))"

lemma finite_staging [simp]: "finite (dom (bm_get m))"
  using set_bm_keys [of m] by (metis List.finite_set)

lemma staged_total_empty [simp]: "staged_total bm_empty = 0"
proof -
  have "dom (bm_get (bm_empty :: (relpath, staged_capture) btree_map)) = {}" by (auto simp: dom_def)
  then show ?thesis by (simp add: staged_total_def)
qed

lemma staged_total_remove:
  assumes "bm_get m p = Some s"
  shows "staged_total m = staged_total (bm_remove p m) + unat (sc_size_hint s)"
proof -
  have d: "dom (bm_get (bm_remove p m)) = dom (bm_get m) - {p}" by (auto simp: dom_def)
  have "staged_total m = unat (sc_size_hint (the (bm_get m p))) +
      (\<Sum>q \<in> dom (bm_get m) - {p}. unat (sc_size_hint (the (bm_get m q))))"
    unfolding staged_total_def using assms by (intro sum.remove) auto
  also have "(\<Sum>q \<in> dom (bm_get m) - {p}. unat (sc_size_hint (the (bm_get m q)))) = staged_total (bm_remove p m)"
    unfolding staged_total_def d by (intro sum.cong) auto
  finally show ?thesis using assms by simp
qed

lemma staged_total_insert:
  "staged_total (bm_insert p s m) = staged_total (bm_remove p m) + unat (sc_size_hint s)"
proof -
  have "bm_remove p (bm_insert p s m) = bm_remove p m" by (rule bm_eqI) simp
  then show ?thesis using staged_total_remove [of "bm_insert p s m" p s] by simp
qed

lemma staged_total_absent: "bm_get m p = None \<Longrightarrow> bm_remove p m = m"
  by (rule bm.remove_absent)

definition bytes_exact :: "pressure_controller \<Rightarrow> bool" where
  "bytes_exact pc \<longleftrightarrow> unat (pc_staged_bytes pc) = staged_total (pc_staging pc)"

lemma drain_exact: "bytes_exact pc \<Longrightarrow> bytes_exact (fst (drain pc ps))"
proof (induction pc ps rule: drain.induct)
  case (1 pc)
  then show ?case by simp
next
  case (2 pc path paths)
  show ?case
  proof (cases "bm_get (pc_staging pc) path")
    case None
    with 2 show ?thesis by simp
  next
    case (Some cap)
    have "bytes_exact (pc\<lparr>pc_staging := bm_remove path (pc_staging pc),
        pc_staged_bytes := sat_sub (pc_staged_bytes pc) (sc_size_hint cap)\<rparr>)"
      using 2(3) staged_total_remove [OF Some] by (simp add: bytes_exact_def unat_sat_sub)
    with 2 Some show ?thesis by (simp add: Let_def split_beta)
  qed
qed

lemma decide_exact:
  assumes "bytes_exact pc" "staged_total (pc_staging (fst (decide pc p c now i))) < 2 ^ 64"
  shows "bytes_exact (fst (decide pc p c now i))"
proof (cases "i = 0 \<and> bm_get (pc_staging pc) p = None")
  case True
  with assms(1) show ?thesis by (simp add: decide_immediate)
next
  case False
  then show ?thesis
    using assms staged_total_remove [of "pc_staging pc" p]
    by (cases "bm_get (pc_staging pc) p")
      (auto simp: decide_def Let_def bytes_exact_def staged_total_insert unat_sat_add unat_sat_sub staged_total_absent)
qed

text \<open>The staged-bytes signal is exact: a new controller counts zero, a note keeps the
  count equal to the sum of the staged size hints as long as that sum fits u64 (beyond
  it the counter saturates), and signals and polls always keep it.\<close>

theorem staged_bytes_exact:
  assumes "pressure_wf pc" "bytes_exact pc"
  shows "bytes_exact (pressure_new mode config) \<and> bytes_exact (signals pc depth now) \<and>
    bytes_exact (fst (poll_due pc now)) \<and>
    (\<forall>pc' d. pc_note pc p c now = Some (pc', d) \<longrightarrow> staged_total (pc_staging pc') < 2 ^ 64 \<longrightarrow> bytes_exact pc')"
proof -
  have frame: "bytes_exact (decayed pc now)" "bytes_exact (noted pc now)"
    using assms(2) by (simp_all add: bytes_exact_def)
  have "bytes_exact pc'" if n: "pc_note pc p c now = Some (pc', d)" and fits: "staged_total (pc_staging pc') < 2 ^ 64"
    for pc' d
  proof (cases "pc_mode pc \<in> {Off, EveryChange}")
    case True
    with n assms show ?thesis by (auto simp: pc_note_cases)
  next
    case False
    with n assms(1) have "pc' = fst (decide (noted pc now) p c now (interval pc now))"
      by (auto simp: pc_note_cases split: history_mode.splits)
    with fits frame(2) show ?thesis by (simp add: decide_exact)
  qed
  moreover have "bytes_exact (fst (poll_due pc now))"
    unfolding poll_due_drain by (rule drain_exact [OF frame(1)])
  moreover have "bytes_exact (pressure_new mode config)"
    by (simp add: bytes_exact_def pressure_new_def Let_def)
  moreover have "bytes_exact (signals pc depth now)"
    using assms(2) by (simp add: bytes_exact_def signals_def)
  ultimately show ?thesis by blast
qed

theorem staged_bytes_exact_witness: "bytes_exact (fst (poll_due demo_controller 110))"
proof -
  have "bytes_exact demo_controller"
    unfolding bytes_exact_def demo_controller_staging staged_total_insert
    by (simp add: staged_total_absent demo_controller_def decide_def pressure_new_def Let_def demo_capture_def sat_add_def sat_sub_def)
  then show ?thesis
    using staged_bytes_exact [OF demo_controller_wf(1), of Off pressure_config_default 0 110] by blast
qed

lemma div_diff_steps: "0 < d \<Longrightarrow> k * d \<le> x \<Longrightarrow> (x - k * d) div d = x div d - (k :: nat)"
proof -
  assume d: "0 < d" and le: "k * d \<le> x"
  then obtain r where "x = k * d + r" using le_Suc_ex by blast
  with d show ?thesis by simp
qed

lemma decay_steps:
  assumes "decay_idle_ms (pc_config pc) \<noteq> 0"
  shows "pc_rung (decay pc now) =
      pc_rung pc - (unat now - unat (pc_decay_anchor_ms pc)) div unat (decay_idle_ms (pc_config pc))"
    and "unat (pc_decay_anchor_ms (decay pc now)) = unat (pc_decay_anchor_ms pc) +
      (unat now - unat (pc_decay_anchor_ms pc)) div unat (decay_idle_ms (pc_config pc)) *
        unat (decay_idle_ms (pc_config pc))"
proof -
  let ?d = "decay_idle_ms (pc_config pc)" and ?a = "pc_decay_anchor_ms pc"
  let ?steps = "(now - ?a) div ?d"
  have d: "0 < unat ?d" using assms by (simp add: unat_gt_0)
  show "pc_rung (decay pc now) = pc_rung pc - (unat now - unat ?a) div unat ?d"
    and "unat (pc_decay_anchor_ms (decay pc now)) = unat ?a + (unat now - unat ?a) div unat ?d * unat ?d"
  proof -
    show "pc_rung (decay pc now) = pc_rung pc - (unat now - unat ?a) div unat ?d"
    proof (cases "now \<le> ?a")
      case True
      then show ?thesis by (simp add: decay_def word_le_nat_alt)
    next
      case False
      then have "unat (now - ?a) = unat now - unat ?a" by (simp add: unat_sub word_le_nat_alt)
      then have "unat ?steps = (unat now - unat ?a) div unat ?d" by (simp add: unat_div)
      with False assms show ?thesis by (auto simp: decay_def Let_def)
    qed
    show "unat (pc_decay_anchor_ms (decay pc now)) = unat ?a + (unat now - unat ?a) div unat ?d * unat ?d"
    proof (cases "now \<le> ?a")
      case True
      then show ?thesis by (simp add: decay_def word_le_nat_alt)
    next
      case False
      then have sub: "unat (now - ?a) = unat now - unat ?a" "unat ?a \<le> unat now"
        by (simp_all add: unat_sub word_le_nat_alt)
      then have steps: "unat ?steps = (unat now - unat ?a) div unat ?d" by (simp add: unat_div)
      have le: "(unat now - unat ?a) div unat ?d * unat ?d \<le> unat now - unat ?a" by (rule div_times_less_eq_dividend)
      moreover have "unat now \<le> 18446744073709551615" by simp
      ultimately have fits: "(unat now - unat ?a) div unat ?d * unat ?d \<le> 18446744073709551615"
        "unat ?a + (unat now - unat ?a) div unat ?d * unat ?d \<le> 18446744073709551615"
        using sub(2) by linarith+
      have "unat (sat_mul ?steps ?d) = (unat now - unat ?a) div unat ?d * unat ?d"
        using fits(1) by (simp add: unat_sat_mul steps min_def)
      then have "unat (sat_add ?a (sat_mul ?steps ?d)) = unat ?a + (unat now - unat ?a) div unat ?d * unat ?d"
        using fits(2) by (simp add: unat_sat_add min_def)
      moreover have "(unat now - unat ?a) div unat ?d = 0" if "?steps = 0" using steps that by simp
      ultimately show ?thesis using False assms by (auto simp: decay_def Let_def)
    qed
  qed
qed

text \<open>Decay is lazy and exact: evaluating it at an earlier time first makes no
  difference, so the rung depends on elapsed idle time and not on how often the
  controller is polled; in particular a second evaluation at the same time is a no-op.\<close>

theorem decay_lazy:
  assumes "t \<le> now"
  shows "decay (decay pc t) now = decay pc now"
proof (cases "decay_idle_ms (pc_config pc) = 0")
  case True
  then show ?thesis by (simp add: decay_def Let_def)
next
  case False
  let ?d = "unat (decay_idle_ms (pc_config pc))" and ?a = "unat (pc_decay_anchor_ms pc)"
  have d: "0 < ?d" using False by (simp add: unat_gt_0)
  let ?s = "(unat t - ?a) div ?d" and ?n = "(unat now - ?a) div ?d"
  have cfg: "decay_idle_ms (pc_config (decay pc t)) \<noteq> 0" using False by simp
  have t: "unat t \<le> unat now" using assms by (simp add: word_le_nat_alt)
  have sn: "?s \<le> ?n" using t by (intro div_le_mono) simp
  have "?s * ?d \<le> unat t - ?a" by (rule div_times_less_eq_dividend)
  then have "?s * ?d \<le> unat now - ?a" using t by linarith
  then have rest: "(unat now - (?a + ?s * ?d)) div ?d = ?n - ?s"
    using div_diff_steps [OF d, of ?s "unat now - ?a"] by simp
  have "pc_rung (decay (decay pc t) now) = pc_rung (decay pc now)"
    unfolding decay_steps(1) [OF cfg] decay_steps [OF False] decay_frame rest using sn by simp
  moreover have "unat (pc_decay_anchor_ms (decay (decay pc t) now)) = unat (pc_decay_anchor_ms (decay pc now))"
  proof -
    have "?s * ?d + (?n - ?s) * ?d = ?n * ?d" using sn by (simp flip: add_mult_distrib)
    then show ?thesis
      unfolding decay_steps(2) [OF cfg] decay_steps [OF False] decay_frame rest by (simp add: ac_simps)
  qed
  then have "pc_decay_anchor_ms (decay (decay pc t) now) = pc_decay_anchor_ms (decay pc now)"
    by (rule unsigned_word_eqI)
  moreover have "pc_window (decay (decay pc t) now) = pc_window (decay pc now)"
    by (simp add: decay_def Let_def)
  ultimately show ?thesis by (intro pressure_controller.equality) simp_all
qed

theorem decay_lazy_witness:
  "decay (decay (pressure_new Adaptive pressure_config_default) 2500) 6000 =
   decay (pressure_new Adaptive pressure_config_default) 6000"
  by (rule decay_lazy) simp

end
