(* ===== verification/Tomo_Config.thy ===== *)
theory Tomo_Config
  imports Tomo_Path Tomo_Pressure
begin

text \<open>
  \<^verbatim>\<open>crates/tomo-config/src/lib.rs\<close> (rules, compilation and classification of paths),
  \<^verbatim>\<open>crates/tomo/src/histmode.rs\<close>, \<^verbatim>\<open>crates/tomo/src/crossing.rs\<close> and the boundary check
  \<open>allow_crossing\<close> of \<^verbatim>\<open>crates/tomo/src/session.rs\<close>. The globset and toml crates are
  parameters, collected in the record \<open>glob_api\<close> and the function \<open>toml_parse\<close>; what is
  relied on of a compiled glob set (it reports exactly the indices of the matching globs)
  is the named hypothesis \<open>glob_api_ok\<close>.
\<close>

section \<open>Data\<close>

definition TOMO_DIR :: string where
  "TOMO_DIR = ''.tomo''"

definition DEFAULT_IGNORE_PATTERNS :: "string list" where
  "DEFAULT_IGNORE_PATTERNS =
    [''**/*.swp'', ''**/*.swx'', ''**/.*.sw?'', ''**/*~'',
     ''**/.#*'', ''**/#*#'', ''**/4913'', ''**/.DS_Store'',
     ''**/Thumbs.db'', ''**/*.sqlite-wal'', ''**/*.sqlite-shm'', ''**/*.sqlite-journal'',
     ''**/*.db-wal'', ''**/*.db-shm'', ''**/*.db-journal'', ''**/.git'',
     ''**/.git/**'', ''**/node_modules'', ''**/node_modules/**'', ''**/.venv'',
     ''**/.venv/**'', ''**/venv'', ''**/venv/**'', ''**/__pycache__'',
     ''**/__pycache__/**'', ''**/.pytest_cache'', ''**/.pytest_cache/**'', ''**/.mypy_cache'',
     ''**/.mypy_cache/**'', ''**/.ruff_cache'', ''**/.ruff_cache/**'', ''**/.terraform'',
     ''**/.terraform/**'', ''**/.idea'', ''**/.idea/**'', ''**/.vscode'',
     ''**/.vscode/**'', ''**/.vs'', ''**/.vs/**'', ''**/.fleet'',
     ''**/.fleet/**'', ''**/.zed'', ''**/.zed/**'', ''**/*.sublime-workspace'']"

datatype path_class = SyncedVersioned | SyncedUnversioned | Ignored

datatype direction = Both | Push | Pull

datatype cfg_history_mode = CfgAdaptive | CfgEveryChange | CfgOff | CfgInterval u64

record history = history_mode_of :: cfg_history_mode

record sync = default_ignores :: bool

record remote =
  remote_host :: string
  remote_path :: string
  remote_identity :: "string option"

record rule =
  pattern :: string
  class_of :: path_class
  direction_of :: direction

record classification =
  cl_class :: path_class
  cl_direction :: direction

definition CLASSIFICATION_DEFAULT :: classification where
  "CLASSIFICATION_DEFAULT = \<lparr>cl_class = SyncedVersioned, cl_direction = Both\<rparr>"

definition CLASSIFICATION_IGNORED :: classification where
  "CLASSIFICATION_IGNORED = \<lparr>cl_class = Ignored, cl_direction = Both\<rparr>"

record raw_config =
  rc_history :: history
  rc_sync :: sync
  rc_remote :: "remote option"
  rc_rules :: "rule list"

definition raw_config_default :: raw_config where
  "raw_config_default = \<lparr>rc_history = \<lparr>history_mode_of = CfgAdaptive\<rparr>, rc_sync = \<lparr>default_ignores = True\<rparr>,
     rc_remote = None, rc_rules = []\<rparr>"

record 's config =
  cf_history :: history
  cf_sync :: sync
  cf_remote :: "remote option"
  cf_rules :: "rule list"
  cf_effective :: "rule list"
  cf_rule_set :: 's

datatype ('e, 't, 'io) config_error =
    ReadError string 'io
  | ParseError "string option" 't
  | GlobError "string option" string 'e

text \<open>The globset crate: compiling one pattern, compiling a set, the indices a set matches.\<close>

record ('g, 's, 'e) glob_api =
  ga_build :: "string \<Rightarrow> 'e + 'g"
  ga_set :: "'g list \<Rightarrow> 'e + 's"
  ga_matches :: "'s \<Rightarrow> string \<Rightarrow> nat list"
  ga_empty :: 's

section \<open>Operations\<close>

datatype mode_repr = Named string | IntervalRepr u64

definition history_mode_deserialize :: "mode_repr \<Rightarrow> string + cfg_history_mode" where
  "history_mode_deserialize r = (case r of
      Named n \<Rightarrow>
        if n = ''adaptive'' then Inr CfgAdaptive
        else if n = ''every-change'' then Inr CfgEveryChange
        else if n = ''off'' then Inr CfgOff
        else Inl n
    | IntervalRepr ms \<Rightarrow> Inr (CfgInterval ms))"

definition to_engine :: "cfg_history_mode \<Rightarrow> history_mode" where
  "to_engine m = (case m of
      CfgAdaptive \<Rightarrow> Adaptive | CfgEveryChange \<Rightarrow> EveryChange | CfgOff \<Rightarrow> Off | CfgInterval ms \<Rightarrow> IntervalMs ms)"

definition default_ignore_rules :: "rule list" where
  "default_ignore_rules =
     map (\<lambda>p. \<lparr>pattern = p, class_of = Ignored, direction_of = Both\<rparr>) DEFAULT_IGNORE_PATTERNS"

definition is_tomo_internal :: "string \<Rightarrow> bool" where
  "is_tomo_internal path \<longleftrightarrow> path = TOMO_DIR \<or>
     (case strip_prefix TOMO_DIR path of None \<Rightarrow> False | Some rest \<Rightarrow> starts_with ''/'' rest)"

definition expand_pattern :: "string \<Rightarrow> string" where
  "expand_pattern p = (if p \<noteq> [] \<and> last p = CHR ''/'' then butlast p @ ''/**'' else p)"

text \<open>The glob loop of \<open>from_raw\<close>; a failure carries the rule's pattern and the cause.\<close>

fun build_globs :: "('g, 's, 'e) glob_api \<Rightarrow> rule list \<Rightarrow> (string \<times> 'e) + 'g list" where
  "build_globs api [] = Inr []"
| "build_globs api (r # rs) =
     (case ga_build api (expand_pattern (pattern r)) of
        Inl source \<Rightarrow> Inl (pattern r, source)
      | Inr g \<Rightarrow>
          (case build_globs api rs of
             Inl e \<Rightarrow> Inl e
           | Inr gs \<Rightarrow> Inr (g # gs)))"

definition effective_rules :: "raw_config \<Rightarrow> rule list" where
  "effective_rules raw =
     (if default_ignores (rc_sync raw) then default_ignore_rules else []) @ rc_rules raw"

definition config_from_raw ::
    "('g, 's, 'e) glob_api \<Rightarrow> raw_config \<Rightarrow> string option \<Rightarrow> ('e, 't, 'io) config_error + 's config" where
  "config_from_raw api raw location =
     (let effective = effective_rules raw
      in case build_globs api effective of
           Inl (pat, source) \<Rightarrow> Inl (GlobError location pat source)
         | Inr globs \<Rightarrow>
             (case ga_set api globs of
                Inl source \<Rightarrow> Inl (GlobError location [] source)
              | Inr rule_set \<Rightarrow>
                  Inr \<lparr>cf_history = rc_history raw, cf_sync = rc_sync raw, cf_remote = rc_remote raw,
                       cf_rules = rc_rules raw, cf_effective = effective, cf_rule_set = rule_set\<rparr>))"

definition config_default :: "('g, 's, 'e) glob_api \<Rightarrow> 's config" where
  "config_default api =
     (case (config_from_raw api raw_config_default None :: ('e, unit, unit) config_error + 's config) of
        Inr c \<Rightarrow> c
      | Inl _ \<Rightarrow> \<lparr>cf_history = \<lparr>history_mode_of = CfgAdaptive\<rparr>, cf_sync = \<lparr>default_ignores = True\<rparr>,
          cf_remote = None, cf_rules = [], cf_effective = [], cf_rule_set = ga_empty api\<rparr>)"

datatype 'io read_outcome = NotFound | ReadFailed 'io | Contents string

text \<open>\<open>load\<close> is given the outcome of reading \<^verbatim>\<open>.tomo/config.toml\<close> under the root.\<close>

definition config_load ::
    "('g, 's, 'e) glob_api \<Rightarrow> (string \<Rightarrow> 't + raw_config) \<Rightarrow> string \<Rightarrow> 'io read_outcome \<Rightarrow>
     ('e, 't, 'io) config_error + 's config" where
  "config_load api toml_parse path file = (case file of
      NotFound \<Rightarrow> Inr (config_default api)
    | ReadFailed source \<Rightarrow> Inl (ReadError path source)
    | Contents text \<Rightarrow> (case toml_parse text of
          Inl source \<Rightarrow> Inl (ParseError (Some path) source)
        | Inr raw \<Rightarrow> config_from_raw api raw (Some path)))"

definition config_from_toml_str ::
    "('g, 's, 'e) glob_api \<Rightarrow> (string \<Rightarrow> 't + raw_config) \<Rightarrow> string \<Rightarrow> ('e, 't, 'io) config_error + 's config" where
  "config_from_toml_str api toml_parse text = (case toml_parse text of
      Inl source \<Rightarrow> Inl (ParseError None source)
    | Inr raw \<Rightarrow> config_from_raw api raw None)"

definition list_max :: "nat list \<Rightarrow> nat option" where
  "list_max ns = (case ns of [] \<Rightarrow> None | m # ms \<Rightarrow> Some (foldl max m ms))"

definition classify :: "('g, 's, 'e) glob_api \<Rightarrow> 's config \<Rightarrow> string \<Rightarrow> classification" where
  "classify api cfg path =
     (if is_tomo_internal path then CLASSIFICATION_IGNORED
      else case list_max (ga_matches api (cf_rule_set cfg) path) of
             None \<Rightarrow> CLASSIFICATION_DEFAULT
           | Some idx \<Rightarrow>
               if idx < length (cf_effective cfg)
               then \<lparr>cl_class = class_of (cf_effective cfg ! idx), cl_direction = direction_of (cf_effective cfg ! idx)\<rparr>
               else CLASSIFICATION_DEFAULT)"

section \<open>The sync boundary\<close>

datatype flow = Inbound | Outbound

datatype crossing = Ship | ApplyChange | DropChange

definition crossing_decide :: "path_class \<Rightarrow> direction \<Rightarrow> flow \<Rightarrow> crossing" where
  "crossing_decide class direction flow =
     (if class = Ignored then DropChange
      else case flow of
             Outbound \<Rightarrow> (case direction of Pull \<Rightarrow> DropChange | _ \<Rightarrow> Ship)
           | Inbound \<Rightarrow> (case direction of Push \<Rightarrow> DropChange | _ \<Rightarrow> ApplyChange))"

definition note_prefix :: "string \<Rightarrow> string" where
  "note_prefix path = (case str_split (CHR ''/'') path of [] \<Rightarrow> path | c # _ \<Rightarrow> c)"

text \<open>The boundary check of the session: the verdict, the prefixes already noted, and the
  note it prints (its verb and prefix), if any.\<close>

definition allow_crossing ::
    "('g, 's, 'e) glob_api \<Rightarrow> 's config \<Rightarrow> string set \<Rightarrow> relpath \<Rightarrow> flow \<Rightarrow>
     bool \<times> string set \<times> (string \<times> string) option" where
  "allow_crossing api cfg seen path flow =
     (let c = classify api cfg (as_str path)
      in case crossing_decide (cl_class c) (cl_direction c) flow of
           DropChange \<Rightarrow>
             (let key = note_prefix (as_str path)
              in if key \<in> seen then (False, seen, None)
                 else (False, insert key seen,
                   Some (case flow of Inbound \<Rightarrow> ''not applying incoming'' | Outbound \<Rightarrow> ''not shipping'', key)))
         | _ \<Rightarrow> (True, seen, None))"

definition mode_label :: "cfg_history_mode \<Rightarrow> string" where
  "mode_label m = (case m of
      CfgAdaptive \<Rightarrow> ''adaptive'' | CfgEveryChange \<Rightarrow> ''every-change'' | CfgOff \<Rightarrow> ''off'' | CfgInterval _ \<Rightarrow> ''interval'')"

section \<open>Classification\<close>

definition glob_api_ok :: "('g, 's, 'e) glob_api \<Rightarrow> ('g \<Rightarrow> string \<Rightarrow> bool) \<Rightarrow> bool" where
  "glob_api_ok api matches \<longleftrightarrow>
     (\<forall>gs s p. ga_set api gs = Inr s \<longrightarrow> set (ga_matches api s p) = {i. i < length gs \<and> matches (gs ! i) p})"

text \<open>The rule a path falls under, read off the rule list: the last one that matches.\<close>

fun last_match :: "('a \<Rightarrow> bool) \<Rightarrow> 'a list \<Rightarrow> 'a option" where
  "last_match P [] = None"
| "last_match P (x # xs) = (case last_match P xs of Some y \<Rightarrow> Some y | None \<Rightarrow> if P x then Some x else None)"

definition rule_matches :: "('g, 's, 'e) glob_api \<Rightarrow> ('g \<Rightarrow> string \<Rightarrow> bool) \<Rightarrow> string \<Rightarrow> rule \<Rightarrow> bool" where
  "rule_matches api matches path r \<longleftrightarrow>
     (case ga_build api (expand_pattern (pattern r)) of Inl _ \<Rightarrow> False | Inr g \<Rightarrow> matches g path)"

definition rule_classification :: "rule option \<Rightarrow> classification" where
  "rule_classification r = (case r of
      None \<Rightarrow> CLASSIFICATION_DEFAULT
    | Some r \<Rightarrow> \<lparr>cl_class = class_of r, cl_direction = direction_of r\<rparr>)"

lemma last_match_None: "last_match P xs = None \<longleftrightarrow> (\<forall>x \<in> set xs. \<not> P x)"
  by (induction xs) (auto split: option.splits)

lemma last_match_append: "last_match P (xs @ ys) = (case last_match P ys of Some y \<Rightarrow> Some y | None \<Rightarrow> last_match P xs)"
  by (induction xs) (auto split: option.splits)

lemma last_match_index:
  assumes "i < length xs" "P (xs ! i)" "\<forall>j. j < length xs \<longrightarrow> P (xs ! j) \<longrightarrow> j \<le> i"
  shows "last_match P xs = Some (xs ! i)"
proof -
  have "xs = take i xs @ xs ! i # drop (Suc i) xs" using assms(1) by (rule id_take_nth_drop)
  moreover have "last_match P (drop (Suc i) xs) = None"
    unfolding last_match_None
  proof
    fix x assume "x \<in> set (drop (Suc i) xs)"
    then obtain k where k: "k < length xs - Suc i" "x = xs ! (Suc i + k)" by (auto simp: in_set_conv_nth)
    then have "Suc i + k < length xs" by linarith
    with k(2) show "\<not> P x" using assms(3) [rule_format, of "Suc i + k"] by auto
  qed
  ultimately have "last_match P xs = last_match P (take i xs @ xs ! i # drop (Suc i) xs)" by simp
  also have "\<dots> = Some (xs ! i)"
    using \<open>last_match P (drop (Suc i) xs) = None\<close> assms(2) by (simp add: last_match_append)
  finally show ?thesis .
qed

lemma list_max_None: "list_max ns = None \<longleftrightarrow> ns = []"
  by (simp add: list_max_def split: list.splits)

lemma foldl_max_mem: "foldl max m ms \<in> set (m # ms) \<and> (\<forall>n \<in> set (m # ms). n \<le> foldl max m (ms :: nat list))"
  by (induction ms arbitrary: m) (auto simp: max_def split: if_splits, force+)

lemma list_max_Some: "list_max ns = Some m \<Longrightarrow> m \<in> set ns \<and> (\<forall>n \<in> set ns. n \<le> m)"
  using foldl_max_mem by (auto simp: list_max_def split: list.splits)

lemma build_globs_spec:
  "build_globs api rs = Inr gs \<Longrightarrow>
   length gs = length rs \<and> (\<forall>i < length rs. ga_build api (expand_pattern (pattern (rs ! i))) = Inr (gs ! i))"
proof (induction rs arbitrary: gs)
  case Nil
  then show ?case by simp
next
  case (Cons r rs)
  then obtain g hs where g: "ga_build api (expand_pattern (pattern r)) = Inr g" "build_globs api rs = Inr hs" "gs = g # hs"
    by (auto split: sum.splits)
  with Cons.IH [OF g(2)] show ?case by (auto simp: nth_Cons split: nat.splits)
qed

text \<open>Last match wins: for a configuration compiled from a rule list, a path outside
  \<open>.tomo\<close> is classified by the last of the effective rules whose glob matches it, and
  as synced and versioned in both directions if none does. Since user rules come after
  the built-in ignores, a user rule that matches overrides every built-in one.\<close>

theorem classify_last_match:
  assumes "glob_api_ok api matches" "config_from_raw api raw loc = Inr cfg" "\<not> is_tomo_internal path"
  shows "classify api cfg path =
      rule_classification (last_match (rule_matches api matches path) (effective_rules raw)) \<and>
    (\<forall>r. last_match (rule_matches api matches path) (rc_rules raw) = Some r \<longrightarrow>
      classify api cfg path = \<lparr>cl_class = class_of r, cl_direction = direction_of r\<rparr>)"
proof -
  let ?rs = "effective_rules raw" and ?P = "rule_matches api matches path"
  obtain gs s where gs: "build_globs api ?rs = Inr gs" "ga_set api gs = Inr s"
    and cfg: "cf_effective cfg = ?rs" "cf_rule_set cfg = s"
    using assms(2) by (auto simp: config_from_raw_def Let_def split: sum.splits)
  let ?ms = "ga_matches api s path"
  have P: "?P (?rs ! i) \<longleftrightarrow> matches (gs ! i) path" if "i < length ?rs" for i
    using build_globs_spec [OF gs(1)] that by (simp add: rule_matches_def)
  have ms: "i \<in> set ?ms \<longleftrightarrow> i < length ?rs \<and> ?P (?rs ! i)" for i
    using assms(1) gs(2) P build_globs_spec [OF gs(1)] unfolding glob_api_ok_def by auto
  have main: "classify api cfg path = rule_classification (last_match ?P ?rs)"
  proof (cases "list_max ?ms")
    case None
    then have "last_match ?P ?rs = None"
      using ms by (fastforce simp: last_match_None in_set_conv_nth list_max_None)
    with None assms(3) show ?thesis by (simp add: classify_def cfg rule_classification_def)
  next
    case (Some i)
    then have i: "i < length ?rs" "?P (?rs ! i)" "\<forall>j. j < length ?rs \<longrightarrow> ?P (?rs ! j) \<longrightarrow> j \<le> i"
      using list_max_Some [OF Some] ms by auto
    with Some assms(3) show ?thesis
      by (simp add: classify_def cfg rule_classification_def last_match_index [of i ?rs ?P])
  qed
  have "last_match ?P ?rs = Some r" if "last_match ?P (rc_rules raw) = Some r" for r
    using that by (simp add: effective_rules_def last_match_append)
  with main show ?thesis by (auto simp: rule_classification_def)
qed

text \<open>A glob library for the witness: patterns match literally, and the pattern \<open>**/x\<close>
  also matches \<open>x\<close>.\<close>

definition literal_api :: "(string, string list, unit) glob_api" where
  "literal_api = \<lparr>ga_build = Inr, ga_set = Inr,
     ga_matches = (\<lambda>gs p. filter (\<lambda>i. gs ! i \<in> {p, ''**/'' @ p}) [0..<length gs]), ga_empty = []\<rparr>"

definition demo_raw :: raw_config where
  "demo_raw = raw_config_default\<lparr>rc_rules := [\<lparr>pattern = ''**/.git'', class_of = SyncedUnversioned, direction_of = Pull\<rparr>]\<rparr>"

lemma literal_api_ok: "glob_api_ok literal_api (\<lambda>g p. g \<in> {p, ''**/'' @ p})"
  by (auto simp: glob_api_ok_def literal_api_def)

lemma literal_builds: "build_globs literal_api rs = Inr (map (expand_pattern \<circ> pattern) rs)"
  by (induction rs) (simp_all add: literal_api_def)

theorem classify_last_match_witness:
  "\<exists>cfg. (config_from_raw literal_api demo_raw None :: (unit, unit, unit) config_error + string list config) = Inr cfg \<and>
     classify literal_api cfg ''.git'' = \<lparr>cl_class = SyncedUnversioned, cl_direction = Pull\<rparr>"
proof -
  let ?r = "config_from_raw literal_api demo_raw None :: (unit, unit, unit) config_error + string list config"
  obtain cfg where cfg: "?r = Inr cfg"
    unfolding config_from_raw_def Let_def literal_builds by (simp add: literal_api_def)
  have "\<not> is_tomo_internal ''.git''" by (simp add: is_tomo_internal_def TOMO_DIR_def)
  moreover have "last_match (rule_matches literal_api (\<lambda>g p. g \<in> {p, ''**/'' @ p}) ''.git'') (rc_rules demo_raw) =
      Some \<lparr>pattern = ''**/.git'', class_of = SyncedUnversioned, direction_of = Pull\<rparr>"
    by (simp add: demo_raw_def rule_matches_def literal_api_def expand_pattern_def)
  ultimately have "classify literal_api cfg ''.git'' = \<lparr>cl_class = SyncedUnversioned, cl_direction = Pull\<rparr>"
    using classify_last_match [OF literal_api_ok cfg, of "''.git''"] by fastforce
  with cfg show ?thesis by blast
qed

section \<open>The state directory\<close>

lemma is_tomo_internal_iff: "is_tomo_internal p \<longleftrightarrow> (\<exists>rest. str_split (CHR ''/'') p = ''.tomo'' # rest)"
proof
  assume "is_tomo_internal p"
  then consider "p = ''.tomo''" | rest where "p = ''.tomo'' @ CHR ''/'' # rest"
    by (auto simp: is_tomo_internal_def TOMO_DIR_def starts_with_def strip_prefix_Some split: option.splits)
  then show "\<exists>rest. str_split (CHR ''/'') p = ''.tomo'' # rest"
    by cases (simp_all add: str_split_append)
next
  assume "\<exists>rest. str_split (CHR ''/'') p = ''.tomo'' # rest"
  then obtain rest where r: "str_split (CHR ''/'') p = ''.tomo'' # rest" by blast
  have p: "p = str_join ''/'' (''.tomo'' # rest)" using str_join_split [of "CHR ''/''" p] r by simp
  show "is_tomo_internal p"
  proof (cases rest)
    case Nil
    with p show ?thesis by (simp add: is_tomo_internal_def TOMO_DIR_def)
  next
    case (Cons q qs)
    with p have "strip_prefix TOMO_DIR p = Some (''/'' @ str_join ''/'' (q # qs))"
      by (simp add: TOMO_DIR_def strip_prefix_Some)
    then show ?thesis by (simp add: is_tomo_internal_def starts_with_def)
  qed
qed

text \<open>The state directory never crosses the boundary (invariant 1): whatever the
  configuration, its rules and the glob matcher say, a path whose first component is
  \<open>.tomo\<close> is classified as ignored and dropped in both directions, and such a path is
  not even a \<open>RelPath\<close>.\<close>

theorem tomo_dir_never_crosses:
  assumes "str_split (CHR ''/'') p = ''.tomo'' # rest"
  shows "classify api cfg p = CLASSIFICATION_IGNORED \<and>
    crossing_decide (cl_class (classify api cfg p)) (cl_direction (classify api cfg p)) flow = DropChange \<and>
    relpath_new p \<noteq> Inr r"
proof -
  have "is_tomo_internal p" using assms is_tomo_internal_iff by blast
  then have c: "classify api cfg p = CLASSIFICATION_IGNORED" by (simp add: classify_def)
  moreover have "relpath_new p \<noteq> Inr r"
    using assms relpath_new_Inr [of p r] relpath_wf_segments [of p] by (auto simp: relpath_wf_def)
  ultimately show ?thesis by (simp add: crossing_decide_def CLASSIFICATION_IGNORED_def)
qed

theorem tomo_dir_never_crosses_witness:
  "classify literal_api (config_default literal_api) ''.tomo/db'' = CLASSIFICATION_IGNORED \<and>
   relpath_new ''.tomo/db'' \<noteq> Inr (RelPath ''.tomo/db'')"
  using tomo_dir_never_crosses [of "''.tomo/db''" "[''db'']" literal_api "config_default literal_api" Inbound "RelPath ''.tomo/db''"]
  by simp

text \<open>The boundary check is the class and direction of the path, and it is quiet: an
  ignored path crosses in neither direction, push-only paths only leave, pull-only paths
  only enter; a dropped path adds its top-level prefix to the noted ones and a note is
  printed exactly when that prefix is new.\<close>

theorem allow_crossing_spec:
  "allow_crossing api cfg seen path flow =
     (let c = classify api cfg (as_str path);
          ok = (cl_class c \<noteq> Ignored \<and>
                (flow = Outbound \<and> cl_direction c \<noteq> Pull \<or> flow = Inbound \<and> cl_direction c \<noteq> Push));
          key = hd (str_split (CHR ''/'') (as_str path))
      in (ok, if ok then seen else insert key seen,
          if ok \<or> key \<in> seen then None
          else Some (if flow = Inbound then ''not applying incoming'' else ''not shipping'', key)))"
proof -
  obtain k ks where k: "str_split (CHR ''/'') (as_str path) = k # ks"
    by (cases "str_split (CHR ''/'') (as_str path)") auto
  show ?thesis
    by (cases flow; cases "cl_direction (classify api cfg (as_str path))")
      (auto simp: allow_crossing_def crossing_decide_def note_prefix_def k Let_def)
qed

end
