(* ===== verification/Tomo_Session.thy ===== *)
theory Tomo_Session
  imports Tomo_Echo Tomo_Frame Tomo_Config
begin

text \<open>
  The decisions of \<^verbatim>\<open>crates/tomo/src/session.rs\<close> that sit between the engine and the world,
  with the pure modules it calls: the apply guard (\<^verbatim>\<open>applyguard.rs\<close>), the reconcile backlog and
  the choke point for outbound content, chunk bookkeeping (\<^verbatim>\<open>chunkxfer.rs\<close>), the inbound
  assemblies, the handshake, pause and reconnect transitions, and the coalescing of watcher
  bursts. A handler maps a session to an error or to the new session and its effects in
  order (frames written, assembled changes handed to the engine). What the session does not
  own is the parameter \<open>world\<close>: the files of the tree, BLAKE3, the FastCDC chunker, the
  outcome of socket and disk writes, the clock, and the order in which a hash map yields its
  keys. Log lines, status counters and history captures are left out.
\<close>

section \<open>The apply guard\<close>

definition needs_local_reconcile :: "expectation \<Rightarrow> expectation \<Rightarrow> bool \<Rightarrow> bool" where
  "needs_local_reconcile disk prior disk_is_echo \<longleftrightarrow> \<not> exp_eq disk prior \<and> \<not> disk_is_echo"

text \<open>\<open>None\<close> where \<open>Entry::winner\<close> panics.\<close>

definition prior_expectation :: "engine \<Rightarrow> relpath \<Rightarrow> expectation option" where
  "prior_expectation e path = (case index_get (eng_index e) path of
      None \<Rightarrow> Some ExpAbsent
    | Some entry \<Rightarrow> map_option (\<lambda>w. expectation_from_state (hd_state w)) (winner entry))"

definition reconcile_unobserved_local :: "engine \<Rightarrow> expectation \<Rightarrow> relpath \<Rightarrow> transition" where
  "reconcile_unobserved_local e disk path = do {
     prior \<leftarrow> prior_expectation e path;
     if \<not> needs_local_reconcile disk prior (is_expected_echo e path disk) then Some (e, [])
     else
       (let kind = (case disk of ExpPresent sig \<Rightarrow> Modified sig | ExpAbsent \<Rightarrow> Removed)
        in handle e (Local \<lparr>lc_path = path, lc_kind = kind\<rparr>))
   }"

text \<open>The engine part of receiving a change: first any unobserved local edit of the path,
  then the change itself. \<open>disk\<close> is the state of the path on disk when the change arrives.\<close>

definition receive_change :: "engine \<Rightarrow> expectation \<Rightarrow> remote_change \<Rightarrow> transition" where
  "receive_change e disk c = do {
     (e, as) \<leftarrow> reconcile_unobserved_local e disk (rc_path c);
     (e, bs) \<leftarrow> handle e (Remote c);
     Some (e, as @ bs)
   }"

section \<open>Chunk bookkeeping\<close>

definition REQUEST_BATCH :: nat where
  "REQUEST_BATCH = 32"

fun missing_chunks_from :: "chunk_hash set \<Rightarrow> chunk_hash list \<Rightarrow> chunk_hash set \<Rightarrow> chunk_hash list" where
  "missing_chunks_from seen [] have_set = []"
| "missing_chunks_from seen (h # hs) have_set =
     (if h \<notin> have_set \<and> h \<notin> seen then h # missing_chunks_from (insert h seen) hs have_set
      else missing_chunks_from seen hs have_set)"

definition missing_chunks :: "chunk_hash list \<Rightarrow> chunk_hash set \<Rightarrow> chunk_hash list" where
  "missing_chunks m have_set = missing_chunks_from {} m have_set"

definition next_request_batch :: "chunk_hash list \<Rightarrow> chunk_hash set \<Rightarrow> chunk_hash set \<Rightarrow> chunk_hash list" where
  "next_request_batch m have_set requested =
     take REQUEST_BATCH (filter (\<lambda>h. h \<notin> requested) (missing_chunks m have_set))"

definition is_complete :: "chunk_hash list \<Rightarrow> chunk_hash set \<Rightarrow> bool" where
  "is_complete m have_set \<longleftrightarrow> list_all (\<lambda>h. h \<in> have_set) m"

definition supersedes :: "relpath \<Rightarrow> relpath \<Rightarrow> bool" where
  "supersedes assembly_path incoming_path \<longleftrightarrow> assembly_path = incoming_path"

datatype byte_source = Frame | DiskSkip | Cas | Unavailable

definition byte_source_of :: "bool \<Rightarrow> bool \<Rightarrow> bool \<Rightarrow> byte_source" where
  "byte_source_of frame_matches disk_matches cas_available =
     (if frame_matches then Frame else if disk_matches then DiskSkip
      else if cas_available then Cas else Unavailable)"

section \<open>The session\<close>

record assembly =
  asm_change :: remote_change
  asm_sig :: content_sig
  asm_manifest :: "chunk_hash list"
  asm_manifest_set :: "chunk_hash set"
  asm_have :: "chunk_hash set"
  asm_requested :: "chunk_hash set"
  asm_total_size :: u64
  asm_received_bytes :: u64

type_synonym chunk_range = "chunk_hash \<times> nat \<times> nat"

text \<open>A staged apply that is not installed yet; the temporary file is its bytes.\<close>

record pending_install =
  pi_path :: relpath
  pi_sig :: content_sig
  pi_bytes :: bytes

record 's session =
  ss_config :: "'s config"
  ss_engine :: engine
  ss_binary_version :: string
  ss_transport :: bool
  ss_ssh_params :: bool
  ss_reconnecting :: bool
  ss_repush_requested :: bool
  ss_connected :: bool
  ss_hello_received :: bool
  ss_peer_replica :: "replica_id option"
  ss_noted_ignored :: "string set"
  ss_rescan_pending :: bool
  ss_disk_stalled :: bool
  ss_last_stall_retry :: nat
  ss_paused :: bool
  ss_paused_acted :: bool
  ss_peer_paused :: bool
  ss_offline_since :: "nat option"
  ss_next_reconnect_at :: "nat option"
  ss_backoff :: nat
  ss_assemblies :: "(relpath, assembly) btree_map"
  ss_chunk_files :: "chunk_hash \<rightharpoonup> bytes"
  ss_outbound_manifests :: "(relpath, chunk_range list) btree_map"
  ss_pending_chunks :: "message list"
  ss_pending_sends :: "remote_change list"
  ss_pending_sends_paths :: "relpath set"
  ss_pending_installs :: "pending_install list"
  ss_pending_install_paths :: "relpath set"
  ss_created_dirs :: "relpath set"

text \<open>A write to a chunk file: a full disk may leave a torn file (or none) behind. Reading one back
  may fail too (\<open>w_unreadable\<close>), which is not the same as finding none.\<close>

datatype write_outcome = Written | DiskFull "bytes option" | WriteFailed

record ('g, 's, 'e) world =
  w_globs :: "('g, 's, 'e) glob_api"
  w_read :: "relpath \<Rightarrow> bytes option"
  w_blake3 :: "bytes \<Rightarrow> content_hash"
  w_chunker :: "bytes \<Rightarrow> chunk_range list"
  w_send_ok :: "message list \<Rightarrow> bool"
  w_stage :: "chunk_hash \<Rightarrow> write_outcome"
  w_unreadable :: "chunk_hash \<Rightarrow> bool"
  w_now :: nat
  w_order :: "relpath list \<Rightarrow> relpath list"
  w_case_insensitive :: bool
  w_casefold :: "string \<Rightarrow> string"

datatype cli_error =
    ProtocolMismatch u16
  | BinaryVersionMismatch string
  | SendFailed
  | ChunkWriteFailed
  | ChunkReadFailed

text \<open>A frame written; a change (with its content, if any) that passed the ingress checks and goes
  to the apply guard and the engine; a change refused because its path differs only in case
  from an existing one, whose content goes to the history only.\<close>

datatype effect =
    Sent message
  | Delivered remote_change "bytes option"
  | Collided remote_change "bytes option"

type_synonym 's session_result = "(cli_error, 's session, effect) outcome"

definition RECONNECT_MIN :: nat where "RECONNECT_MIN = 2000"
definition RECONNECT_MAX :: nat where "RECONNECT_MAX = 30000"
definition STALL_RETRY :: nat where "STALL_RETRY = 3000"
definition SEND_BATCH_FRAMES :: nat where "SEND_BATCH_FRAMES = 24"

section \<open>Inbound assemblies: clean-up\<close>

definition clean_assembly_chunks :: "'s session \<Rightarrow> assembly \<Rightarrow> 's session" where
  "clean_assembly_chunks s asm =
     s\<lparr>ss_chunk_files := (\<lambda>h.
         if h \<in> asm_have asm \<and> \<not> list_ex (\<lambda>other. h \<in> asm_manifest_set other) (bm_values (ss_assemblies s))
         then None else ss_chunk_files s h)\<rparr>"

definition abandon_assembly :: "'s session \<Rightarrow> relpath \<Rightarrow> 's session" where
  "abandon_assembly s path = (case bm_get (ss_assemblies s) path of
      None \<Rightarrow> s
    | Some a \<Rightarrow> clean_assembly_chunks (s\<lparr>ss_assemblies := bm_remove path (ss_assemblies s)\<rparr>) a)"

definition abandon_superseded :: "'s session \<Rightarrow> relpath \<Rightarrow> 's session" where
  "abandon_superseded s incoming_path =
     foldl abandon_assembly s (filter (\<lambda>p. supersedes p incoming_path) (bm_keys (ss_assemblies s)))"

definition abandon_all_assemblies :: "'s session \<Rightarrow> 's session" where
  "abandon_all_assemblies s =
     foldl clean_assembly_chunks (s\<lparr>ss_assemblies := bm_empty\<rparr>) (bm_values (ss_assemblies s))"

definition abandon_pending_installs :: "'s session \<Rightarrow> 's session" where
  "abandon_pending_installs s = s\<lparr>ss_pending_installs := [], ss_pending_install_paths := {}, ss_created_dirs := {}\<rparr>"

definition suspend_transfers :: "'s session \<Rightarrow> 's session" where
  "suspend_transfers s =
     abandon_pending_installs ((abandon_all_assemblies s)\<lparr>ss_pending_chunks := [], ss_pending_sends := [],
       ss_pending_sends_paths := {}, ss_outbound_manifests := bm_empty\<rparr>)"

section \<open>Offline, reconnect, sending\<close>

definition go_offline :: "('g, 's, 'e) world \<Rightarrow> 's session \<Rightarrow> 's session" where
  "go_offline w s =
     (if \<not> ss_transport s then s
      else (suspend_transfers (s\<lparr>ss_transport := False, ss_connected := False, ss_hello_received := False\<rparr>))
        \<lparr>ss_offline_since := Some (w_now w), ss_backoff := RECONNECT_MIN,
         ss_next_reconnect_at := Some (w_now w + RECONNECT_MIN)\<rparr>)"

definition reconnect_failed :: "('g, 's, 'e) world \<Rightarrow> 's session \<Rightarrow> 's session" where
  "reconnect_failed w s =
     (let backoff = min (ss_backoff s * 2) RECONNECT_MAX
      in s\<lparr>ss_backoff := backoff, ss_next_reconnect_at := Some (w_now w + backoff)\<rparr>)"

definition send :: "('g, 's, 'e) world \<Rightarrow> 's session \<Rightarrow> message \<Rightarrow> 's session_result" where
  "send w s msg =
     (if \<not> ss_transport s then Inr (s, [])
      else if w_send_ok w [msg] then Inr (s, [Sent msg])
      else if ss_reconnecting s then Inr (go_offline w s, [])
      else Inl SendFailed)"

definition send_opening_hello :: "('g, 's, 'e) world \<Rightarrow> 's session \<Rightarrow> 's session_result" where
  "send_opening_hello w s =
     send w s (Hello PROTOCOL_VERSION (ss_binary_version s) (eng_replica (ss_engine s)))"

definition on_reconnected :: "('g, 's, 'e) world \<Rightarrow> 's session \<Rightarrow> 's session_result" where
  "on_reconnected w s =
     send_opening_hello w (s\<lparr>ss_transport := True, ss_offline_since := None, ss_next_reconnect_at := None,
                             ss_backoff := RECONNECT_MIN\<rparr>)"

text \<open>One reconnect attempt: \<open>dial\<close> is whether the transport could be brought up.\<close>

definition maybe_reconnect :: "('g, 's, 'e) world \<Rightarrow> bool \<Rightarrow> 's session \<Rightarrow> 's session_result" where
  "maybe_reconnect w dial s =
     (if ss_transport s then Inr (s, [])
      else if \<not> (case ss_next_reconnect_at s of None \<Rightarrow> False | Some t \<Rightarrow> t \<le> w_now w) then Inr (s, [])
      else if \<not> ss_reconnecting s then Inr (s, [])
      else if dial then on_reconnected w s
      else Inr (reconnect_failed w s, []))"

section \<open>Handshake, pause and resume\<close>

definition outbound_suspended :: "'s session \<Rightarrow> bool" where
  "outbound_suspended s \<longleftrightarrow> ss_paused s \<or> ss_peer_paused s"

definition resync_indices :: "('g, 's, 'e) world \<Rightarrow> 's session \<Rightarrow> 's session_result" where
  "resync_indices w s =
     (if \<not> ss_transport s then Inr (s, []) else send w s (IndexExchange (eng_index (ss_engine s))))"

definition on_hello ::
    "('g, 's, 'e) world \<Rightarrow> 's session \<Rightarrow> u16 \<Rightarrow> string \<Rightarrow> replica_id \<Rightarrow> 's session_result" where
  "on_hello w s proto version peer =
     (if proto \<noteq> PROTOCOL_VERSION then Inl (ProtocolMismatch proto)
      else if version \<noteq> ss_binary_version s then
        (if ss_ssh_params s then Inr (s\<lparr>ss_repush_requested := True\<rparr>, [])
         else Inl (BinaryVersionMismatch version))
      else
        and_then
          (let s = s\<lparr>ss_hello_received := True, ss_connected := True, ss_peer_replica := Some peer\<rparr>
           in send w s (IndexExchange (eng_index (ss_engine s))))
          (\<lambda>s. if ss_paused s then send w s Pause else Inr (s, [])))"

definition enter_pause :: "('g, 's, 'e) world \<Rightarrow> 's session \<Rightarrow> 's session_result" where
  "enter_pause w s = send w (suspend_transfers s) Pause"

definition exit_pause :: "('g, 's, 'e) world \<Rightarrow> 's session \<Rightarrow> 's session_result" where
  "exit_pause w s = and_then (send w s Resume) (resync_indices w)"

definition reconcile_pause_state :: "('g, 's, 'e) world \<Rightarrow> 's session \<Rightarrow> 's session_result" where
  "reconcile_pause_state w s =
     (if ss_paused s = ss_paused_acted s then Inr (s, [])
      else if ss_paused s then enter_pause w (s\<lparr>ss_paused_acted := ss_paused s\<rparr>)
      else exit_pause w (s\<lparr>ss_paused_acted := ss_paused s\<rparr>))"

definition on_peer_pause :: "'s session \<Rightarrow> 's session" where
  "on_peer_pause s = (if ss_peer_paused s then s else suspend_transfers (s\<lparr>ss_peer_paused := True\<rparr>))"

definition on_peer_resume :: "('g, 's, 'e) world \<Rightarrow> 's session \<Rightarrow> 's session_result" where
  "on_peer_resume w s = resync_indices w (s\<lparr>ss_peer_paused := False\<rparr>)"

definition note_disk_full :: "('g, 's, 'e) world \<Rightarrow> 's session \<Rightarrow> 's session" where
  "note_disk_full w s = s\<lparr>ss_disk_stalled := True, ss_last_stall_retry := w_now w\<rparr>"

definition maybe_retry_stall :: "('g, 's, 'e) world \<Rightarrow> 's session \<Rightarrow> 's session_result" where
  "maybe_retry_stall w s =
     (if \<not> ss_disk_stalled s then Inr (s, [])
      else if \<not> ss_transport s \<or> \<not> ss_hello_received s then Inr (s, [])
      else if w_now w - ss_last_stall_retry s < STALL_RETRY then Inr (s, [])
      else (let s = s\<lparr>ss_last_stall_retry := w_now w, ss_disk_stalled := False\<rparr>
            in send w s (IndexExchange (eng_index (ss_engine s)))))"

section \<open>The outbound side\<close>

definition matches_sig :: "(bytes \<Rightarrow> content_hash) \<Rightarrow> bytes \<Rightarrow> content_sig \<Rightarrow> bool" where
  "matches_sig blake3 bs sig \<longleftrightarrow> of_nat (length bs) = sig_size sig \<and> blake3 bs = sig_hash sig"

definition should_send :: "(bytes \<Rightarrow> content_hash) \<Rightarrow> bytes option \<Rightarrow> content_sig \<Rightarrow> bool" where
  "should_send blake3 current expected \<longleftrightarrow>
     (case current of None \<Rightarrow> False | Some bs \<Rightarrow> matches_sig blake3 bs expected)"

text \<open>The boundary check of \<^theory_text>\<open>Tomo_Config\<close> on the session's own state.\<close>

definition session_allows :: "('g, 's, 'e) world \<Rightarrow> 's session \<Rightarrow> relpath \<Rightarrow> flow \<Rightarrow> 's session \<times> bool" where
  "session_allows w s path flow =
     (case allow_crossing (w_globs w) (ss_config s) (ss_noted_ignored s) path flow of
        (ok, seen, _) \<Rightarrow> (s\<lparr>ss_noted_ignored := seen\<rparr>, ok))"

definition build_manifest :: "('g, 's, 'e) world \<Rightarrow> 's session \<Rightarrow> remote_change \<Rightarrow> bytes \<Rightarrow> 's session \<times> message" where
  "build_manifest w s c bs =
     (let ranges = w_chunker w bs
      in (s\<lparr>ss_outbound_manifests := bm_insert (rc_path c) ranges (ss_outbound_manifests s)\<rparr>,
          ChangeManifest c (of_nat (length bs)) (map fst ranges)))"

definition prepare_send :: "('g, 's, 'e) world \<Rightarrow> 's session \<Rightarrow> remote_change \<Rightarrow> 's session \<times> message option" where
  "prepare_send w s c =
     (if \<not> ss_transport s then (s, None)
      else if outbound_suspended s then (s, None)
      else case session_allows w s (rc_path c) Outbound of
        (s, False) \<Rightarrow> (s, None)
      | (s, True) \<Rightarrow>
          (case rc_kind c of
             Modified sig \<Rightarrow>
               (let current = w_read w (rc_path c)
                in if \<not> should_send (w_blake3 w) current sig then (s, None)
                   else (let bs = (case current of None \<Rightarrow> [] | Some bs \<Rightarrow> bs)
                         in if INLINE_THRESHOLD \<le> length bs
                            then (case build_manifest w s c bs of (s, msg) \<Rightarrow> (s, Some msg))
                            else (s, Some (Change c (Some bs)))))
           | Removed \<Rightarrow> (s, Some (Change c None))))"

definition send_prepared :: "('g, 's, 'e) world \<Rightarrow> 's session \<times> message option \<Rightarrow> 's session_result" where
  "send_prepared w p = (case p of (s, None) \<Rightarrow> Inr (s, []) | (s, Some msg) \<Rightarrow> send w s msg)"

definition do_send :: "('g, 's, 'e) world \<Rightarrow> 's session \<Rightarrow> remote_change \<Rightarrow> 's session_result" where
  "do_send w s c = send_prepared w (prepare_send w s c)"

definition enqueue_bulk_send :: "'s session \<Rightarrow> remote_change \<Rightarrow> 's session" where
  "enqueue_bulk_send s c =
     (if rc_path c \<in> ss_pending_sends_paths s then s
      else s\<lparr>ss_pending_sends := ss_pending_sends s @ [c],
             ss_pending_sends_paths := insert (rc_path c) (ss_pending_sends_paths s)\<rparr>)"

definition peer_covers :: "index \<Rightarrow> relpath \<Rightarrow> head \<Rightarrow> bool" where
  "peer_covers peer path h \<longleftrightarrow> (case index_get peer path of None \<Rightarrow> False | Some entry \<Rightarrow> head_covered entry h)"

definition reconcile_changes :: "index \<Rightarrow> index \<Rightarrow> remote_change list" where
  "reconcile_changes own peer =
     concat (map (\<lambda>(path, entry).
         map (\<lambda>h. \<lparr>rc_path = path, rc_kind = kind_from_state (hd_state h), rc_version = hd_version h\<rparr>)
           (filter (\<lambda>h. \<not> peer_covers peer path h) (heads entry)))
       (index_iter own))"

definition session_reconcile :: "'s session \<Rightarrow> index \<Rightarrow> 's session" where
  "session_reconcile s peer = foldl enqueue_bulk_send s (reconcile_changes (eng_index (ss_engine s)) peer)"

definition flush_queued_send :: "('g, 's, 'e) world \<Rightarrow> 's session \<Rightarrow> relpath \<Rightarrow> 's session_result" where
  "flush_queued_send w s path =
     (if path \<notin> ss_pending_sends_paths s then Inr (s, [])
      else let s = s\<lparr>ss_pending_sends_paths := ss_pending_sends_paths s - {path}\<rparr>
        in case position (\<lambda>c. rc_path c = path) (ss_pending_sends s) of
             None \<Rightarrow> Inr (s, [])
           | Some pos \<Rightarrow>
               send_prepared w
                 (prepare_send w
                   (s\<lparr>ss_pending_sends := take pos (ss_pending_sends s) @ drop (Suc pos) (ss_pending_sends s)\<rparr>)
                   (ss_pending_sends s ! pos)))"

lemma prepare_send_keeps:
  "prepare_send w s c = (s', m) \<Longrightarrow>
     ss_pending_chunks s' = ss_pending_chunks s \<and> ss_pending_sends s' = ss_pending_sends s \<and>
     ss_pending_sends_paths s' = ss_pending_sends_paths s \<and> ss_engine s' = ss_engine s \<and>
     ss_transport s' = ss_transport s \<and> outbound_suspended s' = outbound_suspended s \<and> ss_config s' = ss_config s"
  by (auto simp: prepare_send_def session_allows_def build_manifest_def outbound_suspended_def Let_def
      split: if_splits prod.splits bool.splits change_kind.splits)

text \<open>Filling one sub-batch: queued chunk data first, then queued changes.\<close>

function fill_subbatch :: "('g, 's, 'e) world \<Rightarrow> 's session \<Rightarrow> message list \<Rightarrow> 's session \<times> message list" where
  "fill_subbatch w s batch =
     (if SEND_BATCH_FRAMES \<le> length batch then (s, batch)
      else case ss_pending_chunks s of
        msg # rest \<Rightarrow> fill_subbatch w (s\<lparr>ss_pending_chunks := rest\<rparr>) (batch @ [msg])
      | [] \<Rightarrow> (case ss_pending_sends s of
            [] \<Rightarrow> (s, batch)
          | c # rest \<Rightarrow>
              (case prepare_send w (s\<lparr>ss_pending_sends := rest,
                     ss_pending_sends_paths := ss_pending_sends_paths s - {rc_path c}\<rparr>) c of
                 (s', None) \<Rightarrow> fill_subbatch w s' batch
               | (s', Some msg) \<Rightarrow> fill_subbatch w s' (batch @ [msg]))))"
  by pat_completeness auto

termination fill_subbatch
  by (relation "measure (\<lambda>(w, s, batch). length (ss_pending_chunks s) + length (ss_pending_sends s))")
    (auto dest!: sym [of "(_, _)"] prepare_send_keeps)

definition ship_bulk_subbatch :: "('g, 's, 'e) world \<Rightarrow> 's session \<Rightarrow> 's session_result" where
  "ship_bulk_subbatch w s =
     (case fill_subbatch w s [] of (s, batch) \<Rightarrow>
        if batch = [] then Inr (s, [])
        else if \<not> ss_transport s then Inr (s, [])
        else if w_send_ok w batch then Inr (s, map Sent batch)
        else if ss_reconnecting s then Inr (go_offline w s, [])
        else Inl SendFailed)"

section \<open>The case-collision guard\<close>

definition collides :: "('g, 's, 'e) world \<Rightarrow> string \<Rightarrow> string \<Rightarrow> bool" where
  "collides w incoming existing \<longleftrightarrow> incoming \<noteq> existing \<and> w_casefold w incoming = w_casefold w existing"

definition first_collision :: "('g, 's, 'e) world \<Rightarrow> string \<Rightarrow> string list \<Rightarrow> string option" where
  "first_collision w incoming existing = List.find (collides w incoming) existing"

definition is_present :: "entry \<Rightarrow> bool" where
  "is_present e \<longleftrightarrow> (case winner e of Some h \<Rightarrow> (case hd_state h of Present _ \<Rightarrow> True | Tombstone \<Rightarrow> False) | None \<Rightarrow> False)"

text \<open>The decision of \<open>case_collision_refused\<close>; preserving the content is the effect \<open>Collided\<close>.\<close>

definition case_collision :: "('g, 's, 'e) world \<Rightarrow> 's session \<Rightarrow> remote_change \<Rightarrow> bool" where
  "case_collision w s c \<longleftrightarrow> w_case_insensitive w \<and> (case rc_kind c of
      Removed \<Rightarrow> False
    | Modified _ \<Rightarrow> first_collision w (as_str (rc_path c))
        (map (\<lambda>(p, _). as_str p) (filter (\<lambda>(_, e). is_present e) (index_iter (eng_index (ss_engine s))))) \<noteq> None)"

definition ingress :: "('g, 's, 'e) world \<Rightarrow> 's session \<Rightarrow> remote_change \<Rightarrow> bytes option \<Rightarrow> effect" where
  "ingress w s c bs = (if case_collision w s c then Collided c bs else Delivered c bs)"

section \<open>Chunk transfer\<close>

text \<open>Serving a request. The outer loop runs over the announced paths holding a wanted chunk,
  in hash-map order; a chunk's range is read from the current file and sent if it still
  hashes to the chunk's name; a short read stops the path.\<close>

fun serve_ranges ::
    "(bytes \<Rightarrow> content_hash) \<Rightarrow> bytes \<Rightarrow> chunk_range list \<Rightarrow> chunk_hash set \<Rightarrow> message list \<Rightarrow>
     chunk_hash set \<times> message list" where
  "serve_ranges blake3 file [] want queue = (want, queue)"
| "serve_ranges blake3 file ((h, start, stop) # ranges) want queue =
     (if h \<notin> want then serve_ranges blake3 file ranges want queue
      else if length file < start + (stop - start) \<and> start < stop then (want, queue)
      else (let buf = take (stop - start) (drop start file)
            in if blake3 buf = h then serve_ranges blake3 file ranges (want - {h}) (queue @ [ChunkData h buf])
               else serve_ranges blake3 file ranges want queue))"

fun serve_paths ::
    "('g, 's, 'e) world \<Rightarrow> 's session \<Rightarrow> relpath list \<Rightarrow> chunk_hash set \<Rightarrow> message list \<Rightarrow> message list" where
  "serve_paths w s [] want queue = queue"
| "serve_paths w s (path # paths) want queue =
     (if want = {} then queue
      else case bm_get (ss_outbound_manifests s) path of
        None \<Rightarrow> serve_paths w s paths want queue
      | Some ranges \<Rightarrow>
          (case w_read w path of
             None \<Rightarrow> serve_paths w s paths want queue
           | Some file \<Rightarrow>
               (case serve_ranges (w_blake3 w) file ranges want queue of
                  (want, queue) \<Rightarrow> serve_paths w s paths want queue)))"

definition on_chunk_request :: "('g, 's, 'e) world \<Rightarrow> 's session \<Rightarrow> chunk_hash list \<Rightarrow> 's session" where
  "on_chunk_request w s wanted =
     (if wanted = [] then s
      else let paths = filter (\<lambda>p. case bm_get (ss_outbound_manifests s) p of
                 None \<Rightarrow> False | Some ranges \<Rightarrow> list_ex (\<lambda>(h, _). h \<in> set wanted) ranges)
               (w_order w (bm_keys (ss_outbound_manifests s)))
        in s\<lparr>ss_pending_chunks := serve_paths w s paths (set wanted) (ss_pending_chunks s)\<rparr>)"

definition request_next_batch :: "('g, 's, 'e) world \<Rightarrow> 's session \<Rightarrow> relpath \<Rightarrow> 's session_result" where
  "request_next_batch w s path = (case bm_get (ss_assemblies s) path of
      None \<Rightarrow> Inr (s, [])
    | Some a \<Rightarrow>
        (let batch = next_request_batch (asm_manifest a) (asm_have a) (asm_requested a)
         in if batch = [] then Inr (s, [])
            else send w
              (s\<lparr>ss_assemblies :=
                  bm_insert path (a\<lparr>asm_requested := asm_requested a \<union> set batch\<rparr>) (ss_assemblies s)\<rparr>)
              (ChunkRequest batch)))"

definition read_chunk_file :: "('g, 's, 'e) world \<Rightarrow> 's session \<Rightarrow> chunk_hash \<Rightarrow> cli_error + bytes option" where
  "read_chunk_file w s h =
     (if w_unreadable w h then Inl ChunkReadFailed
      else case ss_chunk_files s h of
        None \<Rightarrow> Inr None | Some b \<Rightarrow> if w_blake3 w b = h then Inr (Some b) else Inr None)"

fun read_chunks :: "('g, 's, 'e) world \<Rightarrow> 's session \<Rightarrow> chunk_hash list \<Rightarrow> bytes \<Rightarrow> cli_error + bytes option" where
  "read_chunks w s [] acc = Inr (Some acc)"
| "read_chunks w s (h # hs) acc = (case read_chunk_file w s h of
      Inl e \<Rightarrow> Inl e
    | Inr None \<Rightarrow> Inr None
    | Inr (Some b) \<Rightarrow> read_chunks w s hs (acc @ b))"

text \<open>A completed assembly: the verified bytes go to the engine and the tree (\<open>Delivered\<close>), or
  the assembly is dropped and a rescan scheduled.\<close>

definition complete_assembly :: "('g, 's, 'e) world \<Rightarrow> 's session \<Rightarrow> relpath \<Rightarrow> 's session_result" where
  "complete_assembly w s path = (case bm_get (ss_assemblies s) path of
      None \<Rightarrow> Inr (s, [])
    | Some asm \<Rightarrow>
        (let s = s\<lparr>ss_assemblies := bm_remove path (ss_assemblies s)\<rparr>;
             cleaned = clean_assembly_chunks s asm
         in case read_chunks w s (asm_manifest asm) [] of
              Inl e \<Rightarrow> Inl e
            | Inr None \<Rightarrow> Inr (cleaned\<lparr>ss_rescan_pending := True\<rparr>, [])
            | Inr (Some bs) \<Rightarrow>
                if \<not> matches_sig (w_blake3 w) bs (asm_sig asm) then Inr (cleaned\<lparr>ss_rescan_pending := True\<rparr>, [])
                else Inr (cleaned, [ingress w cleaned (asm_change asm) (Some bs)])))"

definition advance_assembly :: "('g, 's, 'e) world \<Rightarrow> 's session \<Rightarrow> relpath \<Rightarrow> 's session_result" where
  "advance_assembly w s path =
     (if (case bm_get (ss_assemblies s) path of None \<Rightarrow> False | Some a \<Rightarrow> is_complete (asm_manifest a) (asm_have a))
      then complete_assembly w s path else request_next_batch w s path)"

definition begin_assembly ::
    "'s session \<Rightarrow> remote_change \<Rightarrow> content_sig \<Rightarrow> u64 \<Rightarrow> chunk_hash list \<Rightarrow> 's session" where
  "begin_assembly s c sig sz m =
     s\<lparr>ss_assemblies := bm_insert (rc_path c)
         \<lparr>asm_change = c, asm_sig = sig, asm_manifest = m, asm_manifest_set = set m, asm_have = {},
          asm_requested = {}, asm_total_size = sz, asm_received_bytes = 0\<rparr> (ss_assemblies s)\<rparr>"

definition on_change_manifest ::
    "('g, 's, 'e) world \<Rightarrow> 's session \<Rightarrow> remote_change \<Rightarrow> u64 \<Rightarrow> chunk_hash list \<Rightarrow> 's session_result" where
  "on_change_manifest w s c sz m =
     (case session_allows w s (rc_path c) Inbound of
        (s, False) \<Rightarrow> Inr (s, [])
      | (s, True) \<Rightarrow>
          and_then (flush_queued_send w s (rc_path c)) (\<lambda>s.
            case rc_kind c of
              Removed \<Rightarrow> Inr (s, [])
            | Modified sig \<Rightarrow>
                advance_assembly w (begin_assembly (abandon_superseded s (rc_path c)) c sig sz m) (rc_path c)))"

definition find_assembly :: "('g, 's, 'e) world \<Rightarrow> 's session \<Rightarrow> chunk_hash \<Rightarrow> relpath option" where
  "find_assembly w s h =
     List.find (\<lambda>p. case bm_get (ss_assemblies s) p of
         None \<Rightarrow> False | Some a \<Rightarrow> h \<notin> asm_have a \<and> h \<in> asm_manifest_set a)
       (w_order w (bm_keys (ss_assemblies s)))"

definition update_assembly :: "'s session \<Rightarrow> relpath \<Rightarrow> (assembly \<Rightarrow> assembly) \<Rightarrow> 's session" where
  "update_assembly s path f = (case bm_get (ss_assemblies s) path of
      None \<Rightarrow> s | Some a \<Rightarrow> s\<lparr>ss_assemblies := bm_insert path (f a) (ss_assemblies s)\<rparr>)"

definition on_chunk_data :: "('g, 's, 'e) world \<Rightarrow> 's session \<Rightarrow> chunk_hash \<Rightarrow> bytes \<Rightarrow> 's session_result" where
  "on_chunk_data w s h bs = (case find_assembly w s h of
      None \<Rightarrow> Inr (s, [])
    | Some path \<Rightarrow>
        if w_blake3 w bs \<noteq> h then
          request_next_batch w
            (update_assembly s path (\<lambda>a. a\<lparr>asm_requested := asm_requested a - {h}\<rparr>)) path
        else (case w_stage w h of
            DiskFull torn \<Rightarrow>
              Inr (note_disk_full w (abandon_assembly (s\<lparr>ss_chunk_files := (ss_chunk_files s)(h := torn)\<rparr>) path), [])
          | WriteFailed \<Rightarrow> Inl ChunkWriteFailed
          | Written \<Rightarrow>
              advance_assembly w
                (update_assembly (s\<lparr>ss_chunk_files := (ss_chunk_files s)(h \<mapsto> bs)\<rparr>) path
                  (\<lambda>a. a\<lparr>asm_have := insert h (asm_have a),
                         asm_received_bytes := sat_add (asm_received_bytes a) (of_nat (length bs))\<rparr>)) path))"

definition is_content_frame :: "message \<Rightarrow> bool" where
  "is_content_frame msg \<longleftrightarrow> (case msg of
      Change _ _ \<Rightarrow> True | ChangeManifest _ _ _ \<Rightarrow> True | ChunkRequest _ \<Rightarrow> True | ChunkData _ _ \<Rightarrow> True
    | _ \<Rightarrow> False)"

section \<open>The message loop\<close>

definition on_change :: "('g, 's, 'e) world \<Rightarrow> 's session \<Rightarrow> remote_change \<Rightarrow> bytes option \<Rightarrow> 's session_result" where
  "on_change w s c bs =
     (case session_allows w s (rc_path c) Inbound of
        (s, False) \<Rightarrow> Inr (s, [])
      | (s, True) \<Rightarrow>
          if case_collision w s c then Inr (s, [Collided c bs])
          else and_then (flush_queued_send w s (rc_path c))
            (\<lambda>s. Inr (abandon_superseded s (rc_path c), [Delivered c bs])))"

definition on_message :: "('g, 's, 'e) world \<Rightarrow> 's session \<Rightarrow> message \<Rightarrow> 's session_result" where
  "on_message w s msg =
     (if ss_paused s \<and> is_content_frame msg then Inr (s, [])
      else case msg of
        Hello proto version peer \<Rightarrow> on_hello w s proto version peer
      | IndexExchange peer_index \<Rightarrow> Inr (session_reconcile s peer_index, [])
      | Change c bs \<Rightarrow> on_change w s c bs
      | ChangeManifest c sz m \<Rightarrow> on_change_manifest w s c sz m
      | ChunkRequest hs \<Rightarrow> Inr (on_chunk_request w s hs, [])
      | ChunkData h bs \<Rightarrow> on_chunk_data w s h bs
      | Ping n \<Rightarrow> send w s (Pong n)
      | Pong n \<Rightarrow> Inr (s, [])
      | Pause \<Rightarrow> Inr (on_peer_pause s, [])
      | Resume \<Rightarrow> on_peer_resume w s)"

text \<open>The items of the unified channel other than watcher signals; the flag of \<open>process_incoming\<close>
  asks the loop to leave. \<open>PauseRequest b\<close> is a pause or resume command: the control thread has
  stored \<open>b\<close> in the shared flag when the pump sees it.\<close>

datatype session_item = InMessage message | PeerEof | ProtoFailure | ShutdownRequest | PauseRequest bool

definition process_incoming :: "('g, 's, 'e) world \<Rightarrow> 's session \<Rightarrow> session_item \<Rightarrow> 's session_result \<times> bool" where
  "process_incoming w s item = (case item of
      InMessage msg \<Rightarrow> (on_message w s msg, False)
    | PeerEof \<Rightarrow> if ss_reconnecting s then (Inr (go_offline w s, []), False) else (Inr (s, []), True)
    | ProtoFailure \<Rightarrow> if ss_reconnecting s then (Inr (go_offline w s, []), False) else (Inl SendFailed, False)
    | ShutdownRequest \<Rightarrow> (Inr (s, []), True)
    | PauseRequest b \<Rightarrow> (reconcile_pause_state w (s\<lparr>ss_paused := b\<rparr>), False))"

text \<open>The steps of the pump: one queued item, one bulk sub-batch, a live send of a local change,
  a reconnect attempt, a disk-full retry. A run takes the world as it is at each step.\<close>

datatype session_op =
    Process session_item
  | ShipBulk
  | SendLocal remote_change
  | TryReconnect bool
  | RetryStall

definition session_step :: "('g, 's, 'e) world \<Rightarrow> 's session \<Rightarrow> session_op \<Rightarrow> 's session_result" where
  "session_step w s op = (case op of
      Process item \<Rightarrow> fst (process_incoming w s item)
    | ShipBulk \<Rightarrow> ship_bulk_subbatch w s
    | SendLocal c \<Rightarrow> do_send w s c
    | TryReconnect dial \<Rightarrow> maybe_reconnect w dial s
    | RetryStall \<Rightarrow> maybe_retry_stall w s)"

definition session_run :: "'s session \<Rightarrow> (('g, 's, 'e) world \<times> session_op) list \<Rightarrow> 's session_result" where
  "session_run = out_run (\<lambda>s (w, op). session_step w s op)"

section \<open>Bursts\<close>

text \<open>A queued item: a pending watcher change (only its path matters here) or anything else.\<close>

datatype ('p, 'o) incoming = WatchPending relpath 'p | OtherIncoming 'o

fun pending_path :: "('p, 'o) incoming \<Rightarrow> relpath option" where
  "pending_path (WatchPending p _) = Some p"
| "pending_path (OtherIncoming _) = None"

definition last_pending :: "('p, 'o) incoming list \<Rightarrow> relpath \<Rightarrow> nat option" where
  "last_pending batch p =
     foldl (\<lambda>last (i, item). if pending_path item = Some p then Some i else last) None (enumerate 0 batch)"

definition coalesce_burst :: "('p, 'o) incoming list \<Rightarrow> ('p, 'o) incoming list" where
  "coalesce_burst batch =
     map snd (filter (\<lambda>(i, item). case pending_path item of
         None \<Rightarrow> True
       | Some p \<Rightarrow> last_pending batch p = Some i) (enumerate 0 batch))"

end
