(* ===== verification/Tomo_Outbound.thy ===== *)
theory Tomo_Outbound
  imports Tomo_Session
begin

text \<open>
  What the session's decisions guarantee: an incoming change never clobbers a local edit the
  watcher has not delivered yet, the reconcile backlog is what the peer's index lacks, paused
  sessions ship no content, watcher bursts keep the last state of every path. Two defects of
  the code are proved here as well.
\<close>

section \<open>The apply guard\<close>

lemma prior_expectation_disk:
  assumes "engine_wf e"
  shows "prior_expectation e p = Some (expectation_from_state (disk_state e p))"
proof (cases "index_get (eng_index e) p")
  case None
  then show ?thesis by (simp add: prior_expectation_def disk_state_def expectation_from_state_def)
next
  case (Some entry)
  then obtain w where "winner entry = Some w"
    using entry_winner engine_wf_entry [OF assms] by blast
  with Some show ?thesis by (simp add: prior_expectation_def disk_state_def)
qed

definition state_of_expectation :: "expectation \<Rightarrow> entry_state" where
  "state_of_expectation t = (case t of ExpPresent sig \<Rightarrow> Present sig | ExpAbsent \<Rightarrow> Tombstone)"

lemma expectation_of_state [simp]: "expectation_from_state (state_of_expectation t) = t"
  by (simp add: state_of_expectation_def expectation_from_state_def split: expectation.splits)

text \<open>The head an unobserved edit gets.\<close>

definition local_head :: "engine \<Rightarrow> relpath \<Rightarrow> expectation \<Rightarrow> head" where
  "local_head e p disk =
     \<lparr>hd_version = vc_tick (base_clock e p) (eng_replica e), hd_state = state_of_expectation disk\<rparr>"

lemma reconcile_unobserved_edit:
  assumes "engine_wf e" "\<not> exp_eq disk (expectation_from_state (disk_state e p))" "\<not> is_expected_echo e p disk"
  shows "reconcile_unobserved_local e disk p =
    Some (local_commit e p (base_clock e p) (state_of_expectation disk) (kind_from_state (state_of_expectation disk)))"
proof -
  let ?k = "case disk of ExpPresent sig \<Rightarrow> Modified sig | ExpAbsent \<Rightarrow> Removed"
  have k: "state_from_kind ?k = state_of_expectation disk" "?k = kind_from_state (state_of_expectation disk)"
    by (simp_all add: state_from_kind_def state_of_expectation_def kind_from_state_def split: expectation.splits)
  have "observed ?k = disk" unfolding observed_def k(1) by simp
  moreover have "\<not> state_eq (disk_state e p) (state_of_expectation disk)"
    using assms(2) exp_eq_of_state [of "disk_state e p" "state_of_expectation disk"] exp_eq_sym by auto
  ultimately have "handle_local e \<lparr>lc_path = p, lc_kind = ?k\<rparr> =
      Some (local_commit e p (base_clock e p) (state_of_expectation disk) ?k)"
    using handle_local_edit [OF assms(1), of "\<lparr>lc_path = p, lc_kind = ?k\<rparr>"] assms(3) k(1) by simp
  with assms k(2) show ?thesis
    by (simp add: reconcile_unobserved_local_def prior_expectation_disk needs_local_reconcile_def handle_def)
qed

text \<open>C36: An incoming change never clobbers a local edit the watcher has not reported yet
  (invariant 5). When the file on disk differs from what the index believes and is not the
  echo of one of our own writes, receiving a change for the path first commits the disk state as a new local
  version, ships it, and keeps it as a head after the change is absorbed, whatever the change
  is. The hypothesis on the clocks says that the peer has not seen a later edit of ours than
  we have.\<close>

theorem unobserved_edit_survives:
  assumes "engine_wf e" "vc_ok (rc_version c)"
    and "needs_local_reconcile disk (expectation_from_state (disk_state e (rc_path c)))
           (is_expected_echo e (rc_path c) disk)"
    and "vc_get (base_clock e (rc_path c)) (eng_replica e) \<noteq> - 1"
    and "vc_get (rc_version c) (eng_replica e) \<le> vc_get (base_clock e (rc_path c)) (eng_replica e)"
  shows "\<exists>e' as. receive_change e disk c = Some (e', as) \<and>
    local_head e (rc_path c) disk \<in> set (index_heads (eng_index e') (rc_path c)) \<and>
    head_change (rc_path c) (local_head e (rc_path c) disk) \<in> set (sends as)"
proof -
  let ?p = "rc_path c" and ?h = "local_head e (rc_path c) disk"
  obtain e1 as where r: "local_commit e ?p (base_clock e ?p) (state_of_expectation disk)
      (kind_from_state (state_of_expectation disk)) = (e1, as)"
    using prod.exhaust by blast
  have local: "reconcile_unobserved_local e disk ?p = Some (e1, as)"
    using reconcile_unobserved_edit [OF assms(1), of disk ?p] assms(3) r
    by (simp add: needs_local_reconcile_def)
  have wf: "engine_wf e1"
    using local_commit_wf [OF assms(1,4) r] .
  have get: "index_get (eng_index e1) ?p = Some (entry_single (hd_version ?h) (hd_state ?h))"
    and sent: "head_change ?p ?h \<in> set (sends as)"
    using r by (auto simp: local_commit_def Let_def index_get_put local_head_def head_change_def)
  have newer: "\<not> vc_le (hd_version ?h) (rc_version c)"
  proof
    assume "vc_le (hd_version ?h) (rc_version c)"
    then have "vc_get (base_clock e ?p) (eng_replica e) + 1 \<le> vc_get (rc_version c) (eng_replica e)"
      by (auto simp: vc_le_def local_head_def vc_get_tick dest: spec [of _ "eng_replica e"])
    with assms(4,5) vc_get_max_iff [of "base_clock e ?p" "eng_replica e"] show False by auto
  qed
  let ?s = "state_from_kind (rc_kind c)"
  have single: "heads (entry_single (hd_version ?h) (hd_state ?h)) = [?h]"
    by (simp add: entry_single_def)
  show ?thesis using wf
  proof (cases rule: absorb_remote_cases [where p = ?p and s = ?s and v = "rc_version c"])
    case unseen
    with get show ?thesis by simp
  next
    case (known entry)
    with get local sent single show ?thesis
      by (auto simp: receive_change_def handle_def handle_remote_def index_heads_def)
  next
    case (new entry w w' out)
    with get have entry: "entry = entry_single (hd_version ?h) (hd_state ?h)" by simp
    have "?h \<in> set (absorbed_heads entry (rc_version c) ?s)"
      using new(2) newer single unfolding entry by (simp add: absorbed_heads_set)
    with new local sent show ?thesis
      by (simp add: receive_change_def handle_def handle_remote_def index_heads_def index_get_put)
  qed
qed

theorem unobserved_edit_survives_witness:
  "\<exists>e' as. receive_change (engine_new (ReplicaId 1) index_new) (ExpPresent (demo_sig 9 9)) (demo_remote 2) = Some (e', as) \<and>
    local_head (engine_new (ReplicaId 1) index_new) demo_path (ExpPresent (demo_sig 9 9))
      \<in> set (index_heads (eng_index e') demo_path) \<and>
    head_change demo_path (local_head (engine_new (ReplicaId 1) index_new) demo_path (ExpPresent (demo_sig 9 9)))
      \<in> set (sends as)"
  using unobserved_edit_survives [OF engine_wf_fresh, of "demo_remote 2" "ExpPresent (demo_sig 9 9)" "ReplicaId 1"]
  by (simp add: demo_remote_def needs_local_reconcile_def disk_state_def engine_new_def base_clock_def vc_get_demo
      expectation_from_state_def is_expected_echo_def echo_contains_pending pending_count_def)

section \<open>The reconcile backlog\<close>

text \<open>The queue mirrors its path set and holds one change per path.\<close>

definition queue_wf :: "'s session \<Rightarrow> bool" where
  "queue_wf s \<longleftrightarrow> ss_pending_sends_paths s = rc_path ` set (ss_pending_sends s) \<and>
     distinct (map rc_path (ss_pending_sends s))"

lemma queue_wf_enqueue [tomo_inv]: "queue_wf s \<Longrightarrow> queue_wf (enqueue_bulk_send s c)"
  by (auto simp: queue_wf_def enqueue_bulk_send_def)

lemma queue_wf_reconcile [tomo_inv]: "queue_wf s \<Longrightarrow> queue_wf (session_reconcile s peer)"
  unfolding session_reconcile_def by (rule foldl_invariant) (auto intro: queue_wf_enqueue)

lemma queue_one_per_path:
  assumes "queue_wf s"
  shows "take 1 (filter (\<lambda>c. rc_path c = p) (ss_pending_sends s)) = filter (\<lambda>c. rc_path c = p) (ss_pending_sends s)"
proof -
  let ?q = "filter (\<lambda>q. q = p) (map rc_path (ss_pending_sends s))"
  have "distinct ?q" using assms by (simp add: queue_wf_def)
  moreover have "set ?q \<subseteq> {p}" by auto
  ultimately have "length ?q \<le> 1"
    using card_mono [of "{p}" "set ?q"] distinct_card [of ?q] by simp
  then have "length (filter (\<lambda>c. rc_path c = p) (ss_pending_sends s)) \<le> 1"
    by (simp add: filter_map comp_def)
  then show ?thesis by simp
qed

lemma enqueue_path:
  assumes "queue_wf s"
  shows "filter (\<lambda>c. rc_path c = p) (ss_pending_sends (enqueue_bulk_send s c)) =
    take 1 (filter (\<lambda>c. rc_path c = p) (ss_pending_sends s @ [c]))"
proof (cases "rc_path c = p")
  case False
  with queue_one_per_path [OF assms, of p] show ?thesis by (simp add: enqueue_bulk_send_def)
next
  case True
  show ?thesis
  proof (cases "p \<in> ss_pending_sends_paths s")
    case True
    then have "filter (\<lambda>c. rc_path c = p) (ss_pending_sends s) \<noteq> []"
      using assms by (auto simp: queue_wf_def filter_empty_conv)
    with \<open>rc_path c = p\<close> True queue_one_per_path [OF assms, of p] show ?thesis
      by (cases "filter (\<lambda>c. rc_path c = p) (ss_pending_sends s)") (simp_all add: enqueue_bulk_send_def)
  next
    case False
    then have "filter (\<lambda>c. rc_path c = p) (ss_pending_sends s) = []"
      using assms by (auto simp: queue_wf_def filter_empty_conv)
    with \<open>rc_path c = p\<close> False show ?thesis by (simp add: enqueue_bulk_send_def)
  qed
qed

lemma take1_append: "take 1 (take 1 xs @ ys) = take 1 (xs @ ys)"
  by (cases xs) simp_all

lemma enqueue_all_path:
  "queue_wf s \<Longrightarrow> filter (\<lambda>c. rc_path c = p) (ss_pending_sends (foldl enqueue_bulk_send s cs)) =
     take 1 (filter (\<lambda>c. rc_path c = p) (ss_pending_sends s @ cs))"
proof (induction cs arbitrary: s)
  case Nil
  with queue_one_per_path [of s p] show ?case by simp
next
  case (Cons c cs)
  have "filter (\<lambda>c. rc_path c = p) (ss_pending_sends (foldl enqueue_bulk_send s (c # cs))) =
      take 1 (filter (\<lambda>c. rc_path c = p) (ss_pending_sends (enqueue_bulk_send s c)) @ filter (\<lambda>c. rc_path c = p) cs)"
    using Cons.IH [OF queue_wf_enqueue [OF Cons.prems, of c]] unfolding foldl_Cons filter_append .
  also have "\<dots> = take 1 (filter (\<lambda>c. rc_path c = p) (ss_pending_sends s @ [c]) @ filter (\<lambda>c. rc_path c = p) cs)"
    unfolding enqueue_path [OF Cons.prems] take1_append ..
  finally show ?case by (simp add: filter_append [symmetric] del: filter_append take_append)
qed

lemma peer_covers_iff: "peer_covers peer p h \<longleftrightarrow> covers peer p h"
  by (cases "index_get peer p") (simp_all add: peer_covers_def head_covered_iff covers_def path_versions_def)

lemma concat_filter_key:
  assumes "distinct (map fst kvs)" "\<And>k v x. (k, v) \<in> set kvs \<Longrightarrow> x \<in> set (f k v) \<Longrightarrow> key x = k"
  shows "filter (\<lambda>x. key x = p) (concat (map (\<lambda>(k, v). f k v) kvs)) =
    (case map_of kvs p of None \<Rightarrow> [] | Some v \<Rightarrow> f p v)"
  using assms
proof (induction kvs)
  case (Cons kv kvs)
  obtain k v where kv: "kv = (k, v)" by force
  have mine: "filter (\<lambda>x. key x = p) (f k v) = (if k = p then f k v else [])"
    using Cons.prems(2) [of k v] kv by (auto intro!: filter_True simp: filter_empty_conv)
  moreover have "map_of kvs p = None" if "k = p"
    using Cons.prems(1) kv that by (simp add: map_of_eq_None_iff)
  moreover have "filter (\<lambda>x. key x = p) (concat (map (\<lambda>(k, v). f k v) kvs)) =
      (case map_of kvs p of None \<Rightarrow> [] | Some v \<Rightarrow> f p v)"
    using Cons.prems by (intro Cons.IH) auto
  ultimately show ?case
    using kv by auto
qed simp

lemma rc_path_head_change [simp]: "rc_path (head_change p h) = p"
  by (simp add: head_change_def)

lemma reconcile_changes_path:
  "filter (\<lambda>c. rc_path c = p) (reconcile_changes own peer) =
     map (head_change p) (filter (\<lambda>h. \<not> covers peer p h) (index_heads own p))"
proof -
  let ?f = "\<lambda>path entry. map (head_change path) (filter (\<lambda>h. \<not> peer_covers peer path h) (heads entry))"
  have all: "reconcile_changes own peer = concat (map (\<lambda>(path, entry). ?f path entry) (index_iter own))"
    by (simp add: reconcile_changes_def head_change_def [abs_def])
  have "distinct (map fst (index_iter own))"
    unfolding index_iter_def using bm_entries_ascending sorted_wrt_less_distinct by blast
  then have "filter (\<lambda>c. rc_path c = p) (reconcile_changes own peer) =
      (case map_of (index_iter own) p of None \<Rightarrow> [] | Some entry \<Rightarrow> ?f p entry)"
    unfolding all by (rule concat_filter_key) auto
  moreover have "map_of (index_iter own) p = index_get own p"
    by (simp add: index_iter_def index_get_def bm_get_entries)
  ultimately show ?thesis
    by (simp add: index_heads_def peer_covers_iff split: option.splits)
qed

text \<open>The reconcile backlog: after a peer's index arrives on an idle queue, the change
  queued for a path is the first head (in the canonical order of the entry) that the peer's
  index does not cover, and nothing is queued for a path whose heads are all covered, so a
  reconnect over an unchanged tree is quiet. For an entry without concurrent heads this is
  everything the peer lacks.\<close>

theorem reconcile_backlog:
  assumes "ss_pending_sends s = []" "ss_pending_sends_paths s = {}"
  shows "filter (\<lambda>c. rc_path c = p) (ss_pending_sends (session_reconcile s peer)) =
    map (head_change p)
      (take 1 (filter (\<lambda>h. \<not> covers peer p h) (index_heads (eng_index (ss_engine s)) p)))"
proof -
  have "queue_wf s" using assms by (simp add: queue_wf_def)
  then show ?thesis
    using assms
    by (simp add: session_reconcile_def enqueue_all_path reconcile_changes_path take_map)
qed

text \<open>A concrete session for the witnesses: no rules, an empty tree of staging files, one
  file in the tree, and a stand-in hash that repeats the first byte.\<close>

definition demo_config :: "string list config" where
  "demo_config = \<lparr>cf_history = \<lparr>history_mode_of = CfgAdaptive\<rparr>, cf_sync = \<lparr>default_ignores = False\<rparr>,
     cf_remote = None, cf_rules = [], cf_effective = [], cf_rule_set = []\<rparr>"

definition demo_session :: "engine \<Rightarrow> string list session" where
  "demo_session e = \<lparr>ss_config = demo_config, ss_engine = e, ss_binary_version = ''1'', ss_transport = True,
     ss_ssh_params = False, ss_reconnecting = True, ss_repush_requested = False, ss_connected = True,
     ss_hello_received = True, ss_peer_replica = None, ss_noted_ignored = {}, ss_rescan_pending = False,
     ss_disk_stalled = False, ss_last_stall_retry = 0, ss_paused = False, ss_paused_acted = False,
     ss_peer_paused = False, ss_offline_since = None, ss_next_reconnect_at = None, ss_backoff = RECONNECT_MIN,
     ss_assemblies = bm_empty, ss_chunk_files = (\<lambda>_. None), ss_outbound_manifests = bm_empty,
     ss_pending_chunks = [], ss_pending_sends = [], ss_pending_sends_paths = {},
     ss_pending_installs = [], ss_pending_install_paths = {}, ss_created_dirs = {}\<rparr>"

definition demo_blake3 :: "bytes \<Rightarrow> content_hash" where
  "demo_blake3 bs = ContentHash (replicate 32 (case bs of [] \<Rightarrow> 0 | b # _ \<Rightarrow> b))"

definition demo_world :: "(string, string list, unit) world" where
  "demo_world = \<lparr>w_globs = literal_api, w_read = (\<lambda>p. if p = demo_path then Some [2, 2, 2] else None),
     w_blake3 = demo_blake3, w_chunker = (\<lambda>bs. [(demo_blake3 bs, 0, length bs)]), w_send_ok = (\<lambda>_. True),
     w_stage = (\<lambda>_. Written), w_unreadable = (\<lambda>_. False), w_now = 0, w_order = (\<lambda>ps. ps), w_case_insensitive = False, w_casefold = id\<rparr>"

text \<open>Two concurrent versions of the demo path; the second one wins and is on disk.\<close>

definition demo_loser :: head where
  "demo_loser = \<lparr>hd_version = demo_clock 1, hd_state = Present (demo_sig 1 1)\<rparr>"

definition demo_winner :: head where
  "demo_winner = \<lparr>hd_version = demo_clock 2, hd_state = Present (demo_sig 2 2)\<rparr>"

definition demo_conflict :: index where
  "demo_conflict = index_put index_new demo_path \<lparr>heads = [demo_loser, demo_winner]\<rparr>"

lemma demo_winner_wins: "winner \<lparr>heads = [demo_loser, demo_winner]\<rparr> = Some demo_winner"
proof -
  have "replicate 32 (1 :: u8) < replicate 32 2" by (simp add: numeral_eq_Suc)
  then have "winner_cmp demo_winner demo_loser mode = Greater" for mode
    by (auto simp: winner_cmp_def demo_winner_def demo_loser_def demo_sig_def cmp_then_def Let_def cmp_def
        dest: less_asym)
  then show ?thesis by (simp add: winner_def)
qed

lemma covers_new [simp]: "covers index_new p h \<longleftrightarrow> False"
  by (simp add: covers_def path_versions_def)

lemma heads_demo_conflict [simp]: "index_heads demo_conflict demo_path = [demo_loser, demo_winner]"
  by (simp add: index_heads_def demo_conflict_def index_get_put)

theorem reconcile_backlog_witness:
  "filter (\<lambda>c. rc_path c = demo_path)
     (ss_pending_sends (session_reconcile (demo_session (engine_new (ReplicaId 1) demo_conflict)) index_new)) =
   [head_change demo_path demo_loser]"
  using reconcile_backlog [of "demo_session (engine_new (ReplicaId 1) demo_conflict)" demo_path index_new]
  by (simp add: demo_session_def engine_new_def)

lemma prepare_send_stale:
  assumes "rc_kind c = Modified sig" "\<not> should_send (w_blake3 w) (w_read w (rc_path c)) sig"
  shows "snd (prepare_send w s c) = None"
  using assms by (auto simp: prepare_send_def Let_def split: prod.splits bool.splits)

text \<open>A defect of the reconcile backlog. \<open>enqueue_bulk_send\<close> keeps one change per path, so
  of two concurrent heads the peer lacks only the canonically first is queued. When that head
  is the conflict's loser the tree holds other bytes, \<open>prepare_send\<close> drops the change as
  stale, and nothing of the path is shipped at all: the peer does not get the winner either,
  although its bytes are on disk (the witness: a peer with an empty index).\<close>

theorem second_head_not_shipped:
  assumes "ss_pending_sends s = []" "ss_pending_sends_paths s = {}"
    and "filter (\<lambda>h. \<not> covers peer p h) (index_heads (eng_index (ss_engine s)) p) = g # hs"
    and "hd_state g = Present sig" "\<not> should_send (w_blake3 w) (w_read w p) sig"
  shows "\<forall>c \<in> set (ss_pending_sends (session_reconcile s peer)).
    rc_path c = p \<longrightarrow> snd (prepare_send w s' c) = None"
proof (intro ballI impI)
  fix c assume "c \<in> set (ss_pending_sends (session_reconcile s peer))" "rc_path c = p"
  then have "c \<in> set (filter (\<lambda>c. rc_path c = p) (ss_pending_sends (session_reconcile s peer)))" by simp
  moreover have "queue_wf s" using assms(1,2) by (simp add: queue_wf_def)
  ultimately have "c = head_change p g"
    using assms(1-3) by (simp add: session_reconcile_def enqueue_all_path reconcile_changes_path)
  with assms(4,5) show "snd (prepare_send w s' c) = None"
    by (intro prepare_send_stale) (simp_all add: head_change_def kind_from_state_def)
qed

theorem second_head_not_shipped_witness:
  "winner \<lparr>heads = [demo_loser, demo_winner]\<rparr> = Some demo_winner \<and>
   should_send (w_blake3 demo_world) (w_read demo_world demo_path) (demo_sig 2 2) \<and>
   filter (\<lambda>c. rc_path c = demo_path \<and>
       snd (prepare_send demo_world (demo_session (engine_new (ReplicaId 1) demo_conflict)) c) \<noteq> None)
     (ss_pending_sends (session_reconcile (demo_session (engine_new (ReplicaId 1) demo_conflict)) index_new)) = []"
proof (intro conjI)
  let ?s = "demo_session (engine_new (ReplicaId 1) demo_conflict)"
  show "winner \<lparr>heads = [demo_loser, demo_winner]\<rparr> = Some demo_winner"
    by (rule demo_winner_wins)
  show "should_send (w_blake3 demo_world) (w_read demo_world demo_path) (demo_sig 2 2)"
    by (simp add: should_send_def demo_world_def matches_sig_def demo_sig_def demo_blake3_def)
  have "\<not> should_send (w_blake3 demo_world) (w_read demo_world demo_path) (demo_sig 1 1)"
    by (simp add: should_send_def demo_world_def matches_sig_def demo_sig_def demo_blake3_def content_hash_eq_iff)
  then have "\<forall>c \<in> set (ss_pending_sends (session_reconcile ?s index_new)).
      rc_path c = demo_path \<longrightarrow> snd (prepare_send demo_world ?s c) = None"
    by (intro second_head_not_shipped [where g = demo_loser and hs = "[demo_winner]" and sig = "demo_sig 1 1"])
      (simp_all add: demo_session_def engine_new_def demo_loser_def)
  then show "filter (\<lambda>c. rc_path c = demo_path \<and> snd (prepare_send demo_world ?s c) \<noteq> None)
      (ss_pending_sends (session_reconcile ?s index_new)) = []"
    by (simp add: filter_empty_conv)
qed

section \<open>Pausing\<close>

text \<open>What the handlers leave alone.\<close>

lemma clean_keeps [simp]:
  "ss_paused (clean_assembly_chunks s a) = ss_paused s"
  "ss_peer_paused (clean_assembly_chunks s a) = ss_peer_paused s"
  "ss_pending_chunks (clean_assembly_chunks s a) = ss_pending_chunks s"
  "ss_assemblies (clean_assembly_chunks s a) = ss_assemblies s"
  "ss_pending_sends (clean_assembly_chunks s a) = ss_pending_sends s"
  "ss_pending_sends_paths (clean_assembly_chunks s a) = ss_pending_sends_paths s"
  "ss_backoff (clean_assembly_chunks s a) = ss_backoff s"
  by (simp_all add: clean_assembly_chunks_def)

lemma foldl_keeps: "(\<And>s x. f (g s x) = f s) \<Longrightarrow> f (foldl g s xs) = f s"
  by (induction xs arbitrary: s) simp_all

lemma abandon_all_keeps [simp]:
  "ss_paused (abandon_all_assemblies s) = ss_paused s"
  "ss_peer_paused (abandon_all_assemblies s) = ss_peer_paused s"
  "ss_backoff (abandon_all_assemblies s) = ss_backoff s"
  by (simp_all add: abandon_all_assemblies_def foldl_keeps [of ss_paused] foldl_keeps [of ss_peer_paused]
      foldl_keeps [of ss_backoff])

lemma suspend_keeps [simp]:
  "ss_paused (suspend_transfers s) = ss_paused s" "ss_peer_paused (suspend_transfers s) = ss_peer_paused s"
  "ss_backoff (suspend_transfers s) = ss_backoff s"
  "ss_pending_chunks (suspend_transfers s) = []" "ss_pending_sends (suspend_transfers s) = []"
  "ss_pending_sends_paths (suspend_transfers s) = {}"
  by (simp_all add: suspend_transfers_def abandon_pending_installs_def)

lemma offline_keeps [simp]:
  "ss_paused (go_offline w s) = ss_paused s" "ss_peer_paused (go_offline w s) = ss_peer_paused s"
  "ss_pending_chunks s = [] \<Longrightarrow> ss_pending_chunks (go_offline w s) = []"
  by (simp_all add: go_offline_def)

lemma abandon_keeps [simp]:
  "ss_paused (abandon_assembly s p) = ss_paused s" "ss_peer_paused (abandon_assembly s p) = ss_peer_paused s"
  "ss_pending_sends (abandon_assembly s p) = ss_pending_sends s"
  "ss_pending_sends_paths (abandon_assembly s p) = ss_pending_sends_paths s"
  "ss_backoff (abandon_assembly s p) = ss_backoff s"
  "ss_pending_chunks (abandon_assembly s p) = ss_pending_chunks s"
  by (simp_all add: abandon_assembly_def split: option.splits)

lemma superseded_keeps [simp]:
  "ss_paused (abandon_superseded s p) = ss_paused s" "ss_peer_paused (abandon_superseded s p) = ss_peer_paused s"
  "ss_pending_sends (abandon_superseded s p) = ss_pending_sends s"
  "ss_pending_sends_paths (abandon_superseded s p) = ss_pending_sends_paths s"
  "ss_backoff (abandon_superseded s p) = ss_backoff s"
  "ss_pending_chunks (abandon_superseded s p) = ss_pending_chunks s"
  by (simp_all add: abandon_superseded_def foldl_keeps [of ss_paused] foldl_keeps [of ss_peer_paused]
      foldl_keeps [of ss_pending_sends] foldl_keeps [of ss_pending_sends_paths] foldl_keeps [of ss_backoff]
      foldl_keeps [of ss_pending_chunks])

lemma enqueue_keeps [simp]:
  "ss_paused (enqueue_bulk_send s c) = ss_paused s" "ss_peer_paused (enqueue_bulk_send s c) = ss_peer_paused s"
  "ss_pending_chunks (enqueue_bulk_send s c) = ss_pending_chunks s"
  "ss_backoff (enqueue_bulk_send s c) = ss_backoff s" "ss_assemblies (enqueue_bulk_send s c) = ss_assemblies s"
  by (simp_all add: enqueue_bulk_send_def)

lemma reconcile_keeps [simp]:
  "ss_paused (session_reconcile s i) = ss_paused s" "ss_peer_paused (session_reconcile s i) = ss_peer_paused s"
  "ss_pending_chunks (session_reconcile s i) = ss_pending_chunks s"
  "ss_backoff (session_reconcile s i) = ss_backoff s" "ss_assemblies (session_reconcile s i) = ss_assemblies s"
  by (simp_all add: session_reconcile_def foldl_keeps [of ss_paused] foldl_keeps [of ss_peer_paused]
      foldl_keeps [of ss_pending_chunks] foldl_keeps [of ss_backoff] foldl_keeps [of ss_assemblies])

lemma allows_keeps:
  "session_allows w s p f = (s', ok) \<Longrightarrow> \<exists>seen. s' = s\<lparr>ss_noted_ignored := seen\<rparr>"
  by (auto simp: session_allows_def split: prod.splits)

text \<open>A write either happens, or nothing is written and the session may go offline.\<close>

lemma send_cases:
  assumes "send w s msg = Inr (s', es)"
  obtains (sent) "s' = s" "es = [Sent msg]" | (skipped) "s' = s" "es = []" | (offline) "s' = go_offline w s" "es = []"
  using assms by (auto simp: send_def split: if_splits)

lemma prepare_send_suspended [simp]: "outbound_suspended s \<Longrightarrow> prepare_send w s c = (s, None)"
  by (simp add: prepare_send_def)

lemma fill_invariant:
  assumes "fill_subbatch w s batch = (s', batch')" "P s"
    and "\<And>s m rest. ss_pending_chunks s = m # rest \<Longrightarrow> P s \<Longrightarrow> P (s\<lparr>ss_pending_chunks := rest\<rparr>)"
    and "\<And>s c rest s' m. ss_pending_sends s = c # rest \<Longrightarrow> P s \<Longrightarrow>
      prepare_send w (s\<lparr>ss_pending_sends := rest, ss_pending_sends_paths := ss_pending_sends_paths s - {rc_path c}\<rparr>) c = (s', m) \<Longrightarrow> P s'"
  shows "P s'"
  using assms
proof (induction w s batch rule: fill_subbatch.induct)
  case (1 w s batch)
  show ?case
  proof (cases "SEND_BATCH_FRAMES \<le> length batch")
    case True
    with 1(4,5) show ?thesis by simp
  next
    case False
    show ?thesis
    proof (cases "ss_pending_chunks s")
      case (Cons m rest)
      with False 1(4) have "fill_subbatch w (s\<lparr>ss_pending_chunks := rest\<rparr>) (batch @ [m]) = (s', batch')" by simp
      from 1(3) [OF False Cons this 1(6) [OF Cons 1(5)] 1(6,7)] show ?thesis .
    next
      case Nil
      show ?thesis
      proof (cases "ss_pending_sends s")
        case (Cons c rest)
        obtain s1 m where p: "prepare_send w (s\<lparr>ss_pending_sends := rest,
            ss_pending_sends_paths := ss_pending_sends_paths s - {rc_path c}\<rparr>) c = (s1, m)"
          by fastforce
        have s1: "P s1" by (rule 1(7) [OF Cons 1(5) p])
        show ?thesis
        proof (cases m)
          case None
          with False Nil Cons p 1(4) have "fill_subbatch w s1 batch = (s', batch')" by simp
          from 1(1) [OF False Nil Cons p [symmetric] None this s1 1(6,7)] show ?thesis .
        next
          case (Some x)
          with False Nil Cons p 1(4) have "fill_subbatch w s1 (batch @ [x]) = (s', batch')" by simp
          from 1(2) [OF False Nil Cons p [symmetric] Some this s1 1(6,7)] show ?thesis .
        qed
      qed (use Nil False 1(4,5) in simp)
    qed
  qed
qed

lemma fill_suspended:
  "outbound_suspended s \<Longrightarrow> fill_subbatch w s batch = (s', batch') \<Longrightarrow>
     ss_paused s' = ss_paused s \<and> ss_peer_paused s' = ss_peer_paused s \<and>
     (ss_pending_chunks s = [] \<longrightarrow> ss_pending_chunks s' = []) \<and>
     set batch' \<subseteq> set batch \<union> set (ss_pending_chunks s)"
proof (induction w s batch rule: fill_subbatch.induct)
  case (1 w s batch)
  show ?case
  proof (cases "SEND_BATCH_FRAMES \<le> length batch")
    case True
    with 1(5) show ?thesis by simp
  next
    case False
    show ?thesis
    proof (cases "ss_pending_chunks s")
      case (Cons m rest)
      with 1(3) [OF False Cons] 1(4,5) False show ?thesis
        by (auto simp: outbound_suspended_def)
    next
      case Nil
      show ?thesis
      proof (cases "ss_pending_sends s")
        case (Cons c rest)
        let ?s = "s\<lparr>ss_pending_sends := rest, ss_pending_sends_paths := ss_pending_sends_paths s - {rc_path c}\<rparr>"
        have susp: "outbound_suspended ?s" using 1(4) by (simp add: outbound_suspended_def)
        then have "fill_subbatch w s batch = fill_subbatch w ?s batch"
          using False Nil Cons by simp
        with 1(1) [OF False Nil Cons prepare_send_suspended [OF susp, symmetric] refl susp] 1(5) Nil show ?thesis
          by simp
      qed (use Nil False 1(5) in simp)
    qed
  qed
qed

text \<open>A paused session with nothing left in the chunk queue, and the effects it may have.\<close>

definition at_rest :: "'s session \<Rightarrow> bool" where
  "at_rest s \<longleftrightarrow> ss_paused s \<and> ss_pending_chunks s = []"

definition control_only :: "effect \<Rightarrow> bool" where
  "control_only e \<longleftrightarrow> (case e of Sent msg \<Rightarrow> \<not> is_content_frame msg | _ \<Rightarrow> False)"

lemma send_at_rest:
  assumes "at_rest s" "\<not> is_content_frame msg" "send w s msg = Inr (s', es)"
  shows "at_rest s' \<and> list_all control_only es"
  using assms(3) by (cases rule: send_cases) (use assms in \<open>simp_all add: at_rest_def control_only_def\<close>)

lemma resync_at_rest:
  assumes "at_rest s" "resync_indices w s = Inr (s', es)"
  shows "at_rest s' \<and> list_all control_only es"
  using assms send_at_rest [of s "IndexExchange (eng_index (ss_engine s))" w s' es]
  by (auto simp: resync_indices_def is_content_frame_def split: if_splits)

lemma hello_at_rest:
  assumes "at_rest s" "on_hello w s proto version peer = Inr (s', es)"
  shows "at_rest s' \<and> list_all control_only es"
proof (cases "proto = PROTOCOL_VERSION \<and> version = ss_binary_version s")
  case False
  with assms show ?thesis by (auto simp: on_hello_def at_rest_def split: if_splits)
next
  case True
  let ?s = "s\<lparr>ss_hello_received := True, ss_connected := True, ss_peer_replica := Some peer\<rparr>"
  from True assms(2) obtain s1 xs ys where
    1: "send w ?s (IndexExchange (eng_index (ss_engine ?s))) = Inr (s1, xs)"
    and 2: "(if ss_paused s1 then send w s1 Pause else Inr (s1, [])) = Inr (s', ys)" and es: "es = xs @ ys"
    by (auto simp: on_hello_def Let_def and_then_Inr)
  have "at_rest s1 \<and> list_all control_only xs"
    using assms(1) by (intro send_at_rest [OF _ _ 1]) (simp_all add: at_rest_def is_content_frame_def)
  with 2 es send_at_rest [of s1 Pause w s' ys] show ?thesis
    by (auto simp: is_content_frame_def at_rest_def split: if_splits)
qed

lemma message_at_rest:
  assumes "at_rest s" "on_message w s msg = Inr (s', es)"
  shows "at_rest s' \<and> list_all control_only es"
proof -
  have paused: "ss_paused s" using assms(1) by (simp add: at_rest_def)
  have hello: "at_rest s' \<and> list_all control_only es" if "msg = Hello a b c" for a b c
    using hello_at_rest [OF assms(1), of w a b c s' es] assms(2) that
    by (simp add: on_message_def is_content_frame_def)
  from paused assms show ?thesis
    using hello resync_at_rest [of "s\<lparr>ss_peer_paused := False\<rparr>" w s' es]
      send_at_rest [OF assms(1), of "Pong (nonce msg)" w s' es]
    by (cases msg) (auto simp: on_message_def is_content_frame_def at_rest_def on_peer_pause_def on_peer_resume_def)
qed

lemma step_at_rest:
  assumes "at_rest s" "op \<noteq> Process (PauseRequest False)" "session_step w s op = Inr (s', es)"
  shows "at_rest s' \<and> list_all control_only es"
proof (cases op)
  case (Process item)
  show ?thesis
  proof (cases item)
    case (InMessage msg)
    with assms(1,3) Process message_at_rest show ?thesis by (simp add: session_step_def process_incoming_def)
  next
    case (PauseRequest b)
    with assms Process show ?thesis
      using send_at_rest [of "suspend_transfers (s\<lparr>ss_paused := True, ss_paused_acted := True\<rparr>)" Pause w s' es]
      by (auto simp: session_step_def process_incoming_def reconcile_pause_state_def enter_pause_def at_rest_def
          is_content_frame_def split: if_splits)
  qed (use assms Process in \<open>auto simp: session_step_def process_incoming_def at_rest_def split: if_splits\<close>)
next
  case ShipBulk
  have susp: "outbound_suspended s" using assms(1) by (simp add: at_rest_def outbound_suspended_def)
  obtain s1 batch where f: "fill_subbatch w s [] = (s1, batch)" by (cases "fill_subbatch w s []")
  have "at_rest s1 \<and> batch = []"
    using fill_suspended [OF susp f] assms(1) by (auto simp: at_rest_def)
  with f ShipBulk assms(3) show ?thesis
    by (auto simp: session_step_def ship_bulk_subbatch_def)
next
  case (SendLocal c)
  have "outbound_suspended s" using assms(1) by (simp add: at_rest_def outbound_suspended_def)
  with SendLocal assms show ?thesis by (auto simp: session_step_def do_send_def send_prepared_def)
next
  case (TryReconnect dial)
  let ?s = "s\<lparr>ss_transport := True, ss_offline_since := None, ss_next_reconnect_at := None, ss_backoff := RECONNECT_MIN\<rparr>"
  have "at_rest ?s" "at_rest (reconnect_failed w s)"
    using assms(1) by (simp_all add: at_rest_def reconnect_failed_def Let_def)
  with TryReconnect assms show ?thesis
    using send_at_rest [of ?s "Hello PROTOCOL_VERSION (ss_binary_version s) (eng_replica (ss_engine s))" w s' es]
    by (auto simp: session_step_def maybe_reconnect_def on_reconnected_def send_opening_hello_def
        is_content_frame_def split: if_splits)
next
  case RetryStall
  let ?s = "s\<lparr>ss_last_stall_retry := w_now w, ss_disk_stalled := False\<rparr>"
  have "at_rest ?s" using assms(1) by (simp add: at_rest_def)
  with RetryStall assms show ?thesis
    using send_at_rest [of ?s "IndexExchange (eng_index (ss_engine s))" w s' es]
    by (auto simp: session_step_def maybe_retry_stall_def Let_def is_content_frame_def split: if_splits)
qed

interpretation resting: output_machine "\<lambda>s (w, op). session_step w s op" at_rest
    "\<lambda>(w, op). op \<noteq> Process (PauseRequest False)" control_only
  by unfold_locales (auto dest: step_at_rest)

text \<open>C37: A paused session is silent. From the moment the pump acts on a pause command until a
  resume command, whatever messages arrive, connections drop, reconnects happen and local
  changes are made, the session writes only control frames (handshake, index, liveness,
  pause and resume) and hands no incoming change to the engine. Local changes are still taken by
  the engine and versioned; they are shipped after the resume.\<close>

theorem paused_session_silent:
  assumes "ss_paused_acted s = False"
    and "\<forall>op \<in> snd ` set ops. op \<noteq> Process (PauseRequest False)"
    and "session_run s ((w, Process (PauseRequest True)) # ops) = Inr (s', es)"
  shows "\<forall>e \<in> set es. control_only e"
proof -
  from assms(3) obtain s1 xs ys where
    1: "session_step w s (Process (PauseRequest True)) = Inr (s1, xs)"
    and 2: "session_run s1 ops = Inr (s', ys)" and es: "es = xs @ ys"
    by (auto simp: and_then_Inr session_run_def)
  have "at_rest s1 \<and> list_all control_only xs"
    using 1 assms(1) send_at_rest [of "suspend_transfers (s\<lparr>ss_paused := True, ss_paused_acted := True\<rparr>)" Pause w s1 xs]
    by (auto simp: session_step_def process_incoming_def reconcile_pause_state_def enter_pause_def at_rest_def
        is_content_frame_def)
  moreover from this have "at_rest s' \<and> list_all control_only ys"
    using 2 assms(2)
    by (intro resting.run_ok [where ms = ops]) (auto simp: session_run_def)
  ultimately show ?thesis using es by (auto simp: list_all_iff)
qed

theorem paused_session_silent_witness:
  "\<exists>s' es. session_run (demo_session (engine_new (ReplicaId 1) (demo_index 2)))
      ((demo_world, Process (PauseRequest True)) #
       [(demo_world, Process (InMessage (Change (demo_remote 2) None))), (demo_world, SendLocal (demo_remote 2))]) = Inr (s', es) \<and>
    Sent Pause \<in> set es \<and> list_all control_only es"
proof -
  let ?s = "demo_session (engine_new (ReplicaId 1) (demo_index 2))"
  let ?ops = "[(demo_world, Process (InMessage (Change (demo_remote 2) None))), (demo_world, SendLocal (demo_remote 2))]"
  have "\<exists>s'. session_run ?s ((demo_world, Process (PauseRequest True)) # ?ops) = Inr (s', [Sent Pause])"
    by (simp add: session_run_def session_step_def process_incoming_def reconcile_pause_state_def enter_pause_def send_def demo_world_def
        demo_session_def suspend_transfers_def abandon_pending_installs_def abandon_all_assemblies_def and_then_def on_message_def is_content_frame_def
        do_send_def send_prepared_def outbound_suspended_def prepare_send_def bm_values_def)
  then obtain s' where run: "session_run ?s ((demo_world, Process (PauseRequest True)) # ?ops) = Inr (s', [Sent Pause])"
    by blast
  have "\<forall>e \<in> set [Sent Pause]. control_only e"
    by (rule paused_session_silent [OF _ _ run]) (simp_all add: demo_session_def)
  with run show ?thesis by (intro exI [of _ s'] exI [of _ "[Sent Pause]"] conjI) simp_all
qed

text \<open>A session that believes its peer is paused, and the effects that announce a change.\<close>

definition holding :: "'s session \<Rightarrow> bool" where
  "holding s \<longleftrightarrow> ss_peer_paused s \<and> list_all (\<lambda>m. \<exists>h b. m = ChunkData h b) (ss_pending_chunks s)"

definition announces :: "effect \<Rightarrow> bool" where
  "announces e \<longleftrightarrow> (\<exists>c b. e = Sent (Change c b)) \<or> (\<exists>c n m. e = Sent (ChangeManifest c n m))"

lemma holding_suspended: "holding s \<Longrightarrow> outbound_suspended s"
  by (simp add: holding_def outbound_suspended_def)

lemma holding_offline: "holding s \<Longrightarrow> holding (go_offline w s)"
  by (simp add: holding_def go_offline_def)

lemma send_holding:
  assumes "send w s msg = Inr (s', es)" "holding s" "\<not> announces (Sent msg)"
  shows "holding s' \<and> list_all (\<lambda>e. \<not> announces e) es"
  using assms(1) by (cases rule: send_cases) (use assms holding_offline [of s w] in auto)

lemma serve_ranges_holding:
  "serve_ranges b bs rs want q = (want', q') \<Longrightarrow> list_all (\<lambda>m. \<exists>h b. m = ChunkData h b) q \<Longrightarrow>
     list_all (\<lambda>m. \<exists>h b. m = ChunkData h b) q'"
  by (induction b bs rs want q rule: serve_ranges.induct) (auto simp: Let_def split: if_splits)

lemma serve_paths_holding:
  "list_all (\<lambda>m. \<exists>h b. m = ChunkData h b) q \<Longrightarrow> list_all (\<lambda>m. \<exists>h b. m = ChunkData h b) (serve_paths w s ps want q)"
  by (induction ps arbitrary: want q) (auto split: option.splits prod.split dest: serve_ranges_holding)

lemma request_holding:
  assumes "request_next_batch w s p = Inr (s', es)" "holding s"
  shows "holding s' \<and> list_all (\<lambda>e. \<not> announces e) es"
proof (cases "bm_get (ss_assemblies s) p")
  case None
  with assms show ?thesis by (auto simp: request_next_batch_def)
next
  case (Some a)
  let ?b = "next_request_batch (asm_manifest a) (asm_have a) (asm_requested a)"
  show ?thesis
  proof (cases "?b = []")
    case False
    with assms Some show ?thesis
      by (intro send_holding [of w "s\<lparr>ss_assemblies := bm_insert p (a\<lparr>asm_requested := asm_requested a \<union> set ?b\<rparr>)
            (ss_assemblies s)\<rparr>" "ChunkRequest ?b"])
        (auto simp: request_next_batch_def Let_def holding_def announces_def)
  qed (use assms Some in \<open>auto simp: request_next_batch_def\<close>)
qed

lemma complete_holding:
  "complete_assembly w s p = Inr (s', es) \<Longrightarrow> holding s \<Longrightarrow> holding s' \<and> list_all (\<lambda>e. \<not> announces e) es"
  by (auto simp: complete_assembly_def Let_def holding_def announces_def ingress_def split: sum.splits option.splits if_splits)

lemma advance_holding:
  "advance_assembly w s p = Inr (s', es) \<Longrightarrow> holding s \<Longrightarrow> holding s' \<and> list_all (\<lambda>e. \<not> announces e) es"
  unfolding advance_assembly_def using complete_holding request_holding by metis

lemma flush_holding:
  "flush_queued_send w s p = Inr (s', es) \<Longrightarrow> holding s \<Longrightarrow> holding s' \<and> es = []"
  by (auto simp: flush_queued_send_def Let_def holding_def send_prepared_def outbound_suspended_def
      split: if_splits option.splits)

lemma holding_abandon: "holding s \<Longrightarrow> holding (abandon_superseded s p)" "holding s \<Longrightarrow> holding (abandon_assembly s p)"
  by (simp_all add: holding_def)

lemma chunk_data_holding:
  assumes "on_chunk_data w s h bs = Inr (s', es)" "holding s"
  shows "holding s' \<and> list_all (\<lambda>e. \<not> announces e) es"
proof (cases "find_assembly w s h")
  case None
  with assms show ?thesis by (auto simp: on_chunk_data_def)
next
  case (Some p)
  have upd: "holding (update_assembly s p f)"
    "holding (update_assembly (s\<lparr>ss_chunk_files := fs\<rparr>) p f)" for f fs
    using assms(2) by (simp_all add: holding_def update_assembly_def split: option.splits)
  have dropped: "holding (note_disk_full w (abandon_assembly (s\<lparr>ss_chunk_files := fs\<rparr>) p))" for fs
    using holding_abandon(2) [of "s\<lparr>ss_chunk_files := fs\<rparr>" p] assms(2) by (simp add: holding_def note_disk_full_def)
  from assms Some show ?thesis
    using request_holding [OF _ upd(1)] advance_holding [OF _ upd(2)] dropped
    by (fastforce simp: on_chunk_data_def split: if_splits write_outcome.splits)
qed

lemma manifest_holding:
  assumes "on_change_manifest w s c sz m = Inr (s', es)" "holding s"
  shows "holding s' \<and> list_all (\<lambda>e. \<not> announces e) es"
proof -
  obtain s1 ok where allow: "session_allows w s (rc_path c) Inbound = (s1, ok)" by fastforce
  then have s1: "holding s1" using assms(2) allows_keeps [OF allow] by (auto simp: holding_def)
  show ?thesis
  proof (cases ok)
    case True
    with assms(1) allow obtain s2 xs ys where "flush_queued_send w s1 (rc_path c) = Inr (s2, xs)" "es = xs @ ys"
      and rest: "(case rc_kind c of Removed \<Rightarrow> Inr (s2, []) | Modified sig \<Rightarrow>
          advance_assembly w (begin_assembly (abandon_superseded s2 (rc_path c)) c sig sz m) (rc_path c)) = Inr (s', ys)"
      by (auto simp: on_change_manifest_def and_then_Inr)
    then have s2: "holding s2" "es = ys" using flush_holding [OF _ s1] by auto
    have "holding (begin_assembly (abandon_superseded s2 (rc_path c)) c sig sz m)" for sig
      using holding_abandon(1) [OF s2(1), of "rc_path c"] by (simp add: holding_def begin_assembly_def)
    with rest s2 show ?thesis
      using advance_holding by (fastforce split: change_kind.splits)
  qed (use assms(1) allow s1 in \<open>auto simp: on_change_manifest_def\<close>)
qed

lemma change_holding:
  assumes "on_change w s c bs = Inr (s', es)" "holding s"
  shows "holding s' \<and> list_all (\<lambda>e. \<not> announces e) es"
proof -
  obtain s1 ok where allow: "session_allows w s (rc_path c) Inbound = (s1, ok)" by fastforce
  then have s1: "holding s1" using assms(2) allows_keeps [OF allow] by (auto simp: holding_def)
  show ?thesis
  proof (cases "ok \<and> \<not> case_collision w s1 c")
    case True
    then show ?thesis using assms(1) allow s1 flush_holding [OF _ s1] holding_abandon(1)
      by (fastforce simp: on_change_def and_then_Inr announces_def)
  qed (use assms(1) allow s1 in \<open>cases ok; auto simp: on_change_def announces_def\<close>)
qed

lemma fill_chunks:
  "fill_subbatch w s batch = (s', batch') \<Longrightarrow> set (ss_pending_chunks s') \<subseteq> set (ss_pending_chunks s)"
  by (erule fill_invariant [where P = "\<lambda>s'. set (ss_pending_chunks s') \<subseteq> set (ss_pending_chunks s)"])
    (auto dest!: prepare_send_keeps)

lemma exit_holding:
  assumes "exit_pause w s = Inr (s', es)" "holding s"
  shows "holding s' \<and> list_all (\<lambda>e. \<not> announces e) es"
proof -
  from assms(1) obtain s1 xs ys where
    1: "send w s Resume = Inr (s1, xs)" and 2: "resync_indices w s1 = Inr (s', ys)" and es: "es = xs @ ys"
    by (auto simp: exit_pause_def and_then_Inr)
  have "holding s1 \<and> list_all (\<lambda>e. \<not> announces e) xs"
    using send_holding [OF 1 assms(2)] by (simp add: announces_def)
  with 2 es send_holding [of w s1 "IndexExchange (eng_index (ss_engine s1))" s' ys] show ?thesis
    by (auto simp: resync_indices_def announces_def split: if_splits)
qed

lemma ship_holding:
  assumes "ship_bulk_subbatch w s = Inr (s', es)" "holding s"
  shows "holding s' \<and> list_all (\<lambda>e. \<not> announces e) es"
proof -
  obtain s1 batch where f: "fill_subbatch w s [] = (s1, batch)" by (cases "fill_subbatch w s []")
  have frames: "list_all (\<lambda>m. \<exists>h b. m = ChunkData h b) batch"
    using fill_suspended [OF holding_suspended [OF assms(2)] f] assms(2) by (auto simp: holding_def list_all_iff)
  have s1: "holding s1"
    using fill_suspended [OF holding_suspended [OF assms(2)] f] assms(2) fill_chunks [OF f]
    by (auto simp: holding_def list_all_iff)
  from assms(1) f frames s1 holding_offline [OF s1, of w] show ?thesis
    by (auto simp: ship_bulk_subbatch_def list_all_iff announces_def split: if_splits)
qed

lemma hello_holding:
  assumes "on_hello w s proto version peer = Inr (s', es)" "holding s"
  shows "holding s' \<and> list_all (\<lambda>e. \<not> announces e) es"
proof (cases "proto = PROTOCOL_VERSION \<and> version = ss_binary_version s")
  case False
  with assms show ?thesis by (auto simp: on_hello_def holding_def split: if_splits)
next
  case True
  let ?s = "s\<lparr>ss_hello_received := True, ss_connected := True, ss_peer_replica := Some peer\<rparr>"
  from True assms(1) obtain s1 xs ys where
    1: "send w ?s (IndexExchange (eng_index (ss_engine ?s))) = Inr (s1, xs)"
    and 2: "(if ss_paused s1 then send w s1 Pause else Inr (s1, [])) = Inr (s', ys)" and es: "es = xs @ ys"
    by (auto simp: on_hello_def Let_def and_then_Inr)
  have s1: "holding s1 \<and> list_all (\<lambda>e. \<not> announces e) xs"
    using assms(2) by (intro send_holding [OF 1]) (simp_all add: holding_def announces_def)
  then show ?thesis
    using 2 es send_holding [of w s1 Pause s' ys] by (auto simp: announces_def split: if_splits)
qed

lemma message_holding:
  assumes "on_message w s msg = Inr (s', es)" "holding s" "msg \<noteq> Resume"
  shows "holding s' \<and> list_all (\<lambda>e. \<not> announces e) es"
proof (cases "ss_paused s \<and> is_content_frame msg")
  case True
  with assms show ?thesis by (auto simp: on_message_def)
next
  case False
  show ?thesis
  proof (cases msg)
    case (Hello a b c)
    with False assms have "on_hello w s a b c = Inr (s', es)" by (auto simp: on_message_def)
    then show ?thesis by (rule hello_holding [OF _ assms(2)])
  next
    case (IndexExchange i)
    with False assms show ?thesis by (auto simp: on_message_def holding_def)
  next
    case (Change c b)
    with False assms have "on_change w s c b = Inr (s', es)" by (auto simp: on_message_def)
    then show ?thesis by (rule change_holding [OF _ assms(2)])
  next
    case (ChangeManifest c n m)
    with False assms have "on_change_manifest w s c n m = Inr (s', es)" by (auto simp: on_message_def)
    then show ?thesis by (rule manifest_holding [OF _ assms(2)])
  next
    case (ChunkRequest hs)
    have "holding (on_chunk_request w s hs)"
      using assms(2) by (auto simp: on_chunk_request_def Let_def holding_def serve_paths_holding)
    with ChunkRequest False assms show ?thesis by (auto simp: on_message_def)
  next
    case (ChunkData h b)
    with False assms have "on_chunk_data w s h b = Inr (s', es)" by (auto simp: on_message_def)
    then show ?thesis by (rule chunk_data_holding [OF _ assms(2)])
  next
    case (Ping n)
    with False assms send_holding [of w s "Pong n"] show ?thesis by (auto simp: on_message_def announces_def)
  qed (use False assms in \<open>auto simp: on_message_def holding_def on_peer_pause_def\<close>)
qed

lemma step_holding:
  assumes "holding s" "op \<noteq> Process (InMessage Resume)" "session_step w s op = Inr (s', es)"
  shows "holding s' \<and> list_all (\<lambda>e. \<not> announces e) es"
proof (cases op)
  case (Process item)
  show ?thesis
  proof (cases item)
    case (InMessage msg)
    with assms Process message_holding [of w s msg s' es] show ?thesis
      by (auto simp: session_step_def process_incoming_def)
  next
    case (PauseRequest b)
    let ?s = "s\<lparr>ss_paused := b, ss_paused_acted := b\<rparr>"
    have hold: "holding ?s" "holding (suspend_transfers ?s)" "holding (s\<lparr>ss_paused := b\<rparr>)"
      using assms(1) by (simp_all add: holding_def)
    from assms Process PauseRequest show ?thesis
      using hold send_holding [of w "suspend_transfers ?s" Pause s' es] exit_holding [of w ?s s' es]
      by (auto simp: session_step_def process_incoming_def reconcile_pause_state_def enter_pause_def
          announces_def split: if_splits)
  qed (use assms Process holding_offline [of s w] in
      \<open>auto simp: session_step_def process_incoming_def split: if_splits\<close>)
next
  case ShipBulk
  with assms have "ship_bulk_subbatch w s = Inr (s', es)" by (simp add: session_step_def)
  then show ?thesis by (rule ship_holding [OF _ assms(1)])
next
  case (SendLocal c)
  with assms holding_suspended [OF assms(1)] show ?thesis
    by (auto simp: session_step_def do_send_def send_prepared_def)
next
  case (TryReconnect dial)
  let ?s = "s\<lparr>ss_transport := True, ss_offline_since := None, ss_next_reconnect_at := None, ss_backoff := RECONNECT_MIN\<rparr>"
  have "holding ?s" "holding (reconnect_failed w s)"
    using assms(1) by (simp_all add: holding_def reconnect_failed_def Let_def)
  with TryReconnect assms show ?thesis
    using send_holding [of w ?s "Hello PROTOCOL_VERSION (ss_binary_version s) (eng_replica (ss_engine s))" s' es]
    by (auto simp: session_step_def maybe_reconnect_def on_reconnected_def send_opening_hello_def
        announces_def split: if_splits)
next
  case RetryStall
  let ?s = "s\<lparr>ss_last_stall_retry := w_now w, ss_disk_stalled := False\<rparr>"
  have "holding ?s" using assms(1) by (simp add: holding_def)
  with RetryStall assms show ?thesis
    using send_holding [of w ?s "IndexExchange (eng_index (ss_engine s))" s' es]
    by (auto simp: session_step_def maybe_retry_stall_def Let_def announces_def split: if_splits)
qed

interpretation waiting: output_machine "\<lambda>s (w, op). session_step w s op" holding
    "\<lambda>(w, op). op \<noteq> Process (InMessage Resume)" "\<lambda>e. \<not> announces e"
  by unfold_locales (auto dest: step_holding)

text \<open>A defect of pause and reconnect. Nothing but a \<open>Resume\<close> frame clears the flag that the
  peer is paused: going offline, reconnecting and the new handshake keep it. A peer whose
  session ends while it is paused comes back unpaused and never sends \<open>Resume\<close>, so from then on
  this session announces no change to it, ever, although the specification (13.5) has the
  restart converge; the witness runs the disconnect, the reconnect, the handshake and the
  index exchange with a file the peer lacks.\<close>

theorem peer_pause_outlives_connection:
  assumes "ss_peer_paused s" "ss_pending_chunks s = []"
    and "\<forall>op \<in> snd ` set ops. op \<noteq> Process (InMessage Resume)"
    and "session_run s ops = Inr (s', es)"
  shows "ss_peer_paused s' \<and> (\<forall>e \<in> set es. \<not> announces e)"
proof -
  have "holding s' \<and> list_all (\<lambda>e. \<not> announces e) es"
    using assms
    by (intro waiting.run_ok [where ms = ops]) (auto simp: session_run_def holding_def)
  then show ?thesis by (simp add: holding_def list_all_iff)
qed

definition demo_restart :: "((string, string list, unit) world \<times> session_op) list" where
  "demo_restart = [(demo_world, Process PeerEof), (demo_world\<lparr>w_now := 5000\<rparr>, TryReconnect True),
     (demo_world, Process (InMessage (Hello PROTOCOL_VERSION ''1'' (ReplicaId 2)))),
     (demo_world, Process (InMessage (IndexExchange index_new))), (demo_world, ShipBulk)]"

definition demo_waiting :: "string list session" where
  "demo_waiting = (demo_session (engine_new (ReplicaId 1) demo_conflict))\<lparr>ss_peer_paused := True\<rparr>"

lemma prepare_send_connected: "prepare_send w s c = (s', m) \<Longrightarrow> ss_connected s' = ss_connected s"
  by (auto simp: prepare_send_def session_allows_def build_manifest_def Let_def
      split: if_splits prod.splits bool.splits change_kind.splits)

lemma fill_connected: "fill_subbatch w s batch = (s', batch') \<Longrightarrow> ss_connected s' = ss_connected s"
  by (erule fill_invariant [where P = "\<lambda>s'. ss_connected s' = ss_connected s"])
    (auto dest: prepare_send_connected)

text \<open>The restart step by step.\<close>

definition demo_offline :: "string list session" where
  "demo_offline = go_offline demo_world demo_waiting"

lemma demo_offline_fields [simp]:
  "\<not> ss_transport demo_offline" "ss_reconnecting demo_offline" "ss_next_reconnect_at demo_offline = Some 2000"
  "ss_binary_version demo_offline = ''1''" "ss_engine demo_offline = engine_new (ReplicaId 1) demo_conflict"
  "ss_peer_paused demo_offline" "\<not> ss_paused demo_offline" "ss_pending_chunks demo_offline = []"
  "ss_pending_sends demo_offline = []" "ss_pending_sends_paths demo_offline = {}"
  by (simp_all add: demo_offline_def demo_waiting_def demo_session_def go_offline_def suspend_transfers_def abandon_pending_installs_def
      abandon_all_assemblies_def bm_values_def demo_world_def RECONNECT_MIN_def)

definition demo_online :: "string list session" where
  "demo_online = demo_offline\<lparr>ss_transport := True, ss_offline_since := None, ss_next_reconnect_at := None,
     ss_backoff := RECONNECT_MIN, ss_hello_received := True, ss_connected := True, ss_peer_replica := Some (ReplicaId 2)\<rparr>"

lemma foldl_enqueue_connected [simp]: "ss_connected (session_reconcile s i) = ss_connected s"
  by (simp add: session_reconcile_def foldl_keeps [of ss_connected] enqueue_bulk_send_def)

lemma demo_restart_run:
  "\<exists>s' es. session_run demo_waiting demo_restart = Inr (s', es) \<and> ss_connected s' \<and>
     Sent (IndexExchange demo_conflict) \<in> set es"
proof -
  let ?q = "session_reconcile demo_online index_new"
  obtain s1 batch where f: "fill_subbatch demo_world ?q [] = (s1, batch)" by fastforce
  have susp: "outbound_suspended ?q" by (simp add: outbound_suspended_def demo_online_def)
  have batch: "batch = []" using fill_suspended [OF susp f] by (auto simp: demo_online_def)
  have conn: "ss_connected s1"
    using fill_connected [OF f] by (simp add: demo_online_def)
  have send_ok [simp]: "w_send_ok demo_world = (\<lambda>_. True)" by (simp add: demo_world_def)
  have step1: "session_step demo_world demo_waiting (Process PeerEof) = Inr (demo_offline, [])"
    by (simp add: session_step_def process_incoming_def demo_offline_def demo_waiting_def demo_session_def)
  have step2: "session_step (demo_world\<lparr>w_now := 5000\<rparr>) demo_offline (TryReconnect True) =
      Inr (demo_offline\<lparr>ss_transport := True, ss_offline_since := None, ss_next_reconnect_at := None,
        ss_backoff := RECONNECT_MIN\<rparr>, [Sent (Hello PROTOCOL_VERSION ''1'' (ReplicaId 1))])"
    by (simp add: session_step_def maybe_reconnect_def on_reconnected_def send_opening_hello_def send_def engine_new_def)
  have step3: "session_step demo_world (demo_offline\<lparr>ss_transport := True, ss_offline_since := None,
        ss_next_reconnect_at := None, ss_backoff := RECONNECT_MIN\<rparr>)
        (Process (InMessage (Hello PROTOCOL_VERSION ''1'' (ReplicaId 2)))) =
      Inr (demo_online, [Sent (IndexExchange demo_conflict)])"
    by (simp add: session_step_def process_incoming_def on_message_def is_content_frame_def on_hello_def send_def
        demo_online_def engine_new_def and_then_def)
  have step4: "session_step demo_world demo_online (Process (InMessage (IndexExchange index_new))) = Inr (?q, [])"
    by (simp add: session_step_def process_incoming_def on_message_def is_content_frame_def)
  have step5: "session_step demo_world ?q ShipBulk = Inr (s1, [])"
    using f batch by (simp add: session_step_def ship_bulk_subbatch_def)
  show ?thesis
    using conn by (simp add: session_run_def demo_restart_def step1 step2 step3 step4 step5 and_then_def)
qed

theorem peer_pause_outlives_connection_witness:
  "\<exists>s' es. session_run demo_waiting demo_restart = Inr (s', es) \<and> ss_connected s' \<and>
     Sent (IndexExchange demo_conflict) \<in> set es \<and> ss_peer_paused s' \<and> filter announces es = []"
proof -
  obtain s' es where run: "session_run demo_waiting demo_restart = Inr (s', es)"
    and rest: "ss_connected s'" "Sent (IndexExchange demo_conflict) \<in> set es"
    using demo_restart_run by blast
  have "ss_peer_paused s' \<and> (\<forall>e \<in> set es. \<not> announces e)"
    by (rule peer_pause_outlives_connection [OF _ _ _ run])
      (auto simp: demo_waiting_def demo_session_def demo_restart_def)
  then have "ss_peer_paused s'" "filter announces es = []" by (simp_all add: filter_empty_conv)
  with run rest show ?thesis by blast
qed

section \<open>Coalescing bursts\<close>

text \<open>The reference: an item survives unless it is a pending change that a later pending change
  of the same path supersedes.\<close>

fun keep_last :: "('p, 'o) incoming list \<Rightarrow> ('p, 'o) incoming list" where
  "keep_last [] = []"
| "keep_last (x # xs) =
     (if pending_path x \<noteq> None \<and> pending_path x \<in> pending_path ` set xs then keep_last xs else x # keep_last xs)"

lemma last_pending_snoc:
  "last_pending (xs @ [x]) p = (if pending_path x = Some p then Some (length xs) else last_pending xs p)"
  by (simp add: last_pending_def enumerate_append_eq)

lemma last_pending_range: "last_pending xs p = Some i \<Longrightarrow> i < length xs"
  by (induction xs rule: rev_induct) (auto simp: last_pending_snoc last_pending_def [of "[]"] split: if_splits)

lemma last_pending_exact:
  "i < length xs \<Longrightarrow> pending_path (xs ! i) = Some p \<Longrightarrow>
     last_pending xs p = Some i \<longleftrightarrow> Some p \<notin> pending_path ` set (drop (Suc i) xs)"
proof (induction xs rule: rev_induct)
  case (snoc x xs)
  show ?case
  proof (cases "i = length xs")
    case True
    with snoc.prems show ?thesis by (auto simp: last_pending_snoc)
  next
    case False
    with snoc.prems have i: "i < length xs" "pending_path (xs ! i) = Some p"
      by (auto simp: nth_append)
    with snoc.IH [OF i] show ?thesis by (auto simp: last_pending_snoc)
  qed
qed simp

lemma keep_last_filter:
  "keep_last xs = map snd (filter (\<lambda>(i, x). pending_path x = None \<or>
     pending_path x \<notin> pending_path ` set (drop (Suc (i - n)) xs)) (enumerate n xs))"
proof (induction xs arbitrary: n)
  case (Cons x xs)
  have "filter (\<lambda>(i, y). pending_path y = None \<or> pending_path y \<notin> pending_path ` set (drop (Suc (i - n)) (x # xs)))
      (enumerate (Suc n) xs) =
    filter (\<lambda>(i, y). pending_path y = None \<or> pending_path y \<notin> pending_path ` set (drop (Suc (i - Suc n)) xs))
      (enumerate (Suc n) xs)"
    by (rule filter_cong) (auto simp: in_set_enumerate_eq Suc_diff_Suc)
  with Cons.IH [of "Suc n"] show ?case by auto
qed simp

text \<open>Coalescing a burst drops exactly the pending changes that a later pending change of
  the same path supersedes: the last state of every path and every other item survive, in
  their order.\<close>

theorem coalesce_burst_keeps_last: "coalesce_burst batch = keep_last batch"
proof -
  have "(case pending_path item of None \<Rightarrow> True | Some p \<Rightarrow> last_pending batch p = Some i) \<longleftrightarrow>
      pending_path item = None \<or> pending_path item \<notin> pending_path ` set (drop (Suc (i - 0)) batch)"
    if "(i, item) \<in> set (enumerate 0 batch)" for i item
    using that last_pending_exact [of i batch]
    by (auto simp: in_set_enumerate_eq split: option.split)
  then have "filter (\<lambda>(i, item). case pending_path item of None \<Rightarrow> True | Some p \<Rightarrow> last_pending batch p = Some i)
      (enumerate 0 batch) =
    filter (\<lambda>(i, item). pending_path item = None \<or> pending_path item \<notin> pending_path ` set (drop (Suc (i - 0)) batch))
      (enumerate 0 batch)"
    by (intro filter_cong refl) (simp only: split_paired_all prod.case)
  then show ?thesis
    unfolding coalesce_burst_def keep_last_filter [of batch 0] by (rule arg_cong)
qed

end
