(* ===== verification/Tomo_Transfer.thy ===== *)
theory Tomo_Transfer
  imports Tomo_Outbound
begin

text \<open>
  Large files travel as a manifest whose chunks the receiver pulls. Shown here: what a
  completed assembly hands on is verified content, requests never overlap, and a transfer
  over a link that neither loses nor changes frames ends with the receiver holding exactly
  the sender's bytes, whatever the number of chunks.
\<close>

section \<open>Missing chunks and batches\<close>

lemma set_missing_from: "set (missing_chunks_from seen m have_set) = set m - have_set - seen"
  by (induction seen m have_set rule: missing_chunks_from.induct) auto

lemma distinct_missing_from: "distinct (missing_chunks_from seen m have_set)"
  by (induction seen m have_set rule: missing_chunks_from.induct) (auto simp: set_missing_from)

lemma set_missing [simp]: "set (missing_chunks m have_set) = set m - have_set"
  by (simp add: missing_chunks_def set_missing_from)

lemma is_complete_iff: "is_complete m have_set \<longleftrightarrow> set m \<subseteq> have_set"
  by (auto simp: is_complete_def list_all_iff)

text \<open>A batch of chunk requests has at most 32 distinct hashes of the manifest, none of
  which has arrived or was requested before; it is empty exactly when every missing chunk is
  already requested; and an assembly is complete exactly when no chunk is missing.\<close>

theorem request_batches_sound:
  "length (next_request_batch m have_set requested) \<le> 32 \<and>
   distinct (next_request_batch m have_set requested) \<and>
   set (next_request_batch m have_set requested) \<subseteq> set m - have_set - requested \<and>
   (next_request_batch m have_set requested = [] \<longleftrightarrow> set m - have_set \<subseteq> requested) \<and>
   (is_complete m have_set \<longleftrightarrow> missing_chunks m have_set = [])"
proof -
  let ?open = "filter (\<lambda>h. h \<notin> requested) (missing_chunks m have_set)"
  have "set (take REQUEST_BATCH ?open) \<subseteq> set m - have_set - requested"
    using set_take_subset [of REQUEST_BATCH ?open] by auto
  moreover have "take REQUEST_BATCH ?open = [] \<longleftrightarrow> set m - have_set \<subseteq> requested"
    by (auto simp: REQUEST_BATCH_def filter_empty_conv)
  moreover have "is_complete m have_set \<longleftrightarrow> missing_chunks m have_set = []"
    using arg_cong [of "missing_chunks m have_set" "[]" set] by (auto simp: is_complete_iff set_empty [symmetric] simp del: set_empty)
  ultimately show ?thesis
    using distinct_missing_from [of "{}" m have_set]
    by (simp add: next_request_batch_def REQUEST_BATCH_def missing_chunks_def [symmetric])
qed

lemma next_batch_props:
  "distinct (next_request_batch m have_set requested)"
  "set (next_request_batch m have_set requested) \<subseteq> set m - have_set - requested"
  "next_request_batch m have_set requested = [] \<longleftrightarrow> set m - have_set \<subseteq> requested"
proof -
  let ?open = "filter (\<lambda>h. h \<notin> requested) (missing_chunks m have_set)"
  show "distinct (next_request_batch m have_set requested)"
    using distinct_missing_from [of "{}" m have_set] by (simp add: next_request_batch_def missing_chunks_def)
  show "set (next_request_batch m have_set requested) \<subseteq> set m - have_set - requested"
    using set_take_subset [of REQUEST_BATCH ?open] by (auto simp: next_request_batch_def)
  show "next_request_batch m have_set requested = [] \<longleftrightarrow> set m - have_set \<subseteq> requested"
    by (auto simp: next_request_batch_def REQUEST_BATCH_def filter_empty_conv)
qed

section \<open>The sender\<close>

definition slice :: "bytes \<Rightarrow> chunk_range \<Rightarrow> bytes" where
  "slice bs r = (case r of (_, start, stop) \<Rightarrow> take (stop - start) (drop start bs))"

text \<open>What is relied on of the chunker and of BLAKE3 for one file: the ranges lie in the
  file, their contents make up the file in order, a range is named by its hash, and two
  ranges of the file with the same name have the same content.\<close>

definition manifest_of :: "(bytes \<Rightarrow> content_hash) \<Rightarrow> bytes \<Rightarrow> chunk_range list \<Rightarrow> bool" where
  "manifest_of blake3 bs ranges \<longleftrightarrow>
     concat (map (slice bs) ranges) = bs \<and>
     (\<forall>r \<in> set ranges. snd (snd r) \<le> length bs \<and> blake3 (slice bs r) = fst r) \<and>
     (\<forall>r \<in> set ranges. \<forall>r' \<in> set ranges. fst r = fst r' \<longrightarrow> slice bs r = slice bs r')"

lemma manifest_ofD:
  assumes "manifest_of blake3 bs ranges"
  shows "concat (map (slice bs) ranges) = bs"
    and "r \<in> set ranges \<Longrightarrow> snd (snd r) \<le> length bs"
    and "r \<in> set ranges \<Longrightarrow> blake3 (slice bs r) = fst r"
    and "r \<in> set ranges \<Longrightarrow> r' \<in> set ranges \<Longrightarrow> fst r = fst r' \<Longrightarrow> slice bs r = slice bs r'"
  using assms unfolding manifest_of_def by blast+

definition chunk_named :: "bytes \<Rightarrow> chunk_range list \<Rightarrow> chunk_hash \<rightharpoonup> bytes" where
  "chunk_named bs ranges = map_of (map (\<lambda>r. (fst r, slice bs r)) ranges)"

lemma chunk_named_range:
  assumes "manifest_of blake3 bs ranges" "r \<in> set ranges"
  shows "chunk_named bs ranges (fst r) = Some (slice bs r)"
proof (cases "chunk_named bs ranges (fst r)")
  case None
  with assms(2) show ?thesis by (force simp: chunk_named_def map_of_eq_None_iff image_image)
next
  case (Some b)
  then obtain r' where r': "r' \<in> set ranges" "fst r' = fst r" "b = slice bs r'"
    unfolding chunk_named_def by (auto dest!: map_of_SomeD)
  with manifest_ofD(4) [OF assms(1) r'(1) assms(2) r'(2)] Some show ?thesis by simp
qed

lemma chunk_named_hash:
  assumes "manifest_of blake3 bs ranges" "h \<in> set (map fst ranges)"
  shows "\<exists>b. chunk_named bs ranges h = Some b \<and> blake3 b = h"
proof -
  obtain r where "r \<in> set ranges" "h = fst r" using assms(2) by auto
  with chunk_named_range [OF assms(1)] manifest_ofD(3) [OF assms(1)] show ?thesis by blast
qed

lemma chunks_rebuild:
  assumes "manifest_of blake3 bs ranges"
  shows "concat (map (\<lambda>h. the (chunk_named bs ranges h)) (map fst ranges)) = bs"
proof -
  have "map (\<lambda>h. the (chunk_named bs ranges h)) (map fst ranges) = map (slice bs) ranges"
    using chunk_named_range [OF assms] by simp
  then show ?thesis using manifest_ofD(1) [OF assms] by metis
qed

definition data_frame :: "bytes \<Rightarrow> chunk_range list \<Rightarrow> chunk_hash \<Rightarrow> message" where
  "data_frame bs ranges h = ChunkData h (the (chunk_named bs ranges h))"

lemma serve_ranges_all:
  assumes m: "manifest_of blake3 bs all_ranges"
  shows "set ranges \<subseteq> set all_ranges \<Longrightarrow>
    \<exists>hs. serve_ranges blake3 bs ranges want q = (want - set (map fst ranges), q @ map (data_frame bs all_ranges) hs) \<and>
      distinct hs \<and> set hs = want \<inter> set (map fst ranges)"
proof (induction ranges arbitrary: want q)
  case Nil
  show ?case by (intro exI [of _ "[]"]) simp
next
  case (Cons r ranges)
  obtain h start stop where r: "r = (h, start, stop)" by (cases r)
  have mem: "r \<in> set all_ranges" and rest: "set ranges \<subseteq> set all_ranges" using Cons.prems by simp_all
  show ?case
  proof (cases "h \<in> want")
    case False
    with r Cons.IH [OF rest, of want q] show ?thesis by auto
  next
    case True
    let ?b = "take (stop - start) (drop start bs)"
    have fits: "\<not> (length bs < start + (stop - start) \<and> start < stop)"
      using manifest_ofD(2) [OF m mem] r by auto
    have b: "blake3 ?b = h" "chunk_named bs all_ranges h = Some ?b"
      using manifest_ofD(3) [OF m mem] chunk_named_range [OF m mem] r by (simp_all add: slice_def)
    obtain hs where hs: "serve_ranges blake3 bs ranges (want - {h}) (q @ [ChunkData h ?b]) =
        (want - {h} - set (map fst ranges), (q @ [ChunkData h ?b]) @ map (data_frame bs all_ranges) hs)"
      "distinct hs" "set hs = (want - {h}) \<inter> set (map fst ranges)"
      using Cons.IH [OF rest] by blast
    have "serve_ranges blake3 bs (r # ranges) want q =
        (want - set (map fst (r # ranges)), q @ map (data_frame bs all_ranges) (h # hs))"
      using r True fits b hs(1) by (simp add: Let_def data_frame_def) blast
    moreover have "distinct (h # hs)" "set (h # hs) = want \<inter> set (map fst (r # ranges))"
      using hs(2,3) r True by auto
    ultimately show ?thesis by blast
  qed
qed

text \<open>A sender that has announced one file and still has it.\<close>

definition announces_file :: "('g, 's, 'e) world \<Rightarrow> 's session \<Rightarrow> relpath \<Rightarrow> bytes \<Rightarrow> chunk_range list \<Rightarrow> bool" where
  "announces_file w s p bs ranges \<longleftrightarrow>
     ss_outbound_manifests s = bm_insert p ranges bm_empty \<and> w_read w p = Some bs \<and>
     w_order w [p] = [p] \<and> manifest_of (w_blake3 w) bs ranges"

lemma bm_single [simp]: "bm_keys (bm_insert k v bm_empty) = [k]" "bm_values (bm_insert k v bm_empty) = [v]"
  "bm_remove k (bm_insert k v bm_empty) = bm_empty" "bm_insert k v' (bm_insert k v bm_empty) = bm_insert k v' bm_empty"
  by (simp_all add: bm_keys_def bm_values_def bm_eq_iff bm_entries_insert bm_entries_remove al_remove_def)

lemma bm_single_eq [simp]: "bm_insert k v bm_empty = bm_insert k v' bm_empty \<longleftrightarrow> v = v'"
  by (simp add: bm_eq_iff bm_entries_insert)

lemma serve_request:
  assumes "announces_file w s p bs ranges" "set wanted \<subseteq> set (map fst ranges)"
  shows "\<exists>hs. on_chunk_request w s wanted =
      s\<lparr>ss_pending_chunks := ss_pending_chunks s @ map (data_frame bs ranges) hs\<rparr> \<and>
    distinct hs \<and> set hs = set wanted"
proof (cases "wanted = []")
  case True
  then show ?thesis by (intro exI [of _ "[]"]) (simp add: on_chunk_request_def)
next
  case False
  then have "list_ex (\<lambda>(h, _). h \<in> set wanted) ranges"
    using assms(2) by (cases wanted) (auto simp: list_ex_iff split_beta)
  then have paths: "filter (\<lambda>q. case bm_get (ss_outbound_manifests s) q of
       None \<Rightarrow> False | Some ranges \<Rightarrow> list_ex (\<lambda>(h, _). h \<in> set wanted) ranges)
       (w_order w (bm_keys (ss_outbound_manifests s))) = [p]"
    using assms(1) by (simp add: announces_file_def)
  obtain hs where "serve_ranges (w_blake3 w) bs ranges (set wanted) (ss_pending_chunks s) =
      (set wanted - set (map fst ranges), ss_pending_chunks s @ map (data_frame bs ranges) hs)"
    "distinct hs" "set hs = set wanted \<inter> set (map fst ranges)"
    using serve_ranges_all [OF _ subset_refl] assms(1) unfolding announces_file_def by blast
  moreover from this have "set hs = set wanted" using assms(2) by auto
  ultimately show ?thesis
    using False assms(1) paths
    by (intro exI [of _ hs]) (simp add: on_chunk_request_def announces_file_def)
qed

lemma serve_requests:
  assumes "announces_file w s p bs ranges" "set (concat reqs) \<subseteq> set (map fst ranges)" "distinct (concat reqs)"
  shows "\<exists>hs. ss_pending_chunks (foldl (on_chunk_request w) s reqs) = ss_pending_chunks s @ map (data_frame bs ranges) hs \<and>
    distinct hs \<and> set hs = set (concat reqs)"
  using assms
proof (induction reqs arbitrary: s)
  case Nil
  show ?case by (intro exI [of _ "[]"]) simp
next
  case (Cons req reqs)
  obtain hs where hs: "on_chunk_request w s req =
      s\<lparr>ss_pending_chunks := ss_pending_chunks s @ map (data_frame bs ranges) hs\<rparr>"
    "distinct hs" "set hs = set req"
    using serve_request [OF Cons.prems(1), of req] Cons.prems(2) by auto
  have "announces_file w (on_chunk_request w s req) p bs ranges"
    using Cons.prems(1) hs(1) by (simp add: announces_file_def)
  then obtain hs' where hs': "ss_pending_chunks (foldl (on_chunk_request w) (on_chunk_request w s req) reqs) =
      ss_pending_chunks (on_chunk_request w s req) @ map (data_frame bs ranges) hs'"
    "distinct hs'" "set hs' = set (concat reqs)"
    using Cons.IH [of "on_chunk_request w s req"] Cons.prems(2,3) by auto
  have "distinct (hs @ hs')" using hs(2,3) hs'(2,3) Cons.prems(3) by simp
  with hs hs' show ?case by (intro exI [of _ "hs @ hs'"]) simp
qed

section \<open>The receiver\<close>

text \<open>The receiver has one assembly, for the manifest of the file; it holds the chunks named
  in \<open>H\<close> and has asked for those in \<open>R\<close>.\<close>

definition pulling ::
    "'s session \<Rightarrow> remote_change \<Rightarrow> content_sig \<Rightarrow> bytes \<Rightarrow> chunk_range list \<Rightarrow> chunk_hash set \<Rightarrow> chunk_hash set \<Rightarrow> bool" where
  "pulling s c sig bs ranges H R \<longleftrightarrow> ss_transport s \<and> \<not> ss_paused s \<and>
     (\<exists>a. ss_assemblies s = bm_insert (rc_path c) a bm_empty \<and> asm_change a = c \<and> asm_sig a = sig \<and>
        asm_manifest a = map fst ranges \<and> asm_manifest_set a = set (map fst ranges) \<and>
        asm_have a = H \<and> asm_requested a = R) \<and>
     (\<forall>h \<in> H. ss_chunk_files s h = chunk_named bs ranges h)"

text \<open>A receiving machine whose writes succeed and whose file names are case sensitive.\<close>

definition reliable :: "('g, 's, 'e) world \<Rightarrow> relpath \<Rightarrow> bool" where
  "reliable w p \<longleftrightarrow> w_order w [p] = [p] \<and> (\<forall>ms. w_send_ok w ms) \<and> (\<forall>h. w_stage w h = Written \<and> \<not> w_unreadable w h) \<and> \<not> w_case_insensitive w"

lemma send_reliable: "reliable w p \<Longrightarrow> ss_transport s \<Longrightarrow> send w s msg = Inr (s, [Sent msg])"
  by (simp add: send_def reliable_def)

lemma read_chunks_named:
  assumes "manifest_of (w_blake3 w) bs ranges" "set hs \<subseteq> set (map fst ranges)" "\<forall>h. \<not> w_unreadable w h"
    and "\<forall>h \<in> set hs. ss_chunk_files s h = chunk_named bs ranges h"
  shows "read_chunks w s hs acc = Inr (Some (acc @ concat (map (\<lambda>h. the (chunk_named bs ranges h)) hs)))"
  using assms(2,4)
proof (induction hs arbitrary: acc)
  case (Cons h hs)
  obtain b where "chunk_named bs ranges h = Some b" "w_blake3 w b = h"
    using chunk_named_hash [OF assms(1)] Cons.prems(1) by auto
  with Cons assms(3) show ?case by (simp add: read_chunk_file_def)
qed simp

lemma complete_pulling:
  assumes w: "reliable w (rc_path c)" and m: "manifest_of (w_blake3 w) bs ranges" and sig: "matches_sig (w_blake3 w) bs sig"
    and pull: "pulling s c sig bs ranges H R" and all: "set (map fst ranges) \<subseteq> H"
  shows "\<exists>s'. advance_assembly w s (rc_path c) = Inr (s', [Delivered c (Some bs)])"
proof -
  obtain a where a: "ss_assemblies s = bm_insert (rc_path c) a bm_empty" "asm_change a = c" "asm_sig a = sig"
      "asm_manifest a = map fst ranges" "asm_have a = H"
    using pull unfolding pulling_def by blast
  have "read_chunks w (s\<lparr>ss_assemblies := bm_empty\<rparr>) (map fst ranges) [] = Inr (Some bs)"
    using w read_chunks_named [OF m subset_refl, of "s\<lparr>ss_assemblies := bm_empty\<rparr>" "[]"] pull all chunks_rebuild [OF m]
    by (auto simp: pulling_def reliable_def)
  with a all sig w show ?thesis
    by (simp add: advance_assembly_def complete_assembly_def is_complete_iff ingress_def case_collision_def reliable_def Let_def)
qed

lemma request_pulling:
  assumes w: "reliable w (rc_path c)" and pull: "pulling s c sig bs ranges H R"
    and open_: "\<not> set (map fst ranges) \<subseteq> H"
  defines "batch \<equiv> next_request_batch (map fst ranges) H R"
  shows "\<exists>s'. advance_assembly w s (rc_path c) = Inr (s', map (Sent \<circ> ChunkRequest) (if batch = [] then [] else [batch])) \<and>
    pulling s' c sig bs ranges H (R \<union> set batch)"
proof -
  obtain a where a: "ss_assemblies s = bm_insert (rc_path c) a bm_empty" "asm_change a = c" "asm_sig a = sig"
      "asm_manifest a = map fst ranges" "asm_manifest_set a = set (map fst ranges)" "asm_have a = H" "asm_requested a = R"
    using pull unfolding pulling_def by blast
  let ?s = "s\<lparr>ss_assemblies := bm_insert (rc_path c) (a\<lparr>asm_requested := R \<union> set batch\<rparr>) bm_empty\<rparr>"
  have adv: "advance_assembly w s (rc_path c) = (if batch = [] then Inr (s, []) else send w ?s (ChunkRequest batch))"
    using a open_ by (simp add: advance_assembly_def request_next_batch_def is_complete_iff batch_def [symmetric] Let_def)
  show ?thesis
  proof (cases "batch = []")
    case True
    with adv pull show ?thesis by simp
  next
    case False
    have "pulling ?s c sig bs ranges H (R \<union> set batch)"
      using pull a by (simp add: pulling_def)
    moreover have "send w ?s (ChunkRequest batch) = Inr (?s, [Sent (ChunkRequest batch)])"
      using pull by (intro send_reliable [OF w]) (simp add: pulling_def)
    ultimately show ?thesis using False adv by simp
  qed
qed

lemma chunk_arrives:
  assumes w: "reliable w (rc_path c)" and m: "manifest_of (w_blake3 w) bs ranges"
    and pull: "pulling s c sig bs ranges H R" and h: "h \<in> set (map fst ranges)" "h \<notin> H"
  shows "\<exists>s'. pulling s' c sig bs ranges (insert h H) R \<and>
    on_message w s (data_frame bs ranges h) = advance_assembly w s' (rc_path c)"
proof -
  obtain a where a: "ss_assemblies s = bm_insert (rc_path c) a bm_empty" "asm_change a = c" "asm_sig a = sig"
      "asm_manifest a = map fst ranges" "asm_manifest_set a = set (map fst ranges)" "asm_have a = H" "asm_requested a = R"
    using pull unfolding pulling_def by blast
  obtain b where b: "chunk_named bs ranges h = Some b" "w_blake3 w b = h"
    using chunk_named_hash [OF m h(1)] by blast
  have find: "find_assembly w s h = Some (rc_path c)"
    using w h a by (simp add: find_assembly_def reliable_def)
  let ?s = "update_assembly (s\<lparr>ss_chunk_files := (ss_chunk_files s)(h \<mapsto> b)\<rparr>) (rc_path c)
      (\<lambda>a. a\<lparr>asm_have := insert h (asm_have a),
             asm_received_bytes := sat_add (asm_received_bytes a) (of_nat (length b))\<rparr>)"
  have "on_message w s (data_frame bs ranges h) = advance_assembly w ?s (rc_path c)"
    using pull w find b
    by (simp add: on_message_def data_frame_def on_chunk_data_def reliable_def pulling_def)
  moreover have "pulling ?s c sig bs ranges (insert h H) R"
    using pull a b by (auto simp: pulling_def update_assembly_def)
  ultimately show ?thesis by blast
qed

lemma chunks_arrive:
  assumes w: "reliable w (rc_path c)" and m: "manifest_of (w_blake3 w) bs ranges"
    and sig: "matches_sig (w_blake3 w) bs sig"
  defines "M \<equiv> set (map fst ranges)"
  shows "pulling s c sig bs ranges H R \<Longrightarrow> H \<subseteq> R \<Longrightarrow> R \<subseteq> M \<Longrightarrow> distinct hs \<Longrightarrow> set hs \<subseteq> R - H \<Longrightarrow> hs \<noteq> [] \<Longrightarrow>
    if M \<subseteq> H \<union> set hs
    then \<exists>s'. out_run (on_message w) s (map (data_frame bs ranges) hs) = Inr (s', [Delivered c (Some bs)])
    else \<exists>s' reqs. out_run (on_message w) s (map (data_frame bs ranges) hs) = Inr (s', map (Sent \<circ> ChunkRequest) reqs) \<and>
      pulling s' c sig bs ranges (H \<union> set hs) (R \<union> set (concat reqs)) \<and> distinct (concat reqs) \<and>
      set (concat reqs) \<subseteq> M - R \<and> (\<not> M \<subseteq> R \<longrightarrow> concat reqs \<noteq> [])"
proof (induction hs arbitrary: s H R)
  case (Cons h hs)
  have h: "h \<in> set (map fst ranges)" "h \<notin> H" using Cons.prems(3,5) by (auto simp: M_def)
  obtain s1 where s1: "pulling s1 c sig bs ranges (insert h H) R"
      "on_message w s (data_frame bs ranges h) = advance_assembly w s1 (rc_path c)"
    using chunk_arrives [OF w m Cons.prems(1) h] by blast
  show ?case
  proof (cases "M \<subseteq> insert h H")
    case True
    then have "hs = []" using Cons.prems(3-5) by (cases hs) auto
    with True s1 complete_pulling [OF w m sig s1(1)] show ?thesis by (auto simp: M_def and_then_def)
  next
    case False
    define batch where "batch = next_request_batch (map fst ranges) (insert h H) R"
    obtain s2 where s2: "advance_assembly w s1 (rc_path c) =
        Inr (s2, map (Sent \<circ> ChunkRequest) (if batch = [] then [] else [batch]))"
      "pulling s2 c sig bs ranges (insert h H) (R \<union> set batch)"
      using request_pulling [OF w s1(1)] False unfolding batch_def M_def by blast
    have batch: "distinct batch" "set batch \<subseteq> M - R" "batch = [] \<longleftrightarrow> M \<subseteq> R"
      using next_batch_props [of "map fst ranges" "insert h H" R] Cons.prems(2,3,5) h
      unfolding batch_def M_def by auto
    show ?thesis
    proof (cases "hs = []")
      case True
      have "\<exists>s' reqs. out_run (on_message w) s (map (data_frame bs ranges) [h]) = Inr (s', map (Sent \<circ> ChunkRequest) reqs) \<and>
          pulling s' c sig bs ranges (H \<union> {h}) (R \<union> set (concat reqs)) \<and> distinct (concat reqs) \<and>
          set (concat reqs) \<subseteq> M - R \<and> (\<not> M \<subseteq> R \<longrightarrow> concat reqs \<noteq> [])"
        using s1(2) s2 batch
        by (intro exI [of _ s2] exI [of _ "if batch = [] then [] else [batch]"]) (cases "batch = []"; simp add: and_then_def)
      with True False show ?thesis by simp
    next
      case more: False
      have prems: "insert h H \<subseteq> R \<union> set batch" "R \<union> set batch \<subseteq> M" "distinct hs" "set hs \<subseteq> R \<union> set batch - insert h H"
        using Cons.prems(2-5) batch(2) by auto
      have step: "out_run (on_message w) s (map (data_frame bs ranges) (h # hs)) =
          and_then (Inr (s2, map (Sent \<circ> ChunkRequest) (if batch = [] then [] else [batch])))
            (\<lambda>s. out_run (on_message w) s (map (data_frame bs ranges) hs))"
        using s1(2) s2(1) by simp
      note IH = Cons.IH [OF s2(2) prems more]
      show ?thesis
      proof (cases "M \<subseteq> insert h H \<union> set hs")
        case True
        then have "M \<subseteq> R" using Cons.prems(2,3,5) by auto
        with batch True IH step show ?thesis by (auto simp: and_then_def)
      next
        case open_: False
        obtain s3 reqs where s3: "out_run (on_message w) s2 (map (data_frame bs ranges) hs) = Inr (s3, map (Sent \<circ> ChunkRequest) reqs)"
          "pulling s3 c sig bs ranges (insert h H \<union> set hs) (R \<union> set batch \<union> set (concat reqs))"
          "distinct (concat reqs)" "set (concat reqs) \<subseteq> M - (R \<union> set batch)"
          using IH open_ by (elim if_split [THEN iffD1, elim_format]) (auto simp: if_False)
        let ?reqs = "(if batch = [] then [] else [batch]) @ reqs"
        have conc: "concat ?reqs = batch @ concat reqs" by simp
        have "distinct (concat ?reqs)" "set (concat ?reqs) \<subseteq> M - R" "\<not> M \<subseteq> R \<longrightarrow> concat ?reqs \<noteq> []"
          "pulling s3 c sig bs ranges (H \<union> set (h # hs)) (R \<union> set (concat ?reqs))"
          using s3 batch unfolding conc by (auto simp: Un_assoc insert_commute)
        moreover have "out_run (on_message w) s (map (data_frame bs ranges) (h # hs)) = Inr (s3, map (Sent \<circ> ChunkRequest) ?reqs)"
          unfolding step using s3(1) by (simp add: and_then_def)
        ultimately have "\<exists>s' reqs. out_run (on_message w) s (map (data_frame bs ranges) (h # hs)) = Inr (s', map (Sent \<circ> ChunkRequest) reqs) \<and>
            pulling s' c sig bs ranges (H \<union> set (h # hs)) (R \<union> set (concat reqs)) \<and> distinct (concat reqs) \<and>
            set (concat reqs) \<subseteq> M - R \<and> (\<not> M \<subseteq> R \<longrightarrow> concat reqs \<noteq> [])"
          by (intro exI [of _ s3] exI [of _ ?reqs] conjI)
        moreover have "\<not> M \<subseteq> H \<union> set (h # hs)" using open_ by auto
        ultimately show ?thesis by (simp only: if_False)
      qed
    qed
  qed
qed simp

section \<open>The whole transfer\<close>

definition requests :: "effect list \<Rightarrow> chunk_hash list list" where
  "requests es = concat (map (\<lambda>e. case e of Sent (ChunkRequest hs) \<Rightarrow> [hs] | _ \<Rightarrow> []) es)"

definition deliveries :: "effect list \<Rightarrow> (remote_change \<times> bytes option) list" where
  "deliveries es = concat (map (\<lambda>e. case e of Delivered c bs \<Rightarrow> [(c, bs)] | _ \<Rightarrow> []) es)"

text \<open>Rounds over a lossless link: the receiver handles the frames of a round, the sender
  answers all its requests with the frames of the next round. \<open>n\<close> bounds the rounds.\<close>

fun pull_rounds ::
    "('g, 's, 'e) world \<Rightarrow> 's session \<Rightarrow> ('g, 'r, 'e) world \<Rightarrow> nat \<Rightarrow> 'r session \<Rightarrow> message list \<Rightarrow> 'r session_result" where
  "pull_rounds ws sender wr 0 s frames = Inr (s, [])"
| "pull_rounds ws sender wr (Suc n) s frames =
     (case out_run (on_message wr) s frames of
        Inl e \<Rightarrow> Inl e
      | Inr (s', es) \<Rightarrow>
          (case pull_rounds ws sender wr n s' (ss_pending_chunks (foldl (on_chunk_request ws) sender (requests es))) of
             Inl e \<Rightarrow> Inl e
           | Inr (s'', es') \<Rightarrow> Inr (s'', es @ es')))"

lemma requests_map [simp]: "requests (map (Sent \<circ> ChunkRequest) reqs) = reqs"
  by (induction reqs) (simp_all add: requests_def)

lemma deliveries_simps [simp]:
  "deliveries (map (Sent \<circ> ChunkRequest) reqs) = []" "deliveries [Delivered c b] = [(c, b)]"
  "deliveries (es @ es') = deliveries es @ deliveries es'" "deliveries [] = []"
  "deliveries (Sent m # es) = deliveries es" "requests [Delivered c b] = []" "requests [] = []"
  by (induction reqs) (simp_all add: deliveries_def requests_def)

lemma pull_rounds_idle:
  "ss_pending_chunks sender = [] \<Longrightarrow> pull_rounds ws sender wr n s [] = Inr (s, [])"
  by (induction n) simp_all

lemma pull_rounds_complete:
  assumes "announces_file ws sender (rc_path c) bs ranges" "ss_pending_chunks sender = []"
    and w: "reliable wr (rc_path c)" and m: "manifest_of (w_blake3 wr) bs ranges"
    and sig: "matches_sig (w_blake3 wr) bs sig"
  defines "M \<equiv> set (map fst ranges)"
  shows "pulling s c sig bs ranges H R \<Longrightarrow> H \<subseteq> R \<Longrightarrow> R \<subseteq> M \<Longrightarrow> distinct hs \<Longrightarrow> set hs = R - H \<Longrightarrow> hs \<noteq> [] \<Longrightarrow>
    card (M - H) \<le> n \<Longrightarrow>
    \<exists>s' es. pull_rounds ws sender wr n s (map (data_frame bs ranges) hs) = Inr (s', es) \<and> deliveries es = [(c, Some bs)]"
proof (induction n arbitrary: s H R hs)
  case 0
  then have "M \<subseteq> H" by (simp add: M_def)
  with 0 show ?case by (cases hs) auto
next
  case (Suc n)
  have sub: "set hs \<subseteq> R - H" using Suc.prems(5) by simp
  note run = chunks_arrive [OF w m sig Suc.prems(1,2) Suc.prems(3) [unfolded M_def] Suc.prems(4) sub Suc.prems(6), folded M_def]
  show ?case
  proof (cases "M \<subseteq> H \<union> set hs")
    case True
    with run obtain s' where "out_run (on_message wr) s (map (data_frame bs ranges) hs) = Inr (s', [Delivered c (Some bs)])"
      by auto
    with assms(2) show ?thesis by (simp add: pull_rounds_idle)
  next
    case False
    with run obtain s1 reqs where s1: "out_run (on_message wr) s (map (data_frame bs ranges) hs) = Inr (s1, map (Sent \<circ> ChunkRequest) reqs)"
      "pulling s1 c sig bs ranges (H \<union> set hs) (R \<union> set (concat reqs))" "distinct (concat reqs)"
      "set (concat reqs) \<subseteq> M - R" "\<not> M \<subseteq> R \<longrightarrow> concat reqs \<noteq> []"
      by auto
    have hs: "H \<union> set hs = R" using Suc.prems(2,5) by auto
    have "set (concat reqs) \<subseteq> set (map fst ranges)" using s1(4) by (auto simp: M_def)
    from serve_requests [OF assms(1) this s1(3)] obtain gs where
      gs: "ss_pending_chunks (foldl (on_chunk_request ws) sender reqs) = map (data_frame bs ranges) gs"
        "distinct gs" "set gs = set (concat reqs)"
      using assms(2) by auto
    have ne: "gs \<noteq> []" using gs(3) s1(5) False hs by auto
    have fewer: "card (M - R) \<le> n"
    proof -
      obtain x where "x \<in> set hs" using Suc.prems(6) by (cases hs) auto
      then have "x \<in> M - H" "x \<notin> M - R" using Suc.prems(3,5) by auto
      then have "M - R \<subset> M - H" using Suc.prems(2) by blast
      then have "card (M - R) < card (M - H)" by (intro psubset_card_mono) (simp_all add: M_def)
      with Suc.prems(7) show ?thesis by simp
    qed
    have "\<exists>s' es. pull_rounds ws sender wr n s1 (map (data_frame bs ranges) gs) = Inr (s', es) \<and> deliveries es = [(c, Some bs)]"
      using s1(2,4) gs(2,3) ne fewer Suc.prems(3) hs by (intro Suc.IH [of s1 R "R \<union> set (concat reqs)" gs]) auto
    with s1(1) gs(1) show ?thesis by auto
  qed
qed

lemma manifest_received:
  assumes w: "reliable wr (rc_path c)" and c: "rc_kind c = Modified sig"
    and s: "ss_transport s" "\<not> ss_paused s" "ss_assemblies s = bm_empty" "ss_pending_sends_paths s = {}"
    and ok: "snd (session_allows wr s (rc_path c) Inbound)"
  shows "\<exists>s'. on_message wr s (ChangeManifest c sz (map fst ranges)) = advance_assembly wr s' (rc_path c) \<and>
    pulling s' c sig bs ranges {} {}"
proof -
  obtain s1 where allow: "session_allows wr s (rc_path c) Inbound = (s1, True)" using ok by (cases "session_allows wr s (rc_path c) Inbound") simp
  then obtain seen where s1: "s1 = s\<lparr>ss_noted_ignored := seen\<rparr>" using allows_keeps by blast
  have "abandon_superseded s1 (rc_path c) = s1"
    using s s1 by (simp add: abandon_superseded_def bm_keys_def)
  moreover have "flush_queued_send wr s1 (rc_path c) = Inr (s1, [])"
    using s s1 by (simp add: flush_queued_send_def)
  moreover have "pulling (begin_assembly s1 c sig sz (map fst ranges)) c sig bs ranges {} {}"
    using s s1 by (simp add: pulling_def begin_assembly_def)
  ultimately show ?thesis
    using allow c s by (auto simp: on_message_def on_change_manifest_def)
qed

text \<open>C25: A chunked transfer completes with exactly the sender's bytes. The sender has announced
  the file and still has it, the receiver accepts the path, has no assembly in flight and
  queues nothing for the path, no frame is lost and the receiver's disk takes the chunks and gives them back;
  then \<open>length ranges + 2\<close> rounds of requests and answers suffice, and the receiver hands the
  change with the file's content to the engine, once. Relied on of the chunker and of BLAKE3
  is \<open>manifest_of\<close>; the signature of the change is the file's.\<close>

theorem chunk_transfer_completes:
  assumes "announces_file ws sender (rc_path c) bs ranges" "ss_pending_chunks sender = []"
    and "reliable wr (rc_path c)" "w_blake3 wr = w_blake3 ws"
    and "rc_kind c = Modified sig" "matches_sig (w_blake3 ws) bs sig"
    and "ss_transport s" "\<not> ss_paused s" "ss_assemblies s = bm_empty" "ss_pending_sends_paths s = {}"
    and "snd (session_allows wr s (rc_path c) Inbound)"
  shows "\<exists>s' es. pull_rounds ws sender wr (length ranges + 2) s [ChangeManifest c sz (map fst ranges)] = Inr (s', es) \<and>
    deliveries es = [(c, Some bs)]"
proof -
  let ?M = "set (map fst ranges)"
  have m: "manifest_of (w_blake3 wr) bs ranges" and sig: "matches_sig (w_blake3 wr) bs sig"
    using assms(1,4,6) by (simp_all add: announces_file_def)
  obtain s0 where s0: "on_message wr s (ChangeManifest c sz (map fst ranges)) = advance_assembly wr s0 (rc_path c)"
      "pulling s0 c sig bs ranges {} {}"
    using manifest_received [OF assms(3,5,7-11)] by blast
  show ?thesis
  proof (cases "ranges = []")
    case True
    then obtain s' where "advance_assembly wr s0 (rc_path c) = Inr (s', [Delivered c (Some bs)])"
      using complete_pulling [OF assms(3) m sig s0(2)] by auto
    with s0(1) assms(2) show ?thesis
      by (simp add: and_then_def pull_rounds_idle [OF assms(2)])
  next
    case False
    define batch where "batch = next_request_batch (map fst ranges) {} {}"
    have batch: "distinct batch" "set batch \<subseteq> ?M" "batch \<noteq> []"
      using next_batch_props [of "map fst ranges" "{}" "{}"] False unfolding batch_def by auto
    obtain s1 where s1: "advance_assembly wr s0 (rc_path c) = Inr (s1, map (Sent \<circ> ChunkRequest) [batch])"
      "pulling s1 c sig bs ranges {} (set batch)"
      using request_pulling [OF assms(3) s0(2)] False batch(3) unfolding batch_def by auto
    obtain hs where hs: "ss_pending_chunks (foldl (on_chunk_request ws) sender [batch]) = map (data_frame bs ranges) hs"
        "distinct hs" "set hs = set batch"
      using serve_requests [OF assms(1), of "[batch]"] batch assms(2) by auto
    have "hs \<noteq> []" using hs(3) batch(3) by auto
    moreover have "card ?M \<le> Suc (length ranges)" using card_length [of "map fst ranges"] by simp
    ultimately obtain s' es where "pull_rounds ws sender wr (Suc (length ranges)) s1 (map (data_frame bs ranges) hs) = Inr (s', es)"
        "deliveries es = [(c, Some bs)]"
      using pull_rounds_complete [OF assms(1,2,3) m sig s1(2), of hs "Suc (length ranges)"] hs(2,3) batch
      by (auto simp del: pull_rounds.simps)
    moreover have "requests (map (Sent \<circ> ChunkRequest) [batch]) = [batch]" by (rule requests_map)
    ultimately show ?thesis
      using s0(1) s1(1) hs(1) by (simp add: and_then_def)
  qed
qed

definition demo_big :: bytes where
  "demo_big = [1, 2]"

definition demo_ranges :: "chunk_range list" where
  "demo_ranges = [(demo_blake3 [1], 0, 1), (demo_blake3 [2], 1, 2)]"

definition demo_big_change :: remote_change where
  "demo_big_change = \<lparr>rc_path = demo_path, rc_kind = Modified \<lparr>sig_hash = demo_blake3 demo_big, sig_size = 2,
     sig_exec = False, sig_mtime_ms = 0\<rparr>, rc_version = demo_clock 2\<rparr>"

definition demo_big_world :: "(string, string list, unit) world" where
  "demo_big_world = demo_world\<lparr>w_read := (\<lambda>_. Some demo_big)\<rparr>"

definition demo_sender :: "string list session" where
  "demo_sender = (demo_session (engine_new (ReplicaId 2) index_new))\<lparr>ss_outbound_manifests := bm_insert demo_path demo_ranges bm_empty\<rparr>"

lemma demo_classify: "classify literal_api demo_config ''f'' = CLASSIFICATION_DEFAULT"
proof -
  have "ga_matches literal_api (cf_rule_set demo_config) ''f'' = []"
    by (simp add: literal_api_def demo_config_def)
  moreover have "\<not> is_tomo_internal ''f''" by (simp add: is_tomo_internal_def TOMO_DIR_def)
  ultimately show ?thesis by (simp add: classify_def list_max_def)
qed

lemma demo_allows: "snd (session_allows demo_world (demo_session e) demo_path Inbound)"
  by (simp add: session_allows_def allow_crossing_def demo_world_def demo_session_def demo_path_def demo_classify
      CLASSIFICATION_DEFAULT_def crossing_decide_def)

theorem chunk_transfer_completes_witness:
  "\<exists>s' es. pull_rounds demo_big_world demo_sender demo_world (length demo_ranges + 2)
      (demo_session (engine_new (ReplicaId 1) index_new)) [ChangeManifest demo_big_change 2 (map fst demo_ranges)] = Inr (s', es) \<and>
    deliveries es = [(demo_big_change, Some demo_big)]"
proof (rule chunk_transfer_completes [where sig = "\<lparr>sig_hash = demo_blake3 demo_big, sig_size = 2, sig_exec = False, sig_mtime_ms = 0\<rparr>"])
  have "demo_blake3 [1] \<noteq> demo_blake3 [2]" by (simp add: demo_blake3_def content_hash_eq_iff)
  then have "manifest_of demo_blake3 demo_big demo_ranges"
    by (auto simp: manifest_of_def demo_big_def demo_ranges_def slice_def)
  then show "announces_file demo_big_world demo_sender (rc_path demo_big_change) demo_big demo_ranges"
    by (simp add: announces_file_def demo_sender_def demo_big_change_def demo_big_world_def demo_world_def)
  show "snd (session_allows demo_world (demo_session (engine_new (ReplicaId 1) index_new)) (rc_path demo_big_change) Inbound)"
    using demo_allows by (simp add: demo_big_change_def)
qed (simp_all add: demo_sender_def demo_session_def reliable_def demo_world_def demo_big_world_def demo_big_change_def
    matches_sig_def demo_big_def)

end
