(* ===== verification/Tomo_History.thy ===== *)
theory Tomo_History
  imports Tomo_Index "HOL-Library.Monad_Syntax"
begin

text \<open>
  The history store of \<^verbatim>\<open>crates/tomo-history/src/store.rs\<close> (errors: \<^verbatim>\<open>error.rs\<close>). The SQLite
  database is a record of its tables, a table the list of its rows in the order of their
  rowids; a statement that succeeds is a function on it and the constraints the statements
  rely on (the unique identity index, the foreign keys) are written out. A transaction that
  is not committed is a result without a database. BLAKE3, FastCDC, zstd and the postcard
  codec of clocks are the parameter \<open>store_api\<close>, with \<open>sa_rowid\<close> the rowid that AUTOINCREMENT
  picks after the largest one used (it may leave gaps); failures of SQLite itself are left out.
\<close>

section \<open>Data\<close>

datatype origin = OriginLocal | OriginRemote

definition origin_as_i64 :: "origin \<Rightarrow> int" where
  "origin_as_i64 r = (case r of OriginLocal \<Rightarrow> 0 | OriginRemote \<Rightarrow> 1)"

definition origin_from_i64 :: "int \<Rightarrow> origin" where
  "origin_from_i64 v = (if v = 0 then OriginLocal else OriginRemote)"

text \<open>The cast between u64 and the i64 SQLite stores: the same 64 bits.\<close>

definition to_sql_int :: "u64 \<Rightarrow> int" where
  "to_sql_int v = sint v"

definition from_sql_int :: "int \<Rightarrow> u64" where
  "from_sql_int v = word_of_int v"

definition len_u64 :: "nat \<Rightarrow> u64" where
  "len_u64 n = (if n < 2 ^ 64 then of_nat n else - 1)"

definition hex :: "bytes \<Rightarrow> string" where
  "hex bs = concat (map (\<lambda>b. [hex_digit (unat b div 16), hex_digit (unat b mod 16)]) bs)"

definition to_hash32 :: "bytes \<Rightarrow> content_hash option" where
  "to_hash32 bs = (if length bs = 32 then Some (ContentHash bs) else None)"

datatype malformed =
    NoHash int
  | NoSize int
  | NoManifest int
  | ManifestLength int nat
  | HashLength int nat
  | StoredPath string path_error
  | ZstdFailed

datatype history_error =
    SqliteConstraint
  | SqliteUnavailable
  | ClockCodec
  | MissingContent relpath
  | SigMismatch relpath string string
  | NoSuchVersion int
  | NotPresent int
  | MissingChunk int string
  | CorruptChunk string
  | ContentMismatch int string string
  | Malformed malformed

record version_row =
  vr_id :: int
  vr_path :: string
  vr_state :: int
  vr_content_hash :: "bytes option"
  vr_size :: "int option"
  vr_manifest :: "bytes option"
  vr_clock :: bytes
  vr_replica :: int
  vr_wall_ms :: int
  vr_origin :: int
  vr_exec :: int

record chunk_row =
  ck_hash :: bytes
  ck_size :: int
  ck_zdata :: bytes

record conflict_row =
  cf_id :: int
  cf_path :: string
  cf_winner :: int
  cf_loser :: int
  cf_wall_ms :: int
  cf_resolved :: int

record database =
  db_chunks :: "chunk_row list"
  db_versions :: "version_row list"
  db_conflicts :: "conflict_row list"
  db_version_seq :: int
  db_conflict_seq :: int
  db_identity_index :: bool

record history_store =
  hs_db :: database
  hs_has_exec :: bool

record version_meta =
  vm_id :: int
  vm_state :: entry_state
  vm_content_hash :: "content_hash option"
  vm_size :: "u64 option"
  vm_clock :: vector_clock
  vm_replica :: replica_id
  vm_wall_ms :: u64
  vm_origin :: origin

record version_record =
  ve_path :: relpath
  ve_state :: entry_state
  ve_clock :: vector_clock
  ve_replica :: replica_id
  ve_origin :: origin
  ve_wall_ms :: u64
  ve_bytes :: "bytes option"

record conflict_record =
  cn_id :: int
  cn_path :: relpath
  cn_winner :: int
  cn_loser :: int
  cn_wall_ms :: u64
  cn_resolved :: bool

record path_history =
  ph_path :: relpath
  ph_versions :: u64
  ph_last_version :: int
  ph_last_wall_ms :: u64

record store_api =
  sa_blake3 :: "bytes \<Rightarrow> content_hash"
  sa_cdc :: "bytes \<Rightarrow> (nat \<times> nat) list"
  sa_zenc :: "bytes \<Rightarrow> bytes option"
  sa_zdec :: "bytes \<Rightarrow> bytes option"
  sa_clock_enc :: "vector_clock \<Rightarrow> bytes"
  sa_clock_dec :: "bytes \<Rightarrow> vector_clock option"
  sa_rowid :: "int \<Rightarrow> int"

section \<open>Chunks\<close>

definition chunk_slice :: "bytes \<Rightarrow> nat \<times> nat \<Rightarrow> bytes" where
  "chunk_slice bs c = (case c of (offset, len) \<Rightarrow> take len (drop offset bs))"

definition chunk_bytes_of :: "store_api \<Rightarrow> bytes \<Rightarrow> (content_hash \<times> nat \<times> nat) list" where
  "chunk_bytes_of api bs =
     map (\<lambda>(offset, len). (sa_blake3 api (chunk_slice bs (offset, len)), offset, offset + len)) (sa_cdc api bs)"

definition find_chunk :: "chunk_row list \<Rightarrow> bytes \<Rightarrow> chunk_row option" where
  "find_chunk rows h = List.find (\<lambda>r. ck_hash r = h) rows"

record stored_content =
  sc_hash :: content_hash
  sc_manifest :: bytes
  sc_new_bytes :: u64

fun store_slices ::
    "store_api \<Rightarrow> chunk_row list \<Rightarrow> bytes list \<Rightarrow> bytes \<Rightarrow> u64 \<Rightarrow> history_error + chunk_row list \<times> bytes \<times> u64" where
  "store_slices api rows [] m new_bytes = Inr (rows, m, new_bytes)"
| "store_slices api rows (s # ss) m new_bytes =
     (let key = hash_bytes (sa_blake3 api s)
      in case sa_zenc api s of
           None \<Rightarrow> Inl (Malformed ZstdFailed)
         | Some z \<Rightarrow>
             (case find_chunk rows key of
                Some _ \<Rightarrow> store_slices api rows ss (m @ key) new_bytes
              | None \<Rightarrow> store_slices api
                  (rows @ [\<lparr>ck_hash = key, ck_size = to_sql_int (len_u64 (length s)), ck_zdata = z\<rparr>]) ss (m @ key)
                  (sat_add new_bytes (len_u64 (length s)))))"

definition store_chunks :: "store_api \<Rightarrow> database \<Rightarrow> bytes \<Rightarrow> history_error + database \<times> stored_content" where
  "store_chunks api db bs =
     (case store_slices api (db_chunks db) (map (chunk_slice bs) (sa_cdc api bs)) [] 0 of
        Inl e \<Rightarrow> Inl e
      | Inr (rows, m, new_bytes) \<Rightarrow>
          Inr (db\<lparr>db_chunks := rows\<rparr>, \<lparr>sc_hash = sa_blake3 api bs, sc_manifest = m, sc_new_bytes = new_bytes\<rparr>))"

definition store_content :: "store_api \<Rightarrow> database \<Rightarrow> bytes \<Rightarrow> history_error + database \<times> content_hash \<times> u64" where
  "store_content api db bs = (case store_chunks api db bs of
      Inl e \<Rightarrow> Inl e | Inr (db', st) \<Rightarrow> Inr (db', sc_hash st, sc_new_bytes st))"

definition decompress_and_verify :: "store_api \<Rightarrow> bytes \<Rightarrow> u64 \<Rightarrow> bytes \<Rightarrow> history_error + bytes" where
  "decompress_and_verify api h sz zdata = (case sa_zdec api zdata of
      None \<Rightarrow> Inl (CorruptChunk (hex h))
    | Some plain \<Rightarrow>
        if len_u64 (length plain) \<noteq> sz then Inl (CorruptChunk (hex h))
        else if hash_bytes (sa_blake3 api plain) \<noteq> h then Inl (CorruptChunk (hex h))
        else Inr plain)"

section \<open>Versions\<close>

definition verify_sig :: "relpath \<Rightarrow> content_sig \<Rightarrow> content_hash \<Rightarrow> u64 \<Rightarrow> history_error option" where
  "verify_sig path sig actual_hash actual_size =
     (if actual_hash \<noteq> sig_hash sig \<or> actual_size \<noteq> sig_size sig
      then Some (SigMismatch path (hash_display (sig_hash sig)) (hash_display actual_hash)) else None)"

record prepared_version =
  pv_state :: int
  pv_content_hash :: "content_hash option"
  pv_size :: "u64 option"
  pv_manifest :: "bytes option"
  pv_exec :: bool

definition prepare_version ::
    "store_api \<Rightarrow> database \<Rightarrow> relpath \<Rightarrow> entry_state \<Rightarrow> bytes option \<Rightarrow> history_error + database \<times> prepared_version" where
  "prepare_version api db path state bytes_opt = (case state of
      Present sig \<Rightarrow>
        (case bytes_opt of
           None \<Rightarrow> Inl (MissingContent path)
         | Some bs \<Rightarrow>
             (case store_chunks api db bs of
                Inl e \<Rightarrow> Inl e
              | Inr (db', stored) \<Rightarrow>
                  (case verify_sig path sig (sc_hash stored) (len_u64 (length bs)) of
                     Some e \<Rightarrow> Inl e
                   | None \<Rightarrow> Inr (db', \<lparr>pv_state = 1, pv_content_hash = Some (sc_hash stored), pv_size = Some (sig_size sig),
                       pv_manifest = Some (sc_manifest stored), pv_exec = sig_exec sig\<rparr>))))
    | Tombstone \<Rightarrow>
        Inr (db, \<lparr>pv_state = 0, pv_content_hash = None, pv_size = None, pv_manifest = None, pv_exec = False\<rparr>))"

definition same_identity :: "version_row \<Rightarrow> version_row \<Rightarrow> bool" where
  "same_identity a b \<longleftrightarrow> vr_path a = vr_path b \<and> vr_state a = vr_state b \<and> vr_clock a = vr_clock b"

definition make_row :: "store_api \<Rightarrow> version_record \<Rightarrow> prepared_version \<Rightarrow> int \<Rightarrow> version_row" where
  "make_row api r pv rowid =
     \<lparr>vr_id = rowid, vr_path = as_str (ve_path r), vr_state = pv_state pv,
      vr_content_hash = map_option hash_bytes (pv_content_hash pv), vr_size = map_option to_sql_int (pv_size pv),
      vr_manifest = pv_manifest pv, vr_clock = sa_clock_enc api (ve_clock r), vr_replica = to_sql_int (replica_raw (ve_replica r)),
      vr_wall_ms = to_sql_int (ve_wall_ms r), vr_origin = origin_as_i64 (ve_origin r), vr_exec = (if pv_exec pv then 1 else 0)\<rparr>"

text \<open>\<open>INSERT OR IGNORE\<close>: the unique index on the identity makes it a no-op when a row with
  the same path, state and clock exists; the id of that row is the result.\<close>

definition insert_row :: "database \<Rightarrow> version_row \<Rightarrow> database \<times> int" where
  "insert_row db row =
     (case (if db_identity_index db then List.find (same_identity row) (db_versions db) else None) of
        Some old \<Rightarrow> (db, vr_id old)
      | None \<Rightarrow>
          (db\<lparr>db_versions := db_versions db @ [row], db_version_seq := vr_id row\<rparr>, vr_id row))"

definition insert_version :: "store_api \<Rightarrow> database \<Rightarrow> version_record \<Rightarrow> history_error + database \<times> int" where
  "insert_version api db r = (case prepare_version api db (ve_path r) (ve_state r) (ve_bytes r) of
      Inl e \<Rightarrow> Inl e
    | Inr (db', pv) \<Rightarrow> Inr (insert_row db' (make_row api r pv (sa_rowid api (db_version_seq db')))))"

definition record_version :: "store_api \<Rightarrow> database \<Rightarrow> version_record \<Rightarrow> history_error + database \<times> int" where
  "record_version api db r = insert_version api db r"

fun record_versions :: "store_api \<Rightarrow> database \<Rightarrow> version_record list \<Rightarrow> history_error + database \<times> int list" where
  "record_versions api db [] = Inr (db, [])"
| "record_versions api db (r # rs) = (case insert_version api db r of
      Inl e \<Rightarrow> Inl e
    | Inr (db', i) \<Rightarrow> (case record_versions api db' rs of
          Inl e \<Rightarrow> Inl e
        | Inr (db'', ids) \<Rightarrow> Inr (db'', i # ids)))"

definition version_identities :: "database \<Rightarrow> (string \<times> bytes \<times> int) set" where
  "version_identities db = set (map (\<lambda>v. (vr_path v, vr_clock v, vr_state v)) (db_versions db))"

definition find_version :: "database \<Rightarrow> int \<Rightarrow> version_row option" where
  "find_version db i = List.find (\<lambda>v. vr_id v = i) (db_versions db)"

section \<open>Conflicts\<close>

definition record_conflict :: "store_api \<Rightarrow> database \<Rightarrow> relpath \<Rightarrow> int \<Rightarrow> int \<Rightarrow> u64 \<Rightarrow> history_error + database \<times> int" where
  "record_conflict api db path win los wall_ms =
     (if find_version db win = None \<or> find_version db los = None then Inl SqliteConstraint
      else let i = sa_rowid api (db_conflict_seq db)
        in Inr (db\<lparr>db_conflicts := db_conflicts db @
              [\<lparr>cf_id = i, cf_path = as_str path, cf_winner = win, cf_loser = los, cf_wall_ms = to_sql_int wall_ms, cf_resolved = 0\<rparr>],
            db_conflict_seq := i\<rparr>, i))"

definition set_resolved :: "database \<Rightarrow> int \<Rightarrow> int \<Rightarrow> int \<Rightarrow> database \<times> bool" where
  "set_resolved db i from_value to_value =
     (db\<lparr>db_conflicts := map (\<lambda>c. if cf_id c = i \<and> cf_resolved c = from_value then c\<lparr>cf_resolved := to_value\<rparr> else c) (db_conflicts db)\<rparr>,
      length (filter (\<lambda>c. cf_id c = i \<and> cf_resolved c = from_value) (db_conflicts db)) = 1)"

definition mark_conflict_resolved :: "database \<Rightarrow> int \<Rightarrow> database \<times> bool" where
  "mark_conflict_resolved db i = set_resolved db i 0 1"

definition mark_conflict_unresolved :: "database \<Rightarrow> int \<Rightarrow> database \<times> bool" where
  "mark_conflict_unresolved db i = set_resolved db i 1 0"

fun conflict_records :: "conflict_row list \<Rightarrow> history_error + conflict_record list" where
  "conflict_records [] = Inr []"
| "conflict_records (c # cs) = (case relpath_new (cf_path c) of
      Inl e \<Rightarrow> Inl (Malformed (StoredPath (cf_path c) e))
    | Inr path \<Rightarrow> (case conflict_records cs of
          Inl e \<Rightarrow> Inl e
        | Inr out \<Rightarrow> Inr (\<lparr>cn_id = cf_id c, cn_path = path, cn_winner = cf_winner c, cn_loser = cf_loser c,
              cn_wall_ms = from_sql_int (cf_wall_ms c), cn_resolved = (cf_resolved c \<noteq> 0)\<rparr> # out)))"

definition conflicts_of :: "database \<Rightarrow> bool \<Rightarrow> history_error + conflict_record list" where
  "conflicts_of db unresolved_only =
     conflict_records (if unresolved_only then filter (\<lambda>c. cf_resolved c = 0) (db_conflicts db) else db_conflicts db)"

section \<open>Queries\<close>

definition into_meta :: "store_api \<Rightarrow> bool \<Rightarrow> version_row \<Rightarrow> history_error + version_meta" where
  "into_meta api has_exec v = (case sa_clock_dec api (vr_clock v) of
      None \<Rightarrow> Inl ClockCodec
    | Some clock \<Rightarrow>
        (let hash_result = (case vr_content_hash v of
               None \<Rightarrow> Inr None
             | Some b \<Rightarrow> (case to_hash32 b of None \<Rightarrow> Inl (Malformed (HashLength (vr_id v) (length b))) | Some h \<Rightarrow> Inr (Some h)));
             sz = map_option from_sql_int (vr_size v)
         in case hash_result of
              Inl e \<Rightarrow> Inl e
            | Inr content_hash_opt \<Rightarrow>
                (let state_result =
                   (if vr_state v = 0 then Inr Tombstone
                    else case content_hash_opt of
                      None \<Rightarrow> Inl (Malformed (NoHash (vr_id v)))
                    | Some h \<Rightarrow> (case sz of
                          None \<Rightarrow> Inl (Malformed (NoSize (vr_id v)))
                        | Some n \<Rightarrow> Inr (Present \<lparr>sig_hash = h, sig_size = n, sig_exec = (has_exec \<and> vr_exec v \<noteq> 0),
                              sig_mtime_ms = 0\<rparr>)))
                 in case state_result of
                      Inl e \<Rightarrow> Inl e
                    | Inr state \<Rightarrow> Inr \<lparr>vm_id = vr_id v, vm_state = state, vm_content_hash = content_hash_opt, vm_size = sz,
                          vm_clock = clock, vm_replica = ReplicaId (from_sql_int (vr_replica v)),
                          vm_wall_ms = from_sql_int (vr_wall_ms v), vm_origin = origin_from_i64 (vr_origin v)\<rparr>)))"

fun collect :: "('a \<Rightarrow> 'e + 'b) \<Rightarrow> 'a list \<Rightarrow> 'e + 'b list" where
  "collect f [] = Inr []"
| "collect f (x # xs) = (case f x of Inl e \<Rightarrow> Inl e | Inr y \<Rightarrow>
      (case collect f xs of Inl e \<Rightarrow> Inl e | Inr ys \<Rightarrow> Inr (y # ys)))"

definition log_of :: "store_api \<Rightarrow> history_store \<Rightarrow> relpath \<Rightarrow> history_error + version_meta list" where
  "log_of api hs path =
     collect (into_meta api (hs_has_exec hs)) (rev (filter (\<lambda>v. vr_path v = as_str path) (db_versions (hs_db hs))))"

definition recent :: "store_api \<Rightarrow> history_store \<Rightarrow> nat \<Rightarrow> history_error + (relpath \<times> version_meta) list" where
  "recent api hs limit =
     collect (\<lambda>v. case relpath_new (vr_path v) of
         Inl e \<Rightarrow> Inl (Malformed (StoredPath (vr_path v) e))
       | Inr path \<Rightarrow> (case into_meta api (hs_has_exec hs) v of Inl e \<Rightarrow> Inl e | Inr m \<Rightarrow> Inr (path, m)))
       (take limit (rev (db_versions (hs_db hs))))"

definition history_paths :: "database \<Rightarrow> nat \<Rightarrow> history_error + path_history list" where
  "history_paths db limit =
     (let of_path = (\<lambda>v. filter (\<lambda>u. vr_path u = vr_path v) (db_versions db));
          newest = filter (\<lambda>v. vr_id v = foldl max (vr_id v) (map vr_id (of_path v))) (db_versions db)
      in collect (\<lambda>v. case relpath_new (vr_path v) of
             Inl e \<Rightarrow> Inl (Malformed (StoredPath (vr_path v) e))
           | Inr path \<Rightarrow> Inr \<lparr>ph_path = path, ph_versions = from_sql_int (int (length (of_path v))), ph_last_version = vr_id v,
                 ph_last_wall_ms = from_sql_int (vr_wall_ms v)\<rparr>)
           (take limit (rev newest)))"

definition latest_version_id :: "database \<Rightarrow> relpath \<Rightarrow> int option" where
  "latest_version_id db path = (case rev (filter (\<lambda>v. vr_path v = as_str path) (db_versions db)) of
      [] \<Rightarrow> None | v # _ \<Rightarrow> Some (vr_id v))"

function chunks_exact :: "bytes \<Rightarrow> bytes list" where
  "chunks_exact m = (if length m < 32 then [] else take 32 m # chunks_exact (drop 32 m))"
  by pat_completeness auto
termination by (relation "measure length") auto

definition read_chunk_row :: "store_api \<Rightarrow> database \<Rightarrow> int \<Rightarrow> bytes \<Rightarrow> history_error + bytes" where
  "read_chunk_row api db i h = (case find_chunk (db_chunks db) h of
      None \<Rightarrow> Inl (MissingChunk i (hex h))
    | Some r \<Rightarrow> decompress_and_verify api h (from_sql_int (ck_size r)) (ck_zdata r))"

definition get_content :: "store_api \<Rightarrow> database \<Rightarrow> int \<Rightarrow> history_error + bytes" where
  "get_content api db i = (case find_version db i of
      None \<Rightarrow> Inl (NoSuchVersion i)
    | Some v \<Rightarrow>
        if vr_state v = 0 then Inl (NotPresent i)
        else (case vr_content_hash v of
            None \<Rightarrow> Inl (Malformed (NoHash i))
          | Some content_hash_b \<Rightarrow> (case vr_manifest v of
              None \<Rightarrow> Inl (Malformed (NoManifest i))
            | Some m \<Rightarrow>
                if length m mod 32 \<noteq> 0 then Inl (Malformed (ManifestLength i (length m)))
                else (case collect (read_chunk_row api db i) (chunks_exact m) of
                    Inl e \<Rightarrow> Inl e
                  | Inr plains \<Rightarrow>
                      (let out = concat plains; actual = sa_blake3 api out
                       in case to_hash32 content_hash_b of
                            None \<Rightarrow> Inl (Malformed (HashLength i (length content_hash_b)))
                          | Some expected \<Rightarrow>
                              if actual \<noteq> expected then Inl (ContentMismatch i (hex (hash_bytes expected)) (hash_display actual))
                              else Inr out)))))"

definition content_by_hash :: "store_api \<Rightarrow> database \<Rightarrow> content_hash \<Rightarrow> history_error + bytes option" where
  "content_by_hash api db h =
     (case rev (filter (\<lambda>v. vr_state v = 1 \<and> vr_content_hash v = Some (hash_bytes h)) (db_versions db)) of
        [] \<Rightarrow> Inr None
      | v # _ \<Rightarrow> (case get_content api db (vr_id v) of Inl e \<Rightarrow> Inl e | Inr bs \<Rightarrow> Inr (Some bs)))"

section \<open>Integrity check\<close>

datatype check_issue =
    QuickCheckIssue string
  | NoManifestIssue int
  | ManifestLengthIssue int nat
  | MissingChunkIssue int string
  | SizeIssue int int u64
  | ChunkIssue history_error

record check_report =
  cp_versions_checked :: u64
  cp_chunks_checked :: u64
  cp_ok :: bool
  cp_issues :: "check_issue list"

fun sum_chunks :: "database \<Rightarrow> int \<Rightarrow> bytes list \<Rightarrow> u64 \<Rightarrow> check_issue list \<Rightarrow> u64 \<times> check_issue list" where
  "sum_chunks db i [] summed issues = (summed, issues)"
| "sum_chunks db i (h # hs) summed issues = (case find_chunk (db_chunks db) h of
      None \<Rightarrow> sum_chunks db i hs summed (issues @ [MissingChunkIssue i (hex h)])
    | Some r \<Rightarrow> sum_chunks db i hs (sat_add summed (from_sql_int (ck_size r))) issues)"

definition check_version :: "database \<Rightarrow> version_row \<Rightarrow> check_issue list" where
  "check_version db v = (case vr_manifest v of
      None \<Rightarrow> [NoManifestIssue (vr_id v)]
    | Some m \<Rightarrow>
        if length m mod 32 \<noteq> 0 then [ManifestLengthIssue (vr_id v) (length m)]
        else (case sum_chunks db (vr_id v) (chunks_exact m) 0 [] of
            (summed, issues) \<Rightarrow> issues @ (case vr_size v of
               None \<Rightarrow> []
             | Some sz \<Rightarrow> if from_sql_int sz \<noteq> summed then [SizeIssue (vr_id v) sz summed] else [])))"

definition check_chunk :: "store_api \<Rightarrow> chunk_row \<Rightarrow> check_issue list" where
  "check_chunk api r = (case decompress_and_verify api (ck_hash r) (from_sql_int (ck_size r)) (ck_zdata r) of
      Inl e \<Rightarrow> [ChunkIssue e] | Inr _ \<Rightarrow> [])"

text \<open>\<open>quick\<close> is the answer of SQLite's own \<open>quick_check\<close>.\<close>

definition store_check :: "store_api \<Rightarrow> database \<Rightarrow> string \<Rightarrow> check_report" where
  "store_check api db quick =
     (let present = filter (\<lambda>v. vr_state v = 1) (db_versions db);
          issues = (if quick \<noteq> ''ok'' then [QuickCheckIssue quick] else []) @
            concat (map (check_version db) present) @ concat (map (check_chunk api) (db_chunks db))
      in \<lparr>cp_versions_checked = of_nat (length present), cp_chunks_checked = of_nat (length (db_chunks db)),
          cp_ok = (issues = []), cp_issues = issues\<rparr>)"

section \<open>Migration\<close>

definition canonical_id :: "database \<Rightarrow> int \<Rightarrow> int option" where
  "canonical_id db i = (case find_version db i of
      None \<Rightarrow> None
    | Some w \<Rightarrow> Some (foldl min (vr_id w) (map vr_id (filter (same_identity w) (db_versions db)))))"

definition repoint :: "database \<Rightarrow> conflict_row \<Rightarrow> history_error + conflict_row" where
  "repoint db c = (case (canonical_id db (cf_winner c), canonical_id db (cf_loser c)) of
      (Some win, Some los) \<Rightarrow> Inr (c\<lparr>cf_winner := win, cf_loser := los\<rparr>)
    | _ \<Rightarrow> Inl SqliteConstraint)"

definition dedup_versions :: "database \<Rightarrow> history_error + database" where
  "dedup_versions db = (case collect (repoint db) (db_conflicts db) of
      Inl e \<Rightarrow> Inl e
    | Inr cs \<Rightarrow> Inr (db\<lparr>db_conflicts := cs,
          db_versions := filter (\<lambda>v. canonical_id db (vr_id v) = Some (vr_id v)) (db_versions db)\<rparr>))"

definition migrate_identity :: "database \<Rightarrow> history_error + database" where
  "migrate_identity db =
     (if db_identity_index db then Inr db
      else case dedup_versions db of Inl e \<Rightarrow> Inl e | Inr db' \<Rightarrow> Inr (db'\<lparr>db_identity_index := True\<rparr>))"

end
