(* ===== verification/Tomo_Ledger.thy ===== *)
theory Tomo_Ledger
  imports Tomo_History
begin

text \<open>
  What the history store guarantees (\<^verbatim>\<open>crates/tomo-history/src/store.rs\<close>): the tables stay well
  formed under every operation, the store implements an append-only journal of versions with
  their contents, its integrity check passes on what it wrote itself, and the schema migration
  drops duplicates only. The assumptions on BLAKE3, FastCDC and zstd are \<open>api_ok\<close>.
\<close>

section \<open>What is relied on of the libraries\<close>

definition api_ok :: "store_api \<Rightarrow> bool" where
  "api_ok api \<longleftrightarrow> (\<forall>bs. concat (map (chunk_slice bs) (sa_cdc api bs)) = bs) \<and>
     (\<forall>bs. \<forall>(offset, len) \<in> set (sa_cdc api bs). offset + len \<le> length bs) \<and>
     (\<forall>b z. sa_zenc api b = Some z \<longrightarrow> sa_zdec api z = Some b) \<and>
     (\<forall>i. i < sa_rowid api i)"

definition slices :: "store_api \<Rightarrow> bytes \<Rightarrow> bytes list" where
  "slices api bs = map (chunk_slice bs) (sa_cdc api bs)"

definition chunk_key :: "store_api \<Rightarrow> bytes \<Rightarrow> bytes" where
  "chunk_key api s = hash_bytes (sa_blake3 api s)"

text \<open>The contents met: their chunks lie in a set \<open>U\<close> on which BLAKE3 has no collision, and a
  content fits the address space.\<close>

definition content_ok :: "store_api \<Rightarrow> bytes set \<Rightarrow> bytes \<Rightarrow> bool" where
  "content_ok api U bs \<longleftrightarrow> set (slices api bs) \<subseteq> U \<and> length bs < 2 ^ 64"

lemma concat_slices: "api_ok api \<Longrightarrow> concat (slices api bs) = bs"
  by (simp add: api_ok_def slices_def)

lemma sql_roundtrip [simp]: "from_sql_int (to_sql_int v) = v"
  by (simp add: from_sql_int_def to_sql_int_def)

lemma length_chunk_key [simp]: "length (chunk_key api s) = 32"
  by (simp add: chunk_key_def)

lemma to_hash32_bytes [simp]: "to_hash32 (hash_bytes h) = Some h"
  by (simp add: to_hash32_def hash_bytes_inverse)

declare chunks_exact.simps [simp del]

lemma chunks_exact_concat: "\<forall>k \<in> set ks. length k = 32 \<Longrightarrow> chunks_exact (concat ks) = ks"
  by (induction ks) (simp_all add: chunks_exact.simps)

lemma length_concat_keys: "\<forall>k \<in> set ks. length k = 32 \<Longrightarrow> length (concat ks) = 32 * length ks"
  by (induction ks) auto

lemma collect_all: "\<forall>x \<in> set xs. f x = Inr (g x) \<Longrightarrow> collect f xs = Inr (map g xs)"
  by (induction xs) auto

lemma collect_map: "collect f (map g xs) = collect (f \<circ> g) xs"
  by (induction xs) (simp_all split: sum.splits)

section \<open>The chunk table\<close>

definition chunk_ok :: "store_api \<Rightarrow> bytes set \<Rightarrow> chunk_row \<Rightarrow> bool" where
  "chunk_ok api U r \<longleftrightarrow> (\<exists>b \<in> U. sa_zdec api (ck_zdata r) = Some b \<and>
     ck_size r = to_sql_int (len_u64 (length b)) \<and> ck_hash r = chunk_key api b)"

lemma find_chunk_Some: "find_chunk rows h = Some r \<Longrightarrow> r \<in> set rows \<and> ck_hash r = h"
  unfolding find_chunk_def by (auto simp: find_Some_iff)

lemma find_chunk_None: "find_chunk rows h = None \<longleftrightarrow> h \<notin> ck_hash ` set rows"
  unfolding find_chunk_def by (auto simp: find_None_iff)

lemma find_chunk_append:
  "find_chunk (rows @ ext) h = (case find_chunk rows h of None \<Rightarrow> find_chunk ext h | Some r \<Rightarrow> Some r)"
  unfolding find_chunk_def by (induction rows) auto

lemma store_slices_effect:
  assumes "api_ok api"
  shows "store_slices api rows ss m n = Inr (rows', m', n') \<Longrightarrow> \<forall>r \<in> set rows. chunk_ok api U r \<Longrightarrow> set ss \<subseteq> U \<Longrightarrow>
    (\<forall>r \<in> set rows'. chunk_ok api U r) \<and> (\<exists>ext. rows' = rows @ ext) \<and>
    m' = m @ concat (map (chunk_key api) ss) \<and> chunk_key api ` set ss \<subseteq> ck_hash ` set rows'"
proof (induction ss arbitrary: rows m n)
  case Nil
  then show ?case by simp
next
  case (Cons s ss)
  obtain z where z: "sa_zenc api s = Some z" using Cons.prems(1) by (auto simp: Let_def split: option.splits)
  have dec: "sa_zdec api z = Some s" using assms z by (simp add: api_ok_def)
  show ?case
  proof (cases "find_chunk rows (chunk_key api s)")
    case (Some r)
    then have "store_slices api rows ss (m @ chunk_key api s) n = Inr (rows', m', n')"
      using Cons.prems(1) z by (simp add: Let_def chunk_key_def)
    note ih = Cons.IH [OF this Cons.prems(2)]
    obtain ext where ext: "rows' = rows @ ext" and keys: "chunk_key api ` set ss \<subseteq> ck_hash ` set rows'"
      and ok: "\<forall>r \<in> set rows'. chunk_ok api U r" and m: "m' = (m @ chunk_key api s) @ concat (map (chunk_key api) ss)"
      using ih Cons.prems(3) by auto
    have "chunk_key api s \<in> ck_hash ` set rows'" using find_chunk_Some [OF Some] ext by (auto intro: rev_image_eqI)
    then show ?thesis using ext keys ok m by simp
  next
    case None
    let ?row = "\<lparr>ck_hash = chunk_key api s, ck_size = to_sql_int (len_u64 (length s)), ck_zdata = z\<rparr>"
    have run: "store_slices api (rows @ [?row]) ss (m @ chunk_key api s) (sat_add n (len_u64 (length s))) = Inr (rows', m', n')"
      using Cons.prems(1) z None by (simp add: Let_def chunk_key_def)
    have "chunk_ok api U ?row" using dec Cons.prems(3) by (simp add: chunk_ok_def)
    then have ok: "\<forall>r \<in> set (rows @ [?row]). chunk_ok api U r" using Cons.prems(2) by simp
    have ih: "(\<forall>r \<in> set rows'. chunk_ok api U r) \<and> (\<exists>ext. rows' = (rows @ [?row]) @ ext) \<and>
        m' = (m @ chunk_key api s) @ concat (map (chunk_key api) ss) \<and> chunk_key api ` set ss \<subseteq> ck_hash ` set rows'"
      by (rule Cons.IH [OF run ok]) (use Cons.prems(3) in simp)
    then obtain ext where ext: "rows' = (rows @ [?row]) @ ext" by (elim conjE exE)
    then have "?row \<in> set rows'" by simp
    then have "ck_hash ?row \<in> ck_hash ` set rows'" by (rule imageI)
    then have key: "chunk_key api s \<in> ck_hash ` set rows'" by simp
    have "rows' = rows @ (?row # ext)" using ext by simp
    then have "\<exists>ext. rows' = rows @ ext" by (rule exI)
    moreover note key conjunct1 [OF ih] conjunct1 [OF conjunct2 [OF conjunct2 [OF ih]]]
      conjunct2 [OF conjunct2 [OF conjunct2 [OF ih]]]
    ultimately show ?thesis by simp
  qed
qed

lemma read_stored_chunk:
  assumes "inj_on (sa_blake3 api) U" "\<forall>r \<in> set (db_chunks db). chunk_ok api U r"
    and "s \<in> U" "chunk_key api s \<in> ck_hash ` set (db_chunks db)"
  shows "read_chunk_row api db i (chunk_key api s) = Inr s"
    and "\<exists>r. find_chunk (db_chunks db) (chunk_key api s) = Some r \<and> from_sql_int (ck_size r) = len_u64 (length s)"
proof -
  obtain r where r: "find_chunk (db_chunks db) (chunk_key api s) = Some r"
    using assms(4) find_chunk_None [of "db_chunks db" "chunk_key api s"] by auto
  then have "chunk_ok api U r" "ck_hash r = chunk_key api s"
    using find_chunk_Some [OF r] assms(2) by auto
  then obtain b where b: "b \<in> U" "sa_zdec api (ck_zdata r) = Some b" "ck_size r = to_sql_int (len_u64 (length b))"
      "chunk_key api s = chunk_key api b"
    unfolding chunk_ok_def by auto
  then have "b = s" using assms(1,3) by (auto simp: chunk_key_def hash_bytes_inject dest: inj_onD)
  with r b show "read_chunk_row api db i (chunk_key api s) = Inr s"
    "\<exists>r. find_chunk (db_chunks db) (chunk_key api s) = Some r \<and> from_sql_int (ck_size r) = len_u64 (length s)"
    by (simp_all add: read_chunk_row_def decompress_and_verify_def chunk_key_def)
qed

section \<open>Well-formed databases\<close>

definition row_of_content :: "store_api \<Rightarrow> bytes set \<Rightarrow> chunk_row list \<Rightarrow> version_row \<Rightarrow> bytes \<Rightarrow> bool" where
  "row_of_content api U chunks v bs \<longleftrightarrow> content_ok api U bs \<and>
     vr_content_hash v = Some (hash_bytes (sa_blake3 api bs)) \<and>
     vr_manifest v = Some (concat (map (chunk_key api) (slices api bs))) \<and>
     vr_size v = Some (to_sql_int (len_u64 (length bs))) \<and>
     chunk_key api ` set (slices api bs) \<subseteq> ck_hash ` set chunks"

definition version_ok :: "store_api \<Rightarrow> bytes set \<Rightarrow> chunk_row list \<Rightarrow> version_row \<Rightarrow> bool" where
  "version_ok api U chunks v \<longleftrightarrow> vr_state v = 0 \<or> (vr_state v = 1 \<and> (\<exists>bs. row_of_content api U chunks v bs))"

definition db_wf :: "store_api \<Rightarrow> bytes set \<Rightarrow> database \<Rightarrow> bool" where
  "db_wf api U db \<longleftrightarrow>
     (\<forall>r \<in> set (db_chunks db). chunk_ok api U r) \<and>
     (\<forall>v \<in> set (db_versions db). version_ok api U (db_chunks db) v) \<and>
     sorted_wrt (<) (map vr_id (db_versions db)) \<and> (\<forall>v \<in> set (db_versions db). vr_id v \<le> db_version_seq db) \<and>
     pairwise (\<lambda>a b. \<not> same_identity a b) (set (db_versions db)) \<and>
     (\<forall>c \<in> set (db_conflicts db). {cf_winner c, cf_loser c} \<subseteq> vr_id ` set (db_versions db)) \<and>
     db_identity_index db"

definition db_new :: database where
  "db_new = \<lparr>db_chunks = [], db_versions = [], db_conflicts = [], db_version_seq = 0, db_conflict_seq = 0, db_identity_index = True\<rparr>"

lemma db_wf_new: "db_wf api U db_new"
  by (simp add: db_wf_def db_new_def pairwise_def)

lemma row_of_content_mono:
  assumes "row_of_content api U chunks v bs" "ck_hash ` set chunks \<subseteq> ck_hash ` set chunks'"
  shows "row_of_content api U chunks' v bs"
  using assms(1) order_trans [OF _ assms(2)] by (simp add: row_of_content_def)

lemma version_ok_mono:
  "version_ok api U chunks v \<Longrightarrow> ck_hash ` set chunks \<subseteq> ck_hash ` set chunks' \<Longrightarrow> version_ok api U chunks' v"
  unfolding version_ok_def by (meson row_of_content_mono)

lemma find_distinct_key:
  "distinct (map key xs) \<Longrightarrow> x \<in> set xs \<Longrightarrow> List.find (\<lambda>y. key y = key x) xs = Some x"
  by (induction xs) auto

lemma sorted_ids_distinct: "sorted_wrt (<) (xs :: int list) \<Longrightarrow> distinct xs"
  by (induction xs) auto

lemma find_version_row: "db_wf api U db \<Longrightarrow> v \<in> set (db_versions db) \<Longrightarrow> find_version db (vr_id v) = Some v"
  unfolding find_version_def db_wf_def by (blast intro: find_distinct_key sorted_ids_distinct)

lemma store_chunks_effect:
  assumes "api_ok api" "\<forall>r \<in> set (db_chunks db). chunk_ok api U r" "content_ok api U bs"
    and "store_chunks api db bs = Inr (db', st)"
  obtains "\<forall>r \<in> set (db_chunks db'). chunk_ok api U r" "db' = db\<lparr>db_chunks := db_chunks db'\<rparr>"
    "ck_hash ` set (db_chunks db) \<subseteq> ck_hash ` set (db_chunks db')"
    "chunk_key api ` set (slices api bs) \<subseteq> ck_hash ` set (db_chunks db')"
    "sc_hash st = sa_blake3 api bs" "sc_manifest st = concat (map (chunk_key api) (slices api bs))"
proof -
  obtain n where run: "store_slices api (db_chunks db) (slices api bs) [] 0 = Inr (db_chunks db', sc_manifest st, n)"
    and upd: "db' = db\<lparr>db_chunks := db_chunks db'\<rparr>" "sc_hash st = sa_blake3 api bs"
    using assms(4) by (auto simp: store_chunks_def slices_def split: sum.splits)
  have "set (slices api bs) \<subseteq> U" using assms(3) by (simp add: content_ok_def)
  note eff = store_slices_effect [OF assms(1) run assms(2) this]
  then obtain ext where "db_chunks db' = db_chunks db @ ext" by (elim conjE exE)
  then have "ck_hash ` set (db_chunks db) \<subseteq> ck_hash ` set (db_chunks db')" by (simp add: image_Un)
  with eff upd show ?thesis by (intro that) simp_all
qed

lemma store_slices_ok: "\<forall>b. sa_zenc api b \<noteq> None \<Longrightarrow> \<exists>x. store_slices api rows ss m n = Inr x"
  by (induction ss arbitrary: rows m n) (auto simp: Let_def split: option.splits)

lemma store_chunks_ok: "\<forall>b. sa_zenc api b \<noteq> None \<Longrightarrow> \<exists>db' st. store_chunks api db bs = Inr (db', st)"
  using store_slices_ok [of api "db_chunks db" "map (chunk_slice bs) (sa_cdc api bs)" "[]" 0]
  by (auto simp: store_chunks_def)

lemma get_content_row:
  assumes "api_ok api" "inj_on (sa_blake3 api) U" "db_wf api U db" "v \<in> set (db_versions db)"
    and "vr_state v = 1" "row_of_content api U (db_chunks db) v bs"
  shows "get_content api db (vr_id v) = Inr bs"
proof -
  let ?ks = "map (chunk_key api) (slices api bs)"
  have fv: "find_version db (vr_id v) = Some v" by (rule find_version_row [OF assms(3,4)])
  have rows: "\<forall>r \<in> set (db_chunks db). chunk_ok api U r" using assms(3) by (simp add: db_wf_def)
  have U: "set (slices api bs) \<subseteq> U" and keys: "chunk_key api ` set (slices api bs) \<subseteq> ck_hash ` set (db_chunks db)"
    and v: "vr_content_hash v = Some (hash_bytes (sa_blake3 api bs))" "vr_manifest v = Some (concat ?ks)"
    using assms(6) by (simp_all add: row_of_content_def content_ok_def)
  have "\<forall>s \<in> set (slices api bs). read_chunk_row api db (vr_id v) (chunk_key api s) = Inr s"
    using U keys by (intro ballI read_stored_chunk(1) [OF assms(2) rows]) auto
  then have "collect (read_chunk_row api db (vr_id v) \<circ> chunk_key api) (slices api bs) = Inr (slices api bs)"
    using collect_all [of "slices api bs" "read_chunk_row api db (vr_id v) \<circ> chunk_key api" id] by simp
  then have "collect (read_chunk_row api db (vr_id v)) ?ks = Inr (slices api bs)" by (simp add: collect_map)
  moreover have "chunks_exact (concat ?ks) = ?ks" "length (concat ?ks) = 32 * length ?ks"
    using chunks_exact_concat [of ?ks] length_concat_keys [of ?ks] by auto
  ultimately show ?thesis
    using fv v assms(5) concat_slices [OF assms(1), of bs] by (simp add: get_content_def Let_def)
qed

section \<open>Operations on the store\<close>

datatype store_op =
    OpStoreContent bytes
  | OpRecordVersion version_record
  | OpRecordVersions "version_record list"
  | OpRecordConflict relpath int int u64
  | OpMarkResolved int
  | OpMarkUnresolved int
  | OpOpenStore

text \<open>An operation that returns an error rolls its transaction back.\<close>

definition committed :: "database \<Rightarrow> history_error + database \<Rightarrow> database" where
  "committed db r = (case r of Inl _ \<Rightarrow> db | Inr db' \<Rightarrow> db')"

lemma committed_fst [simp]: "committed db (map_sum id fst r) = (case r of Inl _ \<Rightarrow> db | Inr (db', _) \<Rightarrow> db')"
  by (simp add: committed_def split: sum.splits prod.splits)

fun store_step :: "store_api \<Rightarrow> database \<Rightarrow> store_op \<Rightarrow> database" where
  "store_step api db (OpStoreContent bs) = committed db (map_sum id fst (store_content api db bs))"
| "store_step api db (OpRecordVersion r) = committed db (map_sum id fst (record_version api db r))"
| "store_step api db (OpRecordVersions rs) = committed db (map_sum id fst (record_versions api db rs))"
| "store_step api db (OpRecordConflict p w l t) = committed db (map_sum id fst (record_conflict api db p w l t))"
| "store_step api db (OpMarkResolved i) = fst (mark_conflict_resolved db i)"
| "store_step api db (OpMarkUnresolved i) = fst (mark_conflict_unresolved db i)"
| "store_step api db OpOpenStore = committed db (migrate_identity db)"

definition store_run :: "store_api \<Rightarrow> database \<Rightarrow> store_op list \<Rightarrow> database" where
  "store_run api db ops = foldl (store_step api) db ops"

definition record_ok :: "store_api \<Rightarrow> bytes set \<Rightarrow> version_record \<Rightarrow> bool" where
  "record_ok api U r \<longleftrightarrow> pred_option (content_ok api U) (ve_bytes r)"

definition op_ok :: "store_api \<Rightarrow> bytes set \<Rightarrow> store_op \<Rightarrow> bool" where
  "op_ok api U x = (case x of
      OpStoreContent bs \<Rightarrow> content_ok api U bs
    | OpRecordVersion r \<Rightarrow> record_ok api U r
    | OpRecordVersions rs \<Rightarrow> list_all (record_ok api U) rs
    | _ \<Rightarrow> True)"

text \<open>Rows are only ever added.\<close>

definition grows :: "database \<Rightarrow> database \<Rightarrow> bool" where
  "grows db db' \<longleftrightarrow> set (db_versions db) \<subseteq> set (db_versions db') \<and>
     ck_hash ` set (db_chunks db) \<subseteq> ck_hash ` set (db_chunks db')"

lemma grows_refl [simp]: "grows db db"
  by (simp add: grows_def)

lemma grows_trans: "grows a b \<Longrightarrow> grows b c \<Longrightarrow> grows a c"
  unfolding grows_def by (elim conjE) (intro conjI; erule (1) order_trans)

lemma store_chunks_wf:
  assumes "api_ok api" "db_wf api U db" "content_ok api U bs" "store_chunks api db bs = Inr (db', st)"
  shows "db_wf api U db'" "grows db db'" "db_versions db' = db_versions db" "db_version_seq db' = db_version_seq db"
proof -
  have rows: "\<forall>r \<in> set (db_chunks db). chunk_ok api U r" using assms(2) by (simp add: db_wf_def)
  from store_chunks_effect [OF assms(1) rows assms(3,4)]
  have eff: "\<forall>r \<in> set (db_chunks db'). chunk_ok api U r" "db' = db\<lparr>db_chunks := db_chunks db'\<rparr>"
    and sub: "ck_hash ` set (db_chunks db) \<subseteq> ck_hash ` set (db_chunks db')" by metis+
  from eff(2) show vs: "db_versions db' = db_versions db" and "db_version_seq db' = db_version_seq db"
    by (metis database.ext_inject database.surjective database.update_convs(1))+
  have "\<forall>v \<in> set (db_versions db). version_ok api U (db_chunks db') v"
    using assms(2) version_ok_mono [OF _ sub] by (auto simp: db_wf_def)
  then show "db_wf api U db'" using assms(2) eff(1) by (subst eff(2)) (simp add: db_wf_def)
  show "grows db db'" using sub vs by (simp add: grows_def)
qed

lemma insert_row_wf:
  assumes "db_wf api U db" "version_ok api U (db_chunks db) row" "db_version_seq db < vr_id row"
  shows "db_wf api U (fst (insert_row db row))" "grows db (fst (insert_row db row))"
proof -
  have idx: "db_identity_index db" using assms(1) by (simp add: db_wf_def)
  show "grows db (fst (insert_row db row))" by (auto simp: insert_row_def grows_def split: option.splits)
  show "db_wf api U (fst (insert_row db row))"
  proof (cases "List.find (same_identity row) (db_versions db)")
    case None
    then have "\<forall>v \<in> set (db_versions db). \<not> same_identity row v" by (simp add: find_None_iff)
    then have "\<forall>v \<in> set (db_versions db). \<not> same_identity row v \<and> \<not> same_identity v row"
      by (auto simp: same_identity_def)
    moreover have "\<forall>v \<in> set (db_versions db). vr_id v < vr_id row" using assms(1,3) by (force simp: db_wf_def)
    ultimately show ?thesis using assms(1,2) idx None
      by (fastforce simp: db_wf_def insert_row_def sorted_wrt_append pairwise_insert)
  qed (use assms(1) idx in \<open>simp add: insert_row_def\<close>)
qed

definition accepted :: "store_api \<Rightarrow> version_record \<Rightarrow> bool" where
  "accepted api r = (case ve_state r of
      Tombstone \<Rightarrow> True
    | Present sig \<Rightarrow> (case ve_bytes r of
          None \<Rightarrow> False
        | Some bs \<Rightarrow> sa_blake3 api bs = sig_hash sig \<and> len_u64 (length bs) = sig_size sig))"

lemma insert_version_accepted:
  assumes "\<forall>b. sa_zenc api b \<noteq> None"
  shows "(\<exists>x. insert_version api db r = Inr x) \<longleftrightarrow> accepted api r"
proof (cases "ve_state r")
  case (Present sig)
  show ?thesis
  proof (cases "ve_bytes r")
    case (Some bs)
    obtain db' st where st: "store_chunks api db bs = Inr (db', st)" using store_chunks_ok [OF assms] by blast
    then have "sc_hash st = sa_blake3 api bs" by (auto simp: store_chunks_def split: sum.splits)
    with st Present Some show ?thesis
      by (simp add: insert_version_def prepare_version_def verify_sig_def accepted_def)
  qed (simp add: Present insert_version_def prepare_version_def accepted_def)
qed (simp add: insert_version_def prepare_version_def accepted_def)

text \<open>What a successful insertion did: stored the chunks, then inserted one row that is a
  faithful record of the content.\<close>

lemma insert_version_effect:
  assumes "api_ok api" "db_wf api U db" "record_ok api U r" "insert_version api db r = Inr (db', i)"
  obtains db1 row where "db_wf api U db1" "grows db db1" "db_versions db1 = db_versions db"
    "version_ok api U (db_chunks db1) row" "db_version_seq db1 < vr_id row" "insert_row db1 row = (db', i)"
    "vr_path row = as_str (ve_path r)" "vr_clock row = sa_clock_enc api (ve_clock r)"
    "vr_state row = (case ve_state r of Tombstone \<Rightarrow> 0 | Present _ \<Rightarrow> 1)"
    "\<forall>sig bs. ve_state r = Present sig \<longrightarrow> ve_bytes r = Some bs \<longrightarrow> row_of_content api U (db_chunks db1) row bs"
proof (cases "ve_state r")
  case Tombstone
  have fresh: "i < sa_rowid api i" for i using assms(1) by (simp add: api_ok_def)
  let ?pv = "\<lparr>pv_state = 0, pv_content_hash = None, pv_size = None, pv_manifest = None, pv_exec = False\<rparr>"
  let ?row = "make_row api r ?pv (sa_rowid api (db_version_seq db))"
  show ?thesis
    by (rule that [of db ?row])
      (use Tombstone fresh assms(2,4) in \<open>simp_all add: insert_version_def prepare_version_def make_row_def version_ok_def\<close>)
next
  case (Present sig)
  have fresh: "i < sa_rowid api i" for i using assms(1) by (simp add: api_ok_def)
  obtain bs where bs: "ve_bytes r = Some bs" using assms(4) Present
    by (auto simp: insert_version_def prepare_version_def split: option.splits)
  obtain db1 st where st: "store_chunks api db bs = Inr (db1, st)" using assms(4) Present bs
    by (auto simp: insert_version_def prepare_version_def split: sum.splits)
  have ver: "verify_sig (ve_path r) sig (sc_hash st) (len_u64 (length bs)) = None" using assms(4) Present bs st
    by (auto simp: insert_version_def prepare_version_def split: option.splits)
  have ok: "content_ok api U bs" using assms(3) bs by (simp add: record_ok_def)
  have rows: "\<forall>r \<in> set (db_chunks db). chunk_ok api U r" using assms(2) by (simp add: db_wf_def)
  let ?pv = "\<lparr>pv_state = 1, pv_content_hash = Some (sc_hash st), pv_size = Some (sig_size sig),
      pv_manifest = Some (sc_manifest st), pv_exec = sig_exec sig\<rparr>"
  let ?row = "make_row api r ?pv (sa_rowid api (db_version_seq db1))"
  have ins: "insert_row db1 ?row = (db', i)" using assms(4) Present bs st ver
    by (simp add: insert_version_def prepare_version_def)
  have row: "row_of_content api U (db_chunks db1) ?row bs"
    by (rule store_chunks_effect [OF assms(1) rows ok st])
      (use ok ver in \<open>simp add: row_of_content_def make_row_def verify_sig_def split: if_splits\<close>)
  note wf = store_chunks_wf [OF assms(1,2) ok st]
  show ?thesis
    by (rule that [of db1 ?row]) (use Present bs row wf fresh ins in \<open>auto simp: make_row_def version_ok_def\<close>)
qed

lemma insert_version_wf:
  assumes "api_ok api" "db_wf api U db" "record_ok api U r" "insert_version api db r = Inr (db', i)"
  shows "db_wf api U db'" "grows db db'"
proof -
  obtain db1 row where 1: "db_wf api U db1" "grows db db1" "version_ok api U (db_chunks db1) row"
      "db_version_seq db1 < vr_id row" and ins: "insert_row db1 row = (db', i)"
    by (rule insert_version_effect [OF assms])
  from insert_row_wf [OF 1(1,3,4)] ins 1(2) show "db_wf api U db'" "grows db db'"
    by (auto intro: grows_trans)
qed

lemma record_versions_wf:
  assumes "api_ok api"
  shows "db_wf api U db \<Longrightarrow> list_all (record_ok api U) rs \<Longrightarrow> record_versions api db rs = Inr (db', ids) \<Longrightarrow>
    db_wf api U db' \<and> grows db db'"
proof (induction rs arbitrary: db ids)
  case (Cons r rs)
  obtain db1 i ids' where 1: "insert_version api db r = Inr (db1, i)" and 2: "record_versions api db1 rs = Inr (db', ids')"
    using Cons.prems(3) by (auto split: sum.splits)
  have r: "record_ok api U r" using Cons.prems(2) by simp
  note wf = insert_version_wf [OF assms Cons.prems(1) r 1]
  have "db_wf api U db' \<and> grows db1 db'" using Cons.IH [OF wf(1) _ 2] Cons.prems(2) by simp
  then show ?case using wf(2) grows_trans by blast
qed simp

lemma set_resolved_wf: "db_wf api U db \<Longrightarrow> db_wf api U (fst (set_resolved db i a b)) \<and> grows db (fst (set_resolved db i a b))"
  by (auto simp: db_wf_def set_resolved_def grows_def)

lemma record_conflict_wf:
  assumes "db_wf api U db" "record_conflict api db p w l t = Inr (db', i)"
  shows "db_wf api U db' \<and> grows db db'"
proof -
  have "find_version db x = Some v \<Longrightarrow> x \<in> vr_id ` set (db_versions db)" for x v
    by (auto simp: find_version_def find_Some_iff)
  then have "{w, l} \<subseteq> vr_id ` set (db_versions db)" using assms(2)
    by (auto simp: record_conflict_def Let_def split: if_splits)
  then show ?thesis using assms
    by (auto simp: record_conflict_def Let_def db_wf_def grows_def split: if_splits)
qed

lemma store_step_wf:
  assumes "api_ok api" "db_wf api U db" "op_ok api U x"
  shows "db_wf api U (store_step api db x) \<and> grows db (store_step api db x)"
proof (cases x)
  case (OpStoreContent bs)
  then show ?thesis using store_chunks_wf [OF assms(1,2), of bs] assms(2,3)
    by (auto simp: store_content_def op_ok_def split: sum.splits)
next
  case (OpRecordVersion r)
  then show ?thesis using insert_version_wf [OF assms(1,2), of r] assms(2,3)
    by (auto simp: record_version_def op_ok_def split: sum.splits)
next
  case (OpRecordVersions rs)
  then show ?thesis using record_versions_wf [OF assms(1,2), of rs] assms(2,3)
    by (auto simp: op_ok_def split: sum.splits)
next
  case (OpRecordConflict p w l t)
  then show ?thesis using record_conflict_wf [OF assms(2), of p w l t] assms(2)
    by (auto split: sum.splits)
next
  case (OpMarkResolved i)
  then show ?thesis using set_resolved_wf [OF assms(2)] by (simp add: mark_conflict_resolved_def)
next
  case (OpMarkUnresolved i)
  then show ?thesis using set_resolved_wf [OF assms(2)] by (simp add: mark_conflict_unresolved_def)
next
  case OpOpenStore
  then show ?thesis using assms(2) by (simp add: migrate_identity_def committed_def db_wf_def)
qed

interpretation store: state_machine "store_step api" "\<lambda>db. api_ok api \<and> db_wf api U db" "op_ok api U" for api U
  by unfold_locales (simp add: store_step_wf)

lemma store_run_wf: "api_ok api \<Longrightarrow> db_wf api U db \<Longrightarrow> list_all (op_ok api U) ops \<Longrightarrow> db_wf api U (store_run api db ops)"
  using store.run_inv [of api U db ops] by (simp add: store_run_def list_all_iff)

section \<open>The store as a journal\<close>

text \<open>The abstract specification: a list of entries, each a path, a state tag, an encoded clock
  and the content, in the order they were recorded.\<close>

type_synonym journal_entry = "string \<times> int \<times> bytes \<times> bytes option"

definition entry_key :: "journal_entry \<Rightarrow> string \<times> int \<times> bytes" where
  "entry_key e = (case e of (p, s, c, _) \<Rightarrow> (p, s, c))"

definition journal_add :: "journal_entry list \<Rightarrow> journal_entry \<Rightarrow> journal_entry list" where
  "journal_add j e = (if entry_key e \<in> entry_key ` set j then j else j @ [e])"

definition entry_of :: "store_api \<Rightarrow> version_record \<Rightarrow> journal_entry" where
  "entry_of api r = (as_str (ve_path r), (case ve_state r of Tombstone \<Rightarrow> 0 | Present _ \<Rightarrow> 1), sa_clock_enc api (ve_clock r),
     (case ve_state r of Tombstone \<Rightarrow> None | Present _ \<Rightarrow> ve_bytes r))"

fun journal_step :: "store_api \<Rightarrow> journal_entry list \<Rightarrow> store_op \<Rightarrow> journal_entry list" where
  "journal_step api j (OpRecordVersion r) = (if accepted api r then journal_add j (entry_of api r) else j)"
| "journal_step api j (OpRecordVersions rs) =
     (if list_all (accepted api) rs then foldl journal_add j (map (entry_of api) rs) else j)"
| "journal_step api j _ = j"

definition row_entry :: "store_api \<Rightarrow> database \<Rightarrow> version_row \<Rightarrow> journal_entry" where
  "row_entry api db v = (vr_path v, vr_state v, vr_clock v, (case get_content api db (vr_id v) of Inl _ \<Rightarrow> None | Inr bs \<Rightarrow> Some bs))"

definition journal_of :: "store_api \<Rightarrow> database \<Rightarrow> journal_entry list" where
  "journal_of api db = map (row_entry api db) (db_versions db)"

lemma row_entry_content:
  assumes "api_ok api" "inj_on (sa_blake3 api) U" "db_wf api U db" "v \<in> set (db_versions db)"
  shows "vr_state v = 0 \<Longrightarrow> row_entry api db v = (vr_path v, 0, vr_clock v, None)"
    and "vr_state v = 1 \<Longrightarrow> row_of_content api U (db_chunks db) v bs \<Longrightarrow> row_entry api db v = (vr_path v, 1, vr_clock v, Some bs)"
  using find_version_row [OF assms(3,4)] get_content_row [OF assms, of bs]
  by (simp_all add: row_entry_def get_content_def)

lemma row_entry_stable:
  assumes "api_ok api" "inj_on (sa_blake3 api) U" "db_wf api U db" "db_wf api U db'" "grows db db'" "v \<in> set (db_versions db)"
  shows "row_entry api db' v = row_entry api db v"
proof -
  have sub: "ck_hash ` set (db_chunks db) \<subseteq> ck_hash ` set (db_chunks db')" and v': "v \<in> set (db_versions db')"
    using assms(5,6) by (auto simp: grows_def)
  have "version_ok api U (db_chunks db) v" using assms(3,6) by (simp add: db_wf_def)
  then consider "vr_state v = 0" | bs where "vr_state v = 1" "row_of_content api U (db_chunks db) v bs"
    by (auto simp: version_ok_def)
  then show ?thesis
  proof cases
    case 1
    then show ?thesis using row_entry_content(1) [OF assms(1,2,3,6)] row_entry_content(1) [OF assms(1,2,4) v'] by simp
  next
    case 2
    then show ?thesis using row_entry_content(2) [OF assms(1,2,3,6) 2]
        row_entry_content(2) [OF assms(1,2,4) v' 2(1) row_of_content_mono [OF 2(2) sub]] by simp
  qed
qed

lemma journal_of_same_rows:
  assumes "api_ok api" "inj_on (sa_blake3 api) U" "db_wf api U db" "db_wf api U db'" "grows db db'"
    and "db_versions db' = db_versions db"
  shows "journal_of api db' = journal_of api db"
  using row_entry_stable [OF assms(1-5)] assms(6) by (simp add: journal_of_def)

lemma journal_keys: "entry_key ` set (journal_of api db) = (\<lambda>v. (vr_path v, vr_state v, vr_clock v)) ` set (db_versions db)"
  by (auto simp: journal_of_def row_entry_def entry_key_def image_image)

lemma insert_row_journal:
  assumes api: "api_ok api" "inj_on (sa_blake3 api) U"
    and wf: "db_wf api U db" "version_ok api U (db_chunks db) row" "db_version_seq db < vr_id row"
    and e: "vr_state row = 0 \<and> e = (vr_path row, 0, vr_clock row, None) \<or>
      vr_state row = 1 \<and> row_of_content api U (db_chunks db) row bs \<and> e = (vr_path row, 1, vr_clock row, Some bs)"
  shows "journal_of api (fst (insert_row db row)) = journal_add (journal_of api db) e"
proof -
  have idx: "db_identity_index db" using wf(1) by (simp add: db_wf_def)
  have key: "entry_key e = (vr_path row, vr_state row, vr_clock row)" using e by (auto simp: entry_key_def)
  let ?db = "fst (insert_row db row)"
  note wf' = insert_row_wf [OF wf]
  have seen: "entry_key e \<in> entry_key ` set (journal_of api db) \<longleftrightarrow> List.find (same_identity row) (db_versions db) \<noteq> None"
    unfolding key journal_keys by (auto simp: find_None_iff same_identity_def)
  show ?thesis
  proof (cases "List.find (same_identity row) (db_versions db)")
    case None
    then have ins: "db_versions ?db = db_versions db @ [row]" "db_chunks ?db = db_chunks db"
      using idx by (simp_all add: insert_row_def)
    have "row_entry api ?db row = e"
      using e row_entry_content(1) [OF api wf'(1), of row] row_entry_content(2) [OF api wf'(1), of row bs] ins by auto
    then show ?thesis using ins None seen row_entry_stable [OF api wf(1) wf']
      by (simp add: journal_of_def journal_add_def)
  next
    case (Some v)
    then show ?thesis using seen idx by (simp add: insert_row_def journal_add_def)
  qed
qed

lemma insert_version_journal:
  assumes "api_ok api" "inj_on (sa_blake3 api) U" "db_wf api U db" "record_ok api U r" "insert_version api db r = Inr (db', i)"
  shows "journal_of api db' = journal_add (journal_of api db) (entry_of api r)"
proof -
  obtain db1 row where 1: "db_wf api U db1" "grows db db1" "db_versions db1 = db_versions db"
    "version_ok api U (db_chunks db1) row" "db_version_seq db1 < vr_id row" "insert_row db1 row = (db', i)"
    "vr_path row = as_str (ve_path r)" "vr_clock row = sa_clock_enc api (ve_clock r)"
    "vr_state row = (case ve_state r of Tombstone \<Rightarrow> 0 | Present _ \<Rightarrow> 1)"
    "\<forall>sig bs. ve_state r = Present sig \<longrightarrow> ve_bytes r = Some bs \<longrightarrow> row_of_content api U (db_chunks db1) row bs"
    by (rule insert_version_effect [OF assms(1,3,4,5)])
  have "ve_state r = Present sig \<Longrightarrow> \<exists>bs. ve_bytes r = Some bs" for sig
    using assms(5) by (auto simp: insert_version_def prepare_version_def split: option.splits)
  then have "vr_state row = 0 \<and> entry_of api r = (vr_path row, 0, vr_clock row, None) \<or>
      vr_state row = 1 \<and> row_of_content api U (db_chunks db1) row (the (ve_bytes r)) \<and>
      entry_of api r = (vr_path row, 1, vr_clock row, Some (the (ve_bytes r)))"
    using 1(7-10) by (cases "ve_state r") (auto simp: entry_of_def)
  from insert_row_journal [OF assms(1,2) 1(1,4,5) this] 1(6) journal_of_same_rows [OF assms(1,2,3) 1(1,2,3)]
  show ?thesis by simp
qed

lemma record_versions_journal:
  assumes api: "api_ok api" "inj_on (sa_blake3 api) U" and z: "\<forall>b. sa_zenc api b \<noteq> None"
  shows "db_wf api U db \<Longrightarrow> list_all (record_ok api U) rs \<Longrightarrow>
    (case record_versions api db rs of
       Inl _ \<Rightarrow> \<not> list_all (accepted api) rs
     | Inr (db', _) \<Rightarrow> list_all (accepted api) rs \<and> journal_of api db' = foldl journal_add (journal_of api db) (map (entry_of api) rs))"
proof (induction rs arbitrary: db)
  case (Cons r rs)
  have r: "record_ok api U r" using Cons.prems(2) by simp
  show ?case
  proof (cases "insert_version api db r")
    case (Inl e)
    then have "\<not> accepted api r" using insert_version_accepted [OF z, of db r] by simp
    with Inl show ?thesis by simp
  next
    case (Inr x)
    obtain db1 i where x: "x = (db1, i)" by (cases x)
    note ins = Inr [unfolded x]
    have acc: "accepted api r" using insert_version_accepted [OF z, of db r] ins by auto
    have "db_wf api U db1" by (rule insert_version_wf(1) [OF api(1) Cons.prems(1) r ins])
    note Cons.IH [OF this]
    with Cons.prems(2) insert_version_journal [OF api Cons.prems(1) r ins] acc ins show ?thesis
      by (auto split: sum.splits)
  qed
qed simp

lemma store_step_journal:
  assumes "api_ok api" "inj_on (sa_blake3 api) U" and z: "\<forall>b. sa_zenc api b \<noteq> None"
    and "db_wf api U db" "op_ok api U x"
  shows "journal_of api (store_step api db x) = journal_step api (journal_of api db) x"
proof -
  note wf = store_step_wf [OF assms(1,4,5)]
  note same = journal_of_same_rows [OF assms(1,2,4) conjunct1 [OF wf] conjunct2 [OF wf]]
  show ?thesis
  proof (cases x)
    case (OpRecordVersion r)
    have r: "record_ok api U r" using assms(5) OpRecordVersion by (simp add: op_ok_def)
    show ?thesis
      using OpRecordVersion insert_version_accepted [OF z, of db r] insert_version_journal [OF assms(1,2,4) r]
      by (auto simp: record_version_def split: sum.splits)
  next
    case (OpRecordVersions rs)
    then show ?thesis using record_versions_journal [OF assms(1,2) z assms(4), of rs] assms(5)
      by (auto simp: op_ok_def split: sum.splits)
  next
    case (OpStoreContent bs)
    then have "db_versions (store_step api db x) = db_versions db" 
      by (simp add: store_content_def store_chunks_def split: sum.splits prod.splits)
    from same [OF this] OpStoreContent show ?thesis by simp
  next
    case (OpRecordConflict p w l t)
    then have "db_versions (store_step api db x) = db_versions db" by (simp add: record_conflict_def Let_def)
    from same [OF this] OpRecordConflict show ?thesis by simp
  next
    case (OpMarkResolved i)
    then have "db_versions (store_step api db x) = db_versions db" by (simp add: mark_conflict_resolved_def set_resolved_def)
    from same [OF this] OpMarkResolved show ?thesis by simp
  next
    case (OpMarkUnresolved i)
    then have "db_versions (store_step api db x) = db_versions db" by (simp add: mark_conflict_unresolved_def set_resolved_def)
    from same [OF this] OpMarkUnresolved show ?thesis by simp
  next
    case OpOpenStore
    then show ?thesis using assms(4) by (simp add: migrate_identity_def committed_def db_wf_def)
  qed
qed

section \<open>Properties\<close>

interpretation journal: simulation "store_step api"
    "\<lambda>db. api_ok api \<and> inj_on (sa_blake3 api) U \<and> (\<forall>b. sa_zenc api b \<noteq> None) \<and> db_wf api U db" "op_ok api U"
    "journal_of api" "journal_step api" for api U
  by unfold_locales (blast intro: store_step_wf [THEN conjunct1] store_step_journal)+

lemma store_run_journal:
  assumes "api_ok api" "inj_on (sa_blake3 api) U" "\<forall>b. sa_zenc api b \<noteq> None" "db_wf api U db" "list_all (op_ok api U) ops"
  shows "journal_of api (store_run api db ops) = foldl (journal_step api) (journal_of api db) ops"
  using journal.run_sim [of api U db ops] assms by (simp add: store_run_def list_all_iff)

text \<open>C15: The history store implements a journal. Whatever sequence of operations runs on a fresh
  database (contents stored, versions recorded one by one or in batches, conflicts recorded,
  resolved and reopened, the store reopened), the rows of the versions table with the contents
  \<open>get_content\<close> reads back for them are the entries an abstract journal holds after the same
  sequence: a record is appended once per (path, state, clock), in order, with exactly its bytes;
  a record whose bytes do not match its signature leaves no trace, and a batch is all or nothing.
  Relied on: FastCDC cuts the content into consecutive pieces, zstd succeeds and round trips,
  AUTOINCREMENT grows, BLAKE3 has no collision on the chunks met.\<close>

theorem history_refines_journal:
  assumes "api_ok api" "\<forall>b. sa_zenc api b \<noteq> None" "inj_on (sa_blake3 api) U" "list_all (op_ok api U) ops"
  shows "journal_of api (store_run api db_new ops) = foldl (journal_step api) [] ops"
  using store_run_journal [OF assms(1,3,2) db_wf_new assms(4)] by (simp add: journal_of_def db_new_def)

lemma check_chunk_ok: "chunk_ok api U r \<Longrightarrow> check_chunk api r = []"
  by (auto simp: chunk_ok_def check_chunk_def decompress_and_verify_def chunk_key_def)

lemma sum_chunks_stored:
  assumes "inj_on (sa_blake3 api) U" "\<forall>r \<in> set (db_chunks db). chunk_ok api U r"
  shows "set ss \<subseteq> U \<Longrightarrow> chunk_key api ` set ss \<subseteq> ck_hash ` set (db_chunks db) \<Longrightarrow>
    unat acc + length (concat ss) < 2 ^ 64 \<Longrightarrow>
    sum_chunks db i (map (chunk_key api) ss) acc [] = (acc + of_nat (length (concat ss)), [])"
proof (induction ss arbitrary: acc)
  case (Cons s ss)
  obtain r where r: "find_chunk (db_chunks db) (chunk_key api s) = Some r" "from_sql_int (ck_size r) = len_u64 (length s)"
    using read_stored_chunk(2) [OF assms, of s] Cons.prems(1,2) by auto
  have len: "len_u64 (length s) = of_nat (length s)" using Cons.prems(3) by (simp add: len_u64_def)
  have add: "sat_add acc (of_nat (length s)) = acc + of_nat (length s)" "unat (acc + of_nat (length s)) = unat acc + length s"
    using Cons.prems(3) by (simp_all add: sat_add_def unat_word_ariths unat_of_nat)
  show ?case using Cons.IH [of "acc + of_nat (length s)"] Cons.prems r len add by simp
qed simp

lemma check_version_ok:
  assumes "api_ok api" "inj_on (sa_blake3 api) U" "db_wf api U db" "row_of_content api U (db_chunks db) v bs"
  shows "check_version db v = []"
proof -
  let ?ks = "map (chunk_key api) (slices api bs)"
  have rows: "\<forall>r \<in> set (db_chunks db). chunk_ok api U r" using assms(3) by (simp add: db_wf_def)
  have bs: "concat (slices api bs) = bs" by (rule concat_slices [OF assms(1)])
  have "length bs < 2 ^ 64" using assms(4) by (simp add: row_of_content_def content_ok_def)
  then have "sum_chunks db (vr_id v) ?ks 0 [] = (of_nat (length bs), [])" and "len_u64 (length bs) = of_nat (length bs)"
    using sum_chunks_stored [OF assms(2) rows, of "slices api bs" 0 "vr_id v"] assms(4) bs
    by (simp_all add: row_of_content_def content_ok_def len_u64_def)
  moreover have "chunks_exact (concat ?ks) = ?ks" "length (concat ?ks) mod 32 = 0"
    using chunks_exact_concat [of ?ks] length_concat_keys [of ?ks] by auto
  ultimately show ?thesis using assms(4) by (simp add: check_version_def row_of_content_def)
qed

text \<open>C16: The integrity check passes on every database the store's own operations can produce: each
  present version has a manifest of whole hashes, every chunk of it is in the chunks table, the
  sizes add up to the version's size and every stored chunk decompresses to bytes with its hash
  and size. So an issue it reports means damage from outside (or SQLite's own check).\<close>

theorem history_check_clean:
  assumes "api_ok api" "inj_on (sa_blake3 api) U" "list_all (op_ok api U) ops"
  shows "cp_ok (store_check api (store_run api db_new ops) ''ok'')"
proof -
  let ?db = "store_run api db_new ops"
  have wf: "db_wf api U ?db" using store_run_wf [OF assms(1) db_wf_new assms(3)] by simp
  have "check_version ?db v = []" if "v \<in> set (db_versions ?db)" "vr_state v = 1" for v
  proof -
    from wf that obtain bs where "row_of_content api U (db_chunks ?db) v bs" by (auto simp: db_wf_def version_ok_def)
    then show ?thesis by (rule check_version_ok [OF assms(1,2) wf])
  qed
  moreover have "check_chunk api r = []" if "r \<in> set (db_chunks ?db)" for r
    using wf that by (intro check_chunk_ok [of _ U]) (simp add: db_wf_def)
  ultimately show ?thesis by (simp add: store_check_def Let_def)
qed

section \<open>Demonstration\<close>

definition demo_api :: store_api where
  "demo_api = \<lparr>sa_blake3 = (\<lambda>bs. ContentHash (replicate 32 (case bs of [] \<Rightarrow> 0 | b # _ \<Rightarrow> b))),
     sa_cdc = (\<lambda>bs. if bs = [] then [] else [(0, length bs)]), sa_zenc = Some, sa_zdec = Some,
     sa_clock_enc = (\<lambda>v. concat (map (\<lambda>(r, n). u64_le (replica_raw r) @ u64_le n) (vc_iter v))), sa_clock_dec = (\<lambda>_. None),
     sa_rowid = (\<lambda>i. i + 1)\<rparr>"

definition demo_record :: "string \<Rightarrow> u8 \<Rightarrow> version_record" where
  "demo_record name b = \<lparr>ve_path = RelPath name, ve_state = Present (demo_sig b 0), ve_clock = demo_clock 1, ve_replica = ReplicaId 1,
     ve_origin = OriginLocal, ve_wall_ms = 0, ve_bytes = Some [b, b, b]\<rparr>"

definition demo_universe :: "bytes set" where
  "demo_universe = {[1, 1, 1], [2, 2, 2]}"

definition demo_ops :: "store_op list" where
  "demo_ops = [OpRecordVersions [demo_record ''a'' 1, demo_record ''b'' 2], OpRecordVersion (demo_record ''a'' 2),
     OpRecordConflict (RelPath ''a'') 2 1 0, OpMarkResolved 1, OpOpenStore]"

lemma demo_api_ok: "api_ok demo_api"
  by (simp add: api_ok_def demo_api_def chunk_slice_def)

lemma demo_zenc: "\<forall>b. sa_zenc demo_api b \<noteq> None"
  by (simp add: demo_api_def)

lemma demo_inj: "inj_on (sa_blake3 demo_api) demo_universe"
  by (simp add: inj_on_def demo_universe_def demo_api_def content_hash_eq_iff)

lemma demo_ops_ok: "list_all (op_ok demo_api demo_universe) demo_ops"
  by (simp add: demo_ops_def op_ok_def record_ok_def demo_record_def content_ok_def slices_def demo_api_def chunk_slice_def demo_universe_def)

lemma demo_accepted: "accepted demo_api (demo_record name b)"
  by (simp add: accepted_def demo_record_def demo_sig_def demo_api_def len_u64_def)

lemma demo_journal: "foldl (journal_step demo_api) [] demo_ops =
    [(''a'', 1, sa_clock_enc demo_api (demo_clock 1), Some [1, 1, 1]),
     (''b'', 1, sa_clock_enc demo_api (demo_clock 1), Some [2, 2, 2])]"
  by (simp add: demo_ops_def demo_accepted journal_add_def entry_key_def entry_of_def) (simp add: demo_record_def)

theorem history_refines_journal_witness:
  "journal_of demo_api (store_run demo_api db_new demo_ops) =
     [(''a'', 1, sa_clock_enc demo_api (demo_clock 1), Some [1, 1, 1]),
      (''b'', 1, sa_clock_enc demo_api (demo_clock 1), Some [2, 2, 2])]"
  using history_refines_journal [OF demo_api_ok demo_zenc demo_inj demo_ops_ok] unfolding demo_journal .

theorem history_check_clean_witness:
  "cp_ok (store_check demo_api (store_run demo_api db_new demo_ops) ''ok'')"
  by (rule history_check_clean [OF demo_api_ok demo_inj demo_ops_ok])

section \<open>Identities\<close>

text \<open>The identity of a version is its path, state and clock; the content is not part of it. A
  present record whose identity the store already holds is answered with success and the old
  row's id, and the journal is unchanged: the new bytes belong to no version. Clocks are reused
  when the index is lost (\<open>load_index\<close> of \<^verbatim>\<open>persist.rs\<close> starts an unreadable index empty and the
  scan gives every file the clock of a first tick), so the re-index can lose versions.\<close>

theorem reused_identity_keeps_old_content:
  assumes "api_ok api" "\<forall>b. sa_zenc api b \<noteq> None" "inj_on (sa_blake3 api) U" "list_all (op_ok api U) ops"
    and "record_ok api U r" "accepted api r"
    and "entry_key (entry_of api r) \<in> entry_key ` set (journal_of api (store_run api db_new ops))"
  shows "\<exists>db' i. record_version api (store_run api db_new ops) r = Inr (db', i) \<and>
    journal_of api db' = journal_of api (store_run api db_new ops)"
proof -
  let ?db = "store_run api db_new ops"
  have wf: "db_wf api U ?db" using store_run_wf [OF assms(1) db_wf_new assms(4)] by simp
  obtain db' i where ins: "insert_version api ?db r = Inr (db', i)"
    using insert_version_accepted [OF assms(2), of ?db r] assms(6) by auto
  from insert_version_journal [OF assms(1,3) wf assms(5) ins] assms(7)
  have "journal_of api db' = journal_of api ?db" by (simp add: journal_add_def)
  with ins show ?thesis by (simp add: record_version_def)
qed

theorem reused_identity_keeps_old_content_witness:
  "\<exists>db' i. record_version demo_api (store_run demo_api db_new demo_ops) (demo_record ''a'' 2) = Inr (db', i) \<and>
    journal_of demo_api db' = journal_of demo_api (store_run demo_api db_new demo_ops)"
proof -
  have j: "journal_of demo_api (store_run demo_api db_new demo_ops) = foldl (journal_step demo_api) [] demo_ops"
    using store_run_journal [OF demo_api_ok demo_inj demo_zenc db_wf_new demo_ops_ok] by (simp add: journal_of_def db_new_def)
  show ?thesis
  proof (rule reused_identity_keeps_old_content [OF demo_api_ok demo_zenc demo_inj demo_ops_ok _ demo_accepted])
    show "record_ok demo_api demo_universe (demo_record ''a'' 2)"
      by (simp add: record_ok_def demo_record_def content_ok_def slices_def demo_api_def chunk_slice_def demo_universe_def)
    show "entry_key (entry_of demo_api (demo_record ''a'' 2)) \<in>
        entry_key ` set (journal_of demo_api (store_run demo_api db_new demo_ops))"
      unfolding j demo_journal by (simp add: entry_key_def entry_of_def demo_record_def)
  qed
qed

definition identity :: "version_row \<Rightarrow> string \<times> int \<times> bytes" where
  "identity v = (vr_path v, vr_state v, vr_clock v)"

definition identity_at :: "database \<Rightarrow> int \<Rightarrow> (string \<times> int \<times> bytes) option" where
  "identity_at db i = map_option identity (find_version db i)"

lemma same_identity_iff: "same_identity a b \<longleftrightarrow> identity a = identity b"
  by (auto simp: same_identity_def identity_def)

lemma foldl_min_Min: "foldl min (a :: int) xs = Min (set (a # xs))"
  unfolding Min.set_eq_fold foldl_conv_fold by (simp add: min.commute)

lemma canonical_id_row:
  assumes "distinct (map vr_id (db_versions db))" "v \<in> set (db_versions db)"
  obtains u where "u \<in> set (db_versions db)" "identity u = identity v" "canonical_id db (vr_id v) = Some (vr_id u)"
    "\<forall>w \<in> set (db_versions db). identity w = identity v \<longrightarrow> vr_id u \<le> vr_id w"
proof -
  let ?ids = "map vr_id (filter (same_identity v) (db_versions db))"
  let ?same = "{u \<in> set (db_versions db). identity u = identity v}"
  have ids: "set (vr_id v # ?ids) = vr_id ` ?same" using assms(2) by (auto simp: same_identity_iff)
  have can: "canonical_id db (vr_id v) = Some (Min (vr_id ` ?same))"
    using find_distinct_key [OF assms] unfolding ids [symmetric] foldl_min_Min [symmetric]
    by (simp add: canonical_id_def find_version_def)
  have fin: "finite (vr_id ` ?same)" "vr_id ` ?same \<noteq> {}" using assms(2) by auto
  from Min_in [OF fin] obtain u where u: "u \<in> ?same" "Min (vr_id ` ?same) = vr_id u" by blast
  have "vr_id u \<le> vr_id w" if "w \<in> ?same" for w
    unfolding u(2) [symmetric] using that by (intro Min_le [OF fin(1)]) simp
  with can u show ?thesis by (intro that [of u]) auto
qed

lemma collect_list_all2: "\<forall>x \<in> set xs. \<exists>y. f x = Inr y \<and> P x y \<Longrightarrow> \<exists>ys. collect f xs = Inr ys \<and> list_all2 P xs ys"
  by (induction xs) fastforce+

definition kept_rows :: "database \<Rightarrow> version_row list" where
  "kept_rows db = filter (\<lambda>v. canonical_id db (vr_id v) = Some (vr_id v)) (db_versions db)"

lemma kept_row_iff:
  assumes "distinct (map vr_id (db_versions db))"
  shows "u \<in> set (kept_rows db) \<longleftrightarrow> u \<in> set (db_versions db) \<and>
    (\<forall>w \<in> set (db_versions db). identity w = identity u \<longrightarrow> vr_id u \<le> vr_id w)"
proof (cases "u \<in> set (db_versions db)")
  case True
  obtain u' where u': "u' \<in> set (db_versions db)" "identity u' = identity u" "canonical_id db (vr_id u) = Some (vr_id u')"
      "\<forall>w \<in> set (db_versions db). identity w = identity u \<longrightarrow> vr_id u' \<le> vr_id w"
    by (rule canonical_id_row [OF assms True])
  then have "vr_id u' = vr_id u \<longleftrightarrow> (\<forall>w \<in> set (db_versions db). identity w = identity u \<longrightarrow> vr_id u \<le> vr_id w)"
    using True by (metis order_antisym)
  with u'(3) True show ?thesis by (simp add: kept_rows_def)
qed (simp add: kept_rows_def)

lemma kept_row_of:
  assumes "distinct (map vr_id (db_versions db))" "v \<in> set (db_versions db)"
  obtains u where "u \<in> set (kept_rows db)" "identity u = identity v" "canonical_id db (vr_id v) = Some (vr_id u)"
proof -
  obtain u where u: "u \<in> set (db_versions db)" "identity u = identity v" "canonical_id db (vr_id v) = Some (vr_id u)"
      "\<forall>w \<in> set (db_versions db). identity w = identity v \<longrightarrow> vr_id u \<le> vr_id w"
    by (rule canonical_id_row [OF assms])
  then show ?thesis using that kept_row_iff [OF assms(1), of u] by auto
qed

lemma kept_rows_distinct:
  assumes "distinct (map vr_id (db_versions db))"
  shows "distinct (map vr_id (kept_rows db))" "distinct (map identity (kept_rows db))"
proof -
  show ids: "distinct (map vr_id (kept_rows db))" unfolding kept_rows_def by (rule distinct_map_filter [OF assms])
  have "u = w" if "u \<in> set (kept_rows db)" "w \<in> set (kept_rows db)" "identity u = identity w" for u w
  proof -
    have "vr_id u = vr_id w" using that kept_row_iff [OF assms] by (intro antisym) auto
    then show ?thesis using that(1,2) ids by (auto simp: distinct_map dest: inj_onD)
  qed
  with ids show "distinct (map identity (kept_rows db))" by (auto simp: distinct_map intro: inj_onI)
qed

lemma repointed:
  assumes "distinct (map vr_id (db_versions db))" "i \<in> vr_id ` set (db_versions db)" "db_versions db' = kept_rows db"
  obtains k where "canonical_id db i = Some k" "identity_at db' k = identity_at db i" "identity_at db' k \<noteq> None"
proof -
  from assms(2) obtain v where v: "v \<in> set (db_versions db)" "i = vr_id v" by auto
  obtain u where u: "u \<in> set (kept_rows db)" "identity u = identity v" "canonical_id db (vr_id v) = Some (vr_id u)"
    by (rule kept_row_of [OF assms(1) v(1)])
  have "find_version db' (vr_id u) = Some u" "find_version db i = Some v"
    unfolding find_version_def assms(3) v(2)
    using find_distinct_key [OF kept_rows_distinct(1) [OF assms(1)] u(1)] find_distinct_key [OF assms(1) v(1)] by simp_all
  with u v(2) show ?thesis by (intro that [of "vr_id u"]) (simp_all add: identity_at_def)
qed

text \<open>The v2 to v3 migration loses nothing but duplicates. On a database whose conflicts refer to
  existing rows (the foreign keys) \<open>dedup_versions\<close> succeeds; afterwards no two rows share an
  identity, every identity that was recorded still is, and every conflict keeps its other columns
  and still refers to rows of the same identities as before, all of which exist.\<close>

theorem dedup_keeps_identities:
  assumes "distinct (map vr_id (db_versions db))"
    and "\<forall>c \<in> set (db_conflicts db). {cf_winner c, cf_loser c} \<subseteq> vr_id ` set (db_versions db)"
  shows "\<exists>db'. dedup_versions db = Inr db' \<and> distinct (map identity (db_versions db')) \<and>
    identity ` set (db_versions db') = identity ` set (db_versions db) \<and>
    list_all2 (\<lambda>c c'. c' = c\<lparr>cf_winner := cf_winner c', cf_loser := cf_loser c'\<rparr> \<and>
      identity_at db' (cf_winner c') = identity_at db (cf_winner c) \<and> identity_at db' (cf_winner c') \<noteq> None \<and>
      identity_at db' (cf_loser c') = identity_at db (cf_loser c) \<and> identity_at db' (cf_loser c') \<noteq> None)
      (db_conflicts db) (db_conflicts db')"
proof -
  let ?P = "\<lambda>db' c c'. c' = c\<lparr>cf_winner := cf_winner c', cf_loser := cf_loser c'\<rparr> \<and>
      identity_at db' (cf_winner c') = identity_at db (cf_winner c) \<and> identity_at db' (cf_winner c') \<noteq> None \<and>
      identity_at db' (cf_loser c') = identity_at db (cf_loser c) \<and> identity_at db' (cf_loser c') \<noteq> None"
  let ?db = "\<lambda>cs. db\<lparr>db_conflicts := cs, db_versions := kept_rows db\<rparr>"
  have "\<exists>c'. repoint db c = Inr c' \<and> ?P (?db []) c c'" if "c \<in> set (db_conflicts db)" for c
  proof -
    have ids: "cf_winner c \<in> vr_id ` set (db_versions db)" "cf_loser c \<in> vr_id ` set (db_versions db)" using assms(2) that by auto
    obtain k where "canonical_id db (cf_winner c) = Some k" "identity_at (?db []) k = identity_at db (cf_winner c)" "identity_at (?db []) k \<noteq> None"
      by (rule repointed [OF assms(1) ids(1), of "?db []"]) simp_all
    moreover obtain l where "canonical_id db (cf_loser c) = Some l" "identity_at (?db []) l = identity_at db (cf_loser c)" "identity_at (?db []) l \<noteq> None"
      by (rule repointed [OF assms(1) ids(2), of "?db []"]) simp_all
    ultimately show ?thesis by (simp add: repoint_def)
  qed
  then obtain cs where cs: "collect (repoint db) (db_conflicts db) = Inr cs" "list_all2 (?P (?db [])) (db_conflicts db) cs"
    using collect_list_all2 [of "db_conflicts db" "repoint db" "?P (?db [])"] by blast
  have at: "identity_at (?db cs) i = identity_at (?db []) i" for i by (simp add: identity_at_def find_version_def)
  have "identity ` set (kept_rows db) = identity ` set (db_versions db)"
    using kept_row_of [OF assms(1)] kept_row_iff [OF assms(1)] by (auto simp: image_iff) metis
  with cs kept_rows_distinct(2) [OF assms(1)] show ?thesis
    by (intro exI [of _ "?db cs"]) (simp add: dedup_versions_def kept_rows_def [symmetric] at)
qed

definition demo_duplicates :: database where
  "demo_duplicates = (let row = (\<lambda>i. \<lparr>vr_id = i, vr_path = ''a'', vr_state = 0, vr_content_hash = None, vr_size = None, vr_manifest = None,
       vr_clock = [1], vr_replica = 1, vr_wall_ms = 0, vr_origin = 0, vr_exec = 0\<rparr>)
     in \<lparr>db_chunks = [], db_versions = [row 1, row 2], db_conflicts = [\<lparr>cf_id = 1, cf_path = ''a'', cf_winner = 2, cf_loser = 1,
       cf_wall_ms = 0, cf_resolved = 0\<rparr>], db_version_seq = 2, db_conflict_seq = 1, db_identity_index = False\<rparr>)"

theorem dedup_keeps_identities_witness:
  "\<exists>db'. dedup_versions demo_duplicates = Inr db' \<and> distinct (map identity (db_versions db')) \<and>
    identity ` set (db_versions db') = {(''a'', 0, [1])}"
proof -
  have "identity ` set (db_versions demo_duplicates) = {(''a'', 0, [1])}" by (simp add: demo_duplicates_def Let_def identity_def)
  moreover have "distinct (map vr_id (db_versions demo_duplicates))"
    "\<forall>c \<in> set (db_conflicts demo_duplicates). {cf_winner c, cf_loser c} \<subseteq> vr_id ` set (db_versions demo_duplicates)"
    by (simp_all add: demo_duplicates_def Let_def)
  note dedup_keeps_identities [OF this]
  ultimately show ?thesis by metis
qed

end
