(* ===== verification/Tomo_Execute.thy ===== *)
theory Tomo_Execute
  imports Tomo_Transfer Tomo_Ledger Tomo_Pressure
begin

text \<open>
  Executing the engine's actions: the second half of \<^verbatim>\<open>crates/tomo/src/session.rs\<close> (\<open>execute\<close>
  and what it calls, the batch of staged applies, history capture, the watcher events, the
  burst loop) with \<^verbatim>\<open>apply.rs\<close>, \<open>install_batch\<close> of \<^verbatim>\<open>fsutil.rs\<close> and \<open>snapshot\<close> of
  \<^verbatim>\<open>tomo-watch/src/sig.rs\<close>. The state joins the session, the files below the project root, the
  history store and the pressure controller. A file operation fails where POSIX says it does (a
  lookup below a regular file, a rename onto a directory); what depends on the machine (a
  symlinked parent, a full disk, the clocks) is the parameter \<open>disk_api\<close>. The scan cache, log
  lines and the status file are left out.
\<close>

section \<open>The tree\<close>

datatype node = FileNode bytes bool u64 | DirNode

type_synonym tree = "(relpath, node) btree_map"

definition parents :: "relpath \<Rightarrow> relpath list" where
  "parents p = map (\<lambda>n. RelPath (str_join ''/'' (take n (components p)))) [1..<length (components p)]"

definition file_bytes :: "tree \<Rightarrow> relpath \<Rightarrow> bytes option" where
  "file_bytes t p = (case bm_get t p of Some (FileNode bs _ _) \<Rightarrow> Some bs | _ \<Rightarrow> None)"

text \<open>The first parent that is a regular file; the walk stops at a missing one.\<close>

fun parent_file :: "tree \<Rightarrow> relpath list \<Rightarrow> relpath option" where
  "parent_file t [] = None"
| "parent_file t (a # as) = (case bm_get t a of
      Some (FileNode _ _ _) \<Rightarrow> Some a | Some DirNode \<Rightarrow> parent_file t as | None \<Rightarrow> None)"

datatype type_collision_kind = TargetIsDir | ParentIsFile relpath

definition path_is_dir :: "tree \<Rightarrow> relpath \<Rightarrow> bool" where
  "path_is_dir t p \<longleftrightarrow> bm_get t p = Some DirNode"

definition type_collision :: "tree \<Rightarrow> relpath \<Rightarrow> type_collision_kind option" where
  "type_collision t p = (if path_is_dir t p then Some TargetIsDir
     else map_option ParentIsFile (parent_file t (parents p)))"

fun create_dir_all :: "tree \<Rightarrow> relpath list \<Rightarrow> tree option" where
  "create_dir_all t [] = Some t"
| "create_dir_all t (a # as) = (case bm_get t a of
      None \<Rightarrow> create_dir_all (bm_insert a DirNode t) as
    | Some DirNode \<Rightarrow> create_dir_all t as
    | Some (FileNode _ _ _) \<Rightarrow> None)"

text \<open>\<open>remove_dir\<close> succeeds on an empty directory only; the first failure ends the walk.\<close>

fun prune_dirs :: "tree \<Rightarrow> relpath list \<Rightarrow> tree" where
  "prune_dirs t [] = t"
| "prune_dirs t (a # as) =
     (if path_is_dir t a \<and> \<not> list_ex (\<lambda>q. a \<in> set (parents q)) (bm_keys t)
      then prune_dirs (bm_remove a t) as else t)"

definition prune_empty_parents :: "tree \<Rightarrow> relpath \<Rightarrow> tree" where
  "prune_empty_parents t p = prune_dirs t (rev (parents p))"

section \<open>State and errors\<close>

datatype stage_outcome = StageOk | StageNoSpace | StageBroken

record disk_api =
  dk_store :: store_api
  dk_refused :: "relpath \<Rightarrow> bool"
  dk_stage :: "relpath \<Rightarrow> stage_outcome"
  dk_resample :: "relpath \<Rightarrow> content_sig option"
  dk_mark_fails :: "int \<Rightarrow> bool"
  dk_now_ms :: u64
  dk_wall_ms :: u64
  dk_mtime_ms :: u64

datatype exec_error =
    SessionFailed cli_error
  | HistoryFailed history_error
  | SnapshotFailed relpath
  | IntegrityFailed relpath
  | CreateParentFailed relpath
  | StagingFailed relpath
  | InstallFailed relpath
  | RemoveFailed relpath
  | Panicked

record 's applier =
  ap_session :: "'s session"
  ap_tree :: tree
  ap_store :: history_store
  ap_pressure :: pressure_controller
  ap_conflicts :: "relpath set"
  ap_versions_recorded :: nat
  ap_conflicts_recorded :: nat

type_synonym 's exec_result = "(exec_error, 's applier, message) outcome"

definition sent_frames :: "effect list \<Rightarrow> message list" where
  "sent_frames es = concat (map (\<lambda>e. case e of Sent m \<Rightarrow> [m] | _ \<Rightarrow> []) es)"

definition on_session :: "'s applier \<Rightarrow> 's session_result \<Rightarrow> 's exec_result" where
  "on_session ap r = (case r of
      Inl e \<Rightarrow> Inl (SessionFailed e)
    | Inr (s, es) \<Rightarrow> Inr (ap\<lparr>ap_session := s\<rparr>, sent_frames es))"

definition tree_world :: "('g, 's, 'e) world \<Rightarrow> 's applier \<Rightarrow> ('g, 's, 'e) world" where
  "tree_world w ap = w\<lparr>w_read := file_bytes (ap_tree ap)\<rparr>"

definition rescan_later :: "'s applier \<Rightarrow> 's applier" where
  "rescan_later ap = ap\<lparr>ap_session := (ap_session ap)\<lparr>ss_rescan_pending := True\<rparr>\<rparr>"

definition eng :: "'s applier \<Rightarrow> engine" where
  "eng ap = ss_engine (ap_session ap)"

section \<open>Staged applies\<close>

definition install_one :: "u64 \<Rightarrow> tree \<Rightarrow> pending_install \<Rightarrow> tree option" where
  "install_one mtime t i =
     (if path_is_dir t (pi_path i) \<or> \<not> list_all (path_is_dir t) (parents (pi_path i)) then None
      else Some (bm_insert (pi_path i) (FileNode (pi_bytes i) (sig_exec (pi_sig i)) mtime) t))"

fun install_batch :: "u64 \<Rightarrow> tree \<Rightarrow> pending_install list \<Rightarrow> exec_error + tree" where
  "install_batch mtime t [] = Inr t"
| "install_batch mtime t (i # is) = (case install_one mtime t i of
      None \<Rightarrow> Inl (InstallFailed (pi_path i))
    | Some t \<Rightarrow> install_batch mtime t is)"

definition flush_installs :: "disk_api \<Rightarrow> 's applier \<Rightarrow> 's exec_result" where
  "flush_installs d ap =
     (if ss_pending_installs (ap_session ap) = [] then Inr (ap, [])
      else case install_batch (dk_mtime_ms d) (ap_tree ap) (ss_pending_installs (ap_session ap)) of
        Inl e \<Rightarrow> Inl e
      | Inr t \<Rightarrow> Inr (ap\<lparr>ap_tree := t, ap_session := abandon_pending_installs (ap_session ap)\<rparr>, []))"

definition flush_pending_install_for :: "disk_api \<Rightarrow> 's applier \<Rightarrow> relpath \<Rightarrow> 's exec_result" where
  "flush_pending_install_for d ap path =
     (if path \<in> ss_pending_install_paths (ap_session ap) then flush_installs d ap else Inr (ap, []))"

datatype stage_result = Staged | StageRefused | StageStalled | StageFailed exec_error

definition stage_present ::
    "(bytes \<Rightarrow> content_hash) \<Rightarrow> disk_api \<Rightarrow> tree \<Rightarrow> relpath set \<Rightarrow> relpath \<Rightarrow> content_sig \<Rightarrow> bytes \<Rightarrow>
     tree \<times> relpath set \<times> stage_result" where
  "stage_present blake3 d t dirs path sig bs =
     (if \<not> matches_sig blake3 bs sig then (t, dirs, StageFailed (IntegrityFailed path))
      else if dk_refused d path then (t, dirs, StageRefused)
      else
        (let made = (if parents path = [] \<or> last (parents path) \<in> dirs then Some t else create_dir_all t (parents path));
             dirs = (if parents path = [] then dirs else insert (last (parents path)) dirs)
         in case made of
              None \<Rightarrow> (t, dirs, StageFailed (CreateParentFailed path))
            | Some t \<Rightarrow> (case dk_stage d path of
                  StageOk \<Rightarrow> (t, dirs, Staged)
                | StageNoSpace \<Rightarrow> (t, dirs, StageStalled)
                | StageBroken \<Rightarrow> (t, dirs, StageFailed (StagingFailed path)))))"

definition write_present ::
    "('g, 's, 'e) world \<Rightarrow> disk_api \<Rightarrow> 's applier \<Rightarrow> relpath \<Rightarrow> content_sig \<Rightarrow> bytes \<Rightarrow> 's exec_result" where
  "write_present w d ap path sig bs =
     and_then (flush_pending_install_for d ap path) (\<lambda>ap.
       case stage_present (w_blake3 w) d (ap_tree ap) (ss_created_dirs (ap_session ap)) path sig bs of
         (t, dirs, r) \<Rightarrow>
           (let ap = ap\<lparr>ap_tree := t, ap_session := (ap_session ap)\<lparr>ss_created_dirs := dirs\<rparr>\<rparr>; s = ap_session ap
            in case r of
                 Staged \<Rightarrow> Inr (ap\<lparr>ap_session := s\<lparr>
                     ss_pending_installs := ss_pending_installs s @ [\<lparr>pi_path = path, pi_sig = sig, pi_bytes = bs\<rparr>],
                     ss_pending_install_paths := insert path (ss_pending_install_paths s)\<rparr>\<rparr>, [])
               | StageRefused \<Rightarrow> Inr (rescan_later ap, [])
               | StageStalled \<Rightarrow> Inr (ap\<lparr>ap_session := note_disk_full w s\<rparr>, [])
               | StageFailed e \<Rightarrow> Inl e))"

section \<open>History capture\<close>

definition attribution :: "'s applier \<Rightarrow> bool \<Rightarrow> origin \<times> replica_id" where
  "attribution ap origin_is_local =
     (if origin_is_local then (OriginLocal, eng_replica (eng ap))
      else (OriginRemote, case ss_peer_replica (ap_session ap) of Some r \<Rightarrow> r | None \<Rightarrow> eng_replica (eng ap)))"

definition read_verified :: "(bytes \<Rightarrow> content_hash) \<Rightarrow> tree \<Rightarrow> relpath \<Rightarrow> content_sig \<Rightarrow> bytes option" where
  "read_verified blake3 t path sig = (case file_bytes t path of
      Some bs \<Rightarrow> if matches_sig blake3 bs sig then Some bs else None
    | None \<Rightarrow> None)"

definition capture_record ::
    "disk_api \<Rightarrow> 's applier \<Rightarrow> relpath \<Rightarrow> entry_state \<Rightarrow> vector_clock \<Rightarrow> bool \<Rightarrow> bytes option \<Rightarrow> version_record" where
  "capture_record d ap path state version origin_is_local bs =
     \<lparr>ve_path = path, ve_state = state, ve_clock = version, ve_replica = snd (attribution ap origin_is_local),
      ve_origin = fst (attribution ap origin_is_local), ve_wall_ms = dk_wall_ms d, ve_bytes = bs\<rparr>"

text \<open>\<open>record_version\<close> of the store and the session's counter.\<close>

definition store_version :: "disk_api \<Rightarrow> 's applier \<Rightarrow> version_record \<Rightarrow> exec_error + 's applier \<times> int" where
  "store_version d ap r = (case record_version (dk_store d) (hs_db (ap_store ap)) r of
      Inl e \<Rightarrow> Inl (HistoryFailed e)
    | Inr (db, i) \<Rightarrow>
        Inr (ap\<lparr>ap_store := (ap_store ap)\<lparr>hs_db := db\<rparr>, ap_versions_recorded := ap_versions_recorded ap + 1\<rparr>, i))"

definition session_record_version ::
    "('g, 's, 'e) world \<Rightarrow> disk_api \<Rightarrow> 's applier \<Rightarrow> relpath \<Rightarrow> entry_state \<Rightarrow> vector_clock \<Rightarrow> bool \<Rightarrow> 's exec_result" where
  "session_record_version w d ap path state version origin_is_local =
     (let stored = (\<lambda>bs. case store_version d ap (capture_record d ap path state version origin_is_local bs) of
             Inl e \<Rightarrow> Inl e | Inr (ap, _) \<Rightarrow> Inr (ap, []))
      in case state of
           Present sig \<Rightarrow> (case read_verified (w_blake3 w) (ap_tree ap) path sig of
               Some bs \<Rightarrow> stored (Some bs) | None \<Rightarrow> Inr (ap, []))
         | Tombstone \<Rightarrow> stored None)"

definition note_version ::
    "('g, 's, 'e) world \<Rightarrow> disk_api \<Rightarrow> 's applier \<Rightarrow> relpath \<Rightarrow> entry_state \<Rightarrow> vector_clock \<Rightarrow> bool \<Rightarrow> u64 \<Rightarrow> 's exec_result" where
  "note_version w d ap path state version origin_is_local now_ms =
     (let size_hint = (case state of Present sig \<Rightarrow> sig_size sig | Tombstone \<Rightarrow> 0);
          input = \<lparr>ci_state = state, ci_version = version, ci_origin_is_local = origin_is_local, ci_size_hint = size_hint\<rparr>
      in case pc_note (ap_pressure ap) path input now_ms of
           None \<Rightarrow> Inl Panicked
         | Some (pc, Immediate) \<Rightarrow> session_record_version w d (ap\<lparr>ap_pressure := pc\<rparr>) path state version origin_is_local
         | Some (pc, _) \<Rightarrow> Inr (ap\<lparr>ap_pressure := pc\<rparr>, []))"

definition due_capture ::
    "('g, 's, 'e) world \<Rightarrow> disk_api \<Rightarrow> 's applier \<Rightarrow> relpath \<times> staged_capture \<Rightarrow> version_record list" where
  "due_capture w d ap x = (case x of (path, cap) \<Rightarrow>
     (case sc_state cap of
        Present sig \<Rightarrow> (case read_verified (w_blake3 w) (ap_tree ap) path sig of
            None \<Rightarrow> []
          | Some bs \<Rightarrow> [capture_record d ap path (sc_state cap) (sc_version cap) (sc_origin_is_local cap) (Some bs)])
      | Tombstone \<Rightarrow> [capture_record d ap path (sc_state cap) (sc_version cap) (sc_origin_is_local cap) None]))"

definition record_due_versions ::
    "('g, 's, 'e) world \<Rightarrow> disk_api \<Rightarrow> 's applier \<Rightarrow> (relpath \<times> staged_capture) list \<Rightarrow> 's exec_result" where
  "record_due_versions w d ap due =
     (let owned = concat (map (due_capture w d ap) due)
      in if owned = [] then Inr (ap, [])
         else case record_versions (dk_store d) (hs_db (ap_store ap)) owned of
           Inl e \<Rightarrow> Inl (HistoryFailed e)
         | Inr (db, _) \<Rightarrow> Inr (ap\<lparr>ap_store := (ap_store ap)\<lparr>hs_db := db\<rparr>,
               ap_versions_recorded := ap_versions_recorded ap + length owned\<rparr>, []))"

definition pump_history :: "('g, 's, 'e) world \<Rightarrow> disk_api \<Rightarrow> 's applier \<Rightarrow> 's exec_result" where
  "pump_history w d ap =
     (let pc = signals (ap_pressure ap) (of_nat (staged_len (ap_pressure ap))) (dk_now_ms d)
      in case poll_due pc (dk_now_ms d) of (pc, due) \<Rightarrow> record_due_versions w d (ap\<lparr>ap_pressure := pc\<rparr>) due)"

section \<open>Conflicts\<close>

datatype captured = CapPresent bytes | CapTombstone | CapUnobtainable

definition capture_conflict_bytes ::
    "(bytes \<Rightarrow> content_hash) \<Rightarrow> tree \<Rightarrow> relpath \<Rightarrow> entry_state \<Rightarrow> bytes option \<Rightarrow> captured" where
  "capture_conflict_bytes blake3 t path state remote_bytes = (case state of
      Tombstone \<Rightarrow> CapTombstone
    | Present sig \<Rightarrow>
        (let on_disk = (case read_verified blake3 t path sig of Some bs \<Rightarrow> CapPresent bs | None \<Rightarrow> CapUnobtainable)
         in case remote_bytes of
              Some bs \<Rightarrow> if matches_sig blake3 bs sig then CapPresent bs else on_disk
            | None \<Rightarrow> on_disk))"

fun same_state :: "entry_state \<Rightarrow> entry_state \<Rightarrow> bool" where
  "same_state (Present x) (Present y) \<longleftrightarrow> sig_hash x = sig_hash y \<and> sig_size x = sig_size y"
| "same_state Tombstone Tombstone \<longleftrightarrow> True"
| "same_state _ _ \<longleftrightarrow> False"

record conflict_capture =
  cc_path :: relpath
  cc_winner :: entry_state
  cc_winner_version :: vector_clock
  cc_winner_is_local :: bool
  cc_winner_bytes :: captured
  cc_loser :: entry_state
  cc_loser_version :: vector_clock
  cc_loser_is_local :: bool
  cc_loser_bytes :: captured
  cc_adopted :: bool

definition find_or_record ::
    "disk_api \<Rightarrow> 's applier \<Rightarrow> relpath \<Rightarrow> entry_state \<Rightarrow> vector_clock \<Rightarrow> captured \<Rightarrow> bool \<Rightarrow>
     exec_error + 's applier \<times> int option" where
  "find_or_record d ap path state version captured origin_is_local =
     (let fresh = (\<lambda>bs. map_sum id (apsnd Some) (store_version d ap (capture_record d ap path state version origin_is_local bs)))
      in case log_of (dk_store d) (ap_store ap) path of
           Inl e \<Rightarrow> Inl (HistoryFailed e)
         | Inr metas \<Rightarrow>
             (case List.find (\<lambda>m. vm_clock m = version \<and> same_state (vm_state m) state) metas of
                Some m \<Rightarrow> Inr (ap, Some (vm_id m))
              | None \<Rightarrow> (case (state, captured) of
                    (Tombstone, _) \<Rightarrow> fresh None
                  | (Present _, CapPresent bs) \<Rightarrow> fresh (Some bs)
                  | (Present _, _) \<Rightarrow> Inr (ap, None))))"

definition record_conflict_capture ::
    "disk_api \<Rightarrow> 's applier \<Rightarrow> conflict_capture \<Rightarrow> exec_error + 's applier \<times> int option" where
  "record_conflict_capture d ap c =
     (case find_or_record d ap (cc_path c) (cc_loser c) (cc_loser_version c) (cc_loser_bytes c) (cc_loser_is_local c) of
        Inl e \<Rightarrow> Inl e
      | Inr (ap, loser_id) \<Rightarrow>
          (case find_or_record d ap (cc_path c) (cc_winner c) (cc_winner_version c) (cc_winner_bytes c) (cc_winner_is_local c) of
             Inl e \<Rightarrow> Inl e
           | Inr (ap, winner_id) \<Rightarrow>
               (case (winner_id, loser_id) of
                  (Some win, Some los) \<Rightarrow>
                    (case record_conflict (dk_store d) (hs_db (ap_store ap)) (cc_path c) win los (dk_wall_ms d) of
                       Inl e \<Rightarrow> Inl (HistoryFailed e)
                     | Inr (db, i) \<Rightarrow> Inr (ap\<lparr>ap_store := (ap_store ap)\<lparr>hs_db := db\<rparr>,
                           ap_conflicts_recorded := ap_conflicts_recorded ap + 1\<rparr>, Some i))
                | _ \<Rightarrow> Inr (ap, None))))"

definition record_present_if_absent ::
    "disk_api \<Rightarrow> 's applier \<Rightarrow> relpath \<Rightarrow> content_sig \<Rightarrow> vector_clock \<Rightarrow> bytes \<Rightarrow> bool \<Rightarrow> 's exec_result" where
  "record_present_if_absent d ap path sig clock bs origin_local =
     (case log_of (dk_store d) (ap_store ap) path of
        Inl e \<Rightarrow> Inl (HistoryFailed e)
      | Inr metas \<Rightarrow>
          if list_ex (\<lambda>m. vm_clock m = clock \<and> (case vm_state m of Present _ \<Rightarrow> True | Tombstone \<Rightarrow> False)) metas
          then Inr (ap, [])
          else case store_version d ap (capture_record d ap path (Present sig) clock origin_local (Some bs)) of
            Inl e \<Rightarrow> Inl e | Inr (ap, _) \<Rightarrow> Inr (ap, []))"

text \<open>The content of a signature: the frame's bytes if they match, otherwise from the history.\<close>

definition frame_or_cas ::
    "('g, 's, 'e) world \<Rightarrow> disk_api \<Rightarrow> 's applier \<Rightarrow> content_sig \<Rightarrow> bytes option \<Rightarrow> exec_error + bytes option" where
  "frame_or_cas w d ap sig remote_bytes =
     (let cas = map_sum HistoryFailed id (content_by_hash (dk_store d) (hs_db (ap_store ap)) (sig_hash sig))
      in case remote_bytes of
           Some bs \<Rightarrow> if matches_sig (w_blake3 w) bs sig then Inr (Some bs) else cas
         | None \<Rightarrow> cas)"

definition preserve_collided_incoming ::
    "('g, 's, 'e) world \<Rightarrow> disk_api \<Rightarrow> 's applier \<Rightarrow> relpath \<Rightarrow> content_sig \<Rightarrow> vector_clock \<Rightarrow> bytes option \<Rightarrow> 's exec_result" where
  "preserve_collided_incoming w d ap path sig version remote_bytes =
     (case log_of (dk_store d) (ap_store ap) path of
        Inl e \<Rightarrow> Inl (HistoryFailed e)
      | Inr metas \<Rightarrow>
          if list_ex (\<lambda>m. vm_clock m = version \<and> same_state (vm_state m) (Present sig)) metas then Inr (ap, [])
          else (case frame_or_cas w d ap sig remote_bytes of
              Inl e \<Rightarrow> Inl e
            | Inr None \<Rightarrow> Inr (ap, [])
            | Inr (Some bs) \<Rightarrow>
                (case store_version d ap (capture_record d ap path (Present sig) version False (Some bs)) of
                   Inl e \<Rightarrow> Inl e | Inr (ap, _) \<Rightarrow> Inr (ap, []))))"

section \<open>Applying to the tree\<close>

definition apply_absent_guarded :: "disk_api \<Rightarrow> 's applier \<Rightarrow> relpath \<Rightarrow> 's exec_result" where
  "apply_absent_guarded d ap path =
     and_then (flush_pending_install_for d ap path) (\<lambda>ap.
       let ap = ap\<lparr>ap_session := (ap_session ap)\<lparr>ss_created_dirs := {}\<rparr>\<rparr>; t = ap_tree ap
       in if path_is_dir t path then Inr (rescan_later ap, [])
          else if dk_refused d path then Inr (rescan_later ap, [])
          else if parent_file t (parents path) \<noteq> None then Inl (RemoveFailed path)
          else Inr (ap\<lparr>ap_tree := prune_empty_parents (bm_remove path t) path\<rparr>, []))"

definition head_clock_for :: "engine \<Rightarrow> relpath \<Rightarrow> content_sig \<Rightarrow> vector_clock option" where
  "head_clock_for e path sig = (case index_get (eng_index e) path of
      None \<Rightarrow> None
    | Some entry \<Rightarrow> map_option hd_version
        (List.find (\<lambda>h. case hd_state h of Present s \<Rightarrow> sig_eq s sig | Tombstone \<Rightarrow> False) (heads entry)))"

definition preserve_incoming_file ::
    "('g, 's, 'e) world \<Rightarrow> disk_api \<Rightarrow> 's applier \<Rightarrow> relpath \<Rightarrow> content_sig \<Rightarrow> bytes option \<Rightarrow> 's exec_result" where
  "preserve_incoming_file w d ap path sig remote_bytes =
     (case frame_or_cas w d ap sig remote_bytes of
        Inl e \<Rightarrow> Inl e
      | Inr found \<Rightarrow> (case (found, head_clock_for (eng ap) path sig) of
            (Some bs, Some clock) \<Rightarrow> record_present_if_absent d ap path sig clock bs False
          | _ \<Rightarrow> Inr (ap, [])))"

text \<open>\<open>snapshot\<close>: the signature of a regular file; a lookup below a regular file is an error, not
  an absent file.\<close>

definition snapshot :: "(bytes \<Rightarrow> content_hash) \<Rightarrow> tree \<Rightarrow> relpath \<Rightarrow> exec_error + content_sig option" where
  "snapshot blake3 t path =
     (if parent_file t (parents path) \<noteq> None then Inl (SnapshotFailed path)
      else case bm_get t path of
        Some (FileNode bs exec mtime) \<Rightarrow>
          Inr (Some \<lparr>sig_hash = blake3 bs, sig_size = of_nat (length bs), sig_exec = exec, sig_mtime_ms = mtime\<rparr>)
      | _ \<Rightarrow> Inr None)"

text \<open>The flag of the result is whether the obstruction is gone. The clock of an entry whose
  \<open>winner\<close> would panic counts as missing here.\<close>

definition preserve_and_clear_obstructing_file ::
    "('g, 's, 'e) world \<Rightarrow> disk_api \<Rightarrow> 's applier \<Rightarrow> relpath \<Rightarrow> exec_error + 's applier \<times> bool" where
  "preserve_and_clear_obstructing_file w d ap ancestor =
     (case snapshot (w_blake3 w) (ap_tree ap) ancestor of
        Inl _ \<Rightarrow> Inr (ap, False)
      | Inr None \<Rightarrow> Inr (ap, True)
      | Inr (Some sig) \<Rightarrow>
          (case read_verified (w_blake3 w) (ap_tree ap) ancestor sig of
             None \<Rightarrow> Inr (ap, False)
           | Some bs \<Rightarrow>
               (let own = head_clock_for (eng ap) ancestor sig;
                    winning = (case index_get (eng_index (eng ap)) ancestor of
                       None \<Rightarrow> None | Some e \<Rightarrow> map_option hd_version (winner e))
                in case (if own \<noteq> None then own else winning) of
                     None \<Rightarrow> Inr (ap, False)
                   | Some clock \<Rightarrow>
                       (case record_present_if_absent d ap ancestor sig clock bs True of
                          Inl e \<Rightarrow> Inl e
                        | Inr (ap, _) \<Rightarrow> Inr (ap\<lparr>ap_tree := bm_remove ancestor (ap_tree ap)\<rparr>, True)))))"

definition prepare_present_target ::
    "('g, 's, 'e) world \<Rightarrow> disk_api \<Rightarrow> 's applier \<Rightarrow> relpath \<Rightarrow> content_sig \<Rightarrow> bytes option \<Rightarrow> exec_error + 's applier \<times> bool" where
  "prepare_present_target w d ap path sig remote_bytes = (case type_collision (ap_tree ap) path of
      None \<Rightarrow> Inr (ap, True)
    | Some TargetIsDir \<Rightarrow> (case preserve_incoming_file w d ap path sig remote_bytes of
          Inl e \<Rightarrow> Inl e | Inr (ap, _) \<Rightarrow> Inr (rescan_later ap, False))
    | Some (ParentIsFile ancestor) \<Rightarrow> (case preserve_and_clear_obstructing_file w d ap ancestor of
          Inl e \<Rightarrow> Inl e | Inr (ap, cleared) \<Rightarrow> Inr (rescan_later ap, cleared)))"

definition set_exec_mode :: "tree \<Rightarrow> relpath \<Rightarrow> bool \<Rightarrow> tree" where
  "set_exec_mode t path exec = (case bm_get t path of
      Some (FileNode bs _ mtime) \<Rightarrow> bm_insert path (FileNode bs exec mtime) t
    | _ \<Rightarrow> t)"

definition apply_present_by_sig ::
    "('g, 's, 'e) world \<Rightarrow> disk_api \<Rightarrow> 's applier \<Rightarrow> relpath \<Rightarrow> content_sig \<Rightarrow> bytes option \<Rightarrow> 's exec_result" where
  "apply_present_by_sig w d ap path sig remote_bytes =
     (case prepare_present_target w d ap path sig remote_bytes of
        Inl e \<Rightarrow> Inl e
      | Inr (ap, False) \<Rightarrow> Inr (ap, [])
      | Inr (ap, True) \<Rightarrow>
          (let frame_matches = (case remote_bytes of None \<Rightarrow> False | Some bs \<Rightarrow> matches_sig (w_blake3 w) bs sig);
               disk_matches = (\<not> frame_matches \<and> read_verified (w_blake3 w) (ap_tree ap) path sig \<noteq> None);
               cas = (if frame_matches \<or> disk_matches then Inr None
                      else content_by_hash (dk_store d) (hs_db (ap_store ap)) (sig_hash sig))
           in case cas of
                Inl e \<Rightarrow> Inl (HistoryFailed e)
              | Inr cas_bytes \<Rightarrow>
                  (case byte_source_of frame_matches disk_matches (cas_bytes \<noteq> None) of
                     Frame \<Rightarrow> write_present w d ap path sig (case remote_bytes of Some bs \<Rightarrow> bs | None \<Rightarrow> [])
                   | DiskSkip \<Rightarrow> Inr (ap\<lparr>ap_tree := set_exec_mode (ap_tree ap) path (sig_exec sig)\<rparr>, [])
                   | Cas \<Rightarrow> write_present w d ap path sig (case cas_bytes of Some bs \<Rightarrow> bs | None \<Rightarrow> [])
                   | Unavailable \<Rightarrow> Inr (rescan_later ap, []))))"

definition do_apply ::
    "('g, 's, 'e) world \<Rightarrow> disk_api \<Rightarrow> 's applier \<Rightarrow> relpath \<Rightarrow> expectation \<Rightarrow> bytes option \<Rightarrow> 's exec_result" where
  "do_apply w d ap path target remote_bytes = (case target of
      ExpPresent sig \<Rightarrow> apply_present_by_sig w d ap path sig remote_bytes
    | ExpAbsent \<Rightarrow> apply_absent_guarded d ap path)"

section \<open>Executing a batch of actions\<close>

definition captures_of ::
    "('g, 's, 'e) world \<Rightarrow> tree \<Rightarrow> bytes option \<Rightarrow> vector_clock option \<Rightarrow> action list \<Rightarrow> conflict_capture list" where
  "captures_of w t remote_bytes remote_version actions =
     concat (map (\<lambda>a. case a of
         ConflictResolved path win wv los lv adopted \<Rightarrow>
           [\<lparr>cc_path = path, cc_winner = win, cc_winner_version = wv, cc_winner_is_local = (remote_version \<noteq> Some wv),
             cc_winner_bytes = capture_conflict_bytes (w_blake3 w) t path win remote_bytes,
             cc_loser = los, cc_loser_version = lv, cc_loser_is_local = (remote_version \<noteq> Some lv),
             cc_loser_bytes = capture_conflict_bytes (w_blake3 w) t path los remote_bytes, cc_adopted = adopted\<rparr>]
       | _ \<Rightarrow> []) actions)"

fun execute_actions ::
    "('g, 's, 'e) world \<Rightarrow> disk_api \<Rightarrow> bytes option \<Rightarrow> vector_clock option \<Rightarrow> (relpath \<times> vector_clock) list \<Rightarrow>
     conflict_capture list \<Rightarrow> 's applier \<Rightarrow> action list \<Rightarrow> 's exec_result" where
  "execute_actions w d rb rv cvs caps ap [] = Inr (ap, [])"
| "execute_actions w d rb rv cvs caps ap (Send c # as) =
     and_then (on_session ap (do_send (tree_world w ap) (ap_session ap) c)) (\<lambda>ap. execute_actions w d rb rv cvs caps ap as)"
| "execute_actions w d rb rv cvs caps ap (Apply path target # as) =
     and_then (do_apply w d ap path target rb) (\<lambda>ap. execute_actions w d rb rv cvs caps ap as)"
| "execute_actions w d rb rv cvs caps ap (RecordVersion path state version # as) =
     (if (path, version) \<in> set cvs then execute_actions w d rb rv cvs caps ap as
      else and_then (note_version w d ap path state version (rv \<noteq> Some version) (dk_now_ms d))
        (\<lambda>ap. execute_actions w d rb rv cvs caps ap as))"
| "execute_actions w d rb rv cvs caps ap (ConflictResolved path win wv los lv adopted # as) =
     (case caps of
        [] \<Rightarrow> Inl Panicked
      | c # caps \<Rightarrow> (case record_conflict_capture d ap c of
            Inl e \<Rightarrow> Inl e
          | Inr (ap, _) \<Rightarrow>
              execute_actions w d rb rv cvs caps (ap\<lparr>ap_conflicts := insert path (ap_conflicts ap)\<rparr>) as))"

definition execute ::
    "('g, 's, 'e) world \<Rightarrow> disk_api \<Rightarrow> 's applier \<Rightarrow> action list \<Rightarrow> bytes option \<Rightarrow> vector_clock option \<Rightarrow> 's exec_result" where
  "execute w d ap actions remote_bytes remote_version =
     (let caps = captures_of w (ap_tree ap) remote_bytes remote_version actions;
          cvs = concat (map (\<lambda>c. [(cc_path c, cc_winner_version c), (cc_path c, cc_loser_version c)]) caps)
      in execute_actions w d remote_bytes remote_version cvs caps ap actions)"

text \<open>One event through the engine, its actions executed.\<close>

definition with_engine ::
    "('g, 's, 'e) world \<Rightarrow> disk_api \<Rightarrow> 's applier \<Rightarrow> transition \<Rightarrow> bytes option \<Rightarrow> vector_clock option \<Rightarrow> 's exec_result" where
  "with_engine w d ap r remote_bytes remote_version = (case r of
      None \<Rightarrow> Inl Panicked
    | Some (e, actions) \<Rightarrow>
        execute w d (ap\<lparr>ap_session := (ap_session ap)\<lparr>ss_engine := e\<rparr>\<rparr>) actions remote_bytes remote_version)"

definition disk_expectation :: "(bytes \<Rightarrow> content_hash) \<Rightarrow> tree \<Rightarrow> relpath \<Rightarrow> exec_error + expectation" where
  "disk_expectation blake3 t path = (case snapshot blake3 t path of
      Inl e \<Rightarrow> Inl e
    | Inr None \<Rightarrow> Inr ExpAbsent
    | Inr (Some sig) \<Rightarrow> Inr (ExpPresent sig))"

definition guard_unobserved :: "('g, 's, 'e) world \<Rightarrow> disk_api \<Rightarrow> 's applier \<Rightarrow> relpath \<Rightarrow> 's exec_result" where
  "guard_unobserved w d ap path = (case disk_expectation (w_blake3 w) (ap_tree ap) path of
      Inl e \<Rightarrow> Inl e
    | Inr disk \<Rightarrow> with_engine w d ap (reconcile_unobserved_local (eng ap) disk path) None None)"

text \<open>A change past the ingress checks: the tail of the \<open>Change\<close> arm of \<open>on_message\<close> and of
  \<open>complete_assembly\<close>.\<close>

definition deliver ::
    "('g, 's, 'e) world \<Rightarrow> disk_api \<Rightarrow> 's applier \<Rightarrow> remote_change \<Rightarrow> bytes option \<Rightarrow> 's exec_result" where
  "deliver w d ap c bs =
     and_then (flush_pending_install_for d ap (rc_path c)) (\<lambda>ap.
       and_then (guard_unobserved w d ap (rc_path c)) (\<lambda>ap.
         with_engine w d ap (handle (eng ap) (Remote c)) bs (Some (rc_version c))))"

definition refuse_collided ::
    "('g, 's, 'e) world \<Rightarrow> disk_api \<Rightarrow> 's applier \<Rightarrow> remote_change \<Rightarrow> bytes option \<Rightarrow> 's exec_result" where
  "refuse_collided w d ap c bs = (case rc_kind c of
      Removed \<Rightarrow> Inr (ap, [])
    | Modified sig \<Rightarrow>
        and_then (preserve_collided_incoming w d ap (rc_path c) sig (rc_version c) bs)
          (\<lambda>ap. Inr (ap\<lparr>ap_conflicts := insert (rc_path c) (ap_conflicts ap)\<rparr>, [])))"

fun run_effects :: "('g, 's, 'e) world \<Rightarrow> disk_api \<Rightarrow> 's applier \<Rightarrow> effect list \<Rightarrow> 's exec_result" where
  "run_effects w d ap [] = Inr (ap, [])"
| "run_effects w d ap (Sent m # es) = and_then (Inr (ap, [m])) (\<lambda>ap. run_effects w d ap es)"
| "run_effects w d ap (Delivered c bs # es) = and_then (deliver w d ap c bs) (\<lambda>ap. run_effects w d ap es)"
| "run_effects w d ap (Collided c bs # es) = and_then (refuse_collided w d ap c bs) (\<lambda>ap. run_effects w d ap es)"

definition applier_step :: "('g, 's, 'e) world \<Rightarrow> disk_api \<Rightarrow> 's applier \<Rightarrow> session_op \<Rightarrow> 's exec_result" where
  "applier_step w d ap x = (case session_step (tree_world w ap) (ap_session ap) x of
      Inl e \<Rightarrow> Inl (SessionFailed e)
    | Inr (s, es) \<Rightarrow> run_effects w d (ap\<lparr>ap_session := s\<rparr>) es)"

section \<open>Watcher events\<close>

datatype pending_kind = Dirty | Gone

definition winner_is_nonempty :: "engine \<Rightarrow> relpath \<Rightarrow> bool" where
  "winner_is_nonempty e path = (case index_get (eng_index e) path of
      None \<Rightarrow> False
    | Some entry \<Rightarrow> (case winner entry of
          Some h \<Rightarrow> (case hd_state h of Present sig \<Rightarrow> sig_size sig > 0 | Tombstone \<Rightarrow> False)
        | None \<Rightarrow> False))"

definition resolve :: "(bytes \<Rightarrow> content_hash) \<Rightarrow> tree \<Rightarrow> relpath \<Rightarrow> pending_kind \<Rightarrow> exec_error + change_kind" where
  "resolve blake3 t path kind = (case kind of
      Gone \<Rightarrow> Inr Removed
    | Dirty \<Rightarrow> (case snapshot blake3 t path of
          Inl e \<Rightarrow> Inl e | Inr (Some sig) \<Rightarrow> Inr (Modified sig) | Inr None \<Rightarrow> Inr Removed))"

text \<open>A removal that the disk contradicts is a modification; an empty observation of a file that
  is known non-empty is sampled once more.\<close>

definition settle :: "(bytes \<Rightarrow> content_hash) \<Rightarrow> disk_api \<Rightarrow> 's applier \<Rightarrow> relpath \<Rightarrow> change_kind \<Rightarrow> change_kind" where
  "settle blake3 d ap path kind =
     (let kind = (case kind of
            Removed \<Rightarrow> (case snapshot blake3 (ap_tree ap) path of Inr (Some sig) \<Rightarrow> Modified sig | _ \<Rightarrow> Removed)
          | Modified sig \<Rightarrow> Modified sig)
      in case kind of
           Modified sig \<Rightarrow>
             if sig_size sig = 0 \<and> winner_is_nonempty (eng ap) path
             then (case dk_resample d path of Some now_sig \<Rightarrow> Modified now_sig | None \<Rightarrow> Modified sig)
             else Modified sig
         | Removed \<Rightarrow> Removed)"

definition on_watch_pending ::
    "('g, 's, 'e) world \<Rightarrow> disk_api \<Rightarrow> 's applier \<Rightarrow> relpath \<Rightarrow> pending_kind \<Rightarrow> 's exec_result" where
  "on_watch_pending w d ap path kind =
     and_then (flush_pending_install_for d ap path) (\<lambda>ap.
       case resolve (w_blake3 w) (ap_tree ap) path kind of
         Inl _ \<Rightarrow> Inr (rescan_later ap, [])
       | Inr k \<Rightarrow> with_engine w d ap
           (handle (eng ap) (Local \<lparr>lc_path = path, lc_kind = settle (w_blake3 w) d ap path k\<rparr>)) None None)"

section \<open>Bursts\<close>

datatype burst_item = Watched relpath pending_kind | NeedsRescan | Queued session_item

definition process_item :: "('g, 's, 'e) world \<Rightarrow> disk_api \<Rightarrow> 's applier \<Rightarrow> burst_item \<Rightarrow> 's exec_result \<times> bool" where
  "process_item w d ap item = (case item of
      Watched path kind \<Rightarrow> (on_watch_pending w d ap path kind, False)
    | NeedsRescan \<Rightarrow> (Inr (rescan_later ap, []), False)
    | Queued x \<Rightarrow> (applier_step w d ap (Process x), snd (process_incoming (tree_world w ap) (ap_session ap) x)))"

text \<open>The items of a drained burst in order, each with whether the batch of staged applies has
  reached its bound after it; leaving early or not, what is staged at the end is installed.\<close>

fun process_items :: "('g, 's, 'e) world \<Rightarrow> disk_api \<Rightarrow> 's applier \<Rightarrow> (burst_item \<times> bool) list \<Rightarrow> 's exec_result" where
  "process_items w d ap [] = Inr (ap, [])"
| "process_items w d ap ((item, full) # items) = (case process_item w d ap item of
      (r, leave) \<Rightarrow> and_then r (\<lambda>ap.
        if leave \<or> ss_repush_requested (ap_session ap) then Inr (ap, [])
        else and_then (if full then flush_installs d ap else Inr (ap, [])) (\<lambda>ap. process_items w d ap items)))"

definition process_burst :: "('g, 's, 'e) world \<Rightarrow> disk_api \<Rightarrow> 's applier \<Rightarrow> (burst_item \<times> bool) list \<Rightarrow> 's exec_result" where
  "process_burst w d ap items = and_then (process_items w d ap items) (flush_installs d)"

section \<open>Shutdown\<close>

lemma bm_len_card: "bm_len m = card (dom (bm_get m))"
  using distinct_card [OF bm.distinct_keys [of m]] bm.keys_eq_dom [of m] by (simp add: bm_len_def)

lemma foldl_min_mem: "foldl min d ds \<in> set (d # ds)" for d :: "'a::linorder"
  by (induction ds arbitrary: d) (auto simp: min_def)

lemma next_due_staged: "next_due_ms pc = Some due \<Longrightarrow> \<exists>p cap. bm_get (pc_staging pc) p = Some cap \<and> sc_due_at_ms cap = due"
proof -
  assume "next_due_ms pc = Some due"
  then obtain d ds where "map sc_due_at_ms (bm_values (pc_staging pc)) = d # ds" "due = foldl min d ds"
    by (auto simp: next_due_ms_def split: list.splits)
  then have "due \<in> sc_due_at_ms ` set (bm_values (pc_staging pc))"
    using foldl_min_mem [of d ds] by (metis list.set_map)
  then show ?thesis unfolding image_iff bex_simps bm_values_mem by (metis bm_values_mem)
qed

lemma next_due_None: "next_due_ms pc = None \<longleftrightarrow> staged_len pc = 0"
  by (auto simp: next_due_ms_def staged_len_def bm_len_def bm_values_def split: list.splits)

lemma poll_due_shrinks:
  assumes "next_due_ms pc = Some due" "due \<le> now"
  shows "staged_len (fst (poll_due pc now)) < staged_len pc"
proof -
  obtain p cap where p: "bm_get (pc_staging pc) p = Some cap" "sc_due_at_ms cap = due"
    using next_due_staged [OF assms(1)] by blast
  let ?d = "dom (bm_get (pc_staging (fst (poll_due pc now))))"
  have "?d \<subseteq> dom (bm_get (pc_staging pc))" using poll_due_rest by (auto split: option.splits if_splits)
  moreover have "p \<in> dom (bm_get (pc_staging pc)) - ?d" using p assms(2) by (auto simp: poll_due_rest)
  ultimately show ?thesis unfolding staged_len_def bm_len_card by (intro psubset_card_mono) auto
qed

lemma record_due_pressure: "record_due_versions w d ap due = Inr (ap', out) \<Longrightarrow> ap_pressure ap' = ap_pressure ap"
  by (auto simp: record_due_versions_def Let_def split: if_splits sum.splits prod.splits)

text \<open>Polling at each next deadline until nothing is staged.\<close>

function drain_history :: "('g, 's, 'e) world \<Rightarrow> disk_api \<Rightarrow> 's applier \<Rightarrow> u64 \<Rightarrow> 's exec_result" where
  "drain_history w d ap now =
     (if staged_len (ap_pressure ap) = 0 then Inr (ap, [])
      else case next_due_ms (ap_pressure ap) of
        None \<Rightarrow> Inr (ap, [])
      | Some due \<Rightarrow>
          (case record_due_versions w d (ap\<lparr>ap_pressure := fst (poll_due (ap_pressure ap) (max now due))\<rparr>)
              (snd (poll_due (ap_pressure ap) (max now due))) of
             Inl e \<Rightarrow> Inl e
           | Inr (ap, _) \<Rightarrow> drain_history w d ap (max now due)))"
  by pat_completeness auto

termination drain_history
  by (relation "measure (\<lambda>(w, d, ap, now). staged_len (ap_pressure ap))")
    (auto dest!: record_due_pressure intro!: poll_due_shrinks)

end
