(* ===== verification/Tomo_Preserve.thy ===== *)
theory Tomo_Preserve
  imports Tomo_Execute
begin

text \<open>
  What executing the engine's actions (\<^verbatim>\<open>crates/tomo/src/session.rs\<close>) preserves: the history stays
  well formed and only grows, and the bytes of every conflict loser that can be obtained are in
  it before they are overwritten.
\<close>

section \<open>The joint invariant\<close>

text \<open>The history is well formed and every content the session may record (files of the tree,
  staged applies) is one of the contents met.\<close>

definition stored_ok :: "store_api \<Rightarrow> bytes set \<Rightarrow> 's applier \<Rightarrow> bool" where
  "stored_ok api U ap \<longleftrightarrow> db_wf api U (hs_db (ap_store ap)) \<and>
     (\<forall>p bs. file_bytes (ap_tree ap) p = Some bs \<longrightarrow> content_ok api U bs) \<and>
     list_all (\<lambda>i. content_ok api U (pi_bytes i)) (ss_pending_installs (ap_session ap))"

text \<open>A step keeps the invariant and only adds to the history.\<close>

definition keeps :: "store_api \<Rightarrow> bytes set \<Rightarrow> 's applier \<Rightarrow> 's applier \<Rightarrow> bool" where
  "keeps api U ap ap' \<longleftrightarrow> stored_ok api U ap' \<and> grows (hs_db (ap_store ap)) (hs_db (ap_store ap'))"

lemma keeps_refl: "stored_ok api U ap \<Longrightarrow> keeps api U ap ap"
  by (simp add: keeps_def)

lemma keeps_trans: "keeps api U a b \<Longrightarrow> keeps api U b c \<Longrightarrow> keeps api U a c"
  by (auto simp: keeps_def intro: grows_trans)

lemma keepsD: "keeps api U ap ap' \<Longrightarrow> stored_ok api U ap'"
  by (simp add: keeps_def)

text \<open>Changes of the other parts of the state.\<close>

lemma keeps_frame:
  "stored_ok api U ap \<Longrightarrow> ap_store ap' = ap_store ap \<Longrightarrow> ap_tree ap' = ap_tree ap \<Longrightarrow>
   ss_pending_installs (ap_session ap') = ss_pending_installs (ap_session ap) \<Longrightarrow> keeps api U ap ap'"
  by (simp add: keeps_def stored_ok_def)

lemma keeps_frame_left: "keeps api U ap ap' \<Longrightarrow> ap_store ap0 = ap_store ap \<Longrightarrow> keeps api U ap0 ap'"
  by (simp add: keeps_def)

lemma rescan_later_fields [simp]:
  "ap_store (rescan_later ap) = ap_store ap" "ap_tree (rescan_later ap) = ap_tree ap"
  "ss_pending_installs (ap_session (rescan_later ap)) = ss_pending_installs (ap_session ap)"
  by (simp_all add: rescan_later_def)

lemma keeps_rescan: "keeps api U ap ap' \<Longrightarrow> keeps api U ap (rescan_later ap')"
  by (simp add: keeps_def stored_ok_def)

lemma read_verified_Some:
  "read_verified b t p sig = Some bs \<longleftrightarrow> file_bytes t p = Some bs \<and> matches_sig b bs sig"
  by (auto simp: read_verified_def split: option.splits)

section \<open>History operations\<close>

lemma store_version_keeps:
  assumes "api_ok (dk_store d)" "stored_ok (dk_store d) U ap" "record_ok (dk_store d) U r"
    and "store_version d ap r = Inr (ap', i)"
  shows "keeps (dk_store d) U ap ap'" "ap_session ap' = ap_session ap" "ap_tree ap' = ap_tree ap"
proof -
  obtain db where ins: "insert_version (dk_store d) (hs_db (ap_store ap)) r = Inr (db, i)"
    and ap': "ap' = ap\<lparr>ap_store := (ap_store ap)\<lparr>hs_db := db\<rparr>, ap_versions_recorded := ap_versions_recorded ap + 1\<rparr>"
    using assms(4) by (auto simp: store_version_def record_version_def split: sum.splits)
  have "db_wf (dk_store d) U (hs_db (ap_store ap))" using assms(2) by (simp add: stored_ok_def)
  from insert_version_wf [OF assms(1) this assms(3) ins] assms(2) ap'
  show "keeps (dk_store d) U ap ap'" "ap_session ap' = ap_session ap" "ap_tree ap' = ap_tree ap"
    by (simp_all add: keeps_def stored_ok_def)
qed

lemma record_ok_capture:
  "(\<And>b. bs = Some b \<Longrightarrow> content_ok api U b) \<Longrightarrow> record_ok api U (capture_record d ap p st v l bs)"
  by (cases bs) (simp_all add: record_ok_def capture_record_def)

lemma store_capture_keeps:
  assumes "store_version d ap (capture_record d ap0 p st v l bs) = Inr (ap', i)"
    and "api_ok (dk_store d)" "stored_ok (dk_store d) U ap" "\<forall>b. bs = Some b \<longrightarrow> content_ok (dk_store d) U b"
  shows "keeps (dk_store d) U ap ap'"
  by (rule store_version_keeps(1) [OF assms(2,3) record_ok_capture assms(1)]) (use assms(4) in blast)

lemma stored_ok_file: "stored_ok api U ap \<Longrightarrow> file_bytes (ap_tree ap) p = Some bs \<Longrightarrow> content_ok api U bs"
  by (simp add: stored_ok_def)

lemma session_record_keeps:
  assumes "api_ok (dk_store d)" "stored_ok (dk_store d) U ap"
    and "session_record_version w d ap p st v l = Inr (ap', out)"
  shows "keeps (dk_store d) U ap ap'"
  using assms(3) keeps_refl [OF assms(2)]
  by (auto simp: session_record_version_def Let_def read_verified_Some split: entry_state.splits option.splits sum.splits
      intro: store_capture_keeps [OF _ assms(1,2)] stored_ok_file [OF assms(2)])

lemma note_version_keeps:
  assumes "api_ok (dk_store d)" "stored_ok (dk_store d) U ap"
    and "note_version w d ap p st v l now = Inr (ap', out)"
  shows "keeps (dk_store d) U ap ap'"
proof -
  have ok: "stored_ok (dk_store d) U (ap\<lparr>ap_pressure := pc\<rparr>)" for pc using assms(2) by (simp add: stored_ok_def)
  have "keeps (dk_store d) U ap a" if "session_record_version w d (ap\<lparr>ap_pressure := pc\<rparr>) p st v l = Inr (a, out)" for pc a
    by (rule keeps_frame_left [OF session_record_keeps [OF assms(1) ok that]]) simp
  then show ?thesis using assms(3) keeps_frame [OF assms(2)]
    by (auto simp: note_version_def Let_def split: option.splits capture_decision.splits)
qed

lemma find_or_record_cases:
  assumes "find_or_record d ap p st v c l = Inr (ap', r)"
  obtains "ap' = ap"
  | bs i where "bs = None \<or> c = CapPresent (the bs)" "store_version d ap (capture_record d ap p st v l bs) = Inr (ap', i)"
proof -
  have inner: "map_sum id (apsnd Some) x = Inr (ap', r) \<Longrightarrow> \<exists>i. x = Inr (ap', i)" for x :: "exec_error + 'a applier \<times> int"
    by (cases x) auto
  obtain metas where metas: "log_of (dk_store d) (ap_store ap) p = Inr metas"
    using assms by (auto simp: find_or_record_def Let_def split: sum.splits)
  show ?thesis
  proof (cases "List.find (\<lambda>m. vm_clock m = v \<and> same_state (vm_state m) st) metas")
    case (Some m)
    then show ?thesis using assms metas that(1) by (simp add: find_or_record_def Let_def)
  next
    case None
    then consider "ap' = ap"
      | "map_sum id (apsnd Some) (store_version d ap (capture_record d ap p st v l None)) = Inr (ap', r)"
      | bs where "c = CapPresent bs" "map_sum id (apsnd Some) (store_version d ap (capture_record d ap p st v l (Some bs))) = Inr (ap', r)"
      using assms metas by (cases st; cases c) (simp_all add: find_or_record_def Let_def)
    then show ?thesis
    proof cases
      case 1
      then show ?thesis by (rule that(1))
    next
      case 2
      from inner [OF this] obtain i where "store_version d ap (capture_record d ap p st v l None) = Inr (ap', i)" by blast
      then show ?thesis by (intro that(2) [of None]) simp_all
    next
      case (3 bs)
      from inner [OF 3(2)] obtain i where "store_version d ap (capture_record d ap p st v l (Some bs)) = Inr (ap', i)" by blast
      with 3(1) show ?thesis by (intro that(2) [of "Some bs"]) simp_all
    qed
  qed
qed

lemma find_or_record_keeps:
  assumes "find_or_record d ap p st v c l = Inr (ap', r)"
    and "api_ok (dk_store d)" "stored_ok (dk_store d) U ap" "\<forall>bs. c = CapPresent bs \<longrightarrow> content_ok (dk_store d) U bs"
  shows "keeps (dk_store d) U ap ap'"
  using assms(1)
proof (cases rule: find_or_record_cases)
  case 1
  then show ?thesis using keeps_refl [OF assms(3)] by simp
next
  case (2 bs i)
  then show ?thesis using assms(4) by (intro store_capture_keeps [OF 2(2) assms(2,3)]) auto
qed

lemma log_row: "log_of api hs p = Inr metas \<Longrightarrow> m \<in> set metas \<Longrightarrow>
    \<exists>v \<in> set (db_versions (hs_db hs)). vr_path v = as_str p \<and> into_meta api (hs_has_exec hs) v = Inr m"
proof -
  have "collect f xs = Inr ys \<Longrightarrow> y \<in> set ys \<Longrightarrow> \<exists>x \<in> set xs. f x = Inr y" for f :: "version_row \<Rightarrow> history_error + version_meta" and xs ys y
    by (induction xs arbitrary: ys) (auto split: sum.splits)
  then show "log_of api hs p = Inr metas \<Longrightarrow> m \<in> set metas \<Longrightarrow> ?thesis" by (fastforce simp: log_of_def)
qed


text \<open>Identities already in the history belong to the same content: the version of a path under a
  clock that is about to be recorded was not recorded with other bytes before.\<close>

definition consistent :: "store_api \<Rightarrow> database \<Rightarrow> relpath \<Rightarrow> vector_clock \<Rightarrow> content_sig \<Rightarrow> bool" where
  "consistent api db p v sig \<longleftrightarrow> list_all (\<lambda>row. vr_path row = as_str p \<and> vr_state row = 1 \<and> vr_clock row = sa_clock_enc api v \<longrightarrow>
     vr_content_hash row = Some (hash_bytes (sig_hash sig))) (db_versions db)"

definition holds :: "store_api \<Rightarrow> database \<Rightarrow> relpath \<Rightarrow> bytes \<Rightarrow> int \<Rightarrow> bool" where
  "holds api db p bs i \<longleftrightarrow> (\<exists>row \<in> set (db_versions db). vr_id row = i \<and> vr_path row = as_str p) \<and> get_content api db i = Inr bs"

lemma holds_grows:
  assumes "api_ok api" "inj_on (sa_blake3 api) U" "db_wf api U db" "db_wf api U db'" "grows db db'" "holds api db p bs i"
  shows "holds api db' p bs i"
proof -
  obtain row where row: "row \<in> set (db_versions db)" "vr_id row = i" "vr_path row = as_str p" "get_content api db i = Inr bs"
    using assms(6) by (auto simp: holds_def)
  have "get_content api db' i = Inr bs" using row_entry_stable [OF assms(1-5) row(1)] row(2,4)
    by (auto simp: row_entry_def split: sum.splits)
  then show ?thesis using row assms(5) by (auto simp: holds_def grows_def)
qed

text \<open>A row with the hash of a content holds that content.\<close>

lemma row_holds:
  assumes "api_ok api" "inj_on (sa_blake3 api) U" "db_wf api U db" "row \<in> set (db_versions db)" "vr_path row = as_str p"
    and "vr_state row = 1" "vr_content_hash row = Some (hash_bytes (sa_blake3 api bs))"
    and "content_ok api U bs" "inj_on (sa_blake3 api) {b. content_ok api U b}"
  shows "holds api db p bs (vr_id row)"
proof -
  obtain b where b: "row_of_content api U (db_chunks db) row b" using assms(3,4,6) by (auto simp: db_wf_def version_ok_def)
  then have "sa_blake3 api b = sa_blake3 api bs" "content_ok api U b"
    using assms(7) by (auto simp: row_of_content_def hash_bytes_inject)
  then have "b = bs" using assms(8,9) by (auto dest: inj_onD)
  then show ?thesis using get_content_row [OF assms(1-4,6) b] assms(4,5) by (auto simp: holds_def)
qed


lemma insert_row_id:
  "insert_row db row = (db', i) \<Longrightarrow> \<exists>r \<in> set (db_versions db'). vr_id r = i \<and> same_identity row r \<and> (r = row \<or> r \<in> set (db_versions db))"
  by (auto simp: insert_row_def same_identity_def find_Some_iff split: option.splits if_splits intro: nth_mem)

definition no_collisions :: "store_api \<Rightarrow> bytes set \<Rightarrow> bool" where
  "no_collisions api U \<longleftrightarrow> inj_on (sa_blake3 api) U \<and> inj_on (sa_blake3 api) {b. content_ok api U b}"

lemma store_version_holds:
  assumes api: "api_ok (dk_store d)" "no_collisions (dk_store d) U" and ok: "stored_ok (dk_store d) U ap" "content_ok (dk_store d) U bs"
    and con: "consistent (dk_store d) (hs_db (ap_store ap)) p v sig" and hash: "sig_hash sig = sa_blake3 (dk_store d) bs"
    and run: "store_version d ap (capture_record d ap p (Present sig) v l (Some bs)) = Inr (ap', i)"
  shows "holds (dk_store d) (hs_db (ap_store ap')) p bs i"
proof -
  let ?r = "capture_record d ap p (Present sig) v l (Some bs)"
  have r: "record_ok (dk_store d) U ?r" using ok(2) by (intro record_ok_capture) simp
  have wf: "db_wf (dk_store d) U (hs_db (ap_store ap))" using ok(1) by (simp add: stored_ok_def)
  obtain db' where ins: "insert_version (dk_store d) (hs_db (ap_store ap)) ?r = Inr (db', i)" and db': "hs_db (ap_store ap') = db'"
    using run by (auto simp: store_version_def record_version_def split: sum.splits)
  obtain db1 row where 1: "insert_row db1 row = (db', i)" "db_versions db1 = db_versions (hs_db (ap_store ap))"
    "vr_path row = as_str p" "vr_clock row = sa_clock_enc (dk_store d) v" "vr_state row = 1"
    "row_of_content (dk_store d) U (db_chunks db1) row bs"
    by (rule insert_version_effect [OF api(1) wf r ins]) (simp add: capture_record_def)
  obtain q where q: "q \<in> set (db_versions db')" "vr_id q = i" "same_identity row q" "q = row \<or> q \<in> set (db_versions db1)"
    using insert_row_id [OF 1(1)] by blast
  have "vr_content_hash q = Some (hash_bytes (sa_blake3 (dk_store d) bs))"
    using q(3,4) 1(2-6) con hash by (auto simp: row_of_content_def consistent_def list_all_iff same_identity_def)
  moreover have "db_wf (dk_store d) U db'" by (rule insert_version_wf(1) [OF api(1) wf r ins])
  ultimately show ?thesis
    using row_holds [of "dk_store d" U db' q p bs] q(1-3) 1(3,5) api ok(2)
    by (auto simp: db' no_collisions_def same_identity_def)
qed

text \<open>What a log entry in a present state says of its row.\<close>

lemma into_meta_present:
  assumes "version_ok api U chunks row" "into_meta api x row = Inr m" "same_state (vm_state m) (Present sig)"
  shows "vr_state row = 1" "vr_content_hash row = Some (hash_bytes (sig_hash sig))" "vm_id m = vr_id row"
proof -
  show "vm_id m = vr_id row" using assms(2) by (auto simp: into_meta_def Let_def split: option.splits sum.splits)
  have "vr_state row \<noteq> 0"
    using assms(2,3) by (auto simp: into_meta_def Let_def split: option.splits sum.splits)
  then obtain bs where bs: "vr_state row = 1" "row_of_content api U chunks row bs" using assms(1) by (auto simp: version_ok_def)
  then show "vr_state row = 1" by simp
  show "vr_content_hash row = Some (hash_bytes (sig_hash sig))"
    using assms(2,3) bs by (auto simp: into_meta_def row_of_content_def Let_def split: option.splits)
qed

lemma find_or_record_holds:
  assumes api: "api_ok (dk_store d)" "no_collisions (dk_store d) U" and ok: "stored_ok (dk_store d) U ap" "content_ok (dk_store d) U bs"
    and con: "consistent (dk_store d) (hs_db (ap_store ap)) p v sig" and hash: "sig_hash sig = sa_blake3 (dk_store d) bs"
    and run: "find_or_record d ap p (Present sig) v (CapPresent bs) l = Inr (ap', r)"
  shows "\<exists>i. r = Some i \<and> holds (dk_store d) (hs_db (ap_store ap')) p bs i"
proof -
  obtain metas where metas: "log_of (dk_store d) (ap_store ap) p = Inr metas"
    using run by (auto simp: find_or_record_def Let_def split: sum.splits)
  let ?P = "\<lambda>m. vm_clock m = v \<and> same_state (vm_state m) (Present sig)"
  show ?thesis
  proof (cases "List.find ?P metas")
    case None
    then show ?thesis using run metas store_version_holds [OF api ok con hash]
      by (auto simp: find_or_record_def Let_def map_sum_def apsnd_def split: sum.splits)
  next
    case (Some m)
    then have m: "m \<in> set metas" "?P m" by (auto simp: find_Some_iff)
    obtain row where row: "row \<in> set (db_versions (hs_db (ap_store ap)))" "vr_path row = as_str p"
        "into_meta (dk_store d) (hs_has_exec (ap_store ap)) row = Inr m"
      using log_row [OF metas m(1)] by blast
    have wf: "db_wf (dk_store d) U (hs_db (ap_store ap))" using ok(1) by (simp add: stored_ok_def)
    have st: "vr_state row = 1" "vr_content_hash row = Some (hash_bytes (sa_blake3 (dk_store d) bs))" "vm_id m = vr_id row"
      using into_meta_present [OF _ row(3)] wf row(1) m(2) hash by (auto simp: db_wf_def)
    have "holds (dk_store d) (hs_db (ap_store ap)) p bs (vr_id row)"
      using row_holds [OF api(1) _ wf row(1,2) st(1,2) ok(2)] api(2) by (simp add: no_collisions_def)
    then show ?thesis using run metas Some st(3) by (auto simp: find_or_record_def Let_def)
  qed
qed


lemma conflict_capture_keeps:
  assumes "record_conflict_capture d ap c = Inr (ap', r)" "api_ok (dk_store d)" "stored_ok (dk_store d) U ap"
    and "\<forall>bs. cc_loser_bytes c = CapPresent bs \<longrightarrow> content_ok (dk_store d) U bs"
    and "\<forall>bs. cc_winner_bytes c = CapPresent bs \<longrightarrow> content_ok (dk_store d) U bs"
  shows "keeps (dk_store d) U ap ap'"
    and "\<exists>ap1 los ap2 win. find_or_record d ap (cc_path c) (cc_loser c) (cc_loser_version c) (cc_loser_bytes c) (cc_loser_is_local c) = Inr (ap1, los) \<and>
      find_or_record d ap1 (cc_path c) (cc_winner c) (cc_winner_version c) (cc_winner_bytes c) (cc_winner_is_local c) = Inr (ap2, win) \<and>
      keeps (dk_store d) U ap ap1 \<and> keeps (dk_store d) U ap1 ap2 \<and> keeps (dk_store d) U ap2 ap'"
proof -
  obtain ap1 los where 1: "find_or_record d ap (cc_path c) (cc_loser c) (cc_loser_version c) (cc_loser_bytes c) (cc_loser_is_local c) = Inr (ap1, los)"
    using assms(1) by (auto simp: record_conflict_capture_def split: sum.splits)
  obtain ap2 win where 2: "find_or_record d ap1 (cc_path c) (cc_winner c) (cc_winner_version c) (cc_winner_bytes c) (cc_winner_is_local c) = Inr (ap2, win)"
    using assms(1) 1 by (auto simp: record_conflict_capture_def split: sum.splits)
  have k1: "keeps (dk_store d) U ap ap1" by (rule find_or_record_keeps [OF 1 assms(2,3,4)])
  have k2: "keeps (dk_store d) U ap1 ap2" by (rule find_or_record_keeps [OF 2 assms(2) keepsD [OF k1] assms(5)])
  have ok2: "stored_ok (dk_store d) U ap2" by (rule keepsD [OF k2])
  have k3: "keeps (dk_store d) U ap2 ap'"
  proof (cases "win = None \<or> los = None")
    case True
    then show ?thesis using assms(1) 1 2 keeps_refl [OF ok2]
      by (cases win; cases los) (auto simp: record_conflict_capture_def)
  next
    case False
    then obtain wi li where wl: "win = Some wi" "los = Some li" by auto
    obtain db i where rc: "record_conflict (dk_store d) (hs_db (ap_store ap2)) (cc_path c) wi li (dk_wall_ms d) = Inr (db, i)"
      and ap': "ap' = ap2\<lparr>ap_store := (ap_store ap2)\<lparr>hs_db := db\<rparr>, ap_conflicts_recorded := ap_conflicts_recorded ap2 + 1\<rparr>"
      using assms(1) 1 2 wl by (auto simp: record_conflict_capture_def split: sum.splits)
    have "db_wf (dk_store d) U (hs_db (ap_store ap2))" using ok2 by (simp add: stored_ok_def)
    from record_conflict_wf [OF this rc] ok2 ap' show ?thesis by (simp add: keeps_def stored_ok_def)
  qed
  show "keeps (dk_store d) U ap ap'" by (rule keeps_trans [OF k1 keeps_trans [OF k2 k3]])
  show "\<exists>ap1 los ap2 win. find_or_record d ap (cc_path c) (cc_loser c) (cc_loser_version c) (cc_loser_bytes c) (cc_loser_is_local c) = Inr (ap1, los) \<and>
      find_or_record d ap1 (cc_path c) (cc_winner c) (cc_winner_version c) (cc_winner_bytes c) (cc_winner_is_local c) = Inr (ap2, win) \<and>
      keeps (dk_store d) U ap ap1 \<and> keeps (dk_store d) U ap1 ap2 \<and> keeps (dk_store d) U ap2 ap'"
    using 1 2 k1 k2 k3 by blast
qed

section \<open>Tree operations\<close>

lemma file_bytes_insert [simp]:
  "file_bytes (bm_insert a DirNode t) p = (if p = a then None else file_bytes t p)"
  "file_bytes (bm_insert a (FileNode bs x m) t) p = (if p = a then Some bs else file_bytes t p)"
  by (simp_all add: file_bytes_def)

lemma file_bytes_remove [simp]: "file_bytes (bm_remove a t) p = (if p = a then None else file_bytes t p)"
  by (simp add: file_bytes_def)

lemma create_dir_all_files: "create_dir_all t as = Some t' \<Longrightarrow> file_bytes t' p = Some bs \<Longrightarrow> file_bytes t p = Some bs"
  by (induction t as rule: create_dir_all.induct) (auto simp: split: option.splits node.splits if_splits)

lemma prune_dirs_files: "file_bytes (prune_dirs t as) p = file_bytes t p"
  by (induction t as rule: prune_dirs.induct) (auto simp: path_is_dir_def file_bytes_def)

lemma install_batch_files:
  "install_batch m t is = Inr t' \<Longrightarrow> file_bytes t' p = Some bs \<Longrightarrow> file_bytes t p = Some bs \<or> (\<exists>i \<in> set is. pi_bytes i = bs)"
proof (induction "is" arbitrary: t)
  case (Cons i "is")
  let ?t = "bm_insert (pi_path i) (FileNode (pi_bytes i) (sig_exec (pi_sig i)) m) t"
  have "install_batch m ?t is = Inr t'" using Cons.prems(1) by (simp add: install_one_def split: if_splits)
  from Cons.IH [OF this Cons.prems(2)] show ?case by (auto split: if_splits)
qed simp

lemma flush_keeps:
  assumes "flush_installs d ap = Inr (ap', out)" "stored_ok api U ap"
  shows "keeps api U ap ap'"
  using assms install_batch_files
  by (auto simp: flush_installs_def keeps_def stored_ok_def abandon_pending_installs_def list_all_iff split: if_splits sum.splits) blast

lemma flush_for_keeps:
  "flush_pending_install_for d ap p = Inr (ap', out) \<Longrightarrow> stored_ok api U ap \<Longrightarrow> keeps api U ap ap'"
  by (auto simp: flush_pending_install_for_def split: if_splits intro: flush_keeps keeps_refl)

lemma stage_present_files:
  "stage_present b d t dirs p sig bs = (t', dirs', r) \<Longrightarrow> file_bytes t' q = Some c \<Longrightarrow> file_bytes t q = Some c"
  by (auto simp: stage_present_def Let_def split: if_splits option.splits stage_outcome.splits dest: create_dir_all_files)

lemma write_present_keeps:
  assumes "write_present w d ap p sig bs = Inr (ap', out)" "stored_ok api U ap" "content_ok api U bs"
  shows "keeps api U ap ap'"
proof -
  obtain ap1 xs where 1: "flush_pending_install_for d ap p = Inr (ap1, xs)"
    using assms(1) by (auto simp: write_present_def and_then_Inr)
  have k1: "keeps api U ap ap1" by (rule flush_for_keeps [OF 1 assms(2)])
  have ok: "stored_ok api U ap1" by (rule keepsD [OF k1])
  obtain t dirs r where st: "stage_present (w_blake3 w) d (ap_tree ap1) (ss_created_dirs (ap_session ap1)) p sig bs = (t, dirs, r)"
    using prod_cases3 by blast
  have files: "file_bytes t q = Some c \<Longrightarrow> content_ok api U c" for q c
    using stage_present_files [OF st] stored_ok_file [OF ok] by blast
  have "keeps api U ap1 ap'" using assms(1) 1 st ok assms(3) files
    by (auto simp: write_present_def and_then_Inr keeps_def stored_ok_def note_disk_full_def Let_def split: stage_result.splits)
  then show ?thesis by (rule keeps_trans [OF k1])
qed

lemma content_by_hash_ok:
  assumes "api_ok api" "inj_on (sa_blake3 api) U" "db_wf api U db" "content_by_hash api db h = Inr (Some bs)"
  shows "content_ok api U bs"
proof -
  obtain v vs where v: "rev (filter (\<lambda>v. vr_state v = 1 \<and> vr_content_hash v = Some (hash_bytes h)) (db_versions db)) = v # vs"
      "get_content api db (vr_id v) = Inr bs"
    using assms(4) by (auto simp: content_by_hash_def split: list.splits sum.splits)
  have "v \<in> set (v # vs)" by simp
  then have mem: "v \<in> set (db_versions db)" "vr_state v = 1" unfolding v(1) [symmetric] by simp_all
  then obtain b where b: "row_of_content api U (db_chunks db) v b" using assms(3) by (auto simp: db_wf_def version_ok_def)
  then have "b = bs" using get_content_row [OF assms(1-3) mem b] v(2) by simp
  with b show ?thesis by (simp add: row_of_content_def)
qed

lemma frame_or_cas_ok:
  assumes "frame_or_cas w d ap sig rb = Inr (Some bs)" "api_ok (dk_store d)" "inj_on (sa_blake3 (dk_store d)) U"
    and "stored_ok (dk_store d) U ap" "pred_option (content_ok (dk_store d) U) rb"
  shows "content_ok (dk_store d) U bs"
proof -
  have "content_ok (dk_store d) U bs" if "map_sum HistoryFailed id (content_by_hash (dk_store d) (hs_db (ap_store ap)) (sig_hash sig)) = Inr (Some bs)"
    using that assms(2-4) by (auto simp: map_sum_def stored_ok_def split: sum.splits intro: content_by_hash_ok)
  then show ?thesis using assms(1,5) by (auto simp: frame_or_cas_def Let_def split: option.splits if_splits)
qed

lemma present_if_absent_keeps:
  assumes "record_present_if_absent d ap p sig v bs l = Inr (ap', out)" "api_ok (dk_store d)" "stored_ok (dk_store d) U ap"
    and "content_ok (dk_store d) U bs"
  shows "keeps (dk_store d) U ap ap'"
  using assms(1,4) keeps_refl [OF assms(3)]
  by (auto simp: record_present_if_absent_def split: sum.splits if_splits intro: store_capture_keeps [OF _ assms(2,3)])

lemma keeps_tree:
  "keeps api U ap ap' \<Longrightarrow> (\<And>q c. file_bytes t q = Some c \<Longrightarrow> content_ok api U c) \<Longrightarrow> keeps api U ap (ap'\<lparr>ap_tree := t\<rparr>)"
  by (simp add: keeps_def stored_ok_def)

lemma prepare_target_keeps:
  assumes "prepare_present_target w d ap p sig rb = Inr (ap', go)" "api_ok (dk_store d)" "inj_on (sa_blake3 (dk_store d)) U"
    and "stored_ok (dk_store d) U ap" "pred_option (content_ok (dk_store d) U) rb"
  shows "keeps (dk_store d) U ap ap'"
proof -
  have incoming: "keeps (dk_store d) U ap a" if "preserve_incoming_file w d ap p sig rb = Inr (a, xs)" for a xs
    using that keeps_refl [OF assms(4)]
    by (auto simp: preserve_incoming_file_def split: sum.splits option.splits
        intro: present_if_absent_keeps [OF _ assms(2,4)] dest: frame_or_cas_ok [OF _ assms(2-5)])
  have clear: "keeps (dk_store d) U ap a" if "preserve_and_clear_obstructing_file w d ap anc = Inr (a, b)" for a anc b
  proof -
    have disk: "read_verified (w_blake3 w) (ap_tree ap) anc s = Some bs \<Longrightarrow> content_ok (dk_store d) U bs" for s bs
      using stored_ok_file [OF assms(4)] by (auto simp: read_verified_Some)
    have drop: "keeps (dk_store d) U ap (a\<lparr>ap_tree := bm_remove anc (ap_tree a)\<rparr>)" if "keeps (dk_store d) U ap a" for a
      using that stored_ok_file [OF keepsD [OF that]] by (intro keeps_tree) (auto split: if_splits)
    show ?thesis using that keeps_refl [OF assms(4)]
      by (auto simp: preserve_and_clear_obstructing_file_def Let_def split: sum.splits option.splits if_splits
          intro!: drop intro: present_if_absent_keeps [OF _ assms(2,4)] disk)
  qed
  show ?thesis using assms(1) keeps_refl [OF assms(4)]
    by (auto simp: prepare_present_target_def split: option.splits type_collision_kind.splits sum.splits
        intro: keeps_rescan dest: incoming clear)
qed

section \<open>Executing actions\<close>

lemma set_exec_files: "file_bytes (set_exec_mode t p x) q = file_bytes t q"
  by (auto simp: set_exec_mode_def split: option.splits node.splits) (simp add: file_bytes_def)

lemma apply_present_keeps:
  assumes "apply_present_by_sig w d ap p sig rb = Inr (ap', out)" "api_ok (dk_store d)" "inj_on (sa_blake3 (dk_store d)) U"
    and "stored_ok (dk_store d) U ap" "pred_option (content_ok (dk_store d) U) rb"
  shows "keeps (dk_store d) U ap ap'"
proof -
  obtain ap1 go where 1: "prepare_present_target w d ap p sig rb = Inr (ap1, go)"
    using assms(1) by (auto simp: apply_present_by_sig_def split: sum.splits)
  have k1: "keeps (dk_store d) U ap ap1" by (rule prepare_target_keeps [OF 1 assms(2-5)])
  note ok = keepsD [OF k1]
  show ?thesis
  proof (cases go)
    case True
    let ?fm = "case rb of None \<Rightarrow> False | Some bs \<Rightarrow> matches_sig (w_blake3 w) bs sig"
    let ?dm = "\<not> ?fm \<and> read_verified (w_blake3 w) (ap_tree ap1) p sig \<noteq> None"
    obtain cas where cas: "(if ?fm \<or> ?dm then Inr None else content_by_hash (dk_store d) (hs_db (ap_store ap1)) (sig_hash sig)) = Inr cas"
      using assms(1) 1 True by (auto simp: apply_present_by_sig_def Let_def split: sum.splits)
    have wf: "db_wf (dk_store d) U (hs_db (ap_store ap1))" using ok by (simp add: stored_ok_def)
    have cas_ok: "cas = Some bs \<Longrightarrow> content_ok (dk_store d) U bs" for bs
      using cas content_by_hash_ok [OF assms(2,3) wf] by (auto split: if_splits)
    have rb_ok: "rb = Some bs \<Longrightarrow> content_ok (dk_store d) U bs" for bs using assms(5) by simp
    have run: "(case byte_source_of ?fm ?dm (cas \<noteq> None) of
         Frame \<Rightarrow> write_present w d ap1 p sig (case rb of Some bs \<Rightarrow> bs | None \<Rightarrow> [])
       | DiskSkip \<Rightarrow> Inr (ap1\<lparr>ap_tree := set_exec_mode (ap_tree ap1) p (sig_exec sig)\<rparr>, [])
       | Cas \<Rightarrow> write_present w d ap1 p sig (case cas of Some bs \<Rightarrow> bs | None \<Rightarrow> [])
       | Unavailable \<Rightarrow> Inr (rescan_later ap1, [])) = Inr (ap', out)"
      using assms(1) 1 True cas by (simp add: apply_present_by_sig_def Let_def)
    have "keeps (dk_store d) U ap1 ap'"
    proof (cases "byte_source_of ?fm ?dm (cas \<noteq> None)")
      case Frame
      then obtain bs where "rb = Some bs" by (auto simp: byte_source_of_def split: option.splits if_splits)
      then show ?thesis using run Frame rb_ok by (auto intro: write_present_keeps [OF _ ok])
    next
      case DiskSkip
      then show ?thesis using run keeps_tree [OF keeps_refl [OF ok], of "set_exec_mode (ap_tree ap1) p (sig_exec sig)"]
          stored_ok_file [OF ok] by (auto simp: set_exec_files)
    next
      case Cas
      then obtain bs where "cas = Some bs" by (auto simp: byte_source_of_def split: if_splits)
      then show ?thesis using run Cas cas_ok by (auto intro: write_present_keeps [OF _ ok])
    next
      case Unavailable
      then show ?thesis using run keeps_rescan [OF keeps_refl [OF ok]] by auto
    qed
    then show ?thesis by (rule keeps_trans [OF k1])
  qed (use assms(1) 1 k1 in \<open>simp add: apply_present_by_sig_def\<close>)
qed

lemma apply_absent_keeps:
  assumes "apply_absent_guarded d ap p = Inr (ap', out)" "stored_ok api U ap"
  shows "keeps api U ap ap'"
proof -
  obtain ap1 xs where 1: "flush_pending_install_for d ap p = Inr (ap1, xs)"
    using assms(1) by (auto simp: apply_absent_guarded_def and_then_Inr)
  have k1: "keeps api U ap ap1" by (rule flush_for_keeps [OF 1 assms(2)])
  have "keeps api U ap1 ap'" using assms(1) 1 keepsD [OF k1]
    by (auto simp: apply_absent_guarded_def and_then_Inr Let_def keeps_def stored_ok_def prune_empty_parents_def prune_dirs_files
        split: if_splits)
  then show ?thesis by (rule keeps_trans [OF k1])
qed

lemma prepare_send_installs: "ss_pending_installs (fst (prepare_send w s c)) = ss_pending_installs s"
  by (auto simp: prepare_send_def session_allows_def build_manifest_def Let_def split: prod.splits bool.splits change_kind.splits)

lemma abandon_installs [simp]: "ss_pending_installs (suspend_transfers s) = []"
  by (simp add: suspend_transfers_def abandon_pending_installs_def)

lemma do_send_installs:
  "do_send w s c = Inr (s', es) \<Longrightarrow> ss_pending_installs s' = ss_pending_installs s \<or> ss_pending_installs s' = []"
  using prepare_send_installs [of w s c]
  by (auto simp: do_send_def send_prepared_def send_def go_offline_def split: prod.splits option.splits if_splits)

lemma send_keeps:
  "on_session ap (do_send w (ap_session ap) c) = Inr (ap', out) \<Longrightarrow> stored_ok api U ap \<Longrightarrow> keeps api U ap ap'"
  by (auto simp: on_session_def keeps_def stored_ok_def split: sum.splits dest: do_send_installs)

lemma do_apply_keeps:
  assumes "do_apply w d ap p target rb = Inr (ap', out)" "api_ok (dk_store d)" "inj_on (sa_blake3 (dk_store d)) U"
    and "stored_ok (dk_store d) U ap" "pred_option (content_ok (dk_store d) U) rb"
  shows "keeps (dk_store d) U ap ap'"
  using assms apply_present_keeps [OF _ assms(2-5)] apply_absent_keeps [OF _ assms(4)]
  by (auto simp: do_apply_def split: expectation.splits)

definition capture_ok :: "store_api \<Rightarrow> bytes set \<Rightarrow> conflict_capture \<Rightarrow> bool" where
  "capture_ok api U c \<longleftrightarrow> (\<forall>bs. cc_loser_bytes c = CapPresent bs \<longrightarrow> content_ok api U bs) \<and>
     (\<forall>bs. cc_winner_bytes c = CapPresent bs \<longrightarrow> content_ok api U bs)"

lemma execute_actions_keeps:
  assumes "api_ok (dk_store d)" "inj_on (sa_blake3 (dk_store d)) U" "pred_option (content_ok (dk_store d) U) rb"
  shows "execute_actions w d rb rv cvs caps ap as = Inr (ap', out) \<Longrightarrow> stored_ok (dk_store d) U ap \<Longrightarrow>
    list_all (capture_ok (dk_store d) U) caps \<Longrightarrow> keeps (dk_store d) U ap ap'"
proof (induction as arbitrary: ap caps out)
  case Nil
  then show ?case by (simp add: keeps_refl)
next
  case (Cons a as)
  have later: "keeps (dk_store d) U ap ap'"
    if "keeps (dk_store d) U ap ap1" "execute_actions w d rb rv cvs cs ap1 as = Inr (ap', o1)"
      "list_all (capture_ok (dk_store d) U) cs" for ap1 cs o1
    by (rule keeps_trans [OF that(1) Cons.IH [OF that(2) keepsD [OF that(1)] that(3)]])
  show ?case
  proof (cases a)
    case (Send c)
    then show ?thesis using Cons.prems by (auto simp: and_then_Inr intro: later dest: send_keeps [OF _ Cons.prems(2)])
  next
    case (Apply p t)
    then show ?thesis using Cons.prems
      by (auto simp: and_then_Inr intro: later dest: do_apply_keeps [OF _ assms(1,2) Cons.prems(2) assms(3)])
  next
    case (RecordVersion p s v)
    then show ?thesis using Cons.prems keeps_refl [OF Cons.prems(2)]
      by (auto simp: and_then_Inr split: if_splits intro: later dest: note_version_keeps [OF assms(1) Cons.prems(2)])
  next
    case (ConflictResolved p win wv los lv ad)
    then obtain c cs ap1 r where c: "caps = c # cs" "record_conflict_capture d ap c = Inr (ap1, r)"
        "execute_actions w d rb rv cvs cs (ap1\<lparr>ap_conflicts := insert p (ap_conflicts ap1)\<rparr>) as = Inr (ap', out)"
      using Cons.prems(1) by (auto split: list.splits sum.splits)
    have "keeps (dk_store d) U ap ap1"
      by (rule conflict_capture_keeps(1) [OF c(2) assms(1) Cons.prems(2)]) (use Cons.prems(3) c(1) in \<open>simp_all add: capture_ok_def\<close>)
    then have "keeps (dk_store d) U ap (ap1\<lparr>ap_conflicts := insert p (ap_conflicts ap1)\<rparr>)" by (simp add: keeps_def stored_ok_def)
    then show ?thesis by (rule later [OF _ c(3)]) (use Cons.prems(3) c(1) in simp)
  qed
qed

section \<open>Identities stay consistent\<close>

lemma inserted_accepted: "insert_version api db r = Inr x \<Longrightarrow> accepted api r"
  by (auto simp: insert_version_def prepare_version_def accepted_def verify_sig_def store_chunks_def
      split: entry_state.splits option.splits sum.splits prod.splits if_splits)

lemma insert_row_rows: "insert_row db row = (db', i) \<Longrightarrow> set (db_versions db') \<subseteq> insert row (set (db_versions db))"
  by (auto simp: insert_row_def split: option.splits if_splits)

lemma store_version_consistent:
  assumes "api_ok (dk_store d)" "stored_ok (dk_store d) U ap" "\<forall>b. bs = Some b \<longrightarrow> content_ok (dk_store d) U b"
    and run: "store_version d ap (capture_record d ap p st v l bs) = Inr (ap', i)"
    and con: "consistent (dk_store d) (hs_db (ap_store ap)) q u sig"
    and agree: "\<And>s. st = Present s \<Longrightarrow> p = q \<Longrightarrow> sa_clock_enc (dk_store d) v = sa_clock_enc (dk_store d) u \<Longrightarrow> sig_hash s = sig_hash sig"
  shows "consistent (dk_store d) (hs_db (ap_store ap')) q u sig"
proof -
  let ?r = "capture_record d ap p st v l bs"
  have r: "record_ok (dk_store d) U ?r" using assms(3) by (intro record_ok_capture) simp
  have wf: "db_wf (dk_store d) U (hs_db (ap_store ap))" using assms(2) by (simp add: stored_ok_def)
  obtain db' where ins: "insert_version (dk_store d) (hs_db (ap_store ap)) ?r = Inr (db', i)" and db': "hs_db (ap_store ap') = db'"
    using run by (auto simp: store_version_def record_version_def split: sum.splits)
  have acc: "accepted (dk_store d) ?r" by (rule inserted_accepted [OF ins])
  obtain db1 row where 1: "insert_row db1 row = (db', i)" "db_versions db1 = db_versions (hs_db (ap_store ap))"
    "vr_path row = as_str p" "vr_clock row = sa_clock_enc (dk_store d) v" "vr_state row = (case st of Tombstone \<Rightarrow> 0 | Present _ \<Rightarrow> 1)"
    "\<forall>s b. st = Present s \<longrightarrow> bs = Some b \<longrightarrow> row_of_content (dk_store d) U (db_chunks db1) row b"
    by (rule insert_version_effect [OF assms(1) wf r ins]) (simp add: capture_record_def)
  have "vr_content_hash row = Some (hash_bytes (sig_hash sig))"
    if eq: "vr_path row = as_str q" "vr_state row = 1" "vr_clock row = sa_clock_enc (dk_store d) u"
  proof (cases st)
    case (Present s)
    then obtain b where b: "bs = Some b" "sa_blake3 (dk_store d) b = sig_hash s"
      using acc by (auto simp: accepted_def capture_record_def split: option.splits)
    have "p = q" using eq(1) 1(3) by (simp add: relpath.expand)
    then have "sig_hash s = sig_hash sig" using agree [OF Present] eq(3) 1(4) by simp
    then show ?thesis using 1(6) Present b by (simp add: row_of_content_def)
  qed (use eq(2) 1(5) in simp)
  then show ?thesis using insert_row_rows [OF 1(1)] con 1(2) unfolding consistent_def list_all_iff db' by auto
qed

lemma find_or_record_consistent:
  assumes "find_or_record d ap p st v c l = Inr (ap', r)" "api_ok (dk_store d)" "stored_ok (dk_store d) U ap"
    and "\<forall>bs. c = CapPresent bs \<longrightarrow> content_ok (dk_store d) U bs" "consistent (dk_store d) (hs_db (ap_store ap)) q u sig"
    and "\<And>s. st = Present s \<Longrightarrow> p = q \<Longrightarrow> sa_clock_enc (dk_store d) v = sa_clock_enc (dk_store d) u \<Longrightarrow> sig_hash s = sig_hash sig"
  shows "consistent (dk_store d) (hs_db (ap_store ap')) q u sig"
  using assms(1)
proof (cases rule: find_or_record_cases)
  case (2 bs i)
  show ?thesis by (rule store_version_consistent [OF assms(2,3) _ 2(2) assms(5,6)]) (use 2(1) assms(4) in auto)
qed (use assms(5) in simp)

section \<open>Conflict losers are preserved\<close>

definition capture_of ::
    "('g, 's, 'e) world \<Rightarrow> tree \<Rightarrow> bytes option \<Rightarrow> vector_clock option \<Rightarrow> relpath \<Rightarrow> head \<Rightarrow> bool \<Rightarrow> head \<Rightarrow> conflict_capture" where
  "capture_of w t rb rv p win ad h =
     \<lparr>cc_path = p, cc_winner = hd_state win, cc_winner_version = hd_version win, cc_winner_is_local = (rv \<noteq> Some (hd_version win)),
      cc_winner_bytes = capture_conflict_bytes (w_blake3 w) t p (hd_state win) rb,
      cc_loser = hd_state h, cc_loser_version = hd_version h, cc_loser_is_local = (rv \<noteq> Some (hd_version h)),
      cc_loser_bytes = capture_conflict_bytes (w_blake3 w) t p (hd_state h) rb, cc_adopted = ad\<rparr>"

lemma capture_bytes:
  "capture_conflict_bytes b t p st rb = CapPresent bs \<Longrightarrow> \<exists>sig. st = Present sig \<and> matches_sig b bs sig \<and> (rb = Some bs \<or> file_bytes t p = Some bs)"
  by (auto simp: capture_conflict_bytes_def Let_def read_verified_Some split: entry_state.splits option.splits if_splits)

lemma capture_of_ok:
  assumes "stored_ok api U ap" "pred_option (content_ok api U) rb"
  shows "capture_ok api U (capture_of w (ap_tree ap) rb rv p win ad h)"
  using assms(2) stored_ok_file [OF assms(1)] by (auto simp: capture_ok_def capture_of_def dest!: capture_bytes)

text \<open>The versions among some heads of a path are known to the history under their own content
  only.\<close>

definition heads_consistent :: "store_api \<Rightarrow> database \<Rightarrow> relpath \<Rightarrow> head set \<Rightarrow> bool" where
  "heads_consistent api db p hs \<longleftrightarrow>
     (\<forall>h \<in> hs. \<forall>sig. hd_state h = Present sig \<longrightarrow> consistent api db p (hd_version h) sig) \<and>
     (\<forall>h \<in> hs. \<forall>g \<in> hs. sa_clock_enc api (hd_version h) = sa_clock_enc api (hd_version g) \<longrightarrow> hd_state h = hd_state g)"

lemma heads_consistent_mono:
  assumes "heads_consistent api db p hs" "hs' \<subseteq> hs" "db_versions db' = db_versions db"
  shows "heads_consistent api db' p hs'"
proof -
  have "consistent api db' q u sig = consistent api db q u sig" for q u sig using assms(3) by (simp add: consistent_def)
  then show ?thesis using assms(1,2) unfolding heads_consistent_def by (metis subsetD)
qed

lemma find_or_record_heads:
  assumes "find_or_record d ap p (hd_state h) (hd_version h) c l = Inr (ap', r)" "api_ok (dk_store d)" "stored_ok (dk_store d) U ap"
    and "\<forall>bs. c = CapPresent bs \<longrightarrow> content_ok (dk_store d) U bs" "h \<in> hs" "heads_consistent (dk_store d) (hs_db (ap_store ap)) p hs"
  shows "heads_consistent (dk_store d) (hs_db (ap_store ap')) p hs"
  using assms(5,6) find_or_record_consistent [OF assms(1-4)] unfolding heads_consistent_def by (metis entry_state.inject)

lemma conflicts_hold:
  assumes api: "api_ok (dk_store d)" "no_collisions (dk_store d) U" "sa_blake3 (dk_store d) = w_blake3 w"
    and rb: "pred_option (content_ok (dk_store d) U) rb"
    and caps: "\<And>h. capture_ok (dk_store d) U (capture_of w t rb rv p win ad h)"
  shows "execute_actions w d rb rv cvs (map (capture_of w t rb rv p win ad) hs) ap
      (map (\<lambda>h. ConflictResolved p (hd_state win) (hd_version win) (hd_state h) (hd_version h) ad) hs @ rest) = Inr (ap', out) \<Longrightarrow>
    stored_ok (dk_store d) U ap \<Longrightarrow> heads_consistent (dk_store d) (hs_db (ap_store ap)) p (insert win (set hs)) \<Longrightarrow> h \<in> set hs \<Longrightarrow>
    capture_conflict_bytes (w_blake3 w) t p (hd_state h) rb = CapPresent bs \<Longrightarrow>
    \<exists>i. holds (dk_store d) (hs_db (ap_store ap')) p bs i"
proof (induction hs arbitrary: ap)
  case (Cons g hs)
  let ?c = "capture_of w t rb rv p win ad g"
  obtain ap1 r where 1: "record_conflict_capture d ap ?c = Inr (ap1, r)"
    "execute_actions w d rb rv cvs (map (capture_of w t rb rv p win ad) hs) (ap1\<lparr>ap_conflicts := insert p (ap_conflicts ap1)\<rparr>)
      (map (\<lambda>h. ConflictResolved p (hd_state win) (hd_version win) (hd_state h) (hd_version h) ad) hs @ rest) = Inr (ap', out)"
    using Cons.prems(1) by (auto split: sum.splits)
  let ?ap1 = "ap1\<lparr>ap_conflicts := insert p (ap_conflicts ap1)\<rparr>"
  have cap: "\<forall>bs. cc_loser_bytes ?c = CapPresent bs \<longrightarrow> content_ok (dk_store d) U bs"
      "\<forall>bs. cc_winner_bytes ?c = CapPresent bs \<longrightarrow> content_ok (dk_store d) U bs"
    using caps [of g] by (simp_all add: capture_ok_def)
  obtain a los b win' where f: "find_or_record d ap p (hd_state g) (hd_version g) (cc_loser_bytes ?c) (cc_loser_is_local ?c) = Inr (a, los)"
      "find_or_record d a p (hd_state win) (hd_version win) (cc_winner_bytes ?c) (cc_winner_is_local ?c) = Inr (b, win')"
      and k: "keeps (dk_store d) U ap a" "keeps (dk_store d) U a b" "keeps (dk_store d) U b ap1"
    using conflict_capture_keeps(2) [OF 1(1) api(1) Cons.prems(2) cap] by (auto simp: capture_of_def)
  have ok1: "stored_ok (dk_store d) U ?ap1" using keepsD [OF k(3)] by (simp add: stored_ok_def)
  have inj: "inj_on (sa_blake3 (dk_store d)) U" using api(2) by (simp add: no_collisions_def)
  have later: "keeps (dk_store d) U ?ap1 ap'"
    by (rule execute_actions_keeps [OF api(1) inj rb 1(2) ok1]) (simp add: list_all_iff caps)
  show ?case
  proof (cases "h = g")
    case True
    obtain sig where sig: "hd_state g = Present sig" "matches_sig (w_blake3 w) bs sig" using capture_bytes [OF Cons.prems(5)] True by blast
    have ok: "content_ok (dk_store d) U bs" using cap(1) Cons.prems(5) True by (simp add: capture_of_def)
    have cap': "cc_loser_bytes ?c = CapPresent bs" using Cons.prems(5) True by (simp add: capture_of_def)
    have con: "consistent (dk_store d) (hs_db (ap_store ap)) p (hd_version g) sig" and hash: "sig_hash sig = sa_blake3 (dk_store d) bs"
      using Cons.prems(3) sig api(3) by (auto simp: heads_consistent_def matches_sig_def)
    obtain i where i: "holds (dk_store d) (hs_db (ap_store a)) p bs i"
      using find_or_record_holds [OF api(1,2) Cons.prems(2) ok con hash f(1) [unfolded sig(1) cap']] by blast
    have gr: "grows (hs_db (ap_store a)) (hs_db (ap_store ap'))"
      using k(2,3) later by (auto simp: keeps_def intro: grows_trans)
    have "holds (dk_store d) (hs_db (ap_store ap')) p bs i"
      by (rule holds_grows [OF api(1) inj _ _ gr i]) (use k(1) later in \<open>simp_all add: keeps_def stored_ok_def\<close>)
    then show ?thesis by blast
  next
    case False
    have "heads_consistent (dk_store d) (hs_db (ap_store a)) p (insert win (set (g # hs)))"
      by (rule find_or_record_heads [OF f(1) api(1) Cons.prems(2) cap(1) _ Cons.prems(3)]) simp
    from find_or_record_heads [OF f(2) api(1) keepsD [OF k(1)] cap(2) _ this]
    have "heads_consistent (dk_store d) (hs_db (ap_store b)) p (insert win (set (g # hs)))" by simp
    note hc = this
    have "db_versions (hs_db (ap_store ?ap1)) = db_versions (hs_db (ap_store b))"
      using 1(1) f by (auto simp: record_conflict_capture_def record_conflict_def capture_of_def Let_def split: option.splits sum.splits if_splits)
    then have "heads_consistent (dk_store d) (hs_db (ap_store ?ap1)) p (insert win (set hs))"
      by (intro heads_consistent_mono [OF hc]) auto
    from Cons.IH [OF 1(2) ok1 this] Cons.prems(4,5) False show ?thesis by simp
  qed
qed simp

lemma flush_store: "flush_pending_install_for d ap p = Inr (ap', out) \<Longrightarrow> ap_store ap' = ap_store ap"
  by (auto simp: flush_pending_install_for_def flush_installs_def split: if_splits sum.splits)

lemma write_present_store:
  assumes "write_present w d ap p sig bs = Inr (ap', out)"
  shows "ap_store ap' = ap_store ap"
proof -
  obtain ap1 xs where 1: "flush_pending_install_for d ap p = Inr (ap1, xs)"
    using assms by (auto simp: write_present_def and_then_Inr)
  obtain t dirs r where "stage_present (w_blake3 w) d (ap_tree ap1) (ss_created_dirs (ap_session ap1)) p sig bs = (t, dirs, r)"
    using prod_cases3 by blast
  with assms 1 flush_store [OF 1] show ?thesis
    by (auto simp: write_present_def and_then_Inr Let_def split: stage_result.splits)
qed

lemma do_apply_store:
  assumes "do_apply w d ap p target rb = Inr (ap', out)" "type_collision (ap_tree ap) p = None"
  shows "ap_store ap' = ap_store ap"
proof (cases target)
  case (ExpPresent sig)
  then show ?thesis using assms
    by (auto simp: do_apply_def apply_present_by_sig_def prepare_present_target_def Let_def
        split: sum.splits byte_source.splits dest: write_present_store)
next
  case ExpAbsent
  then show ?thesis using assms
    by (auto simp: do_apply_def apply_absent_guarded_def and_then_Inr Let_def split: if_splits dest: flush_store)
qed

text \<open>The actions of a remote change: an apply, the conflicts, the version.\<close>

lemma remote_actions:
  assumes "handle e (Remote c) = Some (e', actions)" "ConflictResolved p win wv los lv ad \<in> set actions"
  obtains entry w A R where "index_get (eng_index e') p = Some entry" "p = rc_path c"
    "actions = A @ conflict_actions p entry w @ R" "A = [] \<or> (\<exists>t. A = [Apply p t])" "\<exists>s v. set R \<subseteq> {RecordVersion p s v}"
    "w \<in> set (heads entry)"
proof (cases "index_get (eng_index e) (rc_path c)")
  case None
  then show ?thesis using assms
    by (auto simp: handle_def handle_remote_def absorb_remote_def remote_unseen_def emit_apply_def Let_def split: entry_state.splits)
next
  case (Some entry0)
  let ?s = "state_from_kind (rc_kind c)"
  obtain entry changed conflict novel w where x: "absorb entry0 (rc_version c) ?s = Some (entry, Absorbed changed conflict novel)" "winner entry = Some w"
    using assms Some by (auto simp: handle_def handle_remote_def absorb_remote_def split: bind_splits absorb_outcome.splits)
  let ?A = "if changed then [Apply (rc_path c) (expectation_from_state (hd_state w))] else []"
  let ?R = "if novel then [RecordVersion (rc_path c) ?s (rc_version c)] else []"
  have act: "actions = ?A @ (if conflict then conflict_actions (rc_path c) entry w else []) @ ?R"
      "index_get (eng_index e') (rc_path c) = Some entry"
    using assms(1) Some x by (auto simp: handle_def handle_remote_def absorb_remote_def emit_apply_def Let_def index_get_put split: if_splits)
  have p: "conflict" "p = rc_path c" using assms(2) act(1) by (auto simp: conflict_actions_def split: if_splits)
  show ?thesis
    by (rule that [of entry ?A w ?R]) (use act p winner_mem [OF x(2)] in auto)
qed

lemma captures_of_conflicts:
  "captures_of w t rb rv (A @ conflict_actions p entry win @ R) = captures_of w t rb rv A @
     map (capture_of w t rb rv p win (adoption_mode entry)) (filter (\<lambda>h. \<not> head_eq h win) (heads entry)) @ captures_of w t rb rv R"
  by (simp add: captures_of_def conflict_actions_def comp_def capture_of_def concat_map_singleton)

lemma captures_none: "A = [] \<or> (\<exists>t. A = [Apply p t]) \<Longrightarrow> captures_of w t rb rv A = []"
  "set R \<subseteq> {RecordVersion p s v} \<Longrightarrow> captures_of w t rb rv R = []"
  by (auto simp: captures_of_def)

lemma same_sig_same_bytes:
  assumes "no_collisions api U" "sa_blake3 api = b" "content_ok api U bs" "content_ok api U bs'"
    and "matches_sig b bs sig" "matches_sig b bs' sig"
  shows "bs = bs'"
proof -
  have "inj_on (sa_blake3 api) {b. content_ok api U b}" "sa_blake3 api bs = sa_blake3 api bs'"
    using assms by (simp_all add: no_collisions_def matches_sig_def)
  then show ?thesis by (rule inj_onD) (use assms(3,4) in simp_all)
qed

text \<open>C12: No conflict loses content. Let the session absorb a remote change and execute the engine's
  actions, at a path where no directory stands in the way. For every conflict they resolve, a
  losing head whose bytes are at hand (in the frame that carried the change or in the file the
  winner is about to overwrite) is in the history when the batch is done: some version of the
  path reads back as exactly these bytes. The capture happens before the apply of the same
  batch, whatever the order of the actions. Relied on: the history holds no other content under
  the clocks of the path's heads, and BLAKE3 has no collision among the contents met.\<close>

theorem conflict_losers_preserved:
  assumes api: "api_ok (dk_store d)" "no_collisions (dk_store d) U" "sa_blake3 (dk_store d) = w_blake3 w"
    and ok: "stored_ok (dk_store d) U ap" "pred_option (content_ok (dk_store d) U) rb"
    and ev: "handle (eng ap) (Remote c) = Some (e', actions)"
    and con: "\<And>entry. index_get (eng_index e') (rc_path c) = Some entry \<Longrightarrow>
      heads_consistent (dk_store d) (hs_db (ap_store ap)) (rc_path c) (set (heads entry))"
    and dir: "type_collision (ap_tree ap) (rc_path c) = None"
    and run: "with_engine w d ap (handle (eng ap) (Remote c)) rb (Some (rc_version c)) = Inr (ap', out)"
    and conf: "ConflictResolved p win wv (Present sig) lv ad \<in> set actions"
    and bytes: "matches_sig (w_blake3 w) bs sig" "rb = Some bs \<or> file_bytes (ap_tree ap) p = Some bs"
  shows "\<exists>i. holds (dk_store d) (hs_db (ap_store ap')) p bs i"
proof -
  obtain entry m A R where e: "index_get (eng_index e') p = Some entry" "p = rc_path c"
    "actions = A @ conflict_actions p entry m @ R" and A: "A = [] \<or> (\<exists>t. A = [Apply p t])"
    and R: "\<exists>s v. set R \<subseteq> {RecordVersion p s v}" and m: "m \<in> set (heads entry)"
    by (rule remote_actions [OF ev conf])
  let ?ap = "ap\<lparr>ap_session := (ap_session ap)\<lparr>ss_engine := e'\<rparr>\<rparr>" and ?rv = "Some (rc_version c)"
  let ?hs = "filter (\<lambda>h. \<not> head_eq h m) (heads entry)" and ?ad = "adoption_mode entry"
  let ?caps = "map (capture_of w (ap_tree ap) rb ?rv p m ?ad) ?hs"
  have C: "conflict_actions p entry m =
      map (\<lambda>h. ConflictResolved p (hd_state m) (hd_version m) (hd_state h) (hd_version h) ?ad) ?hs"
    by (simp add: conflict_actions_def)
  from R obtain s v where R': "set R \<subseteq> {RecordVersion p s v}" by blast
  have caps: "captures_of w (ap_tree ap) rb ?rv actions = ?caps"
    unfolding e(3) captures_of_conflicts captures_none(1) [OF A] captures_none(2) [OF R'] by simp
  obtain cvs where run': "execute_actions w d rb ?rv cvs ?caps ?ap (A @ conflict_actions p entry m @ R) = Inr (ap', out)"
    using run caps unfolding with_engine_def ev execute_def Let_def e(3) by auto
  have ok': "stored_ok (dk_store d) U ?ap" using ok(1) by (simp add: stored_ok_def)
  have inj: "inj_on (sa_blake3 (dk_store d)) U" using api(2) by (simp add: no_collisions_def)
  obtain ap1 o1 where 1: "execute_actions w d rb ?rv cvs ?caps ap1 (conflict_actions p entry m @ R) = Inr (ap', o1)"
      "stored_ok (dk_store d) U ap1" "ap_store ap1 = ap_store ap"
  proof (cases "A = []")
    case False
    then obtain t ap1 o1 o2 where t: "do_apply w d ?ap p t rb = Inr (ap1, o2)"
        "execute_actions w d rb ?rv cvs ?caps ap1 (conflict_actions p entry m @ R) = Inr (ap', o1)"
      using A run' by (auto simp: and_then_Inr)
    show ?thesis
      by (rule that [OF t(2) keepsD [OF do_apply_keeps [OF t(1) api(1) inj ok' ok(2)]]])
        (use do_apply_store [OF t(1)] dir e(2) in simp)
  qed (use run' ok' that in simp)
  obtain h where h: "h \<in> set ?hs" "hd_state h = Present sig"
    using conf A R unfolding e(3) C by fastforce
  have "capture_conflict_bytes (w_blake3 w) (ap_tree ap) p (Present sig) rb \<noteq> CapUnobtainable"
    using bytes by (auto simp: capture_conflict_bytes_def read_verified_def Let_def split: option.splits)
  then obtain bs' where cap: "capture_conflict_bytes (w_blake3 w) (ap_tree ap) p (hd_state h) rb = CapPresent bs'"
    unfolding h(2) by (cases "capture_conflict_bytes (w_blake3 w) (ap_tree ap) p (Present sig) rb")
      (auto simp: capture_conflict_bytes_def Let_def split: option.splits if_splits)
  have "bs = bs'" using capture_bytes [OF cap] h(2) bytes ok stored_ok_file [OF ok(1)]
    by (intro same_sig_same_bytes [OF api(2,3) _ _ bytes(1)]) auto
  moreover have "heads_consistent (dk_store d) (hs_db (ap_store ap1)) p (insert m (set ?hs))"
    by (rule heads_consistent_mono [OF con [OF e(1) [unfolded e(2)], folded e(2)]]) (use m 1(3) in auto)
  ultimately show ?thesis
    using conflicts_hold [OF api ok(2) capture_of_ok [OF ok] 1(1) [unfolded C] 1(2) _ h(1) cap] by simp
qed

section \<open>Demonstration\<close>

definition demo_api2 :: store_api where
  "demo_api2 = demo_api\<lparr>sa_clock_enc := (\<lambda>v. if v = demo_clock 1 then [1] else [2]),
     sa_clock_dec := (\<lambda>bs. Some (if bs = [1] then demo_clock 1 else demo_clock 2))\<rparr>"

definition demo_disk :: disk_api where
  "demo_disk = \<lparr>dk_store = demo_api2, dk_refused = (\<lambda>_. False), dk_stage = (\<lambda>_. StageOk), dk_resample = (\<lambda>_. None),
     dk_mark_fails = (\<lambda>_. False), dk_now_ms = 0, dk_wall_ms = 0, dk_mtime_ms = 0\<rparr>"

definition demo_applier :: "index \<Rightarrow> tree \<Rightarrow> history_mode \<Rightarrow> string list applier" where
  "demo_applier idx t m = \<lparr>ap_session = demo_session (engine_new (ReplicaId 1) idx), ap_tree = t,
     ap_store = \<lparr>hs_db = db_new, hs_has_exec = True\<rparr>, ap_pressure = pressure_new m pressure_config_default,
     ap_conflicts = {}, ap_versions_recorded = 0, ap_conflicts_recorded = 0\<rparr>"

text \<open>The first version on disk and in the index, the second one in the frame.\<close>

definition demo_edited :: "string list applier" where
  "demo_edited = demo_applier (index_put index_new demo_path \<lparr>heads = [demo_loser]\<rparr>)
     (bm_insert demo_path (FileNode [1, 1, 1] False 1) bm_empty) (IntervalMs 100)"

lemma demo_parents [simp]: "parents demo_path = []"
  by (simp add: parents_def demo_path_def components_def)

lemma demo_api2_ok: "api_ok demo_api2" "no_collisions demo_api2 demo_universe" "sa_blake3 demo_api2 = demo_blake3"
proof -
  show "api_ok demo_api2" by (simp add: api_ok_def demo_api2_def demo_api_def chunk_slice_def)
  have "{b. content_ok demo_api2 demo_universe b} = {[], [1, 1, 1], [2, 2, 2]}"
    by (auto simp: content_ok_def slices_def demo_api2_def demo_api_def chunk_slice_def demo_universe_def)
  moreover have "inj_on (sa_blake3 demo_api2) {[], [1, 1, 1], [2, 2, 2]}" "inj_on (sa_blake3 demo_api2) demo_universe"
    by (simp_all add: inj_on_def demo_api2_def demo_api_def demo_universe_def content_hash_eq_iff)
  ultimately show "no_collisions demo_api2 demo_universe" by (simp add: no_collisions_def)
qed (simp add: demo_api2_def demo_api_def demo_blake3_def fun_eq_iff)

lemma demo_clash:
  "handle (eng demo_edited) (Remote (demo_remote 2)) = Some ((eng demo_edited)\<lparr>
       eng_index := index_put (eng_index (eng demo_edited)) demo_path \<lparr>heads = [demo_loser, demo_winner]\<rparr>,
       eng_echo := echo_add (eng_echo (eng demo_edited)) demo_path (ExpPresent (demo_sig 2 2))\<rparr>,
     [Apply demo_path (ExpPresent (demo_sig 2 2)),
      ConflictResolved demo_path (hd_state demo_winner) (demo_clock 2) (hd_state demo_loser) (demo_clock 1) True,
      RecordVersion demo_path (hd_state demo_winner) (demo_clock 2)])"
proof -
  have w: "winner \<lparr>heads = [demo_loser]\<rparr> = Some demo_loser" by (simp add: winner_def)
  have h: "hd_version demo_loser = demo_clock 1" "hd_version demo_winner = demo_clock 2" "hd_state demo_loser = Present (demo_sig 1 1)"
      "hd_state demo_winner = Present (demo_sig 2 2)" "\<lparr>hd_version = demo_clock 2, hd_state = Present (demo_sig 2 2)\<rparr> = demo_winner"
    by (simp_all add: demo_loser_def demo_winner_def)
  have ne: "\<not> state_eq (Present (demo_sig 1 1)) (Present (demo_sig 2 2))" "\<not> same_content (Present (demo_sig 1 1)) (Present (demo_sig 2 2))"
      "\<not> same_content (Present (demo_sig 2 2)) (Present (demo_sig 1 1))"
    by (simp_all add: demo_sig_def content_hash_eq_iff sig_eq_def)
  have le12: "u64_le 1 = [1, 0, 0, 0, 0, 0, 0, 0]" "u64_le 2 = [2, 0, 0, 0, 0, 0, 0, 0]"
    by code_simp+
  have it: "vc_iter (demo_clock r) = [(ReplicaId r, 1)]" for r
    by (simp add: vc_iter_def demo_clock_def vc_tick_def vc_new_def tomo_eval)
  from it have "head_sort_key demo_loser \<le> head_sort_key demo_winner"
    using le12 by (simp add: head_sort_key_def head_encode_def pair_bytes_def h)
  then have "sort_key head_sort_key [demo_loser, demo_winner] = [demo_loser, demo_winner]" by simp
  then have "absorb \<lparr>heads = [demo_loser]\<rparr> (demo_clock 2) (Present (demo_sig 2 2)) =
      Some (\<lparr>heads = [demo_loser, demo_winner]\<rparr>, Absorbed True True True)"
    using ne by (simp add: absorb_def w h vc_compare_demo demo_winner_wins heads_conflict_def)
  then show ?thesis
    using ne by (simp add: handle_def handle_remote_def absorb_remote_def demo_edited_def demo_applier_def eng_def
      demo_session_def engine_new_def index_get_put demo_remote_def state_from_kind_def h demo_winner_wins emit_apply_def
      conflict_actions_def head_eq_def adoption_mode_def expectation_from_state_def disjoint_support_def it vc_get_demo)
qed

definition demo_resolve :: "(exec_error, string list applier, message) outcome" where
  "demo_resolve = with_engine demo_world demo_disk demo_edited (handle (eng demo_edited) (Remote (demo_remote 2))) (Some [2, 2, 2]) (Some (demo_clock 2))"

lemma demo_resolve_run: "\<exists>ap' out. demo_resolve = Inr (ap', out)"
proof -
  have m: "matches_sig demo_blake3 [1, 1, 1] (demo_sig 1 1)" "matches_sig demo_blake3 [2, 2, 2] (demo_sig 2 2)"
      "\<not> matches_sig demo_blake3 [2, 2, 2] (demo_sig 1 1)"
    by (simp_all add: matches_sig_def demo_blake3_def demo_sig_def content_hash_eq_iff)
  have t: "file_bytes (ap_tree demo_edited) demo_path = Some [1, 1, 1]" "type_collision (ap_tree demo_edited) demo_path = None"
    by (simp_all add: demo_edited_def demo_applier_def file_bytes_def type_collision_def path_is_dir_def)
  let ?run = "\<lambda>e. do_apply demo_world demo_disk (demo_edited\<lparr>ap_session := (ap_session demo_edited)\<lparr>ss_engine := e\<rparr>\<rparr>) demo_path (ExpPresent (demo_sig 2 2)) (Some [2, 2, 2])"
  have st: "\<exists>ap. ?run e = Inr (ap, []) \<and> ap_store ap = \<lparr>hs_db = db_new, hs_has_exec = True\<rparr>" for e
    by (simp add: do_apply_def apply_present_by_sig_def prepare_present_target_def type_collision_def path_is_dir_def m byte_source_of_def write_present_def
      flush_pending_install_for_def stage_present_def demo_disk_def demo_edited_def demo_applier_def demo_world_def demo_session_def)
  have cap: "\<exists>ap'. record_conflict_capture demo_disk ap \<lparr>cc_path = demo_path, cc_winner = Present (demo_sig 2 2), cc_winner_version = demo_clock 2,
      cc_winner_is_local = False, cc_winner_bytes = CapPresent [2, 2, 2], cc_loser = Present (demo_sig 1 1), cc_loser_version = demo_clock 1,
      cc_loser_is_local = True, cc_loser_bytes = CapPresent [1, 1, 1], cc_adopted = True\<rparr> = Inr ap'"
    if "ap_store ap = \<lparr>hs_db = db_new, hs_has_exec = True\<rparr>" for ap :: "string list applier"
    using that by (simp add: record_conflict_capture_def find_or_record_def log_of_def db_new_def store_version_def
      record_version_def insert_version_def prepare_version_def store_chunks_def demo_disk_def demo_api2_def demo_api_def
      chunk_slice_def capture_record_def verify_sig_def demo_sig_def insert_row_def make_row_def Let_def find_chunk_def len_u64_def find_version_def record_conflict_def attribution_def eng_def into_meta_def replica_raw_def content_hash_eq_iff to_sql_int_def from_sql_int_def to_hash32_def)
  obtain e where e: "handle (eng demo_edited) (Remote (demo_remote 2)) = Some (e, [Apply demo_path (ExpPresent (demo_sig 2 2)),
      ConflictResolved demo_path (Present (demo_sig 2 2)) (demo_clock 2) (Present (demo_sig 1 1)) (demo_clock 1) True,
      RecordVersion demo_path (Present (demo_sig 2 2)) (demo_clock 2)])"
    using demo_clash by (simp add: demo_winner_def demo_loser_def)
  obtain ap1 where 1: "?run e = Inr (ap1, [])" "ap_store ap1 = \<lparr>hs_db = db_new, hs_has_exec = True\<rparr>" using st [of e] by blast
  obtain ap2 i where 2: "record_conflict_capture demo_disk ap1 \<lparr>cc_path = demo_path, cc_winner = Present (demo_sig 2 2),
      cc_winner_version = demo_clock 2, cc_winner_is_local = False, cc_winner_bytes = CapPresent [2, 2, 2],
      cc_loser = Present (demo_sig 1 1), cc_loser_version = demo_clock 1, cc_loser_is_local = True,
      cc_loser_bytes = CapPresent [1, 1, 1], cc_adopted = True\<rparr> = Inr (ap2, i)"
    using cap [OF 1(2)] by (metis surj_pair)
  have b: "w_blake3 demo_world = demo_blake3" by (simp add: demo_world_def)
  show ?thesis
    by (simp add: demo_resolve_def e with_engine_def execute_def captures_of_def Let_def capture_conflict_bytes_def m b read_verified_def t 1(1) 2)
qed

theorem conflict_losers_preserved_witness:
  "\<exists>ap' out i. demo_resolve = Inr (ap', out) \<and> holds demo_api2 (hs_db (ap_store ap')) demo_path [1, 1, 1] i"
proof -
  obtain ap' out where run: "demo_resolve = Inr (ap', out)" using demo_resolve_run by blast
  have api: "dk_store demo_disk = demo_api2" "w_blake3 demo_world = demo_blake3" by (simp_all add: demo_disk_def demo_world_def)
  have content: "content_ok demo_api2 demo_universe [1, 1, 1]" "content_ok demo_api2 demo_universe [2, 2, 2]"
    by (simp_all add: content_ok_def slices_def demo_api2_def demo_api_def chunk_slice_def demo_universe_def)
  have stored: "stored_ok demo_api2 demo_universe demo_edited"
    using content by (simp add: stored_ok_def demo_edited_def demo_applier_def db_wf_new file_bytes_def demo_session_def split: if_splits)
  have consist: "heads_consistent demo_api2 (hs_db (ap_store demo_edited)) demo_path {demo_loser, demo_winner}"
    by (simp add: heads_consistent_def consistent_def demo_edited_def demo_applier_def db_new_def demo_loser_def demo_winner_def demo_api2_def)
  have misc: "type_collision (ap_tree demo_edited) demo_path = None" "matches_sig demo_blake3 [1, 1, 1] (demo_sig 1 1)"
      "file_bytes (ap_tree demo_edited) demo_path = Some [1, 1, 1]" "rc_path (demo_remote 2) = demo_path" "rc_version (demo_remote 2) = demo_clock 2"
    by (simp_all add: demo_edited_def demo_applier_def file_bytes_def type_collision_def path_is_dir_def demo_remote_def
      matches_sig_def demo_blake3_def demo_sig_def content_hash_eq_iff)
  have "\<exists>i. holds (dk_store demo_disk) (hs_db (ap_store ap')) demo_path [1, 1, 1] i"
    by (rule conflict_losers_preserved [where U = demo_universe and w = demo_world and rb = "Some [2, 2, 2]" and sig = "demo_sig 1 1"
        and ap = demo_edited and c = "demo_remote 2" and out = out, OF _ _ _ _ _ demo_clash])
      (use content run [unfolded demo_resolve_def] in \<open>simp_all add: api demo_api2_ok stored consist [unfolded demo_loser_def] misc index_get_put demo_loser_def\<close>)
  then show ?thesis using run unfolding api by blast
qed

end
