(* ===== verification/Tomo_Bursts.thy ===== *)
theory Tomo_Bursts
  imports Tomo_Preserve
begin

text \<open>
  What a burst does with a received change. The session stages an apply and installs the
  batch at the end of the burst (\<open>flush_installs\<close> of \<^verbatim>\<open>crates/tomo/src/session.rs\<close>), so whatever
  happens between the two works on a file that is in the index and not yet in the tree. The
  lemmas follow one change for a new file through \<open>process_burst\<close>; the properties state what
  comes of it in the corner cases.
\<close>

section \<open>A change for a new file\<close>

text \<open>A file directly below the project root that neither the index nor the tree knows, nothing
  staged, and a machine whose writes succeed.\<close>

definition fresh_file :: "('g, 's, 'e) world \<Rightarrow> disk_api \<Rightarrow> 's applier \<Rightarrow> remote_change \<Rightarrow> content_sig \<Rightarrow> bytes \<Rightarrow> bool" where
  "fresh_file w d ap c sig bs \<longleftrightarrow>
     rc_kind c = Modified sig \<and> matches_sig (w_blake3 w) bs sig \<and> parents (rc_path c) = [] \<and>
     bm_get (ap_tree ap) (rc_path c) = None \<and> index_get (eng_index (eng ap)) (rc_path c) = None \<and>
     \<not> dk_refused d (rc_path c) \<and> dk_stage d (rc_path c) = StageOk \<and>
     ss_pending_installs (ap_session ap) = [] \<and> ss_pending_install_paths (ap_session ap) = {} \<and>
     \<not> ss_paused (ap_session ap) \<and> \<not> ss_repush_requested (ap_session ap)"

text \<open>A session with no transfer under way that lets the path in.\<close>

definition lets_in :: "('g, 's, 'e) world \<Rightarrow> 's applier \<Rightarrow> relpath \<Rightarrow> bool" where
  "lets_in w ap p \<longleftrightarrow> \<not> w_case_insensitive w \<and> \<not> ss_paused (ap_session ap) \<and> ss_assemblies (ap_session ap) = bm_empty \<and>
     ss_pending_sends_paths (ap_session ap) = {} \<and> snd (session_allows (tree_world w ap) (ap_session ap) p Inbound)"

definition new_file :: "('g, 's, 'e) world \<Rightarrow> disk_api \<Rightarrow> 's applier \<Rightarrow> remote_change \<Rightarrow> content_sig \<Rightarrow> bytes \<Rightarrow> bool" where
  "new_file w d ap c sig bs \<longleftrightarrow> fresh_file w d ap c sig bs \<and> lets_in w ap (rc_path c)"

definition staged_file :: "'s applier \<Rightarrow> remote_change \<Rightarrow> content_sig \<Rightarrow> bytes \<Rightarrow> 's applier \<Rightarrow> bool" where
  "staged_file ap c sig bs ap' \<longleftrightarrow>
     ap_tree ap' = ap_tree ap \<and> ap_store ap' = ap_store ap \<and> ap_conflicts ap' = ap_conflicts ap \<and>
     index_get (eng_index (eng ap')) (rc_path c) = Some (entry_single (rc_version c) (Present sig)) \<and>
     ss_pending_installs (ap_session ap') = [\<lparr>pi_path = rc_path c, pi_sig = sig, pi_bytes = bs\<rparr>] \<and>
     ss_pending_install_paths (ap_session ap') = {rc_path c} \<and>
     ss_repush_requested (ap_session ap') = False \<and> ss_paused (ap_session ap') = False \<and>
     ss_peer_paused (ap_session ap') = ss_peer_paused (ap_session ap)"

lemma change_delivered:
  assumes "lets_in w ap (rc_path c)"
  obtains seen where "applier_step w d ap (Process (InMessage (Change c bs))) =
    deliver w d (ap\<lparr>ap_session := (ap_session ap)\<lparr>ss_noted_ignored := seen\<rparr>\<rparr>) c bs"
proof -
  let ?s = "ap_session ap" and ?w = "tree_world w ap"
  obtain seen where allow: "session_allows ?w ?s (rc_path c) Inbound = (?s\<lparr>ss_noted_ignored := seen\<rparr>, True)"
    using assms by (cases "session_allows ?w ?s (rc_path c) Inbound")
      (auto simp: lets_in_def session_allows_def split: prod.splits)
  have ci: "\<not> case_collision ?w s c" for s using assms by (simp add: lets_in_def case_collision_def tree_world_def)
  have change: "on_change ?w ?s c bs = Inr (?s\<lparr>ss_noted_ignored := seen\<rparr>, [Delivered c bs])"
    using assms allow ci
    by (simp add: on_change_def flush_queued_send_def abandon_superseded_def lets_in_def bm_keys_def and_then_def)
  have "and_then r (\<lambda>ap. Inr (ap, [])) = r" for r :: "'a exec_result" by (rule and_then_return)
  then show ?thesis
    using assms change by (intro that [of seen])
      (simp add: applier_step_def session_step_def process_incoming_def on_message_def is_content_frame_def lets_in_def)
qed

lemma note_stale:
  assumes "pressure_wf (ap_pressure ap)" "read_verified (w_blake3 w) (ap_tree ap) p sig = None"
  shows "\<exists>pc. note_version w d ap p (Present sig) v l now = Inr (ap\<lparr>ap_pressure := pc\<rparr>, [])"
proof -
  obtain pc dec where "pc_note (ap_pressure ap) p
      \<lparr>ci_state = Present sig, ci_version = v, ci_origin_is_local = l, ci_size_hint = sig_size sig\<rparr> now = Some (pc, dec)"
    unfolding pc_note_cases [OF assms(1)] by (metis surj_pair)
  then show ?thesis using assms(2)
    by (cases dec) (auto simp: note_version_def session_record_version_def Let_def)
qed

lemma guard_absent:
  assumes "bm_get (ap_tree ap) p = None" "parents p = []" "index_get (eng_index (eng ap)) p = None"
  shows "guard_unobserved w d ap p = Inr (ap, [])"
  using assms
  by (simp add: guard_unobserved_def disk_expectation_def snapshot_def reconcile_unobserved_local_def prior_expectation_def
      needs_local_reconcile_def with_engine_def execute_def captures_of_def eng_def)

lemma deliver_new_file:
  assumes new: "fresh_file w d ap c sig bs" and wf: "pressure_wf (ap_pressure ap)"
  shows "\<exists>ap'. deliver w d ap c (Some bs) = Inr (ap', []) \<and> staged_file ap c sig bs ap'"
proof -
  let ?p = "rc_path c"
  have n: "rc_kind c = Modified sig" "matches_sig (w_blake3 w) bs sig" "parents ?p = []" "bm_get (ap_tree ap) ?p = None"
      "index_get (eng_index (eng ap)) ?p = None" "\<not> dk_refused d ?p" "dk_stage d ?p = StageOk"
      "ss_pending_installs (ap_session ap) = []" "ss_pending_install_paths (ap_session ap) = {}"
      "\<not> ss_paused (ap_session ap)" "\<not> ss_repush_requested (ap_session ap)"
    using new by (simp_all add: fresh_file_def)
  define e1 where "e1 = (eng ap)\<lparr>eng_index := index_put (eng_index (eng ap)) ?p (entry_single (rc_version c) (Present sig)),
      eng_echo := echo_add (eng_echo (eng ap)) ?p (ExpPresent sig)\<rparr>"
  have h: "handle (eng ap) (Remote c) = Some (e1, [Apply ?p (ExpPresent sig), RecordVersion ?p (Present sig) (rc_version c)])"
    using n by (simp add: handle_def handle_remote_def absorb_remote_def remote_unseen_def emit_apply_def state_from_kind_def e1_def)
  define s1 where "s1 = (ap_session ap)\<lparr>ss_engine := e1, ss_pending_installs := [\<lparr>pi_path = ?p, pi_sig = sig, pi_bytes = bs\<rparr>],
      ss_pending_install_paths := {?p}\<rparr>"
  have ap: "do_apply w d (ap\<lparr>ap_session := (ap_session ap)\<lparr>ss_engine := e1\<rparr>\<rparr>) ?p (ExpPresent sig) (Some bs) = Inr (ap\<lparr>ap_session := s1\<rparr>, [])"
    using n by (simp add: do_apply_def apply_present_by_sig_def prepare_present_target_def type_collision_def path_is_dir_def
        byte_source_of_def write_present_def flush_pending_install_for_def stage_present_def Let_def s1_def)
  obtain pc where pc: "note_version w d (ap\<lparr>ap_session := s1\<rparr>) ?p (Present sig) (rc_version c) False (dk_now_ms d) =
      Inr (ap\<lparr>ap_session := s1, ap_pressure := pc\<rparr>, [])"
    using note_stale [of "ap\<lparr>ap_session := s1\<rparr>" w ?p sig d "rc_version c" False "dk_now_ms d"] wf n(4)
    by (auto simp: file_bytes_def read_verified_def)
  have "deliver w d ap c (Some bs) = Inr (ap\<lparr>ap_session := s1, ap_pressure := pc\<rparr>, [])"
    using n h ap pc
    by (simp add: deliver_def flush_pending_install_for_def guard_absent with_engine_def execute_def captures_of_def)
  moreover have "staged_file ap c sig bs (ap\<lparr>ap_session := s1, ap_pressure := pc\<rparr>)"
    using n by (simp add: staged_file_def s1_def eng_def e1_def index_get_put)
  ultimately show ?thesis by blast
qed

lemma suspend_frame:
  "ss_engine (suspend_transfers s) = ss_engine s" "ss_repush_requested (suspend_transfers s) = ss_repush_requested s"
  by (simp_all add: suspend_transfers_def abandon_pending_installs_def abandon_all_assemblies_def
      foldl_keeps [of ss_engine] foldl_keeps [of ss_repush_requested] clean_assembly_chunks_def)

lemma process_message:
  "process_item w d ap (Queued (InMessage m)) = (applier_step w d ap (Process (InMessage m)), False)"
  by (simp add: process_item_def process_incoming_def)

lemma new_file_step:
  assumes "new_file w d ap c sig bs" "pressure_wf (ap_pressure ap)"
  shows "\<exists>ap'. applier_step w d ap (Process (InMessage (Change c (Some bs)))) = Inr (ap', []) \<and> staged_file ap c sig bs ap'"
proof -
  have li: "lets_in w ap (rc_path c)" using assms(1) by (simp add: new_file_def)
  obtain seen where s: "applier_step w d ap (Process (InMessage (Change c (Some bs)))) =
      deliver w d (ap\<lparr>ap_session := (ap_session ap)\<lparr>ss_noted_ignored := seen\<rparr>\<rparr>) c (Some bs)"
    by (rule change_delivered [OF li])
  let ?ap = "ap\<lparr>ap_session := (ap_session ap)\<lparr>ss_noted_ignored := seen\<rparr>\<rparr>"
  have "fresh_file w d ?ap c sig bs" using assms(1) by (simp add: new_file_def fresh_file_def eng_def)
  from deliver_new_file [OF this] assms(2) s show ?thesis by (auto simp: staged_file_def)
qed

lemma install_staged:
  assumes "staged_file ap0 c sig bs ap" "bm_get (ap_tree ap0) (rc_path c) = None" "parents (rc_path c) = []"
  shows "\<exists>ap'. flush_installs d ap = Inr (ap', []) \<and> file_bytes (ap_tree ap') (rc_path c) = Some bs \<and>
    ap_store ap' = ap_store ap \<and> ss_pending_installs (ap_session ap') = []"
  using assms by (simp add: staged_file_def flush_installs_def install_one_def path_is_dir_def abandon_pending_installs_def)

lemma process_one:
  assumes "applier_step w d ap (Process (InMessage m)) = Inr (ap1, [])" "\<not> ss_repush_requested (ap_session ap1)"
  shows "process_items w d ap ((Queued (InMessage m), False) # items) = process_items w d ap1 items"
  using assms by (simp add: process_message)

text \<open>With the history mode \<open>every-change\<close> a received file is applied but not versioned. The
  engine's batch is to apply the file and to record its version; the apply is only staged, so
  when the capture, immediate in this mode, reads the file back to verify it, it finds the path
  missing and skips it. At the end of the burst the file is on disk and the history is what it
  was before.\<close>

theorem every_change_misses_received_file:
  assumes "new_file w d ap c sig bs" "pressure_wf (ap_pressure ap)" "pc_mode (ap_pressure ap) = EveryChange"
  shows "\<exists>ap'. process_burst w d ap [(Queued (InMessage (Change c (Some bs))), False)] = Inr (ap', []) \<and>
    file_bytes (ap_tree ap') (rc_path c) = Some bs \<and> ap_store ap' = ap_store ap"
proof -
  obtain ap1 where 1: "applier_step w d ap (Process (InMessage (Change c (Some bs)))) = Inr (ap1, [])" "staged_file ap c sig bs ap1"
    using new_file_step [OF assms(1,2)] by blast
  have root: "bm_get (ap_tree ap) (rc_path c) = None" "parents (rc_path c) = []" using assms(1) by (simp_all add: new_file_def fresh_file_def)
  obtain ap2 where 2: "flush_installs d ap1 = Inr (ap2, [])" "file_bytes (ap_tree ap2) (rc_path c) = Some bs" "ap_store ap2 = ap_store ap1"
    using install_staged [OF 1(2) root] by blast
  have "process_items w d ap [(Queued (InMessage (Change c (Some bs))), False)] = Inr (ap1, [])"
    using process_one [OF 1(1)] 1(2) by (simp add: staged_file_def)
  then show ?thesis using 1(2) 2 by (simp add: process_burst_def staged_file_def)
qed

text \<open>A received file can be lost between its frame and the end of the burst. When the peer's
  \<open>Pause\<close> is drained in the same burst as the change (it was written right behind it),
  \<open>suspend_transfers\<close> drops the staged apply. The file never reaches the tree, but the index
  already holds its head; a peer with that head finds it covered when the indices are exchanged
  on resume and ships nothing, although the comment on \<open>suspend_transfers\<close> has the reconcile
  fetch what was dropped. The next scan takes the missing file for a local deletion.\<close>

theorem pause_drops_received_file:
  assumes "new_file w d ap c sig bs" "pressure_wf (ap_pressure ap)" "\<not> ss_peer_paused (ap_session ap)"
    and "index_get peer (rc_path c) = Some (entry_single (rc_version c) (Present sig))" "vc_ok (rc_version c)"
  shows "\<exists>ap'. process_burst w d ap [(Queued (InMessage (Change c (Some bs))), False), (Queued (InMessage Pause), False)] = Inr (ap', []) \<and>
    bm_get (ap_tree ap') (rc_path c) = None \<and> ss_pending_installs (ap_session ap') = [] \<and>
    index_get (eng_index (eng ap')) (rc_path c) = Some (entry_single (rc_version c) (Present sig)) \<and>
    filter (\<lambda>x. rc_path x = rc_path c) (reconcile_changes peer (eng_index (eng ap'))) = []"
proof -
  obtain ap1 where 1: "applier_step w d ap (Process (InMessage (Change c (Some bs)))) = Inr (ap1, [])" "staged_file ap c sig bs ap1"
    using new_file_step [OF assms(1,2)] by blast
  let ?ap2 = "ap1\<lparr>ap_session := on_peer_pause (ap_session ap1)\<rparr>"
  have 2: "applier_step w d ap1 (Process (InMessage Pause)) = Inr (?ap2, [])"
    by (simp add: applier_step_def session_step_def process_incoming_def on_message_def is_content_frame_def)
  have s2: "ss_pending_installs (ap_session ?ap2) = []" "eng ?ap2 = eng ap1" "\<not> ss_repush_requested (ap_session ?ap2)"
    using 1(2) assms(3) suspend_frame [of "(ap_session ap1)\<lparr>ss_peer_paused := True\<rparr>"] by (auto simp: on_peer_pause_def staged_file_def eng_def)
  have items: "process_items w d ap [(Queued (InMessage (Change c (Some bs))), False), (Queued (InMessage Pause), False)] = Inr (?ap2, [])"
    using process_one [OF 1(1), of "[(Queued (InMessage Pause), False)]"]
      process_one [OF 2 s2(3), of "[]"] 1(2) by (simp add: staged_file_def)
  have idx: "index_get (eng_index (eng ?ap2)) (rc_path c) = Some (entry_single (rc_version c) (Present sig))"
    using 1(2) s2(2) by (simp add: staged_file_def)
  have "filter (\<lambda>x. rc_path x = rc_path c) (reconcile_changes peer (eng_index (eng ?ap2))) = []"
    unfolding reconcile_changes_path
    using idx assms(4,5) by (simp add: index_heads_def entry_single_def covers_def path_versions_def versions_def)
  moreover have "bm_get (ap_tree ?ap2) (rc_path c) = None" using 1(2) assms(1) by (simp add: staged_file_def new_file_def fresh_file_def)
  ultimately show ?thesis using items s2 idx by (simp add: process_burst_def flush_installs_def)
qed


text \<open>C32: A local file where the peer has a directory ends the session. An inbound change below a
  path that is a regular file here reaches \<open>reconcile_unobserved_local\<close> first, which takes a
  snapshot of the changed path; looking up a name below a regular file is an error (not a
  missing file), and it ends the burst and the session. The rule of the specification (5.4) for
  this case, the directory wins, sits in \<open>apply_present_by_sig\<close> behind it and is not reached.\<close>

theorem obstructed_change_ends_session:
  assumes "lets_in w ap (rc_path c)" "parent_file (ap_tree ap) (parents (rc_path c)) = Some q"
    and "rc_path c \<notin> ss_pending_install_paths (ap_session ap)"
  shows "process_burst w d ap ((Queued (InMessage (Change c bs)), full) # items) = Inl (SnapshotFailed (rc_path c))"
proof -
  obtain seen where "applier_step w d ap (Process (InMessage (Change c bs))) =
      deliver w d (ap\<lparr>ap_session := (ap_session ap)\<lparr>ss_noted_ignored := seen\<rparr>\<rparr>) c bs"
    by (rule change_delivered [OF assms(1)])
  also have "\<dots> = Inl (SnapshotFailed (rc_path c))"
    using assms(2,3) by (simp add: deliver_def flush_pending_install_for_def guard_unobserved_def disk_expectation_def snapshot_def)
  finally show ?thesis by (simp add: process_burst_def process_message)
qed

text \<open>Only the first conflict of a path preserves the loser on the receiving side. Once the
  entry has several heads, \<open>absorb\<close> reports no new conflict for a further one; if that head
  loses, the only action is to record its version, whose capture reads the winner's file,
  finds other bytes and skips. The content, verified and at hand in the frame, enters neither
  the tree nor the history of this replica, although the specification has the loser always
  preserved.\<close>

theorem later_loser_not_recorded:
  assumes "index_get (eng_index (eng ap)) (rc_path c) = Some entry" "length (heads entry) \<noteq> 1"
    and "rc_kind c = Modified sig" "absorb entry (rc_version c) (Present sig) = Some (entry', Absorbed False conflict novel)"
    and "read_verified (w_blake3 w) (ap_tree ap) (rc_path c) sig = None" "pressure_wf (ap_pressure ap)"
  shows "\<exists>ap'. with_engine w d ap (handle (eng ap) (Remote c)) (Some bs) (Some (rc_version c)) = Inr (ap', []) \<and>
    index_get (eng_index (eng ap')) (rc_path c) = Some entry' \<and> ap_tree ap' = ap_tree ap \<and> ap_store ap' = ap_store ap \<and>
    ss_pending_installs (ap_session ap') = ss_pending_installs (ap_session ap)"
proof -
  let ?p = "rc_path c"
  have "\<not> conflict" and win: "\<exists>m. winner entry' = Some m"
    using assms(2,4) by (auto simp: absorb_def Let_def split: if_splits bind_splits)
  define e1 where "e1 = (eng ap)\<lparr>eng_index := index_put (eng_index (eng ap)) ?p entry'\<rparr>"
  have h: "handle (eng ap) (Remote c) = Some (e1, if novel then [RecordVersion ?p (Present sig) (rc_version c)] else [])"
    using assms(1,3,4) win \<open>\<not> conflict\<close>
    by (auto simp: handle_def handle_remote_def absorb_remote_def state_from_kind_def e1_def)
  let ?ap = "ap\<lparr>ap_session := (ap_session ap)\<lparr>ss_engine := e1\<rparr>\<rparr>"
  obtain pc where "note_version w d ?ap ?p (Present sig) (rc_version c) False (dk_now_ms d) = Inr (?ap\<lparr>ap_pressure := pc\<rparr>, [])"
    using note_stale [of ?ap w ?p sig d "rc_version c" False "dk_now_ms d"] assms(5,6) by auto
  then show ?thesis using h
    by (cases novel) (auto simp: with_engine_def execute_def captures_of_def eng_def e1_def index_get_put)
qed

section \<open>Demonstration\<close>

lemma demo_new_file: "new_file demo_world demo_disk (demo_applier index_new bm_empty m) (demo_remote 2) (demo_sig 2 2) [2, 2, 2]"
proof -
  have a: "snd (session_allows (tree_world demo_world (demo_applier index_new bm_empty m))
      (demo_session (engine_new (ReplicaId 1) index_new)) demo_path Inbound)"
    by (simp add: session_allows_def allow_crossing_def tree_world_def demo_world_def demo_session_def demo_path_def demo_classify
      CLASSIFICATION_DEFAULT_def crossing_decide_def)
  have m: "matches_sig (w_blake3 demo_world) [2, 2, 2] (demo_sig 2 2)"
    by (simp add: matches_sig_def demo_world_def demo_blake3_def demo_sig_def content_hash_eq_iff)
  show ?thesis using a m
    by (simp add: new_file_def fresh_file_def lets_in_def demo_applier_def demo_remote_def demo_disk_def eng_def demo_world_def)
      (simp add: demo_session_def)
qed

lemma demo_applier_pressure: "pressure_wf (ap_pressure (demo_applier idx t m))" "pc_mode (ap_pressure (demo_applier idx t m)) = m"
  by (simp_all add: demo_applier_def pressure_wf_new) (simp add: pressure_new_def Let_def)

lemma demo_applier_fields [simp]: "ap_tree (demo_applier idx t m) = t" "ap_store (demo_applier idx t m) = \<lparr>hs_db = db_new, hs_has_exec = True\<rparr>"
  "eng_index (eng (demo_applier idx t m)) = idx" "ss_peer_paused (ap_session (demo_applier idx t m)) = False"
  "ss_pending_install_paths (ap_session (demo_applier idx t m)) = {}" "ss_pending_installs (ap_session (demo_applier idx t m)) = []"
  by (simp_all add: demo_applier_def eng_def demo_session_def engine_new_def)

lemma demo_remote_fields [simp]: "rc_path (demo_remote r) = demo_path" "rc_version (demo_remote r) = demo_clock r"
  by (simp_all add: demo_remote_def)

theorem every_change_misses_received_file_witness:
  "\<exists>ap'. process_burst demo_world demo_disk (demo_applier index_new bm_empty EveryChange)
      [(Queued (InMessage (Change (demo_remote 2) (Some [2, 2, 2]))), False)] = Inr (ap', []) \<and>
    file_bytes (ap_tree ap') demo_path = Some [2, 2, 2] \<and> ap_store ap' = \<lparr>hs_db = db_new, hs_has_exec = True\<rparr>"
  using every_change_misses_received_file [OF demo_new_file demo_applier_pressure] by simp

theorem pause_drops_received_file_witness:
  "\<exists>ap'. process_burst demo_world demo_disk (demo_applier index_new bm_empty (IntervalMs 100))
      [(Queued (InMessage (Change (demo_remote 2) (Some [2, 2, 2]))), False), (Queued (InMessage Pause), False)] = Inr (ap', []) \<and>
    bm_get (ap_tree ap') demo_path = None \<and>
    index_get (eng_index (eng ap')) demo_path = Some (entry_single (demo_clock 2) (Present (demo_sig 2 2)))"
proof -
  have "\<exists>ap'. process_burst demo_world demo_disk (demo_applier index_new bm_empty (IntervalMs 100))
      [(Queued (InMessage (Change (demo_remote 2) (Some [2, 2, 2]))), False), (Queued (InMessage Pause), False)] = Inr (ap', []) \<and>
    bm_get (ap_tree ap') (rc_path (demo_remote 2)) = None \<and> ss_pending_installs (ap_session ap') = [] \<and>
    index_get (eng_index (eng ap')) (rc_path (demo_remote 2)) = Some (entry_single (rc_version (demo_remote 2)) (Present (demo_sig 2 2))) \<and>
    filter (\<lambda>x. rc_path x = rc_path (demo_remote 2)) (reconcile_changes
      (index_put index_new demo_path (entry_single (demo_clock 2) (Present (demo_sig 2 2)))) (eng_index (eng ap'))) = []"
    by (rule pause_drops_received_file [OF demo_new_file demo_applier_pressure(1)]) (simp_all add: index_get_put)
  then show ?thesis by auto
qed

definition demo_nested :: remote_change where
  "demo_nested = \<lparr>rc_path = RelPath ''d/f'', rc_kind = Modified (demo_sig 2 2), rc_version = demo_clock 2\<rparr>"

theorem obstructed_change_ends_session_witness:
  "process_burst demo_world demo_disk (demo_applier index_new (bm_insert (RelPath ''d'') (FileNode [1, 1, 1] False 0) bm_empty) EveryChange)
     [(Queued (InMessage (Change demo_nested (Some [2, 2, 2]))), False)] = Inl (SnapshotFailed (RelPath ''d/f''))"
proof -
  let ?ap = "demo_applier index_new (bm_insert (RelPath ''d'') (FileNode [1, 1, 1] False 0) bm_empty) EveryChange"
  have "ga_matches literal_api (cf_rule_set demo_config) ''d/f'' = []"
    by (simp add: literal_api_def demo_config_def)
  moreover have "\<not> is_tomo_internal ''d/f''" by (simp add: is_tomo_internal_def TOMO_DIR_def)
  ultimately have "classify literal_api demo_config ''d/f'' = CLASSIFICATION_DEFAULT" by (simp add: classify_def list_max_def)
  then have a: "snd (session_allows (tree_world demo_world ?ap) (demo_session (engine_new (ReplicaId 1) index_new)) (RelPath ''d/f'') Inbound)"
    by (simp add: session_allows_def allow_crossing_def tree_world_def demo_world_def demo_session_def
      CLASSIFICATION_DEFAULT_def crossing_decide_def)
  have "lets_in demo_world ?ap (rc_path demo_nested)" using a
    by (simp add: lets_in_def demo_nested_def demo_applier_def demo_world_def) (simp add: demo_session_def)
  moreover have "parents (RelPath ''d/f'') = [RelPath ''d'']"
    by (simp add: parents_def components_def upt_rec)
  then have "parent_file (ap_tree ?ap) (parents (rc_path demo_nested)) = Some (RelPath ''d'')"
    by (simp add: demo_nested_def)
  ultimately have "process_burst demo_world demo_disk ?ap [(Queued (InMessage (Change demo_nested (Some [2, 2, 2]))), False)] =
      Inl (SnapshotFailed (rc_path demo_nested))"
    by (rule obstructed_change_ends_session) simp
  then show ?thesis by (simp add: demo_nested_def)
qed

text \<open>A third version behind the two of the demo conflict.\<close>

definition demo_third :: remote_change where
  "demo_third = \<lparr>rc_path = demo_path, rc_kind = Modified (demo_sig 0 0), rc_version = demo_clock 3\<rparr>"

definition demo_third_head :: head where
  "demo_third_head = \<lparr>hd_version = demo_clock 3, hd_state = Present (demo_sig 0 0)\<rparr>"

lemma demo_third_loses: "winner \<lparr>heads = [demo_loser, demo_winner, demo_third_head]\<rparr> = Some demo_winner"
proof -
  have "replicate 32 (1 :: u8) < replicate 32 2" "replicate 32 (0 :: u8) < replicate 32 2" by (simp_all add: numeral_eq_Suc)
  then have "winner_cmp demo_winner demo_loser mode = Greater" "winner_cmp demo_third_head demo_winner mode \<noteq> Greater" for mode
    by (auto simp: winner_cmp_def demo_winner_def demo_loser_def demo_third_head_def demo_sig_def cmp_then_def Let_def cmp_def
        dest: less_asym)
  then show ?thesis by (simp add: winner_def)
qed

lemma demo_third_absorbed: "\<exists>conflict novel. absorb \<lparr>heads = [demo_loser, demo_winner]\<rparr> (demo_clock 3) (Present (demo_sig 0 0)) =
    Some (\<lparr>heads = [demo_loser, demo_winner, demo_third_head]\<rparr>, Absorbed False conflict novel)"
proof -
  have h: "hd_version demo_loser = demo_clock 1" "hd_version demo_winner = demo_clock 2" "hd_version demo_third_head = demo_clock 3"
      "hd_state demo_third_head = Present (demo_sig 0 0)" "hd_state demo_loser = Present (demo_sig 1 1)" "hd_state demo_winner = Present (demo_sig 2 2)"
      "\<lparr>hd_version = demo_clock 3, hd_state = Present (demo_sig 0 0)\<rparr> = demo_third_head"
    by (simp_all add: demo_loser_def demo_winner_def demo_third_head_def)
  have "u64_le 1 = [1, 0, 0, 0, 0, 0, 0, 0]" "u64_le 2 = [2, 0, 0, 0, 0, 0, 0, 0]" "u64_le 3 = [3, 0, 0, 0, 0, 0, 0, 0]" by code_simp+
  moreover have "vc_iter (demo_clock r) = [(ReplicaId r, 1)]" for r
    by (simp add: vc_iter_def demo_clock_def vc_tick_def vc_new_def tomo_eval)
  ultimately have "head_sort_key demo_loser \<le> head_sort_key demo_winner" "head_sort_key demo_winner \<le> head_sort_key demo_third_head"
    "head_sort_key demo_loser \<le> head_sort_key demo_third_head"
    by (simp_all add: head_sort_key_def head_encode_def pair_bytes_def h)
  then have "sort_key head_sort_key [demo_loser, demo_winner, demo_third_head] = [demo_loser, demo_winner, demo_third_head]" by simp
  then show ?thesis by (simp add: absorb_def h vc_compare_demo demo_winner_wins demo_third_loses state_eq_refl) blast
qed

theorem later_loser_not_recorded_witness:
  "\<exists>ap'. with_engine demo_world demo_disk (demo_applier demo_conflict (bm_insert demo_path (FileNode [2, 2, 2] False 2) bm_empty) EveryChange)
      (handle (eng (demo_applier demo_conflict (bm_insert demo_path (FileNode [2, 2, 2] False 2) bm_empty) EveryChange)) (Remote demo_third))
      (Some [0, 0, 0]) (Some (demo_clock 3)) = Inr (ap', []) \<and>
    index_get (eng_index (eng ap')) demo_path = Some \<lparr>heads = [demo_loser, demo_winner, demo_third_head]\<rparr> \<and>
    ap_store ap' = \<lparr>hs_db = db_new, hs_has_exec = True\<rparr>"
proof -
  let ?ap = "demo_applier demo_conflict (bm_insert demo_path (FileNode [2, 2, 2] False 2) bm_empty) EveryChange"
  obtain cf nv where ab: "absorb \<lparr>heads = [demo_loser, demo_winner]\<rparr> (demo_clock 3) (Present (demo_sig 0 0)) =
      Some (\<lparr>heads = [demo_loser, demo_winner, demo_third_head]\<rparr>, Absorbed False cf nv)"
    using demo_third_absorbed by blast
  have "\<not> matches_sig demo_blake3 [2, 2, 2] (demo_sig 0 0)" by (simp add: matches_sig_def demo_blake3_def demo_sig_def content_hash_eq_iff)
  then have "\<exists>ap'. with_engine demo_world demo_disk ?ap (handle (eng ?ap) (Remote demo_third)) (Some [0, 0, 0]) (Some (rc_version demo_third)) = Inr (ap', []) \<and>
      index_get (eng_index (eng ap')) (rc_path demo_third) = Some \<lparr>heads = [demo_loser, demo_winner, demo_third_head]\<rparr> \<and>
      ap_tree ap' = ap_tree ?ap \<and> ap_store ap' = ap_store ?ap \<and> ss_pending_installs (ap_session ap') = ss_pending_installs (ap_session ?ap)"
    by (intro later_loser_not_recorded [of ?ap demo_third "\<lparr>heads = [demo_loser, demo_winner]\<rparr>" "demo_sig 0 0" _ cf nv])
      (simp_all add: demo_third_def demo_conflict_def index_get_put ab demo_applier_pressure(1) read_verified_def file_bytes_def demo_world_def)
  then show ?thesis by (auto simp: demo_third_def)
qed

end
