(* ===== verification/Tomo_Scan.thy ===== *)
theory Tomo_Scan
  imports Tomo_Bursts
begin

text \<open>
  Looking at the whole tree: \<^verbatim>\<open>tomo-watch/src/scan.rs\<close> (the walk and its diff against the
  index), \<^verbatim>\<open>scancache.rs\<close> (reusing hashes by modification time and size), \<^verbatim>\<open>norm.rs\<close>, the
  event vocabulary of \<^verbatim>\<open>canon.rs\<close> and \<^verbatim>\<open>watcher.rs\<close>, and what the session does with them
  (\<open>startup_scan\<close>, \<open>maybe_rescan\<close>, \<open>reconcile_history_completeness\<close> of \<^verbatim>\<open>tomo/src/session.rs\<close>).
  The tree is the one of \<^theory_text>\<open>Tomo_Execute\<close>; Unicode normalisation, nanosecond times and
  unreadable directories are the machine's. A directory is listed in name order; what is found
  goes into maps keyed by path, so another order finds the same.
\<close>

section \<open>Names\<close>

record scan_api =
  sn_normalize :: bool
  sn_nfc :: "string \<Rightarrow> string"
  sn_unreadable :: "relpath option \<Rightarrow> bool"
  sn_mtime_ns :: "relpath \<Rightarrow> u64"
  sn_now_ns :: u64

definition canonicalize_fs_path :: "scan_api \<Rightarrow> string \<Rightarrow> string" where
  "canonicalize_fs_path sn s = (if sn_normalize sn then sn_nfc sn s else s)"

text \<open>The project-relative path of a name on disk.\<close>

definition scan_relativize :: "scan_api \<Rightarrow> relpath \<Rightarrow> relpath option" where
  "scan_relativize sn p = (case relpath_new (canonicalize_fs_path sn (as_str p)) of Inl _ \<Rightarrow> None | Inr r \<Rightarrow> Some r)"

definition path_ignored :: "('g, 's, 'e) glob_api \<Rightarrow> 's config \<Rightarrow> relpath \<Rightarrow> bool" where
  "path_ignored api cfg p \<longleftrightarrow> cl_class (classify api cfg (as_str p)) = Ignored"

section \<open>The scan cache\<close>

definition RECENT_WINDOW_NS :: u64 where
  "RECENT_WINDOW_NS = 2000000000"

record cache_entry =
  ce_mtime_ns :: u64
  ce_size :: u64
  ce_sig :: content_sig

type_synonym scan_cache = "(relpath, cache_entry) btree_map"

datatype scan_decision = HashFile | ReuseHash content_hash

definition scan_decide :: "cache_entry option \<Rightarrow> u64 \<Rightarrow> u64 \<Rightarrow> u64 \<Rightarrow> scan_decision" where
  "scan_decide cached mtime_ns sz now_ns =
     (if now_ns \<le> sat_add mtime_ns RECENT_WINDOW_NS then HashFile
      else case cached of
        Some e \<Rightarrow> if ce_mtime_ns e = mtime_ns \<and> ce_size e = sz then ReuseHash (sig_hash (ce_sig e)) else HashFile
      | None \<Rightarrow> HashFile)"

text \<open>The persisted form: a version and the entries, encoded by the postcard crate; another
  version or an undecodable file is an empty cache.\<close>

definition CACHE_VERSION :: u32 where
  "CACHE_VERSION = 1"

definition cache_encode :: "(u32 \<times> scan_cache \<Rightarrow> bytes) \<Rightarrow> scan_cache \<Rightarrow> bytes" where
  "cache_encode enc c = enc (CACHE_VERSION, c)"

definition cache_decode :: "(bytes \<Rightarrow> (u32 \<times> scan_cache) option) \<Rightarrow> bytes \<Rightarrow> scan_cache option" where
  "cache_decode dec bs = (case dec bs of
      None \<Rightarrow> None | Some (version, c) \<Rightarrow> if version \<noteq> CACHE_VERSION then None else Some c)"

definition load_scan_cache :: "(bytes \<Rightarrow> (u32 \<times> scan_cache) option) \<Rightarrow> bytes option \<Rightarrow> scan_cache" where
  "load_scan_cache dec file = (case file of
      None \<Rightarrow> bm_empty | Some bs \<Rightarrow> (case cache_decode dec bs of None \<Rightarrow> bm_empty | Some c \<Rightarrow> c))"

section \<open>The walk\<close>

datatype watch_error = WatchIo "relpath option"

definition children :: "tree \<Rightarrow> relpath option \<Rightarrow> (relpath \<times> node) list" where
  "children t dir = filter (\<lambda>(p, _). parents p = (case dir of None \<Rightarrow> [] | Some d \<Rightarrow> parents d @ [d])) (bm_entries t)"

definition visit_file ::
    "scan_api \<Rightarrow> (bytes \<Rightarrow> content_hash) \<Rightarrow> tree \<Rightarrow> scan_cache \<Rightarrow> relpath \<Rightarrow> relpath \<Rightarrow> bytes \<Rightarrow> bool \<Rightarrow> u64 \<Rightarrow>
     watch_error + (relpath \<times> cache_entry) list" where
  "visit_file sn blake3 t old p rel bs exec mtime =
     (let mtime_ns = sn_mtime_ns sn p; sz = of_nat (length bs)
      in case scan_decide (bm_get old rel) mtime_ns sz (sn_now_ns sn) of
           ReuseHash h \<Rightarrow> Inr [(rel, \<lparr>ce_mtime_ns = mtime_ns, ce_size = sz,
              ce_sig = \<lparr>sig_hash = h, sig_size = sz, sig_exec = exec, sig_mtime_ms = mtime\<rparr>\<rparr>)]
         | HashFile \<Rightarrow> (case snapshot blake3 t rel of
              Inl _ \<Rightarrow> Inl (WatchIo (Some rel))
            | Inr None \<Rightarrow> Inr []
            | Inr (Some sig) \<Rightarrow> Inr [(rel, \<lparr>ce_mtime_ns = mtime_ns, ce_size = sz, ce_sig = sig\<rparr>)]))"

lemma collect_cong [fundef_cong]: "xs = ys \<Longrightarrow> (\<And>x. x \<in> set ys \<Longrightarrow> f x = g x) \<Longrightarrow> collect f xs = collect g ys"
proof (induction xs arbitrary: ys)
  case (Cons x xs)
  from Cons.prems(1) obtain zs where "ys = x # zs" "xs = zs" by (cases ys) simp_all
  moreover from this Cons.prems(2) have "f x = g x" "collect f xs = collect g zs" by (simp, intro Cons.IH) simp_all
  ultimately show ?case by (simp cong: sum.case_cong)
qed simp

definition tree_height :: "tree \<Rightarrow> nat" where
  "tree_height t = foldl max 0 (map (\<lambda>p. Suc (length (parents p))) (bm_keys t))"

definition dir_depth :: "relpath option \<Rightarrow> nat" where
  "dir_depth dir = (case dir of None \<Rightarrow> 0 | Some d \<Rightarrow> Suc (length (parents d)))"

lemma foldl_max_ge: "a \<le> foldl max a xs \<and> (\<forall>x \<in> set xs. x \<le> foldl max a xs)" for a :: nat
proof (induction xs arbitrary: a)
  case (Cons x xs)
  from Cons [of "max a x"] show ?case by auto
qed simp

lemma child_deeper: "(p, n) \<in> set (children t dir) \<Longrightarrow> dir_depth dir < dir_depth (Some p) \<and> dir_depth (Some p) \<le> tree_height t"
  using foldl_max_ge [of 0 "map (\<lambda>p. Suc (length (parents p))) (bm_keys t)"]
  by (auto simp: children_def dir_depth_def tree_height_def bm_keys_def image_image split: option.splits)

function walk ::
    "scan_api \<Rightarrow> (relpath \<Rightarrow> bool) \<Rightarrow> (bytes \<Rightarrow> content_hash) \<Rightarrow> tree \<Rightarrow> scan_cache \<Rightarrow> relpath option \<Rightarrow>
     watch_error + (relpath \<times> cache_entry) list" where
  "walk sn ignored blake3 t old dir =
     (if sn_unreadable sn dir then Inl (WatchIo dir)
      else map_sum id concat (collect (\<lambda>(p, node). case scan_relativize sn p of
             None \<Rightarrow> Inr []
           | Some rel \<Rightarrow>
               if ignored rel then Inr []
               else case node of
                 DirNode \<Rightarrow> walk sn ignored blake3 t old (Some p)
               | FileNode bs exec mtime \<Rightarrow> visit_file sn blake3 t old p rel bs exec mtime)
         (children t dir)))"
  by pat_completeness auto

termination walk
  by (relation "measure (\<lambda>(sn, ignored, blake3, t, old, dir). tree_height t - dir_depth dir)")
    (auto dest!: child_deeper)

declare walk.simps [simp del]

section \<open>The diff\<close>

definition on_disk_map :: "(relpath \<times> cache_entry) list \<Rightarrow> (relpath, content_sig) btree_map" where
  "on_disk_map found = foldl (\<lambda>m (rel, e). bm_insert rel (ce_sig e) m) bm_empty found"

definition fresh_cache :: "(relpath \<times> cache_entry) list \<Rightarrow> scan_cache" where
  "fresh_cache found = foldl (\<lambda>m (rel, e). bm_insert rel e m) bm_empty found"

text \<open>The winner's state, if the path has an entry.\<close>

definition winner_state :: "index \<Rightarrow> relpath \<Rightarrow> entry_state option" where
  "winner_state i p = (case index_get i p of None \<Rightarrow> None | Some entry \<Rightarrow> map_option hd_state (winner entry))"

definition scan_differs :: "index \<Rightarrow> relpath \<Rightarrow> content_sig \<Rightarrow> bool" where
  "scan_differs i rel sig \<longleftrightarrow> (case winner_state i rel of
      Some (Present prev) \<Rightarrow> \<not> sig_eq prev sig
    | _ \<Rightarrow> True)"

definition scan_missing :: "(relpath \<Rightarrow> bool) \<Rightarrow> (relpath, content_sig) btree_map \<Rightarrow> index \<Rightarrow> relpath \<Rightarrow> bool" where
  "scan_missing ignored on_disk i rel \<longleftrightarrow>
     (case winner_state i rel of Some (Present _) \<Rightarrow> True | _ \<Rightarrow> False) \<and> bm_get on_disk rel = None \<and> \<not> ignored rel"

definition scan_changes :: "(relpath \<Rightarrow> bool) \<Rightarrow> (relpath, content_sig) btree_map \<Rightarrow> index \<Rightarrow> local_change list" where
  "scan_changes ignored on_disk i =
     (let added = foldl (\<lambda>m (rel, sig). if scan_differs i rel sig
            then bm_insert rel \<lparr>lc_path = rel, lc_kind = Modified sig\<rparr> m else m) bm_empty (bm_entries on_disk);
          all = foldl (\<lambda>m (rel, _). if scan_missing ignored on_disk i rel
            then bm_insert rel \<lparr>lc_path = rel, lc_kind = Removed\<rparr> m else m) added (index_iter i)
      in bm_values all)"

definition scan_diff_cached ::
    "scan_api \<Rightarrow> (relpath \<Rightarrow> bool) \<Rightarrow> (bytes \<Rightarrow> content_hash) \<Rightarrow> tree \<Rightarrow> index \<Rightarrow> scan_cache \<Rightarrow>
     watch_error + local_change list \<times> scan_cache" where
  "scan_diff_cached sn ignored blake3 t i cache = (case walk sn ignored blake3 t cache None of
      Inl e \<Rightarrow> Inl e
    | Inr found \<Rightarrow> Inr (scan_changes ignored (on_disk_map found) i, fresh_cache found))"

definition scan_diff ::
    "scan_api \<Rightarrow> (relpath \<Rightarrow> bool) \<Rightarrow> (bytes \<Rightarrow> content_hash) \<Rightarrow> tree \<Rightarrow> index \<Rightarrow> watch_error + local_change list" where
  "scan_diff sn ignored blake3 t i = map_sum id fst (scan_diff_cached (sn\<lparr>sn_now_ns := 0\<rparr>) ignored blake3 t i bm_empty)"

section \<open>The session's scans\<close>

definition rescan_with_cache ::
    "('g, 's, 'e) world \<Rightarrow> scan_api \<Rightarrow> scan_cache \<Rightarrow> 's applier \<Rightarrow> watch_error + local_change list \<times> scan_cache" where
  "rescan_with_cache w sn cache ap =
     scan_diff_cached sn (path_ignored (w_globs w) (ss_config (ap_session ap))) (w_blake3 w) (ap_tree ap) (eng_index (eng ap)) cache"

fun take_local_changes :: "('g, 's, 'e) world \<Rightarrow> disk_api \<Rightarrow> 's applier \<Rightarrow> local_change list \<Rightarrow> 's exec_result" where
  "take_local_changes w d ap [] = Inr (ap, [])"
| "take_local_changes w d ap (c # cs) =
     and_then (with_engine w d ap (handle (eng ap) (Local c)) None None) (\<lambda>ap. take_local_changes w d ap cs)"

datatype scan_error = ScanFailed watch_error | ScanExec exec_error

definition startup_scan ::
    "('g, 's, 'e) world \<Rightarrow> disk_api \<Rightarrow> scan_api \<Rightarrow> scan_cache \<Rightarrow> 's applier \<Rightarrow> scan_error + 's applier \<times> scan_cache \<times> message list" where
  "startup_scan w d sn cache ap = (case rescan_with_cache w sn cache ap of
      Inl e \<Rightarrow> Inl (ScanFailed e)
    | Inr (changes, fresh) \<Rightarrow> (case take_local_changes w d ap changes of
          Inl e \<Rightarrow> Inl (ScanExec e)
        | Inr (ap, out) \<Rightarrow> Inr (ap, fresh, out)))"

text \<open>The flag says whether nothing has been processed for \<open>RESCAN_QUIESCENT\<close>.\<close>

definition maybe_rescan ::
    "('g, 's, 'e) world \<Rightarrow> disk_api \<Rightarrow> scan_api \<Rightarrow> bool \<Rightarrow> scan_cache \<Rightarrow> 's applier \<Rightarrow> scan_error + 's applier \<times> scan_cache \<times> message list" where
  "maybe_rescan w d sn quiescent cache ap =
     (if \<not> ss_rescan_pending (ap_session ap) \<or> \<not> quiescent then Inr (ap, cache, [])
      else startup_scan w d sn cache (ap\<lparr>ap_session := (ap_session ap)\<lparr>ss_rescan_pending := False\<rparr>\<rparr>))"

end
