(* ===== verification/Tomo_Rescan.thy ===== *)
theory Tomo_Rescan
  imports Tomo_Scan
begin

text \<open>
  What the scans of \<^theory_text>\<open>Tomo_Scan\<close> find and what the session makes of it. The walk finds
  exactly the files whose name, and the names of all directories above, are taken and not
  ignored (\<open>on_disk_scanned\<close>); the diff reports exactly the paths at which that differs from
  the index (\<open>scan_diff_cached_exact\<close>); a true cache changes nothing
  (\<open>scan_cache_transparent\<close>); the reported changes, taken one by one, leave an index that
  shows the tree (\<open>startup_scan_winners\<close>, \<open>startup_scan_settles\<close>).
\<close>

section \<open>Parents\<close>

lemma components_parent:
  assumes "0 < n"
  shows "components (RelPath (str_join ''/'' (take n (components p)))) = take n (components p)"
proof -
  have "take n (components p) \<noteq> []" using assms by (simp add: components_def)
  moreover have "\<forall>q \<in> set (take n (components p)). CHR ''/'' \<notin> set q"
    by (auto simp: components_def dest!: in_set_takeD str_split_no_sep)
  ultimately show ?thesis using str_split_join [of "take n (components p)" "CHR ''/''"] by (simp add: components_def)
qed

lemma length_parents: "length (parents p) = length (components p) - 1"
  by (simp add: parents_def)

lemma nth_parents: "i < length (parents p) \<Longrightarrow> parents p ! i = RelPath (str_join ''/'' (take (Suc i) (components p)))"
  by (simp add: parents_def)

lemma parents_nth:
  assumes "i < length (parents p)"
  shows "parents (parents p ! i) = take i (parents p)"
proof (rule nth_equalityI)
  have c: "components (parents p ! i) = take (Suc i) (components p)"
    using components_parent [of "Suc i" p] nth_parents [OF assms] by simp
  have l: "length (take (Suc i) (components p)) = Suc i" using assms by (simp add: length_parents)
  show "length (parents (parents p ! i)) = length (take i (parents p))"
    using assms l unfolding length_take length_parents c by simp
  fix j assume "j < length (parents (parents p ! i))"
  then have j: "j < i" using l unfolding length_parents c by simp
  then show "parents (parents p ! i) ! j = take i (parents p) ! j"
    using assms nth_parents [of j "parents p ! i"] l nth_parents [of j p] unfolding length_parents c by (simp add: min_def)
qed

definition dir_chain :: "relpath option \<Rightarrow> relpath list" where
  "dir_chain dir = (case dir of None \<Rightarrow> [] | Some d \<Rightarrow> parents d @ [d])"

lemma dir_chain_simps [simp]: "dir_chain None = []" "dir_chain (Some d) = parents d @ [d]"
  by (simp_all add: dir_chain_def)

lemma children_iff: "(p, n) \<in> set (children t dir) \<longleftrightarrow> bm_get t p = Some n \<and> parents p = dir_chain dir"
  by (auto simp: children_def dir_chain_def bm.mem_entries)

text \<open>A path below a directory is a child of it or below one of its children.\<close>

lemma below_child:
  assumes "take (length (dir_chain dir)) (parents p) = dir_chain dir" "parents p \<noteq> dir_chain dir"
  shows "\<exists>a \<in> set (parents p). parents a = dir_chain dir \<and> take (length (dir_chain (Some a))) (parents p) = dir_chain (Some a) \<and>
    set (drop (length (dir_chain dir)) (parents p)) = insert a (set (drop (length (dir_chain (Some a))) (parents p)))"
proof -
  let ?n = "length (dir_chain dir)"
  have n: "?n < length (parents p)"
  proof (rule ccontr)
    assume "\<not> ?n < length (parents p)"
    then have "take ?n (parents p) = parents p" by simp
    with assms show False by simp
  qed
  let ?a = "parents p ! ?n"
  have a: "parents ?a = dir_chain dir" using parents_nth [OF n] assms(1) by simp
  then have "dir_chain (Some ?a) = take (Suc ?n) (parents p)" using assms(1) n by (simp add: take_Suc_conv_app_nth)
  moreover from this have "length (dir_chain (Some ?a)) = Suc ?n" using n by simp
  moreover have "drop ?n (parents p) = ?a # drop (Suc ?n) (parents p)" by (rule Cons_nth_drop_Suc [symmetric, OF n])
  ultimately show ?thesis using a n by (intro bexI [of _ ?a]) simp_all
qed

lemma collect_concat:
  assumes "map_sum id concat (collect f xs) = Inr ys"
  shows "\<forall>x \<in> set xs. \<exists>l. f x = Inr l" "y \<in> set ys \<longleftrightarrow> (\<exists>x \<in> set xs. \<exists>l. f x = Inr l \<and> y \<in> set l)"
proof -
  have "(\<forall>x \<in> set xs. \<exists>l. f x = Inr l) \<and> (y \<in> set ys \<longleftrightarrow> (\<exists>x \<in> set xs. \<exists>l. f x = Inr l \<and> y \<in> set l))"
    using assms
  proof (induction xs arbitrary: ys)
    case (Cons x xs)
    obtain l ls where 1: "f x = Inr l" "collect f xs = Inr ls" "ys = l @ concat ls"
      using Cons.prems by (auto split: sum.splits)
    then show ?case using Cons.IH [of "concat ls"] by auto
  qed simp
  then show "\<forall>x \<in> set xs. \<exists>l. f x = Inr l" "y \<in> set ys \<longleftrightarrow> (\<exists>x \<in> set xs. \<exists>l. f x = Inr l \<and> y \<in> set l)" by blast+
qed

section \<open>What the walk finds\<close>

text \<open>A name the scan takes, and the paths it reaches through such names.\<close>

definition taken :: "scan_api \<Rightarrow> (relpath \<Rightarrow> bool) \<Rightarrow> relpath \<Rightarrow> bool" where
  "taken sn ignored p \<longleftrightarrow> scan_relativize sn p \<noteq> None \<and> \<not> ignored p"

definition enterable :: "scan_api \<Rightarrow> (relpath \<Rightarrow> bool) \<Rightarrow> tree \<Rightarrow> relpath \<Rightarrow> bool" where
  "enterable sn ignored t a \<longleftrightarrow> taken sn ignored a \<and> path_is_dir t a"

definition scanned_sig :: "scan_api \<Rightarrow> (relpath \<Rightarrow> bool) \<Rightarrow> (bytes \<Rightarrow> content_hash) \<Rightarrow> tree \<Rightarrow> relpath \<Rightarrow> content_sig option" where
  "scanned_sig sn ignored blake3 t p = (case bm_get t p of
      Some (FileNode bs exec mtime) \<Rightarrow>
        if taken sn ignored p \<and> list_all (enterable sn ignored t) (parents p)
        then Some \<lparr>sig_hash = blake3 bs, sig_size = of_nat (length bs), sig_exec = exec, sig_mtime_ms = mtime\<rparr> else None
    | _ \<Rightarrow> None)"

definition names_canonical :: "scan_api \<Rightarrow> tree \<Rightarrow> bool" where
  "names_canonical sn t \<longleftrightarrow> (\<forall>p node r. bm_get t p = Some node \<and> scan_relativize sn p = Some r \<longrightarrow> r = p)"

text \<open>The cache tells the truth about the files whose time and size it still matches.\<close>

definition cache_honest :: "scan_api \<Rightarrow> (bytes \<Rightarrow> content_hash) \<Rightarrow> tree \<Rightarrow> scan_cache \<Rightarrow> bool" where
  "cache_honest sn blake3 t cache \<longleftrightarrow> (\<forall>p bs exec mtime e. bm_get t p = Some (FileNode bs exec mtime) \<and> bm_get cache p = Some e \<and>
     ce_mtime_ns e = sn_mtime_ns sn p \<and> ce_size e = of_nat (length bs) \<longrightarrow> sig_hash (ce_sig e) = blake3 bs)"

lemma cache_honest_empty [simp]: "cache_honest sn blake3 t bm_empty"
  by (simp add: cache_honest_def)

lemma parent_file_dirs: "\<forall>a \<in> set as. path_is_dir t a \<Longrightarrow> parent_file t as = None"
  by (induction as) (auto simp: path_is_dir_def)

lemma visit_file_found:
  assumes "bm_get t p = Some (FileNode bs exec mtime)" "\<forall>a \<in> set (parents p). path_is_dir t a" "cache_honest sn blake3 t cache"
  shows "visit_file sn blake3 t cache p p bs exec mtime = Inr [(p, \<lparr>ce_mtime_ns = sn_mtime_ns sn p, ce_size = of_nat (length bs),
    ce_sig = \<lparr>sig_hash = blake3 bs, sig_size = of_nat (length bs), sig_exec = exec, sig_mtime_ms = mtime\<rparr>\<rparr>)]"
proof (cases "scan_decide (bm_get cache p) (sn_mtime_ns sn p) (of_nat (length bs)) (sn_now_ns sn)")
  case HashFile
  then show ?thesis using assms(1) parent_file_dirs [OF assms(2)] by (simp add: visit_file_def snapshot_def Let_def)
next
  case (ReuseHash h)
  then have "h = blake3 bs" using assms(1,3) by (auto simp: scan_decide_def cache_honest_def split: if_splits option.splits)
  then show ?thesis using ReuseHash by (simp add: visit_file_def Let_def)
qed

lemma walk_found:
  assumes "names_canonical sn t" "cache_honest sn blake3 t cache"
  shows "walk sn ignored blake3 t cache dir = Inr found \<Longrightarrow> \<forall>a \<in> set (dir_chain dir). path_is_dir t a \<Longrightarrow>
    ((p, e) \<in> set found \<longleftrightarrow>
      (\<exists>bs exec mtime. bm_get t p = Some (FileNode bs exec mtime) \<and> taken sn ignored p \<and>
         take (length (dir_chain dir)) (parents p) = dir_chain dir \<and>
         (\<forall>a \<in> set (drop (length (dir_chain dir)) (parents p)). enterable sn ignored t a) \<and>
         e = \<lparr>ce_mtime_ns = sn_mtime_ns sn p, ce_size = of_nat (length bs),
           ce_sig = \<lparr>sig_hash = blake3 bs, sig_size = of_nat (length bs), sig_exec = exec, sig_mtime_ms = mtime\<rparr>\<rparr>))"
  using assms
proof (induction sn ignored blake3 t cache dir arbitrary: found rule: walk.induct)
  case (1 sn ignored blake3 t old dir)
  note can = "1.prems"(3) and hon = "1.prems"(4) and dirs = "1.prems"(2)
  let ?f = "\<lambda>(p, node). case scan_relativize sn p of None \<Rightarrow> Inr []
           | Some rel \<Rightarrow> if ignored rel then Inr []
               else case node of DirNode \<Rightarrow> walk sn ignored blake3 t old (Some p)
               | FileNode bs exec mtime \<Rightarrow> visit_file sn blake3 t old p rel bs exec mtime"
  let ?n = "length (dir_chain dir)"
  have ok: "\<not> sn_unreadable sn dir" and col: "map_sum id concat (collect ?f (children t dir)) = Inr found"
    using "1.prems"(1) by (auto simp: walk.simps [of sn ignored blake3 t old dir] split: if_splits)
  show ?case (is "?l \<longleftrightarrow> ?r")
  proof
    assume ?l
    then obtain c node l where c: "(c, node) \<in> set (children t dir)" "?f (c, node) = Inr l" "(p, e) \<in> set l"
      unfolding collect_concat(2) [OF col] by auto
    have t: "bm_get t c = Some node" "parents c = dir_chain dir" using c(1) by (simp_all add: children_iff)
    then have r: "scan_relativize sn c = Some c" "\<not> ignored c"
      using c(2,3) can by (auto simp: names_canonical_def split: option.splits if_splits)
    show ?r
    proof (cases node)
      case DirNode
      have w: "walk sn ignored blake3 t old (Some c) = Inr l" using c(2) r DirNode by simp
      have cd: "\<forall>a \<in> set (dir_chain (Some c)). path_is_dir t a" using dirs t DirNode by (auto simp: path_is_dir_def)
      note ih = "1.IH" [OF ok c(1) refl r DirNode w cd can hon]
      from ih obtain bs exec mtime where x: "bm_get t p = Some (FileNode bs exec mtime)" "taken sn ignored p"
         "take (Suc ?n) (parents p) = dir_chain dir @ [c]" "\<forall>a \<in> set (drop (Suc ?n) (parents p)). enterable sn ignored t a"
         "e = \<lparr>ce_mtime_ns = sn_mtime_ns sn p, ce_size = of_nat (length bs),
           ce_sig = \<lparr>sig_hash = blake3 bs, sig_size = of_nat (length bs), sig_exec = exec, sig_mtime_ms = mtime\<rparr>\<rparr>"
        using c(3) t(2) by auto
      have "length (take (Suc ?n) (parents p)) = Suc ?n" unfolding x(3) by simp
      then have len: "?n < length (parents p)" by (simp add: min_def split: if_splits)
      have "take ?n (parents p) = take ?n (take (Suc ?n) (parents p))" by (simp add: min_def)
      then have "take ?n (parents p) = dir_chain dir" unfolding x(3) by simp
      moreover have "parents p ! ?n = c" using x(3) len by (metis nth_append_length nth_take lessI)
      then have "drop ?n (parents p) = c # drop (Suc ?n) (parents p)" using Cons_nth_drop_Suc [OF len] by simp
      moreover have "enterable sn ignored t c" using r t DirNode by (simp add: enterable_def taken_def path_is_dir_def)
      ultimately show ?thesis using x by auto
    next
      case (FileNode bs exec mtime)
      have "visit_file sn blake3 t old c c bs exec mtime = Inr l" using c(2) r FileNode by simp
      then show ?thesis
        using visit_file_found [of t c bs exec mtime sn blake3 old] t dirs FileNode hon c(3) r by (auto simp: taken_def)
    qed
  next
    assume ?r
    then obtain bs exec mtime where x: "bm_get t p = Some (FileNode bs exec mtime)" "taken sn ignored p"
         "take ?n (parents p) = dir_chain dir" "\<forall>a \<in> set (drop ?n (parents p)). enterable sn ignored t a"
         "e = \<lparr>ce_mtime_ns = sn_mtime_ns sn p, ce_size = of_nat (length bs),
           ce_sig = \<lparr>sig_hash = blake3 bs, sig_size = of_nat (length bs), sig_exec = exec, sig_mtime_ms = mtime\<rparr>\<rparr>"
      by blast
    show ?l
    proof (cases "parents p = dir_chain dir")
      case True
      then have c: "(p, FileNode bs exec mtime) \<in> set (children t dir)" using x(1) by (simp add: children_iff)
      obtain r where "scan_relativize sn p = Some r" using x(2) by (auto simp: taken_def)
      then have r: "scan_relativize sn p = Some p" using can x(1) by (auto simp: names_canonical_def)
      then have "?f (p, FileNode bs exec mtime) = Inr [(p, e)]"
        using visit_file_found [OF x(1) _ hon] True dirs x(2,5) by (simp add: taken_def)
      with c show ?thesis unfolding collect_concat(2) [OF col] by (intro bexI [of _ "(p, FileNode bs exec mtime)"]) simp_all
    next
      case False
      obtain a where a: "a \<in> set (parents p)" "parents a = dir_chain dir"
          "take (length (dir_chain (Some a))) (parents p) = dir_chain (Some a)"
          "set (drop ?n (parents p)) = insert a (set (drop (length (dir_chain (Some a))) (parents p)))"
        using below_child [OF x(3) False] by blast
      have "enterable sn ignored t a" using x(4) a(4) by blast
      then have ent: "bm_get t a = Some DirNode" "scan_relativize sn a \<noteq> None" "\<not> ignored a"
        by (simp_all add: enterable_def taken_def path_is_dir_def)
      then have r: "scan_relativize sn a = Some a" using can by (auto simp: names_canonical_def)
      have c: "(a, DirNode) \<in> set (children t dir)" using ent(1) a(2) by (simp add: children_iff)
      then obtain l where "?f (a, DirNode) = Inr l" using collect_concat(1) [OF col] by blast
      then have w: "walk sn ignored blake3 t old (Some a) = Inr l" using r ent(3) by simp
      have cd: "\<forall>b \<in> set (dir_chain (Some a)). path_is_dir t b" using dirs a(2) ent(1) by (auto simp: path_is_dir_def)
      note ih = "1.IH" [OF ok c refl r ent(3) refl w cd can hon]
      have "(p, e) \<in> set l" unfolding ih using x a(3,4) by auto
      then show ?thesis unfolding collect_concat(2) [OF col] using c w r ent(3)
        by (intro bexI [of _ "(a, DirNode)"]) simp_all
    qed
  qed
qed

lemma walk_scanned:
  assumes "names_canonical sn t" "cache_honest sn blake3 t cache" "walk sn ignored blake3 t cache None = Inr found"
  shows "(p, e) \<in> set found \<longleftrightarrow>
    (\<exists>sig. scanned_sig sn ignored blake3 t p = Some sig \<and> e = \<lparr>ce_mtime_ns = sn_mtime_ns sn p, ce_size = sig_size sig, ce_sig = sig\<rparr>)"
  using walk_found [OF assms(1,2,3)] by (auto simp: scanned_sig_def list_all_iff split: option.splits node.splits)

section \<open>The diff\<close>

lemma foldl_insert_found:
  assumes "\<And>p e e'. (p, e) \<in> set kvs \<Longrightarrow> (p, e') \<in> set kvs \<Longrightarrow> f p e = f p e'"
  shows "bm_get (foldl (\<lambda>m (p, e). if P p e then bm_insert p (f p e) m else m) m0 kvs) q =
    (case map_of (filter (\<lambda>(p, e). P p e) kvs) q of Some e \<Rightarrow> Some (f q e) | None \<Rightarrow> bm_get m0 q)"
  using assms
proof (induction kvs rule: rev_induct)
  case (snoc x kvs)
  obtain p e where x: "x = (p, e)" by (cases x)
  have IH: "bm_get (foldl (\<lambda>m (p, e). if P p e then bm_insert p (f p e) m else m) m0 kvs) q =
    (case map_of (filter (\<lambda>(p, e). P p e) kvs) q of Some e \<Rightarrow> Some (f q e) | None \<Rightarrow> bm_get m0 q)"
    by (rule snoc.IH) (use snoc.prems in auto)
  have "f p e = f p e'" if "map_of (filter (\<lambda>(p, e). P p e) kvs) p = Some e'" for e'
    using snoc.prems [of p e e'] map_of_SomeD [OF that] x by auto
  then show ?case using IH x by (auto simp: map_add_def split: option.splits)
qed simp

lemma on_disk_scanned:
  assumes "names_canonical sn t" "cache_honest sn blake3 t cache" "walk sn ignored blake3 t cache None = Inr found"
  shows "bm_get (on_disk_map found) p = scanned_sig sn ignored blake3 t p"
    "bm_get (fresh_cache found) p = map_option (\<lambda>sig. \<lparr>ce_mtime_ns = sn_mtime_ns sn p, ce_size = sig_size sig, ce_sig = sig\<rparr>)
       (scanned_sig sn ignored blake3 t p)"
proof -
  note found = walk_scanned [OF assms]
  have fn: "(q, e) \<in> set found \<Longrightarrow> (q, e') \<in> set found \<Longrightarrow> e = e'" for q e e' by (auto simp: found)
  have "map_of found p = map_option (\<lambda>sig. \<lparr>ce_mtime_ns = sn_mtime_ns sn p, ce_size = sig_size sig, ce_sig = sig\<rparr>)
       (scanned_sig sn ignored blake3 t p)"
  proof (cases "map_of found p")
    case None
    then have "(p, e) \<notin> set found" for e by (metis map_of_eq_None_iff image_eqI fst_conv)
    with None show ?thesis using found [of p] by (cases "scanned_sig sn ignored blake3 t p") auto
  next
    case (Some e)
    then show ?thesis using found [of p e] by (auto dest: map_of_SomeD)
  qed
  then show "bm_get (on_disk_map found) p = scanned_sig sn ignored blake3 t p"
    "bm_get (fresh_cache found) p = map_option (\<lambda>sig. \<lparr>ce_mtime_ns = sn_mtime_ns sn p, ce_size = sig_size sig, ce_sig = sig\<rparr>)
       (scanned_sig sn ignored blake3 t p)"
    using foldl_insert_found [of found "\<lambda>_. ce_sig" "\<lambda>_ _. True" bm_empty p]
      foldl_insert_found [of found "\<lambda>_ e. e" "\<lambda>_ _. True" bm_empty p] fn
    by (auto simp: on_disk_map_def fresh_cache_def case_prod_unfold split: option.splits)
qed

lemma fresh_cache_honest:
  assumes "names_canonical sn t" "cache_honest sn blake3 t cache" "walk sn ignored blake3 t cache None = Inr found"
  shows "cache_honest sn blake3 t (fresh_cache found)"
  unfolding cache_honest_def on_disk_scanned(2) [OF assms] by (auto simp: scanned_sig_def split: option.splits node.splits if_splits)

definition scan_change :: "(relpath \<Rightarrow> bool) \<Rightarrow> (relpath \<Rightarrow> content_sig option) \<Rightarrow> index \<Rightarrow> relpath \<Rightarrow> change_kind option" where
  "scan_change ignored disk i p = (case disk p of
      Some sig \<Rightarrow> if scan_differs i p sig then Some (Modified sig) else None
    | None \<Rightarrow> if (case winner_state i p of Some (Present _) \<Rightarrow> True | _ \<Rightarrow> False) \<and> \<not> ignored p then Some Removed else None)"

lemma bm_map_of_filter: "map_of (filter (\<lambda>(p, e). P p e) (bm_entries m)) q = (case bm_get m q of Some e \<Rightarrow> if P q e then Some e else None | None \<Rightarrow> None)"
proof (cases "map_of (filter (\<lambda>(p, e). P p e) (bm_entries m)) q")
  case None
  then show ?thesis by (auto simp: map_of_eq_None_iff image_iff bm.mem_entries split: option.splits)
next
  case (Some e)
  then show ?thesis by (auto dest!: map_of_SomeD simp: bm.mem_entries)
qed

text \<open>The list of changes, as a function of what is on disk: one per path, in path order.\<close>

lemma scan_changes_exact:
  "set (scan_changes ignored m i) = {\<lparr>lc_path = p, lc_kind = k\<rparr> | p k. scan_change ignored (bm_get m) i p = Some k}"
  "sorted_wrt (<) (map lc_path (scan_changes ignored m i))"
proof -
  define added where "added = foldl (\<lambda>m (rel, sig). if scan_differs i rel sig
            then bm_insert rel \<lparr>lc_path = rel, lc_kind = Modified sig\<rparr> m else m) bm_empty (bm_entries m)"
  define all where "all = foldl (\<lambda>m' (rel, _). if scan_missing ignored m i rel
            then bm_insert rel \<lparr>lc_path = rel, lc_kind = Removed\<rparr> m' else m') added (index_iter i)"
  have c: "scan_changes ignored m i = bm_values all" by (simp add: scan_changes_def added_def all_def)
  have fn: "(p, e) \<in> set (bm_entries m'') \<Longrightarrow> (p, e') \<in> set (bm_entries m'') \<Longrightarrow> e = e'"
    for m'' :: "(relpath, 'b) btree_map" and p e e' by (simp add: bm.mem_entries)
  have "bm_get added p = (case bm_get m p of Some sig \<Rightarrow> if scan_differs i p sig then Some \<lparr>lc_path = p, lc_kind = Modified sig\<rparr> else None
      | None \<Rightarrow> None)" for p
    unfolding added_def
    by (subst foldl_insert_found [where f = "\<lambda>rel sig. \<lparr>lc_path = rel, lc_kind = Modified sig\<rparr>" and P = "scan_differs i"])
      (auto simp: bm_map_of_filter split: option.splits dest: fn)
  moreover have "bm_get all p = (if index_get i p \<noteq> None \<and> scan_missing ignored m i p then Some \<lparr>lc_path = p, lc_kind = Removed\<rparr> else bm_get added p)" for p
    unfolding all_def index_iter_def index_get_def
    by (subst foldl_insert_found [where f = "\<lambda>rel _. \<lparr>lc_path = rel, lc_kind = Removed\<rparr>" and P = "\<lambda>rel _. scan_missing ignored m i rel"])
      (auto simp: bm_map_of_filter split: option.splits)
  ultimately have get: "bm_get all p = map_option (\<lambda>k. \<lparr>lc_path = p, lc_kind = k\<rparr>) (scan_change ignored (bm_get m) i p)" for p
    by (auto simp: scan_change_def scan_missing_def winner_state_def split: option.splits)
  show "set (scan_changes ignored m i) = {\<lparr>lc_path = p, lc_kind = k\<rparr> | p k. scan_change ignored (bm_get m) i p = Some k}"
    unfolding c by (auto simp: bm_values_mem get)
  have "lc_path x = p" if "(p, x) \<in> set (bm_entries all)" for p x using that by (auto simp: bm.mem_entries get)
  then have "map lc_path (bm_values all) = map fst (bm_entries all)" by (auto simp: bm_values_def)
  then show "sorted_wrt (<) (map lc_path (scan_changes ignored m i))" unfolding c using bm_entries_ascending [of all] by simp
qed

lemma sorted_paths_unique:
  assumes "sorted_wrt (<) (map lc_path xs)" "sorted_wrt (<) (map lc_path ys)" "set xs = set ys"
  shows "xs = ys"
proof -
  have "distinct (map lc_path xs)" "distinct (map lc_path ys)" using assms by (auto dest: sorted_wrt_less_distinct)
  moreover have "sorted (map lc_path xs)" "sorted (map lc_path ys)"
    using assms(1,2) by (auto simp: strict_sorted_iff)
  ultimately show ?thesis using assms(3) by (intro map_sorted_distinct_set_unique [of lc_path]) (auto simp: distinct_map)
qed

text \<open>What a scan reports, with a cache that tells the truth.\<close>

lemma scan_diff_cached_exact:
  assumes "names_canonical sn t" "cache_honest sn blake3 t cache"
    and "scan_diff_cached sn ignored blake3 t i cache = Inr (changes, fresh)"
  shows "set changes = {\<lparr>lc_path = p, lc_kind = k\<rparr> | p k. scan_change ignored (scanned_sig sn ignored blake3 t) i p = Some k}"
    "sorted_wrt (<) (map lc_path changes)" "cache_honest sn blake3 t fresh"
proof -
  obtain found where w: "walk sn ignored blake3 t cache None = Inr found"
    and c: "changes = scan_changes ignored (on_disk_map found) i" "fresh = fresh_cache found"
    using assms(3) by (auto simp: scan_diff_cached_def split: sum.splits)
  have "bm_get (on_disk_map found) = scanned_sig sn ignored blake3 t"
    using on_disk_scanned(1) [OF assms(1,2) w] by (rule ext)
  then show "set changes = {\<lparr>lc_path = p, lc_kind = k\<rparr> | p k. scan_change ignored (scanned_sig sn ignored blake3 t) i p = Some k}"
    "sorted_wrt (<) (map lc_path changes)"
    using scan_changes_exact [of ignored "on_disk_map found" i] unfolding c by simp_all
  show "cache_honest sn blake3 t fresh" unfolding c by (rule fresh_cache_honest [OF assms(1,2) w])
qed

section \<open>The cache is transparent\<close>

lemma walk_any_cache:
  assumes "names_canonical sn t" "cache_honest sn blake3 t cache" "cache_honest sn blake3 t cache'"
  shows "\<forall>a \<in> set (dir_chain dir). path_is_dir t a \<Longrightarrow>
    walk (sn\<lparr>sn_now_ns := n\<rparr>) ignored blake3 t cache' dir = walk sn ignored blake3 t cache dir"
  using assms
proof (induction sn ignored blake3 t cache dir rule: walk.induct)
  case (1 sn ignored blake3 t old dir)
  let ?sn = "sn\<lparr>sn_now_ns := n\<rparr>"
  have rel: "scan_relativize ?sn = scan_relativize sn" by (simp add: scan_relativize_def canonicalize_fs_path_def fun_eq_iff)
  have honest: "cache_honest ?sn blake3 t cache'" using "1.prems"(4) by (simp add: cache_honest_def)
  show ?case
  proof (cases "sn_unreadable sn dir")
    case True
    then show ?thesis by (simp add: walk.simps)
  next
    case False
    have "(case scan_relativize ?sn p of None \<Rightarrow> Inr []
           | Some r \<Rightarrow> if ignored r then Inr []
               else case node of DirNode \<Rightarrow> walk ?sn ignored blake3 t cache' (Some p)
               | FileNode bs exec mtime \<Rightarrow> visit_file ?sn blake3 t cache' p r bs exec mtime) =
          (case scan_relativize sn p of None \<Rightarrow> Inr []
           | Some r \<Rightarrow> if ignored r then Inr []
               else case node of DirNode \<Rightarrow> walk sn ignored blake3 t old (Some p)
               | FileNode bs exec mtime \<Rightarrow> visit_file sn blake3 t old p r bs exec mtime)"
      if c: "(p, node) \<in> set (children t dir)" for p node
    proof (cases "scan_relativize sn p")
      case (Some r)
      have t: "bm_get t p = Some node" "parents p = dir_chain dir" using c by (simp_all add: children_iff)
      then have "r = p" using "1.prems"(2) Some by (auto simp: names_canonical_def)
      show ?thesis
      proof (cases "ignored r")
        case ign: False
        show ?thesis
        proof (cases node)
          case DirNode
          have "\<forall>a \<in> set (dir_chain (Some p)). path_is_dir t a" using "1.prems"(1) t DirNode by (auto simp: path_is_dir_def)
          then show ?thesis
            using "1.IH" [OF False c refl Some ign DirNode] "1.prems"(2-4) Some ign DirNode \<open>r = p\<close> rel by simp
        next
          case (FileNode bs exec mtime)
          then have "visit_file sn blake3 t old p p bs exec mtime = visit_file ?sn blake3 t cache' p p bs exec mtime"
            using visit_file_found [of t p bs exec mtime sn blake3 old] visit_file_found [of t p bs exec mtime ?sn blake3 cache']
              t "1.prems" honest by simp
          then show ?thesis using Some ign FileNode \<open>r = p\<close> rel by simp
        qed
      qed (use Some rel in simp)
    qed (use rel in simp)
    then have "collect (\<lambda>(p, node). case scan_relativize ?sn p of None \<Rightarrow> Inr []
           | Some r \<Rightarrow> if ignored r then Inr []
               else case node of DirNode \<Rightarrow> walk ?sn ignored blake3 t cache' (Some p)
               | FileNode bs exec mtime \<Rightarrow> visit_file ?sn blake3 t cache' p r bs exec mtime) (children t dir) =
        collect (\<lambda>(p, node). case scan_relativize sn p of None \<Rightarrow> Inr []
           | Some r \<Rightarrow> if ignored r then Inr []
               else case node of DirNode \<Rightarrow> walk sn ignored blake3 t old (Some p)
               | FileNode bs exec mtime \<Rightarrow> visit_file sn blake3 t old p r bs exec mtime) (children t dir)"
      by (intro collect_cong refl) auto
    then show ?thesis using False
      by (simp add: walk.simps [of ?sn ignored blake3 t cache' dir] walk.simps [of sn ignored blake3 t old dir])
  qed
qed

text \<open>C28: The scan cache only saves time: as long as a remembered time and size stand for the
  remembered content, a scan with the cache (whatever the clock says) reports the same changes,
  or the same error, as one that hashes every file, and the cache it rebuilds is true again.\<close>

theorem scan_cache_transparent:
  assumes "names_canonical sn t" "cache_honest sn blake3 t cache"
  shows "map_sum id fst (scan_diff_cached sn ignored blake3 t i cache) = scan_diff sn ignored blake3 t i \<and>
    pred_sum (\<lambda>_. True) (\<lambda>(_, fresh). cache_honest sn blake3 t fresh) (scan_diff_cached sn ignored blake3 t i cache)"
proof -
  have "walk (sn\<lparr>sn_now_ns := 0\<rparr>) ignored blake3 t bm_empty None = walk sn ignored blake3 t cache None"
    by (rule walk_any_cache [OF assms]) simp_all
  then have "map_sum id fst (scan_diff_cached sn ignored blake3 t i cache) = scan_diff sn ignored blake3 t i"
    by (simp add: scan_diff_def scan_diff_cached_def split: sum.splits)
  then show ?thesis using scan_diff_cached_exact(3) [OF assms, of ignored i]
    by (cases "scan_diff_cached sn ignored blake3 t i cache") auto
qed

section \<open>Taking the changes\<close>

lemma go_offline_frame: "ss_engine (go_offline w s) = ss_engine s" "ss_config (go_offline w s) = ss_config s"
  by (simp_all add: go_offline_def suspend_frame suspend_transfers_def abandon_pending_installs_def abandon_all_assemblies_def
      foldl_keeps [of ss_engine] foldl_keeps [of ss_config] clean_assembly_chunks_def)

lemma prepare_send_frame: "ss_engine (fst (prepare_send w s c)) = ss_engine s" "ss_config (fst (prepare_send w s c)) = ss_config s"
  by (auto simp: prepare_send_def session_allows_def build_manifest_def Let_def split: prod.splits bool.splits change_kind.splits)

lemma do_send_frame: "do_send w s c = Inr (s', es) \<Longrightarrow> ss_engine s' = ss_engine s \<and> ss_config s' = ss_config s"
  using prepare_send_frame [of w s c]
  by (auto simp: do_send_def send_prepared_def send_def go_offline_frame split: prod.splits option.splits if_splits)

lemma note_version_frame:
  "note_version w d ap p st v l now = Inr (ap', out) \<Longrightarrow> ap_session ap' = ap_session ap \<and> ap_tree ap' = ap_tree ap"
  by (auto simp: note_version_def session_record_version_def store_version_def Let_def
      split: option.splits entry_state.splits capture_decision.splits sum.splits prod.splits)

definition same_place :: "'s applier \<Rightarrow> 's applier \<Rightarrow> bool" where
  "same_place ap ap' \<longleftrightarrow> ap_tree ap' = ap_tree ap \<and> ss_config (ap_session ap') = ss_config (ap_session ap)"

lemma execute_local_frame:
  assumes "execute w d ap [Send c, RecordVersion p s v] None None = Inr (ap', out)"
  shows "same_place ap ap' \<and> eng ap' = eng ap"
proof -
  obtain ap1 o1 ap2 o2 where "on_session ap (do_send (tree_world w ap) (ap_session ap) c) = Inr (ap1, o1)"
    "note_version w d ap1 p s v True (dk_now_ms d) = Inr (ap2, o2)" "ap' = ap2"
    using assms by (auto simp: execute_def captures_of_def and_then_Inr)
  then show ?thesis
    by (auto simp: on_session_def same_place_def eng_def split: sum.splits dest!: do_send_frame note_version_frame)
qed

definition no_echoes :: "engine \<Rightarrow> bool" where
  "no_echoes e \<longleftrightarrow> (\<forall>p t. \<not> is_expected_echo e p t)"

lemma no_echoes_new [simp]: "no_echoes (engine_new r i)"
  by (simp add: no_echoes_def is_expected_echo_def engine_new_def echo_contains_def echo_new_def)

lemma winner_state_single [simp]: "winner_state (index_put i p (entry_single v s)) q = (if q = p then Some s else winner_state i q)"
  by (simp add: winner_state_def index_get_put)

lemma disk_state_winner: "disk_state e p = (case winner_state (eng_index e) p of None \<Rightarrow> Tombstone | Some s \<Rightarrow> s)"
  by (simp add: disk_state_def winner_state_def split: option.splits)

text \<open>The entry a local change leaves: one head, the merged clock ticked.\<close>

definition committed :: "engine \<Rightarrow> relpath \<Rightarrow> change_kind \<Rightarrow> entry" where
  "committed e p k = entry_single (vc_tick (base_clock e p) (eng_replica e)) (state_from_kind k)"

lemma committed_cong:
  "index_get (eng_index e) p = index_get (eng_index e') p \<Longrightarrow> eng_replica e = eng_replica e' \<Longrightarrow> committed e p k = committed e' p k"
  by (simp add: committed_def base_clock_def)

text \<open>A change that the index does not show yet is committed and touches nothing else.\<close>

lemma local_change_taken:
  assumes "with_engine w d ap (handle (eng ap) (Local c)) None None = Inr (ap', out)"
    and "engine_wf (eng ap)" "\<not> is_expected_echo (eng ap) (lc_path c) (observed (lc_kind c))" "event_ok (eng ap) (Local c)"
    and "\<not> state_eq (disk_state (eng ap) (lc_path c)) (state_from_kind (lc_kind c))"
  shows "same_place ap ap' \<and> engine_wf (eng ap') \<and> eng_echo (eng ap') = eng_echo (eng ap) \<and> eng_replica (eng ap') = eng_replica (eng ap) \<and>
    (\<forall>q. q \<noteq> lc_path c \<longrightarrow> index_get (eng_index (eng ap')) q = index_get (eng_index (eng ap)) q) \<and>
    winner_state (eng_index (eng ap')) (lc_path c) = Some (state_from_kind (lc_kind c)) \<and>
    index_get (eng_index (eng ap')) (lc_path c) = Some (committed (eng ap) (lc_path c) (lc_kind c))"
proof -
  let ?r = "local_commit (eng ap) (lc_path c) (base_clock (eng ap) (lc_path c)) (state_from_kind (lc_kind c)) (lc_kind c)"
  obtain e acts where r: "?r = (e, acts)" by (cases ?r)
  have h: "handle (eng ap) (Local c) = Some (e, acts)"
    using handle_local_edit [OF assms(2,3)] assms(5) r by (simp add: handle_def)
  obtain v where acts: "acts = [Send \<lparr>rc_path = lc_path c, rc_kind = lc_kind c, rc_version = v\<rparr>, RecordVersion (lc_path c) (state_from_kind (lc_kind c)) v]"
    and e: "e = (eng ap)\<lparr>eng_index := index_put (eng_index (eng ap)) (lc_path c) (entry_single v (state_from_kind (lc_kind c)))\<rparr>"
    and v: "committed (eng ap) (lc_path c) (lc_kind c) = entry_single v (state_from_kind (lc_kind c))"
    using r by (auto simp: local_commit_def Let_def committed_def)
  let ?ap = "ap\<lparr>ap_session := (ap_session ap)\<lparr>ss_engine := e\<rparr>\<rparr>"
  have "same_place ?ap ap' \<and> eng ap' = eng ?ap"
    by (rule execute_local_frame) (use assms(1) h acts in \<open>simp add: with_engine_def\<close>)
  then have fr: "same_place ap ap'" "eng ap' = e" by (simp_all add: same_place_def eng_def)
  have "engine_wf e" by (rule local_commit_wf [OF assms(2) _ r]) (use assms(4) in simp)
  then show ?thesis using fr v by (simp add: e index_get_put)
qed

lemma take_one:
  assumes "with_engine w d ap (handle (eng ap) (Local c)) None None = Inr (ap', out)"
    and "engine_wf (eng ap)" "no_echoes (eng ap)" "event_ok (eng ap) (Local c)"
    and "\<not> state_eq (disk_state (eng ap) (lc_path c)) (state_from_kind (lc_kind c))"
  shows "same_place ap ap' \<and> engine_wf (eng ap') \<and> no_echoes (eng ap') \<and> eng_replica (eng ap') = eng_replica (eng ap) \<and>
    (\<forall>q. index_get (eng_index (eng ap')) q =
      (if q = lc_path c then Some (committed (eng ap) q (lc_kind c)) else index_get (eng_index (eng ap)) q))"
proof -
  have "\<not> is_expected_echo (eng ap) (lc_path c) (observed (lc_kind c))" using assms(3) by (simp add: no_echoes_def)
  from local_change_taken [OF assms(1,2) this assms(4,5)] assms(3) show ?thesis
    by (simp add: no_echoes_def is_expected_echo_def)
qed

lemma take_all:
  assumes "take_local_changes w d ap cs = Inr (ap', out)" "engine_wf (eng ap)" "no_echoes (eng ap)"
    and "distinct (map lc_path cs)" "\<forall>c \<in> set cs. event_ok (eng ap) (Local c)"
    and "\<forall>c \<in> set cs. \<not> state_eq (disk_state (eng ap) (lc_path c)) (state_from_kind (lc_kind c))"
  shows "same_place ap ap' \<and> engine_wf (eng ap') \<and> eng_replica (eng ap') = eng_replica (eng ap) \<and> (\<forall>p. index_get (eng_index (eng ap')) p =
    (case map_of (map (\<lambda>c. (lc_path c, lc_kind c)) cs) p of Some k \<Rightarrow> Some (committed (eng ap) p k) | None \<Rightarrow> index_get (eng_index (eng ap)) p))"
  using assms
proof (induction cs arbitrary: ap out)
  case (Cons c cs)
  obtain ap1 o1 o2 where 1: "with_engine w d ap (handle (eng ap) (Local c)) None None = Inr (ap1, o1)"
      "take_local_changes w d ap1 cs = Inr (ap', o2)"
    using Cons.prems(1) by (auto simp: and_then_Inr)
  have c: "event_ok (eng ap) (Local c)" "\<not> state_eq (disk_state (eng ap) (lc_path c)) (state_from_kind (lc_kind c))"
    using Cons.prems(5,6) by (meson list.set_intros(1))+
  have t: "same_place ap ap1" "engine_wf (eng ap1)" "no_echoes (eng ap1)" "eng_replica (eng ap1) = eng_replica (eng ap)"
      "\<And>q. index_get (eng_index (eng ap1)) q =
        (if q = lc_path c then Some (committed (eng ap) q (lc_kind c)) else index_get (eng_index (eng ap)) q)"
    using take_one [OF 1(1) Cons.prems(2,3) c] by blast+
  have fresh: "lc_path c \<notin> lc_path ` set cs" using Cons.prems(4) by simp
  have keep: "index_get (eng_index (eng ap1)) (lc_path b) = index_get (eng_index (eng ap)) (lc_path b)" if "b \<in> set cs" for b
  proof -
    have "lc_path b \<noteq> lc_path c" using that fresh by (metis image_eqI)
    then show ?thesis by (simp add: t(5))
  qed
  have IH: "same_place ap1 ap' \<and> engine_wf (eng ap') \<and> eng_replica (eng ap') = eng_replica (eng ap1) \<and> (\<forall>p. index_get (eng_index (eng ap')) p =
    (case map_of (map (\<lambda>c. (lc_path c, lc_kind c)) cs) p of Some k \<Rightarrow> Some (committed (eng ap1) p k) | None \<Rightarrow> index_get (eng_index (eng ap1)) p))"
  proof (rule Cons.IH [OF 1(2) t(2,3)])
    show "\<forall>b \<in> set cs. event_ok (eng ap1) (Local b)"
      using Cons.prems(5) keep t(4) by (auto simp: base_clock_def)
    show "\<forall>b \<in> set cs. \<not> state_eq (disk_state (eng ap1) (lc_path b)) (state_from_kind (lc_kind b))"
    proof
      fix b assume b: "b \<in> set cs"
      then have "\<not> state_eq (disk_state (eng ap) (lc_path b)) (state_from_kind (lc_kind b))" using Cons.prems(6) by simp
      then show "\<not> state_eq (disk_state (eng ap1) (lc_path b)) (state_from_kind (lc_kind b))"
        using disk_state_cong [OF keep [OF b]] by simp
    qed
  qed (use Cons.prems(4) in simp)
  have none: "map_of (map (\<lambda>c. (lc_path c, lc_kind c)) cs) (lc_path c) = None"
    using fresh by (simp add: map_of_eq_None_iff image_image)
  have same: "committed (eng ap1) p k = committed (eng ap) p k" if "map_of (map (\<lambda>c. (lc_path c, lc_kind c)) cs) p = Some k" for p k
  proof (rule committed_cong [OF _ t(4)])
    have "p \<noteq> lc_path c" using that none by auto
    then show "index_get (eng_index (eng ap1)) p = index_get (eng_index (eng ap)) p" by (simp add: t(5))
  qed
  show ?case using IH t(1,4,5) none same by (auto simp: same_place_def split: option.splits)
qed (simp add: same_place_def)

text \<open>The index shows a path as the scan sees it.\<close>

definition shows_disk :: "(relpath \<Rightarrow> bool) \<Rightarrow> (relpath \<Rightarrow> content_sig option) \<Rightarrow> index \<Rightarrow> relpath \<Rightarrow> bool" where
  "shows_disk ignored disk i p \<longleftrightarrow> (case disk p of
      Some sig \<Rightarrow> (case winner_state i p of Some (Present s) \<Rightarrow> sig_eq s sig | _ \<Rightarrow> False)
    | None \<Rightarrow> ignored p \<or> (case winner_state i p of Some (Present _) \<Rightarrow> False | _ \<Rightarrow> True))"

lemma shows_disk_cong: "winner_state i p = winner_state j p \<Longrightarrow> shows_disk ignored disk i p = shows_disk ignored disk j p"
  unfolding shows_disk_def by (simp cong: option.case_cong)

lemma shows_disk_iff: "shows_disk ignored disk i p \<longleftrightarrow> scan_change ignored disk i p = None"
  by (auto simp: shows_disk_def scan_change_def scan_differs_def split: option.splits entry_state.splits)

lemma scan_change_real:
  "scan_change ignored disk (eng_index e) p = Some k \<Longrightarrow> \<not> state_eq (disk_state e p) (state_from_kind k)"
  by (auto simp: scan_change_def scan_differs_def disk_state_winner state_from_kind_def split: option.splits entry_state.splits if_splits)

lemma taken_now [simp]: "taken (sn\<lparr>sn_now_ns := n\<rparr>) = taken sn"
  by (simp add: taken_def scan_relativize_def canonicalize_fs_path_def fun_eq_iff cong: option.case_cong node.case_cong)

lemma enterable_now [simp]: "enterable (sn\<lparr>sn_now_ns := n\<rparr>) = enterable sn"
  by (simp add: enterable_def fun_eq_iff cong: option.case_cong node.case_cong)

lemma scanned_sig_now [simp]: "scanned_sig (sn\<lparr>sn_now_ns := n\<rparr>) = scanned_sig sn"
  by (simp add: scanned_sig_def taken_def enterable_def scan_relativize_def canonicalize_fs_path_def fun_eq_iff cong: option.case_cong node.case_cong)

text \<open>What the startup scan makes of every path.\<close>

lemma startup_scan_winners:
  assumes "engine_wf (eng ap)" "no_echoes (eng ap)" "\<forall>p. vc_get (base_clock (eng ap) p) (eng_replica (eng ap)) \<noteq> - 1"
    and "names_canonical sn (ap_tree ap)" "cache_honest sn (w_blake3 w) (ap_tree ap) cache"
    and "startup_scan w d sn cache ap = Inr (ap', fresh, out)"
  defines "ign \<equiv> path_ignored (w_globs w) (ss_config (ap_session ap))"
  shows "same_place ap ap' \<and> engine_wf (eng ap') \<and> eng_replica (eng ap') = eng_replica (eng ap)" "cache_honest sn (w_blake3 w) (ap_tree ap) fresh"
    "\<exists>found. walk sn ign (w_blake3 w) (ap_tree ap) cache None = Inr found"
    "winner_state (eng_index (eng ap')) p =
      (case scan_change ign (scanned_sig sn ign (w_blake3 w) (ap_tree ap)) (eng_index (eng ap)) p of
         Some k \<Rightarrow> Some (state_from_kind k) | None \<Rightarrow> winner_state (eng_index (eng ap)) p)"
    "index_get (eng_index (eng ap')) p =
      (case scan_change ign (scanned_sig sn ign (w_blake3 w) (ap_tree ap)) (eng_index (eng ap)) p of
         Some k \<Rightarrow> Some (committed (eng ap) p k) | None \<Rightarrow> index_get (eng_index (eng ap)) p)"
proof -
  let ?disk = "scanned_sig sn ign (w_blake3 w) (ap_tree ap)"
  obtain cs where sc: "scan_diff_cached sn ign (w_blake3 w) (ap_tree ap) (eng_index (eng ap)) cache = Inr (cs, fresh)"
    and tk: "take_local_changes w d ap cs = Inr (ap', out)"
    using assms(6) by (auto simp: ign_def startup_scan_def rescan_with_cache_def split: sum.splits)
  note ex = scan_diff_cached_exact [OF assms(4,5) sc]
  have dist: "distinct (map lc_path cs)" using ex(2) by (rule sorted_wrt_less_distinct)
  have ok: "\<forall>c \<in> set cs. event_ok (eng ap) (Local c)" using assms(3) by simp
  have real: "\<forall>c \<in> set cs. \<not> state_eq (disk_state (eng ap) (lc_path c)) (state_from_kind (lc_kind c))"
    unfolding ex(1) by (auto dest: scan_change_real)
  note t = take_all [OF tk assms(1,2) dist ok real]
  have "map_of (map (\<lambda>c. (lc_path c, lc_kind c)) cs) p = scan_change ign ?disk (eng_index (eng ap)) p"
  proof (cases "map_of (map (\<lambda>c. (lc_path c, lc_kind c)) cs) p")
    case None
    then have "\<lparr>lc_path = p, lc_kind = k\<rparr> \<notin> set cs" for k by (force simp: map_of_eq_None_iff)
    then show ?thesis using None unfolding ex(1) by (cases "scan_change ign ?disk (eng_index (eng ap)) p") auto
  next
    case (Some k)
    then obtain c where "c \<in> set cs" "lc_path c = p" "lc_kind c = k" by (auto dest!: map_of_SomeD)
    then show ?thesis using Some unfolding ex(1) by auto
  qed
  then show got: "index_get (eng_index (eng ap')) p = (case scan_change ign ?disk (eng_index (eng ap)) p of
      Some k \<Rightarrow> Some (committed (eng ap) p k) | None \<Rightarrow> index_get (eng_index (eng ap)) p)"
    using t by simp
  then show "winner_state (eng_index (eng ap')) p = (case scan_change ign ?disk (eng_index (eng ap)) p of
      Some k \<Rightarrow> Some (state_from_kind k) | None \<Rightarrow> winner_state (eng_index (eng ap)) p)"
    by (cases "scan_change ign ?disk (eng_index (eng ap)) p") (simp_all add: winner_state_def committed_def)
  show "same_place ap ap' \<and> engine_wf (eng ap') \<and> eng_replica (eng ap') = eng_replica (eng ap)" using t by blast
  show "cache_honest sn (w_blake3 w) (ap_tree ap) fresh" by (rule ex(3))
  show "\<exists>found. walk sn ign (w_blake3 w) (ap_tree ap) cache None = Inr found"
    using sc by (auto simp: scan_diff_cached_def split: sum.splits)
qed

text \<open>C27: The startup scan settles. What the walk finds is \<open>scanned_sig\<close>: the regular files whose
  name is a project path and not ignored and above which there are only directories that are not
  ignored either. When the scan has run, the index shows exactly that: a file found has its
  signature as the winner, and a path with nothing found has no file as its winner, unless the
  path itself is ignored, which then keeps the entry it had. So a file below a directory the
  walk does not enter counts as gone, though it is on disk; the next theorem is about that.
  Paths that were shown before keep their entries, the disk is left alone, and scanning again,
  with the rebuilt cache and at any later time, reports nothing. Assumed: the index is well
  formed, the freshly loaded engine expects no echoes, this replica's counter is not about to
  wrap at any path, the names in the tree are canonical, the cache is true, and the scan
  returns.\<close>

theorem startup_scan_settles:
  assumes "engine_wf (eng ap)" "no_echoes (eng ap)" "\<forall>p. vc_get (base_clock (eng ap) p) (eng_replica (eng ap)) \<noteq> - 1"
    and "names_canonical sn (ap_tree ap)" "cache_honest sn (w_blake3 w) (ap_tree ap) cache"
    and "startup_scan w d sn cache ap = Inr (ap', fresh, out)"
  shows "(\<forall>p. shows_disk (path_ignored (w_globs w) (ss_config (ap_session ap)))
      (scanned_sig sn (path_ignored (w_globs w) (ss_config (ap_session ap))) (w_blake3 w) (ap_tree ap')) (eng_index (eng ap')) p) \<and>
    (\<forall>p. shows_disk (path_ignored (w_globs w) (ss_config (ap_session ap)))
        (scanned_sig sn (path_ignored (w_globs w) (ss_config (ap_session ap))) (w_blake3 w) (ap_tree ap')) (eng_index (eng ap)) p \<longrightarrow>
      index_get (eng_index (eng ap')) p = index_get (eng_index (eng ap)) p) \<and>
    ap_tree ap' = ap_tree ap \<and>
    (\<exists>again. rescan_with_cache w (sn\<lparr>sn_now_ns := n\<rparr>) fresh ap' = Inr ([], again))"
proof -
  let ?ign = "path_ignored (w_globs w) (ss_config (ap_session ap))" and ?t = "ap_tree ap" and ?b = "w_blake3 w"
  let ?disk = "scanned_sig sn ?ign ?b ?t"
  note win = startup_scan_winners [OF assms]
  have tree: "ap_tree ap' = ?t" "ss_config (ap_session ap') = ss_config (ap_session ap)" using win(1) by (simp_all add: same_place_def)
  have vis: "shows_disk ?ign ?disk (eng_index (eng ap')) p" for p
  proof (cases "scan_change ?ign ?disk (eng_index (eng ap)) p")
    case None
    then have "winner_state (eng_index (eng ap')) p = winner_state (eng_index (eng ap)) p" using win(4) [of p] by simp
    then show ?thesis using None shows_disk_cong [of "eng_index (eng ap')" p "eng_index (eng ap)"]
      unfolding shows_disk_iff [symmetric] by simp
  next
    case (Some kd)
    then have "winner_state (eng_index (eng ap')) p = Some (state_from_kind kd)" using win(4) [of p] by simp
    then show ?thesis using Some
      by (auto simp: shows_disk_def scan_change_def state_from_kind_def split: option.splits if_splits)
  qed
  have keep: "shows_disk ?ign ?disk (eng_index (eng ap)) p \<Longrightarrow> index_get (eng_index (eng ap')) p = index_get (eng_index (eng ap)) p" for p
    using win(5) [of p] by (simp add: shows_disk_iff)
  let ?sn = "sn\<lparr>sn_now_ns := n\<rparr>"
  have "walk ?sn ?ign ?b ?t fresh None = walk sn ?ign ?b ?t cache None"
    by (rule walk_any_cache [OF assms(4,5) win(2)]) simp
  then obtain found where f: "walk ?sn ?ign ?b ?t fresh None = Inr found" using win(3) by auto
  define cs' where "cs' = scan_changes ?ign (on_disk_map found) (eng_index (eng ap'))"
  have again: "scan_diff_cached ?sn ?ign ?b ?t (eng_index (eng ap')) fresh = Inr (cs', fresh_cache found)"
    using f by (simp add: scan_diff_cached_def cs'_def)
  have can: "names_canonical ?sn ?t" using assms(4) by (simp add: names_canonical_def scan_relativize_def canonicalize_fs_path_def)
  have hon: "cache_honest ?sn ?b ?t fresh" using win(2) by (simp add: cache_honest_def)
  have "set cs' = {}" unfolding scan_diff_cached_exact(1) [OF can hon again] using vis by (simp add: shows_disk_iff)
  then show ?thesis using vis keep again tree by (simp add: rescan_with_cache_def)
qed

text \<open>A file below an ignored directory is deleted for the peer. The walk does not enter an
  ignored directory, but a path in it is skipped by the deletion pass only when the path itself
  is classified as ignored; with a rule for the directory's name alone (no \<open>/**\<close>), a synced
  file below it leaves the index as a deletion although it is on disk.\<close>

theorem ignored_directory_unsyncs_files:
  assumes "engine_wf (eng ap)" "no_echoes (eng ap)" "\<forall>p. vc_get (base_clock (eng ap) p) (eng_replica (eng ap)) \<noteq> - 1"
    and "names_canonical sn (ap_tree ap)" "cache_honest sn (w_blake3 w) (ap_tree ap) cache"
    and "startup_scan w d sn cache ap = Inr (ap', fresh, out)"
    and "a \<in> set (parents p)" "path_ignored (w_globs w) (ss_config (ap_session ap)) a"
    and "\<not> path_ignored (w_globs w) (ss_config (ap_session ap)) p" "winner_state (eng_index (eng ap)) p = Some (Present sig)"
  shows "winner_state (eng_index (eng ap')) p = Some Tombstone \<and> ap_tree ap' = ap_tree ap"
proof -
  have "scanned_sig sn (path_ignored (w_globs w) (ss_config (ap_session ap))) (w_blake3 w) (ap_tree ap) p = None"
    using assms(7,8) by (auto simp: scanned_sig_def enterable_def taken_def list_all_iff split: option.splits node.splits)
  then show ?thesis using startup_scan_winners(1) [OF assms(1-6)] startup_scan_winners(4) [OF assms(1-6), of p] assms(9,10)
    by (simp add: scan_change_def state_from_kind_def same_place_def)
qed

section \<open>At work\<close>

definition demo_scan :: scan_api where
  "demo_scan = \<lparr>sn_normalize = False, sn_nfc = id, sn_unreadable = (\<lambda>_. False), sn_mtime_ns = (\<lambda>_. 5), sn_now_ns = 9000000000\<rparr>"

lemma demo_scan_names: "names_canonical demo_scan t"
  by (auto simp: names_canonical_def demo_scan_def scan_relativize_def canonicalize_fs_path_def relpath_new_Inr as_str_def
      split: sum.splits relpath.splits)

text \<open>A file scanned long ago, not touched since.\<close>

definition demo_scanned :: tree where
  "demo_scanned = bm_insert demo_path (FileNode [1, 1, 1] False 1) bm_empty"

definition demo_cache :: scan_cache where
  "demo_cache = bm_insert demo_path \<lparr>ce_mtime_ns = 5, ce_size = 3, ce_sig = demo_sig 1 1\<rparr> bm_empty"

theorem scan_cache_transparent_witness:
  "map_sum id fst (scan_diff_cached demo_scan (\<lambda>_. False) demo_blake3 demo_scanned index_new demo_cache) =
     scan_diff demo_scan (\<lambda>_. False) demo_blake3 demo_scanned index_new \<and>
   scan_decide (bm_get demo_cache demo_path) 5 3 (sn_now_ns demo_scan) = ReuseHash (demo_blake3 [1, 1, 1])"
proof -
  have "cache_honest demo_scan demo_blake3 demo_scanned demo_cache"
    by (auto simp: cache_honest_def demo_scan_def demo_scanned_def demo_cache_def demo_blake3_def demo_sig_def bm_get_insert split: if_splits)
  from scan_cache_transparent [OF demo_scan_names this, of "\<lambda>_. False" index_new]
  show ?thesis
    by (simp add: demo_cache_def bm_get_insert scan_decide_def demo_scan_def demo_sig_def demo_blake3_def RECENT_WINDOW_NS_def sat_add_def)
qed

text \<open>The synced file was deleted while nothing was running.\<close>

definition demo_deleted :: "string list applier" where
  "demo_deleted = demo_applier (index_put index_new demo_path \<lparr>heads = [demo_loser]\<rparr>) bm_empty Off"

definition demo_removal :: local_change where
  "demo_removal = \<lparr>lc_path = demo_path, lc_kind = Removed\<rparr>"

lemma demo_deleted_fields: "ap_tree demo_deleted = bm_empty" "eng_index (eng demo_deleted) = index_put index_new demo_path \<lparr>heads = [demo_loser]\<rparr>"
  by (simp_all add: demo_deleted_def)

lemma demo_not_ignored: "\<not> path_ignored literal_api demo_config demo_path"
  by (simp add: path_ignored_def demo_path_def demo_classify CLASSIFICATION_DEFAULT_def)

lemma demo_deleted_rescan: "rescan_with_cache demo_world demo_scan bm_empty demo_deleted = Inr ([demo_removal], bm_empty)"
proof -
  have "walk demo_scan i demo_blake3 bm_empty bm_empty None = Inr []" for i
    by (simp add: walk.simps [of _ _ _ _ _ None] children_def demo_scan_def)
  moreover have "winner_state (index_put index_new demo_path \<lparr>heads = [demo_loser]\<rparr>) demo_path = Some (Present (demo_sig 1 1))"
    by (simp add: winner_state_def winner_def index_get_put demo_loser_def)
  moreover have "index_iter (index_put index_new demo_path \<lparr>heads = [demo_loser]\<rparr>) = [(demo_path, \<lparr>heads = [demo_loser]\<rparr>)]"
    by (simp add: index_iter_def index_upsert_def index_new_def tomo_eval)
  ultimately show ?thesis using demo_not_ignored
    by (simp add: rescan_with_cache_def demo_deleted_fields scan_diff_cached_def on_disk_map_def fresh_cache_def scan_changes_def scan_missing_def
      demo_removal_def demo_world_def tomo_eval) (simp add: demo_deleted_def demo_applier_def demo_session_def)
qed

lemma removal_sends:
  assumes "w_send_ok w = (\<lambda>_. True)" "rc_kind c = Removed"
  shows "\<exists>s' es. do_send w s c = Inr (s', es)"
  using assms by (auto simp: do_send_def send_prepared_def prepare_send_def send_def split: prod.splits bool.splits)

lemma off_notes_nothing: "pc_mode (ap_pressure ap) = Off \<Longrightarrow> note_version w d ap p s v l now = Inr (ap, [])"
  by (simp add: note_version_def pc_note_def)

lemma removal_executes:
  assumes "w_send_ok w = (\<lambda>_. True)" "rc_kind c = Removed" "pc_mode (ap_pressure ap) = Off"
  shows "\<exists>ap' out. execute w d ap [Send c, RecordVersion p s v] None None = Inr (ap', out)"
proof -
  obtain t es where "do_send (tree_world w ap) (ap_session ap) c = Inr (t, es)"
    using removal_sends [of "tree_world w ap" c "ap_session ap"] assms(1,2) by (auto simp: tree_world_def)
  then show ?thesis using assms(3) by (simp add: execute_def captures_of_def on_session_def off_notes_nothing and_then_def)
qed

lemma demo_deleted_wf: "engine_wf (eng demo_deleted)"
proof -
  have "index_wf (index_put index_new demo_path \<lparr>heads = [demo_loser]\<rparr>)"
    by (simp add: tomo_inv demo_loser_def entry_wf_def)
  then show ?thesis by (simp add: engine_wf_def demo_deleted_fields)
qed

lemma demo_deleted_echoes: "no_echoes (eng demo_deleted)"
  by (simp add: demo_deleted_def demo_applier_def demo_session_def eng_def)

lemma demo_deleted_clock: "vc_get (base_clock (eng demo_deleted) p) (eng_replica (eng demo_deleted)) \<noteq> - 1"
  by (simp add: base_clock_def demo_deleted_fields index_get_put merged_clock_def demo_loser_def vc_get_merge)
    (simp add: demo_deleted_def demo_applier_def demo_session_def eng_def engine_new_def vc_get_demo)

lemma removal_taken:
  assumes "engine_wf (eng ap)" "no_echoes (eng ap)" "disk_state (eng ap) p = Present sig"
    and "w_send_ok w = (\<lambda>_. True)" "pc_mode (ap_pressure ap) = Off"
  shows "\<exists>ap' out. with_engine w d ap (handle (eng ap) (Local \<lparr>lc_path = p, lc_kind = Removed\<rparr>)) None None = Inr (ap', out)"
proof -
  have "\<not> is_expected_echo (eng ap) p (observed Removed)" using assms(2) by (simp add: no_echoes_def)
  then have "handle (eng ap) (Local \<lparr>lc_path = p, lc_kind = Removed\<rparr>) =
      Some (local_commit (eng ap) p (base_clock (eng ap) p) Tombstone Removed)"
    using handle_local_edit [OF assms(1), of "\<lparr>lc_path = p, lc_kind = Removed\<rparr>"] assms(3) by (simp add: handle_def state_from_kind_def)
  moreover have "\<exists>ap' out. with_engine w d ap
      (Some (local_commit (eng ap) p (base_clock (eng ap) p) Tombstone Removed)) None None = Inr (ap', out)"
    unfolding with_engine_def local_commit_def Let_def kind_from_state_def option.case prod.case
    by (rule removal_executes) (simp_all add: assms(4,5))
  ultimately show ?thesis by simp
qed

lemma one_removal_scanned:
  assumes "rescan_with_cache w sn cache ap = Inr ([\<lparr>lc_path = p, lc_kind = Removed\<rparr>], fresh)"
    and "engine_wf (eng ap)" "no_echoes (eng ap)" "disk_state (eng ap) p = Present sig"
    and "w_send_ok w = (\<lambda>_. True)" "pc_mode (ap_pressure ap) = Off"
  shows "\<exists>ap' out. startup_scan w d sn cache ap = Inr (ap', fresh, out)"
proof -
  obtain ap' out where "with_engine w d ap (handle (eng ap) (Local \<lparr>lc_path = p, lc_kind = Removed\<rparr>)) None None = Inr (ap', out)"
    using removal_taken [OF assms(2-6)] by blast
  then show ?thesis by (simp add: startup_scan_def assms(1) and_then_def)
qed

lemma demo_deleted_scan: "\<exists>ap' out. startup_scan demo_world demo_disk demo_scan bm_empty demo_deleted = Inr (ap', bm_empty, out)"
proof (rule one_removal_scanned [OF _ demo_deleted_wf demo_deleted_echoes])
  show "rescan_with_cache demo_world demo_scan bm_empty demo_deleted = Inr ([\<lparr>lc_path = demo_path, lc_kind = Removed\<rparr>], bm_empty)"
    using demo_deleted_rescan by (simp add: demo_removal_def)
  show "disk_state (eng demo_deleted) demo_path = Present (demo_sig 1 1)"
    by (simp add: disk_state_def demo_deleted_fields index_get_put winner_def demo_loser_def)
qed (simp_all add: demo_world_def demo_deleted_def demo_applier_def pressure_new_def)

theorem startup_scan_settles_witness:
  "\<exists>ap' fresh out. startup_scan demo_world demo_disk demo_scan bm_empty demo_deleted = Inr (ap', fresh, out) \<and>
    (\<forall>p. shows_disk (path_ignored (w_globs demo_world) (ss_config (ap_session demo_deleted)))
      (scanned_sig demo_scan (path_ignored (w_globs demo_world) (ss_config (ap_session demo_deleted))) (w_blake3 demo_world) (ap_tree ap'))
      (eng_index (eng ap')) p) \<and>
    (\<exists>again. rescan_with_cache demo_world (demo_scan\<lparr>sn_now_ns := 0\<rparr>) fresh ap' = Inr ([], again))"
proof -
  obtain ap' fresh out where sc: "startup_scan demo_world demo_disk demo_scan bm_empty demo_deleted = Inr (ap', fresh, out)"
    using demo_deleted_scan by blast
  have clock: "\<forall>p. vc_get (base_clock (eng demo_deleted) p) (eng_replica (eng demo_deleted)) \<noteq> - 1"
    using demo_deleted_clock by blast
  show ?thesis
    using sc startup_scan_settles [OF demo_deleted_wf demo_deleted_echoes clock demo_scan_names cache_honest_empty sc, of 0] by blast
qed

text \<open>The directory of a synced file was given the class \<open>ignored\<close> by its name.\<close>

definition demo_ignoring :: "string list config" where
  "demo_ignoring = demo_config\<lparr>cf_effective := [\<lparr>pattern = ''d'', class_of = Ignored, direction_of = Both\<rparr>], cf_rule_set := [''d'']\<rparr>"

definition demo_below :: "string list applier" where
  "demo_below = (let ap = demo_applier (index_put index_new (RelPath ''d/f'') \<lparr>heads = [demo_loser]\<rparr>)
        (bm_insert (RelPath ''d/f'') (FileNode [1, 1, 1] False 1) (bm_insert (RelPath ''d'') DirNode bm_empty)) Off
     in ap\<lparr>ap_session := (ap_session ap)\<lparr>ss_config := demo_ignoring\<rparr>\<rparr>)"

lemma demo_below_fields: "eng_index (eng demo_below) = index_put index_new (RelPath ''d/f'') \<lparr>heads = [demo_loser]\<rparr>"
  "ap_tree demo_below = bm_insert (RelPath ''d/f'') (FileNode [1, 1, 1] False 1) (bm_insert (RelPath ''d'') DirNode bm_empty)"
  "ss_config (ap_session demo_below) = demo_ignoring" "eng_replica (eng demo_below) = ReplicaId 1" "pc_mode (ap_pressure demo_below) = Off"
  "no_echoes (eng demo_below)"
  by (simp_all add: demo_below_def Let_def eng_def demo_applier_def demo_session_def engine_new_def pressure_new_def)
     (simp add: engine_new_def [symmetric])

lemma demo_below_class: "path_ignored literal_api demo_ignoring (RelPath ''d'')" "\<not> path_ignored literal_api demo_ignoring (RelPath ''d/f'')"
proof -
  have "list_max (ga_matches literal_api (cf_rule_set demo_ignoring) ''d'') = Some 0" "list_max (ga_matches literal_api (cf_rule_set demo_ignoring) ''d/f'') = None"
    by (simp_all add: literal_api_def demo_ignoring_def list_max_def)
  moreover have "\<not> is_tomo_internal ''d''" "\<not> is_tomo_internal ''d/f''" by (simp_all add: is_tomo_internal_iff)
  ultimately show "path_ignored literal_api demo_ignoring (RelPath ''d'')" "\<not> path_ignored literal_api demo_ignoring (RelPath ''d/f'')"
    by (simp_all add: path_ignored_def classify_def demo_ignoring_def CLASSIFICATION_DEFAULT_def)
qed

lemma demo_below_parents: "parents (RelPath ''d/f'') = [RelPath ''d'']" "parents (RelPath ''d'') = []"
  by (simp_all add: parents_def components_def)

lemma demo_below_rescan: "rescan_with_cache demo_world demo_scan bm_empty demo_below = Inr ([\<lparr>lc_path = RelPath ''d/f'', lc_kind = Removed\<rparr>], bm_empty)"
proof -
  have "bm_entries (ap_tree demo_below) = [(RelPath ''d'', DirNode), (RelPath ''d/f'', FileNode [1, 1, 1] False 1)]"
    by (simp add: demo_below_fields tomo_eval)
  then have "children (ap_tree demo_below) None = [(RelPath ''d'', DirNode)]"
    by (simp add: children_def demo_below_parents)
  moreover have "scan_relativize demo_scan (RelPath ''d'') = Some (RelPath ''d'')"
    by (simp add: scan_relativize_def demo_scan_def canonicalize_fs_path_def relpath_new_def starts_with_def)
  ultimately have "walk demo_scan (path_ignored literal_api demo_ignoring) demo_blake3 (ap_tree demo_below) bm_empty None = Inr []"
    using demo_below_class by (simp add: walk.simps [of _ _ _ _ _ None] demo_scan_def)
  moreover have "winner_state (index_put index_new (RelPath ''d/f'') \<lparr>heads = [demo_loser]\<rparr>) (RelPath ''d/f'') = Some (Present (demo_sig 1 1))"
    by (simp add: winner_state_def winner_def index_get_put demo_loser_def)
  moreover have "index_iter (index_put index_new (RelPath ''d/f'') \<lparr>heads = [demo_loser]\<rparr>) = [(RelPath ''d/f'', \<lparr>heads = [demo_loser]\<rparr>)]"
    by (simp add: index_iter_def index_upsert_def index_new_def tomo_eval)
  ultimately show ?thesis using demo_below_class
    by (simp add: rescan_with_cache_def demo_below_fields(1,3) scan_diff_cached_def on_disk_map_def fresh_cache_def scan_changes_def scan_missing_def
      demo_world_def tomo_eval)
qed

theorem ignored_directory_unsyncs_files_witness:
  "\<exists>ap' fresh out. startup_scan demo_world demo_disk demo_scan bm_empty demo_below = Inr (ap', fresh, out) \<and>
    winner_state (eng_index (eng ap')) (RelPath ''d/f'') = Some Tombstone \<and>
    bm_get (ap_tree ap') (RelPath ''d/f'') = Some (FileNode [1, 1, 1] False 1)"
proof -
  have "index_wf (index_put index_new (RelPath ''d/f'') \<lparr>heads = [demo_loser]\<rparr>)" by (simp add: tomo_inv demo_loser_def entry_wf_def)
  then have wf: "engine_wf (eng demo_below)" by (simp add: engine_wf_def demo_below_fields)
  have clock: "\<forall>p. vc_get (base_clock (eng demo_below) p) (eng_replica (eng demo_below)) \<noteq> - 1"
    by (simp add: base_clock_def demo_below_fields index_get_put merged_clock_def demo_loser_def vc_get_merge vc_get_demo)
  have w: "winner_state (eng_index (eng demo_below)) (RelPath ''d/f'') = Some (Present (demo_sig 1 1))"
    by (simp add: winner_state_def winner_def demo_below_fields index_get_put demo_loser_def)
  then have "disk_state (eng demo_below) (RelPath ''d/f'') = Present (demo_sig 1 1)" by (simp add: disk_state_winner)
  then have "\<exists>ap' out. startup_scan demo_world demo_disk demo_scan bm_empty demo_below = Inr (ap', bm_empty, out)"
    by (rule one_removal_scanned [OF demo_below_rescan wf demo_below_fields(6) _ _ demo_below_fields(5)]) (simp add: demo_world_def)
  then obtain ap' out where sc: "startup_scan demo_world demo_disk demo_scan bm_empty demo_below = Inr (ap', bm_empty, out)" by blast
  have conf: "w_globs demo_world = literal_api" by (simp add: demo_world_def)
  have "winner_state (eng_index (eng ap')) (RelPath ''d/f'') = Some Tombstone \<and> ap_tree ap' = ap_tree demo_below"
    by (rule ignored_directory_unsyncs_files [OF wf demo_below_fields(6) clock demo_scan_names cache_honest_empty sc _ _ _ w, where a = "RelPath ''d''"])
      (simp_all add: demo_below_parents conf demo_below_fields(3) demo_below_class)
  then show ?thesis using sc by (simp add: demo_below_fields(2) bm_get_insert)
qed

end
