(* ===== verification/Tomo_Stall.thy ===== *)
theory Tomo_Stall
  imports Tomo_Rescan
begin

text \<open>
  A full disk (\<open>note_disk_full\<close>, \<open>maybe_retry_stall\<close> and \<open>write_present\<close> of
  \<^verbatim>\<open>crates/tomo/src/session.rs\<close>) followed to the next scan: what a stalled apply leaves in the
  index, what the retry obtains, and what the scan makes of the missing file.
\<close>

lemma collect_total: "\<forall>x \<in> set xs. \<exists>y. f x = Inr y \<Longrightarrow> \<exists>ys. collect f xs = Inr ys"
  using collect_list_all2 [of xs f "\<lambda>_ _. True"] by auto

text \<open>A walk over readable directories succeeds.\<close>

lemma walk_readable:
  assumes "names_canonical sn t" "cache_honest sn blake3 t cache" "\<forall>dir. \<not> sn_unreadable sn dir"
  shows "\<forall>a \<in> set (dir_chain dir). path_is_dir t a \<Longrightarrow> \<exists>found. walk sn ignored blake3 t cache dir = Inr found"
  using assms
proof (induction sn ignored blake3 t cache dir rule: walk.induct)
  case (1 sn ignored blake3 t old dir)
  have "\<exists>l. (case scan_relativize sn p of None \<Rightarrow> Inr []
           | Some r \<Rightarrow> if ignored r then Inr []
               else case node of DirNode \<Rightarrow> walk sn ignored blake3 t old (Some p)
               | FileNode bs exec mtime \<Rightarrow> visit_file sn blake3 t old p r bs exec mtime) = Inr l"
    if c: "(p, node) \<in> set (children t dir)" for p node
  proof (cases "scan_relativize sn p")
    case (Some r)
    have t: "bm_get t p = Some node" "parents p = dir_chain dir" using c by (simp_all add: children_iff)
    then have r: "r = p" using "1.prems"(2) Some by (auto simp: names_canonical_def)
    show ?thesis
    proof (cases "ignored r")
      case ign: False
      show ?thesis
      proof (cases node)
        case DirNode
        have "\<forall>a \<in> set (dir_chain (Some p)). path_is_dir t a" using "1.prems"(1) t DirNode by (auto simp: path_is_dir_def)
        then show ?thesis using "1.IH" [OF _ c refl Some ign DirNode] "1.prems"(2-4) Some ign DirNode by simp
      next
        case (FileNode bs exec mtime)
        then show ?thesis using visit_file_found [of t p bs exec mtime sn blake3 old] t "1.prems" Some ign r by simp
      qed
    qed (use Some in simp)
  qed simp
  then have "\<exists>ls. collect (\<lambda>(p, node). case scan_relativize sn p of None \<Rightarrow> Inr []
           | Some r \<Rightarrow> if ignored r then Inr []
               else case node of DirNode \<Rightarrow> walk sn ignored blake3 t old (Some p)
               | FileNode bs exec mtime \<Rightarrow> visit_file sn blake3 t old p r bs exec mtime) (children t dir) = Inr ls"
    by (intro collect_total) (simp only: Ball_def split_paired_All prod.case, blast)
  then show ?case using "1.prems"(4) by (auto simp: walk.simps [of sn ignored blake3 t old dir])
qed

section \<open>A full disk\<close>

text \<open>A change for a new file, on a machine on which staging it runs out of space.\<close>

definition new_file_no_space :: "('g, 's, 'e) world \<Rightarrow> disk_api \<Rightarrow> 's applier \<Rightarrow> remote_change \<Rightarrow> content_sig \<Rightarrow> bytes \<Rightarrow> bool" where
  "new_file_no_space w d ap c sig bs \<longleftrightarrow> new_file w (d\<lparr>dk_stage := (\<lambda>_. StageOk)\<rparr>) ap c sig bs \<and> dk_stage d (rc_path c) = StageNoSpace"

text \<open>The head is in the index, the file is not in the tree, the stall is noted.\<close>

definition stalled_file :: "'s applier \<Rightarrow> remote_change \<Rightarrow> content_sig \<Rightarrow> 's applier \<Rightarrow> bool" where
  "stalled_file ap c sig ap' \<longleftrightarrow>
     ap_tree ap' = ap_tree ap \<and> ss_config (ap_session ap') = ss_config (ap_session ap) \<and> ss_disk_stalled (ap_session ap') \<and>
     index_get (eng_index (eng ap')) (rc_path c) = Some (entry_single (rc_version c) (Present sig)) \<and>
     ss_pending_installs (ap_session ap') = [] \<and> ss_repush_requested (ap_session ap') = False"

lemma deliver_no_space:
  assumes "fresh_file w (d\<lparr>dk_stage := (\<lambda>_. StageOk)\<rparr>) ap c sig bs" "dk_stage d (rc_path c) = StageNoSpace" "pressure_wf (ap_pressure ap)"
  shows "\<exists>ap'. deliver w d ap c (Some bs) = Inr (ap', []) \<and> stalled_file ap c sig ap'"
proof -
  let ?p = "rc_path c"
  have n: "rc_kind c = Modified sig" "matches_sig (w_blake3 w) bs sig" "parents ?p = []" "bm_get (ap_tree ap) ?p = None"
      "index_get (eng_index (eng ap)) ?p = None" "\<not> dk_refused d ?p" "dk_stage d ?p = StageNoSpace"
      "ss_pending_installs (ap_session ap) = []" "ss_pending_install_paths (ap_session ap) = {}"
      "\<not> ss_paused (ap_session ap)" "\<not> ss_repush_requested (ap_session ap)"
    using assms(1,2) by (simp_all add: fresh_file_def)
  define e1 where "e1 = (eng ap)\<lparr>eng_index := index_put (eng_index (eng ap)) ?p (entry_single (rc_version c) (Present sig)),
      eng_echo := echo_add (eng_echo (eng ap)) ?p (ExpPresent sig)\<rparr>"
  have h: "handle (eng ap) (Remote c) = Some (e1, [Apply ?p (ExpPresent sig), RecordVersion ?p (Present sig) (rc_version c)])"
    using n by (simp add: handle_def handle_remote_def absorb_remote_def remote_unseen_def emit_apply_def state_from_kind_def e1_def)
  define s1 where "s1 = note_disk_full w ((ap_session ap)\<lparr>ss_engine := e1\<rparr>)"
  have ap: "do_apply w d (ap\<lparr>ap_session := (ap_session ap)\<lparr>ss_engine := e1\<rparr>\<rparr>) ?p (ExpPresent sig) (Some bs) = Inr (ap\<lparr>ap_session := s1\<rparr>, [])"
    using n by (simp add: do_apply_def apply_present_by_sig_def prepare_present_target_def type_collision_def path_is_dir_def
        byte_source_of_def write_present_def flush_pending_install_for_def stage_present_def Let_def s1_def)
  obtain pc where pc: "note_version w d (ap\<lparr>ap_session := s1\<rparr>) ?p (Present sig) (rc_version c) False (dk_now_ms d) =
      Inr (ap\<lparr>ap_session := s1, ap_pressure := pc\<rparr>, [])"
    using note_stale [of "ap\<lparr>ap_session := s1\<rparr>" w ?p sig d "rc_version c" False "dk_now_ms d"] assms(3) n(4)
    by (auto simp: file_bytes_def read_verified_def)
  have "deliver w d ap c (Some bs) = Inr (ap\<lparr>ap_session := s1, ap_pressure := pc\<rparr>, [])"
    using n h ap pc
    by (simp add: deliver_def flush_pending_install_for_def guard_absent with_engine_def execute_def captures_of_def)
  moreover have "stalled_file ap c sig (ap\<lparr>ap_session := s1, ap_pressure := pc\<rparr>)"
    using n by (simp add: stalled_file_def s1_def eng_def e1_def index_get_put note_disk_full_def)
  ultimately show ?thesis by blast
qed

text \<open>A file dropped for lack of disk space is not fetched again but deleted. The apply stalls,
  but the head is already in the index; when the retry exchanges the indices, a peer with that
  head finds it covered and ships nothing (the comment on \<open>maybe_retry_stall\<close> has a disk-full
  drop never absorb the head), and the next scan reports the missing file as a local deletion.\<close>

theorem full_disk_drop_becomes_deletion:
  assumes "new_file_no_space w d ap c sig bs" "pressure_wf (ap_pressure ap)"
    and "index_get peer (rc_path c) = Some (entry_single (rc_version c) (Present sig))" "vc_ok (rc_version c)"
    and "\<not> path_ignored (w_globs w) (ss_config (ap_session ap)) (rc_path c)"
    and "names_canonical sn (ap_tree ap)" "cache_honest sn (w_blake3 w) (ap_tree ap) cache" "\<forall>dir. \<not> sn_unreadable sn dir"
  shows "\<exists>ap' changes fresh. process_burst w d ap [(Queued (InMessage (Change c (Some bs))), False)] = Inr (ap', []) \<and>
    ss_disk_stalled (ap_session ap') \<and> bm_get (ap_tree ap') (rc_path c) = None \<and>
    filter (\<lambda>x. rc_path x = rc_path c) (reconcile_changes peer (eng_index (eng ap'))) = [] \<and>
    rescan_with_cache w sn cache ap' = Inr (changes, fresh) \<and> \<lparr>lc_path = rc_path c, lc_kind = Removed\<rparr> \<in> set changes"
proof -
  have li: "lets_in w ap (rc_path c)" using assms(1) by (simp add: new_file_no_space_def new_file_def)
  have gone: "bm_get (ap_tree ap) (rc_path c) = None" using assms(1) by (simp add: new_file_no_space_def new_file_def fresh_file_def)
  obtain seen where s: "applier_step w d ap (Process (InMessage (Change c (Some bs)))) =
      deliver w d (ap\<lparr>ap_session := (ap_session ap)\<lparr>ss_noted_ignored := seen\<rparr>\<rparr>) c (Some bs)"
    by (rule change_delivered [OF li])
  let ?ap = "ap\<lparr>ap_session := (ap_session ap)\<lparr>ss_noted_ignored := seen\<rparr>\<rparr>"
  have "fresh_file w (d\<lparr>dk_stage := (\<lambda>_. StageOk)\<rparr>) ?ap c sig bs" "dk_stage d (rc_path c) = StageNoSpace"
    using assms(1) by (simp_all add: new_file_no_space_def new_file_def fresh_file_def eng_def)
  then obtain ap' where 1: "applier_step w d ap (Process (InMessage (Change c (Some bs)))) = Inr (ap', [])" "stalled_file ap c sig ap'"
    using deliver_no_space [of w d ?ap c sig bs] assms(2) s by (auto simp: stalled_file_def)
  then have f: "ap_tree ap' = ap_tree ap" "ss_config (ap_session ap') = ss_config (ap_session ap)" "ss_disk_stalled (ap_session ap')"
      "index_get (eng_index (eng ap')) (rc_path c) = Some (entry_single (rc_version c) (Present sig))"
      "ss_pending_installs (ap_session ap') = []" "\<not> ss_repush_requested (ap_session ap')"
    by (simp_all add: stalled_file_def)
  let ?ign = "path_ignored (w_globs w) (ss_config (ap_session ap))"
  have burst: "process_burst w d ap [(Queued (InMessage (Change c (Some bs))), False)] = Inr (ap', [])"
    using process_one [OF 1(1) f(6), of "[]"] f(5) by (simp add: process_burst_def flush_installs_def)
  have "filter (\<lambda>x. rc_path x = rc_path c) (reconcile_changes peer (eng_index (eng ap'))) = []"
    unfolding reconcile_changes_path
    using f(4) assms(3,4) by (simp add: index_heads_def entry_single_def covers_def path_versions_def versions_def)
  moreover obtain changes fresh where sc: "scan_diff_cached sn ?ign (w_blake3 w) (ap_tree ap) (eng_index (eng ap')) cache = Inr (changes, fresh)"
    using walk_readable [OF assms(6,7,8), of None ?ign] by (auto simp: scan_diff_cached_def)
  moreover have "\<lparr>lc_path = rc_path c, lc_kind = Removed\<rparr> \<in> set changes"
    unfolding scan_diff_cached_exact(1) [OF assms(6,7) sc]
    using f(4) gone assms(5) by (simp add: scan_change_def scanned_sig_def winner_state_def winner_def entry_single_def)
  ultimately show ?thesis using burst f gone by (auto simp: rescan_with_cache_def)
qed

definition demo_full_disk :: disk_api where
  "demo_full_disk = demo_disk\<lparr>dk_stage := (\<lambda>_. StageNoSpace)\<rparr>"

theorem full_disk_drop_becomes_deletion_witness:
  "\<exists>ap' changes fresh. process_burst demo_world demo_full_disk (demo_applier index_new bm_empty EveryChange)
      [(Queued (InMessage (Change (demo_remote 2) (Some [2, 2, 2]))), False)] = Inr (ap', []) \<and>
    bm_get (ap_tree ap') demo_path = None \<and> rescan_with_cache demo_world demo_scan bm_empty ap' = Inr (changes, fresh) \<and>
    \<lparr>lc_path = demo_path, lc_kind = Removed\<rparr> \<in> set changes"
proof -
  let ?ap = "demo_applier index_new bm_empty EveryChange"
  have d: "demo_full_disk\<lparr>dk_stage := (\<lambda>_. StageOk)\<rparr> = demo_disk" by (simp add: demo_full_disk_def demo_disk_def)
  have new: "new_file_no_space demo_world demo_full_disk ?ap (demo_remote 2) (demo_sig 2 2) [2, 2, 2]"
    using demo_new_file [of EveryChange] unfolding new_file_no_space_def d by (simp add: demo_full_disk_def)
  have cfg: "w_globs demo_world = literal_api" "ss_config (ap_session ?ap) = demo_config"
    by (simp_all add: demo_world_def demo_applier_def demo_session_def)
  have "\<exists>ap' changes fresh. process_burst demo_world demo_full_disk ?ap [(Queued (InMessage (Change (demo_remote 2) (Some [2, 2, 2]))), False)] = Inr (ap', []) \<and>
    ss_disk_stalled (ap_session ap') \<and> bm_get (ap_tree ap') (rc_path (demo_remote 2)) = None \<and>
    filter (\<lambda>x. rc_path x = rc_path (demo_remote 2))
      (reconcile_changes (index_put index_new demo_path (entry_single (demo_clock 2) (Present (demo_sig 2 2)))) (eng_index (eng ap'))) = [] \<and>
    rescan_with_cache demo_world demo_scan bm_empty ap' = Inr (changes, fresh) \<and> \<lparr>lc_path = rc_path (demo_remote 2), lc_kind = Removed\<rparr> \<in> set changes"
    by (rule full_disk_drop_becomes_deletion [OF new demo_applier_pressure(1)])
      (simp_all add: index_get_put cfg demo_not_ignored demo_scan_names, simp add: demo_scan_def)
  then show ?thesis unfolding demo_remote_fields by blast
qed

end
