(* ===== verification/Tomo_Watch.thy ===== *)
theory Tomo_Watch
  imports Tomo_Rescan
begin

text \<open>
  The live watcher: \<^verbatim>\<open>tomo-watch/src/canon.rs\<close> (raw events to pending changes) and
  \<^verbatim>\<open>watcher.rs\<close> (the notify crate's events to raw events, and when a rescan is asked for),
  with the session's \<open>on_watch\<close> behind it (\<open>on_watch_pending\<close> of \<^theory_text>\<open>Tomo_Execute\<close>). A path is
  the list of its components, as \<^verbatim>\<open>std::path::Path::components\<close> gives them; the event kinds are
  the notify crate's, as far as the source tells them apart.
\<close>

section \<open>Raw events\<close>

text \<open>A component that is not valid UTF-8 has no string; everything that is not a plain name is
  one case here.\<close>

datatype path_component = Normal "string option" | OtherComponent

datatype raw_kind = RawCreate | RawModify | RawRemove | RawRenameFrom | RawRenameTo

record raw_event =
  rw_path :: "path_component list"
  rw_kind :: raw_kind

record pending_change =
  pd_rel :: relpath
  pd_kind :: pending_kind

record 's canonicalizer =
  cn_root :: "path_component list"
  cn_config :: "'s config"

fun strip_root :: "path_component list \<Rightarrow> path_component list \<Rightarrow> path_component list option" where
  "strip_root [] p = Some p"
| "strip_root (r # rs) (c # cs) = (if r = c then strip_root rs cs else None)"
| "strip_root (r # rs) [] = None"

fun normal_parts :: "path_component list \<Rightarrow> string list option" where
  "normal_parts [] = Some []"
| "normal_parts (Normal (Some s) # cs) = (case normal_parts cs of None \<Rightarrow> None | Some parts \<Rightarrow> Some (s # parts))"
| "normal_parts (_ # cs) = None"

definition canon_relativize :: "('g, 's, 'e) glob_api \<Rightarrow> scan_api \<Rightarrow> 's canonicalizer \<Rightarrow> path_component list \<Rightarrow> relpath option" where
  "canon_relativize api sn cn path = (case strip_root (cn_root cn) path of
      None \<Rightarrow> None
    | Some rest \<Rightarrow> (case normal_parts rest of
          None \<Rightarrow> None
        | Some [] \<Rightarrow> None
        | Some parts \<Rightarrow> (case relpath_new (canonicalize_fs_path sn (str_join ''/'' parts)) of
              Inl _ \<Rightarrow> None
            | Inr rel \<Rightarrow> if cl_class (classify api (cn_config cn) (as_str rel)) = Ignored then None else Some rel)))"

definition pending_of_raw :: "raw_kind \<Rightarrow> pending_kind" where
  "pending_of_raw k = (case k of
      RawCreate \<Rightarrow> Dirty | RawModify \<Rightarrow> Dirty | RawRenameTo \<Rightarrow> Dirty
    | RawRemove \<Rightarrow> Gone | RawRenameFrom \<Rightarrow> Gone)"

definition ingest :: "('g, 's, 'e) glob_api \<Rightarrow> scan_api \<Rightarrow> 's canonicalizer \<Rightarrow> raw_event \<Rightarrow> pending_change list" where
  "ingest api sn cn raw = (case canon_relativize api sn cn (rw_path raw) of
      None \<Rightarrow> []
    | Some rel \<Rightarrow> [\<lparr>pd_rel = rel, pd_kind = pending_of_raw (rw_kind raw)\<rparr>])"

section \<open>The notify events\<close>

datatype rename_mode = RmFrom | RmTo | RmBoth | RmAny | RmOther

datatype metadata_kind = MkAccessTime | MkWriteTime | MkPermissions | MkOwnership | MkExtended | MkOther | MkAny

datatype modify_kind = ModData | ModMetadata metadata_kind | ModName rename_mode | ModOther | ModAny

datatype event_kind = EvCreate bool | EvRemove bool | EvModify modify_kind | EvAccess | EvOther | EvAny

text \<open>The flag of \<open>EvCreate\<close> and \<open>EvRemove\<close>: the event is about a folder.\<close>

record notify_event =
  ne_kind :: event_kind
  ne_paths :: "path_component list list"
  ne_need_rescan :: bool

definition raw_each :: "raw_kind \<Rightarrow> path_component list list \<Rightarrow> raw_event list" where
  "raw_each k paths = map (\<lambda>p. \<lparr>rw_path = p, rw_kind = k\<rparr>) paths"

definition rename_both :: "path_component list list \<Rightarrow> raw_event list" where
  "rename_both paths =
     (if 2 \<le> length paths then [\<lparr>rw_path = hd paths, rw_kind = RawRenameFrom\<rparr>, \<lparr>rw_path = last paths, rw_kind = RawRenameTo\<rparr>]
      else raw_each RawRenameTo paths)"

definition map_event :: "notify_event \<Rightarrow> raw_event list" where
  "map_event ev = (case ne_kind ev of
      EvCreate folder \<Rightarrow> if folder then [] else raw_each RawCreate (ne_paths ev)
    | EvRemove folder \<Rightarrow> if folder then [] else raw_each RawRemove (ne_paths ev)
    | EvAccess \<Rightarrow> []
    | EvOther \<Rightarrow> []
    | EvAny \<Rightarrow> raw_each RawModify (ne_paths ev)
    | EvModify m \<Rightarrow> (case m of
          ModMetadata k \<Rightarrow> if k = MkPermissions \<or> k = MkAny then raw_each RawModify (ne_paths ev) else []
        | ModName RmFrom \<Rightarrow> raw_each RawRenameFrom (ne_paths ev)
        | ModName RmTo \<Rightarrow> raw_each RawRenameTo (ne_paths ev)
        | ModName RmBoth \<Rightarrow> rename_both (ne_paths ev)
        | _ \<Rightarrow> raw_each RawModify (ne_paths ev)))"

section \<open>The live handler\<close>

datatype watch_signal = PendingSignal pending_change | RescanSignal

definition dir_appeared :: "(path_component list \<Rightarrow> bool) \<Rightarrow> notify_event \<Rightarrow> bool" where
  "dir_appeared is_dir ev \<longleftrightarrow> ne_kind ev = EvCreate True \<or>
     ((case ne_kind ev of EvCreate _ \<Rightarrow> True | EvModify (ModName m) \<Rightarrow> m \<in> {RmTo, RmBoth, RmAny} | EvAny \<Rightarrow> True | _ \<Rightarrow> False) \<and>
      list_ex is_dir (ne_paths ev))"

text \<open>What the handler sends for one callback; no event stands for a backend error.\<close>

definition on_notify ::
    "('g, 's, 'e) glob_api \<Rightarrow> scan_api \<Rightarrow> 's canonicalizer \<Rightarrow> (path_component list \<Rightarrow> bool) \<Rightarrow> notify_event option \<Rightarrow> watch_signal list" where
  "on_notify api sn cn is_dir res = (case res of
      None \<Rightarrow> [RescanSignal]
    | Some ev \<Rightarrow>
        if ne_need_rescan ev then [RescanSignal]
        else (if dir_appeared is_dir ev then [RescanSignal] else []) @
             map PendingSignal (concat (map (ingest api sn cn) (map_event ev))))"

definition signal_item :: "watch_signal \<Rightarrow> burst_item" where
  "signal_item s = (case s of PendingSignal p \<Rightarrow> Watched (pd_rel p) (pd_kind p) | RescanSignal \<Rightarrow> NeedsRescan)"

section \<open>Properties\<close>

lemma strip_root_Some: "strip_root r p = Some rest \<longleftrightarrow> p = r @ rest"
  by (induction r p rule: strip_root.induct) auto

lemma canon_relativize_tracked:
  "canon_relativize api sn cn path = Some rel \<Longrightarrow> cl_class (classify api (cn_config cn) (as_str rel)) \<noteq> Ignored \<and> relpath_wf (as_str rel)"
  by (auto simp: canon_relativize_def relpath_new_Inr as_str_def split: option.splits list.splits sum.splits if_splits)



lemma unchanged_handled:
  assumes "engine_wf e" "\<not> is_expected_echo e (lc_path c) (observed (lc_kind c))"
    and "state_eq (disk_state e (lc_path c)) (state_from_kind (lc_kind c))"
  shows "handle e (Local c) = Some (e, [])"
  using handle_local_edit [OF assms(1,2)] assms(3) by (simp add: handle_def)

lemma no_actions [simp]: "with_engine w d ap (Some (eng ap, [])) None None = Inr (ap, [])"
  by (simp add: with_engine_def execute_def captures_of_def eng_def)







text \<open>Moving a directory out of the project goes unnoticed. The platform reports one rename of
  the directory itself and nothing for the files below; the handler turns that into a removal
  of the directory's path, for which the index has no entry, and asks for no rescan (it does
  when a directory appears). The index keeps every file that has gone, until some other scan.\<close>

theorem moved_out_directory_unnoticed:
  assumes "ne_kind ev = EvModify (ModName RmFrom)" "ne_paths ev = [path]" "\<not> ne_need_rescan ev"
    and "canon_relativize api sn cn path = Some dir" "index_get (eng_index (eng ap)) dir = None"
    and "engine_wf (eng ap)" "\<not> is_expected_echo (eng ap) dir ExpAbsent" "dir \<notin> ss_pending_install_paths (ap_session ap)"
    and "bm_get (ap_tree ap) dir = None" "ss_pending_installs (ap_session ap) = []" "\<not> ss_repush_requested (ap_session ap)"
  shows "process_burst w d ap (map (\<lambda>s. (signal_item s, False)) (on_notify api sn cn is_dir (Some ev))) = Inr (ap, [])"
proof -
  let ?c = "\<lparr>lc_path = dir, lc_kind = Removed\<rparr>"
  have sig: "on_notify api sn cn is_dir (Some ev) = [PendingSignal \<lparr>pd_rel = dir, pd_kind = Gone\<rparr>]"
    using assms(1-4) by (simp add: on_notify_def dir_appeared_def map_event_def raw_each_def ingest_def pending_of_raw_def)
  have k: "settle (w_blake3 w) d ap dir Removed = Removed"
    using assms(9) by (simp add: settle_def snapshot_def split: option.splits)
  have "\<not> is_expected_echo (eng ap) (lc_path ?c) (observed (lc_kind ?c))" using assms(7) by (simp add: observed_def state_from_kind_def expectation_from_state_def)
  from unchanged_handled [OF assms(6) this] assms(5)
  have "handle (eng ap) (Local ?c) = Some (eng ap, [])" by (simp add: disk_state_def state_from_kind_def)
  then have "on_watch_pending w d ap dir Gone = Inr (ap, [])"
    using assms(8) k by (simp add: on_watch_pending_def flush_pending_install_for_def resolve_def)
  then show ?thesis
    using sig assms(10,11) by (simp add: process_burst_def process_item_def signal_item_def flush_installs_def)
qed

section \<open>At work\<close>


text \<open>The file \<open>d/f\<close> is synced; the directory \<open>d\<close> has been moved out of the project \<open>/p\<close>.\<close>

definition demo_canonicalizer :: "string list canonicalizer" where
  "demo_canonicalizer = \<lparr>cn_root = [Normal (Some ''p'')], cn_config = demo_config\<rparr>"

definition demo_moved :: "string list applier" where
  "demo_moved = demo_applier (index_put index_new (RelPath ''d/f'') \<lparr>heads = [demo_loser]\<rparr>) bm_empty Off"

definition demo_move :: notify_event where
  "demo_move = \<lparr>ne_kind = EvModify (ModName RmFrom), ne_paths = [[Normal (Some ''p''), Normal (Some ''d'')]], ne_need_rescan = False\<rparr>"

theorem moved_out_directory_unnoticed_witness:
  "process_burst demo_world demo_disk demo_moved
     (map (\<lambda>s. (signal_item s, False)) (on_notify literal_api demo_scan demo_canonicalizer (\<lambda>_. False) (Some demo_move))) = Inr (demo_moved, []) \<and>
   winner_state (eng_index (eng demo_moved)) (RelPath ''d/f'') = Some (Present (demo_sig 1 1)) \<and> ap_tree demo_moved = bm_empty"
proof -
  have "list_max (ga_matches literal_api (cf_rule_set demo_config) ''d'') = None" by (simp add: literal_api_def demo_config_def list_max_def)
  moreover have "\<not> is_tomo_internal ''d''" by (simp add: is_tomo_internal_iff)
  ultimately have "cl_class (classify literal_api demo_config ''d'') \<noteq> Ignored" by (simp add: classify_def CLASSIFICATION_DEFAULT_def)
  then have rel: "canon_relativize literal_api demo_scan demo_canonicalizer [Normal (Some ''p''), Normal (Some ''d'')] = Some (RelPath ''d'')"
    by (simp add: canon_relativize_def demo_canonicalizer_def demo_scan_def canonicalize_fs_path_def relpath_new_def starts_with_def)
  have idx: "eng_index (eng demo_moved) = index_put index_new (RelPath ''d/f'') \<lparr>heads = [demo_loser]\<rparr>" by (simp add: demo_moved_def)
  have wf: "engine_wf (eng demo_moved)" unfolding engine_wf_def idx by (simp add: tomo_inv demo_loser_def entry_wf_def)
  have echo: "no_echoes (eng demo_moved)" by (simp add: demo_moved_def demo_applier_def demo_session_def eng_def)
  have "process_burst demo_world demo_disk demo_moved
     (map (\<lambda>s. (signal_item s, False)) (on_notify literal_api demo_scan demo_canonicalizer (\<lambda>_. False) (Some demo_move))) = Inr (demo_moved, [])"
    by (rule moved_out_directory_unnoticed [OF _ _ _ rel _ wf])
      (use echo in \<open>simp_all add: demo_move_def idx index_get_put no_echoes_def\<close>, simp_all add: demo_moved_def demo_applier_def demo_session_def)
  moreover have "winner_state (eng_index (eng demo_moved)) (RelPath ''d/f'') = Some (Present (demo_sig 1 1))"
    by (simp add: idx winner_state_def winner_def index_get_put demo_loser_def)
  moreover have "ap_tree demo_moved = bm_empty" by (simp add: demo_moved_def)
  ultimately show ?thesis by blast
qed

end
