(* ===== verification/Tomo_Target.thy ===== *)
theory Tomo_Target
  imports Tomo_Path
begin

text \<open>
  Naming the peer and talking to its shell, the pure modules of \<^verbatim>\<open>tomo-transport\<close>:
  \<^verbatim>\<open>hostspec.rs\<close>, \<^verbatim>\<open>quote.rs\<close>, \<^verbatim>\<open>remotepath.rs\<close>, \<^verbatim>\<open>triple.rs\<close>, the decision of
  \<^verbatim>\<open>bootstrap.rs\<close> and \<open>serve_command\<close> of \<^verbatim>\<open>ssh.rs\<close>; with \<^verbatim>\<open>tomo/src/target.rs\<close> and
  \<^verbatim>\<open>overlap.rs\<close>. Strings are bytes: Unicode white space above U+007F, which \<^verbatim>\<open>str::trim\<close>
  also removes, is ordinary text here. The message of an error is its constructor.
\<close>

section \<open>The standard library's string functions\<close>

definition is_space :: "char \<Rightarrow> bool" where
  "is_space c \<longleftrightarrow> c \<in> {CHR '' '', CHR 0x09, CHR 0x0A, CHR 0x0B, CHR 0x0C, CHR 0x0D}"

definition trim_start :: "string \<Rightarrow> string" where
  "trim_start s = dropWhile is_space s"

definition trim_end :: "string \<Rightarrow> string" where
  "trim_end s = rev (dropWhile is_space (rev s))"

definition trim :: "string \<Rightarrow> string" where
  "trim s = trim_end (trim_start s)"

text \<open>\<^verbatim>\<open>str::split_once\<close> and \<^verbatim>\<open>str::rsplit_once\<close> at a character.\<close>

fun split_once :: "char \<Rightarrow> string \<Rightarrow> (string \<times> string) option" where
  "split_once c [] = None"
| "split_once c (x # xs) = (if x = c then Some ([], xs)
     else case split_once c xs of None \<Rightarrow> None | Some (a, b) \<Rightarrow> Some (x # a, b))"

definition rsplit_once :: "char \<Rightarrow> string \<Rightarrow> (string \<times> string) option" where
  "rsplit_once c s = (case split_once c (rev s) of None \<Rightarrow> None | Some (a, b) \<Rightarrow> Some (rev b, rev a))"

definition is_digit :: "char \<Rightarrow> bool" where
  "is_digit c \<longleftrightarrow> CHR ''0'' \<le> c \<and> c \<le> CHR ''9''"

definition digits_value :: "string \<Rightarrow> nat" where
  "digits_value s = foldl (\<lambda>n c. 10 * n + (of_char c - 48)) 0 s"

text \<open>\<^verbatim>\<open>u16::from_str\<close>: digits after an optional plus sign, the value within the type.\<close>

definition parse_u16 :: "string \<Rightarrow> 16 word option" where
  "parse_u16 s = (let ds = (case strip_prefix ''+'' s of Some rest \<Rightarrow> rest | None \<Rightarrow> s)
     in if ds = [] \<or> \<not> list_all is_digit ds \<or> 2 ^ 16 \<le> digits_value ds then None else Some (word_of_nat (digits_value ds)))"

fun to_ascii_lower :: "string \<Rightarrow> string" where
  "to_ascii_lower [] = []"
| "to_ascii_lower (c # cs) = (if CHR ''A'' \<le> c \<and> c \<le> CHR ''Z'' then char_of (of_char c + 32 :: nat) else c) # to_ascii_lower cs"

section \<open>SSH targets\<close>

definition DEFAULT_SSH_PORT :: "16 word" where
  "DEFAULT_SSH_PORT = 22"

record host_spec =
  hs_user :: "string option"
  hs_host :: string
  hs_port :: "16 word"

datatype host_error = EmptyTarget | EmptyUser | TwoAts | Unterminated | TrailingAfterBracket | PortZero | PortInvalid | EmptyHost

definition hostspec_parse_port :: "string \<Rightarrow> host_error + 16 word" where
  "hostspec_parse_port text = (case parse_u16 text of
      Some p \<Rightarrow> if p = 0 then Inl PortZero else Inr p
    | None \<Rightarrow> Inl PortInvalid)"

definition split_host_port :: "string \<Rightarrow> host_error + string \<times> 16 word" where
  "split_host_port hostport = (case strip_prefix ''['' hostport of
      Some rest \<Rightarrow> (case split_once (CHR '']'') rest of
          None \<Rightarrow> Inl Unterminated
        | Some (addr, after) \<Rightarrow>
            if after = [] then Inr (addr, DEFAULT_SSH_PORT)
            else case strip_prefix '':'' after of
                Some p \<Rightarrow> map_sum id (Pair addr) (hostspec_parse_port p)
              | None \<Rightarrow> Inl TrailingAfterBracket)
    | None \<Rightarrow> (case rsplit_once (CHR '':'') hostport of
          Some (h, p) \<Rightarrow> if CHR '':'' \<notin> set h then map_sum id (Pair h) (hostspec_parse_port p) else Inr (hostport, DEFAULT_SSH_PORT)
        | None \<Rightarrow> Inr (hostport, DEFAULT_SSH_PORT)))"

definition hostspec_parse :: "string \<Rightarrow> host_error + host_spec" where
  "hostspec_parse target =
     (let trimmed = trim target
      in if trimmed = [] then Inl EmptyTarget
         else case (case split_once (CHR ''@'') trimmed of
             Some (u, rest) \<Rightarrow> if u = [] then Inl EmptyUser else if CHR ''@'' \<in> set rest then Inl TwoAts else Inr (Some u, rest)
           | None \<Rightarrow> Inr (None, trimmed)) of
             Inl e \<Rightarrow> Inl e
           | Inr (user, hostport) \<Rightarrow> (case split_host_port hostport of
               Inl e \<Rightarrow> Inl e
             | Inr (host, port) \<Rightarrow> if host = [] then Inl EmptyHost else Inr \<lparr>hs_user = user, hs_host = host, hs_port = port\<rparr>))"

text \<open>Splitting \<open>host:path\<close> at the first colon outside brackets; the depth saturates at zero.\<close>

fun split_target_at :: "nat \<Rightarrow> string \<Rightarrow> (string \<times> string) option" where
  "split_target_at depth [] = None"
| "split_target_at depth (c # cs) =
     (if c = CHR '':'' \<and> depth = 0 then Some ([], cs)
      else map_option (apfst (Cons c))
        (split_target_at (if c = CHR ''['' then depth + 1 else if c = CHR '']'' then depth - 1 else depth) cs))"

definition split_target_path :: "string \<Rightarrow> (string \<times> string) option" where
  "split_target_path arg = split_target_at 0 arg"

datatype target_error = TwoArguments | EmptyRemotePath | NoColon | ShellExpandedTilde string

definition trim_end_slashes :: "string \<Rightarrow> string" where
  "trim_end_slashes s = rev (dropWhile (\<lambda>c. c = CHR ''/'') (rev s))"

definition under_home :: "string option \<Rightarrow> string \<Rightarrow> string option" where
  "under_home home path = (case home of
      None \<Rightarrow> None
    | Some home \<Rightarrow>
        (let home = trim_end_slashes home
         in if home = [] then None
            else case strip_prefix home path of
                Some [] \<Rightarrow> Some []
              | Some (c # rest) \<Rightarrow> if c = CHR ''/'' then Some (dropWhile (\<lambda>c. c = CHR ''/'') (c # rest)) else None
              | None \<Rightarrow> None))"

definition target_resolve :: "string option \<Rightarrow> string \<Rightarrow> string option \<Rightarrow> target_error + string \<times> string" where
  "target_resolve home target legacy = (case legacy of
      Some _ \<Rightarrow> Inl TwoArguments
    | None \<Rightarrow> (case split_target_path target of
          None \<Rightarrow> Inl NoColon
        | Some (host, []) \<Rightarrow> Inl EmptyRemotePath
        | Some (host, path) \<Rightarrow> (case under_home home path of
              Some rest \<Rightarrow> Inl (ShellExpandedTilde rest)
            | None \<Rightarrow> Inr (host, path))))"

datatype remote_path_error = UserHome

definition expand_remote_tilde :: "string \<Rightarrow> string \<Rightarrow> remote_path_error + string" where
  "expand_remote_tilde path home =
     (let home = trim_end_slashes home
      in if path = ''~'' then Inr home
         else case strip_prefix ''~/'' path of
             Some rest \<Rightarrow> Inr (home @ ''/'' @ rest)
           | None \<Rightarrow> if starts_with ''~'' path then Inl UserHome else Inr path)"

section \<open>Overlapping trees\<close>

text \<open>Paths as component lists; \<^verbatim>\<open>Path::starts_with\<close> is the prefix order on them.\<close>

definition paths_overlap :: "string list \<Rightarrow> string list \<Rightarrow> bool" where
  "paths_overlap a b \<longleftrightarrow> take (length b) a = b \<or> take (length a) b = a"

definition parse_u8_ok :: "string \<Rightarrow> bool" where
  "parse_u8_ok s = (let ds = (case strip_prefix ''+'' s of Some rest \<Rightarrow> rest | None \<Rightarrow> s)
     in ds \<noteq> [] \<and> list_all is_digit ds \<and> digits_value ds < 256)"

definition host_is_loopback :: "string \<Rightarrow> bool" where
  "host_is_loopback target =
     (let host = last (str_split (CHR ''@'') target);
          host = (case strip_prefix ''['' host of Some rest \<Rightarrow> hd (str_split (CHR '']'') rest) | None \<Rightarrow> host);
          host = (if length (filter (\<lambda>c. c = CHR '':'') host) = 1 then hd (str_split (CHR '':'') host) else host);
          host = trim host
      in if to_ascii_lower host = ''localhost'' \<or> host = ''::1'' then True
         else (let octets = str_split (CHR ''.'') host
               in length octets = 4 \<and> hd octets = ''127'' \<and> list_all parse_u8_ok (tl octets)))"

section \<open>Remote commands\<close>

definition shell_quote :: "string \<Rightarrow> string" where
  "shell_quote arg = CHR 0x27 # concat (map (\<lambda>c. if c = CHR 0x27 then [CHR 0x27, CHR 0x5C, CHR 0x27, CHR 0x27] else [c]) arg) @ [CHR 0x27]"

definition serve_command :: "string \<Rightarrow> string \<Rightarrow> string option \<Rightarrow> string" where
  "serve_command remote_path binary_rel peer_name =
     (let quoted_bin = shell_quote binary_rel;
          tail = (case peer_name of
              Some name \<Rightarrow> ''env TOMO_PEER_NAME='' @ shell_quote name @ '' '' @ quoted_bin @ '' serve --stdio''
            | None \<Rightarrow> quoted_bin @ '' serve --stdio'')
      in ''cd '' @ shell_quote remote_path @ '' && exec '' @ tail)"

section \<open>The remote binary\<close>

definition SUPPORTED :: "string list" where
  "SUPPORTED = [''x86_64-unknown-linux-musl'', ''aarch64-unknown-linux-musl'', ''x86_64-apple-darwin'', ''aarch64-apple-darwin'']"

definition uname_to_triple :: "string \<Rightarrow> string \<Rightarrow> string option" where
  "uname_to_triple os arch =
     (let os = to_ascii_lower (trim os); arch = to_ascii_lower (trim arch)
      in if os = ''linux'' \<and> arch \<in> {''x86_64'', ''amd64''} then Some (SUPPORTED ! 0)
         else if os = ''linux'' \<and> arch \<in> {''aarch64'', ''arm64''} then Some (SUPPORTED ! 1)
         else if os = ''darwin'' \<and> arch \<in> {''x86_64'', ''amd64''} then Some (SUPPORTED ! 2)
         else if os = ''darwin'' \<and> arch \<in> {''aarch64'', ''arm64''} then Some (SUPPORTED ! 3)
         else None)"

text \<open>\<^verbatim>\<open>str::split_whitespace\<close>.\<close>

fun split_ws_from :: "string \<Rightarrow> string \<Rightarrow> string list" where
  "split_ws_from cur [] = (if cur = [] then [] else [rev cur])"
| "split_ws_from cur (c # cs) =
     (if is_space c then (if cur = [] then split_ws_from [] cs else rev cur # split_ws_from [] cs)
      else split_ws_from (c # cur) cs)"

definition split_whitespace :: "string \<Rightarrow> string list" where
  "split_whitespace s = split_ws_from [] s"

definition parse_uname :: "string \<Rightarrow> (string \<times> string) option" where
  "parse_uname stdout = (case split_whitespace stdout of
      os # arch # _ \<Rightarrow> Some (os, arch) | _ \<Rightarrow> None)"

definition arch_os :: "string \<Rightarrow> (string \<times> string) option" where
  "arch_os triple = (case str_split (CHR ''-'') triple of
      arch # _ # os # _ \<Rightarrow> Some (arch, os) | _ \<Rightarrow> None)"

definition binary_name :: "string \<Rightarrow> string \<Rightarrow> string" where
  "binary_name version triple = ''tomo-'' @ version @ ''-'' @ triple"

definition binary_rel_path :: "string \<Rightarrow> string \<Rightarrow> string" where
  "binary_rel_path version triple = ''.tomo/bin/'' @ binary_name version triple"

definition ends_with :: "string \<Rightarrow> string \<Rightarrow> bool" where
  "ends_with suf s \<longleftrightarrow> starts_with (rev suf) (rev s)"

datatype bootstrap_decision = ReuseBinary string "string list" | PushBinary string "string list"

definition bootstrap_decide :: "string list \<Rightarrow> string \<Rightarrow> string \<Rightarrow> bootstrap_decision" where
  "bootstrap_decide remote_entries version triple =
     (let wanted = binary_name version triple; suffix = ''-'' @ triple;
          present = list_ex (\<lambda>e. e = wanted) remote_entries;
          stale = filter (\<lambda>e. starts_with ''tomo-'' e \<and> ends_with suffix e \<and> e \<noteq> wanted) remote_entries
      in if present then ReuseBinary wanted stale else PushBinary wanted stale)"

text \<open>May the running executable stand in, and as a substitution?\<close>

definition plan_binary :: "string \<Rightarrow> string \<Rightarrow> bool \<Rightarrow> bool option" where
  "plan_binary requested built_for dev_build =
     (if requested = built_for then Some False
      else if dev_build \<and> arch_os requested = arch_os built_for then Some True
      else None)"

section \<open>The remote command, as a shell reads it\<close>

text \<open>The POSIX rules for the fragment in use: blanks separate words, single quotes hold
  everything up to the next one, a backslash holds the next character, \<open>&&\<close> joins commands, and
  any other character with a meaning to the shell is refused.\<close>

datatype sh_token = ShWord string | ShAnd

definition sh_plain :: "char \<Rightarrow> bool" where
  "sh_plain c \<longleftrightarrow> (CHR ''a'' \<le> c \<and> c \<le> CHR ''z'') \<or> (CHR ''A'' \<le> c \<and> c \<le> CHR ''Z'') \<or> is_digit c \<or> c \<in> set ''_-./=:+,@''"

definition sh_flush :: "string option \<Rightarrow> sh_token list" where
  "sh_flush cur = (case cur of None \<Rightarrow> [] | Some w \<Rightarrow> [ShWord w])"

definition sh_word :: "string option \<Rightarrow> string" where
  "sh_word cur = (case cur of None \<Rightarrow> [] | Some w \<Rightarrow> w)"

fun sh_tokens :: "bool \<Rightarrow> string option \<Rightarrow> string \<Rightarrow> sh_token list option" where
  "sh_tokens True cur [] = None"
| "sh_tokens True cur (c # cs) =
     (if c = CHR 0x27 then sh_tokens False cur cs else sh_tokens True (Some (sh_word cur @ [c])) cs)"
| "sh_tokens False cur [] = Some (sh_flush cur)"
| "sh_tokens False cur (c # cs) =
     (if c = CHR '' '' then map_option ((@) (sh_flush cur)) (sh_tokens False None cs)
      else if c = CHR 0x27 then sh_tokens True (Some (sh_word cur)) cs
      else if c = CHR 0x5C then (case cs of [] \<Rightarrow> None | d # ds \<Rightarrow> sh_tokens False (Some (sh_word cur @ [d])) ds)
      else if c = CHR ''&'' then (case cs of [] \<Rightarrow> None
        | d # ds \<Rightarrow> if d = CHR ''&'' then map_option ((@) (sh_flush cur @ [ShAnd])) (sh_tokens False None ds) else None)
      else if sh_plain c then sh_tokens False (Some (sh_word cur @ [c])) cs
      else None)"

lemma sh_in_quotes:
  "sh_tokens True (Some w) (concat (map (\<lambda>c. if c = CHR 0x27 then [CHR 0x27, CHR 0x5C, CHR 0x27, CHR 0x27] else [c]) arg) @ CHR 0x27 # rest) =
   sh_tokens False (Some (w @ arg)) rest"
  by (induction arg arbitrary: w) (simp_all add: sh_word_def)

lemma sh_quoted [simp]: "sh_tokens False cur (shell_quote arg @ rest) = sh_tokens False (Some (sh_word cur @ arg)) rest"
  using sh_in_quotes [of "sh_word cur" arg rest] by (simp add: shell_quote_def)

lemma sh_quoted_end [simp]: "sh_tokens False cur (shell_quote arg) = Some [ShWord (sh_word cur @ arg)]"
  using sh_quoted [of cur arg "[]"] by (simp add: sh_flush_def)

text \<open>C33: No value can break out of the remote command line. Read by a shell, the line that
  starts the peer is exactly the intended words, with the project path, the binary and the
  peer's name as single words, whatever characters they contain.\<close>

theorem serve_command_words:
  "sh_tokens False None (serve_command remote_path binary_rel peer_name) = Some (
     [ShWord ''cd'', ShWord remote_path, ShAnd, ShWord ''exec''] @
     (case peer_name of Some name \<Rightarrow> [ShWord ''env'', ShWord (''TOMO_PEER_NAME='' @ name)] | None \<Rightarrow> []) @
     [ShWord binary_rel, ShWord ''serve'', ShWord ''--stdio''])"
  by (cases peer_name) (simp_all add: serve_command_def sh_word_def sh_flush_def sh_plain_def is_digit_def less_eq_char_def of_char_eq_iff)

section \<open>Printing and parsing a target\<close>

fun decimal :: "nat \<Rightarrow> string" where
  "decimal n = (if n < 10 then [char_of (48 + n)] else decimal (n div 10) @ [char_of (48 + n mod 10)])"

declare decimal.simps [simp del]

lemma decimal_digits: "list_all is_digit (decimal n) \<and> decimal n \<noteq> []"
proof (induction n rule: decimal.induct)
  case (1 n)
  have "is_digit (char_of (48 + k))" if "k < 10" for k :: nat
    using that by (simp add: is_digit_def less_eq_char_def)
  then show ?case using 1 by (subst (1 2) decimal.simps) auto
qed

lemma digits_value_snoc [simp]: "digits_value (s @ [c]) = 10 * digits_value s + (of_char c - 48)"
  by (simp add: digits_value_def)

lemma digits_value_decimal: "digits_value (decimal n) = n"
proof (induction n rule: decimal.induct)
  case (1 n)
  show ?case
  proof (cases "n < 10")
    case True
    then show ?thesis by (subst decimal.simps) (simp add: digits_value_def)
  next
    case False
    then show ?thesis using 1 by (subst decimal.simps) simp
  qed
qed

lemma not_digit: "is_digit c \<Longrightarrow> c \<noteq> CHR ''+'' \<and> \<not> is_space c \<and> c \<noteq> CHR '':'' \<and> c \<noteq> CHR ''@''"
  by (auto simp: is_digit_def is_space_def less_eq_char_def)

lemma parse_u16_decimal: "parse_u16 (decimal (unat p)) = Some p"
proof -
  have d: "list_all is_digit (decimal (unat p))" "decimal (unat p) \<noteq> []" using decimal_digits by blast+
  then obtain c cs where c: "decimal (unat p) = c # cs" "is_digit c" by (cases "decimal (unat p)") auto
  have "unat p < 2 ^ 16" using unsigned_less [of p] by simp
  moreover have "strip_prefix ''+'' (decimal (unat p)) = None" using c not_digit [OF c(2)] by auto
  ultimately show ?thesis using d digits_value_decimal [of "unat p"] by (simp add: parse_u16_def)
qed

lemma split_once_Some: "c \<notin> set a \<Longrightarrow> split_once c (a @ c # b) = Some (a, b)"
  by (induction a) auto

lemma split_once_None: "split_once c s = None \<longleftrightarrow> c \<notin> set s"
  by (induction s) (auto split: option.splits)

lemma split_once_eq: "split_once c s = Some (a, b) \<longleftrightarrow> s = a @ c # b \<and> c \<notin> set a"
proof
  show "split_once c s = Some (a, b) \<Longrightarrow> s = a @ c # b \<and> c \<notin> set a"
    by (induction s arbitrary: a) (auto split: if_splits option.splits)
  show "s = a @ c # b \<and> c \<notin> set a \<Longrightarrow> split_once c s = Some (a, b)" by (simp add: split_once_Some)
qed

lemma rsplit_once_eq: "rsplit_once c s = Some (a, b) \<longleftrightarrow> s = a @ c # b \<and> c \<notin> set b"
proof -
  have "rsplit_once c s = Some (a, b) \<longleftrightarrow> split_once c (rev s) = Some (rev b, rev a)"
    by (auto simp: rsplit_once_def split: option.splits)
  also have "\<dots> \<longleftrightarrow> s = a @ c # b \<and> c \<notin> set b"
    unfolding split_once_eq set_rev by (metis append_assoc append_Cons append_Nil rev.simps(2) rev_append rev_rev_ident)
  finally show ?thesis .
qed

lemma rsplit_once_None: "rsplit_once c s = None \<longleftrightarrow> c \<notin> set s"
  using split_once_None [of c "rev s"] by (cases "split_once c (rev s)") (auto simp: rsplit_once_def)

lemma trim_tight: "s \<noteq> [] \<Longrightarrow> \<not> is_space (hd s) \<Longrightarrow> \<not> is_space (last s) \<Longrightarrow> trim s = s"
proof -
  assume s: "s \<noteq> []" "\<not> is_space (hd s)" "\<not> is_space (last s)"
  then have "dropWhile is_space s = s" by (cases s) auto
  moreover have "dropWhile is_space (rev s) = rev s" using s by (cases "rev s") (auto simp: hd_rev [symmetric])
  ultimately show ?thesis by (simp add: trim_def trim_start_def trim_end_def)
qed

text \<open>What a target may consist of: a user without \<open>@\<close>, a host without \<open>@\<close> and, when it holds
  colons (an IPv6 literal), without a closing bracket; no white space.\<close>

definition host_spec_ok :: "host_spec \<Rightarrow> bool" where
  "host_spec_ok hs \<longleftrightarrow>
     (case hs_user hs of None \<Rightarrow> True | Some u \<Rightarrow> u \<noteq> [] \<and> CHR ''@'' \<notin> set u \<and> \<not> is_space (hd u)) \<and>
     hs_host hs \<noteq> [] \<and> CHR ''@'' \<notin> set (hs_host hs) \<and> CHR '']'' \<notin> set (hs_host hs) \<and> hd (hs_host hs) \<noteq> CHR ''['' \<and>
     \<not> is_space (hd (hs_host hs)) \<and> hs_port hs \<noteq> 0"

definition host_spec_text :: "host_spec \<Rightarrow> string" where
  "host_spec_text hs = (case hs_user hs of None \<Rightarrow> [] | Some u \<Rightarrow> u @ ''@'') @
     (if CHR '':'' \<in> set (hs_host hs) then ''['' @ hs_host hs @ '']'' else hs_host hs) @ '':'' @ decimal (unat (hs_port hs))"

lemma split_host_port_text:
  assumes "host \<noteq> []" "hd host \<noteq> CHR ''[''" "CHR '']'' \<notin> set host" "port \<noteq> 0"
  shows "split_host_port ((if CHR '':'' \<in> set host then ''['' @ host @ '']'' else host) @ '':'' @ decimal (unat port)) = Inr (host, port)"
proof (cases "CHR '':'' \<in> set host")
  case True
  then show ?thesis using assms split_once_Some [of "CHR '']''" host "CHR '':'' # decimal (unat port)"]
    by (simp add: split_host_port_def hostspec_parse_port_def parse_u16_decimal)
next
  case False
  have "\<forall>c \<in> set (decimal (unat port)). c \<noteq> CHR '':''" using decimal_digits [of "unat port"] not_digit by (auto simp: list_all_iff)
  then have "rsplit_once (CHR '':'') (host @ CHR '':'' # decimal (unat port)) = Some (host, decimal (unat port))"
    by (auto simp: rsplit_once_eq)
  moreover obtain c cs where "host = c # cs" "c \<noteq> CHR ''[''" using assms(1,2) by (cases host) auto
  ultimately show ?thesis using False assms(4)
    by (auto simp: split_host_port_def hostspec_parse_port_def parse_u16_decimal)
qed

text \<open>Every SSH target survives printing and parsing: user, host and port come back, an IPv6
  literal in brackets included.\<close>

theorem host_spec_roundtrip:
  assumes "host_spec_ok hs"
  shows "hostspec_parse (host_spec_text hs) = Inr hs"
proof -
  let ?hp = "(if CHR '':'' \<in> set (hs_host hs) then ''['' @ hs_host hs @ '']'' else hs_host hs) @ '':'' @ decimal (unat (hs_port hs))"
  have ok: "hs_host hs \<noteq> []" "CHR ''@'' \<notin> set (hs_host hs)" "CHR '']'' \<notin> set (hs_host hs)" "hd (hs_host hs) \<noteq> CHR ''[''"
      "\<not> is_space (hd (hs_host hs))" "hs_port hs \<noteq> 0"
    and user: "\<And>u. hs_user hs = Some u \<Longrightarrow> u \<noteq> [] \<and> CHR ''@'' \<notin> set u \<and> \<not> is_space (hd u)"
    using assms by (auto simp: host_spec_ok_def)
  have digits: "decimal (unat (hs_port hs)) \<noteq> []" "\<forall>c \<in> set (decimal (unat (hs_port hs))). is_digit c"
    using decimal_digits by (auto simp: list_all_iff)
  have hp: "?hp \<noteq> []" "\<not> is_space (hd ?hp)" "\<not> is_space (last ?hp)" "CHR ''@'' \<notin> set ?hp"
    using ok digits not_digit by (auto simp: is_space_def hd_append)
  have split: "split_host_port ?hp = Inr (hs_host hs, hs_port hs)" by (rule split_host_port_text [OF ok(1,4,3,6)])
  show ?thesis
  proof (cases "hs_user hs")
    case None
    then have "trim (host_spec_text hs) = ?hp" using trim_tight [OF hp(1-3)] by (simp add: host_spec_text_def)
    moreover have "split_once (CHR ''@'') ?hp = None" unfolding split_once_None by (rule hp(4))
    ultimately show ?thesis using None split hp(1) ok(1) unfolding hostspec_parse_def Let_def by simp
  next
    case (Some u)
    let ?t = "u @ CHR ''@'' # ?hp"
    have "trim ?t = ?t" using user [OF Some] hp by (intro trim_tight) (auto simp: hd_append)
    moreover have "split_once (CHR ''@'') ?t = Some (u, ?hp)" using user [OF Some] by (intro split_once_Some) simp
    moreover have "host_spec_text hs = ?t" using Some by (simp add: host_spec_text_def)
    ultimately show ?thesis using Some split hp(4) ok(1) user [OF Some] unfolding hostspec_parse_def Let_def by simp
  qed
qed

theorem host_spec_roundtrip_witness:
  "hostspec_parse (host_spec_text \<lparr>hs_user = Some ''me'', hs_host = ''fe80::1'', hs_port = 2200\<rparr>) =
     Inr \<lparr>hs_user = Some ''me'', hs_host = ''fe80::1'', hs_port = 2200\<rparr>"
  by (rule host_spec_roundtrip) (simp add: host_spec_ok_def is_space_def)

end
