(* ===== verification/Tomo_SshConfig.thy ===== *)
theory Tomo_SshConfig
  imports Tomo_Target
begin

text \<open>
  The reader and resolver of \<^verbatim>\<open>ssh_config\<close> files, \<^verbatim>\<open>tomo-transport/src/sshconfig.rs\<close>, and the
  host-key policy of \<^verbatim>\<open>ssh.rs\<close>. A file path is the string the code builds; two paths are equal
  when their components are. The file system (reading, canonical paths, the siblings of a
  path) and the russh crate's look-up in one known-hosts file are parameters.
\<close>

section \<open>Paths\<close>

definition path_absolute :: "string \<Rightarrow> bool" where
  "path_absolute p \<longleftrightarrow> starts_with ''/'' p"

definition path_join :: "string \<Rightarrow> string \<Rightarrow> string" where
  "path_join a b = (if path_absolute b \<or> a = [] then b else if last a = CHR ''/'' then a @ b else a @ ''/'' @ b)"

definition path_parts :: "string \<Rightarrow> bool \<times> string list" where
  "path_parts p = (path_absolute p,
     (if \<not> path_absolute p \<and> hd (str_split (CHR ''/'') p) = ''.'' then [''.''] else []) @
     filter (\<lambda>q. q \<noteq> [] \<and> q \<noteq> ''.'') (str_split (CHR ''/'') p))"

definition push_new_path :: "string list \<Rightarrow> string \<Rightarrow> string list" where
  "push_new_path ps p = (if list_ex (\<lambda>q. path_parts q = path_parts p) ps then ps else ps @ [p])"

definition unquote :: "string \<Rightarrow> string" where
  "unquote s = (case strip_prefix [CHR 0x22] s of
      None \<Rightarrow> s
    | Some inner \<Rightarrow> if ends_with [CHR 0x22] inner then butlast inner else s)"

definition expand_path :: "string \<Rightarrow> string \<Rightarrow> string" where
  "expand_path arg home = (case (case strip_prefix ''~/'' arg of Some r \<Rightarrow> Some r | None \<Rightarrow> strip_prefix ''%d/'' arg) of
      Some rest \<Rightarrow> path_join home rest
    | None \<Rightarrow> if arg = ''~'' \<or> arg = ''%d'' then home
        else if path_absolute arg then arg
        else path_join (path_join home ''.ssh'') arg)"

section \<open>Lines\<close>

text \<open>\<^verbatim>\<open>str::lines\<close>.\<close>

definition strip_cr :: "string \<Rightarrow> string" where
  "strip_cr l = (if l \<noteq> [] \<and> last l = CHR 0x0D then butlast l else l)"

definition str_lines :: "string \<Rightarrow> string list" where
  "str_lines s = (let ls = str_split (CHR 0x0A) s
     in map strip_cr (butlast ls) @ (if last ls = [] then [] else [last ls]))"

definition split_directive :: "string \<Rightarrow> (string \<times> string) option" where
  "split_directive line =
     (let trimmed = trim line
      in if trimmed = [] \<or> starts_with ''#'' trimmed then None
         else let keyword = takeWhile (\<lambda>c. \<not> (is_space c \<or> c = CHR ''='')) trimmed;
                  tail = dropWhile (\<lambda>c. \<not> (is_space c \<or> c = CHR ''='')) trimmed
              in if tail = [] then None
                 else let rest = trim_start tail;
                          rest = (case strip_prefix ''='' rest of None \<Rightarrow> rest | Some r \<Rightarrow> trim_start r)
                      in if keyword = [] \<or> rest = [] then None else Some (keyword, rest))"

fun split_args_from :: "string \<Rightarrow> bool \<Rightarrow> bool \<Rightarrow> string \<Rightarrow> string list" where
  "split_args_from cur in_quote saw [] = (if saw then [rev cur] else [])"
| "split_args_from cur in_quote saw (c # cs) =
     (if c = CHR 0x22 then split_args_from cur (\<not> in_quote) True cs
      else if is_space c \<and> \<not> in_quote then
        (if saw then rev cur # split_args_from [] in_quote False cs else split_args_from cur in_quote False cs)
      else split_args_from (c # cur) in_quote True cs)"

definition split_args :: "string \<Rightarrow> string list" where
  "split_args s = split_args_from [] False False s"

datatype config_line = HostLine string | MatchLine | Keyword string string

definition parse_line :: "string \<Rightarrow> config_line option" where
  "parse_line raw = (case split_directive raw of
      None \<Rightarrow> None
    | Some (kw, arg) \<Rightarrow>
        (let name = to_ascii_lower kw
         in if name = ''host'' then Some (HostLine arg)
            else if name = ''match'' then Some MatchLine
            else Some (Keyword name arg)))"

text \<open>Without a file system \<open>Include\<close> is dropped.\<close>

definition ssh_parse :: "string \<Rightarrow> config_line list" where
  "ssh_parse content = concat (map (\<lambda>raw. case parse_line raw of
      None \<Rightarrow> []
    | Some (Keyword name arg) \<Rightarrow> if name = ''include'' then [] else [Keyword name arg]
    | Some l \<Rightarrow> [l]) (str_lines content))"

section \<open>Host patterns\<close>

text \<open>The state of the loop: the pattern from \<open>p\<close> on, the pattern after the last star if one was
  seen, the text from \<open>mark\<close> on, and \<open>t - mark\<close>.\<close>

function glob_loop :: "string \<Rightarrow> string option \<Rightarrow> string \<Rightarrow> nat \<Rightarrow> bool" where
  "glob_loop needle star hay k =
     (if k < length hay then
        (if needle \<noteq> [] \<and> (hd needle = CHR ''?'' \<or> hd needle = hay ! k) then glob_loop (tl needle) star hay (Suc k)
         else if needle \<noteq> [] \<and> hd needle = CHR ''*'' then glob_loop (tl needle) (Some (tl needle)) (drop k hay) 0
         else case star of
             Some after \<Rightarrow> glob_loop after star (tl hay) 0
           | None \<Rightarrow> False)
      else list_all (\<lambda>c. c = CHR ''*'') needle)"
  by pat_completeness auto

termination glob_loop
  by (relation "measures [\<lambda>(needle, star, hay, k). 2 * length hay + (if star = None then 1 else 0), \<lambda>(needle, star, hay, k). length needle]")
    (auto simp: neq_Nil_conv)

declare glob_loop.simps [simp del]

definition glob_match :: "string \<Rightarrow> string \<Rightarrow> bool" where
  "glob_match pat text = glob_loop (to_ascii_lower pat) None (to_ascii_lower text) 0"

fun host_matches_from :: "bool \<Rightarrow> string list \<Rightarrow> string \<Rightarrow> bool" where
  "host_matches_from positive [] host = positive"
| "host_matches_from positive (pat # pats) host = (case strip_prefix ''!'' pat of
      Some neg \<Rightarrow> if glob_match neg host then False else host_matches_from positive pats host
    | None \<Rightarrow> host_matches_from (positive \<or> glob_match pat host) pats host)"

definition host_matches :: "string \<Rightarrow> string \<Rightarrow> bool" where
  "host_matches patterns host = host_matches_from False (split_whitespace patterns) host"

section \<open>Directives of a host\<close>

datatype strict_host_key = StrictYes | StrictNo | StrictAcceptNew

definition strict_parse :: "string \<Rightarrow> strict_host_key option" where
  "strict_parse arg = (let a = to_ascii_lower (trim arg)
     in if a = ''yes'' \<or> a = ''ask'' then Some StrictYes
        else if a = ''no'' \<or> a = ''off'' then Some StrictNo
        else if a = ''accept-new'' then Some StrictAcceptNew
        else None)"

record raw_host_config =
  rh_host_name :: "string option"
  rh_user :: "string option"
  rh_port :: "16 word option"
  rh_identity_files :: "string list"
  rh_identities_only :: "bool option"
  rh_strict :: "strict_host_key option"
  rh_known_hosts :: "string list option"
  rh_global_known_hosts :: "string list option"
  rh_proxy_jump :: "string option"
  rh_unknown :: "string list"

definition raw_default :: raw_host_config where
  "raw_default = \<lparr>rh_host_name = None, rh_user = None, rh_port = None, rh_identity_files = [], rh_identities_only = None,
     rh_strict = None, rh_known_hosts = None, rh_global_known_hosts = None, rh_proxy_jump = None, rh_unknown = []\<rparr>"

definition set_first :: "'a option \<Rightarrow> 'a \<Rightarrow> 'a option" where
  "set_first slot v = (case slot of None \<Rightarrow> Some v | Some _ \<Rightarrow> slot)"

definition parse_yes :: "string \<Rightarrow> bool" where
  "parse_yes arg \<longleftrightarrow> to_ascii_lower (trim arg) = ''yes''"

definition apply_directive :: "raw_host_config \<Rightarrow> string \<Rightarrow> string \<Rightarrow> raw_host_config" where
  "apply_directive r name args =
     (if name = ''hostname'' then r\<lparr>rh_host_name := set_first (rh_host_name r) (unquote (trim args))\<rparr>
      else if name = ''user'' then r\<lparr>rh_user := set_first (rh_user r) (unquote (trim args))\<rparr>
      else if name = ''port'' then
        (if rh_port r = None
         then (case parse_u16 (trim args) of Some p \<Rightarrow> if p \<noteq> 0 then r\<lparr>rh_port := Some p\<rparr> else r | None \<Rightarrow> r)
         else r)
      else if name = ''identityfile'' then r\<lparr>rh_identity_files := rh_identity_files r @ split_args args\<rparr>
      else if name = ''identitiesonly'' then r\<lparr>rh_identities_only := set_first (rh_identities_only r) (parse_yes args)\<rparr>
      else if name = ''stricthostkeychecking'' then (if rh_strict r = None then r\<lparr>rh_strict := strict_parse args\<rparr> else r)
      else if name = ''userknownhostsfile'' then r\<lparr>rh_known_hosts := set_first (rh_known_hosts r) (split_args args)\<rparr>
      else if name = ''globalknownhostsfile'' then r\<lparr>rh_global_known_hosts := set_first (rh_global_known_hosts r) (split_args args)\<rparr>
      else if name = ''proxyjump'' then r\<lparr>rh_proxy_jump := set_first (rh_proxy_jump r) (trim args)\<rparr>
      else if name \<in> set (rh_unknown r) then r else r\<lparr>rh_unknown := rh_unknown r @ [name]\<rparr>)"

fun resolve_lines :: "bool \<Rightarrow> raw_host_config \<Rightarrow> config_line list \<Rightarrow> string \<Rightarrow> raw_host_config" where
  "resolve_lines active r [] host = r"
| "resolve_lines active r (HostLine patterns # ls) host = resolve_lines (host_matches patterns host) r ls host"
| "resolve_lines active r (MatchLine # ls) host = resolve_lines False r ls host"
| "resolve_lines active r (Keyword name args # ls) host =
     resolve_lines active (if active then apply_directive r name args else r) ls host"

definition resolve_raw :: "config_line list \<Rightarrow> string \<Rightarrow> raw_host_config" where
  "resolve_raw cfg host = resolve_lines True raw_default cfg host"

section \<open>Hops and endpoints\<close>

record hop_spec =
  hop_user :: "string option"
  hop_host :: string
  hop_port :: "16 word option"

datatype route_error = Cycle string | DepthExceeded | EmptyHop string

definition hop_parse :: "string \<Rightarrow> route_error + hop_spec" where
  "hop_parse spec =
     (let spec = trim spec;
          (user, rest) = (case split_once (CHR ''@'') spec of
              Some (u, r) \<Rightarrow> if u \<noteq> [] then (Some u, r) else (None, spec)
            | None \<Rightarrow> (None, spec));
          (host, port) = (case strip_prefix ''['' rest of
              Some inner \<Rightarrow> (case split_once (CHR '']'') inner of
                  Some (addr, after) \<Rightarrow> (addr, Option.bind (strip_prefix '':'' after) parse_u16)
                | None \<Rightarrow> (rest, None))
            | None \<Rightarrow> (case rsplit_once (CHR '':'') rest of
                  Some (h, p) \<Rightarrow> if CHR '':'' \<notin> set h \<and> parse_u16 p \<noteq> None then (h, parse_u16 p) else (rest, None)
                | None \<Rightarrow> (rest, None)))
      in if host = [] then Inl (EmptyHop spec) else Inr \<lparr>hop_user = user, hop_host = host, hop_port = port\<rparr>)"

record resolved_endpoint =
  ep_alias :: string
  ep_host_name :: string
  ep_port :: "16 word"
  ep_user :: "string option"
  ep_identity_files :: "string list"
  ep_identities_only :: bool
  ep_strict :: strict_host_key
  ep_known_hosts_files :: "string list"
  ep_global_known_hosts_files :: "string list"

definition DEFAULT_GLOBAL_KNOWN_HOSTS :: "string list" where
  "DEFAULT_GLOBAL_KNOWN_HOSTS = [''/etc/ssh/ssh_known_hosts'', ''/etc/ssh/ssh_known_hosts2'']"

definition into_endpoint :: "raw_host_config \<Rightarrow> hop_spec \<Rightarrow> string \<Rightarrow> 16 word \<Rightarrow> resolved_endpoint" where
  "into_endpoint r hop home default_port =
     \<lparr>ep_alias = hop_host hop,
      ep_host_name = (case rh_host_name r of Some h \<Rightarrow> h | None \<Rightarrow> hop_host hop),
      ep_port = (case hop_port hop of Some p \<Rightarrow> p | None \<Rightarrow> (case rh_port r of Some p \<Rightarrow> p | None \<Rightarrow> default_port)),
      ep_user = (case hop_user hop of Some u \<Rightarrow> Some u | None \<Rightarrow> rh_user r),
      ep_identity_files = foldl (\<lambda>ps f. push_new_path ps (expand_path (unquote f) home)) [] (rh_identity_files r),
      ep_identities_only = (case rh_identities_only r of Some b \<Rightarrow> b | None \<Rightarrow> False),
      ep_strict = (case rh_strict r of Some s \<Rightarrow> s | None \<Rightarrow> StrictYes),
      ep_known_hosts_files = (case rh_known_hosts r of
          None \<Rightarrow> [path_join (path_join home ''.ssh'') ''known_hosts'', path_join (path_join home ''.ssh'') ''known_hosts2'']
        | Some v \<Rightarrow> map (\<lambda>k. expand_path (unquote k) home) v),
      ep_global_known_hosts_files = (case rh_global_known_hosts r of
          None \<Rightarrow> map (\<lambda>p. expand_path p home) DEFAULT_GLOBAL_KNOWN_HOSTS
        | Some v \<Rightarrow> map (\<lambda>k. expand_path (unquote k) home) v)\<rparr>"

definition identity_files_for :: "string \<Rightarrow> string \<Rightarrow> string \<Rightarrow> string list" where
  "identity_files_for content host home =
     foldl (\<lambda>ps f. push_new_path ps (expand_path (unquote f) home)) [] (rh_identity_files (resolve_raw (ssh_parse content) host))"

definition lookup_known_hosts :: "resolved_endpoint \<Rightarrow> string list" where
  "lookup_known_hosts ep = ep_known_hosts_files ep @ ep_global_known_hosts_files ep"

definition record_target :: "resolved_endpoint \<Rightarrow> string option" where
  "record_target ep = List.find (\<lambda>f. f \<noteq> ''/dev/null'') (ep_known_hosts_files ep)"

section \<open>Routes\<close>

definition MAX_DEPTH :: nat where
  "MAX_DEPTH = 8"

record route_state =
  rt_jumps :: "resolved_endpoint list"
  rt_visited :: "string set"
  rt_unknown :: "string list"

definition note_unknown :: "string list \<Rightarrow> string list \<Rightarrow> string list" where
  "note_unknown known names = foldl (\<lambda>u n. if n \<in> set u then u else u @ [n]) known names"

definition jump_parts :: "raw_host_config \<Rightarrow> string list" where
  "jump_parts r = (case rh_proxy_jump r of
      None \<Rightarrow> []
    | Some pj \<Rightarrow> if to_ascii_lower pj = ''none'' then [] else str_split (CHR '','') pj)"

text \<open>The first argument is \<open>MAX_DEPTH - depth\<close>.\<close>

function build_chain :: "nat \<Rightarrow> config_line list \<Rightarrow> string \<Rightarrow> 16 word \<Rightarrow> string \<Rightarrow> route_state \<Rightarrow> route_error + resolved_endpoint \<times> route_state"
  and build_jumps :: "nat \<Rightarrow> config_line list \<Rightarrow> string \<Rightarrow> 16 word \<Rightarrow> string list \<Rightarrow> route_state \<Rightarrow> route_error + route_state" where
  "build_chain 0 cfg home dp spec st = Inl DepthExceeded"
| "build_chain (Suc n) cfg home dp spec st = (case hop_parse spec of
      Inl e \<Rightarrow> Inl e
    | Inr hop \<Rightarrow>
        if hop_host hop \<in> rt_visited st then Inl (Cycle (hop_host hop))
        else let r = resolve_raw cfg (hop_host hop);
                 st = st\<lparr>rt_visited := insert (hop_host hop) (rt_visited st), rt_unknown := note_unknown (rt_unknown st) (rh_unknown r)\<rparr>
             in case build_jumps n cfg home dp (jump_parts r) st of
                  Inl e \<Rightarrow> Inl e
                | Inr st \<Rightarrow> Inr (into_endpoint r hop home dp, st))"
| "build_jumps n cfg home dp [] st = Inr st"
| "build_jumps n cfg home dp (part # parts) st =
     (if trim part = [] then build_jumps n cfg home dp parts st
      else case build_chain n cfg home dp (trim part) st of
          Inl e \<Rightarrow> Inl e
        | Inr (jump, st) \<Rightarrow> build_jumps n cfg home dp parts (st\<lparr>rt_jumps := rt_jumps st @ [jump]\<rparr>))"
  by pat_completeness auto

termination
  by (relation "measures [\<lambda>x. case x of Inl (n, _) \<Rightarrow> n | Inr (n, _) \<Rightarrow> n,
        \<lambda>x. case x of Inl _ \<Rightarrow> 0 | Inr (_, _, _, _, parts, _) \<Rightarrow> Suc (length parts)]") auto

record resolved_route =
  rr_jumps :: "resolved_endpoint list"
  rr_target :: resolved_endpoint
  rr_unknown_options :: "string list"

definition resolve_route :: "config_line list \<Rightarrow> string \<Rightarrow> string \<Rightarrow> 16 word \<Rightarrow> route_error + resolved_route" where
  "resolve_route cfg target home default_port =
     (case build_chain MAX_DEPTH cfg home default_port target \<lparr>rt_jumps = [], rt_visited = {}, rt_unknown = []\<rparr> of
        Inl e \<Rightarrow> Inl e
      | Inr (endpoint, st) \<Rightarrow> Inr \<lparr>rr_jumps = rt_jumps st, rr_target = endpoint, rr_unknown_options = rt_unknown st\<rparr>)"

definition route_chain :: "resolved_route \<Rightarrow> resolved_endpoint list" where
  "route_chain r = rr_jumps r @ [rr_target r]"

section \<open>Loading with includes\<close>

text \<open>The file system: contents, canonical paths, and for a path with a final component that
  component and the readable directory's entries as names and paths.\<close>

record fs_api =
  fs_read :: "string \<Rightarrow> string option"
  fs_canonical :: "string \<Rightarrow> string"
  fs_siblings :: "string \<Rightarrow> (string \<times> (string \<times> string) list) option"

definition expand_includes :: "fs_api \<Rightarrow> string \<Rightarrow> string \<Rightarrow> string list" where
  "expand_includes fs arg home = concat (map (\<lambda>tok.
      let base = (case strip_prefix ''~/'' tok of
              Some rest \<Rightarrow> path_join home rest
            | None \<Rightarrow> if path_absolute tok then tok else path_join (path_join home ''.ssh'') tok)
      in if CHR ''*'' \<in> set tok \<or> CHR ''?'' \<in> set tok
         then (case fs_siblings fs base of
                 None \<Rightarrow> []
               | Some (pat, entries) \<Rightarrow> map snd (sort_key fst (filter (\<lambda>(name, _). glob_match pat name) entries)))
         else [base]) (split_args arg))"

type_synonym load_state = "config_line list \<times> string set"

definition emit_line :: "config_line \<Rightarrow> load_state \<Rightarrow> load_state" where
  "emit_line l st = (fst st @ [l], snd st)"

function load_into :: "nat \<Rightarrow> fs_api \<Rightarrow> string \<Rightarrow> load_state \<Rightarrow> string \<Rightarrow> load_state"
  and load_lines :: "nat \<Rightarrow> fs_api \<Rightarrow> string \<Rightarrow> load_state \<Rightarrow> string list \<Rightarrow> load_state"
  and load_files :: "nat \<Rightarrow> fs_api \<Rightarrow> string \<Rightarrow> load_state \<Rightarrow> string list \<Rightarrow> load_state" where
  "load_into 0 fs home st path = st"
| "load_into (Suc n) fs home st path =
     (if fs_canonical fs path \<in> snd st then st
      else case fs_read fs path of
          None \<Rightarrow> (fst st, insert (fs_canonical fs path) (snd st))
        | Some content \<Rightarrow> load_lines n fs home (fst st, insert (fs_canonical fs path) (snd st)) (str_lines content))"
| "load_lines n fs home st [] = st"
| "load_lines n fs home st (raw # raws) = (case parse_line raw of
      None \<Rightarrow> load_lines n fs home st raws
    | Some (Keyword name arg) \<Rightarrow>
        if name = ''include'' then load_lines n fs home (load_files n fs home st (expand_includes fs arg home)) raws
        else load_lines n fs home (emit_line (Keyword name arg) st) raws
    | Some l \<Rightarrow> load_lines n fs home (emit_line l st) raws)"
| "load_files n fs home st [] = st"
| "load_files n fs home st (f # files) = load_files n fs home (load_into n fs home st f) files"
  by pat_completeness auto

termination
  by (relation "measures [\<lambda>x. case x of Inl (n, _) \<Rightarrow> n | Inr (Inl (n, _)) \<Rightarrow> n | Inr (Inr (n, _)) \<Rightarrow> n,
        \<lambda>x. case x of Inl _ \<Rightarrow> 0 | Inr (Inl _) \<Rightarrow> 2 | Inr (Inr _) \<Rightarrow> 1,
        \<lambda>x. case x of Inl _ \<Rightarrow> 0 | Inr (Inl (_, _, _, _, ls)) \<Rightarrow> length ls | Inr (Inr (_, _, _, _, ls)) \<Rightarrow> length ls]") auto

text \<open>The depth runs from 0 to \<open>MAX_DEPTH\<close>.\<close>

definition ssh_load :: "fs_api \<Rightarrow> string \<Rightarrow> string \<Rightarrow> config_line list" where
  "ssh_load fs path home = fst (load_into (Suc MAX_DEPTH) fs home ([], {}) path)"

section \<open>Host keys\<close>

datatype file_lookup = KeyFound | KeyAbsent | KeyChanged nat | FileError string

datatype known_hosts_lookup = LookupMatch | LookupNotFound | LookupChanged nat | LookupReadError string

datatype reject_reason = RejectUnknown | RejectChanged nat | RejectReadError string

datatype host_key_decision = AcceptKey | AcceptAndRecord | RejectKey reject_reason

definition decide_host_key :: "known_hosts_lookup \<Rightarrow> strict_host_key \<Rightarrow> host_key_decision" where
  "decide_host_key lookup strict = (case lookup of
      LookupMatch \<Rightarrow> AcceptKey
    | LookupNotFound \<Rightarrow> (case strict of StrictNo \<Rightarrow> AcceptKey | StrictAcceptNew \<Rightarrow> AcceptAndRecord | StrictYes \<Rightarrow> RejectKey RejectUnknown)
    | LookupChanged line \<Rightarrow> if strict = StrictNo then AcceptKey else RejectKey (RejectChanged line)
    | LookupReadError reason \<Rightarrow> if strict = StrictNo then AcceptKey else RejectKey (RejectReadError reason))"

fun aggregate_from :: "nat option \<Rightarrow> string option \<Rightarrow> file_lookup list \<Rightarrow> known_hosts_lookup" where
  "aggregate_from changed err [] = (case changed of
      Some line \<Rightarrow> LookupChanged line
    | None \<Rightarrow> (case err of Some reason \<Rightarrow> LookupReadError reason | None \<Rightarrow> LookupNotFound))"
| "aggregate_from changed err (r # rs) = (case r of
      KeyFound \<Rightarrow> LookupMatch
    | KeyAbsent \<Rightarrow> aggregate_from changed err rs
    | KeyChanged line \<Rightarrow> aggregate_from (case changed of Some l \<Rightarrow> Some l | None \<Rightarrow> Some line) err rs
    | FileError reason \<Rightarrow> aggregate_from changed (case err of Some e \<Rightarrow> Some e | None \<Rightarrow> Some reason) rs)"

definition aggregate_lookup :: "(string \<Rightarrow> 16 word \<Rightarrow> 'k \<Rightarrow> string \<Rightarrow> file_lookup) \<Rightarrow> string list \<Rightarrow> string \<Rightarrow> 16 word \<Rightarrow> 'k \<Rightarrow> known_hosts_lookup" where
  "aggregate_lookup check files host port key = aggregate_from None None (map (check host port key) files)"

definition lookup_host_key ::
    "(string \<Rightarrow> 16 word \<Rightarrow> 'k \<Rightarrow> string \<Rightarrow> file_lookup) \<Rightarrow> string list \<Rightarrow> string \<Rightarrow> 16 word \<Rightarrow> 'k \<Rightarrow> known_hosts_lookup \<times> bool" where
  "lookup_host_key check files host port key =
     (let primary = aggregate_lookup check files host port key
      in if port \<noteq> DEFAULT_SSH_PORT \<and> primary = LookupNotFound
         then (case aggregate_lookup check files host DEFAULT_SSH_PORT key of
                 LookupMatch \<Rightarrow> (LookupMatch, True)
               | LookupChanged line \<Rightarrow> (LookupChanged line, False)
               | _ \<Rightarrow> (primary, False))
         else (primary, False))"

datatype host_key_verdict = VerdictOk | VerdictUnknown | VerdictMismatch nat | VerdictReadError string

record host_key_client =
  hc_host :: string
  hc_port :: "16 word"
  hc_files :: "string list"
  hc_strict :: strict_host_key
  hc_record_target :: "string option"

text \<open>The verdict, whether the key is accepted, and the file it is recorded in.\<close>

definition check_server_key ::
    "(string \<Rightarrow> 16 word \<Rightarrow> 'k \<Rightarrow> string \<Rightarrow> file_lookup) \<Rightarrow> host_key_client \<Rightarrow> 'k \<Rightarrow> host_key_verdict \<times> bool \<times> string option" where
  "check_server_key check c key =
     (case decide_host_key (fst (lookup_host_key check (hc_files c) (hc_host c) (hc_port c) key)) (hc_strict c) of
        AcceptKey \<Rightarrow> (VerdictOk, True, None)
      | AcceptAndRecord \<Rightarrow> (VerdictOk, True, hc_record_target c)
      | RejectKey RejectUnknown \<Rightarrow> (VerdictUnknown, False, None)
      | RejectKey (RejectChanged line) \<Rightarrow> (VerdictMismatch line, False, None)
      | RejectKey (RejectReadError reason) \<Rightarrow> (VerdictReadError reason, False, None))"

end
