(* ===== verification/Tomo_Route.thy ===== *)
theory Tomo_Route
  imports Tomo_SshConfig
begin

text \<open>
  What the resolver of \<^theory_text>\<open>Tomo_SshConfig\<close> guarantees: the pattern loop against a recursive
  reference, the first-value rule of directives, the shape of a route, and which host keys a
  policy lets through.
\<close>

section \<open>Patterns\<close>

fun glob_ref :: "string \<Rightarrow> string \<Rightarrow> bool" where
  "glob_ref [] t \<longleftrightarrow> t = []"
| "glob_ref (q # ps) [] \<longleftrightarrow> q = CHR ''*'' \<and> glob_ref ps []"
| "glob_ref (q # ps) (c # cs) \<longleftrightarrow>
     (if q = CHR ''*'' then glob_ref ps (c # cs) \<or> glob_ref (q # ps) cs
      else (q = CHR ''?'' \<or> q = c) \<and> glob_ref ps cs)"

abbreviation (input) starless :: "string \<Rightarrow> bool" where
  "starless s \<equiv> CHR ''*'' \<notin> set s"

lemma glob_ref_end: "glob_ref ps [] \<longleftrightarrow> list_all (\<lambda>c. c = CHR ''*'') ps"
  by (induction ps) auto

lemma glob_ref_star: "glob_ref (CHR ''*'' # ps) t \<longleftrightarrow> glob_ref ps t \<or> (t \<noteq> [] \<and> glob_ref (CHR ''*'' # ps) (tl t))"
  by (cases t) auto

lemma glob_ref_later: "glob_ref (CHR ''*'' # ps) (drop n t) \<Longrightarrow> glob_ref (CHR ''*'' # ps) t"
proof (induction n arbitrary: t)
  case (Suc n)
  then show ?case by (cases t) auto
qed simp

lemma glob_ref_somewhere: "glob_ref (CHR ''*'' # ps) t \<Longrightarrow> \<exists>n. glob_ref ps (drop n t)"
proof (induction t)
  case (Cons c t)
  then consider "glob_ref ps (c # t)" | "glob_ref (CHR ''*'' # ps) t" by auto
  then show ?case by cases (use Cons.IH in \<open>auto intro: exI [of _ 0] exI [of _ "Suc n" for n]\<close>)
qed auto

lemma glob_ref_seg: "starless seg \<Longrightarrow> glob_ref (seg @ qs) t \<Longrightarrow> length seg \<le> length t \<and> glob_ref qs (drop (length seg) t)"
proof (induction seg arbitrary: t)
  case (Cons q seg)
  then show ?case by (cases t) auto
qed simp

lemma glob_loop_spec:
  assumes "starless hay" "k \<le> length hay"
    and "\<And>after. star = Some after \<Longrightarrow> \<exists>seg. starless seg \<and> length seg = k \<and> after = seg @ needle"
  shows "glob_loop needle star hay k \<longleftrightarrow> glob_ref needle (drop k hay) \<or>
    (case star of None \<Rightarrow> False | Some after \<Rightarrow> hay \<noteq> [] \<and> glob_ref (CHR ''*'' # after) (tl hay))"
  using assms
proof (induction needle star hay k rule: glob_loop.induct)
  case (1 needle star hay k)
  show ?case
  proof (cases "k < length hay")
    case False
    then have k: "k = length hay" using "1.prems"(2) by simp
    have "\<not> glob_ref (CHR ''*'' # after) (tl hay)" if after: "star = Some after" "hay \<noteq> []" for after
    proof
      obtain seg where seg: "starless seg" "length seg = k" "after = seg @ needle" using "1.prems"(3) [OF after(1)] by blast
      assume "glob_ref (CHR ''*'' # after) (tl hay)"
      then obtain n where "glob_ref (seg @ needle) (drop n (tl hay))" using glob_ref_somewhere seg(3) by blast
      then have "length seg \<le> length (tl hay)" using glob_ref_seg [OF seg(1)] by fastforce
      then show False using seg(2) k after(2) by (cases hay) auto
    qed
    moreover have "glob_loop needle star hay k \<longleftrightarrow> list_all (\<lambda>c. c = CHR ''*'') needle"
      using False by (simp add: glob_loop.simps [of needle star hay k])
    ultimately show ?thesis using k by (auto simp: glob_ref_end split: option.splits)
  next
    case True
    then obtain c cs where d: "drop k hay = c # cs" "hay ! k = c" "drop (Suc k) hay = cs"
      by (metis Cons_nth_drop_Suc)
    have c: "c \<noteq> CHR ''*''" using d(2) True "1.prems"(1) nth_mem by metis
    have ne: "hay \<noteq> []" using True by auto
    consider (match) "needle \<noteq> []" "hd needle = CHR ''?'' \<or> hd needle = c"
      | (star) "needle \<noteq> []" "\<not> (hd needle = CHR ''?'' \<or> hd needle = c)" "hd needle = CHR ''*''"
      | (miss) "needle = [] \<or> hd needle \<noteq> CHR ''*'' \<and> hd needle \<noteq> CHR ''?'' \<and> hd needle \<noteq> c"
      by blast
    then show ?thesis
    proof cases
      case match
      have step: "glob_loop needle star hay k \<longleftrightarrow> glob_loop (tl needle) star hay (Suc k)"
        using True match d(2) by (simp add: glob_loop.simps [of needle star hay k])
      from match obtain q ps where q: "needle = q # ps" "q \<noteq> CHR ''*''" "q = CHR ''?'' \<or> q = c" using c by (cases needle) auto
      have "\<exists>seg. starless seg \<and> length seg = Suc k \<and> after = seg @ tl needle" if some: "star = Some after" for after
      proof -
        obtain seg where "starless seg" "length seg = k" "after = seg @ needle" using "1.prems"(3) [OF some] by blast
        then show ?thesis using q by (intro exI [of _ "seg @ [q]"]) auto
      qed
      then have "glob_loop (tl needle) star hay (Suc k) \<longleftrightarrow> glob_ref (tl needle) (drop (Suc k) hay) \<or>
          (case star of None \<Rightarrow> False | Some after \<Rightarrow> hay \<noteq> [] \<and> glob_ref (CHR ''*'' # after) (tl hay))"
        using "1.IH"(1) True match d(2) "1.prems"(1) by auto
      then show ?thesis using q d step by simp
    next
      case star
      have step: "glob_loop needle star hay k \<longleftrightarrow> glob_loop (tl needle) (Some (tl needle)) (drop k hay) 0"
        using True star d(2) by (simp add: glob_loop.simps [of needle star hay k])
      from star obtain ps where q: "needle = CHR ''*'' # ps" by (cases needle) auto
      have ih: "glob_loop ps (Some ps) (drop k hay) 0 \<longleftrightarrow> glob_ref needle (drop k hay)"
        using "1.IH"(2) True star d(2) "1.prems"(1) q glob_ref_star [of ps "drop k hay"] by (auto dest: in_set_dropD)
      have "glob_ref needle (drop k hay)" if after: "star = Some after" "glob_ref (CHR ''*'' # after) (tl hay)" for after
      proof -
        obtain seg where seg: "starless seg" "length seg = k" "after = seg @ needle" using "1.prems"(3) [OF after(1)] by blast
        obtain n where "glob_ref (seg @ needle) (drop n (tl hay))" using glob_ref_somewhere [OF after(2)] seg(3) by blast
        then have "glob_ref needle (drop k (drop n (tl hay)))" using glob_ref_seg [OF seg(1)] seg(2) by blast
        also have "drop k (drop n (tl hay)) = drop (Suc n) (drop k hay)" by (simp add: drop_Suc [symmetric] add.commute)
        finally show ?thesis using q glob_ref_later by metis
      qed
      then show ?thesis using q ih step by (auto split: option.splits)
    next
      case miss
      have step: "glob_loop needle star hay k \<longleftrightarrow> (case star of Some after \<Rightarrow> glob_loop after star (tl hay) 0 | None \<Rightarrow> False)"
        using True miss d(2) by (subst glob_loop.simps) auto
      from miss have no: "\<not> glob_ref needle (drop k hay)" using d(1) by (cases needle) auto
      show ?thesis
      proof (cases star)
        case None
        then show ?thesis using no step by simp
      next
        case (Some after)
        have "glob_loop after star (tl hay) 0 \<longleftrightarrow> glob_ref after (tl hay) \<or> (tl hay \<noteq> [] \<and> glob_ref (CHR ''*'' # after) (tl (tl hay)))"
          using "1.IH"(3) [OF True _ _ Some] miss d(2) Some "1.prems"(1) by (auto dest: list.set_sel(2) [OF ne])
        then have "glob_loop after star (tl hay) 0 \<longleftrightarrow> glob_ref (CHR ''*'' # after) (tl hay)" using glob_ref_star [of after "tl hay"] by blast
        then show ?thesis using no Some ne step by simp
      qed
    qed
  qed
qed

lemma lower_no_star: "CHR ''A'' \<le> c \<Longrightarrow> c \<le> CHR ''Z'' \<Longrightarrow> CHR ''*'' \<noteq> char_of (of_char c + 32 :: nat)"
proof
  assume c: "CHR ''A'' \<le> c" "c \<le> CHR ''Z''" and eq: "CHR ''*'' = char_of (of_char c + 32 :: nat)"
  have "65 \<le> (of_char c :: nat)" "(of_char c :: nat) \<le> 90" using c by (simp_all add: less_eq_char_def)
  moreover have "(of_char c + 32) mod 256 = (42 :: nat)" using arg_cong [OF eq, of "of_char :: char \<Rightarrow> nat"] by simp
  ultimately show False by simp
qed

lemma starless_lower: "starless s \<Longrightarrow> starless (to_ascii_lower s)"
  by (induction s) (auto simp del: char_of_eq_iff dest: lower_no_star)

text \<open>The iterative pattern match, with its single point to come back to, decides the
  recursive definition of a wildcard match (case aside), for every text that holds no star
  itself.\<close>

theorem glob_match_decides:
  assumes "CHR ''*'' \<notin> set text"
  shows "glob_match pat text \<longleftrightarrow> glob_ref (to_ascii_lower pat) (to_ascii_lower text)"
  using glob_loop_spec [of "to_ascii_lower text" 0 None "to_ascii_lower pat"] starless_lower [OF assms]
  by (simp add: glob_match_def)

theorem glob_match_decides_witness:
  "glob_match ''*.Example.*'' ''Build.example.com'' \<longleftrightarrow> glob_ref (to_ascii_lower ''*.Example.*'') (to_ascii_lower ''Build.example.com'')"
  by (rule glob_match_decides) simp

section \<open>First value wins\<close>

text \<open>The directives that apply to a host, in file order.\<close>

fun applicable :: "bool \<Rightarrow> config_line list \<Rightarrow> string \<Rightarrow> (string \<times> string) list" where
  "applicable active [] host = []"
| "applicable active (HostLine patterns # ls) host = applicable (host_matches patterns host) ls host"
| "applicable active (MatchLine # ls) host = applicable False ls host"
| "applicable active (Keyword name args # ls) host = (if active then [(name, args)] else []) @ applicable active ls host"

definition apply_all :: "raw_host_config \<Rightarrow> (string \<times> string) list \<Rightarrow> raw_host_config" where
  "apply_all r ds = foldl (\<lambda>r (n, a). apply_directive r n a) r ds"

lemma resolve_lines_applicable: "resolve_lines active r ls host = apply_all r (applicable active ls host)"
  by (induction active r ls host rule: resolve_lines.induct) (simp_all add: apply_all_def)

lemma apply_all_Nil [simp]: "apply_all r [] = r"
  by (simp add: apply_all_def)

lemma apply_all_Cons [simp]: "apply_all r ((n, a) # ds) = apply_all (apply_directive r n a) ds"
  by (simp add: apply_all_def)

text \<open>The first value a keyword takes, among the arguments that have one.\<close>

fun first_value :: "string \<Rightarrow> (string \<Rightarrow> 'a option) \<Rightarrow> (string \<times> string) list \<Rightarrow> 'a option" where
  "first_value name f [] = None"
| "first_value name f ((n, a) # ds) = (if n = name \<and> f a \<noteq> None then f a else first_value name f ds)"

lemma apply_all_single:
  assumes "\<And>r a. get (apply_directive r name a) = (case get r of Some v \<Rightarrow> Some v | None \<Rightarrow> f a)"
    and "\<And>r n a. n \<noteq> name \<Longrightarrow> get (apply_directive r n a) = get r"
  shows "get (apply_all r ds) = (case get r of Some v \<Rightarrow> Some v | None \<Rightarrow> first_value name f ds)"
proof (induction ds arbitrary: r)
  case (Cons d ds)
  obtain n a where d: "d = (n, a)" by (cases d)
  show ?case
  proof (cases "n = name")
    case True
    then show ?thesis using Cons [of "apply_directive r n a"] assms(1) [of r a] d by (auto split: option.splits)
  next
    case False
    then show ?thesis using Cons [of "apply_directive r n a"] assms(2) [OF False, of r a] d by (simp split: option.splits)
  qed
qed (simp split: option.splits)

definition port_value :: "string \<Rightarrow> 16 word option" where
  "port_value a = (case parse_u16 (trim a) of Some p \<Rightarrow> if p \<noteq> 0 then Some p else None | None \<Rightarrow> None)"

lemma apply_all_identities:
  "rh_identity_files (apply_all r ds) = rh_identity_files r @ concat (map (\<lambda>(n, a). if n = ''identityfile'' then split_args a else []) ds)"
proof (induction ds arbitrary: r)
  case (Cons d ds)
  obtain n a where "d = (n, a)" by (cases d)
  then show ?case using Cons [of "apply_directive r n a"] by (simp add: apply_directive_def split: option.splits)
qed simp

text \<open>Each host gets the first value obtained. Of all directives in the global part and the
  matching \<open>Host\<close> blocks, in file order, the first \<open>HostName\<close>, \<open>User\<close> and \<open>ProxyJump\<close>, the first
  valid \<open>Port\<close> and the first recognised \<open>StrictHostKeyChecking\<close> decide, and \<open>IdentityFile\<close>
  arguments add up.\<close>

theorem first_value_wins:
  "let ds = applicable True cfg host; r = resolve_raw cfg host
   in rh_host_name r = first_value ''hostname'' (\<lambda>a. Some (unquote (trim a))) ds \<and>
      rh_user r = first_value ''user'' (\<lambda>a. Some (unquote (trim a))) ds \<and>
      rh_port r = first_value ''port'' port_value ds \<and>
      rh_strict r = first_value ''stricthostkeychecking'' strict_parse ds \<and>
      rh_proxy_jump r = first_value ''proxyjump'' (\<lambda>a. Some (trim a)) ds \<and>
      rh_identity_files r = concat (map (\<lambda>(n, a). if n = ''identityfile'' then split_args a else []) ds)"
proof -
  let ?ds = "applicable True cfg host"
  have r: "resolve_raw cfg host = apply_all raw_default ?ds" by (simp add: resolve_raw_def resolve_lines_applicable)
  have d: "rh_host_name raw_default = None" "rh_user raw_default = None" "rh_port raw_default = None" "rh_strict raw_default = None"
      "rh_proxy_jump raw_default = None" "rh_identity_files raw_default = []"
    by (simp_all add: raw_default_def)
  have "rh_host_name (apply_all raw_default ?ds) = first_value ''hostname'' (\<lambda>a. Some (unquote (trim a))) ?ds"
    by (subst apply_all_single [where get = rh_host_name]) (auto simp: apply_directive_def set_first_def d split: option.splits)
  moreover have "rh_user (apply_all raw_default ?ds) = first_value ''user'' (\<lambda>a. Some (unquote (trim a))) ?ds"
    by (subst apply_all_single [where get = rh_user]) (auto simp: apply_directive_def set_first_def d split: option.splits)
  moreover have "rh_port (apply_all raw_default ?ds) = first_value ''port'' port_value ?ds"
    by (subst apply_all_single [where get = rh_port]) (auto simp: apply_directive_def set_first_def port_value_def d split: option.splits)
  moreover have "rh_strict (apply_all raw_default ?ds) = first_value ''stricthostkeychecking'' strict_parse ?ds"
    by (subst apply_all_single [where get = rh_strict]) (auto simp: apply_directive_def set_first_def d split: option.splits)
  moreover have "rh_proxy_jump (apply_all raw_default ?ds) = first_value ''proxyjump'' (\<lambda>a. Some (trim a)) ?ds"
    by (subst apply_all_single [where get = rh_proxy_jump]) (auto simp: apply_directive_def set_first_def d split: option.splits)
  ultimately show ?thesis unfolding Let_def r by (simp add: apply_all_identities d)
qed

section \<open>Routes\<close>

definition named_hops :: "string list \<Rightarrow> string set" where
  "named_hops parts = {hop_host hop | part hop. part \<in> set parts \<and> trim part \<noteq> [] \<and> hop_parse (trim part) = Inr hop}"

fun dialed_in_order :: "config_line list \<Rightarrow> string set \<Rightarrow> string list \<Rightarrow> bool" where
  "dialed_in_order cfg before [] \<longleftrightarrow> True"
| "dialed_in_order cfg before (h # hs) \<longleftrightarrow>
     h \<notin> before \<and> named_hops (jump_parts (resolve_raw cfg h)) \<subseteq> before \<and> dialed_in_order cfg (insert h before) hs"

lemma dialed_append: "dialed_in_order cfg before (xs @ ys) \<longleftrightarrow> dialed_in_order cfg before xs \<and> dialed_in_order cfg (before \<union> set xs) ys"
  by (induction xs arbitrary: before) (auto simp: Un_commute)

lemma dialed_distinct: "dialed_in_order cfg before hs \<Longrightarrow> distinct hs \<and> set hs \<inter> before = {}"
  by (induction hs arbitrary: before) auto

lemma into_endpoint_alias [simp]: "ep_alias (into_endpoint r hop home dp) = hop_host hop"
  by (simp add: into_endpoint_def)

abbreviation (input) jump_names :: "route_state \<Rightarrow> string list" where
  "jump_names st \<equiv> map ep_alias (rt_jumps st)"

lemma build_route:
  "build_chain n cfg home dp spec st = Inr (ep, st') \<Longrightarrow> set (jump_names st) \<subseteq> rt_visited st \<Longrightarrow> dialed_in_order cfg {} (jump_names st) \<Longrightarrow>
     (\<exists>hop. hop_parse spec = Inr hop \<and> ep = into_endpoint (resolve_raw cfg (hop_host hop)) hop home dp) \<and>
     ep_alias ep \<notin> rt_visited st \<and> ep_alias ep \<in> rt_visited st' \<and> rt_visited st \<subseteq> rt_visited st' \<and>
     set (jump_names st') \<subseteq> rt_visited st' - {ep_alias ep} \<and> set (jump_names st') \<inter> rt_visited st \<subseteq> set (jump_names st) \<and>
     set (jump_names st) \<subseteq> set (jump_names st') \<and> dialed_in_order cfg {} (jump_names st' @ [ep_alias ep])"
  "build_jumps n cfg home dp parts st = Inr st2 \<Longrightarrow> set (jump_names st) \<subseteq> rt_visited st \<Longrightarrow> dialed_in_order cfg {} (jump_names st) \<Longrightarrow>
     rt_visited st \<subseteq> rt_visited st2 \<and> set (jump_names st2) \<subseteq> rt_visited st2 \<and>
     set (jump_names st2) \<inter> rt_visited st \<subseteq> set (jump_names st) \<and> set (jump_names st) \<subseteq> set (jump_names st2) \<and>
     named_hops parts \<subseteq> set (jump_names st2) \<and> dialed_in_order cfg {} (jump_names st2)"
proof (induction n cfg home dp spec st and n cfg home dp parts st arbitrary: ep st' and st2 rule: build_chain_build_jumps.induct)
  case (1 cfg home dp spec st)
  then show ?case by simp
next
  case (2 n cfg home dp spec st)
  from "2.prems"(1) obtain hop where hop: "hop_parse spec = Inr hop" "hop_host hop \<notin> rt_visited st"
    by (auto split: sum.splits if_splits)
  let ?r = "resolve_raw cfg (hop_host hop)"
  let ?st = "st\<lparr>rt_visited := insert (hop_host hop) (rt_visited st), rt_unknown := note_unknown (rt_unknown st) (rh_unknown ?r)\<rparr>"
  have j: "build_jumps n cfg home dp (jump_parts ?r) ?st = Inr st'" and ep: "ep = into_endpoint ?r hop home dp"
    using "2.prems"(1) hop by (auto simp: Let_def split: sum.splits)
  have "set (jump_names ?st) \<subseteq> rt_visited ?st" "dialed_in_order cfg {} (jump_names ?st)" using "2.prems"(2,3) by auto
  from "2.IH" [OF hop refl refl j this]
  have ih: "rt_visited ?st \<subseteq> rt_visited st'" "set (jump_names st') \<subseteq> rt_visited st'" "set (jump_names st') \<inter> rt_visited ?st \<subseteq> set (jump_names st)"
    "set (jump_names st) \<subseteq> set (jump_names st')" "named_hops (jump_parts ?r) \<subseteq> set (jump_names st')" "dialed_in_order cfg {} (jump_names st')"
    by simp_all
  have a: "ep_alias ep = hop_host hop" by (simp add: ep)
  have "hop_host hop \<notin> set (jump_names st')" using ih(3) hop(2) "2.prems"(2) by auto
  then have "dialed_in_order cfg {} (jump_names st' @ [ep_alias ep])" using ih(5,6) by (simp add: dialed_append a)
  moreover have "set (jump_names st') \<subseteq> rt_visited st' - {ep_alias ep}"
    using ih(2) \<open>hop_host hop \<notin> set (jump_names st')\<close> unfolding a by blast
  moreover have "hop_host hop \<in> rt_visited st'" "rt_visited st \<subseteq> rt_visited st'" "set (jump_names st') \<inter> rt_visited st \<subseteq> set (jump_names st)"
    using ih(1,3) by auto
  ultimately show ?case using hop ep ih(4) unfolding a by blast
next
  case (3 n cfg home dp st)
  then show ?case by (simp add: named_hops_def)
next
  case (4 n cfg home dp part parts st)
  show ?case
  proof (cases "trim part = []")
    case True
    then have "named_hops (part # parts) = named_hops parts" by (auto simp: named_hops_def)
    then show ?thesis using "4.IH"(1) [OF True] "4.prems" True by simp
  next
    case False
    then obtain jump st1 where c: "build_chain n cfg home dp (trim part) st = Inr (jump, st1)"
      "build_jumps n cfg home dp parts (st1\<lparr>rt_jumps := rt_jumps st1 @ [jump]\<rparr>) = Inr st2"
      using "4.prems"(1) by (auto split: sum.splits)
    let ?st = "st1\<lparr>rt_jumps := rt_jumps st1 @ [jump]\<rparr>"
    note one = "4.IH"(2) [OF False c(1) "4.prems"(2,3)]
    have "set (jump_names ?st) \<subseteq> rt_visited ?st" "dialed_in_order cfg {} (jump_names ?st)" using one by auto
    from "4.IH"(3) [OF False c(1) refl c(2) this]
    have two: "rt_visited st1 \<subseteq> rt_visited st2" "set (jump_names st2) \<subseteq> rt_visited st2"
      "set (jump_names st2) \<inter> rt_visited st1 \<subseteq> insert (ep_alias jump) (set (jump_names st1))"
      "insert (ep_alias jump) (set (jump_names st1)) \<subseteq> set (jump_names st2)"
      "named_hops parts \<subseteq> set (jump_names st2)" "dialed_in_order cfg {} (jump_names st2)"
      by simp_all
    obtain hop where hop: "hop_parse (trim part) = Inr hop" "ep_alias jump = hop_host hop" using one by auto
    have "named_hops (part # parts) \<subseteq> insert (hop_host hop) (named_hops parts)" using hop(1) by (auto simp: named_hops_def)
    then have "named_hops (part # parts) \<subseteq> set (jump_names st2)" using two(4,5) hop(2) by auto
    moreover have "set (jump_names st2) \<inter> rt_visited st \<subseteq> set (jump_names st)" using two(3) one by blast
    ultimately show ?thesis using two(1,2,4,6) one by blast
  qed
qed

text \<open>C35: A route visits no host twice and reaches every host through the jumps it asks for. The
  hops of a resolved route, the target last, have different names, every host a hop's
  \<open>ProxyJump\<close> names stands before that hop, and each endpoint is the one the configuration
  resolves its name to.\<close>

theorem route_in_order:
  assumes "resolve_route cfg target home dp = Inr route"
  shows "distinct (map ep_alias (route_chain route)) \<and> dialed_in_order cfg {} (map ep_alias (route_chain route)) \<and>
    (\<exists>hop. hop_parse target = Inr hop \<and> rr_target route = into_endpoint (resolve_raw cfg (hop_host hop)) hop home dp)"
proof -
  obtain ep st where "build_chain MAX_DEPTH cfg home dp target \<lparr>rt_jumps = [], rt_visited = {}, rt_unknown = []\<rparr> = Inr (ep, st)"
    and r: "route = \<lparr>rr_jumps = rt_jumps st, rr_target = ep, rr_unknown_options = rt_unknown st\<rparr>"
    using assms by (auto simp: resolve_route_def split: sum.splits)
  then have "(\<exists>hop. hop_parse target = Inr hop \<and> ep = into_endpoint (resolve_raw cfg (hop_host hop)) hop home dp)"
    "dialed_in_order cfg {} (jump_names st @ [ep_alias ep])"
    using build_route(1) [OF \<open>build_chain MAX_DEPTH _ _ _ _ _ = _\<close>] by simp_all
  then show ?thesis using dialed_distinct [of cfg "{}" "jump_names st @ [ep_alias ep]"] by (simp add: r route_chain_def)
qed

text \<open>A jump host used twice is refused as a cycle. The set of visited hosts is never reduced
  when a hop is done, so two hosts of one chain that share a jump host make the second use of
  it a cycle, although no host is reached through itself.\<close>

theorem shared_jump_called_cycle:
  assumes "jump_parts (resolve_raw cfg t) = [a, b]" "jump_parts (resolve_raw cfg a) = []" "jump_parts (resolve_raw cfg b) = [a]"
    and "hop_parse t = Inr ht" "hop_host ht = t" "hop_parse (trim a) = Inr ha" "hop_host ha = a" "hop_parse (trim b) = Inr hb" "hop_host hb = b"
    and "distinct [t, a, b]" "trim a \<noteq> []" "trim b \<noteq> []"
  shows "resolve_route cfg t home dp = Inl (Cycle a)"
  using assms by (auto simp: resolve_route_def MAX_DEPTH_def eval_nat_numeral Let_def)

section \<open>Host keys\<close>

lemma aggregate_from_Match: "aggregate_from ch er rs = LookupMatch \<longleftrightarrow> KeyFound \<in> set rs"
  by (induction ch er rs rule: aggregate_from.induct) (auto split: option.splits file_lookup.splits)

lemma aggregate_from_NotFound: "aggregate_from ch er rs = LookupNotFound \<longleftrightarrow> ch = None \<and> er = None \<and> set rs \<subseteq> {KeyAbsent}"
  by (induction ch er rs rule: aggregate_from.induct) (auto split: option.splits file_lookup.splits)

lemma aggregate_from_Changed:
  "(\<exists>l. aggregate_from ch er rs = LookupChanged l) \<longleftrightarrow> KeyFound \<notin> set rs \<and> (ch \<noteq> None \<or> (\<exists>l. KeyChanged l \<in> set rs))"
  by (induction ch er rs rule: aggregate_from.induct) (auto split: option.splits file_lookup.splits)

text \<open>C34: The host-key policy. A key is accepted exactly if the policy is \<open>no\<close>, or some consulted
  file holds it for this port, or the port is not 22, no file knows the host with that port and
  some file holds the key for the host without a port, or the policy is \<open>accept-new\<close>, no file
  knows the host with the port, and none holds another key for it without one. Only in the last
  case it is recorded, and never in a file the configuration did not name as the user's.\<close>

theorem host_key_policy:
  "let seen = (\<lambda>port. set (map (check (hc_host c) port key) (hc_files c))); p = hc_port c;
       unknown = (seen p \<subseteq> {KeyAbsent} \<and> (p = DEFAULT_SSH_PORT \<or> (KeyFound \<notin> seen DEFAULT_SSH_PORT \<and> (\<forall>l. KeyChanged l \<notin> seen DEFAULT_SSH_PORT))));
       (verdict, accepted, recorded) = check_server_key check c key
   in (accepted \<longleftrightarrow> hc_strict c = StrictNo \<or> KeyFound \<in> seen p \<or>
        (p \<noteq> DEFAULT_SSH_PORT \<and> seen p \<subseteq> {KeyAbsent} \<and> KeyFound \<in> seen DEFAULT_SSH_PORT) \<or> (hc_strict c = StrictAcceptNew \<and> unknown)) \<and>
      recorded = (if hc_strict c = StrictAcceptNew \<and> unknown then hc_record_target c else None)"
proof -
  define seen where "seen port = set (map (check (hc_host c) port key) (hc_files c))" for port
  let ?A = "aggregate_lookup check (hc_files c) (hc_host c) (hc_port c) key"
  let ?B = "aggregate_lookup check (hc_files c) (hc_host c) DEFAULT_SSH_PORT key"
  have ag: "aggregate_lookup check (hc_files c) (hc_host c) port key = LookupMatch \<longleftrightarrow> KeyFound \<in> seen port"
    "aggregate_lookup check (hc_files c) (hc_host c) port key = LookupNotFound \<longleftrightarrow> seen port \<subseteq> {KeyAbsent}"
    "(\<exists>l. aggregate_lookup check (hc_files c) (hc_host c) port key = LookupChanged l) \<longleftrightarrow> KeyFound \<notin> seen port \<and> (\<exists>l. KeyChanged l \<in> seen port)" for port
    by (simp_all only: aggregate_lookup_def aggregate_from_Match aggregate_from_NotFound aggregate_from_Changed seen_def) auto
  note A = ag [of "hc_port c"] and B = ag [of DEFAULT_SSH_PORT]
  have fold: "(\<lambda>port. set (map (check (hc_host c) port key) (hc_files c))) = seen" by (simp add: seen_def fun_eq_iff)
  show ?thesis
    unfolding fold Let_def
    using A B
    by (cases ?A; cases ?B; cases "hc_strict c") (auto simp: check_server_key_def lookup_host_key_def decide_host_key_def)
qed

section \<open>At work\<close>

definition demo_hosts :: "config_line list" where
  "demo_hosts = ssh_parse (''Host web'' @ [CHR 0x0A] @ ''  ProxyJump gate, inner'' @ [CHR 0x0A] @ ''Host inner'' @ [CHR 0x0A] @ ''  User ops'')"

definition demo_shared :: "config_line list" where
  "demo_shared = [HostLine ''web'', Keyword ''proxyjump'' ''gate,inner'', HostLine ''inner'', Keyword ''proxyjump'' ''gate'']"

lemma map_sum_Inr: "map_sum id f x = Inr y \<Longrightarrow> \<exists>r. x = Inr r \<and> f r = y"
  by (cases x) auto

theorem route_in_order_witness:
  "\<exists>route. resolve_route demo_hosts ''web'' ''/home/u'' 22 = Inr route \<and> map ep_alias (route_chain route) = [''gate'', ''inner'', ''web''] \<and>
     dialed_in_order demo_hosts {} (map ep_alias (route_chain route))"
proof -
  have "map_sum id (map ep_alias \<circ> route_chain) (resolve_route demo_hosts ''web'' ''/home/u'' 22) = Inr [''gate'', ''inner'', ''web'']"
    by code_simp
  from map_sum_Inr [OF this] obtain route where r: "resolve_route demo_hosts ''web'' ''/home/u'' 22 = Inr route"
      "(map ep_alias \<circ> route_chain) route = [''gate'', ''inner'', ''web'']" by (elim exE conjE)
  have "dialed_in_order demo_hosts {} (map ep_alias (route_chain route))" using route_in_order [OF r(1)] by blast
  moreover have "map ep_alias (route_chain route) = [''gate'', ''inner'', ''web'']" using r(2) by (simp only: comp_apply)
  ultimately show ?thesis by (intro exI [of _ route] conjI r(1))
qed

theorem shared_jump_called_cycle_witness: "resolve_route demo_shared ''web'' ''/home/u'' 22 = Inl (Cycle ''gate'')"
proof (rule shared_jump_called_cycle)
  show "jump_parts (resolve_raw demo_shared ''web'') = [''gate'', ''inner'']" "jump_parts (resolve_raw demo_shared ''gate'') = []"
    "jump_parts (resolve_raw demo_shared ''inner'') = [''gate'']" by code_simp+
  show "hop_parse ''web'' = Inr \<lparr>hop_user = None, hop_host = ''web'', hop_port = None\<rparr>"
    "hop_parse (trim ''gate'') = Inr \<lparr>hop_user = None, hop_host = ''gate'', hop_port = None\<rparr>"
    "hop_parse (trim ''inner'') = Inr \<lparr>hop_user = None, hop_host = ''inner'', hop_port = None\<rparr>" by code_simp+
  show "trim ''gate'' \<noteq> []" "trim ''inner'' \<noteq> []" by code_simp+
qed simp_all

lemma strip_single: "strip_prefix [c] s = (case s of [] \<Rightarrow> None | x # xs \<Rightarrow> if c = x then Some xs else None)"
  by (cases s) auto

lemma parse_port_Inr: "hostspec_parse_port p = Inr port \<longleftrightarrow> parse_u16 p = Some port \<and> port \<noteq> 0"
  by (auto simp: hostspec_parse_port_def split: option.splits)

text \<open>The host part of a hop.\<close>

lemma split_host_port_hop:
  assumes "split_host_port rest = Inr (host, port)"
  shows "\<exists>hp. (case strip_prefix ''['' rest of
      Some inner \<Rightarrow> (case split_once (CHR '']'') inner of
          Some (addr, after) \<Rightarrow> (addr, Option.bind (strip_prefix '':'' after) parse_u16)
        | None \<Rightarrow> (rest, None))
    | None \<Rightarrow> (case rsplit_once (CHR '':'') rest of
          Some (h, p) \<Rightarrow> if CHR '':'' \<notin> set h \<and> parse_u16 p \<noteq> None then (h, parse_u16 p) else (rest, None)
        | None \<Rightarrow> (rest, None))) = (host, hp) \<and> (case hp of Some p \<Rightarrow> p = port | None \<Rightarrow> port = DEFAULT_SSH_PORT)"
proof (cases "strip_prefix ''['' rest")
  case None
  then show ?thesis using assms
    by (cases "rsplit_once (CHR '':'') rest") (auto simp: split_host_port_def parse_port_Inr map_sum_def split: sum.splits if_splits)
next
  case (Some inner)
  then obtain addr after where s: "split_once (CHR '']'') inner = Some (addr, after)"
    using assms by (auto simp: split_host_port_def split: option.splits)
  then show ?thesis using assms Some
    by (cases "strip_prefix '':'' after") (auto simp: split_host_port_def parse_port_Inr map_sum_def split: sum.splits if_splits)
qed

text \<open>The two target parsers agree. Whatever the strict parser accepts, the lenient parser of
  the SSH configuration reads the same way: same user, same host, and the same port, the default
  one when the target names none.\<close>

theorem target_parsers_agree:
  assumes "hostspec_parse target = Inr hs"
  shows "\<exists>hop. hop_parse target = Inr hop \<and> hop_user hop = hs_user hs \<and> hop_host hop = hs_host hs \<and>
    (case hop_port hop of Some p \<Rightarrow> p = hs_port hs | None \<Rightarrow> hs_port hs = DEFAULT_SSH_PORT)"
proof -
  obtain user rest where u: "(case split_once (CHR ''@'') (trim target) of
        Some (u, rest) \<Rightarrow> if u = [] then Inl EmptyUser else if CHR ''@'' \<in> set rest then Inl TwoAts else Inr (Some u, rest)
      | None \<Rightarrow> Inr (None, trim target)) = Inr (user, rest)"
    and hp: "split_host_port rest = Inr (hs_host hs, hs_port hs)" "hs_host hs \<noteq> []" "hs_user hs = user"
    using assms by (auto simp: hostspec_parse_def Let_def split: if_splits sum.splits prod.splits)
  have user: "(case split_once (CHR ''@'') (trim target) of
      Some (u, r) \<Rightarrow> if u \<noteq> [] then (Some u, r) else (None, trim target) | None \<Rightarrow> (None, trim target)) = (user, rest)"
    using u by (auto split: option.splits if_splits)
  obtain port where "(case strip_prefix ''['' rest of
      Some inner \<Rightarrow> (case split_once (CHR '']'') inner of
          Some (addr, after) \<Rightarrow> (addr, Option.bind (strip_prefix '':'' after) parse_u16)
        | None \<Rightarrow> (rest, None))
    | None \<Rightarrow> (case rsplit_once (CHR '':'') rest of
          Some (h, p) \<Rightarrow> if CHR '':'' \<notin> set h \<and> parse_u16 p \<noteq> None then (h, parse_u16 p) else (rest, None)
        | None \<Rightarrow> (rest, None))) = (hs_host hs, port)" "(case port of Some p \<Rightarrow> p = hs_port hs | None \<Rightarrow> hs_port hs = DEFAULT_SSH_PORT)"
    using split_host_port_hop [OF hp(1)] by blast
  then show ?thesis using hp(2,3) unfolding hop_parse_def Let_def user by simp
qed

theorem target_parsers_agree_witness:
  "\<exists>hop. hop_parse ''me@[fe80::1]'' = Inr hop \<and> hop_user hop = Some ''me'' \<and> hop_host hop = ''fe80::1'' \<and>
     (case hop_port hop of Some p \<Rightarrow> p = 22 | None \<Rightarrow> 22 = DEFAULT_SSH_PORT)"
proof -
  have "hostspec_parse ''me@[fe80::1]'' = Inr \<lparr>hs_user = Some ''me'', hs_host = ''fe80::1'', hs_port = 22\<rparr>" by code_simp
  from target_parsers_agree [OF this] show ?thesis by (simp only: host_spec.simps)
qed

end
