(* ===== verification/Tomo_Window.thy ===== *)
theory Tomo_Window
  imports Tomo_Session
begin

text \<open>
  The byte transport, \<^verbatim>\<open>tomo/src/transport.rs\<close>: the frame writer with its counters, the
  bytes-in-flight window, and the reader threads that share it with the session's loop. The
  threads are a state machine whose events are the atomic actions between two lock operations:
  a reader decodes, reserves, forwards or ends, the loop takes a message from the channel,
  flushes its reservation, abandons the transfers, retires a transport or connects a new one.
\<close>

section \<open>The writer\<close>

record frame_writer =
  fw_wire :: bytes
  fw_open :: bool
  fw_frames_sent :: u64
  fw_bytes_sent :: u64

datatype 'e write_error = WriteProto "'e proto_error" | WriteIo

definition fw_send :: "(message \<Rightarrow> 'e + bytes) \<Rightarrow> message \<Rightarrow> frame_writer \<Rightarrow> 'e write_error + frame_writer" where
  "fw_send enc msg fw = (case frame_encode enc msg of
      Inl e \<Rightarrow> Inl (WriteProto e)
    | Inr frame \<Rightarrow> if \<not> fw_open fw then Inl WriteIo
        else Inr (fw\<lparr>fw_wire := fw_wire fw @ frame, fw_frames_sent := fw_frames_sent fw + 1,
                     fw_bytes_sent := fw_bytes_sent fw + word_of_nat (length frame)\<rparr>))"

fun encode_all :: "(message \<Rightarrow> 'e + bytes) \<Rightarrow> message list \<Rightarrow> 'e proto_error + bytes" where
  "encode_all enc [] = Inr []"
| "encode_all enc (m # ms) = (case frame_encode enc m of
      Inl e \<Rightarrow> Inl e
    | Inr frame \<Rightarrow> (case encode_all enc ms of Inl e \<Rightarrow> Inl e | Inr rest \<Rightarrow> Inr (frame @ rest)))"

definition fw_send_batch :: "(message \<Rightarrow> 'e + bytes) \<Rightarrow> message list \<Rightarrow> frame_writer \<Rightarrow> 'e write_error + frame_writer \<times> u64" where
  "fw_send_batch enc msgs fw =
     (if msgs = [] then Inr (fw, 0)
      else case encode_all enc msgs of
          Inl e \<Rightarrow> Inl (WriteProto e)
        | Inr buf \<Rightarrow> if \<not> fw_open fw then Inl WriteIo
            else Inr (fw\<lparr>fw_wire := fw_wire fw @ buf, fw_frames_sent := fw_frames_sent fw + word_of_nat (length msgs),
                         fw_bytes_sent := fw_bytes_sent fw + word_of_nat (length buf)\<rparr>, word_of_nat (length buf)))"

section \<open>The window\<close>

record in_flight =
  outstanding :: u64
  fl_window :: u64

definition inflight_new :: "u64 \<Rightarrow> in_flight" where
  "inflight_new window_bytes = \<lparr>outstanding = 0, fl_window = max window_bytes 1\<rparr>"

text \<open>One look at the counter under the lock; \<open>None\<close> means that the thread waits.\<close>

definition acquire :: "u64 \<Rightarrow> in_flight \<Rightarrow> in_flight option" where
  "acquire cost fl =
     (if cost = 0 then Some fl
      else if outstanding fl > 0 \<and> outstanding fl + cost > fl_window fl then None
      else Some (fl\<lparr>outstanding := outstanding fl + cost\<rparr>))"

text \<open>The two operations that notify the condition variable (one waiter, and all of them). A waiter
  may look at the counter again at any step, as with a spurious wake-up; that none has to look at
  another moment is \<open>only_notifiers_free\<close> below.\<close>

definition release :: "u64 \<Rightarrow> in_flight \<Rightarrow> in_flight" where
  "release cost fl = (if cost = 0 then fl else fl\<lparr>outstanding := sat_sub (outstanding fl) cost\<rparr>)"

definition inflight_reset :: "in_flight \<Rightarrow> in_flight" where
  "inflight_reset fl = fl\<lparr>outstanding := 0\<rparr>"

definition inflight_cost :: "message \<Rightarrow> u64" where
  "inflight_cost msg = (case msg of
      Change _ (Some bs) \<Rightarrow> word_of_nat (length bs)
    | ChunkData _ bs \<Rightarrow> word_of_nat (length bs)
    | _ \<Rightarrow> 0)"

section \<open>Readers and the loop\<close>

text \<open>A reader with the frames its stream still holds and the way the stream ends.\<close>

datatype reader_phase = Reading | Acquiring message | Holding message | Finished

record reader =
  rd_alive :: bool
  rd_phase :: reader_phase
  rd_frames :: "message list"
  rd_end :: session_item

record link =
  lk_flight :: in_flight
  lk_readers :: "reader list"
  lk_chan :: "session_item list"
  lk_pending :: u64
  lk_applied :: "message list"

definition link_new :: "u64 \<Rightarrow> link" where
  "link_new w = \<lparr>lk_flight = inflight_new w, lk_readers = [], lk_chan = [], lk_pending = 0, lk_applied = []\<rparr>"

datatype link_event = DecodeBy nat | AcquireBy nat | ForwardBy nat | EndOf nat | TakeItem | FlushBatch
  | SuspendLink | RetireLink | ConnectTo "message list" session_item

definition set_reader :: "nat \<Rightarrow> reader \<Rightarrow> link \<Rightarrow> link" where
  "set_reader i r s = s\<lparr>lk_readers := (lk_readers s)[i := r]\<rparr>"

definition reader_decode :: "reader \<Rightarrow> reader option" where
  "reader_decode r = (case (rd_phase r, rd_frames r) of
      (Reading, m # ms) \<Rightarrow> Some (r\<lparr>rd_phase := Acquiring m, rd_frames := ms\<rparr>)
    | _ \<Rightarrow> None)"

definition reader_acquire :: "reader \<Rightarrow> in_flight \<Rightarrow> (reader \<times> in_flight) option" where
  "reader_acquire r fl = (case rd_phase r of
      Acquiring m \<Rightarrow> map_option (Pair (r\<lparr>rd_phase := Holding m\<rparr>)) (acquire (inflight_cost m) fl)
    | _ \<Rightarrow> None)"

definition reader_forward :: "reader \<Rightarrow> (reader \<times> session_item list) option" where
  "reader_forward r = (case rd_phase r of
      Holding m \<Rightarrow> if rd_alive r then Some (r\<lparr>rd_phase := Reading\<rparr>, [InMessage m]) else Some (r\<lparr>rd_phase := Finished\<rparr>, [])
    | _ \<Rightarrow> None)"

definition reader_end :: "reader \<Rightarrow> (reader \<times> session_item list) option" where
  "reader_end r = (if rd_phase r = Reading \<and> rd_frames r = []
     then Some (r\<lparr>rd_phase := Finished\<rparr>, if rd_alive r then [rd_end r] else []) else None)"

definition suspend_link :: "link \<Rightarrow> link" where
  "suspend_link s = s\<lparr>lk_pending := 0, lk_flight := inflight_reset (lk_flight s)\<rparr>"

fun link_step :: "link \<Rightarrow> link_event \<Rightarrow> link option" where
  "link_step s (DecodeBy i) = (if i < length (lk_readers s) then map_option (\<lambda>r. set_reader i r s) (reader_decode (lk_readers s ! i)) else None)"
| "link_step s (AcquireBy i) = (if i < length (lk_readers s)
     then map_option (\<lambda>(r, fl). (set_reader i r s)\<lparr>lk_flight := fl\<rparr>) (reader_acquire (lk_readers s ! i) (lk_flight s)) else None)"
| "link_step s (ForwardBy i) = (if i < length (lk_readers s)
     then map_option (\<lambda>(r, out). (set_reader i r s)\<lparr>lk_chan := lk_chan s @ out\<rparr>) (reader_forward (lk_readers s ! i)) else None)"
| "link_step s (EndOf i) = (if i < length (lk_readers s)
     then map_option (\<lambda>(r, out). (set_reader i r s)\<lparr>lk_chan := lk_chan s @ out\<rparr>) (reader_end (lk_readers s ! i)) else None)"
| "link_step s TakeItem = (case lk_chan s of
      [] \<Rightarrow> None
    | item # rest \<Rightarrow> Some (case item of
        InMessage m \<Rightarrow> s\<lparr>lk_chan := rest, lk_pending := lk_pending s + inflight_cost m, lk_applied := lk_applied s @ [m]\<rparr>
      | _ \<Rightarrow> s\<lparr>lk_chan := rest\<rparr>))"
| "link_step s FlushBatch = (if lk_pending s = 0 then None
     else Some (s\<lparr>lk_flight := release (lk_pending s) (lk_flight s), lk_pending := 0\<rparr>))"
| "link_step s SuspendLink = Some (suspend_link s)"
| "link_step s RetireLink = (if list_ex rd_alive (lk_readers s)
     then Some (suspend_link (s\<lparr>lk_readers := map (rd_alive_update (\<lambda>_. False)) (lk_readers s)\<rparr>)) else None)"
| "link_step s (ConnectTo frames fin) = (if list_ex rd_alive (lk_readers s) then None
     else Some (s\<lparr>lk_readers := lk_readers s @ [\<lparr>rd_alive = True, rd_phase = Reading, rd_frames = frames, rd_end = fin\<rparr>]\<rparr>))"

fun link_run :: "link \<Rightarrow> link_event list \<Rightarrow> link option" where
  "link_run s [] = Some s"
| "link_run s (e # es) = (case link_step s e of None \<Rightarrow> None | Some s' \<Rightarrow> link_run s' es)"

section \<open>One write for a batch\<close>

fun send_each :: "(message \<Rightarrow> 'e + bytes) \<Rightarrow> message list \<Rightarrow> frame_writer \<Rightarrow> 'e write_error + frame_writer" where
  "send_each enc [] fw = Inr fw"
| "send_each enc (m # ms) fw = (case fw_send enc m fw of Inl e \<Rightarrow> Inl e | Inr fw' \<Rightarrow> send_each enc ms fw')"

lemma send_each_encoded:
  "fw_open fw \<Longrightarrow> encode_all enc ms = Inr buf \<Longrightarrow>
   send_each enc ms fw = Inr (fw\<lparr>fw_wire := fw_wire fw @ buf, fw_frames_sent := fw_frames_sent fw + word_of_nat (length ms),
     fw_bytes_sent := fw_bytes_sent fw + word_of_nat (length buf)\<rparr>)"
proof (induction ms arbitrary: fw buf)
  case (Cons m ms)
  then obtain f rest where f: "frame_encode enc m = Inr f" "encode_all enc ms = Inr rest" "buf = f @ rest"
    by (auto split: sum.splits)
  let ?fw = "fw\<lparr>fw_wire := fw_wire fw @ f, fw_frames_sent := fw_frames_sent fw + 1, fw_bytes_sent := fw_bytes_sent fw + word_of_nat (length f)\<rparr>"
  have "send_each enc (m # ms) fw = send_each enc ms ?fw" using Cons.prems(1) f(1) by (simp add: fw_send_def)
  also have "\<dots> = Inr (?fw\<lparr>fw_wire := fw_wire ?fw @ rest, fw_frames_sent := fw_frames_sent ?fw + word_of_nat (length ms),
     fw_bytes_sent := fw_bytes_sent ?fw + word_of_nat (length rest)\<rparr>)"
    using Cons.prems(1) by (intro Cons.IH f(2)) simp
  finally show ?case using f(3) by (simp add: algebra_simps)
qed simp

lemma send_each_fails: "fw_open fw \<Longrightarrow> encode_all enc ms = Inl e \<Longrightarrow> send_each enc ms fw = Inl (WriteProto e)"
  by (induction ms arbitrary: fw) (auto simp: fw_send_def split: sum.splits)

text \<open>One write for a batch says the same as one write per message: the same bytes, the same
  counters, the same error; only the frames before an undecodable message are not written.\<close>

theorem batch_is_coalesced_sends:
  "map_sum id fst (fw_send_batch enc msgs fw) = (if msgs = [] then Inr fw else if fw_open fw then send_each enc msgs fw
     else case encode_all enc msgs of Inl e \<Rightarrow> Inl (WriteProto e) | Inr _ \<Rightarrow> Inl WriteIo)"
proof (cases "encode_all enc msgs")
  case (Inl e)
  then show ?thesis using send_each_fails [of fw enc msgs e] by (cases msgs) (simp_all add: fw_send_batch_def)
next
  case (Inr buf)
  then show ?thesis using send_each_encoded [of fw enc msgs buf] by (simp add: fw_send_batch_def)
qed

section \<open>The window in natural numbers\<close>

definition msg_cost :: "message \<Rightarrow> nat" where
  "msg_cost m = unat (inflight_cost m)"

lemma acquire_nat:
  assumes "unat (outstanding fl) + unat c < 2 ^ 64"
  shows "acquire c fl = Some fl' \<longleftrightarrow>
     (unat c = 0 \<or> unat (outstanding fl) = 0 \<or> unat (outstanding fl) + unat c \<le> unat (fl_window fl)) \<and>
     fl_window fl' = fl_window fl \<and> unat (outstanding fl') = unat (outstanding fl) + unat c"
proof -
  have sum: "unat (outstanding fl + c) = unat (outstanding fl) + unat c" using assms by (simp add: unat_word_ariths)
  have eq: "fl' = fl\<lparr>outstanding := outstanding fl + c\<rparr> \<longleftrightarrow> fl_window fl' = fl_window fl \<and> unat (outstanding fl') = unat (outstanding fl) + unat c"
    using sum by (cases fl; cases fl') (auto simp: word_unat_eq_iff)
  have blocked: "outstanding fl > 0 \<and> outstanding fl + c > fl_window fl \<longleftrightarrow>
      unat (outstanding fl) \<noteq> 0 \<and> unat (fl_window fl) < unat (outstanding fl) + unat c"
    unfolding word_less_nat_alt sum by simp
  show ?thesis
  proof (cases "c = 0")
    case True
    then have "acquire c fl = Some fl' \<longleftrightarrow> fl' = fl\<lparr>outstanding := outstanding fl + c\<rparr>" by (auto simp: acquire_def)
    then show ?thesis unfolding eq using True by simp
  next
    case False
    then have "unat c \<noteq> 0" by (simp add: unat_eq_0)
    moreover have "acquire c fl = Some fl' \<longleftrightarrow>
        \<not> (outstanding fl > 0 \<and> outstanding fl + c > fl_window fl) \<and> fl' = fl\<lparr>outstanding := outstanding fl + c\<rparr>"
      using False unfolding acquire_def by (simp only: if_False split: if_split) blast
    ultimately show ?thesis unfolding blocked eq by (auto simp only: not_less)
  qed
qed

section \<open>One connection\<close>

text \<open>What is reserved: by a reader that has not forwarded, in the channel, and not yet flushed.\<close>

definition phase_cost :: "reader \<Rightarrow> nat" where
  "phase_cost r = (case rd_phase r of Holding m \<Rightarrow> msg_cost m | _ \<Rightarrow> 0)"

definition phase_msgs :: "reader \<Rightarrow> message list" where
  "phase_msgs r = (case rd_phase r of Acquiring m \<Rightarrow> [m] | Holding m \<Rightarrow> [m] | _ \<Rightarrow> [])"

fun chan_msgs :: "session_item list \<Rightarrow> message list" where
  "chan_msgs [] = []"
| "chan_msgs (i # is) = (case i of InMessage m \<Rightarrow> [m] | _ \<Rightarrow> []) @ chan_msgs is"

lemma chan_msgs_append [simp]: "chan_msgs (xs @ ys) = chan_msgs xs @ chan_msgs ys"
  by (induction xs) auto

definition unapplied_bytes :: "link \<Rightarrow> nat" where
  "unapplied_bytes s = unat (lk_pending s) + sum_list (map msg_cost (chan_msgs (lk_chan s))) + sum_list (map phase_cost (lk_readers s))"

definition flow_event :: "link_event \<Rightarrow> bool" where
  "flow_event e = (case e of SuspendLink \<Rightarrow> False | RetireLink \<Rightarrow> False | ConnectTo _ _ \<Rightarrow> False | _ \<Rightarrow> True)"

definition stream_end :: "session_item \<Rightarrow> bool" where
  "stream_end i \<longleftrightarrow> i = PeerEof \<or> i = ProtoFailure"

definition link_at :: "reader list \<Rightarrow> reader \<Rightarrow> link \<Rightarrow> bool" where
  "link_at dead r s \<longleftrightarrow> lk_readers s = dead @ [r] \<and> (\<forall>d \<in> set dead. rd_phase d = Finished)"

definition fits :: "nat \<Rightarrow> nat \<Rightarrow> nat \<Rightarrow> message \<Rightarrow> bool" where
  "fits leak W F m \<longleftrightarrow> msg_cost m \<le> F \<and> (leak = 0 \<or> leak + msg_cost m \<le> W)"

definition flow_inv :: "nat \<Rightarrow> nat \<Rightarrow> nat \<Rightarrow> message list \<Rightarrow> reader \<Rightarrow> link \<Rightarrow> bool" where
  "flow_inv leak W F seq r s \<longleftrightarrow>
     unat (fl_window (lk_flight s)) = W \<and> unat (outstanding (lk_flight s)) = leak + unapplied_bytes s \<and> leak + unapplied_bytes s \<le> max W F \<and>
     rd_alive r \<and> stream_end (rd_end r) \<and> (rd_phase r = Finished \<longrightarrow> rd_frames r = []) \<and>
     lk_applied s @ chan_msgs (lk_chan s) @ phase_msgs r @ rd_frames r = seq \<and> (\<forall>m \<in> set (phase_msgs r @ rd_frames r). fits leak W F m)"

lemma dead_costs: "\<forall>d \<in> set dead. rd_phase d = Finished \<Longrightarrow> sum_list (map phase_cost dead) = 0"
  by (induction dead) (auto simp: phase_cost_def)

lemma unapplied_at: "link_at dead r s \<Longrightarrow>
    unapplied_bytes s = unat (lk_pending s) + sum_list (map msg_cost (chan_msgs (lk_chan s))) + phase_cost r"
  using dead_costs [of dead] by (simp add: link_at_def unapplied_bytes_def)

lemma link_at_set [simp]: "link_at dead r s \<Longrightarrow> lk_readers (set_reader (length dead) r' s) = dead @ [r']"
  by (simp add: link_at_def set_reader_def)

lemma set_reader_sel [simp]: "lk_flight (set_reader i r s) = lk_flight s" "lk_chan (set_reader i r s) = lk_chan s"
  "lk_pending (set_reader i r s) = lk_pending s" "lk_applied (set_reader i r s) = lk_applied s"
  by (simp_all add: set_reader_def)

text \<open>Only the last reader acts.\<close>

lemma link_at_nth: "link_at dead r s \<Longrightarrow> i < length (lk_readers s) \<Longrightarrow> i \<noteq> length dead \<Longrightarrow> rd_phase (lk_readers s ! i) = Finished"
  by (auto simp: link_at_def nth_append less_Suc_eq)

lemma link_at_last: "link_at dead r s \<Longrightarrow> length dead < length (lk_readers s) \<and> lk_readers s ! length dead = r"
  by (simp add: link_at_def)

lemma finished_stuck: "rd_phase r = Finished \<Longrightarrow> reader_decode r = None" "rd_phase r = Finished \<Longrightarrow> reader_acquire r fl = None"
  "rd_phase r = Finished \<Longrightarrow> reader_forward r = None" "rd_phase r = Finished \<Longrightarrow> reader_end r = None"
  by (simp_all add: reader_decode_def reader_acquire_def reader_forward_def reader_end_def split: list.splits)

text \<open>A step of the flow, seen from the last reader.\<close>

inductive flow_step :: "reader \<Rightarrow> link \<Rightarrow> reader \<Rightarrow> link \<Rightarrow> bool" where
  decode: "rd_phase r = Reading \<Longrightarrow> rd_frames r = m # ms \<Longrightarrow> flow_step r s (r\<lparr>rd_phase := Acquiring m, rd_frames := ms\<rparr>) s"
| acquire: "rd_phase r = Acquiring m \<Longrightarrow> acquire (inflight_cost m) (lk_flight s) = Some fl \<Longrightarrow>
    flow_step r s (r\<lparr>rd_phase := Holding m\<rparr>) (s\<lparr>lk_flight := fl\<rparr>)"
| forward: "rd_phase r = Holding m \<Longrightarrow> rd_alive r \<Longrightarrow> flow_step r s (r\<lparr>rd_phase := Reading\<rparr>) (s\<lparr>lk_chan := lk_chan s @ [InMessage m]\<rparr>)"
| drop: "rd_phase r = Holding m \<Longrightarrow> \<not> rd_alive r \<Longrightarrow> flow_step r s (r\<lparr>rd_phase := Finished\<rparr>) s"
| finish: "rd_phase r = Reading \<Longrightarrow> rd_frames r = [] \<Longrightarrow>
    flow_step r s (r\<lparr>rd_phase := Finished\<rparr>) (s\<lparr>lk_chan := lk_chan s @ (if rd_alive r then [rd_end r] else [])\<rparr>)"
| take: "lk_chan s = InMessage m # rest \<Longrightarrow>
    flow_step r s r (s\<lparr>lk_chan := rest, lk_pending := lk_pending s + inflight_cost m, lk_applied := lk_applied s @ [m]\<rparr>)"
| take_end: "lk_chan s = i # rest \<Longrightarrow> (\<And>m. i \<noteq> InMessage m) \<Longrightarrow> flow_step r s r (s\<lparr>lk_chan := rest\<rparr>)"
| flush: "lk_pending s \<noteq> 0 \<Longrightarrow> flow_step r s r (s\<lparr>lk_flight := release (lk_pending s) (lk_flight s), lk_pending := 0\<rparr>)"

definition with_last :: "reader list \<Rightarrow> reader \<Rightarrow> link \<Rightarrow> link" where
  "with_last dead r s = s\<lparr>lk_readers := dead @ [r]\<rparr>"

lemma with_last_sel [simp]: "lk_flight (with_last d r s) = lk_flight s" "lk_chan (with_last d r s) = lk_chan s"
  "lk_pending (with_last d r s) = lk_pending s" "lk_applied (with_last d r s) = lk_applied s" "lk_readers (with_last d r s) = d @ [r]"
  by (simp_all add: with_last_def)

lemma set_reader_last: "link_at dead r s \<Longrightarrow> set_reader (length dead) r' s = with_last dead r' s"
  by (simp add: link_at_def set_reader_def with_last_def)

lemma step_flow:
  assumes "link_at dead r s" "flow_event e" "link_step s e = Some s'"
  shows "\<exists>r' t. flow_step r s r' t \<and> s' = with_last dead r' t"
proof -
  note last = link_at_last [OF assms(1)] and upd = set_reader_last [OF assms(1)]
  have same: "with_last dead r (s\<lparr>lk_chan := c, lk_pending := p, lk_applied := a\<rparr>) = s\<lparr>lk_chan := c, lk_pending := p, lk_applied := a\<rparr>"
    "with_last dead r (s\<lparr>lk_chan := c\<rparr>) = s\<lparr>lk_chan := c\<rparr>" "with_last dead r (s\<lparr>lk_flight := f, lk_pending := p\<rparr>) = s\<lparr>lk_flight := f, lk_pending := p\<rparr>"
    for c p a f using assms(1) by (simp_all add: with_last_def link_at_def)
  show ?thesis
  proof (cases e)
    case (DecodeBy i)
    then obtain r' where d: "i < length (lk_readers s)" "reader_decode (lk_readers s ! i) = Some r'" "s' = set_reader i r' s"
      using assms(3) by (auto split: if_splits)
    then have i: "i = length dead" using link_at_nth [OF assms(1)] finished_stuck(1) by fastforce
    then have "flow_step r s r' s" using d(2) last
      by (auto simp: reader_decode_def split: reader_phase.splits list.splits intro: flow_step.decode)
    then show ?thesis using d(3) upd unfolding i by blast
  next
    case (AcquireBy i)
    then obtain r' fl where d: "i < length (lk_readers s)" "reader_acquire (lk_readers s ! i) (lk_flight s) = Some (r', fl)"
        "s' = (set_reader i r' s)\<lparr>lk_flight := fl\<rparr>"
      using assms(3) by (auto split: if_splits)
    then have i: "i = length dead" using link_at_nth [OF assms(1)] finished_stuck(2) by fastforce
    then have "flow_step r s r' (s\<lparr>lk_flight := fl\<rparr>)" using d(2) last
      by (auto simp: reader_acquire_def split: reader_phase.splits intro: flow_step.acquire)
    moreover have "s' = with_last dead r' (s\<lparr>lk_flight := fl\<rparr>)" using d(3) unfolding i upd by (simp add: with_last_def)
    ultimately show ?thesis by blast
  next
    case (ForwardBy i)
    then obtain r' out where d: "i < length (lk_readers s)" "reader_forward (lk_readers s ! i) = Some (r', out)"
        "s' = (set_reader i r' s)\<lparr>lk_chan := lk_chan s @ out\<rparr>"
      using assms(3) by (auto split: if_splits)
    then have i: "i = length dead" using link_at_nth [OF assms(1)] finished_stuck(3) by fastforce
    have "s' = with_last dead r' (s\<lparr>lk_chan := lk_chan s @ out\<rparr>)" using d(3) unfolding i upd by (simp add: with_last_def)
    moreover have "flow_step r s r' (s\<lparr>lk_chan := lk_chan s @ out\<rparr>)"
    proof -
      obtain m where m: "rd_phase r = Holding m" using d(2) last i by (auto simp: reader_forward_def split: reader_phase.splits)
      show ?thesis
      proof (cases "rd_alive r")
        case True
        then show ?thesis using d(2) last i m flow_step.forward [OF m True] by (simp add: reader_forward_def)
      next
        case False
        have "s\<lparr>lk_chan := lk_chan s\<rparr> = s" by simp
        then show ?thesis using d(2) last i m False flow_step.drop [OF m False] by (simp add: reader_forward_def)
      qed
    qed
    ultimately show ?thesis by blast
  next
    case (EndOf i)
    then obtain r' out where d: "i < length (lk_readers s)" "reader_end (lk_readers s ! i) = Some (r', out)"
        "s' = (set_reader i r' s)\<lparr>lk_chan := lk_chan s @ out\<rparr>"
      using assms(3) by (auto split: if_splits)
    then have i: "i = length dead" using link_at_nth [OF assms(1)] finished_stuck(4) by fastforce
    have "s' = with_last dead r' (s\<lparr>lk_chan := lk_chan s @ out\<rparr>)" using d(3) unfolding i upd by (simp add: with_last_def)
    moreover have "flow_step r s r' (s\<lparr>lk_chan := lk_chan s @ out\<rparr>)"
      using d(2) last i flow_step.finish [of r s] unfolding reader_end_def by (auto split: if_splits)
    ultimately show ?thesis by blast
  next
    case TakeItem
    then obtain item rest where c: "lk_chan s = item # rest" using assms(3) by (cases "lk_chan s") auto
    show ?thesis
    proof (cases "\<exists>m. item = InMessage m")
      case True
      then obtain m where m: "item = InMessage m" by blast
      then have "s' = s\<lparr>lk_chan := rest, lk_pending := lk_pending s + inflight_cost m, lk_applied := lk_applied s @ [m]\<rparr>"
        using assms(3) c TakeItem by simp
      then show ?thesis using flow_step.take [of s m rest r] c m same(1) by metis
    next
      case False
      then have "s' = s\<lparr>lk_chan := rest\<rparr>" using assms(3) c TakeItem by (cases item) auto
      then show ?thesis using flow_step.take_end [of s item rest r] c False same(2) by metis
    qed
  next
    case FlushBatch
    then have "lk_pending s \<noteq> 0" "s' = s\<lparr>lk_flight := release (lk_pending s) (lk_flight s), lk_pending := 0\<rparr>"
      using assms(3) by (auto split: if_splits)
    then show ?thesis using flow_step.flush [of s r] same(3) by metis
  qed (use assms(2) in \<open>simp_all add: flow_event_def\<close>)
qed

lemma link_at_with_last [simp]: "link_at dead r s \<Longrightarrow> link_at dead r' (with_last dead r' t)"
  by (simp add: link_at_def)

lemma unapplied_with_last: "link_at dead r s \<Longrightarrow> unapplied_bytes (with_last dead r' t) =
    unat (lk_pending t) + sum_list (map msg_cost (chan_msgs (lk_chan t))) + phase_cost r'"
  using unapplied_at [of dead r' "with_last dead r' t"] by simp

lemma stream_end_msgs [simp]: "stream_end i \<Longrightarrow> chan_msgs [i] = []"
  by (auto simp: stream_end_def)

lemma release_nat: "c \<noteq> 0 \<Longrightarrow> unat (outstanding (release c fl)) = unat (outstanding fl) - unat c"
  by (simp add: release_def unat_sat_sub)

lemma release_window [simp]: "fl_window (release c fl) = fl_window fl"
  by (simp add: release_def)

lemma flow_inv_step:
  assumes "flow_step r s r' t" "link_at dead r s" "flow_inv leak W F seq r s" "max W F + F < 2 ^ 64"
  shows "flow_inv leak W F seq r' (with_last dead r' t)"
proof -
  note un = unapplied_at [OF assms(2)] and un' = unapplied_with_last [OF assms(2), of r' t]
  have inv: "unat (fl_window (lk_flight s)) = W" "unat (outstanding (lk_flight s)) = leak + unapplied_bytes s" "leak + unapplied_bytes s \<le> max W F"
      "rd_alive r" "stream_end (rd_end r)" "rd_phase r = Finished \<longrightarrow> rd_frames r = []"
      "lk_applied s @ chan_msgs (lk_chan s) @ phase_msgs r @ rd_frames r = seq" "\<forall>m \<in> set (phase_msgs r @ rd_frames r). fits leak W F m"
    using assms(3) by (auto simp: flow_inv_def)
  from assms(1) show ?thesis
  proof cases
    case (decode m ms)
    then have "unapplied_bytes (with_last dead r' t) = unapplied_bytes s" unfolding un un' by (simp add: phase_cost_def)
    then show ?thesis using inv decode by (simp add: flow_inv_def phase_msgs_def)
  next
    case (acquire m fl)
    have fit: "msg_cost m \<le> F" using inv(8) acquire by (simp add: phase_msgs_def fits_def)
    then have "unat (outstanding (lk_flight s)) + unat (inflight_cost m) < 2 ^ 64" using inv(2,3) assms(4) by (simp add: msg_cost_def)
    from acquire(4) [unfolded acquire_nat [OF this]]
    have fl: "msg_cost m = 0 \<or> unat (outstanding (lk_flight s)) = 0 \<or> unat (outstanding (lk_flight s)) + msg_cost m \<le> W"
        "fl_window fl = fl_window (lk_flight s)" "unat (outstanding fl) = unat (outstanding (lk_flight s)) + msg_cost m"
      using inv(1) by (simp_all add: msg_cost_def)
    have "unapplied_bytes (with_last dead r' t) = unapplied_bytes s + msg_cost m"
      unfolding un un' using acquire by (simp add: phase_cost_def)
    moreover have "leak + unapplied_bytes s + msg_cost m \<le> max W F" using fl(1) inv(2,3) fit by auto
    ultimately show ?thesis using inv acquire fl(2,3) by (simp add: flow_inv_def phase_msgs_def)
  next
    case (forward m)
    then have "unapplied_bytes (with_last dead r' t) = unapplied_bytes s" unfolding un un' by (simp add: phase_cost_def)
    then show ?thesis using inv forward by (simp add: flow_inv_def phase_msgs_def)
  next
    case (drop m)
    then show ?thesis using inv(4) by simp
  next
    case finish
    then have "unapplied_bytes (with_last dead r' t) = unapplied_bytes s" unfolding un un' using inv(5) by (auto simp: phase_cost_def stream_end_def)
    then show ?thesis using inv finish by (auto simp: flow_inv_def phase_msgs_def stream_end_def)
  next
    case (take m rest)
    have "unat (lk_pending s) + msg_cost m < 2 ^ 64"
      using inv(3) assms(4) take unfolding un by simp
    then have p: "unat (lk_pending s + inflight_cost m) = unat (lk_pending s) + msg_cost m"
      by (simp add: unat_word_ariths msg_cost_def)
    then have "unapplied_bytes (with_last dead r' t) = unapplied_bytes s" unfolding un un' using take by simp
    then show ?thesis using inv take by (simp add: flow_inv_def)
  next
    case (take_end i rest)
    then have c: "chan_msgs (lk_chan s) = chan_msgs rest" by (cases i) auto
    then have "unapplied_bytes (with_last dead r' t) = unapplied_bytes s" unfolding un un' using take_end by simp
    then show ?thesis using inv take_end c by (simp add: flow_inv_def)
  next
    case flush
    then have "unapplied_bytes s = unapplied_bytes (with_last dead r' t) + unat (lk_pending s)" unfolding un un' by simp
    then show ?thesis using inv flush release_nat [OF flush(3), of "lk_flight s"] by (simp add: flow_inv_def)
  qed
qed

section \<open>Every step is progress\<close>

definition link_work :: "reader \<Rightarrow> link \<Rightarrow> nat" where
  "link_work r s = 5 * length (rd_frames r) + (case rd_phase r of Acquiring _ \<Rightarrow> 6 | Holding _ \<Rightarrow> 5 | Reading \<Rightarrow> 2 | Finished \<Rightarrow> 0) +
     sum_list (map (\<lambda>i. case i of InMessage _ \<Rightarrow> 2 | _ \<Rightarrow> 1) (lk_chan s)) + (if lk_pending s = 0 then 0 else 1)"

lemma link_work_with_last [simp]: "link_work r (with_last d r' t) = link_work r t"
  by (simp add: link_work_def)

lemma flow_step_work: "flow_step r s r' t \<Longrightarrow> stream_end (rd_end r) \<Longrightarrow> link_work r' t < link_work r s"
proof (induction rule: flow_step.induct)
  case (take_end s i rest r)
  then show ?case by (cases i) (simp_all add: link_work_def)
next
  case (finish r s)
  then show ?case by (auto simp: link_work_def stream_end_def)
qed (auto simp: link_work_def)

lemma flow_run:
  assumes "link_run s es = Some s'" "\<forall>e \<in> set es. flow_event e" "link_at dead r s" "flow_inv leak W F seq r s" "max W F + F < 2 ^ 64"
  shows "\<exists>r'. link_at dead r' s' \<and> flow_inv leak W F seq r' s' \<and> length es + link_work r' s' \<le> link_work r s"
  using assms
proof (induction es arbitrary: s r)
  case (Cons e es)
  then obtain s1 where s1: "link_step s e = Some s1" "link_run s1 es = Some s'" by (auto split: option.splits)
  obtain r1 t where t: "flow_step r s r1 t" "s1 = with_last dead r1 t"
    using step_flow [OF Cons.prems(3) _ s1(1)] Cons.prems(2) by auto
  have w: "link_work r1 s1 < link_work r s" using flow_step_work [OF t(1)] Cons.prems(4) t(2)
    by (simp add: flow_inv_def)
  obtain r' where "link_at dead r' s'" "flow_inv leak W F seq r' s'" "length es + link_work r' s' \<le> link_work r1 s1"
    using Cons.IH [OF s1(2) _ _ _ Cons.prems(5), of r1] Cons.prems(2) link_at_with_last [OF Cons.prems(3)]
      flow_inv_step [OF t(1) Cons.prems(3-5)] unfolding t(2) by auto
  then show ?case using w by (intro exI [of _ r']) simp
qed auto

lemma flow_stuck:
  assumes "link_at dead r s" "flow_inv leak W F seq r s" "max W F + F < 2 ^ 64"
    and stuck: "\<And>e. flow_event e \<Longrightarrow> link_step s e = None"
  shows "lk_applied s = seq \<and> lk_chan s = [] \<and> lk_pending s = 0 \<and> unat (outstanding (lk_flight s)) = leak"
proof -
  note last = link_at_last [OF assms(1)]
  have chan: "lk_chan s = []" using stuck [of TakeItem] by (simp add: flow_event_def split: list.splits)
  have pend: "lk_pending s = 0" using stuck [of FlushBatch] by (simp add: flow_event_def split: if_splits)
  have fin: "rd_phase r = Finished"
  proof (cases "rd_phase r")
    case Reading
    then show ?thesis using stuck [of "DecodeBy (length dead)"] stuck [of "EndOf (length dead)"] last
      by (cases "rd_frames r") (auto simp: flow_event_def reader_decode_def reader_end_def)
  next
    case (Acquiring m)
    have out: "unat (outstanding (lk_flight s)) = leak"
      using assms(2) chan pend Acquiring unfolding flow_inv_def unapplied_at [OF assms(1)] by (simp add: phase_cost_def)
    have fit: "fits leak W F m" "unat (fl_window (lk_flight s)) = W" "leak \<le> max W F"
      using assms(2) Acquiring by (auto simp: flow_inv_def phase_msgs_def)
    let ?fl = "(lk_flight s)\<lparr>outstanding := outstanding (lk_flight s) + inflight_cost m\<rparr>"
    have small: "unat (outstanding (lk_flight s)) + unat (inflight_cost m) < 2 ^ 64"
      using fit assms(3) out by (auto simp: fits_def msg_cost_def)
    then have "acquire (inflight_cost m) (lk_flight s) = Some ?fl"
      unfolding acquire_nat [OF small] using fit out by (auto simp: fits_def msg_cost_def unat_word_ariths)
    then have "link_step s (AcquireBy (length dead)) \<noteq> None" using last Acquiring by (simp add: reader_acquire_def)
    then show ?thesis using stuck [of "AcquireBy (length dead)"] by (simp add: flow_event_def)
  next
    case (Holding m)
    then show ?thesis using stuck [of "ForwardBy (length dead)"] last by (auto simp: flow_event_def reader_forward_def split: if_splits)
  qed simp
  then show ?thesis using assms(2) chan pend unfolding flow_inv_def unapplied_at [OF assms(1)]
    by (auto simp: phase_cost_def phase_msgs_def)
qed

section \<open>What a connection does\<close>

text \<open>Nothing of an earlier transport is on its way; \<open>leak\<close> is what stays reserved.\<close>

definition link_quiet :: "nat \<Rightarrow> link \<Rightarrow> bool" where
  "link_quiet leak s \<longleftrightarrow> unat (outstanding (lk_flight s)) = leak \<and> lk_chan s = [] \<and> lk_pending s = 0 \<and>
     list_all (\<lambda>d. \<not> rd_alive d \<and> rd_phase d = Finished) (lk_readers s)"

lemma quiet_connected:
  assumes "link_quiet leak s" "link_run s (ConnectTo frames fin # es) = Some t" "stream_end fin" "\<forall>m \<in> set frames. fits leak W F m"
    and "unat (fl_window (lk_flight s)) = W" "leak \<le> max W F" "max W F + F < 2 ^ 64" "\<forall>e \<in> set es. flow_event e"
  shows "\<exists>dead r. link_at dead r t \<and> flow_inv leak W F (lk_applied s @ frames) r t \<and> length es \<le> 5 * length frames + 2"
proof -
  let ?r = "\<lparr>rd_alive = True, rd_phase = Reading, rd_frames = frames, rd_end = fin\<rparr>"
  let ?s = "s\<lparr>lk_readers := lk_readers s @ [?r]\<rparr>"
  have q: "unat (outstanding (lk_flight s)) = leak" "lk_chan s = []" "lk_pending s = 0" "\<forall>d \<in> set (lk_readers s). \<not> rd_alive d \<and> rd_phase d = Finished"
    using assms(1) by (auto simp: link_quiet_def list_all_iff)
  then have run: "link_run ?s es = Some t" using assms(2) by (auto simp: list_ex_iff)
  have at: "link_at (lk_readers s) ?r ?s" using q(4) by (simp add: link_at_def)
  have "flow_inv leak W F (lk_applied s @ frames) ?r ?s"
    using assms(3-6) q unfolding flow_inv_def unapplied_at [OF at] by (simp add: phase_cost_def phase_msgs_def)
  from flow_run [OF run assms(8) at this assms(7)] obtain r
    where r: "link_at (lk_readers s) r t" "flow_inv leak W F (lk_applied s @ frames) r t" "length es + link_work r t \<le> link_work ?r ?s"
    by blast
  have "link_work ?r ?s = 5 * length frames + 2" using q(2,3) by (simp add: link_work_def)
  then show ?thesis using r by (intro exI conjI) auto
qed

text \<open>C20: The window never blocks a connection for good. If nothing stays reserved from before, or
  every frame fits beside it, then every run of reader and loop ends after finitely many steps,
  and one that cannot go on has applied every frame, in order, frames larger than the window
  included, and returned every reservation.\<close>

theorem window_never_deadlocks:
  assumes "link_quiet leak s" "link_run s (ConnectTo frames fin # es) = Some t" "stream_end fin" "\<forall>e \<in> set es. flow_event e"
    and "\<forall>m \<in> set frames. msg_cost m \<le> F" "leak \<le> F" "unat (fl_window (lk_flight s)) + 2 * F < 2 ^ 64"
    and "leak = 0 \<or> (\<forall>m \<in> set frames. leak + msg_cost m \<le> unat (fl_window (lk_flight s)))"
  shows "length es \<le> 5 * length frames + 2 \<and>
    ((\<forall>e. flow_event e \<longrightarrow> link_step t e = None) \<longrightarrow>
       lk_applied t = lk_applied s @ frames \<and> lk_chan t = [] \<and> lk_pending t = 0 \<and> unat (outstanding (lk_flight t)) = leak)"
proof -
  let ?W = "unat (fl_window (lk_flight s))"
  have "\<forall>m \<in> set frames. fits leak ?W F m" using assms(5,8) by (auto simp: fits_def)
  moreover have "leak \<le> max ?W F" "max ?W F + F < 2 ^ 64" using assms(6,7) by linarith+
  ultimately obtain dead r
    where r: "link_at dead r t" "flow_inv leak ?W F (lk_applied s @ frames) r t" "length es \<le> 5 * length frames + 2"
    using quiet_connected [OF assms(1-3) _ refl _ _ assms(4)] by blast
  then show ?thesis using flow_stuck [OF r(1,2) \<open>max ?W F + F < 2 ^ 64\<close>] by blast
qed

lemma two_cases: "(i = 0 \<Longrightarrow> P) \<Longrightarrow> (i = Suc 0 \<Longrightarrow> P) \<Longrightarrow> (\<And>k. i = Suc (Suc k) \<Longrightarrow> P) \<Longrightarrow> P"
  by (metis nat.exhaust)

text \<open>A reader that is retired while it waits leaks its frame. The reset that retires it also
  wakes it, it reserves its frame and ends without forwarding it, and no one returns the
  reservation: the next transport starts from a smaller window. If its first frame does not fit
  beside the leak, its reader waits for good although nothing is in flight.\<close>

theorem retired_reader_leaks:
  assumes "inflight_cost m0 > 0" "inflight_cost m1 > 0" "inflight_cost m2 > 0" "w > 0"
    and "inflight_cost m0 + inflight_cost m1 > w" "inflight_cost m1 + inflight_cost m2 > w"
  shows "\<exists>s. link_run (link_new w)
      [ConnectTo [m0, m1] PeerEof, DecodeBy 0, AcquireBy 0, ForwardBy 0, TakeItem, DecodeBy 0, RetireLink, AcquireBy 0, ForwardBy 0,
       ConnectTo [m2] PeerEof, DecodeBy 1] = Some s \<and>
    unapplied_bytes s = 0 \<and> outstanding (lk_flight s) = inflight_cost m1 \<and> lk_applied s = [m0] \<and>
    (\<forall>e. link_step s e \<noteq> None \<longrightarrow> e = SuspendLink \<or> e = RetireLink)"
proof -
  have "1 \<le> w" using assms(4) by (simp add: word_le_nat_alt word_less_nat_alt)
  then have mx: "max w 1 = w" by (auto simp: max_def)
  have nz: "inflight_cost m0 \<noteq> 0" "inflight_cost m1 \<noteq> 0" "inflight_cost m2 \<noteq> 0" using assms(1-3) by auto
  let ?dead = "\<lparr>rd_alive = False, rd_phase = Finished, rd_frames = [], rd_end = PeerEof\<rparr>"
  let ?wait = "\<lparr>rd_alive = True, rd_phase = Acquiring m2, rd_frames = [], rd_end = PeerEof\<rparr>"
  let ?s = "\<lparr>lk_flight = \<lparr>outstanding = inflight_cost m1, fl_window = w\<rparr>, lk_readers = [?dead, ?wait], lk_chan = [], lk_pending = 0, lk_applied = [m0]\<rparr>"
  have run: "link_run (link_new w)
      [ConnectTo [m0, m1] PeerEof, DecodeBy 0, AcquireBy 0, ForwardBy 0, TakeItem, DecodeBy 0, RetireLink, AcquireBy 0, ForwardBy 0,
       ConnectTo [m2] PeerEof, DecodeBy 1] = Some ?s"
    using nz mx by (simp add: link_new_def inflight_new_def reader_decode_def reader_acquire_def reader_forward_def acquire_def
      set_reader_def suspend_link_def inflight_reset_def)
  have no: "acquire (inflight_cost m2) \<lparr>outstanding = inflight_cost m1, fl_window = w\<rparr> = None"
    using nz(3) assms(2,6) unfolding acquire_def by (simp only: if_False in_flight.simps conj_ac simp_thms if_True)
  have stuck: "link_step ?s e = None" if "e \<noteq> SuspendLink" "e \<noteq> RetireLink" for e
  proof (cases e)
    case (AcquireBy i)
    then show ?thesis by (cases i rule: two_cases) (simp_all add: reader_acquire_def no del: One_nat_def)
  next
    case (DecodeBy i)
    then show ?thesis by (cases i rule: two_cases) (simp_all add: reader_decode_def del: One_nat_def)
  next
    case (ForwardBy i)
    then show ?thesis by (cases i rule: two_cases) (simp_all add: reader_forward_def del: One_nat_def)
  next
    case (EndOf i)
    then show ?thesis by (cases i rule: two_cases) (simp_all add: reader_end_def del: One_nat_def)
  qed (use that in simp_all)
  have st: "\<forall>e. link_step ?s e \<noteq> None \<longrightarrow> e = SuspendLink \<or> e = RetireLink"
  proof (intro allI impI, rule ccontr)
    fix e
    assume some: "link_step ?s e \<noteq> None" and "\<not> (e = SuspendLink \<or> e = RetireLink)"
    then have "e \<noteq> SuspendLink" "e \<noteq> RetireLink" by simp_all
    from some stuck [OF this] show False by (rule notE)
  qed
  have u: "unapplied_bytes ?s = 0" by (simp add: unapplied_bytes_def phase_cost_def)
  have o: "outstanding (lk_flight ?s) = inflight_cost m1" and a: "lk_applied ?s = [m0]" by simp_all
  show ?thesis by (rule exI, rule conjI [OF run], rule conjI [OF u], rule conjI [OF o], rule conjI [OF a st])
qed

section \<open>Whatever happens on the link\<close>

text \<open>A pause or a lost transport sets the counter to zero, although content is still on its way.\<close>

definition resets :: "link_event list \<Rightarrow> nat" where
  "resets es = length (filter (\<lambda>e. e = SuspendLink \<or> e = RetireLink) es)"

definition frames_below :: "nat \<Rightarrow> link_event \<Rightarrow> bool" where
  "frames_below F e \<longleftrightarrow> (case e of ConnectTo frames fin \<Rightarrow> stream_end fin \<and> (\<forall>m \<in> set frames. msg_cost m \<le> F) | _ \<Rightarrow> True)"

definition reader_below :: "nat \<Rightarrow> reader \<Rightarrow> bool" where
  "reader_below F r \<longleftrightarrow> stream_end (rd_end r) \<and> (\<forall>m \<in> set (phase_msgs r @ rd_frames r). msg_cost m \<le> F)"

text \<open>The counter never exceeds the larger of window and frame; what is on its way exceeds the
  counter by at most that much per reset; while no transport is retired, it is not below it.\<close>

definition window_inv :: "nat \<Rightarrow> nat \<Rightarrow> nat \<Rightarrow> bool \<Rightarrow> link \<Rightarrow> bool" where
  "window_inv W F k retired s \<longleftrightarrow> unat (fl_window (lk_flight s)) = W \<and> unat (outstanding (lk_flight s)) \<le> max W F \<and>
     unapplied_bytes s \<le> unat (outstanding (lk_flight s)) + k * max W F \<and>
     (\<not> retired \<longrightarrow> unat (outstanding (lk_flight s)) \<le> unapplied_bytes s \<and> (\<forall>r \<in> set (lk_readers s). rd_alive r)) \<and>
     (\<forall>r \<in> set (lk_readers s). reader_below F r)"

lemma phase_sum:
  "i < length rs \<Longrightarrow> sum_list (map phase_cost (rs[i := r])) + phase_cost (rs ! i) = sum_list (map phase_cost rs) + phase_cost r"
proof (induction rs arbitrary: i)
  case (Cons a rs)
  then show ?case by (cases i) auto
qed simp

text \<open>A step of the reader \<open>i\<close>, with what it puts into the channel.\<close>

lemma unapplied_reader:
  assumes "i < length (lk_readers s)" "phase_cost r + sum_list (map msg_cost (chan_msgs out)) + a = phase_cost (lk_readers s ! i) + b"
  shows "unapplied_bytes ((set_reader i r s)\<lparr>lk_chan := lk_chan s @ out\<rparr>) + a = unapplied_bytes s + b"
  using phase_sum [OF assms(1), of r] assms(2) by (simp add: unapplied_bytes_def set_reader_def)

lemma window_inv_reader:
  assumes "window_inv W F k q s" "i < length (lk_readers s)" "reader_below F r" "rd_alive r = rd_alive (lk_readers s ! i)"
    and "phase_cost r + sum_list (map msg_cost (chan_msgs out)) \<le> phase_cost (lk_readers s ! i)"
    and "rd_alive r \<longrightarrow> phase_cost r + sum_list (map msg_cost (chan_msgs out)) = phase_cost (lk_readers s ! i)"
  shows "window_inv W F k q ((set_reader i r s)\<lparr>lk_chan := lk_chan s @ out\<rparr>)"
proof -
  let ?t = "(set_reader i r s)\<lparr>lk_chan := lk_chan s @ out\<rparr>" and ?c = "phase_cost r + sum_list (map msg_cost (chan_msgs out))"
  have u: "unapplied_bytes ?t + (phase_cost (lk_readers s ! i) - ?c) = unapplied_bytes s"
    using unapplied_reader [OF assms(2), of r out "phase_cost (lk_readers s ! i) - ?c" 0] assms(5) by simp
  have rs: "set (lk_readers ?t) \<subseteq> insert r (set (lk_readers s))" by (simp add: set_reader_def set_update_subset_insert)
  have at: "lk_readers s ! i \<in> set (lk_readers s)" using assms(2) by simp
  have "(\<forall>x \<in> set (lk_readers s). rd_alive x) \<longrightarrow> unapplied_bytes ?t = unapplied_bytes s \<and> (\<forall>x \<in> set (lk_readers ?t). rd_alive x)"
    using u assms(4,6) at rs by auto
  then show ?thesis using assms(1,3) u rs unfolding window_inv_def by auto
qed

lemma window_inv_acquire:
  assumes "window_inv W F k q s" "i < length (lk_readers s)" "rd_phase (lk_readers s ! i) = Acquiring m"
    and "acquire (inflight_cost m) (lk_flight s) = Some fl" "max W F + F < 2 ^ 64"
  shows "window_inv W F k q ((set_reader i ((lk_readers s ! i)\<lparr>rd_phase := Holding m\<rparr>) s)\<lparr>lk_flight := fl\<rparr>)"
proof -
  let ?r = "(lk_readers s ! i)\<lparr>rd_phase := Holding m\<rparr>"
  let ?t = "(set_reader i ?r s)\<lparr>lk_flight := fl\<rparr>"
  have at: "lk_readers s ! i \<in> set (lk_readers s)" using assms(2) by simp
  then have fit: "msg_cost m \<le> F" and below: "reader_below F ?r"
    using assms(1,3) by (auto simp: window_inv_def reader_below_def phase_msgs_def)
  have small: "unat (outstanding (lk_flight s)) + unat (inflight_cost m) < 2 ^ 64"
    using assms(1,5) fit by (simp add: window_inv_def msg_cost_def)
  note fl = assms(4) [unfolded acquire_nat [OF small], folded msg_cost_def]
  have "unapplied_bytes ?t = unapplied_bytes s + msg_cost m"
    using phase_sum [OF assms(2), of ?r] assms(3) by (simp add: unapplied_bytes_def set_reader_def phase_cost_def)
  moreover have "set (lk_readers ?t) \<subseteq> insert ?r (set (lk_readers s))" by (simp add: set_reader_def set_update_subset_insert)
  moreover have "unat (outstanding fl) \<le> max W F" using fl fit assms(1) by (auto simp: window_inv_def)
  ultimately show ?thesis using assms(1) fl below at unfolding window_inv_def by auto
qed

lemma window_inv_take:
  assumes "window_inv W F k q s" "lk_chan s = item # rest" "Suc k * max W F + F < 2 ^ 64" "link_step s TakeItem = Some t"
  shows "window_inv W F k q t"
proof -
  have "unapplied_bytes t = unapplied_bytes s \<and> lk_flight t = lk_flight s \<and> lk_readers t = lk_readers s"
  proof (cases "\<exists>m. item = InMessage m")
    case True
    then obtain m where m: "item = InMessage m" by blast
    then have "unat (lk_pending s) + msg_cost m < 2 ^ 64" using assms(1-3) by (simp add: window_inv_def unapplied_bytes_def)
    then have "unat (lk_pending s + inflight_cost m) = unat (lk_pending s) + msg_cost m" by (simp add: unat_word_ariths msg_cost_def)
    then show ?thesis using assms(2,4) m by (auto simp: unapplied_bytes_def)
  next
    case False
    then show ?thesis using assms(2,4) by (cases item) (auto simp: unapplied_bytes_def)
  qed
  then show ?thesis using assms(1) by (simp add: window_inv_def)
qed

lemma window_inv_suspend:
  assumes "window_inv W F k q s" "map phase_cost rs = map phase_cost (lk_readers s)" "\<forall>r \<in> set rs. reader_below F r"
    and "\<not> q' \<longrightarrow> \<not> q \<and> (\<forall>r \<in> set rs. rd_alive r)"
  shows "window_inv W F (Suc k) q' (suspend_link (s\<lparr>lk_readers := rs\<rparr>))"
proof -
  have "unapplied_bytes (suspend_link (s\<lparr>lk_readers := rs\<rparr>)) \<le> unapplied_bytes s"
    using assms(2) by (simp add: unapplied_bytes_def suspend_link_def)
  then show ?thesis using assms(1,3,4) by (simp add: window_inv_def suspend_link_def inflight_reset_def)
qed

lemma reader_below_alive [simp]: "reader_below F (rd_alive_update f r) = reader_below F r" "phase_cost (rd_alive_update f r) = phase_cost r"
  by (simp_all add: reader_below_def phase_msgs_def phase_cost_def)

lemma window_inv_step:
  assumes "window_inv W F k q s" "link_step s e = Some t" "frames_below F e" "Suc k * max W F + F < 2 ^ 64"
  shows "window_inv W F (k + resets [e]) (q \<or> e = RetireLink) t"
proof -
  have mF: "max W F + F < 2 ^ 64" using assms(4) by simp
  have at: "reader_below F (lk_readers s ! i)" if "i < length (lk_readers s)" for i using assms(1) that by (simp add: window_inv_def)
  have plain: "(set_reader i r s)\<lparr>lk_chan := lk_chan s @ []\<rparr> = set_reader i r s" for i r by (simp add: set_reader_def)
  show ?thesis
  proof (cases e)
    case (DecodeBy i)
    then obtain r where r: "i < length (lk_readers s)" "reader_decode (lk_readers s ! i) = Some r" "t = set_reader i r s"
      using assms(2) by (auto split: if_splits)
    then have "window_inv W F k q ((set_reader i r s)\<lparr>lk_chan := lk_chan s @ []\<rparr>)" using at [OF r(1)]
      by (intro window_inv_reader [OF assms(1)])
        (auto simp: reader_decode_def reader_below_def phase_msgs_def phase_cost_def split: reader_phase.splits list.splits)
    then show ?thesis using r(3) DecodeBy unfolding plain by (simp add: resets_def)
  next
    case (AcquireBy i)
    then obtain m fl where "i < length (lk_readers s)" "rd_phase (lk_readers s ! i) = Acquiring m" "acquire (inflight_cost m) (lk_flight s) = Some fl"
        "t = (set_reader i ((lk_readers s ! i)\<lparr>rd_phase := Holding m\<rparr>) s)\<lparr>lk_flight := fl\<rparr>"
      using assms(2) by (auto simp: reader_acquire_def split: if_splits reader_phase.splits)
    then show ?thesis using window_inv_acquire [OF assms(1) _ _ _ mF, of i m fl] AcquireBy by (simp add: resets_def)
  next
    case (ForwardBy i)
    then obtain r out where r: "i < length (lk_readers s)" "reader_forward (lk_readers s ! i) = Some (r, out)"
        "t = (set_reader i r s)\<lparr>lk_chan := lk_chan s @ out\<rparr>"
      using assms(2) by (auto split: if_splits)
    then have "window_inv W F k q ((set_reader i r s)\<lparr>lk_chan := lk_chan s @ out\<rparr>)" using at [OF r(1)]
      by (intro window_inv_reader [OF assms(1)])
        (auto simp: reader_forward_def reader_below_def phase_msgs_def phase_cost_def split: reader_phase.splits if_splits)
    then show ?thesis using r(3) ForwardBy by (simp add: resets_def)
  next
    case (EndOf i)
    then obtain r out where r: "i < length (lk_readers s)" "reader_end (lk_readers s ! i) = Some (r, out)"
        "t = (set_reader i r s)\<lparr>lk_chan := lk_chan s @ out\<rparr>"
      using assms(2) by (auto split: if_splits)
    then have "window_inv W F k q ((set_reader i r s)\<lparr>lk_chan := lk_chan s @ out\<rparr>)" using at [OF r(1)]
      by (intro window_inv_reader [OF assms(1)])
        (auto simp: reader_end_def reader_below_def phase_msgs_def phase_cost_def stream_end_def split: if_splits)
    then show ?thesis using r(3) EndOf by (simp add: resets_def)
  next
    case TakeItem
    then obtain item rest where "lk_chan s = item # rest" using assms(2) by (cases "lk_chan s") auto
    from window_inv_take [OF assms(1) this assms(4)] show ?thesis using assms(2) TakeItem by (simp add: resets_def)
  next
    case FlushBatch
    then have p: "lk_pending s \<noteq> 0" "t = s\<lparr>lk_flight := release (lk_pending s) (lk_flight s), lk_pending := 0\<rparr>"
      using assms(2) by (auto split: if_splits)
    have "unapplied_bytes s = unapplied_bytes t + unat (lk_pending s)" unfolding p(2) by (simp add: unapplied_bytes_def)
    then show ?thesis using assms(1) FlushBatch release_nat [OF p(1), of "lk_flight s"] p(2) by (auto simp: window_inv_def resets_def)
  next
    case SuspendLink
    have "window_inv W F (Suc k) q (suspend_link (s\<lparr>lk_readers := lk_readers s\<rparr>))"
      by (rule window_inv_suspend [OF assms(1) refl]) (use assms(1) in \<open>auto simp: window_inv_def\<close>)
    then show ?thesis using assms(2) SuspendLink by (simp add: resets_def)
  next
    case RetireLink
    then have "t = suspend_link (s\<lparr>lk_readers := map (rd_alive_update (\<lambda>_. False)) (lk_readers s)\<rparr>)" using assms(2) by (simp split: if_splits)
    moreover have "window_inv W F (Suc k) True (suspend_link (s\<lparr>lk_readers := map (rd_alive_update (\<lambda>_. False)) (lk_readers s)\<rparr>))"
      by (rule window_inv_suspend [OF assms(1)]) (use assms(1) in \<open>simp_all add: comp_def window_inv_def\<close>)
    ultimately show ?thesis using RetireLink by (simp add: resets_def)
  next
    case (ConnectTo frames fin)
    then have "t = s\<lparr>lk_readers := lk_readers s @ [\<lparr>rd_alive = True, rd_phase = Reading, rd_frames = frames, rd_end = fin\<rparr>]\<rparr>"
      using assms(2) by (simp split: if_splits)
    then show ?thesis using assms(1,3) ConnectTo
      by (simp add: window_inv_def resets_def unapplied_bytes_def phase_cost_def reader_below_def frames_below_def phase_msgs_def)
  qed
qed

lemma window_inv_run:
  assumes "link_run s es = Some t" "window_inv W F k q s" "\<forall>e \<in> set es. frames_below F e" "Suc (k + resets es) * max W F + F < 2 ^ 64"
  shows "window_inv W F (k + resets es) (q \<or> RetireLink \<in> set es) t"
  using assms
proof (induction es arbitrary: s k q)
  case (Cons e es)
  obtain s1 where s1: "link_step s e = Some s1" "link_run s1 es = Some t" using Cons.prems(1) by (auto split: option.splits)
  have sum: "resets (e # es) = resets [e] + resets es" by (simp add: resets_def)
  have "Suc k * max W F \<le> Suc (k + resets (e # es)) * max W F" by (intro mult_right_mono) simp_all
  then have "Suc k * max W F + F < 2 ^ 64" using Cons.prems(4) by linarith
  from window_inv_step [OF Cons.prems(2) s1(1) _ this]
  have one: "window_inv W F (k + resets [e]) (q \<or> e = RetireLink) s1" using Cons.prems(3) by simp
  have "Suc (k + resets [e] + resets es) * max W F + F < 2 ^ 64" using Cons.prems(4) unfolding sum by (simp only: add.assoc)
  from Cons.IH [OF s1(2) one _ this] Cons.prems(3)
  have "window_inv W F (k + resets [e] + resets es) ((q \<or> e = RetireLink) \<or> RetireLink \<in> set es) t" by simp
  moreover have "((q \<or> e = RetireLink) \<or> RetireLink \<in> set es) = (q \<or> RetireLink \<in> set (e # es))" by auto
  ultimately show ?case unfolding sum by (simp only: add.assoc)
qed (simp add: resets_def)

text \<open>C19: Back-pressure holds, whatever readers and loop do, in any interleaving, over any number of
  connections, with pauses and losses in their middle. The counter is never more than the
  window, or than one frame if a frame is larger. Until the first pause or loss it is exactly
  the content read but not yet applied and flushed; each pause or loss sets it to zero, so that
  the content may exceed it by one more such bound; it is never below the counter as long as
  no transport was retired (\<open>retired_reader_leaks\<close> shows why not after).\<close>

theorem window_bounds_content:
  assumes "link_run (link_new w) es = Some s" "\<forall>e \<in> set es. frames_below F e"
    and "Suc (resets es) * max (max 1 (unat w)) F + F < 2 ^ 64"
  shows "unat (outstanding (lk_flight s)) \<le> max (max 1 (unat w)) F \<and>
    unapplied_bytes s \<le> unat (outstanding (lk_flight s)) + resets es * max (max 1 (unat w)) F \<and>
    (RetireLink \<notin> set es \<longrightarrow> unat (outstanding (lk_flight s)) \<le> unapplied_bytes s) \<and>
    (resets es = 0 \<longrightarrow> unat (outstanding (lk_flight s)) = unapplied_bytes s)"
proof -
  have "window_inv (max 1 (unat w)) F 0 False (link_new w)"
    by (simp add: window_inv_def link_new_def inflight_new_def unapplied_bytes_def max_def word_le_nat_alt)
  from window_inv_run [OF assms(1) this assms(2)] assms(3)
  have inv: "window_inv (max 1 (unat w)) F (resets es) (RetireLink \<in> set es) s" by simp
  have "resets es = 0 \<longrightarrow> RetireLink \<notin> set es" by (auto simp: resets_def filter_empty_conv)
  then show ?thesis using inv by (auto simp: window_inv_def)
qed

text \<open>The condition variable of the window is notified by \<open>release\<close> and \<open>reset\<close> only. Nothing else
  makes room for a reader that waits, so with one reader waiting (as the code assumes) no wake-up
  is lost, and letting a waiting reader look at the counter at any time is the same.\<close>

lemma only_notifiers_free:
  assumes "link_step s e = Some t" "window_inv W F k q s" "unat c \<le> F" "max W F + 2 * F < 2 ^ 64"
    and "acquire c (lk_flight s) = None" "acquire c (lk_flight t) \<noteq> None"
  shows "e = FlushBatch \<and> lk_pending s \<noteq> 0 \<or> e = SuspendLink \<or> e = RetireLink"
proof (cases e)
  case (AcquireBy i)
  then obtain m fl where m: "i < length (lk_readers s)" "rd_phase (lk_readers s ! i) = Acquiring m"
      "acquire (inflight_cost m) (lk_flight s) = Some fl" "lk_flight t = fl"
    using assms(1) by (auto simp: reader_acquire_def split: if_splits reader_phase.splits)
  have "lk_readers s ! i \<in> set (lk_readers s)" using m(1) by simp
  then have fit: "msg_cost m \<le> F" using assms(2) m(2) by (auto simp: window_inv_def reader_below_def phase_msgs_def)
  have out: "unat (outstanding (lk_flight s)) \<le> max W F" using assms(2) by (simp add: window_inv_def)
  have small: "unat (outstanding (lk_flight s)) + unat (inflight_cost m) < 2 ^ 64" "unat (outstanding (lk_flight s)) + unat c < 2 ^ 64"
    using out fit assms(3,4) by (simp_all add: msg_cost_def)
  note fl = m(3) [unfolded acquire_nat [OF small(1)]]
  then have small': "unat (outstanding fl) + unat c < 2 ^ 64" using out fit assms(3,4) by (simp add: msg_cost_def)
  let ?add = "\<lambda>f. f\<lparr>outstanding := outstanding f + c\<rparr>"
  have "acquire c (lk_flight s) \<noteq> Some (?add (lk_flight s))" "acquire c fl = Some (?add fl)"
    using assms(5,6) m(4) by (simp_all add: acquire_def split: if_splits)
  then have False unfolding acquire_nat [OF small(2)] acquire_nat [OF small'] using fl small
    by (auto simp: unat_word_ariths)
  then show ?thesis ..
qed (use assms(1,5,6) in \<open>auto simp: set_reader_def split: if_splits list.splits session_item.splits\<close>)

section \<open>At work\<close>

definition demo_chunk :: "nat \<Rightarrow> message" where
  "demo_chunk n = ChunkData (ContentHash (replicate 32 0)) (replicate n 0)"

lemma demo_chunk_cost: "n < 100 \<Longrightarrow> msg_cost (demo_chunk n) = n" "inflight_cost (demo_chunk n) = word_of_nat n"
  by (simp_all add: msg_cost_def inflight_cost_def demo_chunk_def unat_of_nat)

definition demo_events :: "link_event list" where
  "demo_events = [DecodeBy 0, AcquireBy 0, ForwardBy 0, DecodeBy 0, TakeItem, FlushBatch, AcquireBy 0, ForwardBy 0, EndOf 0, TakeItem, TakeItem, FlushBatch]"

lemma demo_events_flow: "\<forall>e \<in> set demo_events. flow_event e"
  by (simp add: demo_events_def flow_event_def)

lemmas demo_run = link_new_def inflight_new_def demo_events_def reader_decode_def reader_acquire_def reader_forward_def reader_end_def
  acquire_def release_def sat_sub_def set_reader_def demo_chunk_cost

lemma demo_delivers: "\<exists>s. link_run (link_new 3) (ConnectTo [demo_chunk 5, demo_chunk 2] PeerEof # demo_events) = Some s"
  by (simp add: demo_run max_def)

text \<open>A pause after the first frame was read, and the second frame read in spite of it.\<close>

definition demo_paused_events :: "link_event list" where
  "demo_paused_events = [ConnectTo [demo_chunk 5, demo_chunk 2] PeerEof, DecodeBy 0, AcquireBy 0, ForwardBy 0, SuspendLink, DecodeBy 0, AcquireBy 0]"

theorem window_bounds_content_witness:
  "\<exists>s. link_run (link_new 3) demo_paused_events = Some s \<and> unat (outstanding (lk_flight s)) = 2 \<and> unapplied_bytes s = 7 \<and>
     unapplied_bytes s \<le> unat (outstanding (lk_flight s)) + resets demo_paused_events * max (max 1 (unat (3 :: u64))) 5"
proof -
  have run: "\<exists>s. link_run (link_new 3) demo_paused_events = Some s \<and> unat (outstanding (lk_flight s)) = 2 \<and> unapplied_bytes s = 7"
    by (simp add: demo_paused_events_def demo_run max_def suspend_link_def inflight_reset_def unapplied_bytes_def phase_cost_def)
  then obtain s where s: "link_run (link_new 3) demo_paused_events = Some s" "unat (outstanding (lk_flight s)) = 2" "unapplied_bytes s = 7"
    by blast
  have "\<forall>e \<in> set demo_paused_events. frames_below 5 e"
    by (simp add: demo_paused_events_def frames_below_def stream_end_def demo_chunk_cost)
  moreover have "Suc (resets demo_paused_events) * max (max 1 (unat (3 :: u64))) 5 + 5 < 2 ^ 64"
    by (simp add: demo_paused_events_def resets_def)
  ultimately have "unapplied_bytes s \<le> unat (outstanding (lk_flight s)) + resets demo_paused_events * max (max 1 (unat (3 :: u64))) 5"
    using window_bounds_content [OF s(1)] by blast
  then show ?thesis using s by blast
qed

theorem window_never_deadlocks_witness:
  "\<exists>t. link_run (link_new 3) (ConnectTo [demo_chunk 5, demo_chunk 2] PeerEof # demo_events) = Some t \<and> length demo_events \<le> 12"
proof -
  obtain s where s: "link_run (link_new 3) (ConnectTo [demo_chunk 5, demo_chunk 2] PeerEof # demo_events) = Some s"
    using demo_delivers by blast
  have q: "link_quiet 0 (link_new 3)" by (simp add: link_quiet_def link_new_def inflight_new_def)
  have "length demo_events \<le> 5 * length [demo_chunk 5, demo_chunk 2] + 2"
    by (rule conjunct1 [OF window_never_deadlocks [OF q s, of 5]])
      (simp_all add: stream_end_def demo_events_flow demo_chunk_cost link_new_def inflight_new_def max_def)
  then show ?thesis using s by (intro exI [of _ s]) simp
qed

theorem retired_reader_leaks_witness:
  "\<exists>s. link_run (link_new 3)
      [ConnectTo [demo_chunk 2, demo_chunk 2] PeerEof, DecodeBy 0, AcquireBy 0, ForwardBy 0, TakeItem, DecodeBy 0, RetireLink, AcquireBy 0, ForwardBy 0,
       ConnectTo [demo_chunk 2] PeerEof, DecodeBy 1] = Some s \<and> unapplied_bytes s = 0 \<and> outstanding (lk_flight s) = inflight_cost (demo_chunk 2)"
  using retired_reader_leaks [of "demo_chunk 2" "demo_chunk 2" "demo_chunk 2" 3] by (auto simp: demo_chunk_cost)

end
