(* ===== verification/Tomo_Tui.thy ===== *)
theory Tomo_Tui
  imports Tomo_Prelude "HOL-Library.Sublist"
begin

text \<open>
  The terminal interface, \<^verbatim>\<open>tomo/src/tui/state.rs\<close>: a model and one reducer for events of the
  control channel, keys, ticks and the outcomes of commands. Footer messages are a datatype, the
  text being a function of it; characters of a filter are those of \<^typ>\<open>string\<close>. Indices into
  lists are natural numbers; where the code goes through \<^verbatim>\<open>i32\<close> so does the model.
\<close>

section \<open>Messages\<close>

definition FLASH_TICKS :: nat where "FLASH_TICKS = 8"

definition CELEBRATE_TICKS :: nat where "CELEBRATE_TICKS = 4"

definition MAX_EVENTS :: nat where "MAX_EVENTS = 2000"

definition HISTORY_PATHS_LIMIT :: nat where "HISTORY_PATHS_LIMIT = 200"

definition HISTORY_LOG_LIMIT :: nat where "HISTORY_LOG_LIMIT = 500"

datatype conflict_side = WonLocal | WonPeer

datatype ctl_event =
    EvConnected "string option" "string option"
  | EvDisconnected
  | EvSynced string u64
  | EvSent string u64
  | EvRemoved string
  | EvConflict "int option" string conflict_side bool
  | EvTransfer string u64 u64
  | EvNote string
  | EvError string
  | EvHeartbeat "u64 option" u64 bool
  | EvPaused
  | EvResumed
  | EvLagged

datatype tui_key = KeyChar char | KeyEnter | KeyEsc | KeyBackspace | KeyUp | KeyDown | KeyLeft | KeyRight
  | KeyPageUp | KeyPageDown | KeyHome | KeyEnd

datatype verdict = KeepVerdict | TakeVerdict | BothVerdict

datatype ctl_request =
    ReqConflictsList
  | ReqConflictShow int
  | ReqResolve int verdict
  | ReqHistoryPaths nat
  | ReqHistoryLog string nat
  | ReqVersionDiff string int int
  | ReqRestore string int
  | ReqConflictUnresolve int
  | ReqPause
  | ReqResume
  | ReqStop

record out_command =
  oc_seq :: u64
  oc_req :: ctl_request

datatype author_side = SideYou | SidePeer

record listed_conflict =
  lc_conflict :: int
  lc_where :: string
  lc_wall :: u64
  lc_winner :: author_side

record head_info =
  hd_side :: author_side
  hd_wall :: u64

record conflict_detail =
  cd_winner :: head_info
  cd_loser :: head_info
  cd_winner_version :: int
  cd_loser_version :: int
  cd_diff :: "string list"
  cd_diffable :: bool

record path_row =
  pr_path :: string
  pr_versions :: u64
  pr_last_version :: int
  pr_last_wall :: u64

record timeline_row =
  tr_id :: int
  tr_wall :: u64
  tr_size :: "u64 option"
  tr_side :: author_side
  tr_exec :: bool
  tr_present :: bool

record diff_detail =
  dd_identical :: bool
  dd_diffable :: bool
  dd_diff :: "string list"

datatype cmd_reply =
    RepConflicts "listed_conflict list"
  | RepShow int conflict_detail
  | RepResolved
  | RepHistoryPaths "path_row list"
  | RepHistoryLog string "timeline_row list"
  | RepVersionDiff int int diff_detail
  | RepRestored string int u64
  | RepUnresolved
  | RepPauseState bool

record cmd_outcome =
  co_seq :: u64
  co_result :: "string + cmd_reply"

datatype tui_msg = MsgEvent ctl_event | MsgKey tui_key | MsgTick | MsgCmd cmd_outcome

section \<open>The model\<close>

datatype screen = ScreenMain | ScreenConflicts | ScreenHistoryPicker | ScreenHistoryTimeline

datatype modal = AckAll nat | StopConfirm | RestoreConfirm string int u64 u64 bool

record undo_plan =
  up_conflict :: int
  up_path :: string
  up_verdict :: verdict
  up_pre_version :: "int option"

datatype flash =
    FlashPaused
  | FlashResumed
  | FlashRestoring string int
  | FlashRestored string int u64
  | FlashFailed string
  | FlashNothingToUndo
  | FlashUndid undo_plan

text \<open>A stream line is its event.\<close>

fun line_path :: "ctl_event \<Rightarrow> string option" where
  "line_path (EvSynced p _) = Some p"
| "line_path (EvSent p _) = Some p"
| "line_path (EvRemoved p) = Some p"
| "line_path (EvConflict _ p _ _) = Some p"
| "line_path _ = None"

record transfer_row =
  xf_path :: string
  xf_done :: u64
  xf_total :: u64

record model =
  md_screen :: screen
  md_help :: bool
  md_modal :: "modal option"
  md_quit :: bool
  md_foreground :: bool
  md_stopping :: bool
  md_synced_total :: u64
  md_resolved_total :: u64
  md_now_ms :: u64
  md_events :: "ctl_event list"
  md_follow :: bool
  md_scroll :: nat
  md_new_activity :: bool
  md_filter :: "string option"
  md_filter_editing :: bool
  md_transfers :: "transfer_row list"
  md_peer_name :: "string option"
  md_peer_addr :: "string option"
  md_connected :: bool
  md_paused :: bool
  md_unresolved :: u64
  md_last_sync_wall_ms :: "u64 option"
  md_conflicts :: "listed_conflict list"
  md_pending_resolved :: "int set"
  md_pending_cmds :: "u64 \<rightharpoonup> int"
  md_adopted_ids :: "int set"
  md_group_collapsed :: bool
  md_sel :: nat
  md_diffs :: "int \<rightharpoonup> conflict_detail"
  md_diff_requested :: "int set"
  md_undo :: "undo_plan option"
  md_history_paths :: "path_row list"
  md_picker_filter :: string
  md_picker_sel :: nat
  md_history_path :: "string option"
  md_timeline :: "timeline_row list"
  md_timeline_sel :: nat
  md_mark :: "int option"
  md_version_diffs :: "int \<times> int \<rightharpoonup> diff_detail"
  md_version_diff_requested :: "(int \<times> int) set"
  md_flash :: "flash option"
  md_flash_ticks :: nat
  md_celebrate_ticks :: nat
  md_outbox :: "out_command list"
  md_next_seq :: u64

definition model_default :: model where
  "model_default = \<lparr>md_screen = ScreenMain, md_help = False, md_modal = None, md_quit = False, md_foreground = False,
     md_stopping = False, md_synced_total = 0, md_resolved_total = 0, md_now_ms = 0, md_events = [], md_follow = True,
     md_scroll = 0, md_new_activity = False, md_filter = None, md_filter_editing = False, md_transfers = [],
     md_peer_name = None, md_peer_addr = None, md_connected = False, md_paused = False, md_unresolved = 0,
     md_last_sync_wall_ms = None, md_conflicts = [], md_pending_resolved = {}, md_pending_cmds = Map.empty,
     md_adopted_ids = {}, md_group_collapsed = False, md_sel = 0, md_diffs = Map.empty, md_diff_requested = {},
     md_undo = None, md_history_paths = [], md_picker_filter = [], md_picker_sel = 0, md_history_path = None,
     md_timeline = [], md_timeline_sel = 0, md_mark = None, md_version_diffs = Map.empty, md_version_diff_requested = {},
     md_flash = None, md_flash_ticks = 0, md_celebrate_ticks = 0, md_outbox = [], md_next_seq = 0\<rparr>"

section \<open>What is visible\<close>

definition nth_opt :: "'a list \<Rightarrow> nat \<Rightarrow> 'a option" where
  "nth_opt xs i = (if i < length xs then Some (xs ! i) else None)"

definition filtered_events :: "model \<Rightarrow> ctl_event list" where
  "filtered_events m = (case md_filter m of
      Some (c # needle) \<Rightarrow> filter (\<lambda>e. case line_path e of Some p \<Rightarrow> sublist (c # needle) p | None \<Rightarrow> False) (md_events m)
    | _ \<Rightarrow> md_events m)"

definition visible_conflicts :: "model \<Rightarrow> listed_conflict list" where
  "visible_conflicts m = filter (\<lambda>c. lc_conflict c \<notin> md_pending_resolved m) (md_conflicts m)"

text \<open>The rows of the conflict pane; the index is the position among the visible conflicts.\<close>

datatype vis_row = VisConflict nat | VisGroupHeader | VisGroupChild nat

definition adopted_row :: "model \<Rightarrow> listed_conflict \<Rightarrow> bool" where
  "adopted_row m c \<longleftrightarrow> lc_conflict c \<in> md_adopted_ids m"

definition vis_rows :: "model \<Rightarrow> vis_row list" where
  "vis_rows m = (let rows = List.enumerate 0 (visible_conflicts m);
       group = map fst (filter (\<lambda>(i, c). adopted_row m c) rows)
     in map (\<lambda>(i, c). VisConflict i) (filter (\<lambda>(i, c). \<not> adopted_row m c) rows) @
        (if group = [] then [] else VisGroupHeader # (if md_group_collapsed m then [] else map VisGroupChild group)))"

definition group_size :: "model \<Rightarrow> nat" where
  "group_size m = length (filter (adopted_row m) (visible_conflicts m))"

fun first_child :: "vis_row list \<Rightarrow> listed_conflict list \<Rightarrow> listed_conflict option" where
  "first_child [] visible = None"
| "first_child (VisGroupChild i # rows) visible = (case nth_opt visible i of Some c \<Rightarrow> Some c | None \<Rightarrow> first_child rows visible)"
| "first_child (_ # rows) visible = first_child rows visible"

definition selected_conflict :: "model \<Rightarrow> listed_conflict option" where
  "selected_conflict m = (let rows = vis_rows m; visible = visible_conflicts m in
     case nth_opt rows (md_sel m) of
       None \<Rightarrow> None
     | Some (VisConflict i) \<Rightarrow> nth_opt visible i
     | Some (VisGroupChild i) \<Rightarrow> nth_opt visible i
     | Some VisGroupHeader \<Rightarrow> (case first_child (drop (md_sel m + 1) rows) visible of
           Some c \<Rightarrow> Some c
         | None \<Rightarrow> List.find (adopted_row m) visible))"

definition on_group_header :: "model \<Rightarrow> bool" where
  "on_group_header m \<longleftrightarrow> nth_opt (vis_rows m) (md_sel m) = Some VisGroupHeader"

definition filtered_paths :: "model \<Rightarrow> path_row list" where
  "filtered_paths m = (if md_picker_filter m = [] then md_history_paths m
     else filter (\<lambda>p. sublist (md_picker_filter m) (pr_path p)) (md_history_paths m))"

definition selected_path :: "model \<Rightarrow> path_row option" where
  "selected_path m = nth_opt (filtered_paths m) (md_picker_sel m)"

definition selected_version :: "model \<Rightarrow> timeline_row option" where
  "selected_version m = nth_opt (md_timeline m) (md_timeline_sel m)"

definition diff_pair :: "model \<Rightarrow> (int \<times> int) option" where
  "diff_pair m = (case selected_version m of
      None \<Rightarrow> None
    | Some v \<Rightarrow> (case md_mark m of
          Some i \<Rightarrow> Some (i, tr_id v)
        | None \<Rightarrow> map_option (\<lambda>prev. (tr_id prev, tr_id v)) (nth_opt (md_timeline m) (md_timeline_sel m + 1))))"

section \<open>Commands and small updates\<close>

definition enqueue :: "ctl_request \<Rightarrow> model \<Rightarrow> model" where
  "enqueue req m = m\<lparr>md_outbox := md_outbox m @ [\<lparr>oc_seq = md_next_seq m, oc_req = req\<rparr>], md_next_seq := md_next_seq m + 1\<rparr>"

definition enqueue_resolve :: "verdict \<Rightarrow> int \<Rightarrow> model \<Rightarrow> model" where
  "enqueue_resolve v i m = (let sq = md_next_seq m;
       m = enqueue (ReqResolve i v) (m\<lparr>md_pending_resolved := insert i (md_pending_resolved m)\<rparr>)
     in m\<lparr>md_pending_cmds := (md_pending_cmds m)(sq \<mapsto> i)\<rparr>)"

definition set_flash :: "flash \<Rightarrow> model \<Rightarrow> model" where
  "set_flash f m = m\<lparr>md_flash := Some f, md_flash_ticks := FLASH_TICKS\<rparr>"

definition push_line :: "ctl_event \<Rightarrow> model \<Rightarrow> model" where
  "push_line e m = (let evs = md_events m @ [e];
       m = m\<lparr>md_events := if MAX_EVENTS < length evs then drop (length evs - MAX_EVENTS) evs else evs\<rparr>
     in if md_follow m then m\<lparr>md_scroll := 0\<rparr> else m\<lparr>md_new_activity := True\<rparr>)"

fun set_transfer :: "transfer_row list \<Rightarrow> string \<Rightarrow> u64 \<Rightarrow> u64 \<Rightarrow> transfer_row list" where
  "set_transfer [] p done full = [\<lparr>xf_path = p, xf_done = done, xf_total = full\<rparr>]"
| "set_transfer (t # ts) p done full =
     (if xf_path t = p then t\<lparr>xf_done := done, xf_total := full\<rparr> # ts else t # set_transfer ts p done full)"

definition update_transfer :: "string \<Rightarrow> u64 \<Rightarrow> u64 \<Rightarrow> model \<Rightarrow> model" where
  "update_transfer p done full m =
     (if 0 < full \<and> full \<le> done then m\<lparr>md_transfers := filter (\<lambda>t. xf_path t \<noteq> p) (md_transfers m)\<rparr>
      else m\<lparr>md_transfers := set_transfer (md_transfers m) p done full\<rparr>)"

definition sync_line :: "string \<Rightarrow> ctl_event \<Rightarrow> model \<Rightarrow> model" where
  "sync_line p e m = push_line e (m\<lparr>md_transfers := filter (\<lambda>t. xf_path t \<noteq> p) (md_transfers m), md_synced_total := md_synced_total m + 1\<rparr>)"

definition ingest_event :: "ctl_event \<Rightarrow> model \<Rightarrow> model" where
  "ingest_event e m = (case e of
      EvConnected name addr \<Rightarrow> push_line e (m\<lparr>md_connected := True,
          md_peer_name := if name \<noteq> None then name else md_peer_name m,
          md_peer_addr := if addr \<noteq> None then addr else md_peer_addr m\<rparr>)
    | EvDisconnected \<Rightarrow> push_line e (m\<lparr>md_connected := False\<rparr>)
    | EvTransfer p done full \<Rightarrow> update_transfer p done full m
    | EvHeartbeat ago unresolved paused \<Rightarrow> (let m = m\<lparr>md_unresolved := unresolved, md_paused := paused\<rparr> in
        case ago of None \<Rightarrow> m
        | Some a \<Rightarrow> m\<lparr>md_last_sync_wall_ms := Some (sat_sub (md_now_ms m) a)\<rparr>)
    | EvPaused \<Rightarrow> push_line e (m\<lparr>md_paused := True\<rparr>)
    | EvResumed \<Rightarrow> push_line e (m\<lparr>md_paused := False\<rparr>)
    | EvConflict i _ _ adopted \<Rightarrow> (let m = (case i of
            Some i \<Rightarrow> if adopted then m\<lparr>md_adopted_ids := insert i (md_adopted_ids m)\<rparr> else m
          | None \<Rightarrow> m);
          m = (if md_screen m = ScreenConflicts then enqueue ReqConflictsList m else m)
        in push_line e m)
    | EvSynced p _ \<Rightarrow> sync_line p e m
    | EvSent p _ \<Rightarrow> sync_line p e m
    | _ \<Rightarrow> push_line e m)"

definition tick :: "model \<Rightarrow> model" where
  "tick m = (let m = (if 0 < md_flash_ticks m
        then m\<lparr>md_flash_ticks := md_flash_ticks m - 1, md_flash := if md_flash_ticks m = 1 then None else md_flash m\<rparr> else m)
     in if 0 < md_celebrate_ticks m
        then m\<lparr>md_celebrate_ticks := md_celebrate_ticks m - 1, md_screen := if md_celebrate_ticks m = 1 then ScreenMain else md_screen m\<rparr>
        else m)"

section \<open>Selections and diffs\<close>

definition clamp_index :: "nat \<Rightarrow> nat \<Rightarrow> nat" where
  "clamp_index len i = (if len = 0 then 0 else if len \<le> i then len - 1 else i)"

text \<open>\<^verbatim>\<open>i32::try_from(..).unwrap_or(0)\<close>, the wrapping sum, the clamp.\<close>

definition as_i32 :: "nat \<Rightarrow> int" where
  "as_i32 n = (if n < 2 ^ 31 then int n else 0)"

definition wrap_i32 :: "int \<Rightarrow> int" where
  "wrap_i32 x = (x + 2 ^ 31) mod 2 ^ 32 - 2 ^ 31"

definition move_index :: "nat \<Rightarrow> nat \<Rightarrow> int \<Rightarrow> nat" where
  "move_index len i delta = (if len = 0 then 0
     else nat (max 0 (min (as_i32 (len - 1)) (wrap_i32 (as_i32 i + delta)))))"

definition ensure_diff_loaded :: "model \<Rightarrow> model" where
  "ensure_diff_loaded m = (if md_screen m \<noteq> ScreenConflicts then m
     else case selected_conflict m of
       None \<Rightarrow> m
     | Some c \<Rightarrow> if md_diffs m (lc_conflict c) \<noteq> None \<or> lc_conflict c \<in> md_diff_requested m then m
         else enqueue (ReqConflictShow (lc_conflict c)) (m\<lparr>md_diff_requested := insert (lc_conflict c) (md_diff_requested m)\<rparr>))"

definition ensure_version_diff_loaded :: "model \<Rightarrow> model" where
  "ensure_version_diff_loaded m = (if md_screen m \<noteq> ScreenHistoryTimeline then m
     else case (md_history_path m, diff_pair m) of
       (Some p, Some (a, b)) \<Rightarrow>
         if md_version_diffs m (a, b) \<noteq> None \<or> (a, b) \<in> md_version_diff_requested m then m
         else enqueue (ReqVersionDiff p a b) (m\<lparr>md_version_diff_requested := insert (a, b) (md_version_diff_requested m)\<rparr>)
     | _ \<Rightarrow> m)"

definition clamp_selection :: "model \<Rightarrow> model" where
  "clamp_selection m = ensure_diff_loaded (m\<lparr>md_sel := clamp_index (length (vis_rows m)) (md_sel m)\<rparr>)"

definition clamp_picker :: "model \<Rightarrow> model" where
  "clamp_picker m = m\<lparr>md_picker_sel := clamp_index (length (filtered_paths m)) (md_picker_sel m)\<rparr>"

definition move_sel :: "int \<Rightarrow> model \<Rightarrow> model" where
  "move_sel delta m = (if vis_rows m = [] then m\<lparr>md_sel := 0\<rparr>
     else ensure_diff_loaded (m\<lparr>md_sel := move_index (length (vis_rows m)) (md_sel m) delta\<rparr>))"

definition picker_move :: "int \<Rightarrow> model \<Rightarrow> model" where
  "picker_move delta m = m\<lparr>md_picker_sel := move_index (length (filtered_paths m)) (md_picker_sel m) delta\<rparr>"

definition timeline_move :: "int \<Rightarrow> model \<Rightarrow> model" where
  "timeline_move delta m = (if md_timeline m = [] then m\<lparr>md_timeline_sel := 0\<rparr>
     else ensure_version_diff_loaded (m\<lparr>md_timeline_sel := move_index (length (md_timeline m)) (md_timeline_sel m) delta\<rparr>))"

section \<open>Outcomes of commands\<close>

definition ingest_cmd :: "cmd_outcome \<Rightarrow> model \<Rightarrow> model" where
  "ingest_cmd out m = (case co_result out of
      Inr (RepConflicts rows) \<Rightarrow>
        ensure_diff_loaded (clamp_selection (m\<lparr>md_conflicts := rows,
          md_pending_resolved := md_pending_resolved m \<inter> lc_conflict ` set rows, md_undo := None\<rparr>))
    | Inr (RepShow i detail) \<Rightarrow> m\<lparr>md_diff_requested := md_diff_requested m - {i}, md_diffs := (md_diffs m)(i \<mapsto> detail)\<rparr>
    | Inr RepResolved \<Rightarrow> m\<lparr>md_pending_cmds := (md_pending_cmds m)(co_seq out := None), md_resolved_total := md_resolved_total m + 1\<rparr>
    | Inr (RepHistoryPaths rows) \<Rightarrow> clamp_picker (m\<lparr>md_history_paths := rows\<rparr>)
    | Inr (RepHistoryLog p rows) \<Rightarrow>
        if md_history_path m = Some p
        then ensure_version_diff_loaded (m\<lparr>md_timeline := rows, md_timeline_sel := 0, md_mark := None\<rparr>) else m
    | Inr (RepVersionDiff a b detail) \<Rightarrow> m\<lparr>md_version_diff_requested := md_version_diff_requested m - {(a, b)},
        md_version_diffs := (md_version_diffs m)((a, b) \<mapsto> detail)\<rparr>
    | Inr (RepRestored p i n) \<Rightarrow> set_flash (FlashRestored p i n) m
    | Inr RepUnresolved \<Rightarrow> m
    | Inr (RepPauseState paused) \<Rightarrow> m\<lparr>md_paused := paused\<rparr>
    | Inl e \<Rightarrow> (let m = set_flash (FlashFailed e) m in
        case md_pending_cmds m (co_seq out) of
          None \<Rightarrow> m
        | Some i \<Rightarrow> enqueue ReqConflictsList (m\<lparr>md_pending_cmds := (md_pending_cmds m)(co_seq out := None),
            md_pending_resolved := md_pending_resolved m - {i}\<rparr>)))"

section \<open>Verdicts\<close>

definition after_resolve :: "model \<Rightarrow> model" where
  "after_resolve m = (if visible_conflicts m = [] then m\<lparr>md_celebrate_ticks := CELEBRATE_TICKS, md_sel := 0\<rparr> else clamp_selection m)"

definition give_verdict :: "verdict \<Rightarrow> model \<Rightarrow> model" where
  "give_verdict v m =
     (if on_group_header m then
        (let ids = map lc_conflict (filter (adopted_row m) (visible_conflicts m))
         in if ids = [] then m else after_resolve (fold (enqueue_resolve v) ids (m\<lparr>md_undo := None\<rparr>)))
      else case selected_conflict m of
        None \<Rightarrow> m
      | Some c \<Rightarrow> after_resolve (enqueue_resolve v (lc_conflict c) (m\<lparr>md_undo := Some \<lparr>up_conflict = lc_conflict c, up_path = lc_where c,
            up_verdict = v, up_pre_version = if v = TakeVerdict then map_option cd_winner_version (md_diffs m (lc_conflict c)) else None\<rparr>\<rparr>)))"

definition confirm_ack_all :: "model \<Rightarrow> model" where
  "confirm_ack_all m = after_resolve (fold (enqueue_resolve KeepVerdict) (map lc_conflict (visible_conflicts m)) (m\<lparr>md_undo := None\<rparr>))"

text \<open>The requests an undo sends for a plan, in order.\<close>

definition undo_requests :: "undo_plan \<Rightarrow> ctl_request list" where
  "undo_requests plan = (case (up_verdict plan, up_pre_version plan) of
      (TakeVerdict, Some i) \<Rightarrow> [ReqRestore (up_path plan) i, ReqConflictUnresolve (up_conflict plan)]
    | _ \<Rightarrow> [ReqConflictUnresolve (up_conflict plan)])"

definition undo :: "model \<Rightarrow> model" where
  "undo m = (case md_undo m of
      None \<Rightarrow> set_flash FlashNothingToUndo m
    | Some plan \<Rightarrow> (let m = fold enqueue (undo_requests plan) (m\<lparr>md_undo := None\<rparr>);
          m = m\<lparr>md_pending_resolved := md_pending_resolved m - {up_conflict plan}\<rparr>
        in set_flash (FlashUndid plan) (enqueue ReqConflictsList m)))"

section \<open>Keys\<close>

definition request_quit :: "model \<Rightarrow> model" where
  "request_quit m = (if md_foreground m then m\<lparr>md_modal := Some StopConfirm\<rparr> else m\<lparr>md_quit := True\<rparr>)"

definition toggle_pause :: "model \<Rightarrow> model" where
  "toggle_pause m = (let want = \<not> md_paused m in
     set_flash (if want then FlashPaused else FlashResumed) (enqueue (if want then ReqPause else ReqResume) (m\<lparr>md_paused := want\<rparr>)))"

definition refollow :: "model \<Rightarrow> model" where
  "refollow m = m\<lparr>md_follow := True, md_scroll := 0, md_new_activity := False\<rparr>"

definition scroll_up :: "nat \<Rightarrow> model \<Rightarrow> model" where
  "scroll_up step m = m\<lparr>md_follow := False, md_scroll := min (md_scroll m + step) (length (filtered_events m) - 1)\<rparr>"

definition scroll_down :: "nat \<Rightarrow> model \<Rightarrow> model" where
  "scroll_down step m = (if md_scroll m \<le> step then refollow (m\<lparr>md_scroll := 0\<rparr>) else m\<lparr>md_scroll := md_scroll m - step\<rparr>)"

definition enter_conflicts :: "model \<Rightarrow> model" where
  "enter_conflicts m = enqueue ReqConflictsList (m\<lparr>md_screen := ScreenConflicts, md_sel := 0\<rparr>)"

definition enter_history_picker :: "model \<Rightarrow> model" where
  "enter_history_picker m = enqueue (ReqHistoryPaths HISTORY_PATHS_LIMIT)
     (m\<lparr>md_screen := ScreenHistoryPicker, md_picker_filter := [], md_picker_sel := 0\<rparr>)"

definition filter_key :: "tui_key \<Rightarrow> model \<Rightarrow> model" where
  "filter_key k m = (case k of
      KeyChar c \<Rightarrow> m\<lparr>md_filter := Some ((case md_filter m of Some f \<Rightarrow> f | None \<Rightarrow> []) @ [c])\<rparr>
    | KeyBackspace \<Rightarrow> m\<lparr>md_filter := map_option butlast (md_filter m)\<rparr>
    | KeyEnter \<Rightarrow> m\<lparr>md_filter_editing := False\<rparr>
    | KeyEsc \<Rightarrow> m\<lparr>md_filter_editing := False, md_filter := None\<rparr>
    | _ \<Rightarrow> m)"

definition main_key :: "tui_key \<Rightarrow> model \<Rightarrow> model" where
  "main_key k m = (if md_filter_editing m then filter_key k m
     else if k = KeyChar (CHR ''q'') then request_quit m
     else if k = KeyChar (CHR ''d'') then m\<lparr>md_quit := True\<rparr>
     else if k = KeyChar (CHR ''?'') then m\<lparr>md_help := True\<rparr>
     else if k = KeyChar (CHR ''c'') then enter_conflicts m
     else if k = KeyChar (CHR ''h'') then enter_history_picker m
     else if k = KeyChar (CHR '' '') then toggle_pause m
     else if k = KeyChar (CHR ''/'')
       then m\<lparr>md_filter_editing := True, md_filter := if md_filter m = None then Some [] else md_filter m\<rparr>
     else if k = KeyEsc then m\<lparr>md_filter := None\<rparr>
     else if k = KeyUp then scroll_up 1 m
     else if k = KeyPageUp then scroll_up 10 m
     else if k = KeyDown then scroll_down 1 m
     else if k = KeyPageDown then scroll_down 10 m
     else if k = KeyEnd \<or> k = KeyChar (CHR ''G'') then refollow m
     else m)"

definition open_timeline :: "model \<Rightarrow> model" where
  "open_timeline m = (case selected_path m of
      None \<Rightarrow> m
    | Some row \<Rightarrow> enqueue (ReqHistoryLog (pr_path row) HISTORY_LOG_LIMIT)
        (m\<lparr>md_history_path := Some (pr_path row), md_screen := ScreenHistoryTimeline, md_timeline := [],
           md_timeline_sel := 0, md_mark := None\<rparr>))"

definition picker_key :: "tui_key \<Rightarrow> model \<Rightarrow> model" where
  "picker_key k m = (case k of
      KeyEsc \<Rightarrow> m\<lparr>md_screen := ScreenMain\<rparr>
    | KeyEnter \<Rightarrow> open_timeline m
    | KeyUp \<Rightarrow> picker_move (- 1) m
    | KeyDown \<Rightarrow> picker_move 1 m
    | KeyBackspace \<Rightarrow> clamp_picker (m\<lparr>md_picker_filter := butlast (md_picker_filter m)\<rparr>)
    | KeyChar c \<Rightarrow> clamp_picker (m\<lparr>md_picker_filter := md_picker_filter m @ [c]\<rparr>)
    | _ \<Rightarrow> m)"

definition toggle_mark :: "model \<Rightarrow> model" where
  "toggle_mark m = ensure_version_diff_loaded (if md_mark m \<noteq> None then m\<lparr>md_mark := None\<rparr>
     else case selected_version m of Some v \<Rightarrow> m\<lparr>md_mark := Some (tr_id v)\<rparr> | None \<Rightarrow> m)"

definition open_restore_confirm :: "model \<Rightarrow> model" where
  "open_restore_confirm m = (case (md_history_path m, selected_version m) of
      (Some p, Some v) \<Rightarrow> m\<lparr>md_modal := Some (RestoreConfirm p (tr_id v) (case tr_size v of Some n \<Rightarrow> n | None \<Rightarrow> 0) (tr_wall v) (\<not> tr_present v))\<rparr>
    | _ \<Rightarrow> m)"

definition confirm_restore :: "model \<Rightarrow> model" where
  "confirm_restore m = (case md_modal m of
      Some (RestoreConfirm p i _ _ _) \<Rightarrow> set_flash (FlashRestoring p i) (enqueue (ReqRestore p i) (m\<lparr>md_modal := None\<rparr>))
    | _ \<Rightarrow> m\<lparr>md_modal := None\<rparr>)"

definition timeline_key :: "tui_key \<Rightarrow> model \<Rightarrow> model" where
  "timeline_key k m =
     (if k = KeyEsc then
        (if md_mark m \<noteq> None then ensure_version_diff_loaded (m\<lparr>md_mark := None\<rparr>) else m\<lparr>md_screen := ScreenHistoryPicker\<rparr>)
      else if k = KeyChar (CHR ''?'') then m\<lparr>md_help := True\<rparr>
      else if k = KeyChar (CHR ''q'') then request_quit m
      else if k = KeyChar (CHR ''d'') then m\<lparr>md_quit := True\<rparr>
      else if k = KeyChar (CHR ''j'') \<or> k = KeyDown then timeline_move 1 m
      else if k = KeyChar (CHR ''k'') \<or> k = KeyUp then timeline_move (- 1) m
      else if k = KeyChar (CHR ''m'') then toggle_mark m
      else if k = KeyChar (CHR ''r'') then open_restore_confirm m
      else m)"

definition conflict_key :: "tui_key \<Rightarrow> model \<Rightarrow> model" where
  "conflict_key k m =
     (if k = KeyChar (CHR ''c'') \<or> k = KeyEsc then m\<lparr>md_screen := ScreenMain\<rparr>
      else if k = KeyChar (CHR ''?'') then m\<lparr>md_help := True\<rparr>
      else if k = KeyChar (CHR ''q'') then request_quit m
      else if k = KeyChar (CHR ''d'') then m\<lparr>md_quit := True\<rparr>
      else if k = KeyChar (CHR ''j'') \<or> k = KeyDown then move_sel 1 m
      else if k = KeyChar (CHR ''k'') \<or> k = KeyUp then move_sel (- 1) m
      else if k = KeyEnter then
        (if on_group_header m then clamp_selection (m\<lparr>md_group_collapsed := \<not> md_group_collapsed m\<rparr>) else give_verdict KeepVerdict m)
      else if k = KeyChar (CHR ''h'') \<or> k = KeyLeft then
        (if on_group_header m then clamp_selection (m\<lparr>md_group_collapsed := True\<rparr>) else m)
      else if k = KeyChar (CHR ''l'') \<or> k = KeyRight then
        (if on_group_header m then clamp_selection (m\<lparr>md_group_collapsed := False\<rparr>) else m)
      else if k = KeyChar (CHR ''t'') then give_verdict TakeVerdict m
      else if k = KeyChar (CHR ''b'') then give_verdict BothVerdict m
      else if k = KeyChar (CHR '' '') then toggle_pause m
      else if k = KeyChar (CHR ''a'') then
        (let n = length (visible_conflicts m) in if 0 < n then m\<lparr>md_modal := Some (AckAll n)\<rparr> else m)
      else if k = KeyChar (CHR ''u'') then undo m
      else m)"

definition confirms :: "tui_key \<Rightarrow> bool" where
  "confirms k \<longleftrightarrow> k = KeyEnter \<or> k = KeyChar (CHR ''y'')"

definition declines :: "tui_key \<Rightarrow> bool" where
  "declines k \<longleftrightarrow> k = KeyEsc \<or> k = KeyChar (CHR ''n'')"

definition key_press :: "tui_key \<Rightarrow> model \<Rightarrow> model" where
  "key_press k m =
     (if md_help m then (if k = KeyEsc \<or> k = KeyChar (CHR ''?'') \<or> k = KeyChar (CHR ''q'') then m\<lparr>md_help := False\<rparr> else m)
      else case md_modal m of
        Some StopConfirm \<Rightarrow>
          if confirms k then m\<lparr>md_stopping := True, md_quit := True, md_modal := None\<rparr>
          else if declines k \<or> k = KeyChar (CHR ''q'') then m\<lparr>md_modal := None\<rparr> else m
      | Some (AckAll _) \<Rightarrow>
          if confirms k then (confirm_ack_all m)\<lparr>md_modal := None\<rparr> else if declines k then m\<lparr>md_modal := None\<rparr> else m
      | Some (RestoreConfirm _ _ _ _ _) \<Rightarrow>
          if confirms k then confirm_restore m else if declines k then m\<lparr>md_modal := None\<rparr> else m
      | None \<Rightarrow> (case md_screen m of
            ScreenMain \<Rightarrow> main_key k m
          | ScreenConflicts \<Rightarrow> conflict_key k m
          | ScreenHistoryPicker \<Rightarrow> picker_key k m
          | ScreenHistoryTimeline \<Rightarrow> timeline_key k m))"

definition update :: "model \<Rightarrow> tui_msg \<Rightarrow> model" where
  "update m msg = (case msg of
      MsgEvent e \<Rightarrow> ingest_event e m
    | MsgTick \<Rightarrow> tick m
    | MsgCmd out \<Rightarrow> ingest_cmd out m
    | MsgKey k \<Rightarrow> key_press k m)"

section \<open>The loop\<close>

text \<open>\<^verbatim>\<open>event_loop\<close>: stamp the time, reduce, hand over the outbox; the loop ends with the quit flag.\<close>

definition loop_step :: "model \<Rightarrow> u64 \<times> tui_msg \<Rightarrow> model \<times> out_command list" where
  "loop_step m tm = (case tm of (now, msg) \<Rightarrow>
     let m = update (m\<lparr>md_now_ms := now\<rparr>) msg in (m\<lparr>md_outbox := []\<rparr>, md_outbox m))"

fun event_loop :: "model \<Rightarrow> (u64 \<times> tui_msg) list \<Rightarrow> model \<times> out_command list" where
  "event_loop m [] = (m, [])"
| "event_loop m (tm # tms) = (case loop_step m tm of (m', cmds) \<Rightarrow>
     if md_quit m' then (m', cmds) else apsnd (\<lambda>rest. cmds @ rest) (event_loop m' tms))"

section \<open>Lines of the display\<close>

definition last_sync_ago :: "model \<Rightarrow> u64 option" where
  "last_sync_ago m = map_option (\<lambda>wall. sat_sub (md_now_ms m) wall) (md_last_sync_wall_ms m)"

datatype echo = EchoKeepGroup nat | EchoResolve int verdict

definition cli_echo :: "model \<Rightarrow> echo option" where
  "cli_echo m = (if on_group_header m then Some (EchoKeepGroup (group_size m))
     else map_option (\<lambda>c. EchoResolve (lc_conflict c) KeepVerdict) (selected_conflict m))"

definition restore_echo :: "model \<Rightarrow> (string \<times> int) option" where
  "restore_echo m = (case (md_history_path m, selected_version m) of (Some p, Some v) \<Rightarrow> Some (p, tr_id v) | _ \<Rightarrow> None)"

datatype header = Comparing int int | Predecessor int int

definition compare_header :: "model \<Rightarrow> header option" where
  "compare_header m = (case selected_version m of
      None \<Rightarrow> None
    | Some v \<Rightarrow> (case md_mark m of
          Some i \<Rightarrow> Some (Comparing i (tr_id v))
        | None \<Rightarrow> map_option (\<lambda>prev. Predecessor (tr_id prev) (tr_id v)) (nth_opt (md_timeline m) (md_timeline_sel m + 1))))"

end
