(* ===== verification/Tomo_Commands.thy ===== *)
theory Tomo_Commands
  imports Tomo_Preserve Tomo_SshConfig
begin

text \<open>
  The commands that look into the history and write back from it: \<^verbatim>\<open>tomo/src/history_cmd.rs\<close>
  and \<^verbatim>\<open>conflicts_cmd.rs\<close> with the one-file half of \<^verbatim>\<open>apply.rs\<close> and the line diff of
  \<^verbatim>\<open>textdiff.rs\<close>. A command takes a workspace, the files and the history database, to a
  workspace and a result; what it prints is the data of the result. The database is one the
  current version of the store has opened before. The answers of the interactive loop are the
  lines of its input.
\<close>

section \<open>The workspace\<close>

record workspace =
  ws_initialized :: bool
  ws_root :: string
  ws_tree :: tree
  ws_store :: "history_store option"

datatype command_error =
    NotAProject
  | NoHistoryYet
  | OutsideRoot string
  | NotSimple string
  | InvalidPath path_error
  | StoreFailed history_error
  | NoHistoryFor relpath
  | NoSuchConflict int
  | NoneOnPath relpath
  | VersionMissing int
  | BadVersionId string
  | NothingEarlier relpath
  | AllOnlyKeeps
  | OneOrAll
  | NoTarget
  | NoKind
  | ManyKinds
  | LoserIsDeletion int
  | SidecarPath path_error
  | NoContentForStdout int
  | ApplyFailed exec_error
  | RefusedAt relpath
  | ProblemsFound nat
  | ReadFailed relpath
  | NeedsTerminal
  | NeverReturns

type_synonym 'r command_result = "workspace \<times> (command_error + 'r)"

definition require_initialized :: "workspace \<Rightarrow> command_error option" where
  "require_initialized ws = (if ws_initialized ws then None else Some NotAProject)"

text \<open>\<^verbatim>\<open>HistoryStore::open\<close> creates the database when there is none.\<close>

definition open_store :: "workspace \<Rightarrow> history_store" where
  "open_store ws = (case ws_store ws of Some hs \<Rightarrow> hs | None \<Rightarrow> \<lparr>hs_db = db_new, hs_has_exec = True\<rparr>)"

definition open_readonly_required :: "workspace \<Rightarrow> command_error + history_store" where
  "open_readonly_required ws = (case ws_store ws of Some hs \<Rightarrow> Inr hs | None \<Rightarrow> Inl NoHistoryYet)"

definition lift_store :: "history_error + 'a \<Rightarrow> command_error + 'a" where
  "lift_store r = (case r of Inl e \<Rightarrow> Inl (StoreFailed e) | Inr x \<Rightarrow> Inr x)"

text \<open>The components of an absolute path, as \<^verbatim>\<open>Path::components\<close> has them.\<close>

definition path_comps :: "string \<Rightarrow> string list" where
  "path_comps p = filter (\<lambda>c. c \<noteq> [] \<and> c \<noteq> ''.'') (str_split (CHR ''/'') p)"

fun strip_comps :: "string list \<Rightarrow> string list \<Rightarrow> string list option" where
  "strip_comps [] cs = Some cs"
| "strip_comps (r # rs) [] = None"
| "strip_comps (r # rs) (c # cs) = (if r = c then strip_comps rs cs else None)"

definition to_relpath :: "string \<Rightarrow> string \<Rightarrow> command_error + relpath" where
  "to_relpath base arg =
     (let full = (if path_absolute arg then arg else path_join base arg)
      in case strip_comps (path_comps base) (path_comps full) of
           None \<Rightarrow> Inl (OutsideRoot arg)
         | Some parts \<Rightarrow> if ''..'' \<in> set parts then Inl (NotSimple arg)
             else (case relpath_new (str_join ''/'' parts) of Inl e \<Rightarrow> Inl (InvalidPath e) | Inr p \<Rightarrow> Inr p))"

section \<open>Writing one file\<close>

definition apply_present :: "disk_api \<Rightarrow> tree \<Rightarrow> relpath \<Rightarrow> content_sig \<Rightarrow> bytes \<Rightarrow> tree \<times> command_error option" where
  "apply_present d t path sig bs =
     (if \<not> matches_sig (sa_blake3 (dk_store d)) bs sig then (t, Some (ApplyFailed (IntegrityFailed path)))
      else if dk_refused d path then (t, Some (RefusedAt path))
      else case create_dir_all t (parents path) of
          None \<Rightarrow> (t, Some (ApplyFailed (CreateParentFailed path)))
        | Some t \<Rightarrow>
            if dk_stage d path \<noteq> StageOk then (t, Some (ApplyFailed (StagingFailed path)))
            else if path_is_dir t path then (t, Some (ApplyFailed (InstallFailed path)))
            else (bm_insert path (FileNode bs (sig_exec sig) (dk_mtime_ms d)) t, None))"

definition apply_absent :: "disk_api \<Rightarrow> tree \<Rightarrow> relpath \<Rightarrow> tree \<times> command_error option" where
  "apply_absent d t path =
     (if dk_refused d path then (t, Some (RefusedAt path))
      else if parent_file t (parents path) \<noteq> None \<or> path_is_dir t path then (t, Some (ApplyFailed (RemoveFailed path)))
      else (prune_empty_parents (bm_remove path t) path, None))"

section \<open>Looking at vers\<close>

definition run_log :: "store_api \<Rightarrow> workspace \<Rightarrow> string \<Rightarrow> nat option \<Rightarrow> command_error + relpath \<times> version_meta list" where
  "run_log api ws arg limit = (case require_initialized ws of Some e \<Rightarrow> Inl e
     | None \<Rightarrow> (case to_relpath (ws_root ws) arg of Inl e \<Rightarrow> Inl e
     | Inr rel \<Rightarrow> (case open_readonly_required ws of Inl e \<Rightarrow> Inl e
     | Inr hs \<Rightarrow> (case lift_store (log_of api hs rel) of Inl e \<Rightarrow> Inl e
     | Inr vers \<Rightarrow> if vers = [] then Inl (NoHistoryFor rel)
         else Inr (rel, case limit of Some n \<Rightarrow> take n vers | None \<Rightarrow> vers)))))"

definition RECENT_DEFAULT_LIMIT :: nat where "RECENT_DEFAULT_LIMIT = 20"

definition run_recent :: "store_api \<Rightarrow> workspace \<Rightarrow> nat option \<Rightarrow> command_error + (relpath \<times> version_meta) list" where
  "run_recent api ws limit = (case require_initialized ws of Some e \<Rightarrow> Inl e
     | None \<Rightarrow> (case ws_store ws of None \<Rightarrow> Inr []
     | Some hs \<Rightarrow> lift_store (recent api hs (case limit of Some n \<Rightarrow> n | None \<Rightarrow> RECENT_DEFAULT_LIMIT))))"

definition HISTORY_PATHS_DEFAULT_LIMIT :: nat where "HISTORY_PATHS_DEFAULT_LIMIT = 200"

definition history_paths_value :: "workspace \<Rightarrow> nat option \<Rightarrow> command_error + path_history list" where
  "history_paths_value ws limit = (case require_initialized ws of Some e \<Rightarrow> Inl e
     | None \<Rightarrow> (case ws_store ws of None \<Rightarrow> Inr []
     | Some hs \<Rightarrow> lift_store (history_paths (hs_db hs) (case limit of Some n \<Rightarrow> n | None \<Rightarrow> HISTORY_PATHS_DEFAULT_LIMIT))))"

definition run_db_check :: "store_api \<Rightarrow> workspace \<Rightarrow> string \<Rightarrow> command_error + check_report" where
  "run_db_check api ws quick = (case require_initialized ws of Some e \<Rightarrow> Inl e
     | None \<Rightarrow> (case open_readonly_required ws of Inl e \<Rightarrow> Inl e
     | Inr hs \<Rightarrow> (let report = store_check api (hs_db hs) quick
         in if cp_ok report then Inr report else Inl (ProblemsFound (length (cp_issues report))))))"

section \<open>Restoring\<close>

text \<open>\<^verbatim>\<open>i64::from_str\<close>.\<close>

definition parse_i64 :: "string \<Rightarrow> int option" where
  "parse_i64 s = (case strip_prefix ''-'' s of
      Some ds \<Rightarrow> if ds = [] \<or> \<not> list_all is_digit ds \<or> 2 ^ 63 < digits_value ds then None else Some (- int (digits_value ds))
    | None \<Rightarrow> (let ds = (case strip_prefix ''+'' s of Some rest \<Rightarrow> rest | None \<Rightarrow> s)
        in if ds = [] \<or> \<not> list_all is_digit ds \<or> 2 ^ 63 \<le> digits_value ds then None else Some (int (digits_value ds))))"

definition resolve_restore_version :: "version_meta list \<Rightarrow> string option \<Rightarrow> relpath \<Rightarrow> command_error + version_meta" where
  "resolve_restore_version vers requested path = (case requested of
      Some raw \<Rightarrow> (case parse_i64 raw of
          None \<Rightarrow> Inl (BadVersionId raw)
        | Some i \<Rightarrow> (case List.find (\<lambda>m. vm_id m = i) vers of None \<Rightarrow> Inl (VersionMissing i) | Some m \<Rightarrow> Inr m))
    | None \<Rightarrow> (case vers of _ # m # _ \<Rightarrow> Inr m | _ \<Rightarrow> Inl (NothingEarlier path)))"

text \<open>Writing a version back, the half \<^verbatim>\<open>run_restore\<close> and \<^verbatim>\<open>restore_ctl\<close> share.\<close>

record restore_report =
  rr_path :: relpath
  rr_version :: int
  rr_size :: u64
  rr_deleted :: bool

definition restore_target :: "disk_api \<Rightarrow> workspace \<Rightarrow> history_store \<Rightarrow> relpath \<Rightarrow> version_meta \<Rightarrow> restore_report command_result" where
  "restore_target d ws hs rel target = (case vm_state target of
      Present sig \<Rightarrow> (case get_content (dk_store d) (hs_db hs) (vm_id target) of
          Inl e \<Rightarrow> (ws, Inl (StoreFailed e))
        | Inr bs \<Rightarrow> (case apply_present d (ws_tree ws) rel sig bs of
              (t, Some e) \<Rightarrow> (ws\<lparr>ws_tree := t\<rparr>, Inl e)
            | (t, None) \<Rightarrow> (ws\<lparr>ws_tree := t\<rparr>,
                Inr \<lparr>rr_path = rel, rr_version = vm_id target, rr_size = sig_size sig, rr_deleted = False\<rparr>)))
    | Tombstone \<Rightarrow> (case apply_absent d (ws_tree ws) rel of
          (t, Some e) \<Rightarrow> (ws\<lparr>ws_tree := t\<rparr>, Inl e)
        | (t, None) \<Rightarrow> (ws\<lparr>ws_tree := t\<rparr>, Inr \<lparr>rr_path = rel, rr_version = vm_id target, rr_size = 0, rr_deleted = True\<rparr>)))"

datatype restore_outcome = RestoredFile restore_report | WroteStdout bytes

definition run_restore :: "disk_api \<Rightarrow> workspace \<Rightarrow> string \<Rightarrow> string option \<Rightarrow> bool \<Rightarrow> restore_outcome command_result" where
  "run_restore d ws arg version stdout = (case require_initialized ws of Some e \<Rightarrow> (ws, Inl e)
     | None \<Rightarrow> (case to_relpath (ws_root ws) arg of Inl e \<Rightarrow> (ws, Inl e)
     | Inr rel \<Rightarrow> (case open_readonly_required ws of Inl e \<Rightarrow> (ws, Inl e)
     | Inr hs \<Rightarrow> (case lift_store (log_of (dk_store d) hs rel) of Inl e \<Rightarrow> (ws, Inl e)
     | Inr vers \<Rightarrow> if vers = [] then (ws, Inl (NoHistoryFor rel))
         else (case resolve_restore_version vers version rel of Inl e \<Rightarrow> (ws, Inl e)
     | Inr target \<Rightarrow>
         if stdout then (ws, case vm_state target of
             Present _ \<Rightarrow> (case get_content (dk_store d) (hs_db hs) (vm_id target) of Inl e \<Rightarrow> Inl (StoreFailed e) | Inr bs \<Rightarrow> Inr (WroteStdout bs))
           | Tombstone \<Rightarrow> Inl (NoContentForStdout (vm_id target)))
         else apsnd (map_sum id RestoredFile) (restore_target d ws hs rel target))))))"

definition restore_ctl :: "disk_api \<Rightarrow> workspace \<Rightarrow> string \<Rightarrow> int \<Rightarrow> restore_report command_result" where
  "restore_ctl d ws path version = (case require_initialized ws of Some e \<Rightarrow> (ws, Inl e)
     | None \<Rightarrow> (case to_relpath (ws_root ws) path of Inl e \<Rightarrow> (ws, Inl e)
     | Inr rel \<Rightarrow> (case open_readonly_required ws of Inl e \<Rightarrow> (ws, Inl e)
     | Inr hs \<Rightarrow> (case lift_store (log_of (dk_store d) hs rel) of Inl e \<Rightarrow> (ws, Inl e)
     | Inr vers \<Rightarrow> if vers = [] then (ws, Inl (NoHistoryFor rel))
         else (case List.find (\<lambda>m. vm_id m = version) vers of None \<Rightarrow> (ws, Inl (VersionMissing version))
     | Some target \<Rightarrow> restore_target d ws hs rel target)))))"

section \<open>Line diffs\<close>

definition DIFF_MAX_BYTES :: nat where "DIFF_MAX_BYTES = 1024 * 1024"

definition DIFF_MAX_LINES :: nat where "DIFF_MAX_LINES = 20"

definition DIFF_CONTEXT :: nat where "DIFF_CONTEXT = 3"

text \<open>\<^verbatim>\<open>str::from_utf8\<close>: the well-formed byte sequences of the Unicode standard.\<close>

definition byte_in :: "nat \<Rightarrow> nat \<Rightarrow> u8 \<Rightarrow> bool" where
  "byte_in lo hi b \<longleftrightarrow> lo \<le> unat b \<and> unat b \<le> hi"

fun from_utf8_ok :: "bytes \<Rightarrow> bool" where
  "from_utf8_ok [] = True"
| "from_utf8_ok (a # bs) =
     (if byte_in 0x00 0x7F a then from_utf8_ok bs
      else case bs of
          [] \<Rightarrow> False
        | b # cs \<Rightarrow>
            if byte_in 0xC2 0xDF a then byte_in 0x80 0xBF b \<and> from_utf8_ok cs
            else case cs of
                [] \<Rightarrow> False
              | c # ds \<Rightarrow>
                  if byte_in 0xE0 0xEF a
                  then byte_in (if a = 0xE0 then 0xA0 else 0x80) (if a = 0xED then 0x9F else 0xBF) b \<and> byte_in 0x80 0xBF c \<and> from_utf8_ok ds
                  else case ds of
                      [] \<Rightarrow> False
                    | e # es \<Rightarrow>
                        byte_in 0xF0 0xF4 a \<and> byte_in (if a = 0xF0 then 0x90 else 0x80) (if a = 0xF4 then 0x8F else 0xBF) b \<and>
                        byte_in 0x80 0xBF c \<and> byte_in 0x80 0xBF e \<and> from_utf8_ok es)"

definition diffable :: "bytes \<Rightarrow> bytes \<Rightarrow> bool" where
  "diffable a b \<longleftrightarrow> length a < DIFF_MAX_BYTES \<and> length b < DIFF_MAX_BYTES \<and> from_utf8_ok a \<and> from_utf8_ok b"

definition bytes_str :: "bytes \<Rightarrow> string" where
  "bytes_str bs = map (char_of \<circ> unat) bs"

fun common_len :: "'a list \<Rightarrow> 'a list \<Rightarrow> nat" where
  "common_len (x # xs) (y # ys) = (if x = y then Suc (common_len xs ys) else 0)"
| "common_len _ _ = 0"

text \<open>The lines of the diff, before and after the cut.\<close>

definition diff_lines :: "string list \<Rightarrow> string list \<Rightarrow> string list" where
  "diff_lines a b =
     (let pre = common_len a b;
          suf = common_len (rev (drop pre a)) (rev (drop pre b));
          suffix_start = length a - suf;
          suffix_end = min (length a) (suffix_start + DIFF_CONTEXT)
      in map ((@) ''  '') (drop (pre - DIFF_CONTEXT) (take pre a)) @
         map ((@) ''- '') (drop pre (take (length a - suf) a)) @
         map ((@) ''+ '') (drop pre (take (length b - suf) b)) @
         map ((@) ''  '') (drop suffix_start (take suffix_end a)))"

definition cut_hint :: string where
  "cut_hint = ''  '' @ [CHR 0xE2, CHR 0x80, CHR 0xA6] @ '' (diff truncated; use `tomo restore --stdout` for full content)''"

definition line_diff :: "string \<Rightarrow> string \<Rightarrow> nat \<Rightarrow> string list" where
  "line_diff old new max_lines =
     (let out = diff_lines (str_lines old) (str_lines new)
      in if max_lines < length out then take max_lines out @ [cut_hint] else out)"

section \<open>Selecting a conflict\<close>

datatype resolve_kind = KeepCurrent | TakeLoser | KeepBoth

datatype resolve_mode = KeepAll | Single string resolve_kind

definition plan_resolve :: "string option \<Rightarrow> bool \<Rightarrow> bool \<Rightarrow> bool \<Rightarrow> bool \<Rightarrow> command_error + resolve_mode" where
  "plan_resolve target keep_current take_loser both all =
     (if all then (if take_loser \<or> both then Inl AllOnlyKeeps else if target \<noteq> None then Inl OneOrAll else Inr KeepAll)
      else case target of
          None \<Rightarrow> Inl NoTarget
        | Some target \<Rightarrow> (case (keep_current, take_loser, both) of
              (True, False, False) \<Rightarrow> Inr (Single target KeepCurrent)
            | (False, True, False) \<Rightarrow> Inr (Single target TakeLoser)
            | (False, False, True) \<Rightarrow> Inr (Single target KeepBoth)
            | (False, False, False) \<Rightarrow> Inl NoKind
            | _ \<Rightarrow> Inl ManyKinds))"

datatype selector = SelId int | SelPath relpath

definition parse_selector :: "string \<Rightarrow> string \<Rightarrow> command_error + selector" where
  "parse_selector raw base = (case parse_i64 raw of
      Some i \<Rightarrow> Inr (SelId i)
    | None \<Rightarrow> map_sum id SelPath (to_relpath base raw))"

definition pick_newest_on_path :: "conflict_record list \<Rightarrow> relpath \<Rightarrow> command_error + conflict_record \<times> int list" where
  "pick_newest_on_path unresolved path =
     (case rev (sort_key (\<lambda>r. (cn_wall_ms r, cn_id r)) (rev (filter (\<lambda>r. cn_path r = path) unresolved))) of
        [] \<Rightarrow> Inl (NoneOnPath path)
      | chosen # others \<Rightarrow> Inr (chosen, map cn_id others))"

definition find_record :: "conflict_record list \<Rightarrow> int \<Rightarrow> command_error + conflict_record" where
  "find_record records i = (case List.find (\<lambda>r. cn_id r = i) records of None \<Rightarrow> Inl (NoSuchConflict i) | Some r \<Rightarrow> Inr r)"

definition select_unresolved :: "database \<Rightarrow> selector \<Rightarrow> command_error + conflict_record" where
  "select_unresolved db sel = (case lift_store (conflicts_of db True) of Inl e \<Rightarrow> Inl e
     | Inr unresolved \<Rightarrow> (case sel of
          SelId i \<Rightarrow> find_record unresolved i
        | SelPath path \<Rightarrow> map_sum id fst (pick_newest_on_path unresolved path)))"

definition select_for_show :: "database \<Rightarrow> selector \<Rightarrow> command_error + conflict_record" where
  "select_for_show db sel = (case sel of
      SelId i \<Rightarrow> (case lift_store (conflicts_of db False) of Inl e \<Rightarrow> Inl e | Inr rs \<Rightarrow> find_record rs i)
    | SelPath path \<Rightarrow> (case lift_store (conflicts_of db True) of Inl e \<Rightarrow> Inl e
        | Inr rs \<Rightarrow> map_sum id fst (pick_newest_on_path rs path)))"

definition find_meta :: "version_meta list \<Rightarrow> int \<Rightarrow> command_error + version_meta" where
  "find_meta vers i = (case List.find (\<lambda>v. vm_id v = i) vers of None \<Rightarrow> Inl (VersionMissing i) | Some v \<Rightarrow> Inr v)"

definition conflict_heads :: "store_api \<Rightarrow> history_store \<Rightarrow> conflict_record \<Rightarrow> command_error + version_meta \<times> version_meta" where
  "conflict_heads api hs record = (case lift_store (log_of api hs (cn_path record)) of Inl e \<Rightarrow> Inl e
     | Inr vers \<Rightarrow> (case find_meta vers (cn_winner record) of Inl e \<Rightarrow> Inl e
     | Inr win \<Rightarrow> (case find_meta vers (cn_loser record) of Inl e \<Rightarrow> Inl e | Inr los \<Rightarrow> Inr (win, los))))"

fun join_heads :: "store_api \<Rightarrow> history_store \<Rightarrow> conflict_record list \<Rightarrow> command_error + (conflict_record \<times> version_meta \<times> version_meta) list" where
  "join_heads api hs [] = Inr []"
| "join_heads api hs (r # rs) = (case conflict_heads api hs r of Inl e \<Rightarrow> Inl e
     | Inr h \<Rightarrow> (case join_heads api hs rs of Inl e \<Rightarrow> Inl e | Inr out \<Rightarrow> Inr ((r, h) # out)))"

definition run_list :: "store_api \<Rightarrow> workspace \<Rightarrow> bool \<Rightarrow> command_error + (conflict_record \<times> version_meta \<times> version_meta) list" where
  "run_list api ws all = (case require_initialized ws of Some e \<Rightarrow> Inl e
     | None \<Rightarrow> (case ws_store ws of None \<Rightarrow> Inr []
     | Some hs \<Rightarrow> (case lift_store (conflicts_of (hs_db hs) (\<not> all)) of Inl e \<Rightarrow> Inl e
     | Inr records \<Rightarrow> join_heads api hs records)))"

text \<open>The diff shown for a conflict, loser to winner; none for a deletion, binary or large content.\<close>

definition compute_diff :: "store_api \<Rightarrow> history_store \<Rightarrow> version_meta \<Rightarrow> version_meta \<Rightarrow> command_error + string list option" where
  "compute_diff api hs win los = (case (vm_state los, vm_state win) of
      (Present _, Present _) \<Rightarrow> (case lift_store (get_content api (hs_db hs) (vm_id los)) of Inl e \<Rightarrow> Inl e
        | Inr lb \<Rightarrow> (case lift_store (get_content api (hs_db hs) (vm_id win)) of Inl e \<Rightarrow> Inl e
        | Inr wb \<Rightarrow> if diffable lb wb then Inr (Some (line_diff (bytes_str lb) (bytes_str wb) DIFF_MAX_LINES)) else Inr None))
    | _ \<Rightarrow> Inr None)"

definition run_show :: "store_api \<Rightarrow> workspace \<Rightarrow> string \<Rightarrow> command_error + conflict_record \<times> (version_meta \<times> version_meta) \<times> string list option" where
  "run_show api ws target = (case require_initialized ws of Some e \<Rightarrow> Inl e
     | None \<Rightarrow> (case parse_selector target (ws_root ws) of Inl e \<Rightarrow> Inl e
     | Inr sel \<Rightarrow> (case open_readonly_required ws of Inl e \<Rightarrow> Inl e
     | Inr hs \<Rightarrow> (case select_for_show (hs_db hs) sel of Inl e \<Rightarrow> Inl e
     | Inr record \<Rightarrow> (case conflict_heads api hs record of Inl e \<Rightarrow> Inl e
     | Inr (win, los) \<Rightarrow> map_sum id (\<lambda>diff. (record, (win, los), diff)) (compute_diff api hs win los))))))"

section \<open>Comparing versions\<close>

datatype diff_outcome = Identical | Undiffable | Different "string list"

definition diff_contents :: "bytes \<Rightarrow> bytes \<Rightarrow> nat \<Rightarrow> diff_outcome" where
  "diff_contents a b max_lines =
     (if a = b then Identical else if \<not> diffable a b then Undiffable else Different (line_diff (bytes_str a) (bytes_str b) max_lines))"

definition version_by_id :: "version_meta list \<Rightarrow> string \<Rightarrow> command_error + version_meta" where
  "version_by_id vers raw = (case parse_i64 raw of None \<Rightarrow> Inl (BadVersionId raw) | Some i \<Rightarrow> find_meta vers i)"

definition recorded_bytes :: "store_api \<Rightarrow> history_store \<Rightarrow> version_meta \<Rightarrow> command_error + bytes" where
  "recorded_bytes api hs m = (case vm_state m of
      Present _ \<Rightarrow> lift_store (get_content api (hs_db hs) (vm_id m)) | Tombstone \<Rightarrow> Inr [])"

definition working_bytes :: "tree \<Rightarrow> relpath \<Rightarrow> command_error + bytes" where
  "working_bytes t rel =
     (if parent_file t (parents rel) \<noteq> None then Inl (ReadFailed rel)
      else case bm_get t rel of Some (FileNode bs _ _) \<Rightarrow> Inr bs | Some DirNode \<Rightarrow> Inl (ReadFailed rel) | None \<Rightarrow> Inr [])"

definition run_diff :: "store_api \<Rightarrow> workspace \<Rightarrow> string \<Rightarrow> string option \<Rightarrow> string option \<Rightarrow> command_error + diff_outcome" where
  "run_diff api ws arg version against = (case run_log api ws arg None of Inl e \<Rightarrow> Inl e
     | Inr (rel, vers) \<Rightarrow> (let hs = open_store ws in
         case (case version of Some raw \<Rightarrow> version_by_id vers raw | None \<Rightarrow> Inr (hd vers)) of Inl e \<Rightarrow> Inl e
       | Inr old \<Rightarrow> (case recorded_bytes api hs old of Inl e \<Rightarrow> Inl e
       | Inr a \<Rightarrow> (case (case against of
             Some raw \<Rightarrow> (case version_by_id vers raw of Inl e \<Rightarrow> Inl e | Inr m \<Rightarrow> recorded_bytes api hs m)
           | None \<Rightarrow> working_bytes (ws_tree ws) rel) of Inl e \<Rightarrow> Inl e
       | Inr b \<Rightarrow> Inr (diff_contents a b DIFF_MAX_LINES)))))"

definition version_diff :: "store_api \<Rightarrow> workspace \<Rightarrow> string \<Rightarrow> int \<Rightarrow> int \<Rightarrow> command_error + diff_outcome" where
  "version_diff api ws path v_from v_to = (case run_log api ws path None of Inl e \<Rightarrow> Inl e
     | Inr (rel, vers) \<Rightarrow> (let hs = open_store ws in
         case find_meta vers v_from of Inl e \<Rightarrow> Inl e
       | Inr old \<Rightarrow> (case find_meta vers v_to of Inl e \<Rightarrow> Inl e
       | Inr new \<Rightarrow> (case recorded_bytes api hs old of Inl e \<Rightarrow> Inl e
       | Inr a \<Rightarrow> (case recorded_bytes api hs new of Inl e \<Rightarrow> Inl e
       | Inr b \<Rightarrow> Inr (diff_contents a b DIFF_MAX_LINES))))))"

section \<open>Resolving a conflict\<close>

definition with_db :: "workspace \<Rightarrow> history_store \<Rightarrow> database \<Rightarrow> workspace" where
  "with_db ws hs db = ws\<lparr>ws_store := Some (hs\<lparr>hs_db := db\<rparr>)\<rparr>"

text \<open>The flag says whether the conflict was unresolved before.\<close>

definition ack_one :: "workspace \<Rightarrow> history_store \<Rightarrow> conflict_record \<Rightarrow> (relpath \<times> bool) command_result" where
  "ack_one ws hs record = (case mark_conflict_resolved (hs_db hs) (cn_id record) of
      (db, newly) \<Rightarrow> (with_db ws hs db, Inr (cn_path record, newly)))"

text \<open>Marking a conflict after a file has been written for it. The database may be locked by
  another process beyond the busy timeout, or be full; the file then stays, and the conflict
  stays unresolved. (Where nothing has been written before, as in \<open>ack_one\<close>, such a failure
  only ends the command and is left out.)\<close>

definition mark_after_write :: "disk_api \<Rightarrow> workspace \<Rightarrow> history_store \<Rightarrow> conflict_record \<Rightarrow> 'r \<Rightarrow> 'r command_result" where
  "mark_after_write d ws hs record r =
     (if dk_mark_fails d (cn_id record) then (ws, Inl (StoreFailed SqliteUnavailable))
      else (with_db ws hs (fst (mark_conflict_resolved (hs_db hs) (cn_id record))), Inr r))"

definition take_loser_one :: "disk_api \<Rightarrow> workspace \<Rightarrow> history_store \<Rightarrow> conflict_record \<Rightarrow> relpath command_result" where
  "take_loser_one d ws hs record = (case conflict_heads (dk_store d) hs record of Inl e \<Rightarrow> (ws, Inl e)
     | Inr (_, los) \<Rightarrow>
         (case (case vm_state los of
              Present sig \<Rightarrow> (case get_content (dk_store d) (hs_db hs) (vm_id los) of
                  Inl e \<Rightarrow> (ws_tree ws, Some (StoreFailed e))
                | Inr bs \<Rightarrow> apply_present d (ws_tree ws) (cn_path record) sig bs)
            | Tombstone \<Rightarrow> apply_absent d (ws_tree ws) (cn_path record)) of
           (t, Some e) \<Rightarrow> (ws\<lparr>ws_tree := t\<rparr>, Inl e)
         | (t, None) \<Rightarrow> mark_after_write d (ws\<lparr>ws_tree := t\<rparr>) hs record (cn_path record)))"

text \<open>The first free sidecar name; the counter is a u32.\<close>

definition sidecar_numbered :: "string \<Rightarrow> u32 \<Rightarrow> string" where
  "sidecar_numbered b n = b @ ''.theirs-'' @ decimal (unat n)"

partial_function (option) sidecar_from :: "string \<Rightarrow> (string \<Rightarrow> bool) \<Rightarrow> u32 \<Rightarrow> string option" where
  "sidecar_from b present n =
     (if \<not> present (sidecar_numbered b n) then Some (sidecar_numbered b n) else sidecar_from b present (n + 1))"

definition sidecar_name :: "string \<Rightarrow> (string \<Rightarrow> bool) \<Rightarrow> string option" where
  "sidecar_name b present = (if \<not> present (b @ ''.theirs'') then Some (b @ ''.theirs'') else sidecar_from b present 2)"

text \<open>\<^verbatim>\<open>Path::exists\<close> of a name that is a project path. The tree holds files and directories, no
  symbolic links; the code follows one, so a name taken only by a link that leads nowhere
  counts as free there.\<close>

definition name_present :: "tree \<Rightarrow> string \<Rightarrow> bool" where
  "name_present t cand = (case relpath_new cand of Inr p \<Rightarrow> bm_get t p \<noteq> None | Inl _ \<Rightarrow> False)"

definition both_one :: "disk_api \<Rightarrow> workspace \<Rightarrow> history_store \<Rightarrow> conflict_record \<Rightarrow> (relpath \<times> relpath) command_result" where
  "both_one d ws hs record = (case conflict_heads (dk_store d) hs record of Inl e \<Rightarrow> (ws, Inl e)
     | Inr (_, los) \<Rightarrow> (case vm_state los of
         Tombstone \<Rightarrow> (ws, Inl (LoserIsDeletion (cn_id record)))
       | Present sig \<Rightarrow> (case get_content (dk_store d) (hs_db hs) (vm_id los) of
             Inl e \<Rightarrow> (ws, Inl (StoreFailed e))
           | Inr bs \<Rightarrow> (case sidecar_name (as_str (cn_path record)) (name_present (ws_tree ws)) of
                 None \<Rightarrow> (ws, Inl NeverReturns)
               | Some name \<Rightarrow> (case relpath_new name of
                     Inl e \<Rightarrow> (ws, Inl (SidecarPath e))
                   | Inr sidecar \<Rightarrow> (case apply_present d (ws_tree ws) sidecar sig bs of
                         (t, Some e) \<Rightarrow> (ws\<lparr>ws_tree := t\<rparr>, Inl e)
                       | (t, None) \<Rightarrow> mark_after_write d (ws\<lparr>ws_tree := t\<rparr>) hs record (cn_path record, sidecar)))))))"

datatype resolution = Acked relpath bool | Took relpath | Kept relpath relpath

definition apply_kind :: "disk_api \<Rightarrow> workspace \<Rightarrow> history_store \<Rightarrow> conflict_record \<Rightarrow> resolve_kind \<Rightarrow> resolution command_result" where
  "apply_kind d ws hs record kind = (case kind of
      KeepCurrent \<Rightarrow> apsnd (map_sum id (\<lambda>(p, newly). Acked p newly)) (ack_one ws hs record)
    | TakeLoser \<Rightarrow> apsnd (map_sum id Took) (take_loser_one d ws hs record)
    | KeepBoth \<Rightarrow> apsnd (map_sum id (\<lambda>(p, s). Kept p s)) (both_one d ws hs record))"

text \<open>Acknowledging all: the number newly resolved.\<close>

fun mark_all :: "database \<Rightarrow> conflict_record list \<Rightarrow> database \<times> nat" where
  "mark_all db [] = (db, 0)"
| "mark_all db (r # rs) = (case mark_conflict_resolved db (cn_id r) of
      (db, newly) \<Rightarrow> apsnd (\<lambda>n. n + of_bool newly) (mark_all db rs))"

datatype resolve_result = Resolved resolution | AckedAll nat

definition run_resolve ::
    "disk_api \<Rightarrow> workspace \<Rightarrow> string option \<Rightarrow> bool \<Rightarrow> bool \<Rightarrow> bool \<Rightarrow> bool \<Rightarrow> resolve_result command_result" where
  "run_resolve d ws target keep_current take_loser both all = (case require_initialized ws of Some e \<Rightarrow> (ws, Inl e)
     | None \<Rightarrow> (case plan_resolve target keep_current take_loser both all of Inl e \<Rightarrow> (ws, Inl e)
     | Inr mode \<Rightarrow> (let hs = open_store ws; ws = ws\<lparr>ws_store := Some hs\<rparr> in
         case mode of
           KeepAll \<Rightarrow> (case lift_store (conflicts_of (hs_db hs) True) of Inl e \<Rightarrow> (ws, Inl e)
             | Inr rs \<Rightarrow> (case mark_all (hs_db hs) rs of (db, n) \<Rightarrow> (with_db ws hs db, Inr (AckedAll n))))
         | Single raw kind \<Rightarrow> (case parse_selector raw (ws_root ws) of Inl e \<Rightarrow> (ws, Inl e)
             | Inr sel \<Rightarrow> (case select_unresolved (hs_db hs) sel of Inl e \<Rightarrow> (ws, Inl e)
             | Inr record \<Rightarrow> apsnd (map_sum id Resolved) (apply_kind d ws hs record kind))))))"

section \<open>The control channel\<close>

definition ctl_record :: "workspace \<Rightarrow> int \<Rightarrow> command_error + history_store \<times> conflict_record" where
  "ctl_record ws i = (case require_initialized ws of Some e \<Rightarrow> Inl e
     | None \<Rightarrow> (case lift_store (conflicts_of (hs_db (open_store ws)) False) of Inl e \<Rightarrow> Inl e
     | Inr rs \<Rightarrow> map_sum id (Pair (open_store ws)) (find_record rs i)))"

definition opened :: "workspace \<Rightarrow> workspace" where
  "opened ws = (if ws_initialized ws then ws\<lparr>ws_store := Some (open_store ws)\<rparr> else ws)"

definition ack_conflict_ctl :: "workspace \<Rightarrow> int \<Rightarrow> (relpath \<times> bool) command_result" where
  "ack_conflict_ctl ws i = (case ctl_record ws i of Inl e \<Rightarrow> (opened ws, Inl e) | Inr (hs, r) \<Rightarrow> ack_one (opened ws) hs r)"

definition take_loser_ctl :: "disk_api \<Rightarrow> workspace \<Rightarrow> int \<Rightarrow> relpath command_result" where
  "take_loser_ctl d ws i = (case ctl_record ws i of Inl e \<Rightarrow> (opened ws, Inl e) | Inr (hs, r) \<Rightarrow> take_loser_one d (opened ws) hs r)"

definition both_ctl :: "disk_api \<Rightarrow> workspace \<Rightarrow> int \<Rightarrow> (relpath \<times> relpath) command_result" where
  "both_ctl d ws i = (case ctl_record ws i of Inl e \<Rightarrow> (opened ws, Inl e) | Inr (hs, r) \<Rightarrow> both_one d (opened ws) hs r)"

definition unresolve_ctl :: "workspace \<Rightarrow> int \<Rightarrow> (relpath \<times> bool) command_result" where
  "unresolve_ctl ws i = (case ctl_record ws i of Inl e \<Rightarrow> (opened ws, Inl e)
     | Inr (hs, r) \<Rightarrow> (case mark_conflict_unresolved (hs_db hs) (cn_id r) of
         (db, newly) \<Rightarrow> (with_db (opened ws) hs db, Inr (cn_path r, newly))))"

section \<open>The interactive loop\<close>

datatype choice = ChooseKeep | ChooseTake | ChooseBoth | Skip | Quit

definition parse_choice :: "string \<Rightarrow> choice option" where
  "parse_choice input =
     (let a = to_ascii_lower (trim input)
      in if a = ''k'' \<or> a = ''keep'' then Some ChooseKeep
         else if a = ''t'' \<or> a = ''take'' then Some ChooseTake
         else if a = ''b'' \<or> a = ''both'' then Some ChooseBoth
         else if a = ''s'' \<or> a = ''skip'' then Some Skip
         else if a = ''q'' \<or> a = ''quit'' then Some Quit
         else None)"

fun read_choice :: "string list \<Rightarrow> choice option \<times> string list" where
  "read_choice [] = (None, [])"
| "read_choice (line # ls) = (case parse_choice line of Some c \<Rightarrow> (Some c, ls) | None \<Rightarrow> read_choice ls)"

definition choice_kind :: "choice \<Rightarrow> resolve_kind option" where
  "choice_kind c = (case c of ChooseKeep \<Rightarrow> Some KeepCurrent | ChooseTake \<Rightarrow> Some TakeLoser | ChooseBoth \<Rightarrow> Some KeepBoth | _ \<Rightarrow> None)"

record tally =
  tl_resolved :: nat
  tl_skipped :: nat
  tl_stopped :: bool

fun interactive_loop :: "disk_api \<Rightarrow> workspace \<Rightarrow> conflict_record list \<Rightarrow> string list \<Rightarrow> nat \<times> nat \<Rightarrow> tally command_result" where
  "interactive_loop d ws [] input (done, skipped) = (ws, Inr \<lparr>tl_resolved = done, tl_skipped = skipped, tl_stopped = False\<rparr>)"
| "interactive_loop d ws (r # rs) input (done, skipped) =
     (case conflict_heads (dk_store d) (open_store ws) r of Inl e \<Rightarrow> (ws, Inl e)
      | Inr (win, los) \<Rightarrow> (case compute_diff (dk_store d) (open_store ws) win los of Inl e \<Rightarrow> (ws, Inl e)
      | Inr _ \<Rightarrow> (case read_choice input of
          (None, _) \<Rightarrow> (ws, Inr \<lparr>tl_resolved = done, tl_skipped = skipped, tl_stopped = True\<rparr>)
        | (Some c, rest) \<Rightarrow>
            if c = Quit then (ws, Inr \<lparr>tl_resolved = done, tl_skipped = skipped, tl_stopped = True\<rparr>)
            else (case choice_kind c of
                None \<Rightarrow> interactive_loop d ws rs rest (done, skipped + 1)
              | Some kind \<Rightarrow> (case apply_kind d ws (open_store ws) r kind of
                    (ws, Inl e) \<Rightarrow> (ws, Inl e)
                  | (ws, Inr _) \<Rightarrow> interactive_loop d ws rs rest (done + 1, skipped))))))"

definition run_interactive :: "disk_api \<Rightarrow> workspace \<Rightarrow> bool \<Rightarrow> string list \<Rightarrow> tally command_result" where
  "run_interactive d ws is_terminal input =
     (if \<not> is_terminal then (ws, Inl NeedsTerminal)
      else let hs = open_store ws; ws = ws\<lparr>ws_store := Some hs\<rparr> in
        case lift_store (conflicts_of (hs_db hs) True) of Inl e \<Rightarrow> (ws, Inl e)
      | Inr records \<Rightarrow> interactive_loop d ws records input (0, 0))"

end
