(* ===== verification/Tomo_Resolve.thy ===== *)
theory Tomo_Resolve
  imports Tomo_Commands
begin

text \<open>
  What the commands of \<^theory_text>\<open>Tomo_Commands\<close> do to the files: taking a conflict's loser, keeping
  both sides (with the search for a free name), the control channel against the command line,
  and restoring a recorded version; at the end the commands on a small workspace.
\<close>

section \<open>The effect on the files\<close>

lemma create_dir_all_same: "create_dir_all t as = Some t' \<Longrightarrow> file_bytes t' p = file_bytes t p"
  by (induction t as rule: create_dir_all.induct) (auto simp: file_bytes_def split: option.splits node.splits if_splits)

lemma apply_present_ok:
  "apply_present d t p sig bs = (t', None) \<Longrightarrow> matches_sig (sa_blake3 (dk_store d)) bs sig \<and>
     bm_get t' p = Some (FileNode bs (sig_exec sig) (dk_mtime_ms d)) \<and> (\<forall>q. q \<noteq> p \<longrightarrow> file_bytes t' q = file_bytes t q)"
  by (auto simp: apply_present_def create_dir_all_same split: if_splits option.splits)

lemma apply_absent_ok:
  "apply_absent d t p = (t', None) \<Longrightarrow> file_bytes t' p = None \<and> (\<forall>q. q \<noteq> p \<longrightarrow> file_bytes t' q = file_bytes t q)"
  by (auto simp: apply_absent_def prune_empty_parents_def prune_dirs_files split: if_splits)

text \<open>What a command that wrote a recorded state back has done to the files.\<close>

definition wrote_state :: "disk_api \<Rightarrow> database \<Rightarrow> tree \<Rightarrow> tree \<Rightarrow> relpath \<Rightarrow> version_meta \<Rightarrow> bool" where
  "wrote_state d db t t' p m \<longleftrightarrow> (\<forall>q. q \<noteq> p \<longrightarrow> file_bytes t' q = file_bytes t q) \<and>
     (case vm_state m of
        Tombstone \<Rightarrow> file_bytes t' p = None
      | Present sig \<Rightarrow> (\<exists>bs. get_content (dk_store d) db (vm_id m) = Inr bs \<and> matches_sig (sa_blake3 (dk_store d)) bs sig \<and>
          bm_get t' p = Some (FileNode bs (sig_exec sig) (dk_mtime_ms d))))"

lemma restore_target_wrote:
  "restore_target d ws hs rel m = (ws', Inr r) \<Longrightarrow>
     wrote_state d (hs_db hs) (ws_tree ws) (ws_tree ws') rel m \<and> ws' = ws\<lparr>ws_tree := ws_tree ws'\<rparr> \<and> rr_path r = rel \<and> rr_version r = vm_id m"
  by (auto simp: restore_target_def wrote_state_def dest!: apply_present_ok apply_absent_ok
      split: entry_state.splits sum.splits prod.splits option.splits)

text \<open>The conflicts after one was resolved.\<close>

definition acked :: "int \<Rightarrow> database \<Rightarrow> database \<Rightarrow> bool" where
  "acked i db db' \<longleftrightarrow> db' = db\<lparr>db_conflicts := map (\<lambda>c. if cf_id c = i \<and> cf_resolved c = 0 then c\<lparr>cf_resolved := 1\<rparr> else c) (db_conflicts db)\<rparr>"

lemma mark_acked: "acked i db (fst (mark_conflict_resolved db i))"
  by (simp add: acked_def mark_conflict_resolved_def set_resolved_def)

lemma get_content_conflicts [simp]: "get_content api (db\<lparr>db_conflicts := cs\<rparr>) i = get_content api db i"
proof -
  have "read_chunk_row api (db\<lparr>db_conflicts := cs\<rparr>) i = read_chunk_row api db i" by (simp add: read_chunk_row_def fun_eq_iff)
  moreover have "db_versions (db\<lparr>db_conflicts := cs\<rparr>) = db_versions db" by simp
  ultimately show ?thesis unfolding get_content_def find_version_def by (simp only:)
qed

lemma acked_content: "acked i db db' \<Longrightarrow> get_content api db' v = get_content api db v"
  by (auto simp: acked_def)

text \<open>Taking the loser of a conflict adopts exactly it. If the command succeeds, the file has the
  bytes and the executable bit of the losing version (or is gone, if that was a deletion), no
  other file has changed, the conflict and no other is marked resolved, and every version in
  the history, the winner's included, reads as before.\<close>

theorem take_loser_adopts:
  assumes "take_loser_one d ws hs record = (ws', Inr p)"
  shows "\<exists>win los db'. conflict_heads (dk_store d) hs record = Inr (win, los) \<and> p = cn_path record \<and>
    wrote_state d (hs_db hs) (ws_tree ws) (ws_tree ws') p los \<and> ws_store ws' = Some (hs\<lparr>hs_db := db'\<rparr>) \<and>
    acked (cn_id record) (hs_db hs) db' \<and> (\<forall>v. get_content (dk_store d) db' v = get_content (dk_store d) (hs_db hs) v)"
proof -
  obtain win los where h: "conflict_heads (dk_store d) hs record = Inr (win, los)"
    using assms by (auto simp: take_loser_one_def split: sum.splits)
  let ?db = "fst (mark_conflict_resolved (hs_db hs) (cn_id record))"
  have w: "p = cn_path record" "ws_store ws' = Some (hs\<lparr>hs_db := ?db\<rparr>)" "wrote_state d (hs_db hs) (ws_tree ws) (ws_tree ws') (cn_path record) los"
    using assms h
    by (auto simp: take_loser_one_def mark_after_write_def wrote_state_def with_db_def dest!: apply_present_ok apply_absent_ok
        split: entry_state.splits sum.splits prod.splits option.splits if_splits)
  show ?thesis using h w mark_acked [of "cn_id record" "hs_db hs"] acked_content [OF mark_acked]
    by (intro exI [of _ win] exI [of _ los] exI [of _ ?db]) auto
qed

section \<open>Keeping both\<close>

lemma sidecar_from_free:
  assumes "sidecar_from b present n = Some s"
  shows "\<not> present s"
  using assms by (rule sidecar_from.raw_induct [rotated]) (auto split: if_splits)

lemma sidecar_name_free: "sidecar_name b present = Some s \<Longrightarrow> \<not> present s"
  by (auto simp: sidecar_name_def dest: sidecar_from_free split: if_splits)

lemma relpath_new_str: "relpath_new s = Inr p \<Longrightarrow> as_str p = s"
  by (auto simp: relpath_new_def split: if_splits sum.splits)

lemma sidecar_longer: "sidecar_name b present = Some s \<Longrightarrow> length b < length s"
proof -
  have "sidecar_from b present n = Some s \<Longrightarrow> length b < length s" for n
    by (erule sidecar_from.raw_induct [rotated]) (auto simp: sidecar_numbered_def split: if_splits)
  then show "sidecar_name b present = Some s \<Longrightarrow> length b < length s" by (auto simp: sidecar_name_def split: if_splits)
qed

section \<open>A free name is found\<close>

lemma sidecar_numbered_inject: "sidecar_numbered b m = sidecar_numbered b n \<longleftrightarrow> m = n"
proof
  assume "sidecar_numbered b m = sidecar_numbered b n"
  then have "decimal (unat m) = decimal (unat n)" by (simp add: sidecar_numbered_def)
  then have "unat m = unat n" by (metis digits_value_decimal)
  then show "m = n" by (simp add: word_unat_eq_iff)
qed simp

lemma sidecar_from_reaches:
  assumes "\<not> present (sidecar_numbered b (word_of_nat k))" "m \<le> k" "k < 2 ^ 32"
  shows "sidecar_from b present (word_of_nat m) \<noteq> None"
  using assms(2)
proof (induction "k - m" arbitrary: m)
  case 0
  then have "m = k" by simp
  then show ?case using assms(1) by (subst sidecar_from.simps) simp
next
  case (Suc d)
  have "word_of_nat m + 1 = (word_of_nat (m + 1) :: u32)" by simp
  moreover have "sidecar_from b present (word_of_nat (m + 1)) \<noteq> None" using Suc by (intro Suc.hyps(1)) auto
  ultimately show ?case by (subst sidecar_from.simps) (simp add: add.commute)
qed

text \<open>The search for a sidecar name ends. Below 2^32 - 2 entries in the project a free name is
  found, although the loop has no bound and its counter wraps around.\<close>

lemma free_name:
  assumes "length (bm_keys t) < 2 ^ 32 - 2"
  shows "\<exists>s. sidecar_name b (name_present t) = Some s \<and> \<not> name_present t s"
proof -
  let ?name = "\<lambda>k. sidecar_numbered b (word_of_nat k)"
  have "\<exists>k \<in> {2 ..< 2 ^ 32}. \<not> name_present t (?name k)"
  proof (rule ccontr)
    assume "\<not> ?thesis"
    then have all: "name_present t (?name k)" if "k \<in> {2 ..< 2 ^ 32}" for k using that by blast
    have key: "RelPath s \<in> set (bm_keys t)" if "name_present t s" for s
      using that relpath_new_str [of s] by (cases "relpath_new s") (auto simp: name_present_def set_bm_keys)
    have "RelPath ` ?name ` {2 ..< 2 ^ 32} \<subseteq> set (bm_keys t)" using key all by blast
    then have "card (RelPath ` ?name ` {2 ..< 2 ^ 32 :: nat}) \<le> length (bm_keys t)"
      by (meson card_length card_mono le_trans List.finite_set)
    moreover
    have "inj_on (RelPath \<circ> ?name) {2 ..< 2 ^ 32}"
    proof (rule inj_onI)
      fix x y :: nat
      assume "x \<in> {2 ..< 2 ^ 32}" "y \<in> {2 ..< 2 ^ 32}" "(RelPath \<circ> ?name) x = (RelPath \<circ> ?name) y"
      then have "(word_of_nat x :: u32) = word_of_nat y" "x < 2 ^ 32" "y < 2 ^ 32" by (simp_all add: sidecar_numbered_inject)
      moreover have "unat (word_of_nat k :: u32) = k" if "k < 2 ^ 32" for k using that by (simp add: unat_of_nat)
      ultimately show "x = y" by metis
    qed
    from card_image [OF this] have "card (RelPath ` ?name ` {2 ..< 2 ^ 32 :: nat}) = 2 ^ 32 - 2"
      by (simp only: image_comp card_atLeastLessThan)
    ultimately show False using assms by simp
  qed
  then obtain k where k: "2 \<le> k" "k < 2 ^ 32" "\<not> name_present t (?name k)" by auto
  from sidecar_from_reaches [of "name_present t" b k 2, OF k(3,1,2)]
  have "sidecar_from b (name_present t) 2 \<noteq> None" by simp
  then have "sidecar_name b (name_present t) \<noteq> None" by (auto simp: sidecar_name_def)
  then show ?thesis using sidecar_name_free by blast
qed

section \<open>Nothing is overwritten\<close>

lemma conflict_heads_returns [simp]: "conflict_heads api hs r \<noteq> Inl NeverReturns"
  by (auto simp: conflict_heads_def lift_store_def find_meta_def split: sum.splits option.splits)

lemma apply_present_failed:
  "apply_present d t p sig bs = (t', Some e) \<Longrightarrow> e \<noteq> NeverReturns \<and> (\<forall>q. file_bytes t' q = file_bytes t q)"
  by (auto simp: apply_present_def create_dir_all_same split: if_splits option.splits stage_outcome.splits)

text \<open>The sidecar has been written, and nothing else.\<close>

definition sidecar_written :: "disk_api \<Rightarrow> history_store \<Rightarrow> conflict_record \<Rightarrow> tree \<Rightarrow> tree \<Rightarrow> relpath \<Rightarrow> bool" where
  "sidecar_written d hs cr t t' sidecar \<longleftrightarrow> sidecar \<noteq> cn_path cr \<and> bm_get t sidecar = None \<and>
     (\<forall>q. q \<noteq> sidecar \<longrightarrow> file_bytes t' q = file_bytes t q) \<and>
     (\<exists>win los. conflict_heads (dk_store d) hs cr = Inr (win, los) \<and> wrote_state d (hs_db hs) t t' sidecar los \<and> vm_state los \<noteq> Tombstone)"

lemma mark_after_write_effect:
  assumes "mark_after_write d ws hs cr x = (ws', r)"
  shows "ws_tree ws' = ws_tree ws \<and>
    (if dk_mark_fails d (cn_id cr) then r = Inl (StoreFailed SqliteUnavailable) \<and> ws_store ws' = ws_store ws
     else r = Inr x \<and> ws_store ws' = Some (hs\<lparr>hs_db := fst (mark_conflict_resolved (hs_db hs) (cn_id cr))\<rparr>))"
  using assms by (auto simp: mark_after_write_def with_db_def)

lemma both_one_cases:
  assumes "both_one d ws hs record = (ws', r)" "length (bm_keys (ws_tree ws)) < 2 ^ 32 - 2"
  obtains (unwritten) e where "r = Inl e" "e \<noteq> NeverReturns" "\<forall>q. file_bytes (ws_tree ws') q = file_bytes (ws_tree ws) q" "ws_store ws' = ws_store ws"
  | (wrote) sidecar t where "sidecar_written d hs record (ws_tree ws) t sidecar"
      "mark_after_write d (ws\<lparr>ws_tree := t\<rparr>) hs record (cn_path record, sidecar) = (ws', r)"
proof -
  obtain name where n: "sidecar_name (as_str (cn_path record)) (name_present (ws_tree ws)) = Some name" using free_name [OF assms(2)] by blast
  show thesis
  proof (cases "conflict_heads (dk_store d) hs record")
    case (Inl e)
    then have "ws' = ws" "r = Inl e" using assms(1) by (simp_all add: both_one_def)
    moreover have "e \<noteq> NeverReturns" using Inl by auto
    ultimately show thesis using unwritten by blast
  next
    case (Inr heads)
    obtain win los where h: "conflict_heads (dk_store d) hs record = Inr (win, los)" using Inr by (cases heads) simp
    show thesis
    proof (cases "\<exists>sig bs sidecar t. vm_state los = Present sig \<and> get_content (dk_store d) (hs_db hs) (vm_id los) = Inr bs \<and>
        relpath_new name = Inr sidecar \<and> apply_present d (ws_tree ws) sidecar sig bs = (t, None)")
      case True
      then obtain sig bs sidecar t where l: "vm_state los = Present sig" "get_content (dk_store d) (hs_db hs) (vm_id los) = Inr bs"
          "relpath_new name = Inr sidecar" "apply_present d (ws_tree ws) sidecar sig bs = (t, None)" by blast
      have "bm_get (ws_tree ws) sidecar = None" using sidecar_name_free [OF n] l(3) by (simp add: name_present_def)
      moreover have "sidecar \<noteq> cn_path record" using sidecar_longer [OF n] relpath_new_str [OF l(3)] by auto
      moreover have "wrote_state d (hs_db hs) (ws_tree ws) t sidecar los" using apply_present_ok [OF l(4)] l(1,2) by (simp add: wrote_state_def)
      ultimately have "sidecar_written d hs record (ws_tree ws) t sidecar" using h l(1) by (auto simp: sidecar_written_def wrote_state_def)
      moreover have "mark_after_write d (ws\<lparr>ws_tree := t\<rparr>) hs record (cn_path record, sidecar) = (ws', r)"
        using assms(1) h n l by (simp add: both_one_def)
      ultimately show thesis by (rule wrote)
    next
      case False
      then have "\<exists>e. r = Inl e \<and> e \<noteq> NeverReturns \<and> (\<forall>q. file_bytes (ws_tree ws') q = file_bytes (ws_tree ws) q) \<and> ws_store ws' = ws_store ws"
        using assms(1) h n by (auto simp: both_one_def dest!: apply_present_failed split: entry_state.splits sum.splits prod.splits option.splits)
      then show thesis using unwritten by blast
    qed
  qed
qed

text \<open>C17: Keeping both overwrites nothing. Below 2^32 - 2 entries in the project the command
  returns. If it succeeds, the loser's bytes stand in a file that did not exist before, no other
  file has changed, the winner's included, and the conflict and no other is marked resolved.
  If it fails, nothing in the history has changed and either no file has, or the one step after
  the write has failed, marking the conflict (the database locked or full): then the new file
  stands there all the same, and still no other file has changed.\<close>

theorem keep_both_overwrites_nothing:
  assumes "length (bm_keys (ws_tree ws)) < 2 ^ 32 - 2"
  shows "case both_one d ws hs cr of
      (ws', Inl e) \<Rightarrow> e \<noteq> NeverReturns \<and> ws_store ws' = ws_store ws \<and>
        ((\<forall>q. file_bytes (ws_tree ws') q = file_bytes (ws_tree ws) q) \<or>
         dk_mark_fails d (cn_id cr) \<and> e = StoreFailed SqliteUnavailable \<and> (\<exists>sidecar. sidecar_written d hs cr (ws_tree ws) (ws_tree ws') sidecar))
    | (ws', Inr (p, sidecar)) \<Rightarrow> p = cn_path cr \<and> sidecar_written d hs cr (ws_tree ws) (ws_tree ws') sidecar \<and>
        (\<exists>db'. ws_store ws' = Some (hs\<lparr>hs_db := db'\<rparr>) \<and> acked (cn_id cr) (hs_db hs) db')"
proof -
  obtain ws' r where run: "both_one d ws hs cr = (ws', r)" by (cases "both_one d ws hs cr")
  from run assms show ?thesis
  proof (cases rule: both_one_cases)
    case unwritten
    then show ?thesis using run by simp
  next
    case (wrote sidecar t)
    then show ?thesis using run mark_after_write_effect [OF wrote(2)] mark_acked [of "cn_id cr" "hs_db hs"]
      by (cases "dk_mark_fails d (cn_id cr)") auto
  qed
qed

section \<open>The command line and the control channel\<close>

lemma conflict_records_filter:
  "conflict_records cs = Inr rs \<Longrightarrow> conflict_records (filter (\<lambda>c. cf_resolved c = 0) cs) = Inr (filter (\<lambda>r. \<not> cn_resolved r) rs)"
  by (induction cs arbitrary: rs) (auto split: sum.splits)

lemma find_record_eq:
  assumes "r \<in> set rs" "distinct (map cn_id rs)"
  shows "find_record rs (cn_id r) = Inr r" "find_record (filter P rs) (cn_id r) = (if P r then Inr r else Inl (NoSuchConflict (cn_id r)))"
proof -
  have "List.find (\<lambda>x. cn_id x = cn_id r) rs = Some r" by (rule find_distinct_key [OF assms(2,1)])
  then show "find_record rs (cn_id r) = Inr r" by (simp add: find_record_def)
  have "List.find (\<lambda>x. cn_id x = cn_id r) (filter P rs) = (if P r then Some r else None)"
  proof (cases "P r")
    case True
    have "distinct (map cn_id (filter P rs))" using assms(2) by (simp add: distinct_map_filter)
    from find_distinct_key [OF this, of r] show ?thesis using assms(1) True by simp
  next
    case False
    then have "\<forall>x \<in> set (filter P rs). cn_id x \<noteq> cn_id r" using assms by (auto dest: inj_onD simp: distinct_map)
    then show ?thesis using False by (simp add: find_None_iff)
  qed
  then show "find_record (filter P rs) (cn_id r) = (if P r then Inr r else Inl (NoSuchConflict (cn_id r)))" by (simp add: find_record_def)
qed

text \<open>The control channel resolves a conflict again. The command line acts on unresolved
  conflicts only and refuses the id of a resolved one, leaving everything as it is; the same
  request over the control channel takes the loser into the tree a second time. On unresolved
  conflicts the two do the same.\<close>

theorem control_channel_reresolves:
  assumes "ws_initialized ws" "ws_store ws = Some hs" "parse_i64 raw = Some (cn_id r)"
    and "conflicts_of (hs_db hs) False = Inr rs" "r \<in> set rs" "distinct (map cn_id rs)"
  shows "take_loser_ctl d ws (cn_id r) = take_loser_one d ws hs r \<and>
    run_resolve d ws (Some raw) False True False False =
      (if cn_resolved r then (ws, Inl (NoSuchConflict (cn_id r)))
       else apsnd (map_sum id (\<lambda>p. Resolved (Took p))) (take_loser_one d ws hs r))"
proof -
  have o: "open_store ws = hs" "opened ws = ws" "ws\<lparr>ws_store := Some hs\<rparr> = ws" using assms(1,2) by (simp_all add: open_store_def opened_def)
  have "conflicts_of (hs_db hs) True = Inr (filter (\<lambda>r. \<not> cn_resolved r) rs)"
    using assms(4) conflict_records_filter by (auto simp: conflicts_of_def)
  then have sel: "select_unresolved (hs_db hs) (SelId (cn_id r)) = (if cn_resolved r then Inl (NoSuchConflict (cn_id r)) else Inr r)"
    using find_record_eq(2) [OF assms(5,6)] by (simp add: select_unresolved_def lift_store_def)
  have "ctl_record ws (cn_id r) = Inr (hs, r)"
    using assms(1,4) find_record_eq(1) [OF assms(5,6)] o by (simp add: ctl_record_def require_initialized_def lift_store_def)
  then have "take_loser_ctl d ws (cn_id r) = take_loser_one d ws hs r" using o by (simp add: take_loser_ctl_def)
  moreover have "run_resolve d ws (Some raw) False True False False =
      (if cn_resolved r then (ws, Inl (NoSuchConflict (cn_id r)))
       else apsnd (map_sum id (\<lambda>p. Resolved (Took p))) (take_loser_one d ws hs r))"
    using assms(1,3) sel
    by (simp add: run_resolve_def require_initialized_def plan_resolve_def Let_def o parse_selector_def apply_kind_def)
      (cases "take_loser_one d ws hs r"; simp add: map_sum.compositionality comp_def id_def)
  ultimately show ?thesis by blast
qed

text \<open>Acknowledging and taking it back.\<close>

lemma flipped_count:
  "\<forall>c \<in> set cs. cf_id c = i \<longrightarrow> cf_resolved c = 0 \<Longrightarrow>
   length (filter (\<lambda>c. cf_id c = i \<and> cf_resolved c = 1) (map (\<lambda>c. if cf_id c = i \<and> cf_resolved c = 0 then c\<lparr>cf_resolved := 1\<rparr> else c) cs)) =
   length (filter (\<lambda>c. cf_id c = i \<and> cf_resolved c = 0) cs)"
  by (induction cs) auto

lemma unresolve_inverts:
  assumes "mark_conflict_resolved db i = (db', True)" "distinct (map cf_id (db_conflicts db))"
  shows "mark_conflict_unresolved db' i = (db, True)"
proof -
  let ?hit = "\<lambda>c. cf_id c = i \<and> cf_resolved c = 0"
  have n: "length (filter ?hit (db_conflicts db)) = 1"
    and db': "db' = db\<lparr>db_conflicts := map (\<lambda>c. if ?hit c then c\<lparr>cf_resolved := 1\<rparr> else c) (db_conflicts db)\<rparr>"
    using assms(1) by (auto simp: mark_conflict_resolved_def set_resolved_def)
  obtain c0 where c0: "c0 \<in> set (db_conflicts db)" "?hit c0" 
  proof -
    have "filter ?hit (db_conflicts db) \<noteq> []" using n by auto
    then obtain c0 where "c0 \<in> set (filter ?hit (db_conflicts db))" by (meson last_in_set)
    then show thesis by (intro that [of c0]) simp_all
  qed
  have only: "cf_resolved c = 0" if "c \<in> set (db_conflicts db)" "cf_id c = i" for c
    using that c0 assms(2) by (metis (no_types) distinct_map inj_onD)
  have "map (\<lambda>c. if cf_id c = i \<and> cf_resolved c = 1 then c\<lparr>cf_resolved := 0\<rparr> else c)
      (map (\<lambda>c. if ?hit c then c\<lparr>cf_resolved := 1\<rparr> else c) (db_conflicts db)) = db_conflicts db"
    unfolding map_map comp_def
  proof (rule map_idI)
    fix c
    assume c: "c \<in> set (db_conflicts db)"
    let ?g = "if ?hit c then c\<lparr>cf_resolved := 1\<rparr> else c"
    show "(if cf_id ?g = i \<and> cf_resolved ?g = 1 then ?g\<lparr>cf_resolved := 0\<rparr> else ?g) = c"
    proof (cases "cf_id c = i")
      case True
      from only [OF c this] show ?thesis using True by (cases c) simp
    qed simp
  qed
  moreover have "length (filter (\<lambda>c. cf_id c = i \<and> cf_resolved c = 1) (map (\<lambda>c. if ?hit c then c\<lparr>cf_resolved := 1\<rparr> else c) (db_conflicts db))) = 1"
    using flipped_count [of "db_conflicts db" i] only n by (metis (no_types, lifting))
  ultimately show ?thesis unfolding mark_conflict_unresolved_def set_resolved_def db' by simp
qed

section \<open>Every version can be restored\<close>

lemma collect_member: "collect f xs = Inr ys \<Longrightarrow> x \<in> set xs \<Longrightarrow> \<exists>y \<in> set ys. f x = Inr y"
  by (induction xs arbitrary: ys) (auto split: sum.splits)

lemma collect_ids: "collect f xs = Inr ys \<Longrightarrow> (\<And>x y. f x = Inr y \<Longrightarrow> g y = h x) \<Longrightarrow> map g ys = map h xs"
  by (induction xs arbitrary: ys) (auto split: sum.splits)

lemma into_meta_id: "into_meta api x v = Inr m \<Longrightarrow> vm_id m = vr_id v"
  by (auto simp: into_meta_def Let_def split: option.splits sum.splits if_splits)

lemma log_find:
  assumes "log_of api hs p = Inr vers" "db_wf api U (hs_db hs)" "v \<in> set (db_versions (hs_db hs))" "vr_path v = as_str p"
  shows "\<exists>m. List.find (\<lambda>m. vm_id m = vr_id v) vers = Some m \<and> into_meta api (hs_has_exec hs) v = Inr m \<and> vers \<noteq> []"
proof -
  let ?rows = "rev (filter (\<lambda>v. vr_path v = as_str p) (db_versions (hs_db hs)))"
  have c: "collect (into_meta api (hs_has_exec hs)) ?rows = Inr vers" using assms(1) by (simp add: log_of_def)
  obtain m where m: "m \<in> set vers" "into_meta api (hs_has_exec hs) v = Inr m" using collect_member [OF c, of v] assms(3,4) by auto
  have "map vm_id vers = map vr_id ?rows" by (rule collect_ids [OF c]) (rule into_meta_id)
  moreover have "distinct (map vr_id (db_versions (hs_db hs)))" using assms(2) by (simp add: db_wf_def sorted_ids_distinct)
  ultimately have "distinct (map vm_id vers)" by (simp add: rev_map [symmetric] distinct_map_filter)
  from find_distinct_key [OF this m(1)] have "List.find (\<lambda>y. vm_id y = vr_id v) vers = Some m" using into_meta_id [OF m(2)] by simp
  then show ?thesis using m by auto
qed

lemma into_meta_content:
  assumes "into_meta api x v = Inr m" "vr_state v = 1" "row_of_content api U chunks v bs"
  shows "\<exists>sig. vm_state m = Present sig \<and> matches_sig (sa_blake3 api) bs sig"
  using assms by (auto simp: into_meta_def Let_def row_of_content_def content_ok_def len_u64_def matches_sig_def split: option.splits sum.splits if_splits)

text \<open>C18: Every recorded version can be brought back. If a well-formed history holds a content of
  a path, and the file system lets the file be written, the restore of that version succeeds
  and leaves exactly those bytes at the path, every other file untouched and the history as it
  was.\<close>

theorem every_version_restorable:
  assumes "ws_initialized ws" "ws_store ws = Some hs" "api_ok (dk_store d)" "inj_on (sa_blake3 (dk_store d)) U" "db_wf (dk_store d) U (hs_db hs)"
    and "v \<in> set (db_versions (hs_db hs))" "vr_state v = 1" "row_of_content (dk_store d) U (db_chunks (hs_db hs)) v bs"
    and "to_relpath (ws_root ws) arg = Inr rel" "as_str rel = vr_path v" "log_of (dk_store d) hs rel = Inr vers"
    and "\<not> dk_refused d rel" "dk_stage d rel = StageOk" "create_dir_all (ws_tree ws) (parents rel) = Some t1" "\<not> path_is_dir t1 rel"
  shows "\<exists>t r. restore_ctl d ws arg (vr_id v) = (ws\<lparr>ws_tree := t\<rparr>, Inr r) \<and> file_bytes t rel = Some bs \<and>
    (\<forall>q. q \<noteq> rel \<longrightarrow> file_bytes t q = file_bytes (ws_tree ws) q)"
proof -
  obtain m where m: "List.find (\<lambda>m. vm_id m = vr_id v) vers = Some m" "into_meta (dk_store d) (hs_has_exec hs) v = Inr m" "vers \<noteq> []"
    using log_find [OF assms(11,5,6)] assms(10) by auto
  obtain sig where sig: "vm_state m = Present sig" "matches_sig (sa_blake3 (dk_store d)) bs sig"
    using into_meta_content [OF m(2) assms(7,8)] by blast
  have "get_content (dk_store d) (hs_db hs) (vr_id v) = Inr bs" by (rule get_content_row [OF assms(3-8)])
  then have "get_content (dk_store d) (hs_db hs) (vm_id m) = Inr bs" using into_meta_id [OF m(2)] by simp
  moreover have "apply_present d (ws_tree ws) rel sig bs = (bm_insert rel (FileNode bs (sig_exec sig) (dk_mtime_ms d)) t1, None)"
    using assms(12-15) sig(2) by (simp add: apply_present_def)
  ultimately have "restore_ctl d ws arg (vr_id v) =
      (ws\<lparr>ws_tree := bm_insert rel (FileNode bs (sig_exec sig) (dk_mtime_ms d)) t1\<rparr>,
       Inr \<lparr>rr_path = rel, rr_version = vm_id m, rr_size = sig_size sig, rr_deleted = False\<rparr>)"
    using assms(1,2,9,11) m sig(1)
    by (simp add: restore_ctl_def restore_target_def require_initialized_def open_readonly_required_def lift_store_def)
  then show ?thesis by (intro exI conjI) (assumption | simp add: create_dir_all_same [OF assms(14)])+
qed

section \<open>At work\<close>

text \<open>A path with two recorded contents and a conflict between them.\<close>

definition demo_row :: "int \<Rightarrow> u8 \<Rightarrow> version_row" where
  "demo_row i b = \<lparr>vr_id = i, vr_path = as_str demo_path, vr_state = 1, vr_content_hash = Some (replicate 32 b), vr_size = Some 3,
     vr_manifest = Some (replicate 32 b), vr_clock = [b], vr_replica = 1, vr_wall_ms = 0, vr_origin = 0, vr_exec = 0\<rparr>"

definition demo_chunk_row :: "u8 \<Rightarrow> chunk_row" where
  "demo_chunk_row b = \<lparr>ck_hash = replicate 32 b, ck_size = 3, ck_zdata = [b, b, b]\<rparr>"

definition demo_clash_row :: "int \<Rightarrow> conflict_row" where
  "demo_clash_row res = \<lparr>cf_id = 7, cf_path = as_str demo_path, cf_winner = 2, cf_loser = 1, cf_wall_ms = 0, cf_resolved = res\<rparr>"

definition demo_history :: "int \<Rightarrow> history_store" where
  "demo_history res = \<lparr>hs_db = \<lparr>db_chunks = [demo_chunk_row 1, demo_chunk_row 2], db_versions = [demo_row 1 1, demo_row 2 2],
     db_conflicts = [demo_clash_row res], db_version_seq = 2, db_conflict_seq = 7, db_identity_index = True\<rparr>, hs_has_exec = True\<rparr>"

definition demo_workspace :: "int \<Rightarrow> workspace" where
  "demo_workspace res = \<lparr>ws_initialized = True, ws_root = ''/p'', ws_tree = bm_insert demo_path (FileNode [2, 2, 2] False 0) bm_empty,
     ws_store = Some (demo_history res)\<rparr>"

definition demo_conflict :: "bool \<Rightarrow> conflict_record" where
  "demo_conflict res = \<lparr>cn_id = 7, cn_path = demo_path, cn_winner = 2, cn_loser = 1, cn_wall_ms = 0, cn_resolved = res\<rparr>"

definition demo_meta :: "int \<Rightarrow> u8 \<Rightarrow> version_meta" where
  "demo_meta i b = \<lparr>vm_id = i, vm_state = Present \<lparr>sig_hash = ContentHash (replicate 32 b), sig_size = 3, sig_exec = False, sig_mtime_ms = 0\<rparr>,
     vm_content_hash = Some (ContentHash (replicate 32 b)), vm_size = Some 3, vm_clock = (if b = 1 then demo_clock 1 else demo_clock 2),
     vm_replica = ReplicaId 1, vm_wall_ms = 0, vm_origin = OriginLocal\<rparr>"

lemma demo_into: "into_meta demo_api2 True (demo_row i b) = Inr (demo_meta i b)"
  by (simp add: into_meta_def demo_row_def demo_meta_def demo_api2_def demo_api_def to_hash32_def from_sql_int_def origin_from_i64_def Let_def)

lemma demo_log: "log_of demo_api2 (demo_history res) demo_path = Inr [demo_meta 2 2, demo_meta 1 1]"
proof -
  have "vr_path (demo_row i b) = as_str demo_path" for i b by (simp add: demo_row_def)
  then show ?thesis by (simp add: log_of_def demo_history_def demo_into)
qed

lemma demo_key: "chunk_key demo_api2 [b, b, b] = replicate 32 b" "sa_blake3 demo_api2 [b, b, b] = ContentHash (replicate 32 b)"
  by (simp_all add: chunk_key_def demo_api2_def demo_api_def)

lemma demo_slices: "slices demo_api2 [b, b, b] = [[b, b, b]]"
  by (simp add: slices_def demo_api2_def demo_api_def chunk_slice_def)

lemma demo_history_row:
  "b \<in> {1, 2} \<Longrightarrow> row_of_content demo_api2 demo_universe (db_chunks (hs_db (demo_history res))) (demo_row i b) [b, b, b]"
  by (auto simp: row_of_content_def content_ok_def demo_slices demo_key demo_row_def demo_history_def demo_chunk_row_def demo_universe_def
      len_u64_def to_sql_int_def)

lemma demo_history_wf: "db_wf demo_api2 demo_universe (hs_db (demo_history res))"
proof -
  have "chunk_ok demo_api2 demo_universe (demo_chunk_row b)" if "b \<in> {1, 2}" for b
    using that by (auto simp: chunk_ok_def demo_chunk_row_def demo_universe_def demo_key demo_api2_def demo_api_def len_u64_def to_sql_int_def chunk_key_def)
  moreover have "version_ok demo_api2 demo_universe (db_chunks (hs_db (demo_history res))) (demo_row i b)" if "b \<in> {1, 2}" for i b
    using demo_history_row [OF that, of res i] by (auto simp: version_ok_def demo_row_def)
  ultimately show ?thesis
    by (simp add: db_wf_def demo_history_def)
      (simp add: demo_row_def demo_clash_row_def same_identity_def pairwise_insert)
qed

lemma demo_api2_inj: "inj_on (sa_blake3 demo_api2) demo_universe"
  using demo_api2_ok(2) by (simp add: no_collisions_def)

lemma demo_content: "get_content demo_api2 (hs_db (demo_history res)) 1 = Inr [1, 1, 1]"
proof -
  have "get_content demo_api2 (hs_db (demo_history res)) (vr_id (demo_row 1 1)) = Inr [1, 1, 1]"
    by (rule get_content_row [OF demo_api2_ok(1) demo_api2_inj demo_history_wf])
      (simp_all add: demo_history_row, simp_all add: demo_history_def demo_row_def)
  then show ?thesis by (simp add: demo_row_def)
qed

lemma demo_matches: "matches_sig (sa_blake3 demo_api2) [1, 1, 1] \<lparr>sig_hash = ContentHash (replicate 32 1), sig_size = 3, sig_exec = False, sig_mtime_ms = 0\<rparr>"
  by (simp add: matches_sig_def demo_key)

lemma demo_heads: "conflict_heads demo_api2 (demo_history res) (demo_conflict r) = Inr (demo_meta 2 2, demo_meta 1 1)"
  by (simp add: conflict_heads_def demo_conflict_def demo_log lift_store_def find_meta_def) (simp add: demo_meta_def)

lemma demo_disk_api: "dk_store demo_disk = demo_api2" "\<not> dk_refused demo_disk p" "dk_stage demo_disk p = StageOk" "\<not> dk_mark_fails demo_disk i"
  by (simp_all add: demo_disk_def)

lemma demo_take: "\<exists>ws'. take_loser_one demo_disk (demo_workspace res) (demo_history res) (demo_conflict r) = (ws', Inr demo_path)"
  by (simp add: take_loser_one_def demo_disk_api demo_heads)
    (simp add: demo_meta_def demo_content apply_present_def demo_disk_api demo_matches demo_conflict_def demo_workspace_def path_is_dir_def mark_after_write_def)

theorem take_loser_adopts_witness:
  "\<exists>ws'. take_loser_one demo_disk (demo_workspace 0) (demo_history 0) (demo_conflict False) = (ws', Inr demo_path) \<and>
     file_bytes (ws_tree ws') demo_path = Some [1, 1, 1]"
proof -
  obtain ws' where run: "take_loser_one demo_disk (demo_workspace 0) (demo_history 0) (demo_conflict False) = (ws', Inr demo_path)"
    using demo_take by blast
  from take_loser_adopts [OF run] have "wrote_state demo_disk (hs_db (demo_history 0)) (ws_tree (demo_workspace 0)) (ws_tree ws') demo_path (demo_meta 1 1)"
    by (simp add: demo_disk_api demo_heads)
  then have "file_bytes (ws_tree ws') demo_path = Some [1, 1, 1]"
    by (auto simp: wrote_state_def demo_meta_def demo_disk_api demo_content file_bytes_def)
  then show ?thesis using run by blast
qed

definition demo_sidecar :: relpath where
  "demo_sidecar = RelPath ''f.theirs''"

lemma demo_sidecar_name: "sidecar_name (as_str demo_path) (name_present (ws_tree (demo_workspace res))) = Some ''f.theirs''"
    "relpath_new ''f.theirs'' = Inr demo_sidecar" "parents demo_sidecar = []"
proof -
  show "relpath_new ''f.theirs'' = Inr demo_sidecar" by (simp add: demo_sidecar_def) code_simp
  then show "sidecar_name (as_str demo_path) (name_present (ws_tree (demo_workspace res))) = Some ''f.theirs''"
    by (simp add: sidecar_name_def name_present_def demo_path_def demo_workspace_def demo_sidecar_def)
  show "parents demo_sidecar = []" by (simp add: parents_def demo_sidecar_def components_def)
qed

lemma demo_loser: "vm_state (demo_meta 1 1) = Present \<lparr>sig_hash = ContentHash (replicate 32 1), sig_size = 3, sig_exec = False, sig_mtime_ms = 0\<rparr>"
    "get_content demo_api2 (hs_db (demo_history res)) (vm_id (demo_meta 1 1)) = Inr [1, 1, 1]"
  by (simp_all add: demo_meta_def demo_content)

lemma demo_apply: "apply_present demo_disk (ws_tree (demo_workspace res)) demo_sidecar
    \<lparr>sig_hash = ContentHash (replicate 32 1), sig_size = 3, sig_exec = False, sig_mtime_ms = 0\<rparr> [1, 1, 1] =
   (bm_insert demo_sidecar (FileNode [1, 1, 1] False (dk_mtime_ms demo_disk)) (ws_tree (demo_workspace res)), None)"
proof -
  have "\<not> path_is_dir (ws_tree (demo_workspace res)) demo_sidecar"
    by (simp add: path_is_dir_def demo_workspace_def demo_sidecar_def demo_path_def)
  then show ?thesis by (simp add: apply_present_def demo_disk_api demo_matches demo_sidecar_name)
qed

theorem keep_both_overwrites_nothing_witness:
  "\<exists>ws'. both_one demo_disk (demo_workspace 0) (demo_history 0) (demo_conflict False) = (ws', Inr (demo_path, demo_sidecar)) \<and>
     file_bytes (ws_tree ws') demo_path = Some [2, 2, 2] \<and> file_bytes (ws_tree ws') demo_sidecar = Some [1, 1, 1]"
proof -
  have p: "cn_path (demo_conflict False) = demo_path" by (simp add: demo_conflict_def)
  obtain ws' where run: "both_one demo_disk (demo_workspace 0) (demo_history 0) (demo_conflict False) = (ws', Inr (demo_path, demo_sidecar))"
  proof -
    have "\<exists>ws'. both_one demo_disk (demo_workspace 0) (demo_history 0) (demo_conflict False) = (ws', Inr (demo_path, demo_sidecar))"
      unfolding both_one_def demo_disk_api p demo_heads sum.case prod.case demo_loser entry_state.case demo_sidecar_name option.case
      by (simp add: demo_apply mark_after_write_def demo_disk_api)
    then show thesis using that by blast
  qed
  have "length (bm_keys (ws_tree (demo_workspace 0))) < 2 ^ 32 - 2" by (simp add: demo_workspace_def bm_keys_def bm_entries_insert)
  from keep_both_overwrites_nothing [OF this, where d = demo_disk and hs = "demo_history 0" and cr = "demo_conflict False", unfolded run]
  have eff: "\<forall>q. q \<noteq> demo_sidecar \<longrightarrow> file_bytes (ws_tree ws') q = file_bytes (ws_tree (demo_workspace 0)) q"
    "\<exists>win los. conflict_heads (dk_store demo_disk) (demo_history 0) (demo_conflict False) = Inr (win, los) \<and>
       wrote_state demo_disk (hs_db (demo_history 0)) (ws_tree (demo_workspace 0)) (ws_tree ws') demo_sidecar los \<and> vm_state los \<noteq> Tombstone"
    by (simp_all add: sidecar_written_def)
  have "file_bytes (ws_tree ws') demo_path = file_bytes (ws_tree (demo_workspace 0)) demo_path" using eff(1) by (simp add: demo_sidecar_def demo_path_def)
  moreover have "file_bytes (ws_tree ws') demo_sidecar = Some [1, 1, 1]"
    using eff by (auto simp: demo_disk_api demo_heads wrote_state_def demo_meta_def demo_content file_bytes_def)
  ultimately show ?thesis using run by (auto simp: demo_workspace_def file_bytes_def)
qed

lemma demo_conflicts: "conflicts_of (hs_db (demo_history res)) False = Inr [demo_conflict (res \<noteq> 0)]"
proof -
  have "relpath_new (as_str demo_path) = Inr demo_path" by (simp add: demo_path_def) code_simp
  then show ?thesis by (simp add: conflicts_of_def demo_history_def demo_clash_row_def demo_conflict_def from_sql_int_def)
qed

lemma demo_open: "ws_initialized (demo_workspace res)" "ws_store (demo_workspace res) = Some (demo_history res)"
  by (simp_all add: demo_workspace_def)

lemma demo_digit: "is_digit CHR ''7''"
  by code_simp

theorem control_channel_reresolves_witness:
  "snd (run_resolve demo_disk (demo_workspace 1) (Some ''7'') False True False False) = Inl (NoSuchConflict 7) \<and>
   (\<exists>ws'. take_loser_ctl demo_disk (demo_workspace 1) 7 = (ws', Inr demo_path))"
proof -
  have i: "cn_id (demo_conflict True) = 7" "cn_resolved (demo_conflict True)" by (simp_all add: demo_conflict_def)
  have "parse_i64 ''7'' = Some (cn_id (demo_conflict True))" unfolding i
    by (simp add: parse_i64_def digits_value_def demo_digit)
  have c: "conflicts_of (hs_db (demo_history 1)) False = Inr [demo_conflict True]" "demo_conflict True \<in> set [demo_conflict True]"
      "distinct (map cn_id [demo_conflict True])" using demo_conflicts [of 1] by simp_all
  have "take_loser_ctl demo_disk (demo_workspace 1) (cn_id (demo_conflict True)) =
        take_loser_one demo_disk (demo_workspace 1) (demo_history 1) (demo_conflict True) \<and>
      run_resolve demo_disk (demo_workspace 1) (Some ''7'') False True False False =
        (if cn_resolved (demo_conflict True) then (demo_workspace 1, Inl (NoSuchConflict (cn_id (demo_conflict True))))
         else apsnd (map_sum id (\<lambda>p. Resolved (Took p))) (take_loser_one demo_disk (demo_workspace 1) (demo_history 1) (demo_conflict True)))"
    by (rule control_channel_reresolves [OF demo_open \<open>parse_i64 ''7'' = Some (cn_id (demo_conflict True))\<close> c])
  then have "take_loser_ctl demo_disk (demo_workspace 1) 7 = take_loser_one demo_disk (demo_workspace 1) (demo_history 1) (demo_conflict True)"
      "run_resolve demo_disk (demo_workspace 1) (Some ''7'') False True False False = (demo_workspace 1, Inl (NoSuchConflict 7))"
    by (simp_all only: i if_True)
  then show ?thesis using demo_take [of 1 True] by simp
qed

theorem every_version_restorable_witness:
  "\<exists>t r. restore_ctl demo_disk (demo_workspace 0) ''f'' 1 = ((demo_workspace 0)\<lparr>ws_tree := t\<rparr>, Inr r) \<and> file_bytes t demo_path = Some [1, 1, 1]"
proof -
  have rel: "to_relpath (ws_root (demo_workspace 0)) ''f'' = Inr demo_path"
    unfolding demo_path_def by (simp add: demo_workspace_def) code_simp
  have not_dir: "\<not> path_is_dir (ws_tree (demo_workspace 0)) demo_path" by (simp add: path_is_dir_def demo_workspace_def)
  have "\<exists>t r. restore_ctl demo_disk (demo_workspace 0) ''f'' (vr_id (demo_row 1 1)) = ((demo_workspace 0)\<lparr>ws_tree := t\<rparr>, Inr r) \<and>
      file_bytes t demo_path = Some [1, 1, 1] \<and> (\<forall>q. q \<noteq> demo_path \<longrightarrow> file_bytes t q = file_bytes (ws_tree (demo_workspace 0)) q)"
    by (rule every_version_restorable [where U = demo_universe and hs = "demo_history 0" and vers = "[demo_meta 2 2, demo_meta 1 1]"])
      (use demo_api2_ok(1) demo_api2_inj demo_history_wf [of 0] demo_history_row [of 1 0 1] rel demo_log [of 0] not_dir in
        \<open>simp_all add: demo_disk_api demo_open\<close>, simp_all add: demo_workspace_def demo_history_def demo_row_def)
  then show ?thesis by (simp add: demo_row_def) blast
qed

end
