(* ===== verification/Tomo_Json.thy ===== *)
theory Tomo_Json
  imports Tomo_Tui Tomo_Resolve
begin

text \<open>
  What the control channel sends as JSON: the payloads of the history and conflict commands
  (\<^verbatim>\<open>LogEntryJson\<close>, \<^verbatim>\<open>ConflictJson\<close> and their kin), the requests of the terminal interface
  (\<^verbatim>\<open>CtlRequest::to_json\<close>, the \<^verbatim>\<open>serde\<close> reading of \<^verbatim>\<open>Command\<close>), and the interface's reading of
  replies (\<^verbatim>\<open>parse_conflicts\<close> and its kin). Values are those of \<^verbatim>\<open>serde_json::Value\<close>: a number is an
  integer of \<^verbatim>\<open>i64\<close> or \<^verbatim>\<open>u64\<close>, an object a list of distinct keys with their values. The text of a
  value is left out: a line is the value it parses to.
\<close>

section \<open>Values\<close>

datatype json = JNull | JBool bool | JNum int | JStr string | JArr "json list" | JObj "(string \<times> json) list"

definition json_get :: "string \<Rightarrow> json \<Rightarrow> json option" where
  "json_get k v = (case v of JObj kvs \<Rightarrow> map_of kvs k | _ \<Rightarrow> None)"

definition is_i64 :: "int \<Rightarrow> bool" where
  "is_i64 n \<longleftrightarrow> - (2 ^ 63) \<le> n \<and> n < 2 ^ 63"

definition as_i64 :: "json \<Rightarrow> int option" where
  "as_i64 v = (case v of JNum n \<Rightarrow> if is_i64 n then Some n else None | _ \<Rightarrow> None)"

definition as_u64 :: "json \<Rightarrow> u64 option" where
  "as_u64 v = (case v of JNum n \<Rightarrow> if 0 \<le> n \<and> n < 2 ^ 64 then Some (word_of_int n) else None | _ \<Rightarrow> None)"

definition json_str :: "json \<Rightarrow> string option" where
  "json_str v = (case v of JStr s \<Rightarrow> Some s | _ \<Rightarrow> None)"

definition as_bool :: "json \<Rightarrow> bool option" where
  "as_bool v = (case v of JBool b \<Rightarrow> Some b | _ \<Rightarrow> None)"

definition as_array :: "json \<Rightarrow> json list option" where
  "as_array v = (case v of JArr vs \<Rightarrow> Some vs | _ \<Rightarrow> None)"

definition JU64 :: "u64 \<Rightarrow> json" where
  "JU64 w = JNum (uint w)"

definition JOpt :: "('a \<Rightarrow> json) \<Rightarrow> 'a option \<Rightarrow> json" where
  "JOpt f x = (case x of None \<Rightarrow> JNull | Some a \<Rightarrow> f a)"

text \<open>The chain \<^verbatim>\<open>v.get(k).and_then(f).unwrap_or(x)\<close>.\<close>

definition get_or :: "(json \<Rightarrow> 'a option) \<Rightarrow> 'a \<Rightarrow> string \<Rightarrow> json \<Rightarrow> 'a" where
  "get_or f x k v = (case Option.bind (json_get k v) f of Some a \<Rightarrow> a | None \<Rightarrow> x)"

section \<open>The server's payloads\<close>

definition replica_format :: "replica_id \<Rightarrow> string" where
  "replica_format r = map (\<lambda>i. hex_digit (unat (drop_bit (4 * i) (replica_raw r)) mod 16)) (rev [0..<16])"

definition origin_str :: "origin \<Rightarrow> string" where
  "origin_str r = (case r of OriginLocal \<Rightarrow> ''local'' | OriginRemote \<Rightarrow> ''remote'')"

definition clock_map :: "vector_clock \<Rightarrow> (string \<times> json) list" where
  "clock_map c = map (\<lambda>(r, n). (decimal (unat (replica_raw r)), JU64 n)) (vc_iter c)"

definition is_present :: "version_meta \<Rightarrow> bool" where
  "is_present m = (case vm_state m of Present _ \<Rightarrow> True | Tombstone \<Rightarrow> False)"

definition is_exec :: "version_meta \<Rightarrow> bool" where
  "is_exec m = (case vm_state m of Present sig \<Rightarrow> sig_exec sig | Tombstone \<Rightarrow> False)"

definition log_entry_json :: "version_meta \<Rightarrow> json" where
  "log_entry_json m = JObj [
     (''id'', JNum (vm_id m)),
     (''present'', JBool (is_present m)),
     (''tombstone'', JBool (\<not> is_present m)),
     (''size'', JOpt JU64 (vm_size m)),
     (''exec'', JBool (is_exec m)),
     (''content_hash'', JOpt (\<lambda>h. JStr (hash_display h)) (vm_content_hash m)),
     (''replica'', JStr (replica_format (vm_replica m))),
     (''replica_id'', JU64 (replica_raw (vm_replica m))),
     (''origin'', JStr (origin_str (vm_origin m))),
     (''wall_unix_ms'', JU64 (vm_wall_ms m)),
     (''clock'', JObj (clock_map (vm_clock m)))]"

type_synonym conflict_entry = "conflict_record \<times> version_meta \<times> version_meta"

definition conflict_fields :: "conflict_entry \<Rightarrow> (string \<times> json) list" where
  "conflict_fields c = (case c of (r, win, los) \<Rightarrow> [
     (''id'', JNum (cn_id r)),
     (''path'', JStr (as_str (cn_path r))),
     (''wall_unix_ms'', JU64 (cn_wall_ms r)),
     (''resolved'', JBool (cn_resolved r)),
     (''winner'', log_entry_json win),
     (''loser'', log_entry_json los)])"

definition diff_json :: "string list option \<Rightarrow> json" where
  "diff_json diff = JOpt (\<lambda>ls. JArr (map JStr ls)) diff"

definition conflict_detail_json :: "conflict_entry \<Rightarrow> string list option \<Rightarrow> json" where
  "conflict_detail_json c diff = JObj (conflict_fields c @ [(''diffable'', JBool (diff \<noteq> None)), (''diff'', diff_json diff)])"

definition path_history_json :: "path_history \<Rightarrow> json" where
  "path_history_json p = JObj [
     (''path'', JStr (as_str (ph_path p))),
     (''versions'', JU64 (ph_versions p)),
     (''last_version'', JNum (ph_last_version p)),
     (''last_wall_unix_ms'', JU64 (ph_last_wall_ms p))]"

section \<open>The interface's requests\<close>

definition action_str :: "verdict \<Rightarrow> string" where
  "action_str v = (case v of KeepVerdict \<Rightarrow> ''keep'' | TakeVerdict \<Rightarrow> ''take'' | BothVerdict \<Rightarrow> ''both'')"

definition to_json :: "ctl_request \<Rightarrow> json" where
  "to_json req = (case req of
      ReqConflictsList \<Rightarrow> JObj [(''type'', JStr ''conflicts_list'')]
    | ReqConflictShow i \<Rightarrow> JObj [(''type'', JStr ''conflict_show''), (''id'', JNum i)]
    | ReqResolve i v \<Rightarrow> JObj [(''type'', JStr ''conflicts_resolve''), (''id'', JNum i), (''action'', JStr (action_str v))]
    | ReqHistoryPaths n \<Rightarrow> JObj [(''type'', JStr ''history_paths''), (''limit'', JNum (int n))]
    | ReqHistoryLog p n \<Rightarrow> JObj [(''type'', JStr ''history_log''), (''path'', JStr p), (''limit'', JNum (int n))]
    | ReqVersionDiff p a b \<Rightarrow> JObj [(''type'', JStr ''version_diff''), (''path'', JStr p), (''from'', JNum a), (''to'', JNum b)]
    | ReqRestore p i \<Rightarrow> JObj [(''type'', JStr ''restore''), (''path'', JStr p), (''version'', JNum i)]
    | ReqConflictUnresolve i \<Rightarrow> JObj [(''type'', JStr ''conflict_unresolve''), (''id'', JNum i)]
    | ReqPause \<Rightarrow> JObj [(''type'', JStr ''pause'')]
    | ReqResume \<Rightarrow> JObj [(''type'', JStr ''resume'')]
    | ReqStop \<Rightarrow> JObj [(''type'', JStr ''stop'')])"

section \<open>The server's reading of a command\<close>

datatype resolve_action = ActKeep | ActTake | ActBoth

datatype command =
    CmdPing
  | CmdStatus
  | CmdConflictsList bool
  | CmdConflictShow int
  | CmdConflictsResolve int resolve_action
  | CmdHistoryPaths "nat option"
  | CmdHistoryLog string "nat option"
  | CmdVersionDiff string int int
  | CmdRestore string int
  | CmdConflictUnresolve int
  | CmdPause
  | CmdResume
  | CmdStop

text \<open>A field that must be there; a field with a default, which if there must have its type; an optional
  number, null standing for none.\<close>

definition need :: "(json \<Rightarrow> 'a option) \<Rightarrow> string \<Rightarrow> json \<Rightarrow> ('a \<Rightarrow> 'b option) \<Rightarrow> 'b option" where
  "need f k v cont = Option.bind (Option.bind (json_get k v) f) cont"

definition read_action :: "json \<Rightarrow> resolve_action option" where
  "read_action v = (if v = JStr ''keep'' then Some ActKeep else if v = JStr ''take'' then Some ActTake
     else if v = JStr ''both'' then Some ActBoth else None)"

definition read_all :: "json \<Rightarrow> bool option" where
  "read_all v = (case json_get ''all'' v of None \<Rightarrow> Some False | Some x \<Rightarrow> as_bool x)"

definition read_limit :: "json \<Rightarrow> nat option option" where
  "read_limit v = (case json_get ''limit'' v of
      None \<Rightarrow> Some None
    | Some JNull \<Rightarrow> Some None
    | Some x \<Rightarrow> map_option (\<lambda>w. Some (unat w)) (as_u64 x))"

definition read_command :: "json \<Rightarrow> command option" where
  "read_command v = need json_str ''type'' v (\<lambda>tag.
     if tag = ''ping'' then Some CmdPing
     else if tag = ''status'' then Some CmdStatus
     else if tag = ''conflicts_list'' then map_option CmdConflictsList (read_all v)
     else if tag = ''conflict_show'' then need as_i64 ''id'' v (\<lambda>i. Some (CmdConflictShow i))
     else if tag = ''conflicts_resolve'' then need as_i64 ''id'' v (\<lambda>i. need read_action ''action'' v (\<lambda>a. Some (CmdConflictsResolve i a)))
     else if tag = ''history_paths'' then map_option CmdHistoryPaths (read_limit v)
     else if tag = ''history_log'' then need json_str ''path'' v (\<lambda>p. map_option (CmdHistoryLog p) (read_limit v))
     else if tag = ''version_diff'' then need json_str ''path'' v (\<lambda>p. need as_i64 ''from'' v (\<lambda>a. need as_i64 ''to'' v (\<lambda>b. Some (CmdVersionDiff p a b))))
     else if tag = ''restore'' then need json_str ''path'' v (\<lambda>p. need as_i64 ''version'' v (\<lambda>i. Some (CmdRestore p i)))
     else if tag = ''conflict_unresolve'' then need as_i64 ''id'' v (\<lambda>i. Some (CmdConflictUnresolve i))
     else if tag = ''pause'' then Some CmdPause
     else if tag = ''resume'' then Some CmdResume
     else if tag = ''stop'' then Some CmdStop
     else None)"

definition PROTOCOL_V :: int where "PROTOCOL_V = 1"

datatype client_mode = ModeEvents | ModeCommand

record client_hello =
  ch_v :: int
  ch_mode :: client_mode
  ch_cmd :: "command option"

definition as_u32 :: "json \<Rightarrow> int option" where
  "as_u32 v = (case v of JNum n \<Rightarrow> if 0 \<le> n \<and> n < 2 ^ 32 then Some n else None | _ \<Rightarrow> None)"

definition read_mode :: "json \<Rightarrow> client_mode option" where
  "read_mode v = (if v = JStr ''events'' then Some ModeEvents else if v = JStr ''command'' then Some ModeCommand else None)"

definition read_hello :: "json \<Rightarrow> client_hello option" where
  "read_hello v = need as_u32 ''v'' v (\<lambda>n. need read_mode ''mode'' v (\<lambda>mode.
     case json_get ''cmd'' v of
       None \<Rightarrow> Some \<lparr>ch_v = n, ch_mode = mode, ch_cmd = None\<rparr>
     | Some JNull \<Rightarrow> Some \<lparr>ch_v = n, ch_mode = mode, ch_cmd = None\<rparr>
     | Some cmd \<Rightarrow> map_option (\<lambda>c. \<lparr>ch_v = n, ch_mode = mode, ch_cmd = Some c\<rparr>) (read_command cmd)))"

definition to_hello_events :: json where
  "to_hello_events = JObj [(''v'', JNum PROTOCOL_V), (''mode'', JStr ''events'')]"

definition to_hello_command :: "json \<Rightarrow> json" where
  "to_hello_command cmd = JObj [(''v'', JNum PROTOCOL_V), (''mode'', JStr ''command''), (''cmd'', cmd)]"

definition ok_reply :: "json \<Rightarrow> json" where
  "ok_reply payload = (let kvs = (case payload of JObj kvs \<Rightarrow> kvs | _ \<Rightarrow> [])
     in JObj (kvs @ filter (\<lambda>(k, _). k \<notin> fst ` set kvs) [(''v'', JNum PROTOCOL_V), (''ok'', JBool True)]))"

definition err_reply :: "string \<Rightarrow> json" where
  "err_reply msg = JObj [(''v'', JNum PROTOCOL_V), (''ok'', JBool False), (''error'', JStr msg)]"

section \<open>The interface's reading of a reply\<close>

definition from_origin :: "string \<Rightarrow> author_side" where
  "from_origin s = (if s = ''remote'' then SidePeer else SideYou)"

definition parse_side :: "json option \<Rightarrow> author_side" where
  "parse_side v = (case Option.bind (Option.bind v (json_get ''origin'')) json_str of Some s \<Rightarrow> from_origin s | None \<Rightarrow> SideYou)"

definition parse_conflict_row :: "json \<Rightarrow> listed_conflict option" where
  "parse_conflict_row v = need as_i64 ''id'' v (\<lambda>i. need json_str ''path'' v (\<lambda>p.
     Some \<lparr>lc_conflict = i, lc_where = p, lc_wall = get_or as_u64 0 ''wall_unix_ms'' v, lc_winner = parse_side (json_get ''winner'' v)\<rparr>))"

text \<open>A stable sort by falling time, then falling id.\<close>

definition parse_conflicts :: "json \<Rightarrow> listed_conflict list" where
  "parse_conflicts v = (case as_array v of
      None \<Rightarrow> []
    | Some vs \<Rightarrow> rev (sort_key (\<lambda>c. (lc_wall c, lc_conflict c)) (rev (List.map_filter parse_conflict_row vs))))"

definition parse_head :: "string \<Rightarrow> json \<Rightarrow> head_info" where
  "parse_head k v = \<lparr>hd_side = parse_side (json_get k v),
     hd_wall = (case json_get k v of Some x \<Rightarrow> get_or as_u64 0 ''wall_unix_ms'' x | None \<Rightarrow> 0)\<rparr>"

definition parse_version :: "string \<Rightarrow> json \<Rightarrow> int" where
  "parse_version k v = (case json_get k v of Some x \<Rightarrow> get_or as_i64 0 ''id'' x | None \<Rightarrow> 0)"

definition parse_diff :: "json \<Rightarrow> string list" where
  "parse_diff v = List.map_filter json_str (get_or as_array [] ''diff'' v)"

definition parse_detail :: "json \<Rightarrow> conflict_detail option" where
  "parse_detail v = (if json_get ''path'' v = None then None else Some
     \<lparr>cd_winner = parse_head ''winner'' v, cd_loser = parse_head ''loser'' v,
      cd_winner_version = parse_version ''winner'' v, cd_loser_version = parse_version ''loser'' v,
      cd_diff = parse_diff v, cd_diffable = get_or as_bool False ''diffable'' v\<rparr>)"

definition parse_path_row :: "json \<Rightarrow> path_row option" where
  "parse_path_row v = need json_str ''path'' v (\<lambda>p. Some \<lparr>pr_path = p, pr_versions = get_or as_u64 0 ''versions'' v,
     pr_last_version = get_or as_i64 0 ''last_version'' v, pr_last_wall = get_or as_u64 0 ''last_wall_unix_ms'' v\<rparr>)"

definition parse_history_paths :: "json \<Rightarrow> path_row list" where
  "parse_history_paths v = (case as_array v of None \<Rightarrow> [] | Some vs \<Rightarrow> List.map_filter parse_path_row vs)"

definition parse_version_row :: "json \<Rightarrow> timeline_row option" where
  "parse_version_row v = need as_i64 ''id'' v (\<lambda>i. Some \<lparr>tr_id = i, tr_wall = get_or as_u64 0 ''wall_unix_ms'' v,
     tr_size = Option.bind (json_get ''size'' v) as_u64, tr_side = parse_side (Some v),
     tr_exec = get_or as_bool False ''exec'' v, tr_present = get_or as_bool True ''present'' v\<rparr>)"

definition parse_history_log :: "json \<Rightarrow> timeline_row list" where
  "parse_history_log v = (case as_array v of None \<Rightarrow> [] | Some vs \<Rightarrow> List.map_filter parse_version_row vs)"

definition parse_version_diff :: "json \<Rightarrow> diff_detail" where
  "parse_version_diff v = \<lparr>dd_identical = get_or as_bool False ''identical'' v, dd_diffable = get_or as_bool False ''diffable'' v,
     dd_diff = parse_diff v\<rparr>"

section \<open>Reading back\<close>

lemma json_get_cons [simp]: "json_get k (JObj ((k', v) # kvs)) = (if k = k' then Some v else json_get k (JObj kvs))"
    "json_get k (JObj []) = None"
  by (simp_all add: json_get_def)

lemma as_u64_JU64 [simp]: "as_u64 (JU64 w) = Some w"
  using uint_range_size [of w] by (simp add: as_u64_def JU64_def word_size)

lemma json_values [simp]: "json_str (JStr s) = Some s" "as_bool (JBool b) = Some b" "as_array (JArr vs) = Some vs"
    "is_i64 n \<Longrightarrow> as_i64 (JNum n) = Some n" "json_str JNull = None" "as_array JNull = None" "as_u64 JNull = None"
  by (simp_all add: json_str_def as_bool_def as_array_def as_i64_def as_u64_def)

text \<open>The command a request stands for.\<close>

fun verdict_action :: "verdict \<Rightarrow> resolve_action" where
  "verdict_action KeepVerdict = ActKeep"
| "verdict_action TakeVerdict = ActTake"
| "verdict_action BothVerdict = ActBoth"

fun request_command :: "ctl_request \<Rightarrow> command" where
  "request_command ReqConflictsList = CmdConflictsList False"
| "request_command (ReqConflictShow i) = CmdConflictShow i"
| "request_command (ReqResolve i v) = CmdConflictsResolve i (verdict_action v)"
| "request_command (ReqHistoryPaths n) = CmdHistoryPaths (Some n)"
| "request_command (ReqHistoryLog p n) = CmdHistoryLog p (Some n)"
| "request_command (ReqVersionDiff p a b) = CmdVersionDiff p a b"
| "request_command (ReqRestore p i) = CmdRestore p i"
| "request_command (ReqConflictUnresolve i) = CmdConflictUnresolve i"
| "request_command ReqPause = CmdPause"
| "request_command ReqResume = CmdResume"
| "request_command ReqStop = CmdStop"

text \<open>The numbers of a request have their types.\<close>

fun request_ok :: "ctl_request \<Rightarrow> bool" where
  "request_ok (ReqConflictShow i) = is_i64 i"
| "request_ok (ReqResolve i v) = is_i64 i"
| "request_ok (ReqHistoryPaths n) = (n < 2 ^ 64)"
| "request_ok (ReqHistoryLog p n) = (n < 2 ^ 64)"
| "request_ok (ReqVersionDiff p a b) = (is_i64 a \<and> is_i64 b)"
| "request_ok (ReqRestore p i) = is_i64 i"
| "request_ok (ReqConflictUnresolve i) = is_i64 i"
| "request_ok _ = True"

lemma read_limit_nat: "n < 2 ^ 64 \<Longrightarrow> map_option (\<lambda>w. Some (unat w)) (as_u64 (JNum (int n))) = Some (Some n)"
proof -
  assume n: "n < 2 ^ 64"
  then have "int n < 2 ^ 64" by (metis of_nat_less_numeral_power_cancel_iff)
  moreover have "unat (word_of_int (int n) :: u64) = n" using n by (simp add: unat_of_nat)
  ultimately show ?thesis by (simp add: as_u64_def)
qed

lemma read_command_to_json: "request_ok req \<Longrightarrow> read_command (to_json req) = Some (request_command req)"
  using read_limit_nat
  by (cases req) (auto simp: to_json_def read_command_def need_def read_all_def read_limit_def read_action_def action_str_def split: verdict.split)

lemma read_hello_to_json:
  "request_ok req \<Longrightarrow> read_hello (to_hello_command (to_json req)) = Some \<lparr>ch_v = PROTOCOL_V, ch_mode = ModeCommand, ch_cmd = Some (request_command req)\<rparr>"
proof -
  assume ok: "request_ok req"
  obtain kvs where kvs: "to_json req = JObj kvs" by (cases req) (simp_all add: to_json_def)
  show ?thesis using read_command_to_json [OF ok] unfolding kvs
    by (simp add: to_hello_command_def read_hello_def need_def as_u32_def PROTOCOL_V_def read_mode_def)
qed

text \<open>The rows the interface shows, as functions of the server's data.\<close>

definition side_of :: "origin \<Rightarrow> author_side" where
  "side_of r = (if r = OriginRemote then SidePeer else SideYou)"

definition listed_of :: "conflict_entry \<Rightarrow> listed_conflict" where
  "listed_of c = (case c of (r, win, los) \<Rightarrow> \<lparr>lc_conflict = cn_id r, lc_where = as_str (cn_path r), lc_wall = cn_wall_ms r,
     lc_winner = side_of (vm_origin win)\<rparr>)"

definition head_of :: "version_meta \<Rightarrow> head_info" where
  "head_of v = \<lparr>hd_side = side_of (vm_origin v), hd_wall = vm_wall_ms v\<rparr>"

definition detail_of :: "conflict_entry \<Rightarrow> string list option \<Rightarrow> conflict_detail" where
  "detail_of c diff = (case c of (r, win, los) \<Rightarrow>
     \<lparr>cd_winner = head_of win, cd_loser = head_of los, cd_winner_version = vm_id win, cd_loser_version = vm_id los,
      cd_diff = (case diff of Some ls \<Rightarrow> ls | None \<Rightarrow> []), cd_diffable = (diff \<noteq> None)\<rparr>)"

definition path_row_of :: "path_history \<Rightarrow> path_row" where
  "path_row_of p = \<lparr>pr_path = as_str (ph_path p), pr_versions = ph_versions p, pr_last_version = ph_last_version p,
     pr_last_wall = ph_last_wall_ms p\<rparr>"

definition timeline_row_of :: "version_meta \<Rightarrow> timeline_row" where
  "timeline_row_of v = \<lparr>tr_id = vm_id v, tr_wall = vm_wall_ms v, tr_size = vm_size v, tr_side = side_of (vm_origin v),
     tr_exec = is_exec v, tr_present = is_present v\<rparr>"

lemma map_filter_map: "(\<And>x. x \<in> set xs \<Longrightarrow> f (g x) = Some (h x)) \<Longrightarrow> List.map_filter f (map g xs) = map h xs"
  by (induction xs) (simp_all add: List.map_filter_simps)

lemma parse_side_entry [simp]: "parse_side (Some (log_entry_json m)) = side_of (vm_origin m)"
  by (cases "vm_origin m") (simp_all add: parse_side_def log_entry_json_def origin_str_def from_origin_def side_of_def)

lemma parse_row_entry: "is_i64 (cn_id (fst c)) \<Longrightarrow> parse_conflict_row (JObj (conflict_fields c)) = Some (listed_of c)"
  by (cases c) (simp add: parse_conflict_row_def conflict_fields_def need_def get_or_def listed_of_def)

lemma parse_conflicts_json:
  assumes "\<And>c. c \<in> set cs \<Longrightarrow> is_i64 (cn_id (fst c))"
  shows "parse_conflicts (JArr (map (\<lambda>c. JObj (conflict_fields c)) cs)) =
    rev (sort_key (\<lambda>c. (lc_wall c, lc_conflict c)) (rev (map listed_of cs)))"
  using map_filter_map [of cs parse_conflict_row "\<lambda>c. JObj (conflict_fields c)" listed_of] parse_row_entry assms
  by (simp add: parse_conflicts_def)

lemma parse_diff_json: "json_get ''diff'' v = Some (diff_json diff) \<Longrightarrow> parse_diff v = (case diff of Some ls \<Rightarrow> ls | None \<Rightarrow> [])"
  using map_filter_map [of _ json_str JStr id]
  by (cases diff) (simp_all add: parse_diff_def get_or_def diff_json_def JOpt_def List.map_filter_simps)

lemma parse_heads [simp]:
  "json_get k v = Some (log_entry_json m) \<Longrightarrow> parse_head k v = head_of m"
  "json_get k v = Some (log_entry_json m) \<Longrightarrow> is_i64 (vm_id m) \<Longrightarrow> parse_version k v = vm_id m"
  by (simp_all add: parse_head_def head_of_def parse_version_def get_or_def) (simp_all add: log_entry_json_def)

lemma parse_detail_json:
  assumes "is_i64 (vm_id (fst (snd c)))" "is_i64 (vm_id (snd (snd c)))"
  shows "parse_detail (conflict_detail_json c diff) = Some (detail_of c diff)"
proof -
  obtain r win los where c: "c = (r, win, los)" by (cases c)
  let ?v = "conflict_detail_json c diff"
  have g: "json_get ''winner'' ?v = Some (log_entry_json win)" "json_get ''loser'' ?v = Some (log_entry_json los)"
      "json_get ''path'' ?v \<noteq> None" "json_get ''diff'' ?v = Some (diff_json diff)" "json_get ''diffable'' ?v = Some (JBool (diff \<noteq> None))"
    by (simp_all add: conflict_detail_json_def conflict_fields_def c)
  have "get_or as_bool False ''diffable'' ?v = (diff \<noteq> None)" by (simp add: get_or_def g(5))
  then show ?thesis using assms parse_diff_json [OF g(4)] g(3) parse_heads [OF g(1)] parse_heads [OF g(2)]
    by (simp add: parse_detail_def detail_of_def c)
qed

lemma parse_path_json: "is_i64 (ph_last_version p) \<Longrightarrow> parse_path_row (path_history_json p) = Some (path_row_of p)"
  by (simp add: parse_path_row_def path_history_json_def need_def get_or_def path_row_of_def)

lemma parse_version_json: "is_i64 (vm_id m) \<Longrightarrow> parse_version_row (log_entry_json m) = Some (timeline_row_of m)"
proof -
  assume id: "is_i64 (vm_id m)"
  let ?v = "log_entry_json m"
  have "json_get ''id'' ?v = Some (JNum (vm_id m))" "json_get ''size'' ?v = Some (JOpt JU64 (vm_size m))"
      "json_get ''exec'' ?v = Some (JBool (is_exec m))" "json_get ''present'' ?v = Some (JBool (is_present m))"
      "json_get ''wall_unix_ms'' ?v = Some (JU64 (vm_wall_ms m))"
    by (simp_all add: log_entry_json_def)
  moreover have "as_u64 (JOpt JU64 x) = x" for x by (cases x) (simp_all add: JOpt_def)
  ultimately show ?thesis using id by (simp add: parse_version_row_def timeline_row_of_def need_def get_or_def)
qed

text \<open>C24: What one side of the control channel writes the other reads. The server reads every request of
  the console as exactly the command it stands for, and the console reads the server's lists of
  conflicts (newest first), paths and versions and the detail of a conflict back row by row,
  with every time, size, side and flag the history holds.\<close>

theorem channel_roundtrip:
  assumes "request_ok req"
    and "\<And>r win los. (r, win, los) \<in> set cs \<Longrightarrow> is_i64 (cn_id r) \<and> is_i64 (vm_id win) \<and> is_i64 (vm_id los)"
    and "\<And>p. p \<in> set ps \<Longrightarrow> is_i64 (ph_last_version p)" "\<And>m. m \<in> set vers \<Longrightarrow> is_i64 (vm_id m)" "c \<in> set cs"
  shows "read_hello (to_hello_command (to_json req)) = Some \<lparr>ch_v = PROTOCOL_V, ch_mode = ModeCommand, ch_cmd = Some (request_command req)\<rparr> \<and>
    mset (parse_conflicts (JArr (map (\<lambda>c. JObj (conflict_fields c)) cs))) = mset (map listed_of cs) \<and>
    sorted (map (\<lambda>c. (lc_wall c, lc_conflict c)) (rev (parse_conflicts (JArr (map (\<lambda>c. JObj (conflict_fields c)) cs))))) \<and>
    parse_detail (conflict_detail_json c diff) = Some (detail_of c diff) \<and>
    parse_history_paths (JArr (map path_history_json ps)) = map path_row_of ps \<and>
    parse_history_log (JArr (map log_entry_json vers)) = map timeline_row_of vers"
proof -
  have ids: "is_i64 (cn_id (fst c))" "is_i64 (vm_id (fst (snd c)))" "is_i64 (vm_id (snd (snd c)))" if "c \<in> set cs" for c
    using assms(2) that by (cases c; auto)+
  let ?key = "\<lambda>c. (lc_wall c, lc_conflict c)"
  have p: "parse_conflicts (JArr (map (\<lambda>c. JObj (conflict_fields c)) cs)) = rev (sort_key ?key (rev (map listed_of cs)))"
    by (rule parse_conflicts_json) (rule ids(1))
  have "sorted (map ?key (sort_key ?key (rev (map listed_of cs))))" by (rule sorted_sort_key)
  then show ?thesis unfolding p
    using read_hello_to_json [OF assms(1)] parse_detail_json [OF ids(2,3) [OF assms(5)]]
      map_filter_map [of ps parse_path_row path_history_json path_row_of] parse_path_json assms(3)
      map_filter_map [of vers parse_version_row log_entry_json timeline_row_of] parse_version_json assms(4)
    by (simp add: parse_history_paths_def parse_history_log_def)
qed

lemma demo_ids: "is_i64 7" "is_i64 (cn_id (demo_conflict b))" "i \<in> {1, 2} \<Longrightarrow> is_i64 (vm_id (demo_meta i x))"
  by (auto simp: is_i64_def demo_conflict_def demo_meta_def)

theorem channel_roundtrip_witness:
  "read_hello (to_hello_command (to_json (ReqConflictShow 7))) = Some \<lparr>ch_v = PROTOCOL_V, ch_mode = ModeCommand, ch_cmd = Some (CmdConflictShow 7)\<rparr> \<and>
   parse_detail (conflict_detail_json (demo_conflict False, demo_meta 2 2, demo_meta 1 1) (Some [''- a'', ''+ b''])) =
     Some (detail_of (demo_conflict False, demo_meta 2 2, demo_meta 1 1) (Some [''- a'', ''+ b''])) \<and>
   parse_history_log (JArr (map log_entry_json [demo_meta 2 2, demo_meta 1 1])) = map timeline_row_of [demo_meta 2 2, demo_meta 1 1]"
proof -
  have "request_ok (ReqConflictShow 7)" by (simp add: is_i64_def)
  moreover have "is_i64 (cn_id r) \<and> is_i64 (vm_id win) \<and> is_i64 (vm_id los)"
    if "(r, win, los) \<in> set [(demo_conflict False, demo_meta 2 2, demo_meta 1 1)]" for r win los
    using that demo_ids(2,3) by simp
  moreover have "is_i64 (vm_id m)" if "m \<in> set [demo_meta 2 2, demo_meta 1 1]" for m
    using that demo_ids(3) by auto
  ultimately show ?thesis
    using channel_roundtrip [of "ReqConflictShow 7" "[(demo_conflict False, demo_meta 2 2, demo_meta 1 1)]" "[]" "[demo_meta 2 2, demo_meta 1 1]"
      "(demo_conflict False, demo_meta 2 2, demo_meta 1 1)" "Some [''- a'', ''+ b'']"]
    unfolding request_command.simps by (simp only: list.set empty_iff insertI1 simp_thms)
qed

end
