(* ===== verification/Tomo_Control.thy ===== *)
theory Tomo_Control
  imports Tomo_Json
begin

text \<open>
  The control channel, \<^verbatim>\<open>tomo/src/ctl\<close>: the bounded fan-out of the event stream
  (\<^verbatim>\<open>broadcast.rs\<close>) with the threads that write it to the clients, the server that runs one
  command per connection (\<^verbatim>\<open>server.rs\<close>), and the client side of the terminal interface
  (\<^verbatim>\<open>run_request\<close> of \<^verbatim>\<open>tui/run.rs\<close>). Requests and replies are the data that the JSON text carries
  from one side to the other.
\<close>

section \<open>The fan-out\<close>

definition SUBSCRIBER_CAP :: nat where "SUBSCRIBER_CAP = 1024"

text \<open>A subscription with its connection: \<open>sb_registered\<close> is the sender in the hub's list,
  \<open>sb_live\<close> the receiver in its thread, \<open>sb_written\<close> the lines written to the client.\<close>

record 'l subscriber =
  sb_queue :: "'l list"
  sb_registered :: bool
  sb_lagged :: bool
  sb_live :: bool
  sb_written :: "'l list"

definition subscribe :: "'l subscriber list \<Rightarrow> 'l subscriber list" where
  "subscribe hub = hub @ [\<lparr>sb_queue = [], sb_registered = True, sb_lagged = False, sb_live = True, sb_written = []\<rparr>]"

definition try_send :: "'l \<Rightarrow> 'l subscriber \<Rightarrow> 'l subscriber" where
  "try_send line s = (if \<not> sb_registered s then s
     else if \<not> sb_live s then s\<lparr>sb_registered := False\<rparr>
     else if SUBSCRIBER_CAP \<le> length (sb_queue s) then s\<lparr>sb_lagged := True, sb_registered := False\<rparr>
     else s\<lparr>sb_queue := sb_queue s @ [line]\<rparr>)"

definition publish :: "'l \<Rightarrow> 'l subscriber list \<Rightarrow> 'l subscriber list" where
  "publish line hub = map (try_send line) hub"

definition close_all :: "'l subscriber list \<Rightarrow> 'l subscriber list" where
  "close_all hub = map (\<lambda>s. s\<lparr>sb_registered := False\<rparr>) hub"

definition subscriber_count :: "'l subscriber list \<Rightarrow> nat" where
  "subscriber_count hub = length (filter sb_registered hub)"

text \<open>The writer thread of one client, one turn: a line taken from the queue is written, or the
  write fails and the subscription is dropped; a closed and drained queue ends the thread, after a
  last line if the client lagged.\<close>

definition stream_turn :: "'l \<Rightarrow> bool \<Rightarrow> 'l subscriber \<Rightarrow> 'l subscriber" where
  "stream_turn lagged_line writes s = (if \<not> sb_live s then s
     else case sb_queue s of
       line # rest \<Rightarrow> if writes then s\<lparr>sb_queue := rest, sb_written := sb_written s @ [line]\<rparr> else s\<lparr>sb_queue := [], sb_live := False\<rparr>
     | [] \<Rightarrow> if sb_registered s then s
         else s\<lparr>sb_live := False, sb_written := sb_written s @ (if sb_lagged s \<and> writes then [lagged_line] else [])\<rparr>)"

datatype 'l hub_event = HubSubscribe | HubPublish 'l | HubTurn nat bool | HubCloseAll

definition hub_step :: "'l \<Rightarrow> 'l subscriber list \<Rightarrow> 'l hub_event \<Rightarrow> 'l subscriber list" where
  "hub_step lagged_line hub ev = (case ev of
      HubSubscribe \<Rightarrow> subscribe hub
    | HubPublish line \<Rightarrow> publish line hub
    | HubTurn i writes \<Rightarrow> if i < length hub then hub[i := stream_turn lagged_line writes (hub ! i)] else hub
    | HubCloseAll \<Rightarrow> close_all hub)"

definition hub_run :: "'l \<Rightarrow> 'l subscriber list \<Rightarrow> 'l hub_event list \<Rightarrow> 'l subscriber list" where
  "hub_run lagged_line = foldl (hub_step lagged_line)"

section \<open>Commands\<close>

datatype nudge = NudgePause | NudgeResume | NudgeShutdown

text \<open>\<open>ct_status\<close> is what reading the status file gives, its value or the text of the failure.\<close>

record control =
  ct_ws :: workspace
  ct_shutdown :: bool
  ct_paused :: bool
  ct_nudges :: "nudge list"
  ct_status :: "string + json"

definition show_value :: "store_api \<Rightarrow> workspace \<Rightarrow> int \<Rightarrow> command_error + conflict_entry \<times> string list option" where
  "show_value api ws i = (case require_initialized ws of Some e \<Rightarrow> Inl e
     | None \<Rightarrow> (case ws_store ws of None \<Rightarrow> Inl (NoSuchConflict i)
     | Some hs \<Rightarrow> (case select_for_show (hs_db hs) (SelId i) of Inl e \<Rightarrow> Inl e
     | Inr record \<Rightarrow> (case conflict_heads api hs record of Inl e \<Rightarrow> Inl e
     | Inr (win, los) \<Rightarrow> map_sum id (\<lambda>diff. ((record, win, los), diff)) (compute_diff api hs win los)))))"

text \<open>A command's answer: the payload in a success or the text of the error. \<open>failure\<close> is the text
  (\<^verbatim>\<open>Display\<close>) of an error.\<close>

definition answer :: "(command_error \<Rightarrow> string) \<Rightarrow> ('r \<Rightarrow> json) \<Rightarrow> command_error + 'r \<Rightarrow> json" where
  "answer failure f r = (case r of Inl e \<Rightarrow> err_reply (failure e) | Inr x \<Rightarrow> ok_reply (f x))"

definition act :: "(command_error \<Rightarrow> string) \<Rightarrow> control \<Rightarrow> ('r \<Rightarrow> json) \<Rightarrow> 'r command_result \<Rightarrow> control \<times> json" where
  "act failure ct f r = (case r of (ws, res) \<Rightarrow> (ct\<lparr>ct_ws := ws\<rparr>, answer failure f res))"

definition list_value :: "store_api \<Rightarrow> workspace \<Rightarrow> bool \<Rightarrow> command_error + json" where
  "list_value api ws all = map_sum id (\<lambda>cs. JArr (map (\<lambda>c. JObj (conflict_fields c)) cs)) (run_list api ws all)"

definition log_value :: "store_api \<Rightarrow> workspace \<Rightarrow> string \<Rightarrow> nat option \<Rightarrow> command_error + json" where
  "log_value api ws path limit = map_sum id (\<lambda>(rel, vers). JObj [(''path'', JStr (as_str rel)), (''versions'', JArr (map log_entry_json vers))])
     (run_log api ws path limit)"

text \<open>\<open>detail\<close> is the sentence a report carries.\<close>

definition cmd_conflicts_resolve ::
    "disk_api \<Rightarrow> (command_error \<Rightarrow> string) \<Rightarrow> (relpath \<Rightarrow> string) \<Rightarrow> control \<Rightarrow> int \<Rightarrow> resolve_action \<Rightarrow> control \<times> json" where
  "cmd_conflicts_resolve d failure detail ct i action = (case action of
      ActBoth \<Rightarrow> act failure ct (\<lambda>(p, sidecar). JObj [(''path'', JStr (as_str p)), (''detail'', JStr (detail sidecar))]) (both_ctl d (ct_ws ct) i)
    | ActKeep \<Rightarrow> act failure ct (\<lambda>(p, newly). JObj [(''resolved'', JNum i), (''action'', JStr ''keep''), (''path'', JStr (as_str p)),
        (''newly_resolved'', JBool newly)]) (ack_conflict_ctl (ct_ws ct) i)
    | ActTake \<Rightarrow> act failure ct (\<lambda>p. JObj [(''resolved'', JNum i), (''action'', JStr ''take''), (''path'', JStr (as_str p)),
        (''detail'', JStr (detail p))]) (take_loser_ctl d (ct_ws ct) i))"

definition history_paths_json :: "path_history list \<Rightarrow> json" where
  "history_paths_json ps = JObj [(''paths'', JArr (map path_history_json ps))]"

definition version_diff_json :: "string \<Rightarrow> int \<Rightarrow> int \<Rightarrow> diff_outcome \<Rightarrow> json" where
  "version_diff_json path a b out = JObj [(''path'', JStr path), (''from'', JNum a), (''to'', JNum b),
     (''identical'', JBool (out = Identical)), (''diffable'', JBool (out \<noteq> Undiffable)),
     (''diff'', diff_json (case out of Different ls \<Rightarrow> Some ls | _ \<Rightarrow> None))]"

definition restore_json :: "restore_report \<Rightarrow> json" where
  "restore_json r = JObj [(''path'', JStr (as_str (rr_path r))), (''version'', JNum (rr_version r)), (''size'', JU64 (rr_size r)),
     (''deleted'', JBool (rr_deleted r))]"

definition cmd_set_paused :: "control \<Rightarrow> bool \<Rightarrow> control \<times> json" where
  "cmd_set_paused ct paused =
     (ct\<lparr>ct_paused := paused, ct_nudges := ct_nudges ct @ [if paused then NudgePause else NudgeResume]\<rparr>,
      ok_reply (JObj [(''paused'', JBool paused), (''already'', JBool (ct_paused ct = paused))]))"

definition cmd_stop :: "control \<Rightarrow> control \<times> json" where
  "cmd_stop ct = (ct\<lparr>ct_shutdown := True, ct_nudges := ct_nudges ct @ [NudgeShutdown]\<rparr>, ok_reply (JObj [(''stopping'', JBool True)]))"

definition cmd_status :: "control \<Rightarrow> json" where
  "cmd_status ct = (case ct_status ct of Inl e \<Rightarrow> err_reply e | Inr v \<Rightarrow> ok_reply (JObj [(''status'', v)]))"

definition relpath_text :: "string \<Rightarrow> string \<Rightarrow> string" where
  "relpath_text base path = (case to_relpath base path of Inr rel \<Rightarrow> as_str rel | Inl _ \<Rightarrow> path)"

text \<open>The texts the server puts into its replies.\<close>

record reply_texts =
  tx_failure :: "command_error \<Rightarrow> string"
  tx_detail :: "relpath \<Rightarrow> string"
  tx_no_command :: string
  tx_bad_hello :: string
  tx_bad_version :: string

definition run_command :: "disk_api \<Rightarrow> reply_texts \<Rightarrow> control \<Rightarrow> command option \<Rightarrow> control \<times> json" where
  "run_command d tx ct cmd = (let api = dk_store d; ws = ct_ws ct; failure = tx_failure tx in case cmd of
      None \<Rightarrow> (ct, err_reply (tx_no_command tx))
    | Some CmdPing \<Rightarrow> (ct, ok_reply (JObj [(''pong'', JBool True)]))
    | Some CmdStatus \<Rightarrow> (ct, cmd_status ct)
    | Some (CmdConflictsList all) \<Rightarrow> (ct, answer failure (\<lambda>v. JObj [(''conflicts'', v)]) (list_value api ws all))
    | Some (CmdConflictShow i) \<Rightarrow> (ct, answer failure (\<lambda>(c, diff). conflict_detail_json c diff) (show_value api ws i))
    | Some (CmdConflictsResolve i action) \<Rightarrow> cmd_conflicts_resolve d failure (tx_detail tx) ct i action
    | Some (CmdHistoryPaths limit) \<Rightarrow> (ct, answer failure history_paths_json (history_paths_value ws limit))
    | Some (CmdHistoryLog path limit) \<Rightarrow> (ct, answer failure id (log_value api ws path limit))
    | Some (CmdVersionDiff path a b) \<Rightarrow>
        (ct, answer failure (version_diff_json (relpath_text (ws_root ws) path) a b) (version_diff api ws path a b))
    | Some (CmdRestore path version) \<Rightarrow> act failure ct restore_json (restore_ctl d ws path version)
    | Some (CmdConflictUnresolve i) \<Rightarrow> act failure ct (\<lambda>(p, newly). JObj [(''unresolved'', JNum i), (''path'', JStr (as_str p)),
        (''newly_unresolved'', JBool newly)]) (unresolve_ctl ws i)
    | Some CmdPause \<Rightarrow> cmd_set_paused ct True
    | Some CmdResume \<Rightarrow> cmd_set_paused ct False
    | Some CmdStop \<Rightarrow> cmd_stop ct)"

section \<open>Connections\<close>

datatype connection = ClosedSilently | Streaming | Answered json

text \<open>The first line of a client: none at all, no JSON, or a value.\<close>

definition handle_conn :: "disk_api \<Rightarrow> reply_texts \<Rightarrow> control \<Rightarrow> json option option \<Rightarrow> control \<times> connection" where
  "handle_conn d tx ct line = (case line of
      None \<Rightarrow> (ct, ClosedSilently)
    | Some v \<Rightarrow> (case Option.bind v read_hello of
          None \<Rightarrow> (ct, Answered (err_reply (tx_bad_hello tx)))
        | Some hello \<Rightarrow>
            if ch_v hello \<noteq> PROTOCOL_V then (ct, Answered (err_reply (tx_bad_version tx)))
            else (case ch_mode hello of ModeEvents \<Rightarrow> (ct, Streaming) | ModeCommand \<Rightarrow> apsnd Answered (run_command d tx ct (ch_cmd hello)))))"

section \<open>The client\<close>

text \<open>\<^verbatim>\<open>send_command\<close> over a working socket.\<close>

definition send_command :: "disk_api \<Rightarrow> reply_texts \<Rightarrow> control \<Rightarrow> json \<Rightarrow> control \<times> (string + json)" where
  "send_command d tx ct cmd = (case handle_conn d tx ct (Some (Some (to_hello_command cmd))) of
      (ct', Answered v) \<Rightarrow> (ct', if Option.bind (json_get ''ok'' v) as_bool = Some True then Inr v
         else Inl (get_or json_str ''command failed'' ''error'' v))
    | (ct', _) \<Rightarrow> (ct', Inl ''bad reply''))"

definition client_reply :: "ctl_request \<Rightarrow> json \<Rightarrow> string + cmd_reply" where
  "client_reply req v = (let field = (\<lambda>k. case json_get k v of Some x \<Rightarrow> x | None \<Rightarrow> JNull) in case req of
      ReqConflictsList \<Rightarrow> Inr (RepConflicts (parse_conflicts (field ''conflicts'')))
    | ReqConflictShow i \<Rightarrow> (case (case Option.bind (json_get ''conflict'' v) parse_detail of Some x \<Rightarrow> Some x | None \<Rightarrow> parse_detail v) of
          Some detail \<Rightarrow> Inr (RepShow i detail)
        | None \<Rightarrow> Inl ''malformed conflict_show reply'')
    | ReqHistoryPaths _ \<Rightarrow> Inr (RepHistoryPaths (parse_history_paths (field ''paths'')))
    | ReqHistoryLog p _ \<Rightarrow> Inr (RepHistoryLog p (parse_history_log (field ''versions'')))
    | ReqVersionDiff _ a b \<Rightarrow> Inr (RepVersionDiff a b (parse_version_diff v))
    | ReqRestore p i \<Rightarrow> Inr (RepRestored (get_or json_str p ''path'' v) (get_or as_i64 i ''version'' v) (get_or as_u64 0 ''size'' v))
    | ReqConflictUnresolve _ \<Rightarrow> Inr RepUnresolved
    | ReqPause \<Rightarrow> Inr (RepPauseState (get_or as_bool False ''paused'' v))
    | ReqResume \<Rightarrow> Inr (RepPauseState (get_or as_bool False ''paused'' v))
    | ReqResolve _ _ \<Rightarrow> Inr RepResolved
    | ReqStop \<Rightarrow> Inr RepResolved)"

text \<open>A request sent, answered and read: \<^verbatim>\<open>dispatch\<close> with \<^verbatim>\<open>run_request\<close>.\<close>

definition run_request :: "disk_api \<Rightarrow> reply_texts \<Rightarrow> control \<Rightarrow> out_command \<Rightarrow> control \<times> cmd_outcome" where
  "run_request d tx ct oc = (case send_command d tx ct (to_json (oc_req oc)) of
      (ct', Inl e) \<Rightarrow> (ct', \<lparr>co_seq = oc_seq oc, co_result = Inl e\<rparr>)
    | (ct', Inr v) \<Rightarrow> (ct', \<lparr>co_seq = oc_seq oc, co_result = client_reply (oc_req oc) v\<rparr>))"

end
