(* ===== verification/Tomo_Console.thy ===== *)
theory Tomo_Console
  imports Tomo_Tui
begin

text \<open>
  Properties of the terminal interface's reducer. An invariant of a model is a predicate with
  equations for the fields it does not read, so that each operation preserves it by simplification;
  the loop lifts preservation from one message to all.
\<close>

section \<open>Bounds\<close>

definition in_range :: "nat \<Rightarrow> nat \<Rightarrow> bool" where
  "in_range i n \<longleftrightarrow> i < n \<or> i = 0"

definition console_ok :: "model \<Rightarrow> bool" where
  "console_ok m \<longleftrightarrow> length (md_events m) \<le> MAX_EVENTS \<and> (md_follow m \<longrightarrow> md_scroll m = 0 \<and> \<not> md_new_activity m) \<and>
     in_range (md_picker_sel m) (length (filtered_paths m)) \<and> in_range (md_timeline_sel m) (length (md_timeline m)) \<and>
     (md_flash m = None \<longleftrightarrow> md_flash_ticks m = 0) \<and> md_flash_ticks m \<le> FLASH_TICKS \<and> md_celebrate_ticks m \<le> CELEBRATE_TICKS"

lemma console_frame [simp]:
  "console_ok (m\<lparr>md_screen := a1\<rparr>) = console_ok m" "console_ok (m\<lparr>md_help := a2\<rparr>) = console_ok m"
  "console_ok (m\<lparr>md_modal := a3\<rparr>) = console_ok m" "console_ok (m\<lparr>md_quit := a2\<rparr>) = console_ok m"
  "console_ok (m\<lparr>md_stopping := a2\<rparr>) = console_ok m" "console_ok (m\<lparr>md_synced_total := a4\<rparr>) = console_ok m"
  "console_ok (m\<lparr>md_resolved_total := a4\<rparr>) = console_ok m" "console_ok (m\<lparr>md_now_ms := a4\<rparr>) = console_ok m"
  "console_ok (m\<lparr>md_filter := a5\<rparr>) = console_ok m" "console_ok (m\<lparr>md_filter_editing := a2\<rparr>) = console_ok m"
  "console_ok (m\<lparr>md_transfers := a6\<rparr>) = console_ok m" "console_ok (m\<lparr>md_peer_name := a5\<rparr>) = console_ok m"
  "console_ok (m\<lparr>md_peer_addr := a5\<rparr>) = console_ok m" "console_ok (m\<lparr>md_connected := a2\<rparr>) = console_ok m"
  "console_ok (m\<lparr>md_paused := a2\<rparr>) = console_ok m" "console_ok (m\<lparr>md_unresolved := a4\<rparr>) = console_ok m"
  "console_ok (m\<lparr>md_last_sync_wall_ms := a7\<rparr>) = console_ok m" "console_ok (m\<lparr>md_conflicts := a8\<rparr>) = console_ok m"
  "console_ok (m\<lparr>md_pending_resolved := a9\<rparr>) = console_ok m" "console_ok (m\<lparr>md_pending_cmds := b1\<rparr>) = console_ok m"
  "console_ok (m\<lparr>md_adopted_ids := a9\<rparr>) = console_ok m" "console_ok (m\<lparr>md_group_collapsed := a2\<rparr>) = console_ok m"
  "console_ok (m\<lparr>md_sel := b2\<rparr>) = console_ok m" "console_ok (m\<lparr>md_diffs := b3\<rparr>) = console_ok m"
  "console_ok (m\<lparr>md_diff_requested := a9\<rparr>) = console_ok m" "console_ok (m\<lparr>md_undo := b4\<rparr>) = console_ok m"
  "console_ok (m\<lparr>md_history_path := a5\<rparr>) = console_ok m" "console_ok (m\<lparr>md_mark := b5\<rparr>) = console_ok m"
  "console_ok (m\<lparr>md_version_diffs := b6\<rparr>) = console_ok m" "console_ok (m\<lparr>md_version_diff_requested := b7\<rparr>) = console_ok m"
  "console_ok (m\<lparr>md_outbox := b8\<rparr>) = console_ok m" "console_ok (m\<lparr>md_next_seq := a4\<rparr>) = console_ok m"
  by (simp_all add: console_ok_def filtered_paths_def)

lemma in_range_move: "in_range (move_index n i delta) n"
proof (cases "n = 0")
  case False
  have "as_i32 k \<le> int k" for k by (simp add: as_i32_def)
  from this [of "n - 1"] have "nat (max 0 (min (as_i32 (n - 1)) x)) \<le> n - 1" for x :: int by linarith
  then show ?thesis using False by (simp add: move_index_def in_range_def) (metis Suc_pred diff_Suc_1 le_imp_less_Suc neq0_conv)
qed (simp add: move_index_def in_range_def)

lemma in_range_clamp: "in_range (clamp_index n i) n"
  by (auto simp: clamp_index_def in_range_def)

lemma in_range_0 [simp]: "in_range 0 n"
  by (simp add: in_range_def)

lemma enqueue_console [simp]: "console_ok (enqueue r m) = console_ok m"
  by (simp add: enqueue_def)

lemma enqueue_resolve_console [simp]: "console_ok (enqueue_resolve v i m) = console_ok m"
  by (simp add: enqueue_resolve_def Let_def)

lemma fold_console [simp]:
  "console_ok (fold (enqueue_resolve v) is m) = console_ok m" "console_ok (fold enqueue rs m) = console_ok m"
  by (induction "is" arbitrary: m, simp_all) (induction rs arbitrary: m, simp_all)

lemma set_flash_console [simp]: "console_ok m \<Longrightarrow> console_ok (set_flash f m)"
  by (auto simp: console_ok_def set_flash_def filtered_paths_def FLASH_TICKS_def)

lemma push_line_console [simp]: "console_ok m \<Longrightarrow> console_ok (push_line e m)"
  by (auto simp: console_ok_def push_line_def filtered_paths_def Let_def)

lemma ensure_console [simp]: "console_ok (ensure_diff_loaded m) = console_ok m" "console_ok (ensure_version_diff_loaded m) = console_ok m"
  by (simp_all add: ensure_diff_loaded_def ensure_version_diff_loaded_def split: option.split)

lemma clamp_selection_console [simp]: "console_ok (clamp_selection m) = console_ok m"
  by (simp add: clamp_selection_def)

lemma clamp_picker_console:
  "console_ok m \<Longrightarrow> console_ok (clamp_picker (m\<lparr>md_picker_filter := f\<rparr>))" "console_ok m \<Longrightarrow> console_ok (clamp_picker (m\<lparr>md_history_paths := rows\<rparr>))"
  by (simp_all add: console_ok_def clamp_picker_def filtered_paths_def in_range_clamp)

lemma moves_console [simp]: "console_ok m \<Longrightarrow> console_ok (move_sel delta m)" "console_ok m \<Longrightarrow> console_ok (picker_move delta m)"
    "console_ok m \<Longrightarrow> console_ok (timeline_move delta m)"
  by (simp_all add: move_sel_def picker_move_def timeline_move_def)
    (auto simp: console_ok_def filtered_paths_def in_range_move)

lemma timeline_console [simp]: "console_ok m \<Longrightarrow> console_ok (m\<lparr>md_timeline := rows, md_timeline_sel := 0\<rparr>)"
  by (auto simp: console_ok_def filtered_paths_def)

lemma tick_console [simp]: "console_ok m \<Longrightarrow> console_ok (tick m)"
  by (auto simp: console_ok_def tick_def filtered_paths_def Let_def)


lemma ingest_event_console [simp]: "console_ok m \<Longrightarrow> console_ok (ingest_event e m)"
  by (simp add: ingest_event_def sync_line_def update_transfer_def Let_def split: ctl_event.split option.split)

lemma after_resolve_console [simp]: "console_ok m \<Longrightarrow> console_ok (after_resolve m)"
  by (simp add: after_resolve_def) (auto simp: console_ok_def filtered_paths_def)

lemma ingest_cmd_console [simp]: "console_ok m \<Longrightarrow> console_ok (ingest_cmd out m)"
proof -
  assume ok: "console_ok m"
  then have "console_ok (m\<lparr>md_timeline := rows, md_timeline_sel := 0, md_mark := b\<rparr>)" for rows b
    by (auto simp: console_ok_def filtered_paths_def)
  then show ?thesis using ok
    by (simp add: ingest_cmd_def clamp_picker_console Let_def split: sum.split cmd_reply.split option.split)
qed

lemma verdict_console [simp]: "console_ok m \<Longrightarrow> console_ok (give_verdict v m)" "console_ok m \<Longrightarrow> console_ok (confirm_ack_all m)"
    "console_ok m \<Longrightarrow> console_ok (undo m)"
  by (simp_all add: give_verdict_def confirm_ack_all_def undo_def Let_def split: option.split)

lemma keys_console [simp]: "console_ok m \<Longrightarrow> console_ok (toggle_pause m)" "console_ok m \<Longrightarrow> console_ok (refollow m)"
    "console_ok m \<Longrightarrow> console_ok (scroll_up k m)" "console_ok m \<Longrightarrow> console_ok (toggle_mark m)"
    "console_ok m \<Longrightarrow> console_ok (request_quit m)" "console_ok m \<Longrightarrow> console_ok (open_restore_confirm m)"
    "console_ok m \<Longrightarrow> console_ok (confirm_restore m)" "console_ok m \<Longrightarrow> console_ok (enter_conflicts m)"
    "console_ok m \<Longrightarrow> console_ok (filter_key key m)"
  apply (simp_all add: toggle_pause_def toggle_mark_def request_quit_def open_restore_confirm_def confirm_restore_def
      enter_conflicts_def filter_key_def Let_def split: option.split modal.split tui_key.split)
  by (auto simp: console_ok_def filtered_paths_def refollow_def scroll_up_def)


lemma enter_console [simp]: "console_ok m \<Longrightarrow> console_ok (scroll_down k m)" "console_ok m \<Longrightarrow> console_ok (enter_history_picker m)"
    "console_ok m \<Longrightarrow> console_ok (open_timeline m)"
  by (simp_all add: scroll_down_def enter_history_picker_def open_timeline_def split: option.split)
    (auto simp: console_ok_def filtered_paths_def refollow_def)

lemma screen_keys_console [simp]: "console_ok m \<Longrightarrow> console_ok (main_key k m)" "console_ok m \<Longrightarrow> console_ok (conflict_key k m)"
    "console_ok m \<Longrightarrow> console_ok (timeline_key k m)" "console_ok m \<Longrightarrow> console_ok (picker_key k m)"
  by (simp add: main_key_def, simp add: conflict_key_def Let_def, simp add: timeline_key_def)
    (simp add: picker_key_def clamp_picker_console split: tui_key.split)

lemma key_press_console [simp]: "console_ok m \<Longrightarrow> console_ok (key_press k m)"
  by (simp add: key_press_def split: option.split modal.split screen.split)

lemma update_console [simp]: "console_ok m \<Longrightarrow> console_ok (update m msg)"
  by (simp add: update_def split: tui_msg.split)

lemma event_loop_console: "console_ok m \<Longrightarrow> console_ok (fst (event_loop m tms))"
  by (induction tms arbitrary: m) (auto simp: loop_step_def Let_def split: prod.split)

text \<open>Requests.\<close>

definition asked :: "ctl_request \<Rightarrow> out_command list \<Rightarrow> bool" where
  "asked r out \<longleftrightarrow> r \<in> oc_req ` set out"

text \<open>A conflict whose diff was requested and is not there.\<close>

definition waits :: "int \<Rightarrow> model \<Rightarrow> bool" where
  "waits i m \<longleftrightarrow> i \<in> md_diff_requested m \<and> md_diffs m i = None \<and> \<not> asked (ReqConflictShow i) (md_outbox m)"

lemma waits_frame [simp]:
  "waits i (m\<lparr>md_screen := a1\<rparr>) = waits i m" "waits i (m\<lparr>md_help := a2\<rparr>) = waits i m"
  "waits i (m\<lparr>md_modal := a3\<rparr>) = waits i m" "waits i (m\<lparr>md_quit := a2\<rparr>) = waits i m"
  "waits i (m\<lparr>md_stopping := a2\<rparr>) = waits i m" "waits i (m\<lparr>md_synced_total := a4\<rparr>) = waits i m"
  "waits i (m\<lparr>md_resolved_total := a4\<rparr>) = waits i m" "waits i (m\<lparr>md_now_ms := a4\<rparr>) = waits i m"
  "waits i (m\<lparr>md_filter := a5\<rparr>) = waits i m" "waits i (m\<lparr>md_filter_editing := a2\<rparr>) = waits i m"
  "waits i (m\<lparr>md_transfers := a6\<rparr>) = waits i m" "waits i (m\<lparr>md_peer_name := a5\<rparr>) = waits i m"
  "waits i (m\<lparr>md_peer_addr := a5\<rparr>) = waits i m" "waits i (m\<lparr>md_connected := a2\<rparr>) = waits i m"
  "waits i (m\<lparr>md_paused := a2\<rparr>) = waits i m" "waits i (m\<lparr>md_unresolved := a4\<rparr>) = waits i m"
  "waits i (m\<lparr>md_last_sync_wall_ms := a7\<rparr>) = waits i m" "waits i (m\<lparr>md_conflicts := a8\<rparr>) = waits i m"
  "waits i (m\<lparr>md_pending_resolved := a9\<rparr>) = waits i m" "waits i (m\<lparr>md_pending_cmds := b1\<rparr>) = waits i m"
  "waits i (m\<lparr>md_adopted_ids := a9\<rparr>) = waits i m" "waits i (m\<lparr>md_group_collapsed := a2\<rparr>) = waits i m"
  "waits i (m\<lparr>md_sel := b2\<rparr>) = waits i m" "waits i (m\<lparr>md_undo := b4\<rparr>) = waits i m"
  "waits i (m\<lparr>md_history_path := a5\<rparr>) = waits i m" "waits i (m\<lparr>md_mark := b5\<rparr>) = waits i m"
  "waits i (m\<lparr>md_version_diffs := b6\<rparr>) = waits i m" "waits i (m\<lparr>md_version_diff_requested := b7\<rparr>) = waits i m"
  "waits i (m\<lparr>md_next_seq := a4\<rparr>) = waits i m" "waits i (m\<lparr>md_events := b8\<rparr>) = waits i m"
  "waits i (m\<lparr>md_follow := a2\<rparr>) = waits i m" "waits i (m\<lparr>md_scroll := b2\<rparr>) = waits i m"
  "waits i (m\<lparr>md_new_activity := a2\<rparr>) = waits i m" "waits i (m\<lparr>md_history_paths := b9\<rparr>) = waits i m"
  "waits i (m\<lparr>md_picker_filter := c1\<rparr>) = waits i m" "waits i (m\<lparr>md_picker_sel := b2\<rparr>) = waits i m"
  "waits i (m\<lparr>md_timeline := c2\<rparr>) = waits i m" "waits i (m\<lparr>md_timeline_sel := b2\<rparr>) = waits i m"
  "waits i (m\<lparr>md_flash := c3\<rparr>) = waits i m" "waits i (m\<lparr>md_flash_ticks := b2\<rparr>) = waits i m"
  "waits i (m\<lparr>md_celebrate_ticks := b2\<rparr>) = waits i m"
  by (simp_all add: waits_def)

lemma enqueue_waits: "r \<noteq> ReqConflictShow i \<Longrightarrow> waits i (enqueue r m) = waits i m"
  by (auto simp: waits_def enqueue_def asked_def)

lemmas waits_enqueue [simp] = enqueue_waits [of ReqConflictsList, simplified] enqueue_waits [of "ReqResolve a b" for a b, simplified]
  enqueue_waits [of "ReqHistoryPaths a" for a, simplified] enqueue_waits [of "ReqHistoryLog a b" for a b, simplified]
  enqueue_waits [of "ReqVersionDiff a b c" for a b c, simplified] enqueue_waits [of "ReqRestore a b" for a b, simplified]
  enqueue_waits [of "ReqConflictUnresolve a" for a, simplified] enqueue_waits [of ReqPause, simplified] enqueue_waits [of ReqResume, simplified]

lemma waits_ensure [simp]: "waits i m \<Longrightarrow> waits i (ensure_diff_loaded m)"
  by (auto simp: ensure_diff_loaded_def waits_def enqueue_def asked_def split: option.split)

lemma waits_small [simp]: "waits i (enqueue_resolve v j m) = waits i m" "waits i (set_flash f m) = waits i m"
    "waits i (push_line e m) = waits i m" "waits i (update_transfer p d t m) = waits i m" "waits i (tick m) = waits i m"
    "waits i (ensure_version_diff_loaded m) = waits i m" "waits i (clamp_picker m) = waits i m" "waits i (picker_move x m) = waits i m"
  by (simp_all add: enqueue_resolve_def set_flash_def push_line_def update_transfer_def tick_def ensure_version_diff_loaded_def
      clamp_picker_def picker_move_def Let_def split: option.split)

lemma waits_fold [simp]: "waits i (fold (enqueue_resolve v) is m) = waits i m"
  by (induction "is" arbitrary: m) simp_all

lemma waits_undo: "waits i (fold enqueue (undo_requests plan) m) = waits i m"
  by (simp add: undo_requests_def split: verdict.split option.split)

lemma waits_selection [simp]: "waits i m \<Longrightarrow> waits i (clamp_selection m)" "waits i m \<Longrightarrow> waits i (move_sel x m)"
    "waits i (timeline_move x m) = waits i m"
  by (simp_all add: clamp_selection_def move_sel_def timeline_move_def)

lemma waits_verdicts [simp]: "waits i m \<Longrightarrow> waits i (after_resolve m)" "waits i m \<Longrightarrow> waits i (give_verdict v m)"
    "waits i m \<Longrightarrow> waits i (confirm_ack_all m)" "waits i m \<Longrightarrow> waits i (undo m)"
  by (simp_all add: after_resolve_def give_verdict_def confirm_ack_all_def undo_def waits_undo Let_def split: option.split)

lemma waits_handlers [simp]: "waits i (ingest_event e m) = waits i m" "waits i m \<Longrightarrow> waits i (key_press k m)"
  subgoal by (simp add: ingest_event_def sync_line_def Let_def split: ctl_event.split option.split)
  subgoal by (simp add: key_press_def main_key_def filter_key_def picker_key_def timeline_key_def conflict_key_def request_quit_def toggle_pause_def
        refollow_def scroll_up_def scroll_down_def enter_conflicts_def enter_history_picker_def open_timeline_def toggle_mark_def
        open_restore_confirm_def confirm_restore_def Let_def split: option.split modal.split screen.split tui_key.split)
  done

lemma waits_ingest_cmd: "waits i m \<Longrightarrow> (\<And>d. co_result out \<noteq> Inr (RepShow i d)) \<Longrightarrow> waits i (ingest_cmd out m)"
  apply (simp add: ingest_cmd_def Let_def split: sum.split cmd_reply.split option.split)
  by (auto simp: waits_def)

lemma event_loop_invariant:
  assumes "I m" and "\<And>m t msg. I m \<Longrightarrow> good msg \<Longrightarrow> I (update (m\<lparr>md_now_ms := t\<rparr>) msg)"
    and "\<And>m out. I m \<Longrightarrow> I (m\<lparr>md_outbox := out\<rparr>)" and "\<And>t msg. (t, msg) \<in> set tms \<Longrightarrow> good msg"
  shows "I (fst (event_loop m tms))"
  using assms(1,4)
proof (induction tms arbitrary: m)
  case (Cons tm tms)
  obtain t msg where [simp]: "tm = (t, msg)" by (cases tm)
  let ?m = "update (m\<lparr>md_now_ms := t\<rparr>) msg"
  have "I ?m" using Cons.prems by (intro assms(2)) auto
  then have "I (?m\<lparr>md_outbox := []\<rparr>)" by (rule assms(3))
  then have "I (fst (event_loop (?m\<lparr>md_outbox := []\<rparr>) tms))" using Cons.prems by (intro Cons.IH) auto
  then show ?case using \<open>I (?m\<lparr>md_outbox := []\<rparr>)\<close> by (auto simp: loop_step_def Let_def split: prod.split)
qed simp

text \<open>A hidden conflict that no request in flight and no undo will show.\<close>

definition hidden :: "int \<Rightarrow> model \<Rightarrow> bool" where
  "hidden i m \<longleftrightarrow> i \<in> md_pending_resolved m \<and> i \<notin> ran (md_pending_cmds m) \<and> (\<forall>p. md_undo m = Some p \<longrightarrow> up_conflict p \<noteq> i)"

lemma hidden_frame [simp]:
  "hidden i (m\<lparr>md_screen := a1\<rparr>) = hidden i m" "hidden i (m\<lparr>md_help := a2\<rparr>) = hidden i m"
  "hidden i (m\<lparr>md_modal := a3\<rparr>) = hidden i m" "hidden i (m\<lparr>md_quit := a2\<rparr>) = hidden i m"
  "hidden i (m\<lparr>md_stopping := a2\<rparr>) = hidden i m" "hidden i (m\<lparr>md_synced_total := a4\<rparr>) = hidden i m"
  "hidden i (m\<lparr>md_resolved_total := a4\<rparr>) = hidden i m" "hidden i (m\<lparr>md_now_ms := a4\<rparr>) = hidden i m"
  "hidden i (m\<lparr>md_filter := a5\<rparr>) = hidden i m" "hidden i (m\<lparr>md_filter_editing := a2\<rparr>) = hidden i m"
  "hidden i (m\<lparr>md_transfers := a6\<rparr>) = hidden i m" "hidden i (m\<lparr>md_peer_name := a5\<rparr>) = hidden i m"
  "hidden i (m\<lparr>md_peer_addr := a5\<rparr>) = hidden i m" "hidden i (m\<lparr>md_connected := a2\<rparr>) = hidden i m"
  "hidden i (m\<lparr>md_paused := a2\<rparr>) = hidden i m" "hidden i (m\<lparr>md_unresolved := a4\<rparr>) = hidden i m"
  "hidden i (m\<lparr>md_last_sync_wall_ms := a7\<rparr>) = hidden i m" "hidden i (m\<lparr>md_conflicts := a8\<rparr>) = hidden i m"
  "hidden i (m\<lparr>md_adopted_ids := a9\<rparr>) = hidden i m" "hidden i (m\<lparr>md_group_collapsed := a2\<rparr>) = hidden i m"
  "hidden i (m\<lparr>md_sel := b2\<rparr>) = hidden i m" "hidden i (m\<lparr>md_diffs := b3\<rparr>) = hidden i m"
  "hidden i (m\<lparr>md_diff_requested := a9\<rparr>) = hidden i m" "hidden i (m\<lparr>md_outbox := b1\<rparr>) = hidden i m"
  "hidden i (m\<lparr>md_history_path := a5\<rparr>) = hidden i m" "hidden i (m\<lparr>md_mark := b5\<rparr>) = hidden i m"
  "hidden i (m\<lparr>md_version_diffs := b6\<rparr>) = hidden i m" "hidden i (m\<lparr>md_version_diff_requested := b7\<rparr>) = hidden i m"
  "hidden i (m\<lparr>md_next_seq := a4\<rparr>) = hidden i m" "hidden i (m\<lparr>md_events := b8\<rparr>) = hidden i m"
  "hidden i (m\<lparr>md_follow := a2\<rparr>) = hidden i m" "hidden i (m\<lparr>md_scroll := b2\<rparr>) = hidden i m"
  "hidden i (m\<lparr>md_new_activity := a2\<rparr>) = hidden i m" "hidden i (m\<lparr>md_history_paths := b9\<rparr>) = hidden i m"
  "hidden i (m\<lparr>md_picker_filter := c1\<rparr>) = hidden i m" "hidden i (m\<lparr>md_picker_sel := b2\<rparr>) = hidden i m"
  "hidden i (m\<lparr>md_timeline := c2\<rparr>) = hidden i m" "hidden i (m\<lparr>md_timeline_sel := b2\<rparr>) = hidden i m"
  "hidden i (m\<lparr>md_flash := c3\<rparr>) = hidden i m" "hidden i (m\<lparr>md_flash_ticks := b2\<rparr>) = hidden i m"
  "hidden i (m\<lparr>md_celebrate_ticks := b2\<rparr>) = hidden i m"
  by (simp_all add: hidden_def)

lemma hidden_small [simp]: "hidden i (enqueue r m) = hidden i m" "hidden i (set_flash f m) = hidden i m"
    "hidden i (push_line e m) = hidden i m" "hidden i (update_transfer p d t m) = hidden i m" "hidden i (tick m) = hidden i m"
    "hidden i (ensure_diff_loaded m) = hidden i m"
    "hidden i (ensure_version_diff_loaded m) = hidden i m" "hidden i (clamp_picker m) = hidden i m" "hidden i (picker_move x m) = hidden i m"
  by (simp_all add: enqueue_def set_flash_def push_line_def update_transfer_def tick_def ensure_diff_loaded_def ensure_version_diff_loaded_def
      clamp_picker_def picker_move_def Let_def split: option.split)

lemma hidden_selection [simp]: "hidden i (clamp_selection m) = hidden i m" "hidden i (move_sel x m) = hidden i m"
    "hidden i (timeline_move x m) = hidden i m" "hidden i (after_resolve m) = hidden i m"
  by (simp_all add: clamp_selection_def move_sel_def timeline_move_def after_resolve_def)

lemma hidden_resolve: "hidden i m \<Longrightarrow> j \<noteq> i \<Longrightarrow> hidden i (enqueue_resolve v j m)"
  by (auto simp: hidden_def enqueue_resolve_def enqueue_def ran_def)

lemma hidden_resolves: "hidden i m \<Longrightarrow> i \<notin> set is \<Longrightarrow> hidden i (fold (enqueue_resolve v) is m)"
  by (induction "is" arbitrary: m) (simp_all add: hidden_resolve)

lemma nth_opt_mem: "nth_opt xs i = Some x \<Longrightarrow> x \<in> set xs"
  by (auto simp: nth_opt_def split: if_splits)

lemma first_child_mem: "first_child rows xs = Some x \<Longrightarrow> x \<in> set xs"
  by (induction rows xs rule: first_child.induct) (auto dest: nth_opt_mem split: option.splits)

lemma selected_visible: "selected_conflict m = Some c \<Longrightarrow> c \<in> set (visible_conflicts m)"
  by (auto simp: selected_conflict_def Let_def find_Some_iff dest: nth_opt_mem first_child_mem split: option.splits vis_row.splits)

lemma visible_not_hidden: "c \<in> set (visible_conflicts m) \<Longrightarrow> hidden i m \<Longrightarrow> lc_conflict c \<noteq> i"
  by (auto simp: visible_conflicts_def hidden_def)

lemma hidden_no_undo: "hidden i m \<Longrightarrow> hidden i (m\<lparr>md_undo := None\<rparr>)"
  by (simp add: hidden_def)

lemma hidden_verdicts [simp]: "hidden i m \<Longrightarrow> hidden i (give_verdict v m)" "hidden i m \<Longrightarrow> hidden i (confirm_ack_all m)"
    "hidden i m \<Longrightarrow> hidden i (undo m)"
proof -
  assume h: "hidden i m"
  have ids: "i \<notin> set (map lc_conflict (filter P (visible_conflicts m)))" for P using visible_not_hidden [OF _ h] by auto
  have "hidden i (m\<lparr>md_undo := Some p\<rparr>)" if "up_conflict p \<noteq> i" for p using h that by (simp add: hidden_def)
  then show "hidden i (give_verdict v m)" using ids [of "adopted_row m"] visible_not_hidden [OF selected_visible h]
    by (auto simp: give_verdict_def Let_def h hidden_no_undo hidden_resolves intro!: hidden_resolve split: option.split)
  show "hidden i (confirm_ack_all m)" using ids [of "\<lambda>_. True"]
    by (simp add: confirm_ack_all_def h hidden_no_undo hidden_resolves)
  have "hidden i (fold enqueue rs m) = hidden i m" for rs m by (induction rs arbitrary: m) simp_all
  then have "hidden i (fold enqueue rs (m\<lparr>md_undo := None\<rparr>))" for rs using h by (simp add: hidden_no_undo)
  moreover have "hidden i (x\<lparr>md_pending_resolved := md_pending_resolved x - {j}\<rparr>)" if "hidden i x" "j \<noteq> i" for x j
    using that by (simp add: hidden_def)
  moreover have "up_conflict p \<noteq> i" if "md_undo m = Some p" for p using h that by (simp add: hidden_def)
  ultimately show "hidden i (undo m)" using h by (auto simp: undo_def Let_def split: option.split)
qed

lemma hidden_handlers [simp]: "hidden i (ingest_event e m) = hidden i m" "hidden i m \<Longrightarrow> hidden i (key_press k m)"
  subgoal by (simp add: ingest_event_def sync_line_def Let_def split: ctl_event.split option.split)
  subgoal by (simp add: key_press_def main_key_def filter_key_def picker_key_def timeline_key_def conflict_key_def request_quit_def toggle_pause_def
        refollow_def scroll_up_def scroll_down_def enter_conflicts_def enter_history_picker_def open_timeline_def toggle_mark_def
        open_restore_confirm_def confirm_restore_def Let_def split: option.split modal.split screen.split tui_key.split)
  done

lemma hidden_ingest_cmd:
  assumes h: "hidden i m" and lists: "\<And>rows. co_result out = Inr (RepConflicts rows) \<Longrightarrow> i \<in> lc_conflict ` set rows"
  shows "hidden i (ingest_cmd out m)"
proof -
  have "hidden i (m\<lparr>md_conflicts := rows, md_pending_resolved := md_pending_resolved m \<inter> lc_conflict ` set rows, md_undo := None\<rparr>)"
    if "co_result out = Inr (RepConflicts rows)" for rows using h lists [OF that] by (simp add: hidden_def)
  moreover have "hidden i (x\<lparr>md_pending_cmds := (md_pending_cmds x)(s := None)\<rparr>)" if "hidden i x" for x s
    using that by (auto simp: hidden_def ran_def)
  moreover have "hidden i (x\<lparr>md_pending_cmds := (md_pending_cmds x)(s := None), md_pending_resolved := md_pending_resolved x - {j}\<rparr>)"
    if "hidden i x" "md_pending_cmds x s = Some j" for x s j
    using that by (auto simp: hidden_def ran_def)
  moreover have "hidden i (set_flash f m)" for f using h by simp
  ultimately show ?thesis using h
    by (auto simp: ingest_cmd_def Let_def split: sum.split cmd_reply.split option.split)
qed

text \<open>C23: The console stays within its bounds. Whatever events, keys, ticks and replies arrive in
  whatever order, at most 2000 lines are kept, the selections of the path picker and of the
  timeline are within their lists, a followed stream is at its end, and a footer message has
  ticks left to live.\<close>

theorem console_within_bounds:
  "console_ok (fst (event_loop (model_default\<lparr>md_foreground := fg\<rparr>) tms))"
proof -
  have "console_ok (model_default\<lparr>md_foreground := fg\<rparr>)"
    by (simp add: console_ok_def model_default_def filtered_paths_def)
  then show ?thesis by (rule event_loop_console)
qed

lemma waits_loop:
  assumes "waits i m" "\<And>t out d. (t, MsgCmd out) \<in> set tms \<Longrightarrow> co_result out \<noteq> Inr (RepShow i d)"
  shows "\<not> asked (ReqConflictShow i) (snd (event_loop m tms)) \<and> md_diffs (fst (event_loop m tms)) i = None"
  using assms
proof (induction tms arbitrary: m)
  case Nil
  then show ?case by (simp add: waits_def asked_def)
next
  case (Cons tm tms)
  obtain t msg where [simp]: "tm = (t, msg)" by (cases tm)
  let ?m = "update (m\<lparr>md_now_ms := t\<rparr>) msg"
  have w: "waits i ?m" using Cons.prems by (auto simp: update_def intro!: waits_ingest_cmd split: tui_msg.split)
  then have w': "waits i (?m\<lparr>md_outbox := []\<rparr>)" by (simp add: waits_def asked_def)
  have "\<not> asked (ReqConflictShow i) (snd (event_loop (?m\<lparr>md_outbox := []\<rparr>) tms)) \<and>
      md_diffs (fst (event_loop (?m\<lparr>md_outbox := []\<rparr>) tms)) i = None"
    by (rule Cons.IH [OF w']) (use Cons.prems(2) in auto)
  then show ?case using w by (auto simp: loop_step_def Let_def asked_def waits_def split: prod.split)
qed

text \<open>A diff that failed to load is never asked for again. Once the detail of a conflict was
  requested, and as long as none arrives, an error reply included, the console sends no further
  request for it, whatever the user does; the pane stays empty.\<close>

theorem failed_diff_never_retried:
  assumes "i \<in> md_diff_requested m" "md_diffs m i = None" "md_outbox m = []"
    and "\<And>t out d. (t, MsgCmd out) \<in> set tms \<Longrightarrow> co_result out \<noteq> Inr (RepShow i d)"
  shows "ReqConflictShow i \<notin> oc_req ` set (snd (event_loop m tms)) \<and> md_diffs (fst (event_loop m tms)) i = None"
  using waits_loop [of i m tms] assms by (simp add: waits_def asked_def)

text \<open>A resolved conflict that is reopened elsewhere stays hidden. Once a verdict is confirmed
  its row remains marked as pending, and as long as every list the server sends names the conflict
  as unresolved, the console does not show it again.\<close>

theorem reopened_conflict_hidden:
  assumes "i \<in> md_pending_resolved m" "i \<notin> ran (md_pending_cmds m)" "md_undo m = None"
    and "\<And>t out rows. (t, MsgCmd out) \<in> set tms \<Longrightarrow> co_result out = Inr (RepConflicts rows) \<Longrightarrow> i \<in> lc_conflict ` set rows"
  shows "i \<notin> lc_conflict ` set (visible_conflicts (fst (event_loop m tms)))"
proof -
  have "hidden i (fst (event_loop m tms))"
  proof (rule event_loop_invariant [where good = "\<lambda>msg. \<forall>out rows. msg = MsgCmd out \<longrightarrow> co_result out = Inr (RepConflicts rows) \<longrightarrow>
        i \<in> lc_conflict ` set rows"])
    show "hidden i m" using assms(1-3) by (simp add: hidden_def)
  next
    fix m :: model and t msg
    assume "hidden i m" "\<forall>out rows. msg = MsgCmd out \<longrightarrow> co_result out = Inr (RepConflicts rows) \<longrightarrow> i \<in> lc_conflict ` set rows"
    then show "hidden i (update (m\<lparr>md_now_ms := t\<rparr>) msg)" by (auto simp: update_def hidden_ingest_cmd split: tui_msg.split)
  qed (use assms(4) in auto)
  then show ?thesis by (auto dest: visible_not_hidden)
qed

lemma fold_resolve_asks: "set (map oc_req (md_outbox (fold (enqueue_resolve v) is m))) =
    oc_req ` set (md_outbox m) \<union> (\<lambda>i. ReqResolve i v) ` set is"
  by (induction "is" arbitrary: m) (auto simp: enqueue_resolve_def enqueue_def Let_def)

lemma enqueue_asks: "oc_req ` set (md_outbox m) \<subseteq> oc_req ` set (md_outbox (ensure_diff_loaded m))"
  by (auto simp: ensure_diff_loaded_def enqueue_def split: option.split)

lemma after_resolve_asks: "oc_req ` set (md_outbox m) \<subseteq> oc_req ` set (md_outbox (after_resolve m))"
  using enqueue_asks [of "m\<lparr>md_sel := clamp_index (length (vis_rows m)) (md_sel m)\<rparr>"]
  by (simp add: after_resolve_def clamp_selection_def)

lemma confirm_ack_all_asks: "c \<in> set (visible_conflicts m) \<Longrightarrow> ReqResolve (lc_conflict c) KeepVerdict \<in> oc_req ` set (md_outbox (confirm_ack_all m))"
  using after_resolve_asks [of "fold (enqueue_resolve KeepVerdict) (map lc_conflict (visible_conflicts m)) (m\<lparr>md_undo := None\<rparr>)"]
    fold_resolve_asks [of KeepVerdict "map lc_conflict (visible_conflicts m)" "m\<lparr>md_undo := None\<rparr>"]
  by (auto simp: confirm_ack_all_def)

text \<open>The prompt for acknowledging all counts what was visible when it opened, the confirmation
  acknowledges what is listed by then. A list that arrives while the prompt is open is
  acknowledged whole, whatever number the prompt shows.\<close>

theorem ack_all_beyond_prompt:
  assumes "\<not> md_help m" "md_modal m = None" "md_screen m = ScreenConflicts" "visible_conflicts m \<noteq> []"
    and "co_result out = Inr (RepConflicts rows)" "c \<in> set rows" "lc_conflict c \<notin> md_pending_resolved m"
  defines "prompted \<equiv> update m (MsgKey (KeyChar (CHR ''a'')))"
  shows "md_modal prompted = Some (AckAll (length (visible_conflicts m))) \<and>
    ReqResolve (lc_conflict c) KeepVerdict \<in> oc_req ` set (md_outbox (update (update prompted (MsgCmd out)) (MsgKey (KeyChar (CHR ''y'')))))"
proof -
  have p: "prompted = m\<lparr>md_modal := Some (AckAll (length (visible_conflicts m)))\<rparr>"
    using assms(1-4) by (simp add: prompted_def update_def key_press_def conflict_key_def)
  let ?m = "update prompted (MsgCmd out)"
  have keep: "\<not> md_help ?m \<and> md_modal ?m = Some (AckAll (length (visible_conflicts m))) \<and> c \<in> set (visible_conflicts ?m)"
    using assms(1,5-7) by (auto simp: p update_def ingest_cmd_def clamp_selection_def ensure_diff_loaded_def enqueue_def visible_conflicts_def
        split: option.split)
  then have "update ?m (MsgKey (KeyChar (CHR ''y''))) = (confirm_ack_all ?m)\<lparr>md_modal := None\<rparr>"
    by (simp add: update_def key_press_def confirms_def)
  then show ?thesis using confirm_ack_all_asks [of c ?m] keep p by simp
qed

text \<open>Keys that may give a verdict.\<close>

definition verdict_key :: "tui_key \<Rightarrow> bool" where
  "verdict_key k \<longleftrightarrow> k = KeyEnter \<or> k = KeyChar (CHR ''t'') \<or> k = KeyChar (CHR ''b'') \<or> k = KeyChar (CHR ''y'')"

lemma celebrate_small [simp]: "md_celebrate_ticks (enqueue r m) = md_celebrate_ticks m" "md_celebrate_ticks (set_flash f m) = md_celebrate_ticks m"
    "md_celebrate_ticks (push_line e m) = md_celebrate_ticks m" "md_celebrate_ticks (update_transfer p d t m) = md_celebrate_ticks m"
    "md_celebrate_ticks (ensure_diff_loaded m) = md_celebrate_ticks m"
    "md_celebrate_ticks (ensure_version_diff_loaded m) = md_celebrate_ticks m" "md_celebrate_ticks (clamp_picker m) = md_celebrate_ticks m"
    "md_celebrate_ticks (picker_move x m) = md_celebrate_ticks m"
  by (simp_all add: enqueue_def set_flash_def push_line_def update_transfer_def ensure_diff_loaded_def ensure_version_diff_loaded_def
      clamp_picker_def picker_move_def Let_def split: option.split)

lemma celebrate_more [simp]: "md_celebrate_ticks (clamp_selection m) = md_celebrate_ticks m" "md_celebrate_ticks (move_sel x m) = md_celebrate_ticks m"
    "md_celebrate_ticks (timeline_move x m) = md_celebrate_ticks m" "md_celebrate_ticks (undo m) = md_celebrate_ticks m"
proof -
  have "md_celebrate_ticks (fold enqueue rs m) = md_celebrate_ticks m" for rs m by (induction rs arbitrary: m) simp_all
  then show "md_celebrate_ticks (undo m) = md_celebrate_ticks m" by (simp add: undo_def Let_def split: option.split)
qed (simp_all add: clamp_selection_def move_sel_def timeline_move_def)

lemma celebrate_calm: "(\<And>k. msg = MsgKey k \<Longrightarrow> \<not> verdict_key k) \<Longrightarrow> msg \<noteq> MsgTick \<Longrightarrow> md_celebrate_ticks (update m msg) = md_celebrate_ticks m"
  apply (cases msg)
  subgoal by (simp add: update_def ingest_event_def sync_line_def Let_def split: ctl_event.split option.split)
  subgoal by (simp add: update_def verdict_key_def confirms_def key_press_def main_key_def filter_key_def picker_key_def timeline_key_def conflict_key_def
        request_quit_def toggle_pause_def refollow_def scroll_up_def scroll_down_def enter_conflicts_def enter_history_picker_def open_timeline_def
        toggle_mark_def open_restore_confirm_def confirm_restore_def Let_def split: option.split modal.split screen.split tui_key.split)
  subgoal by simp
  subgoal by (simp add: update_def ingest_cmd_def Let_def split: sum.split cmd_reply.split option.split)
  done

text \<open>The celebration of an empty list takes the user away from wherever he is. When its last
  tick comes the console switches to the main screen, whatever was opened in the meantime and
  whether the last verdict succeeded or not.\<close>

theorem celebration_ends_on_main:
  assumes "md_celebrate_ticks m = Suc (length (filter (\<lambda>msg. msg = MsgTick) msgs))"
    and "\<And>k. MsgKey k \<in> set msgs \<Longrightarrow> \<not> verdict_key k"
  shows "md_screen (update (foldl update m msgs) MsgTick) = ScreenMain"
  using assms
proof (induction msgs arbitrary: m)
  case Nil
  then show ?case by (simp add: update_def tick_def Let_def)
next
  case (Cons msg msgs)
  have "md_celebrate_ticks (update m msg) = Suc (length (filter (\<lambda>msg. msg = MsgTick) msgs))"
  proof (cases "msg = MsgTick")
    case True
    then show ?thesis using Cons.prems(1) by (simp add: update_def tick_def Let_def)
  next
    case False
    then show ?thesis using Cons.prems celebrate_calm [of msg m] by auto
  qed
  then show ?case using Cons by simp
qed

text \<open>No verdict to keep among the requests.\<close>

definition keeps :: "model \<Rightarrow> bool" where
  "keeps m \<longleftrightarrow> (\<exists>j. ReqResolve j KeepVerdict \<in> oc_req ` set (md_outbox m))"

lemma keeps_small [simp]: "keeps (ensure_diff_loaded m) = keeps m" "keeps (clamp_selection m) = keeps (m\<lparr>md_sel := 0\<rparr>)"
    "keeps (move_sel x m) = keeps (m\<lparr>md_sel := 0\<rparr>)" "keeps (request_quit m) = keeps m" "keeps (toggle_pause m) = keeps m"
    "keeps (after_resolve m) = keeps m" "keeps (undo m) = keeps m" "keeps (m\<lparr>md_sel := i\<rparr>) = keeps m"
proof -
  have enq: "keeps (enqueue r x) = (keeps x \<or> (\<exists>j. r = ReqResolve j KeepVerdict))" for r x by (auto simp: keeps_def enqueue_def image_iff)
  have upd: "keeps (x\<lparr>md_sel := n\<rparr>) = keeps x" "keeps (x\<lparr>md_diff_requested := D\<rparr>) = keeps x" "keeps (x\<lparr>md_modal := M\<rparr>) = keeps x"
      "keeps (x\<lparr>md_paused := b\<rparr>) = keeps x" "keeps (set_flash f x) = keeps x" "keeps (x\<lparr>md_quit := b\<rparr>) = keeps x"
      "keeps (x\<lparr>md_celebrate_ticks := n\<rparr>) = keeps x" "keeps (x\<lparr>md_undo := U\<rparr>) = keeps x" "keeps (x\<lparr>md_pending_resolved := D\<rparr>) = keeps x"
    for x n D M b f U by (simp_all add: keeps_def set_flash_def)
  show e: "keeps (ensure_diff_loaded x) = keeps x" for x by (simp add: ensure_diff_loaded_def enq upd split: option.split)
  show "keeps (clamp_selection m) = keeps (m\<lparr>md_sel := 0\<rparr>)" "keeps (move_sel x m) = keeps (m\<lparr>md_sel := 0\<rparr>)"
      "keeps (after_resolve m) = keeps m" by (simp_all add: clamp_selection_def move_sel_def after_resolve_def e upd)
  show "keeps (request_quit m) = keeps m" "keeps (toggle_pause m) = keeps m" by (simp_all add: request_quit_def toggle_pause_def enq upd Let_def)
  have "keeps (fold enqueue (undo_requests p) x) = keeps x" for p x by (simp add: undo_requests_def enq split: verdict.split option.split)
  then show "keeps (undo m) = keeps m" by (simp add: undo_def enq upd Let_def split: option.split)
  show "keeps (m\<lparr>md_sel := i\<rparr>) = keeps m" by (rule upd)
qed

lemma keeps_resolves: "v \<noteq> KeepVerdict \<Longrightarrow> keeps (fold (enqueue_resolve v) is m) = keeps m"
  using fold_resolve_asks [of v "is" m] by (auto simp: keeps_def)

lemma keeps_verdict: "on_group_header m \<Longrightarrow> v \<noteq> KeepVerdict \<Longrightarrow> keeps (give_verdict v m) = keeps m"
  by (simp add: give_verdict_def Let_def keeps_resolves) (simp add: keeps_def)

text \<open>The group of adopted conflicts cannot be kept. On its header the footer announces keeping
  the whole group, but no key sends a verdict to keep: return folds and unfolds the group.\<close>

theorem group_keep_unreachable:
  assumes "\<not> md_help m" "md_modal m = None" "md_screen m = ScreenConflicts" "on_group_header m" "md_outbox m = []"
  shows "cli_echo m = Some (EchoKeepGroup (group_size m)) \<and>
    (\<forall>k j. ReqResolve j KeepVerdict \<notin> oc_req ` set (md_outbox (update m (MsgKey k))))"
proof -
  have upd: "keeps (m\<lparr>md_screen := a1\<rparr>) = keeps m" "keeps (m\<lparr>md_help := a2\<rparr>) = keeps m" "keeps (m\<lparr>md_quit := a2\<rparr>) = keeps m"
      "keeps (m\<lparr>md_group_collapsed := a2\<rparr>) = keeps m" "keeps (m\<lparr>md_modal := a3\<rparr>) = keeps m" for a1 a2 a3 by (simp_all add: keeps_def)
  have "keeps (update m (MsgKey k)) = keeps m" for k
    using assms(1-4) by (simp add: update_def key_press_def conflict_key_def keeps_verdict upd Let_def)
  then show ?thesis using assms(4,5) by (auto simp: cli_echo_def keeps_def)
qed

section \<open>The console at work\<close>

definition demo_listed :: "int \<Rightarrow> listed_conflict" where
  "demo_listed i = \<lparr>lc_conflict = i, lc_where = ''f'', lc_wall = 0, lc_winner = SideYou\<rparr>"

definition demo_center :: model where
  "demo_center = model_default\<lparr>md_screen := ScreenConflicts, md_conflicts := [demo_listed 7]\<rparr>"

lemma demo_center_fields [simp]: "md_screen demo_center = ScreenConflicts" "md_conflicts demo_center = [demo_listed 7]" "\<not> md_help demo_center"
    "md_modal demo_center = None" "md_outbox demo_center = []" "md_diffs demo_center = Map.empty" "md_pending_resolved demo_center = {}"
    "md_pending_cmds demo_center = Map.empty" "md_undo demo_center = None" "md_adopted_ids demo_center = {}" "md_sel demo_center = 0"
    "md_celebrate_ticks demo_center = 0"
  by (simp_all add: demo_center_def model_default_def)

lemma demo_listed_id [simp]: "lc_conflict (demo_listed i) = i"
  by (simp add: demo_listed_def)

theorem failed_diff_never_retried_witness:
  "ReqConflictShow 7 \<notin> oc_req ` set (snd (event_loop (demo_center\<lparr>md_diff_requested := {7}\<rparr>)
     [(0, MsgCmd \<lparr>co_seq = 0, co_result = Inl ''timed out''\<rparr>), (1, MsgKey KeyDown),
      (2, MsgCmd \<lparr>co_seq = 1, co_result = Inr (RepConflicts [demo_listed 7])\<rparr>)]))"
  by (rule failed_diff_never_retried [THEN conjunct1]) auto

theorem reopened_conflict_hidden_witness:
  "7 \<notin> lc_conflict ` set (visible_conflicts (fst (event_loop (demo_center\<lparr>md_pending_resolved := {7}\<rparr>)
     [(0, MsgCmd \<lparr>co_seq = 1, co_result = Inr (RepConflicts [demo_listed 8, demo_listed 7])\<rparr>), (1, MsgKey KeyDown)])))"
  by (rule reopened_conflict_hidden) auto

theorem ack_all_beyond_prompt_witness:
  "ReqResolve 8 KeepVerdict \<in> oc_req ` set (md_outbox (update (update (update demo_center (MsgKey (KeyChar (CHR ''a''))))
     (MsgCmd \<lparr>co_seq = 1, co_result = Inr (RepConflicts [demo_listed 8, demo_listed 7])\<rparr>)) (MsgKey (KeyChar (CHR ''y'')))))"
  using ack_all_beyond_prompt [of demo_center "\<lparr>co_seq = 1, co_result = Inr (RepConflicts [demo_listed 8, demo_listed 7])\<rparr>"
      "[demo_listed 8, demo_listed 7]" "demo_listed 8"]
  by (simp add: visible_conflicts_def)

theorem celebration_ends_on_main_witness:
  "md_screen (update (foldl update (demo_center\<lparr>md_celebrate_ticks := 2, md_screen := ScreenHistoryPicker\<rparr>) [MsgKey KeyDown, MsgTick]) MsgTick) = ScreenMain"
  by (rule celebration_ends_on_main) (auto simp: verdict_key_def)

theorem group_keep_unreachable_witness:
  "ReqResolve 7 KeepVerdict \<notin> oc_req ` set (md_outbox (update (demo_center\<lparr>md_adopted_ids := {7}\<rparr>) (MsgKey KeyEnter)))"
proof -
  have "on_group_header (demo_center\<lparr>md_adopted_ids := {7}\<rparr>)"
    by (simp add: on_group_header_def vis_rows_def visible_conflicts_def adopted_row_def nth_opt_def Let_def)
  then show ?thesis using group_keep_unreachable [of "demo_center\<lparr>md_adopted_ids := {7}\<rparr>"] by simp
qed

end
