(* ===== verification/Tomo_Channel.thy ===== *)
theory Tomo_Channel
  imports Tomo_Control Tomo_Console
begin

text \<open>
  Properties of the control channel: the event stream a client sees, and the console together
  with the server it sends its commands to.
\<close>

section \<open>The event stream\<close>

fun published :: "'l hub_event list \<Rightarrow> 'l list" where
  "published [] = []"
| "published (HubPublish line # evs) = line # published evs"
| "published (_ # evs) = published evs"

lemma published_append: "published (evs @ evs') = published evs @ published evs'"
  by (induction evs rule: published.induct) simp_all

text \<open>What a subscription holds, given the lines published since and whether the hub was shut.\<close>

definition stream_ok :: "'l \<Rightarrow> 'l list \<Rightarrow> bool \<Rightarrow> 'l subscriber \<Rightarrow> bool" where
  "stream_ok L lines shut s \<longleftrightarrow> length (sb_queue s) \<le> SUBSCRIBER_CAP \<and> (sb_lagged s \<longrightarrow> \<not> sb_registered s) \<and>
     (if sb_live s then prefix (sb_written s @ sb_queue s) lines \<and> (sb_registered s \<longrightarrow> sb_written s @ sb_queue s = lines) \<and>
        (sb_registered s \<or> sb_lagged s \<or> shut)
      else sb_queue s = [] \<and> (\<exists>w. prefix w lines \<and> (sb_written s = w \<or> sb_lagged s \<and> sb_written s = w @ [L])))"

lemma stream_ok_send: "stream_ok L lines shut s \<Longrightarrow> stream_ok L (lines @ [line]) shut (try_send line s)"
  by (auto simp: stream_ok_def try_send_def split: if_splits)

lemma stream_ok_close: "stream_ok L lines shut s \<Longrightarrow> stream_ok L lines True (s\<lparr>sb_registered := False\<rparr>)"
  by (auto simp: stream_ok_def split: if_splits)

lemma stream_ok_turn: "stream_ok L lines shut s \<Longrightarrow> stream_ok L lines shut (stream_turn L writes s)"
  by (auto simp: stream_ok_def stream_turn_def dest: append_prefixD split: if_splits list.split)

lemma stream_ok_run:
  fixes h0 :: "'l subscriber list" and L :: 'l
  defines "i \<equiv> length h0"
  shows "length (hub_run L (subscribe h0) evs) > i \<and>
    stream_ok L (published evs) (HubCloseAll \<in> set evs) (hub_run L (subscribe h0) evs ! i)"
proof (induction evs rule: rev_induct)
  case Nil
  then show ?case by (simp add: hub_run_def subscribe_def stream_ok_def i_def)
next
  case (snoc ev evs)
  define hub where "hub = hub_run L (subscribe h0) evs"
  have run: "hub_run L (subscribe h0) (evs @ [ev]) = hub_step L hub ev" by (simp add: hub_run_def hub_def)
  from snoc have i: "i < length hub" and ok: "stream_ok L (published evs) (HubCloseAll \<in> set evs) (hub ! i)" by (auto simp: hub_def)
  show ?case
  proof (cases ev)
    case HubSubscribe
    then show ?thesis unfolding run using i ok by (simp add: hub_step_def subscribe_def [of hub] published_append nth_append)
  next
    case (HubPublish line)
    then show ?thesis unfolding run using i stream_ok_send [OF ok] by (simp add: hub_step_def publish_def published_append)
  next
    case (HubTurn j writes)
    then show ?thesis unfolding run using i ok stream_ok_turn [OF ok] by (simp add: hub_step_def published_append nth_list_update)
  next
    case HubCloseAll
    then show ?thesis unfolding run using i stream_ok_close [OF ok] by (simp add: hub_step_def close_all_def published_append)
  qed
qed

text \<open>C22: A slow client of the event stream neither holds up the session nor misses a line unnoticed.
  However publishing, subscribing and writing interleave, a client's queue never exceeds its
  capacity, the lines it was written are those published since it subscribed, from the first on
  and without a gap, followed at most by the lagged line, and a client that is connected to an
  open hub and not marked as lagged has every line written or queued.\<close>

theorem event_stream_without_gaps:
  fixes h0 :: "'l subscriber list" and L :: 'l
  defines "client evs \<equiv> hub_run L (subscribe h0) evs ! length h0"
  shows "length (sb_queue (client evs)) \<le> SUBSCRIBER_CAP \<and>
    (\<exists>w. prefix w (published evs) \<and> (sb_written (client evs) = w \<or> sb_lagged (client evs) \<and> sb_written (client evs) = w @ [L])) \<and>
    (sb_live (client evs) \<longrightarrow> sb_lagged (client evs) \<or> HubCloseAll \<in> set evs \<or>
       sb_written (client evs) @ sb_queue (client evs) = published evs)"
  using stream_ok_run [of h0 L evs] unfolding client_def stream_ok_def
  by (auto split: if_splits dest: append_prefixD)

section \<open>Console and server\<close>

text \<open>Commands served one after the other.\<close>

fun serve :: "disk_api \<Rightarrow> reply_texts \<Rightarrow> control \<Rightarrow> out_command list \<Rightarrow> control \<times> cmd_outcome list" where
  "serve d failure ct [] = (ct, [])"
| "serve d failure ct (oc # ocs) = (case run_request d failure ct oc of (ct, out) \<Rightarrow> apsnd ((#) out) (serve d failure ct ocs))"

lemma json_get_append: "json_get k (JObj (kvs @ kvs')) = (case json_get k (JObj kvs) of None \<Rightarrow> json_get k (JObj kvs') | r \<Rightarrow> r)"
  by (simp add: json_get_def map_add_def split: option.split)

lemma ok_reply_ok: "json_get ''ok'' (JObj kvs) = None \<Longrightarrow> json_get ''ok'' (ok_reply (JObj kvs)) = Some (JBool True)"
proof -
  assume "json_get ''ok'' (JObj kvs) = None"
  then have none: "map_of kvs ''ok'' = None" by (simp add: json_get_def)
  then have "''ok'' \<notin> fst ` set kvs" by (simp only: map_of_eq_None_iff not_False_eq_True)
  then show ?thesis using none by (simp add: ok_reply_def Let_def json_get_append) (simp add: json_get_def map_add_def)
qed

lemma ok_reply_field: "json_get k (JObj kvs) = Some v \<Longrightarrow> json_get k (ok_reply (JObj kvs)) = Some v"
  by (simp add: ok_reply_def Let_def json_get_append)

lemma err_reply_ok [simp]: "json_get ''ok'' (err_reply e) = Some (JBool False)"
  by (simp add: err_reply_def)

lemma run_request_eq:
  assumes "request_ok (oc_req oc)" "run_command d tx ct (Some (request_command (oc_req oc))) = (ct', ok_reply (JObj kvs))" "json_get ''ok'' (JObj kvs) = None"
  shows "run_request d tx ct oc = (ct', \<lparr>co_seq = oc_seq oc, co_result = client_reply (oc_req oc) (ok_reply (JObj kvs))\<rparr>)"
  using assms(2) ok_reply_ok [OF assms(3)]
  by (simp add: run_request_def send_command_def handle_conn_def read_hello_to_json [OF assms(1)])

lemma run_request_show: "fst (run_request d tx ct \<lparr>oc_seq = s, oc_req = ReqConflictShow i\<rparr>) = ct"
proof (cases "is_i64 i")
  case True
  then show ?thesis
    using read_hello_to_json [of "ReqConflictShow i"]
    by (simp add: run_request_def send_command_def handle_conn_def run_command_def Let_def split: sum.split prod.split)
next
  case False
  then have "read_command (to_json (ReqConflictShow i)) = None" by (simp add: to_json_def read_command_def need_def as_i64_def)
  then have "read_hello (to_hello_command (to_json (ReqConflictShow i))) = None"
    by (simp add: to_hello_command_def read_hello_def need_def as_u32_def PROTOCOL_V_def read_mode_def to_json_def)
  then show ?thesis by (simp add: run_request_def send_command_def handle_conn_def split: sum.split prod.split)
qed

lemma conflict_records_ids:
  "conflict_records cs = Inr rs \<Longrightarrow> map cn_id rs = map cf_id cs"
  by (induction cs arbitrary: rs) (auto split: sum.splits)

lemma conflict_records_flag:
  "conflict_records cs = Inr rs \<Longrightarrow> \<exists>rs'. conflict_records (map (\<lambda>c. if P c then c\<lparr>cf_resolved := x\<rparr> else c) cs) = Inr rs'"
  by (induction cs arbitrary: rs) (auto split: sum.splits)

lemma find_record_mem: "i \<in> cn_id ` set rs \<Longrightarrow> \<exists>r. find_record rs i = Inr r \<and> cn_id r = i"
proof -
  assume "i \<in> cn_id ` set rs"
  then have "List.find (\<lambda>r. cn_id r = i) rs \<noteq> None" by (auto simp: find_None_iff)
  then obtain r where "List.find (\<lambda>r. cn_id r = i) rs = Some r" by blast
  moreover from this have "cn_id r = i" by (auto simp: find_Some_iff)
  ultimately show ?thesis by (simp add: find_record_def)
qed

lemma ctl_record_ok:
  assumes "ws_initialized ws" "ws_store ws = Some hs" "conflict_records (db_conflicts (hs_db hs)) = Inr rs" "i \<in> cf_id ` set (db_conflicts (hs_db hs))"
  shows "\<exists>r. ctl_record ws i = Inr (hs, r) \<and> cn_id r = i"
proof -
  have "i \<in> cn_id ` set rs" using conflict_records_ids [OF assms(3)] assms(4) by (metis list.set_map)
  from find_record_mem [OF this] show ?thesis using assms(1-3)
    by (auto simp: ctl_record_def require_initialized_def open_store_def lift_store_def conflicts_of_def)
qed

lemma opened_id: "ws_store ws = Some hs \<Longrightarrow> opened ws = ws"
  by (simp add: opened_def open_store_def)

lemma resolve_keep_served:
  assumes "ws_initialized (ct_ws ct)" "ws_store (ct_ws ct) = Some hs" "conflict_records (db_conflicts (hs_db hs)) = Inr rs"
    and "i \<in> cf_id ` set (db_conflicts (hs_db hs))" "is_i64 i"
  shows "run_request d f ct \<lparr>oc_seq = s, oc_req = ReqResolve i KeepVerdict\<rparr> =
      (ct\<lparr>ct_ws := (ct_ws ct)\<lparr>ws_store := Some (hs\<lparr>hs_db := fst (mark_conflict_resolved (hs_db hs) i)\<rparr>)\<rparr>\<rparr>, \<lparr>co_seq = s, co_result = Inr RepResolved\<rparr>)"
    "run_request d f ct \<lparr>oc_seq = s, oc_req = ReqConflictUnresolve i\<rparr> =
      (ct\<lparr>ct_ws := (ct_ws ct)\<lparr>ws_store := Some (hs\<lparr>hs_db := fst (mark_conflict_unresolved (hs_db hs) i)\<rparr>)\<rparr>\<rparr>, \<lparr>co_seq = s, co_result = Inr RepUnresolved\<rparr>)"
proof -
  obtain r where r: "ctl_record (ct_ws ct) i = Inr (hs, r)" "cn_id r = i" using ctl_record_ok [OF assms(1-4)] by blast
  let ?kept = "ct\<lparr>ct_ws := (ct_ws ct)\<lparr>ws_store := Some (hs\<lparr>hs_db := fst (mark_conflict_resolved (hs_db hs) i)\<rparr>)\<rparr>\<rparr>"
  let ?kept_fields = "[(''resolved'', JNum i), (''action'', JStr ''keep''), (''path'', JStr (as_str (cn_path r))), (''newly_resolved'', JBool (snd (mark_conflict_resolved (hs_db hs) i)))]"
  have "run_command d f ct (Some (CmdConflictsResolve i ActKeep)) = (?kept, ok_reply (JObj ?kept_fields))"
    using r assms(2) by (simp add: run_command_def Let_def cmd_conflicts_resolve_def ack_conflict_ctl_def ack_one_def act_def
        answer_def opened_id with_db_def split: prod.split)
  then show "run_request d f ct \<lparr>oc_seq = s, oc_req = ReqResolve i KeepVerdict\<rparr> = (?kept, \<lparr>co_seq = s, co_result = Inr RepResolved\<rparr>)"
    using run_request_eq [of "\<lparr>oc_seq = s, oc_req = ReqResolve i KeepVerdict\<rparr>" d f ct ?kept ?kept_fields] assms(5) by (simp add: client_reply_def Let_def)
  let ?undone = "ct\<lparr>ct_ws := (ct_ws ct)\<lparr>ws_store := Some (hs\<lparr>hs_db := fst (mark_conflict_unresolved (hs_db hs) i)\<rparr>)\<rparr>\<rparr>"
  let ?undone_fields = "[(''unresolved'', JNum i), (''path'', JStr (as_str (cn_path r))), (''newly_unresolved'', JBool (snd (mark_conflict_unresolved (hs_db hs) i)))]"
  have "run_command d f ct (Some (CmdConflictUnresolve i)) = (?undone, ok_reply (JObj ?undone_fields))"
    using r assms(2) by (simp add: run_command_def Let_def unresolve_ctl_def act_def
        answer_def opened_id with_db_def split: prod.split)
  then show "run_request d f ct \<lparr>oc_seq = s, oc_req = ReqConflictUnresolve i\<rparr> = (?undone, \<lparr>co_seq = s, co_result = Inr RepUnresolved\<rparr>)"
    using run_request_eq [of "\<lparr>oc_seq = s, oc_req = ReqConflictUnresolve i\<rparr>" d f ct ?undone ?undone_fields] assms(5) by (simp add: client_reply_def Let_def)
qed

lemma unresolved_one:
  assumes "distinct (map cf_id (db_conflicts db))" "c \<in> set (db_conflicts db)" "cf_resolved c = 0"
  shows "snd (mark_conflict_resolved db (cf_id c))" "fst (mark_conflict_unresolved db (cf_id c)) = db"
proof -
  have only: "x = c" if "x \<in> set (db_conflicts db)" "cf_id x = cf_id c" for x using that assms(1,2) by (simp add: distinct_map inj_on_def)
  have "filter (\<lambda>x. cf_id x = cf_id c \<and> cf_resolved x = 0) (db_conflicts db) = filter (\<lambda>x. x = c) (db_conflicts db)"
    using only assms(3) by (intro filter_cong) auto
  moreover have "distinct (db_conflicts db)" using assms(1) by (simp add: distinct_map)
  ultimately have "length (filter (\<lambda>x. cf_id x = cf_id c \<and> cf_resolved x = 0) (db_conflicts db)) = 1"
    using assms(2) distinct_card [of "filter (\<lambda>x. x = c) (db_conflicts db)"] by (simp add: Collect_conv_if cong: conj_cong)
  then show "snd (mark_conflict_resolved db (cf_id c))" by (simp add: mark_conflict_resolved_def set_resolved_def)
  have "map (\<lambda>x. if cf_id x = cf_id c \<and> cf_resolved x = 1 then x\<lparr>cf_resolved := 0\<rparr> else x) (db_conflicts db) = db_conflicts db"
    proof (rule map_idI)
    fix x assume "x \<in> set (db_conflicts db)"
    then show "(if cf_id x = cf_id c \<and> cf_resolved x = 1 then x\<lparr>cf_resolved := 0\<rparr> else x) = x"
      using only [of x] assms(3) by (cases "cf_id x = cf_id c") simp_all
  qed
  then show "fst (mark_conflict_unresolved db (cf_id c)) = db" by (simp add: mark_conflict_unresolved_def set_resolved_def)
qed

text \<open>An undo races the verdict it takes back. The console sends each command on a connection and
  a thread of its own. Served in the order sent, a verdict to keep and its undo leave the history
  as it was; served the other way round, both report success and the conflict stays resolved.\<close>

theorem undo_races_verdict:
  fixes s t :: u64
  assumes "ws_initialized (ct_ws ct)" "ws_store (ct_ws ct) = Some hs" "conflict_records (db_conflicts (hs_db hs)) = Inr rs"
    and "distinct (map cf_id (db_conflicts (hs_db hs)))" "c \<in> set (db_conflicts (hs_db hs))" "cf_resolved c = 0" "is_i64 (cf_id c)"
  defines "keep \<equiv> \<lparr>oc_seq = s, oc_req = ReqResolve (cf_id c) KeepVerdict\<rparr>"
    and "undone \<equiv> \<lparr>oc_seq = t, oc_req = ReqConflictUnresolve (cf_id c)\<rparr>"
    and "kept_ok \<equiv> \<lparr>co_seq = s, co_result = Inr RepResolved\<rparr>" and "undone_ok \<equiv> \<lparr>co_seq = t, co_result = Inr RepUnresolved\<rparr>"
  shows "serve d f ct [keep, undone] = (ct, [kept_ok, undone_ok]) \<and>
    (\<exists>db. serve d f ct [undone, keep] =
        (ct\<lparr>ct_ws := (ct_ws ct)\<lparr>ws_store := Some (hs\<lparr>hs_db := db\<rparr>)\<rparr>\<rparr>, [undone_ok, kept_ok]) \<and>
      c\<lparr>cf_resolved := 1\<rparr> \<in> set (db_conflicts db))"
proof -
  let ?db = "hs_db hs"
  let ?kept = "fst (mark_conflict_resolved ?db (cf_id c))"
  have i: "cf_id c \<in> cf_id ` set (db_conflicts ?db)" using assms(5) by simp
  note k = resolve_keep_served [OF assms(1-3) i assms(7)]
  have kept: "db_conflicts ?kept = map (\<lambda>x. if cf_id x = cf_id c \<and> cf_resolved x = 0 then x\<lparr>cf_resolved := 1\<rparr> else x) (db_conflicts ?db)"
    by (simp add: mark_conflict_resolved_def set_resolved_def)
  have "cf_id \<circ> (\<lambda>x. if cf_id x = cf_id c \<and> cf_resolved x = 0 then x\<lparr>cf_resolved := 1\<rparr> else x) = cf_id" by auto
  then have ids: "map cf_id (db_conflicts ?kept) = map cf_id (db_conflicts ?db)" by (simp add: kept)
  have "fst (mark_conflict_unresolved ?kept (cf_id c)) = ?db"
    using unresolve_inverts [of ?db "cf_id c" ?kept] unresolved_one(1) [OF assms(4-6)] assms(4) by (simp add: prod_eq_iff)
  moreover have mem: "cf_id c \<in> cf_id ` set (db_conflicts ?kept)" using i ids by (metis list.set_map)
  let ?ct1 = "ct\<lparr>ct_ws := (ct_ws ct)\<lparr>ws_store := Some (hs\<lparr>hs_db := ?kept\<rparr>)\<rparr>\<rparr>"
  obtain rs' where "conflict_records (db_conflicts ?kept) = Inr rs'" unfolding kept
    using conflict_records_flag [OF assms(3), of "\<lambda>x. cf_id x = cf_id c \<and> cf_resolved x = 0" 1] by blast
  then have "run_request d f ?ct1 undone =
      (?ct1\<lparr>ct_ws := (ct_ws ?ct1)\<lparr>ws_store := Some ((hs\<lparr>hs_db := ?kept\<rparr>)\<lparr>hs_db := fst (mark_conflict_unresolved ?kept (cf_id c))\<rparr>)\<rparr>\<rparr>, undone_ok)"
    using resolve_keep_served(2) [of ?ct1 "hs\<lparr>hs_db := ?kept\<rparr>" rs' "cf_id c" d f t] mem assms(1,7)
    by (simp add: undone_def undone_ok_def)
  ultimately have "serve d f ct [keep, undone] = (ct, [kept_ok, undone_ok])"
    using k(1) [of d f s] assms(2) by (simp add: keep_def kept_ok_def)
  moreover have "run_request d f ct undone = (ct, undone_ok)"
    using k(2) [of d f t] assms(2) unresolved_one(2) [OF assms(4-6)] by (simp add: undone_def undone_ok_def)
  then have "serve d f ct [undone, keep] = (?ct1, [undone_ok, kept_ok])" using k(1) [of d f s] by (simp add: keep_def kept_ok_def)
  moreover have "c\<lparr>cf_resolved := 1\<rparr> \<in> set (db_conflicts ?kept)" using assms(5,6) by (force simp: kept)
  ultimately show ?thesis by blast
qed

lemma join_heads_fst: "join_heads api hs rs = Inr cs \<Longrightarrow> map fst cs = rs"
  by (induction rs arbitrary: cs) (auto split: sum.splits)

lemma parse_conflicts_newest:
  assumes "cs \<noteq> []" "\<And>c. c \<in> set cs \<Longrightarrow> is_i64 (cn_id (fst c))"
  shows "\<exists>c rest. parse_conflicts (JArr (map (\<lambda>c. JObj (conflict_fields c)) cs)) = listed_of c # rest \<and> c \<in> set cs \<and>
    (\<forall>c' \<in> set cs. (cn_wall_ms (fst c'), cn_id (fst c')) \<le> (cn_wall_ms (fst c), cn_id (fst c)))"
proof -
  let ?key = "\<lambda>c. (lc_wall c, lc_conflict c)"
  define rows where "rows = parse_conflicts (JArr (map (\<lambda>c. JObj (conflict_fields c)) cs))"
  have p: "rows = rev (sort_key ?key (rev (map listed_of cs)))" unfolding rows_def by (rule parse_conflicts_json) (rule assms(2))
  have "rows \<noteq> []" proof -
    have "length (rows) = length cs" by (simp add: p)
    then show ?thesis using assms(1) by auto
  qed
  then obtain x rest where x: "rows = x # rest" by (cases "rows") auto
  define ys where "ys = sort_key ?key (rev (map listed_of cs))"
  have "rev (rows) = ys" by (simp only: p ys_def rev_rev_ident)
  then have s: "ys = rev rest @ [x]" by (simp add: x)
  have "sorted (map ?key ys)" unfolding ys_def by (rule sorted_sort_key)
  then have srt: "sorted (map ?key (rev rest) @ [?key x])" by (simp only: s map_append list.map)
  have max: "?key y \<le> ?key x" if "y \<in> set (rev rest @ [x])" for y
  proof (cases "y = x")
    case False
    then have "y \<in> set rest" using that by auto
    then show ?thesis using srt by (simp add: sorted_append)
  qed simp
  have set: "set (rev rest @ [x]) = listed_of ` set cs" unfolding s [symmetric] ys_def by (simp only: set_sort set_rev list.set_map)
  then have "x \<in> listed_of ` set cs" by (metis in_set_conv_decomp)
  then obtain c where c: "c \<in> set cs" "x = listed_of c" by blast
  have "?key (listed_of c') \<le> ?key x" if "c' \<in> set cs" for c'
    by (rule max) (use that set in blast)
  moreover have "?key (listed_of c') = (cn_wall_ms (fst c'), cn_id (fst c'))" for c' by (simp add: listed_of_def split: prod.split)
  ultimately have "\<forall>c' \<in> set cs. (cn_wall_ms (fst c'), cn_id (fst c')) \<le> (cn_wall_ms (fst c), cn_id (fst c))" by (simp add: c(2))
  then show ?thesis using c(1) x unfolding c(2) rows_def by blast
qed

lemma vis_rows_plain: "md_adopted_ids m = {} \<Longrightarrow> vis_rows m = map (\<lambda>(i, c). VisConflict i) (List.enumerate 0 (visible_conflicts m))"
proof -
  assume "md_adopted_ids m = {}"
  then have "filter (\<lambda>(i, c). adopted_row m c) xs = []" "filter (\<lambda>(i, c). \<not> adopted_row m c) xs = xs" for xs :: "(nat \<times> listed_conflict) list"
    by (auto simp: adopted_row_def filter_empty_conv filter_id_conv)
  then show ?thesis by (simp add: vis_rows_def Let_def)
qed

lemma select_first:
  assumes "md_adopted_ids m = {}" "visible_conflicts m = c # cs" "md_sel m = 0"
  shows "selected_conflict m = Some c" "\<not> on_group_header m"
  using assms by (simp_all add: selected_conflict_def on_group_header_def vis_rows_plain nth_opt_def Let_def)

lemma length_vis_rows: "md_adopted_ids m = {} \<Longrightarrow> length (vis_rows m) = length (visible_conflicts m)"
  by (simp add: vis_rows_plain)

text \<open>The effect of loading a diff on the parts that matter.\<close>

lemma ensure_diff_fields [simp]:
  "md_screen (ensure_diff_loaded m) = md_screen m" "md_help (ensure_diff_loaded m) = md_help m" "md_modal (ensure_diff_loaded m) = md_modal m"
  "md_conflicts (ensure_diff_loaded m) = md_conflicts m" "md_pending_resolved (ensure_diff_loaded m) = md_pending_resolved m"
  "md_adopted_ids (ensure_diff_loaded m) = md_adopted_ids m" "md_sel (ensure_diff_loaded m) = md_sel m"
  "visible_conflicts (ensure_diff_loaded m) = visible_conflicts m"
  by (simp_all add: ensure_diff_loaded_def enqueue_def visible_conflicts_def split: option.split)

lemma ensure_diff_outbox: "\<exists>shown. md_outbox (ensure_diff_loaded m) = md_outbox m @ shown \<and> (\<forall>oc \<in> set shown. \<exists>j. oc_req oc = ReqConflictShow j)"
  by (auto simp: ensure_diff_loaded_def enqueue_def split: option.split)

lemma serve_shows: "(\<forall>oc \<in> set ocs. \<exists>j. oc_req oc = ReqConflictShow j) \<Longrightarrow> fst (serve d f ct ocs) = ct"
  proof (induction ocs)
  case (Cons oc ocs)
  then obtain i where "oc = \<lparr>oc_seq = oc_seq oc, oc_req = ReqConflictShow i\<rparr>" by (cases oc) auto
  then have "fst (run_request d f ct oc) = ct" by (metis run_request_show)
  then show ?case using Cons by (auto simp: prod_eq_iff split: prod.split)
qed simp

text \<open>C21: Return acknowledges the newest conflict. From the main screen of a fresh console, opening the
  conflict center, receiving the server's list and pressing return marks exactly the newest
  unresolved conflict as resolved in the history, leaves the files alone and takes its row away.\<close>

theorem return_keeps_newest:
  fixes t1 t2 t3 :: u64 and f :: reply_texts
  assumes "ws_initialized (ct_ws ct)" "ws_store (ct_ws ct) = Some hs" "conflict_records (db_conflicts (hs_db hs)) = Inr rs"
    and "run_list (dk_store d) (ct_ws ct) False = Inr cs" "cs \<noteq> []"
      "\<And>c. c \<in> set cs \<Longrightarrow> is_i64 (cn_id (fst c))"
    and "\<not> md_help m" "md_modal m = None" "md_screen m = ScreenMain" "\<not> md_filter_editing m" "md_pending_resolved m = {}"
      "md_adopted_ids m = {}" "md_outbox m = []"
  defines "opened_center \<equiv> loop_step m (t1, MsgKey (KeyChar (CHR ''c'')))"
  defines "replies \<equiv> snd (serve d f ct (snd opened_center))"
  defines "listed \<equiv> loop_step (fst opened_center) (t2, MsgCmd (hd replies))"
  defines "returned \<equiv> loop_step (fst listed) (t3, MsgKey KeyEnter)"
  shows "\<exists>c \<in> set cs. (\<forall>c' \<in> set cs. (cn_wall_ms (fst c'), cn_id (fst c')) \<le> (cn_wall_ms (fst c), cn_id (fst c))) \<and>
    (\<exists>db. acked (cn_id (fst c)) (hs_db hs) db \<and>
       ct_ws (fst (serve d f ct (snd returned))) = (ct_ws ct)\<lparr>ws_store := Some (hs\<lparr>hs_db := db\<rparr>)\<rparr>) \<and>
    cn_id (fst c) \<notin> lc_conflict ` set (visible_conflicts (fst returned))"
proof -
  let ?json = "JArr (map (\<lambda>c. JObj (conflict_fields c)) cs)"
  obtain c rest where c: "parse_conflicts ?json = listed_of c # rest" "c \<in> set cs"
      "\<forall>c' \<in> set cs. (cn_wall_ms (fst c'), cn_id (fst c')) \<le> (cn_wall_ms (fst c), cn_id (fst c))"
    using parse_conflicts_newest [OF assms(5,6)] by blast
  have id: "lc_conflict (listed_of c) = cn_id (fst c)" by (simp add: listed_of_def split: prod.split)
  let ?o = "\<lparr>co_seq = md_next_seq m, co_result = Inr (RepConflicts (parse_conflicts ?json))\<rparr>"
  have m1: "fst opened_center = m\<lparr>md_now_ms := t1, md_screen := ScreenConflicts, md_sel := 0, md_next_seq := md_next_seq m + 1, md_outbox := []\<rparr>"
      "snd opened_center = [\<lparr>oc_seq = md_next_seq m, oc_req = ReqConflictsList\<rparr>]"
    using assms(7-10,13) by (simp_all add: opened_center_def loop_step_def Let_def update_def key_press_def main_key_def enter_conflicts_def enqueue_def)
  have r: "replies = [?o]"
    using run_request_eq [of "\<lparr>oc_seq = md_next_seq m, oc_req = ReqConflictsList\<rparr>" d f ct ct "[(''conflicts'', ?json)]"] assms(4)
    by (simp add: replies_def m1 run_command_def Let_def answer_def client_reply_def list_value_def ok_reply_field)
  have "md_screen (fst listed) = ScreenConflicts \<and> \<not> md_help (fst listed) \<and> md_modal (fst listed) = None \<and> md_adopted_ids (fst listed) = {} \<and>
      md_sel (fst listed) = 0 \<and> md_outbox (fst listed) = [] \<and> visible_conflicts (fst listed) = listed_of c # rest"
    using assms(7-13) c(1)
    by (simp add: listed_def r m1 loop_step_def Let_def update_def ingest_cmd_def clamp_selection_def clamp_index_def)
      (simp add: visible_conflicts_def clamp_selection_def)
  then obtain m2 where m2: "fst listed = m2" "md_screen m2 = ScreenConflicts" "\<not> md_help m2" "md_modal m2 = None" "md_adopted_ids m2 = {}"
      "md_sel m2 = 0" "md_outbox m2 = []" "visible_conflicts m2 = listed_of c # rest" by blast
  let ?m3 = "m2\<lparr>md_now_ms := t3\<rparr>"
  have v3: "visible_conflicts ?m3 = listed_of c # rest" using m2(8) by (simp add: visible_conflicts_def)
  have sel: "selected_conflict ?m3 = Some (listed_of c)" "\<not> on_group_header ?m3"
    using select_first [of ?m3, OF _ v3] m2(5,6) by simp_all
  let ?i = "cn_id (fst c)"
  obtain plan where upd: "update ?m3 (MsgKey KeyEnter) = after_resolve (enqueue_resolve KeepVerdict ?i (?m3\<lparr>md_undo := Some plan\<rparr>))"
    using m2(2-4) sel by (auto simp: update_def key_press_def conflict_key_def give_verdict_def id)
  let ?x = "enqueue_resolve KeepVerdict ?i (?m3\<lparr>md_undo := Some plan\<rparr>)"
  have x: "md_outbox ?x = [\<lparr>oc_seq = md_next_seq m2, oc_req = ReqResolve ?i KeepVerdict\<rparr>]" "?i \<in> md_pending_resolved ?x"
    using m2(7) by (simp_all add: enqueue_resolve_def enqueue_def Let_def)
  have "\<exists>shown. md_outbox (after_resolve ?x) = md_outbox ?x @ shown \<and> (\<forall>oc \<in> set shown. \<exists>j. oc_req oc = ReqConflictShow j)"
    using ensure_diff_outbox [of "?x\<lparr>md_sel := clamp_index (length (vis_rows ?x)) (md_sel ?x)\<rparr>"]
    by (simp add: after_resolve_def clamp_selection_def)
  then obtain shown where shown: "md_outbox (after_resolve ?x) = md_outbox ?x @ shown" "\<forall>oc \<in> set shown. \<exists>j. oc_req oc = ReqConflictShow j"
    by blast
  have out: "snd returned = \<lparr>oc_seq = md_next_seq m2, oc_req = ReqResolve ?i KeepVerdict\<rparr> # shown"
      "fst returned = (after_resolve ?x)\<lparr>md_outbox := []\<rparr>"
    using shown(1) x(1) by (simp_all add: returned_def loop_step_def m2(1) upd Let_def)
  have "?i \<in> md_pending_resolved (after_resolve ?x)" using x(2) by (simp add: after_resolve_def clamp_selection_def)
  then have gone: "?i \<notin> lc_conflict ` set (visible_conflicts (fst returned))" by (auto simp: out visible_conflicts_def)
  have "?i \<in> cf_id ` set (db_conflicts (hs_db hs))"
  proof -
    obtain us where "conflicts_of (hs_db hs) True = Inr us" "join_heads (dk_store d) hs us = Inr cs"
      using assms(1,2,4) by (auto simp: run_list_def require_initialized_def lift_store_def split: sum.splits)
    then have "fst c \<in> set us" using join_heads_fst c(2) by fastforce
    moreover have "map cn_id us = map cf_id (filter (\<lambda>x. cf_resolved x = 0) (db_conflicts (hs_db hs)))"
      using conflict_records_ids \<open>conflicts_of (hs_db hs) True = Inr us\<close> by (simp add: conflicts_of_def)
    ultimately have "?i \<in> set (map cf_id (filter (\<lambda>x. cf_resolved x = 0) (db_conflicts (hs_db hs))))" by (metis image_eqI list.set_map)
    then show ?thesis by auto
  qed
  from resolve_keep_served(1) [OF assms(1-3) this assms(6) [OF c(2)]]
  have "ct_ws (fst (serve d f ct (snd returned))) = (ct_ws ct)\<lparr>ws_store := Some (hs\<lparr>hs_db := fst (mark_conflict_resolved (hs_db hs) ?i)\<rparr>)\<rparr>"
    by (simp add: out serve_shows [OF shown(2)])
  then show ?thesis using c(2,3) gone mark_acked by blast
qed

section \<open>The channel at work\<close>

theorem event_stream_without_gaps_witness:
  "\<exists>w. prefix w [''a'', ''b''] \<and> (let s = hub_run ''lagged'' (subscribe []) [HubPublish ''a'', HubTurn 0 True, HubPublish ''b''] ! 0
     in sb_written s = w \<or> sb_lagged s \<and> sb_written s = w @ [''lagged''])"
  using event_stream_without_gaps [of "''lagged''" "[]" "[HubPublish ''a'', HubTurn 0 True, HubPublish ''b'']"]
  by (simp add: Let_def)

definition demo_control :: control where
  "demo_control = \<lparr>ct_ws = demo_workspace 0, ct_shutdown = False, ct_paused = False, ct_nudges = [], ct_status = Inl ''none''\<rparr>"

definition demo_texts :: reply_texts where
  "demo_texts = \<lparr>tx_failure = (\<lambda>_. ''failed''), tx_detail = (\<lambda>p. as_str p), tx_no_command = [], tx_bad_hello = [], tx_bad_version = []\<rparr>"

lemma demo_control_fields [simp]: "ct_ws demo_control = demo_workspace 0"
  by (simp add: demo_control_def)

lemma demo_db: "db_conflicts (hs_db (demo_history 0)) = [demo_clash_row 0]" "cf_id (demo_clash_row 0) = 7" "cf_resolved (demo_clash_row 0) = 0"
  by (simp_all add: demo_history_def demo_clash_row_def)

lemma demo_records: "conflict_records (db_conflicts (hs_db (demo_history 0))) = Inr [demo_conflict False]"
  using demo_conflicts [of 0] by (simp add: conflicts_of_def)

lemma demo_id: "is_i64 (cf_id (demo_clash_row 0))"
  by (simp add: demo_db is_i64_def)

theorem undo_races_verdict_witness:
  "\<exists>db. serve demo_disk demo_texts demo_control [\<lparr>oc_seq = 2, oc_req = ReqConflictUnresolve 7\<rparr>, \<lparr>oc_seq = 1, oc_req = ReqResolve 7 KeepVerdict\<rparr>] =
      (demo_control\<lparr>ct_ws := (demo_workspace 0)\<lparr>ws_store := Some ((demo_history 0)\<lparr>hs_db := db\<rparr>)\<rparr>\<rparr>,
       [\<lparr>co_seq = 2, co_result = Inr RepUnresolved\<rparr>, \<lparr>co_seq = 1, co_result = Inr RepResolved\<rparr>]) \<and>
    (demo_clash_row 0)\<lparr>cf_resolved := 1\<rparr> \<in> set (db_conflicts db)"
proof -
  have "distinct (map cf_id (db_conflicts (hs_db (demo_history 0))))" "demo_clash_row 0 \<in> set (db_conflicts (hs_db (demo_history 0)))"
    by (simp_all add: demo_db)
  from undo_races_verdict [of demo_control, unfolded demo_control_fields, OF demo_open demo_records this demo_db(3) demo_id, of demo_disk demo_texts 1 2]
  show ?thesis unfolding demo_db(2) by blast
qed

theorem return_keeps_newest_witness:
  "\<exists>c \<in> {(demo_conflict False, demo_meta 2 2, demo_meta 1 1)}. \<exists>db. acked (cn_id (fst c)) (hs_db (demo_history 0)) db \<and>
     ct_ws (fst (serve demo_disk demo_texts demo_control (snd (loop_step (fst (loop_step (fst (loop_step model_default (0, MsgKey (KeyChar (CHR ''c''))))) (1,
       MsgCmd (hd (snd (serve demo_disk demo_texts demo_control (snd (loop_step model_default (0, MsgKey (KeyChar (CHR ''c''))))))))))) (2, MsgKey KeyEnter)))))
       = (demo_workspace 0)\<lparr>ws_store := Some ((demo_history 0)\<lparr>hs_db := db\<rparr>)\<rparr>"
proof -
  have l: "run_list (dk_store demo_disk) (demo_workspace 0) False = Inr [(demo_conflict False, demo_meta 2 2, demo_meta 1 1)]"
  proof -
    have "conflicts_of (hs_db (demo_history 0)) True = Inr [demo_conflict False]"
      using demo_conflicts [of 0] by (simp add: conflicts_of_def demo_db)
    then show ?thesis
      by (simp add: run_list_def require_initialized_def demo_open lift_store_def demo_disk_api demo_heads)
  qed
  have ids: "is_i64 (cn_id (fst c))" if "c \<in> set [(demo_conflict False, demo_meta 2 2, demo_meta 1 1)]" for c
    using that demo_ids(2) by simp
  have d: "\<not> md_help model_default" "md_modal model_default = None" "md_screen model_default = ScreenMain" "\<not> md_filter_editing model_default"
      "md_pending_resolved model_default = {}" "md_adopted_ids model_default = {}" "md_outbox model_default = []"
    by (simp_all add: model_default_def)
  from return_keeps_newest [of demo_control, unfolded demo_control_fields, OF demo_open demo_records l list.distinct(2) ids d, of demo_texts 0 1 2]
  show ?thesis unfolding list.set by blast
qed

end
