(* ===== verification/Tomo_Persist.thy ===== *)
theory Tomo_Persist
  imports Tomo_Scan Tomo_Target
begin

text \<open>
  What a session keeps on disk between runs and how the next run starts from it:
  \<^verbatim>\<open>tomo/src/fsutil.rs\<close> (the order of the file operations of a durable write),
  \<^verbatim>\<open>persist.rs\<close> (the index file with its older layout), \<^verbatim>\<open>status.rs\<close>, \<^verbatim>\<open>replica.rs\<close>,
  \<open>stat_entry\<close> of \<^verbatim>\<open>tomo-watch/src/scancache.rs\<close>, and \<open>persist\<close>,
  \<open>reconcile_history_completeness\<close> and \<open>run\<close> of \<^verbatim>\<open>tomo/src/session.rs\<close>. The postcard and JSON
  codecs, the clocks and which operations the machine refuses are parameters.
\<close>

section \<open>Durable writes\<close>

text \<open>
  The files a write goes through. A temporary file and a file at its final path carry whether
  their data has reached the disk; \<open>vo_settled\<close> is what the final paths hold if the renames
  since the last directory barrier are lost.
\<close>

record 'f volume =
  vo_temp :: "string \<rightharpoonup> bytes \<times> bool"
  vo_final :: "'f \<rightharpoonup> bytes \<times> bool"
  vo_settled :: "'f \<rightharpoonup> bytes"

datatype 'f file_op = StageTemp string bytes | SyncTemp string | SyncStaging | RenameTemp string 'f | RemoveTemp string

fun apply_op :: "'f file_op \<Rightarrow> 'f volume \<Rightarrow> 'f volume" where
  "apply_op (StageTemp t bs) v = v\<lparr>vo_temp := (vo_temp v)(t \<mapsto> (bs, False))\<rparr>"
| "apply_op (SyncTemp t) v = v\<lparr>vo_temp := (vo_temp v)(t := map_option (\<lambda>(bs, _). (bs, True)) (vo_temp v t))\<rparr>"
| "apply_op SyncStaging v = v\<lparr>vo_temp := (\<lambda>t. map_option (\<lambda>(bs, _). (bs, True)) (vo_temp v t)),
      vo_settled := (\<lambda>f. map_option fst (vo_final v f))\<rparr>"
| "apply_op (RenameTemp t f) v = (case vo_temp v t of None \<Rightarrow> v
      | Some x \<Rightarrow> v\<lparr>vo_temp := (vo_temp v)(t := None), vo_final := (vo_final v)(f \<mapsto> x)\<rparr>)"
| "apply_op (RemoveTemp t) v = v\<lparr>vo_temp := (vo_temp v)(t := None)\<rparr>"

definition run_ops :: "'f file_op list \<Rightarrow> 'f volume \<Rightarrow> 'f volume" where
  "run_ops ops v = fold apply_op ops v"

text \<open>What a path holds after the machine died: renames since the last barrier may be lost, and
  data that was not on the disk is anything.\<close>

definition after_crash :: "('f \<Rightarrow> bool) \<Rightarrow> ('f \<Rightarrow> bytes) \<Rightarrow> 'f volume \<Rightarrow> 'f \<Rightarrow> bytes option" where
  "after_crash lost torn v f = (if lost f then vo_settled v f
     else map_option (\<lambda>(bs, synced). if synced then bs else torn f) (vo_final v f))"

definition write_and_rename :: "string \<Rightarrow> 'f \<Rightarrow> bytes \<Rightarrow> 'f file_op list" where
  "write_and_rename t f bs = [StageTemp t bs, SyncTemp t, RenameTemp t f]"

text \<open>The steps of a call of which the first \<open>n\<close> succeed; a failed call removes its temporary file.\<close>

definition write_staged :: "nat \<Rightarrow> string \<Rightarrow> 'f \<Rightarrow> bytes \<Rightarrow> 'f file_op list \<times> bool" where
  "write_staged n t f bs = (let ops = write_and_rename t f bs
     in if length ops \<le> n then (ops, True) else (take n ops @ [RemoveTemp t], False))"

definition stage_write_mode :: "bool \<Rightarrow> string \<Rightarrow> bytes \<Rightarrow> 'f file_op list \<times> bool" where
  "stage_write_mode ok t bs = (if ok then ([StageTemp t bs], True) else ([StageTemp t bs, RemoveTemp t], False))"

text \<open>One barrier for a batch of staged files; \<open>dir_sync\<close> says whether the staging directory can be
  synced (then every staged file's data is on disk), otherwise each file is.\<close>

definition install_ops :: "bool \<Rightarrow> (string \<times> 'f) list \<Rightarrow> 'f file_op list" where
  "install_ops dir_sync installs = (if installs = [] then []
     else (if dir_sync then [SyncStaging] else map (\<lambda>(t, _). SyncTemp t) installs) @
       map (\<lambda>(t, f). RenameTemp t f) installs @ (if dir_sync then [SyncStaging] else []))"

section \<open>The index file\<close>

datatype file_read = FileAbsent | FileUnreadable | FileBytes bytes

record legacy_sig =
  lg_hash :: content_hash
  lg_size :: u64
  lg_exec :: bool

datatype legacy_state = LegacyPresent legacy_sig | LegacyTombstone

record legacy_head =
  lg_version :: vector_clock
  lg_state :: legacy_state

record legacy_entry =
  lg_heads :: "legacy_head list"

type_synonym legacy_index = "(relpath, legacy_entry) btree_map"

text \<open>The postcard codec on the current layout and on the older one, the latter with the bytes
  left over.\<close>

record index_codec =
  ic_encode :: "index \<Rightarrow> bytes option"
  ic_decode :: "bytes \<Rightarrow> index option"
  ic_legacy :: "bytes \<Rightarrow> (legacy_index \<times> bytes) option"

definition upgrade_state :: "legacy_state \<Rightarrow> entry_state" where
  "upgrade_state s = (case s of
      LegacyPresent g \<Rightarrow> Present \<lparr>sig_hash = lg_hash g, sig_size = lg_size g, sig_exec = lg_exec g, sig_mtime_ms = 0\<rparr>
    | LegacyTombstone \<Rightarrow> Tombstone)"

text \<open>\<open>NotLegacy\<close> is the decoder's \<open>None\<close>; a panic of \<open>absorb\<close> is \<open>RebuildPanicked\<close>.\<close>

datatype 'a rebuilt = Rebuilt 'a | NotLegacy | RebuildPanicked

definition rebuild_entry :: "legacy_entry \<Rightarrow> entry rebuilt" where
  "rebuild_entry e = (case lg_heads e of
      [] \<Rightarrow> NotLegacy
    | first # hs \<Rightarrow> (case absorb_all (entry_single (lg_version first) (upgrade_state (lg_state first)))
            (map (\<lambda>h. (lg_version h, upgrade_state (lg_state h))) hs) of
          None \<Rightarrow> RebuildPanicked | Some e \<Rightarrow> Rebuilt e))"

fun rebuild_entries :: "index \<Rightarrow> (relpath \<times> legacy_entry) list \<Rightarrow> index rebuilt" where
  "rebuild_entries i [] = Rebuilt i"
| "rebuild_entries i ((p, e) # es) = (case rebuild_entry e of
      Rebuilt e \<Rightarrow> rebuild_entries (index_put i p e) es
    | NotLegacy \<Rightarrow> NotLegacy
    | RebuildPanicked \<Rightarrow> RebuildPanicked)"

definition decode_legacy :: "index_codec \<Rightarrow> bytes \<Rightarrow> index rebuilt" where
  "decode_legacy ic bs = (case ic_legacy ic bs of
      None \<Rightarrow> NotLegacy
    | Some (legacy, rest) \<Rightarrow> if rest \<noteq> [] then NotLegacy else rebuild_entries index_new (bm_entries legacy))"

datatype loaded_index = LoadedIndex index bool | IndexUnreadable | LoadPanicked

definition load_index :: "index_codec \<Rightarrow> file_read \<Rightarrow> loaded_index" where
  "load_index ic file = (case file of
      FileAbsent \<Rightarrow> LoadedIndex index_new False
    | FileUnreadable \<Rightarrow> IndexUnreadable
    | FileBytes bs \<Rightarrow> (case ic_decode ic bs of
          Some i \<Rightarrow> LoadedIndex i False
        | None \<Rightarrow> (case decode_legacy ic bs of
              Rebuilt i \<Rightarrow> LoadedIndex i False
            | NotLegacy \<Rightarrow> LoadedIndex index_new True
            | RebuildPanicked \<Rightarrow> LoadPanicked)))"

datatype state_file = IndexFile | CacheFile | StatusFile

datatype persist_error = EncodeFailed state_file | WriteFileFailed state_file | ConflictsFailed history_error

definition store_index :: "index_codec \<Rightarrow> (state_file \<Rightarrow> bool) \<Rightarrow> index \<Rightarrow> persist_error + file_read" where
  "store_index ic writes i = (case ic_encode ic i of
      None \<Rightarrow> Inl (EncodeFailed IndexFile)
    | Some bs \<Rightarrow> if writes IndexFile then Inr (FileBytes bs) else Inl (WriteFileFailed IndexFile))"

definition store_scan_cache ::
    "(u32 \<times> scan_cache \<Rightarrow> bytes) \<Rightarrow> (state_file \<Rightarrow> bool) \<Rightarrow> scan_cache \<Rightarrow> persist_error + bytes" where
  "store_scan_cache enc writes c = (if writes CacheFile then Inr (cache_encode enc c) else Inl (WriteFileFailed CacheFile))"

section \<open>Keeping the scan cache\<close>

text \<open>The metadata is read when the entry is noted, the signature is older.\<close>

definition stat_entry :: "scan_api \<Rightarrow> tree \<Rightarrow> relpath \<Rightarrow> content_sig \<Rightarrow> cache_entry option" where
  "stat_entry sn t p sig = (case bm_get t p of
      Some (FileNode bs _ _) \<Rightarrow> Some \<lparr>ce_mtime_ns = sn_mtime_ns sn p, ce_size = of_nat (length bs), ce_sig = sig\<rparr>
    | _ \<Rightarrow> None)"

definition cache_note_present :: "scan_api \<Rightarrow> tree \<Rightarrow> relpath \<Rightarrow> content_sig \<Rightarrow> scan_cache \<Rightarrow> scan_cache" where
  "cache_note_present sn t p sig c = (case stat_entry sn t p sig of Some e \<Rightarrow> bm_insert p e c | None \<Rightarrow> bm_remove p c)"

definition cache_note_absent :: "relpath \<Rightarrow> scan_cache \<Rightarrow> scan_cache" where
  "cache_note_absent p c = bm_remove p c"

section \<open>The status\<close>

record net_counters =
  nt_frames_sent :: u64
  nt_frames_recv :: u64
  nt_bytes_sent :: u64
  nt_bytes_recv :: u64

record history_status =
  hy_mode :: string
  hy_versions_recorded :: u64
  hy_conflicts_recorded :: u64
  hy_staged :: u64
  hy_rung :: u64

record status_peer =
  pe_name :: "string option"
  pe_addr :: "string option"
  pe_source :: "string option"

record fs_semantics =
  fs_case_insensitive :: bool
  fs_normalizes_unicode :: bool

record status =
  st_root :: string
  st_files :: u64
  st_tombstones :: u64
  st_conflicts :: u64
  st_conflicts_unresolved :: u64
  st_net :: "net_counters option"
  st_connected :: bool
  st_paused :: bool
  st_peer_paused :: bool
  st_peer :: "status_peer option"
  st_reconciling :: bool
  st_history :: "history_status option"
  st_fs :: "fs_semantics option"
  st_updated_unix_ms :: u64

definition client_ip_from_ssh_connection :: "string \<Rightarrow> string option" where
  "client_ip_from_ssh_connection s =
     (let word = takeWhile (\<lambda>c. \<not> is_space c) (trim_start s) in if word = [] then None else Some word)"

definition peer_from_env_values :: "string option \<Rightarrow> string option \<Rightarrow> status_peer option" where
  "peer_from_env_values peer_name ssh_connection =
     (let name = (case peer_name of Some s \<Rightarrow> if s = [] then None else Some s | None \<Rightarrow> None);
          addr = (case ssh_connection of Some v \<Rightarrow> client_ip_from_ssh_connection v | None \<Rightarrow> None)
      in if name = None \<and> addr = None then None
         else Some \<lparr>pe_name = name, pe_addr = addr, pe_source = Some ''ssh-env''\<rparr>)"

text \<open>\<open>winner\<close> of an entry without heads panics, here \<open>None\<close>.\<close>

fun count_winners :: "(relpath \<times> entry) list \<Rightarrow> u64 \<Rightarrow> u64 \<Rightarrow> (u64 \<times> u64) option" where
  "count_winners [] files tombs = Some (files, tombs)"
| "count_winners ((_, e) # es) files tombs = (case winner e of
      None \<Rightarrow> None
    | Some h \<Rightarrow> (case hd_state h of
          Present _ \<Rightarrow> count_winners es (files + 1) tombs
        | Tombstone \<Rightarrow> count_winners es files (tombs + 1)))"

definition summarize :: "(bytes \<Rightarrow> content_hash) \<Rightarrow> index \<Rightarrow> (string \<times> u64 \<times> u64) option" where
  "summarize blake3 i = map_option (\<lambda>(f, d). (hash_display (blake3 (canonical_bytes i)), f, d)) (count_winners (index_iter i) 0 0)"

definition status_live ::
    "(bytes \<Rightarrow> content_hash) \<Rightarrow> u64 \<Rightarrow> index \<Rightarrow> u64 \<Rightarrow> u64 \<Rightarrow> net_counters \<Rightarrow> bool \<Rightarrow> bool \<Rightarrow> history_status option \<Rightarrow>
     fs_semantics option \<Rightarrow> status option" where
  "status_live blake3 now i conflicts unresolved net conn reconciling hist fs =
     map_option (\<lambda>(r, f, d). \<lparr>st_root = r, st_files = f, st_tombstones = d, st_conflicts = conflicts,
        st_conflicts_unresolved = unresolved, st_net = Some net, st_connected = conn, st_paused = False,
        st_peer_paused = False, st_peer = None, st_reconciling = reconciling, st_history = hist, st_fs = fs,
        st_updated_unix_ms = now\<rparr>) (summarize blake3 i)"

definition status_offline ::
    "(bytes \<Rightarrow> content_hash) \<Rightarrow> u64 \<Rightarrow> index \<Rightarrow> u64 \<Rightarrow> history_status option \<Rightarrow> status option" where
  "status_offline blake3 now i unresolved hist =
     map_option (\<lambda>(r, f, d). \<lparr>st_root = r, st_files = f, st_tombstones = d, st_conflicts = 0,
        st_conflicts_unresolved = unresolved, st_net = None, st_connected = False, st_paused = False,
        st_peer_paused = False, st_peer = None, st_reconciling = False, st_history = hist, st_fs = None,
        st_updated_unix_ms = now\<rparr>) (summarize blake3 i)"

definition FRESH_WINDOW_MS :: nat where
  "FRESH_WINDOW_MS = 5000"

text \<open>The status file: when it was written and what it parses to.\<close>

type_synonym status_on_disk = "(nat \<times> status option) option"

definition read_fresh :: "nat \<Rightarrow> status_on_disk \<Rightarrow> status option" where
  "read_fresh now file = (case file of
      None \<Rightarrow> None
    | Some (modified, parsed) \<Rightarrow> if now < modified \<or> FRESH_WINDOW_MS < now - modified then None else parsed)"

definition persisted_peer_name :: "status_on_disk \<Rightarrow> string option" where
  "persisted_peer_name file = (case file of
      Some (_, Some s) \<Rightarrow> (case st_peer s of Some p \<Rightarrow> pe_name p | None \<Rightarrow> None)
    | _ \<Rightarrow> None)"

text \<open>The store as a status poll sees it: \<open>None\<close> if it cannot be opened, \<open>Some None\<close> if there is
  none.\<close>

definition unresolved_conflicts :: "history_store option option \<Rightarrow> u64 option" where
  "unresolved_conflicts opened = (case opened of
      None \<Rightarrow> None
    | Some None \<Rightarrow> Some 0
    | Some (Some hs) \<Rightarrow> (case conflicts_of (hs_db hs) True of Inl _ \<Rightarrow> None | Inr cs \<Rightarrow> Some (of_nat (length cs))))"

datatype status_error = StatusNoProject | StatusIndexUnreadable | StatusPanicked

definition status_run ::
    "(bytes \<Rightarrow> content_hash) \<Rightarrow> index_codec \<Rightarrow> bool \<Rightarrow> nat \<Rightarrow> status_on_disk \<Rightarrow> file_read \<Rightarrow> 's config option \<Rightarrow>
     history_store option option \<Rightarrow> status_error + status" where
  "status_run blake3 ic initialized now file idx cfg opened =
     (if \<not> initialized then Inl StatusNoProject
      else
        let unresolved = unresolved_conflicts opened;
            base = (case read_fresh now file of
                Some fresh \<Rightarrow> Inr fresh
              | None \<Rightarrow> (case load_index ic idx of
                    IndexUnreadable \<Rightarrow> Inl StatusIndexUnreadable
                  | LoadPanicked \<Rightarrow> Inl StatusPanicked
                  | LoadedIndex i _ \<Rightarrow>
                      (case status_offline blake3 (of_nat now) i (case unresolved of Some n \<Rightarrow> n | None \<Rightarrow> 0)
                          (map_option (\<lambda>c. \<lparr>hy_mode = mode_label (history_mode_of (cf_history c)), hy_versions_recorded = 0,
                             hy_conflicts_recorded = 0, hy_staged = 0, hy_rung = 0\<rparr>) cfg) of
                         None \<Rightarrow> Inl StatusPanicked | Some s \<Rightarrow> Inr s)))
        in map_sum id (\<lambda>s.
             let s = (case unresolved of Some n \<Rightarrow> s\<lparr>st_conflicts_unresolved := n\<rparr> | None \<Rightarrow> s)
             in if st_peer s = None
                then s\<lparr>st_peer := (case cfg of
                    Some c \<Rightarrow> map_option (\<lambda>r. \<lparr>pe_name = Some (remote_host r), pe_addr = None, pe_source = Some ''config''\<rparr>) (cf_remote c)
                  | None \<Rightarrow> None)\<rparr>
                else s) base)"

definition peer_label :: "status \<Rightarrow> string option" where
  "peer_label s = (case st_peer s of
      None \<Rightarrow> None
    | Some p \<Rightarrow> (case (pe_name p, pe_addr p) of
          (Some name, Some addr) \<Rightarrow> Some (name @ '' ('' @ addr @ '')'')
        | (Some name, None) \<Rightarrow> Some name
        | (None, Some addr) \<Rightarrow> Some addr
        | (None, None) \<Rightarrow> None))"

section \<open>The session's throttled persistence\<close>

definition PERSIST_THROTTLE :: nat where "PERSIST_THROTTLE = 250"
definition STATUS_CADENCE :: nat where "STATUS_CADENCE = 2000"

record persistence =
  ps_index_file :: file_read
  ps_cache_file :: "bytes option"
  ps_status_file :: status_on_disk
  ps_index_dirty :: bool
  ps_cache_dirty :: bool
  ps_status_dirty :: bool
  ps_last_index_persist :: nat
  ps_last_status :: nat
  ps_last_unresolved :: u64

definition mark_dirty :: "persistence \<Rightarrow> persistence" where
  "mark_dirty ps = ps\<lparr>ps_index_dirty := True, ps_status_dirty := True\<rparr>"

text \<open>What the status needs besides the index: the fields of the session it reads.\<close>

record status_api =
  sx_net :: "net_counters option"
  sx_peer_identity :: "status_peer option"
  sx_fs :: fs_semantics
  sx_unix_ms :: u64

definition session_status ::
    "('g, 's, 'e) world \<Rightarrow> status_api \<Rightarrow> 's applier \<Rightarrow> u64 \<Rightarrow> status option" where
  "session_status w sx ap unresolved =
     (let s = ap_session ap;
          net = (case sx_net sx of Some n \<Rightarrow> n
            | None \<Rightarrow> \<lparr>nt_frames_sent = 0, nt_frames_recv = 0, nt_bytes_sent = 0, nt_bytes_recv = 0\<rparr>);
          hist = \<lparr>hy_mode = mode_label (history_mode_of (cf_history (ss_config s))),
            hy_versions_recorded = of_nat (ap_versions_recorded ap), hy_conflicts_recorded = of_nat (ap_conflicts_recorded ap),
            hy_staged = of_nat (staged_len (ap_pressure ap)), hy_rung = of_nat (rung (ap_pressure ap))\<rparr>
      in map_option (\<lambda>st. st\<lparr>st_peer := sx_peer_identity sx, st_paused := ss_paused s, st_peer_paused := ss_peer_paused s\<rparr>)
           (status_live (w_blake3 w) (sx_unix_ms sx) (eng_index (eng ap)) (of_nat (card (ap_conflicts ap))) unresolved net
              (ss_connected s) (ss_rescan_pending s) (Some hist) (Some (sx_fs sx))))"

text \<open>Errors leave what was done before them done.\<close>

datatype persist_result = Persisted | PersistFailed persist_error | PersistPanicked

definition persist_index_step ::
    "index_codec \<Rightarrow> (u32 \<times> scan_cache \<Rightarrow> bytes) \<Rightarrow> (state_file \<Rightarrow> bool) \<Rightarrow> nat \<Rightarrow> index \<Rightarrow> scan_cache \<Rightarrow> persistence \<Rightarrow>
     persistence \<times> persist_error option" where
  "persist_index_step ic enc writes now i cache ps =
     (case (if ps_index_dirty ps
            then (case store_index ic writes i of
                Inl e \<Rightarrow> (ps, Some e)
              | Inr file \<Rightarrow> (ps\<lparr>ps_index_file := file, ps_index_dirty := False, ps_status_dirty := True\<rparr>, None))
            else (ps, None)) of
        (ps, Some e) \<Rightarrow> (ps, Some e)
      | (ps, None) \<Rightarrow>
          (case (if ps_cache_dirty ps
                 then (case store_scan_cache enc writes cache of
                     Inl e \<Rightarrow> (ps, Some e)
                   | Inr bs \<Rightarrow> (ps\<lparr>ps_cache_file := Some bs, ps_cache_dirty := False\<rparr>, None))
                 else (ps, None)) of
             (ps, Some e) \<Rightarrow> (ps, Some e)
           | (ps, None) \<Rightarrow> (ps\<lparr>ps_last_index_persist := now\<rparr>, None)))"

definition persist_status_step ::
    "('g, 's, 'e) world \<Rightarrow> status_api \<Rightarrow> (state_file \<Rightarrow> bool) \<Rightarrow> nat \<Rightarrow> 's applier \<Rightarrow> persistence \<Rightarrow> persistence \<times> persist_result" where
  "persist_status_step w sx writes now ap ps = (case conflicts_of (hs_db (ap_store ap)) True of
      Inl e \<Rightarrow> (ps, PersistFailed (ConflictsFailed e))
    | Inr cs \<Rightarrow>
        (let unresolved = of_nat (length cs); ps = ps\<lparr>ps_last_unresolved := unresolved\<rparr>
         in case session_status w sx ap unresolved of
              None \<Rightarrow> (ps, PersistPanicked)
            | Some st \<Rightarrow> if writes StatusFile
                then (ps\<lparr>ps_status_file := Some (unat (sx_unix_ms sx), Some st), ps_last_status := now, ps_status_dirty := False\<rparr>, Persisted)
                else (ps, PersistFailed (WriteFileFailed StatusFile))))"

definition persist ::
    "('g, 's, 'e) world \<Rightarrow> index_codec \<Rightarrow> (u32 \<times> scan_cache \<Rightarrow> bytes) \<Rightarrow> status_api \<Rightarrow> (state_file \<Rightarrow> bool) \<Rightarrow> nat \<Rightarrow>
     bool \<Rightarrow> 's applier \<Rightarrow> scan_cache \<Rightarrow> persistence \<Rightarrow> persistence \<times> persist_result" where
  "persist w ic enc sx writes now force ap cache ps =
     (case (if (force \<or> PERSIST_THROTTLE \<le> now - ps_last_index_persist ps) \<and> (ps_index_dirty ps \<or> ps_cache_dirty ps)
            then persist_index_step ic enc writes now (eng_index (eng ap)) cache ps else (ps, None)) of
        (ps, Some e) \<Rightarrow> (ps, PersistFailed e)
      | (ps, None) \<Rightarrow>
          if force \<or> ps_status_dirty ps \<and> PERSIST_THROTTLE \<le> now - ps_last_status ps \<or> STATUS_CADENCE \<le> now - ps_last_status ps
          then persist_status_step w sx writes now ap ps
          else (ps, Persisted))"

section \<open>Versions a crash has lost\<close>

text \<open>The replica that authored a version: the one with the greatest counter, the last of them in
  clock order (\<^verbatim>\<open>max_by_key\<close>).\<close>

fun last_max :: "(replica_id \<times> u64) \<Rightarrow> (replica_id \<times> u64) list \<Rightarrow> replica_id" where
  "last_max b [] = fst b"
| "last_max b (x # xs) = last_max (if snd x \<ge> snd b then x else b) xs"

definition clock_author :: "vector_clock \<Rightarrow> replica_id option" where
  "clock_author v = (case vc_iter v of [] \<Rightarrow> None | x # xs \<Rightarrow> Some (last_max x xs))"

definition guess_peer :: "replica_id \<Rightarrow> index \<Rightarrow> replica_id option" where
  "guess_peer ours i = List.find (\<lambda>r. r \<noteq> ours)
     (concat (map (\<lambda>(_, e). concat (map (\<lambda>h. map fst (vc_iter (hd_version h))) (heads e))) (index_iter i)))"

type_synonym lost_version = "relpath \<times> entry_state \<times> vector_clock \<times> bool"

text \<open>The winners no version of the history stands for; \<open>None\<close> is the panic of \<open>winner\<close>.\<close>

fun lost_versions ::
    "store_api \<Rightarrow> replica_id \<Rightarrow> (string \<times> bytes \<times> int) set \<Rightarrow> (relpath \<times> entry) list \<Rightarrow> lost_version list option" where
  "lost_versions api ours identities [] = Some []"
| "lost_versions api ours identities ((path, e) # es) = (case winner e of
      None \<Rightarrow> None
    | Some h \<Rightarrow>
        (let state_int = (case hd_state h of Present _ \<Rightarrow> 1 | Tombstone \<Rightarrow> 0);
             blob = sa_clock_enc api (hd_version h);
             origin_is_local = (case clock_author (hd_version h) of None \<Rightarrow> True | Some a \<Rightarrow> a = ours)
         in if (as_str path, blob, state_int) \<in> identities then lost_versions api ours identities es
            else map_option (\<lambda>rest. (path, hd_state h, hd_version h, origin_is_local) # rest)
              (lost_versions api ours identities es)))"

fun note_all :: "('g, 's, 'e) world \<Rightarrow> disk_api \<Rightarrow> u64 \<Rightarrow> 's applier \<Rightarrow> lost_version list \<Rightarrow> 's exec_result" where
  "note_all w d now ap [] = Inr (ap, [])"
| "note_all w d now ap ((path, state, version, origin_is_local) # xs) =
     and_then (note_version w d ap path state version origin_is_local now) (\<lambda>ap. note_all w d now ap xs)"

definition reconcile_history_completeness :: "('g, 's, 'e) world \<Rightarrow> disk_api \<Rightarrow> 's applier \<Rightarrow> 's exec_result" where
  "reconcile_history_completeness w d ap =
     (let ours = eng_replica (eng ap);
          ap = (if ss_peer_replica (ap_session ap) = None
            then ap\<lparr>ap_session := (ap_session ap)\<lparr>ss_peer_replica := guess_peer ours (eng_index (eng ap))\<rparr>\<rparr> else ap)
      in case lost_versions (dk_store d) ours (version_identities (hs_db (ap_store ap))) (index_iter (eng_index (eng ap))) of
           None \<Rightarrow> Inl Panicked
         | Some missing \<Rightarrow> note_all w d (dk_now_ms d) ap missing)"

section \<open>Starting a session\<close>

definition session_new :: "'s config \<Rightarrow> engine \<Rightarrow> string \<Rightarrow> 's session" where
  "session_new cfg e bv = \<lparr>ss_config = cfg, ss_engine = e, ss_binary_version = bv,
     ss_transport = False, ss_ssh_params = False, ss_reconnecting = False, ss_repush_requested = False,
     ss_connected = False, ss_hello_received = False, ss_peer_replica = None, ss_noted_ignored = {},
     ss_rescan_pending = False, ss_disk_stalled = False, ss_last_stall_retry = 0, ss_paused = False,
     ss_paused_acted = False, ss_peer_paused = False, ss_offline_since = None, ss_next_reconnect_at = None,
     ss_backoff = RECONNECT_MIN, ss_assemblies = bm_empty, ss_chunk_files = (\<lambda>_. None),
     ss_outbound_manifests = bm_empty, ss_pending_chunks = [], ss_pending_sends = [], ss_pending_sends_paths = {},
     ss_pending_installs = [], ss_pending_install_paths = {}, ss_created_dirs = {}\<rparr>"

text \<open>The project as a session finds it.\<close>

record 's project =
  pj_config :: "'s config"
  pj_replica :: replica_id
  pj_binary_version :: string
  pj_tree :: tree
  pj_index_file :: file_read
  pj_cache_file :: "bytes option"
  pj_status_file :: status_on_disk
  pj_history :: "history_store option"

datatype start_error =
    IndexFileUnreadable
  | HistoryOpenFailed
  | StartExec exec_error
  | StartScan scan_error
  | StartPersist persist_result

record 's started =
  sr_applier :: "'s applier"
  sr_cache :: scan_cache
  sr_persistence :: persistence
  sr_recovered :: bool

definition applier_new :: "'s project \<Rightarrow> history_store \<Rightarrow> index \<Rightarrow> 's applier" where
  "applier_new pj hs i =
     \<lparr>ap_session = session_new (pj_config pj) (engine_new (pj_replica pj) i) (pj_binary_version pj), ap_tree = pj_tree pj,
      ap_store = hs, ap_pressure = pressure_new (to_engine (history_mode_of (cf_history (pj_config pj)))) pressure_config_default,
      ap_conflicts = {}, ap_versions_recorded = 0, ap_conflicts_recorded = 0\<rparr>"

definition persistence_new :: "'s project \<Rightarrow> nat \<Rightarrow> persistence" where
  "persistence_new pj now = \<lparr>ps_index_file = pj_index_file pj, ps_cache_file = pj_cache_file pj, ps_status_file = pj_status_file pj,
     ps_index_dirty = False, ps_cache_dirty = False, ps_status_dirty = True, ps_last_index_persist = now, ps_last_status = now,
     ps_last_unresolved = 0\<rparr>"

text \<open>\<open>run\<close> up to the connection: load, open, complete the history, scan, write everything. The
  staging directory is wiped first, which the state shows as no chunk files and no staged applies.
  Only the watcher, a rescan and received changes mark the index dirty, the startup scan does not.\<close>

definition start_session ::
    "('g, 's, 'e) world \<Rightarrow> disk_api \<Rightarrow> scan_api \<Rightarrow> index_codec \<Rightarrow> (u32 \<times> scan_cache \<Rightarrow> bytes) \<Rightarrow>
     (bytes \<Rightarrow> (u32 \<times> scan_cache) option) \<Rightarrow> status_api \<Rightarrow> (state_file \<Rightarrow> bool) \<Rightarrow> nat \<Rightarrow> 's project \<Rightarrow>
     start_error + 's started" where
  "start_session w d sn ic enc dec sx writes now pj = (case load_index ic (pj_index_file pj) of
      IndexUnreadable \<Rightarrow> Inl IndexFileUnreadable
    | LoadPanicked \<Rightarrow> Inl (StartExec Panicked)
    | LoadedIndex i recovered \<Rightarrow> (case pj_history pj of
          None \<Rightarrow> Inl HistoryOpenFailed
        | Some hs \<Rightarrow> (case reconcile_history_completeness w d (applier_new pj hs i) of
              Inl e \<Rightarrow> Inl (StartExec e)
            | Inr (ap, _) \<Rightarrow> (case startup_scan w d sn (load_scan_cache dec (pj_cache_file pj)) ap of
                  Inl e \<Rightarrow> Inl (StartScan e)
                | Inr (ap', cache, _) \<Rightarrow>
                    (case persist w ic enc sx writes now True ap' cache ((persistence_new pj now)\<lparr>ps_cache_dirty := True\<rparr>) of
                          (ps, Persisted) \<Rightarrow> Inr \<lparr>sr_applier = ap', sr_cache = cache, sr_persistence = ps, sr_recovered = recovered\<rparr>
                        | (_, r) \<Rightarrow> Inl (StartPersist r))))))"

section \<open>The replica's identity\<close>

definition hex_value :: "char \<Rightarrow> nat option" where
  "hex_value c = (let n = of_char c in
     if 48 \<le> n \<and> n \<le> 57 then Some (n - 48) else if 97 \<le> n \<and> n \<le> 102 then Some (n - 87)
     else if 65 \<le> n \<and> n \<le> 70 then Some (n - 55) else None)"

fun hex_number :: "nat \<Rightarrow> string \<Rightarrow> nat option" where
  "hex_number acc [] = Some acc"
| "hex_number acc (c # cs) = (case hex_value c of
      None \<Rightarrow> None
    | Some n \<Rightarrow> if 2 ^ 64 \<le> 16 * acc + n then None else hex_number (16 * acc + n) cs)"

text \<open>\<^verbatim>\<open>u64::from_str_radix\<close>: hex digits of either case after an optional plus sign.\<close>

definition replica_parse :: "string \<Rightarrow> replica_id option" where
  "replica_parse text =
     (let s = trim text; ds = (case strip_prefix ''+'' s of Some rest \<Rightarrow> rest | None \<Rightarrow> s)
      in if ds = [] then None else map_option (\<lambda>n. ReplicaId (of_nat n)) (hex_number 0 ds))"

datatype replica_error = ReplicaMissing | ReplicaUnreadable | ReplicaMalformed

definition replica_load :: "string option option \<Rightarrow> replica_error + replica_id" where
  "replica_load file = (case file of
      None \<Rightarrow> Inl ReplicaMissing
    | Some None \<Rightarrow> Inl ReplicaUnreadable
    | Some (Some text) \<Rightarrow> (case replica_parse text of None \<Rightarrow> Inl ReplicaMalformed | Some r \<Rightarrow> Inr r))"

end
