(* ===== verification/Tomo_Drain.thy ===== *)
theory Tomo_Drain
  imports Tomo_Bursts
begin

text \<open>
  Shutting down: \<open>drain_history\<close> of \<^verbatim>\<open>crates/tomo/src/session.rs\<close> polls the staged captures at each
  next deadline until none is left. Its termination is proved with the definition; here is what
  it leaves in the store.
\<close>

section \<open>Recording what is due\<close>

definition state_tag :: "entry_state \<Rightarrow> int" where
  "state_tag s = (case s of Tombstone \<Rightarrow> 0 | Present _ \<Rightarrow> 1)"

text \<open>The store has a version of the path with the capture's state and clock.\<close>

definition versioned :: "store_api \<Rightarrow> database \<Rightarrow> relpath \<Rightarrow> staged_capture \<Rightarrow> bool" where
  "versioned api db p cap \<longleftrightarrow>
     (as_str p, state_tag (sc_state cap), sa_clock_enc api (sc_version cap)) \<in> (\<lambda>v. (vr_path v, vr_state v, vr_clock v)) ` set (db_versions db)"

definition unchanged_on_disk :: "(bytes \<Rightarrow> content_hash) \<Rightarrow> tree \<Rightarrow> relpath \<Rightarrow> staged_capture \<Rightarrow> bool" where
  "unchanged_on_disk blake3 t p cap \<longleftrightarrow> (case sc_state cap of Tombstone \<Rightarrow> True | Present sig \<Rightarrow> read_verified blake3 t p sig \<noteq> None)"

lemma journal_add_keys: "entry_key ` set (foldl journal_add j es) = entry_key ` set j \<union> entry_key ` set es"
  by (induction es arbitrary: j) (auto simp: journal_add_def)

lemma versioned_grows: "versioned api db p cap \<Longrightarrow> grows db db' \<Longrightarrow> versioned api db' p cap"
  by (auto simp: versioned_def grows_def)

lemma due_capture_record:
  assumes "r \<in> set (due_capture w d ap (p, cap))" "stored_ok (dk_store d) U ap" "sa_blake3 (dk_store d) = w_blake3 w"
  shows "record_ok (dk_store d) U r" "accepted (dk_store d) r"
    "entry_key (entry_of (dk_store d) r) = (as_str p, state_tag (sc_state cap), sa_clock_enc (dk_store d) (sc_version cap))"
proof -
  have ok: "content_ok (dk_store d) U bs" if "file_bytes (ap_tree ap) p = Some bs" for bs using assms(2) that by (rule stored_ok_file)
  obtain bs where r: "r = capture_record d ap p (sc_state cap) (sc_version cap) (sc_origin_is_local cap) bs"
    "sc_state cap = Tombstone \<and> bs = None \<or>
     (\<exists>sig b. sc_state cap = Present sig \<and> bs = Some b \<and> file_bytes (ap_tree ap) p = Some b \<and> matches_sig (w_blake3 w) b sig)"
  proof (cases "sc_state cap")
    case (Present sig)
    then show ?thesis using assms(1) that
      by (cases "read_verified (w_blake3 w) (ap_tree ap) p sig") (auto simp: due_capture_def read_verified_Some)
  qed (use assms(1) that in \<open>auto simp: due_capture_def\<close>)
  show "record_ok (dk_store d) U r" "accepted (dk_store d) r"
    "entry_key (entry_of (dk_store d) r) = (as_str p, state_tag (sc_state cap), sa_clock_enc (dk_store d) (sc_version cap))"
    using r(2) ok assms(3) unfolding r(1)
    by (auto simp: capture_record_def record_ok_def accepted_def entry_of_def entry_key_def state_tag_def
        matches_sig_def len_u64_def content_ok_def)
qed

lemma due_capture_unchanged:
  "unchanged_on_disk (w_blake3 w) (ap_tree ap) p cap \<Longrightarrow> due_capture w d ap (p, cap) \<noteq> []"
  by (auto simp: unchanged_on_disk_def due_capture_def split: entry_state.splits)

lemma record_due_versions_ok:
  assumes api: "api_ok (dk_store d)" "inj_on (sa_blake3 (dk_store d)) U" "\<forall>b. sa_zenc (dk_store d) b \<noteq> None"
    "sa_blake3 (dk_store d) = w_blake3 w" and ok: "stored_ok (dk_store d) U ap"
  shows "\<exists>ap'. record_due_versions w d ap due = Inr (ap', []) \<and> ap_pressure ap' = ap_pressure ap \<and> ap_tree ap' = ap_tree ap \<and>
    keeps (dk_store d) U ap ap' \<and>
    (\<forall>(p, cap) \<in> set due. unchanged_on_disk (w_blake3 w) (ap_tree ap) p cap \<longrightarrow> versioned (dk_store d) (hs_db (ap_store ap')) p cap)"
proof -
  let ?owned = "concat (map (due_capture w d ap) due)" and ?db = "hs_db (ap_store ap)"
  have wf: "db_wf (dk_store d) U ?db" using ok by (simp add: stored_ok_def)
  note rec = due_capture_record [OF _ ok api(4)]
  have all: "list_all (record_ok (dk_store d) U) ?owned" "list_all (accepted (dk_store d)) ?owned"
    using rec by (auto simp: list_all_iff)
  from record_versions_journal [OF api(1-3) wf all(1)] all(2) obtain db ids
    where r: "record_versions (dk_store d) ?db ?owned = Inr (db, ids)"
      and j: "journal_of (dk_store d) db = foldl journal_add (journal_of (dk_store d) ?db) (map (entry_of (dk_store d)) ?owned)"
    by (auto split: sum.splits)
  note wf' = record_versions_wf [OF api(1) wf all(1) r]
  have v: "versioned (dk_store d) db p cap" if due: "(p, cap) \<in> set due" and disk: "unchanged_on_disk (w_blake3 w) (ap_tree ap) p cap" for p cap
  proof -
    obtain x where x: "x \<in> set (due_capture w d ap (p, cap))" using due_capture_unchanged [OF disk] by (meson last_in_set)
    then have "x \<in> set ?owned" using due by force
    then have "entry_key (entry_of (dk_store d) x) \<in> entry_key ` set (journal_of (dk_store d) db)"
      unfolding j journal_add_keys by force
    then show ?thesis using rec(3) [OF x] unfolding journal_keys versioned_def by simp
  qed
  show ?thesis
  proof (cases "?owned = []")
    case True
    then have "db = ?db" using r unfolding True by simp
    with True v keeps_refl [OF ok] show ?thesis by (auto simp: record_due_versions_def Let_def)
  next
    case False
    then show ?thesis using r v wf' ok by (auto simp: record_due_versions_def Let_def keeps_def stored_ok_def)
  qed
qed

text \<open>Draining records what is staged.\<close>

lemma drain_records:
  assumes api: "api_ok (dk_store d)" "inj_on (sa_blake3 (dk_store d)) U" "\<forall>b. sa_zenc (dk_store d) b \<noteq> None"
    "sa_blake3 (dk_store d) = w_blake3 w" and ok: "stored_ok (dk_store d) U ap"
  shows "\<exists>ap'. drain_history w d ap now = Inr (ap', []) \<and> staged_len (ap_pressure ap') = 0 \<and> ap_tree ap' = ap_tree ap \<and>
    keeps (dk_store d) U ap ap' \<and>
    (\<forall>p cap. bm_get (pc_staging (ap_pressure ap)) p = Some cap \<and> unchanged_on_disk (w_blake3 w) (ap_tree ap) p cap \<longrightarrow>
       versioned (dk_store d) (hs_db (ap_store ap')) p cap)"
  using ok
proof (induction "staged_len (ap_pressure ap)" arbitrary: ap now rule: less_induct)
  case less
  show ?case
  proof (cases "next_due_ms (ap_pressure ap)")
    case None
    then have z: "staged_len (ap_pressure ap) = 0" by (simp add: next_due_None)
    then have "bm_get (pc_staging (ap_pressure ap)) = Map.empty"
      by (simp add: staged_len_def bm_len_card)
    then show ?thesis using z keeps_refl [OF less.prems] by simp
  next
    case (Some due)
    then have nz: "staged_len (ap_pressure ap) \<noteq> 0" using next_due_None [of "ap_pressure ap"] by simp
    let ?now = "max now due" and ?pc = "ap_pressure ap"
    let ?poll = "poll_due ?pc ?now" and ?ap = "ap\<lparr>ap_pressure := fst (poll_due (ap_pressure ap) (max now due))\<rparr>"
    have ok1: "stored_ok (dk_store d) U ?ap" using less.prems by (simp add: stored_ok_def)
    obtain ap1 where 1: "record_due_versions w d ?ap (snd ?poll) = Inr (ap1, [])" "ap_pressure ap1 = fst ?poll" "ap_tree ap1 = ap_tree ap"
      "keeps (dk_store d) U ap ap1"
      "\<forall>(p, cap) \<in> set (snd ?poll). unchanged_on_disk (w_blake3 w) (ap_tree ap) p cap \<longrightarrow> versioned (dk_store d) (hs_db (ap_store ap1)) p cap"
      using record_due_versions_ok [OF api ok1, of "snd ?poll"] by (auto simp: keeps_def)
    have "staged_len (ap_pressure ap1) < staged_len ?pc" using poll_due_shrinks [OF Some, of ?now] 1(2) by simp
    from less.hyps [OF this keepsD [OF 1(4)], of ?now] obtain ap2 where 2: "drain_history w d ap1 ?now = Inr (ap2, [])"
      "staged_len (ap_pressure ap2) = 0" "ap_tree ap2 = ap_tree ap1" "keeps (dk_store d) U ap1 ap2"
      "\<And>p cap. bm_get (pc_staging (ap_pressure ap1)) p = Some cap \<Longrightarrow> unchanged_on_disk (w_blake3 w) (ap_tree ap1) p cap \<Longrightarrow>
         versioned (dk_store d) (hs_db (ap_store ap2)) p cap"
      by blast
    have "drain_history w d ap now = Inr (ap2, [])" using nz Some 1(1) 2(1) by simp
    moreover have "versioned (dk_store d) (hs_db (ap_store ap2)) p cap"
      if "bm_get (pc_staging ?pc) p = Some cap" "unchanged_on_disk (w_blake3 w) (ap_tree ap) p cap" for p cap
    proof (cases "sc_due_at_ms cap \<le> ?now")
      case True
      then have "(p, cap) \<in> set (snd ?poll)" using that(1) by (simp add: poll_due_out)
      then show ?thesis using 1(5) 2(4) that(2) by (auto simp: keeps_def intro: versioned_grows)
    next
      case False
      then show ?thesis using 2(5) [of p cap] that 1(2,3) by (simp add: poll_due_rest)
    qed
    ultimately show ?thesis using 1(3,4) 2 keeps_trans by metis
  qed
qed

text \<open>C26: Shutdown leaves nothing behind. Draining the history ends, whatever the deadlines, with no
  capture staged and no error, and for every capture staged before (a tombstone, or a file still
  on disk as it was noted) the store has the version. Relied on: zstd compresses everything, and
  BLAKE3 has no collision among the chunks met.\<close>

theorem shutdown_records_staged:
  assumes api: "api_ok (dk_store d)" "inj_on (sa_blake3 (dk_store d)) U" "\<forall>b. sa_zenc (dk_store d) b \<noteq> None"
    "sa_blake3 (dk_store d) = w_blake3 w" and ok: "stored_ok (dk_store d) U ap"
  shows "\<exists>ap'. drain_history w d ap now = Inr (ap', []) \<and> staged_len (ap_pressure ap') = 0 \<and> ap_tree ap' = ap_tree ap \<and>
    keeps (dk_store d) U ap ap' \<and>
    (\<forall>p cap. bm_get (pc_staging (ap_pressure ap)) p = Some cap \<and> unchanged_on_disk (w_blake3 w) (ap_tree ap) p cap \<longrightarrow>
       versioned (dk_store d) (hs_db (ap_store ap')) p cap)"
  by (rule drain_records [OF api ok])

definition demo_staged :: "string list applier" where
  "demo_staged = (demo_applier index_new bm_empty (IntervalMs 100))\<lparr>ap_pressure := demo_controller\<rparr>"

theorem shutdown_records_staged_witness:
  "\<exists>ap'. drain_history demo_world demo_disk demo_staged 10 = Inr (ap', []) \<and> staged_len (ap_pressure ap') = 0 \<and>
    (''f'', 0, [2]) \<in> (\<lambda>v. (vr_path v, vr_state v, vr_clock v)) ` set (db_versions (hs_db (ap_store ap')))"
proof -
  have api: "api_ok (dk_store demo_disk)" "inj_on (sa_blake3 (dk_store demo_disk)) demo_universe" "\<forall>b. sa_zenc (dk_store demo_disk) b \<noteq> None"
    "sa_blake3 (dk_store demo_disk) = w_blake3 demo_world"
    using demo_api2_ok by (simp_all add: demo_disk_def demo_world_def no_collisions_def) (simp add: demo_api2_def demo_api_def)
  have ok: "stored_ok (dk_store demo_disk) demo_universe demo_staged"
    by (simp add: stored_ok_def demo_staged_def db_wf_new file_bytes_def)
  obtain ap' where 1: "drain_history demo_world demo_disk demo_staged 10 = Inr (ap', [])" "staged_len (ap_pressure ap') = 0"
    "\<And>p cap. bm_get (pc_staging (ap_pressure demo_staged)) p = Some cap \<and> unchanged_on_disk (w_blake3 demo_world) (ap_tree demo_staged) p cap \<Longrightarrow>
       versioned (dk_store demo_disk) (hs_db (ap_store ap')) p cap"
    using shutdown_records_staged [OF api ok, of 10] by blast
  let ?cap = "\<lparr>sc_state = Tombstone, sc_version = vc_new, sc_origin_is_local = True, sc_staged_at_ms = 10, sc_due_at_ms = 110, sc_size_hint = 3\<rparr>"
  have "versioned (dk_store demo_disk) (hs_db (ap_store ap')) (RelPath ''f'') ?cap"
    by (rule 1(3)) (simp add: demo_staged_def demo_controller_staging unchanged_on_disk_def)
  moreover have "sa_clock_enc (dk_store demo_disk) vc_new = [2]"
    by (simp add: demo_disk_def demo_api2_def demo_clock_def vc_new_def vc_tick_def tomo_eval)
  ultimately show ?thesis using 1 by (auto simp: versioned_def state_tag_def)
qed

end
