(* ===== verification/Tomo_Restart.thy ===== *)
theory Tomo_Restart
  imports Tomo_Persist Tomo_Rescan Tomo_Drain
begin

text \<open>
  What survives the end of a session, clean or not: no file is ever torn by a crash, an index in
  the older layout is read back without its times, the versions a crash has lost are captured
  again, the startup scan settles; and one thing that does not survive: what the startup scan
  has committed is not written to the index file, so a clock is used twice.
\<close>

section \<open>Crashes\<close>

text \<open>The durable writes of a session: single files, and batches behind one barrier. The number is how
  many of the steps of the call (of the installation) succeed before one fails; a staging that
  fails takes the steps of a single write that fails after its first.\<close>

datatype 'f durable_call = AtomicWrite nat string 'f bytes | BatchInstall bool nat "(string \<times> 'f \<times> bytes) list"

fun call_ops :: "'f durable_call \<Rightarrow> 'f file_op list" where
  "call_ops (AtomicWrite n t f bs) = fst (write_staged n t f bs)"
| "call_ops (BatchInstall dir_sync n xs) =
     concat (map (\<lambda>(t, f, bs). fst (stage_write_mode True t bs)) xs) @ take n (install_ops dir_sync (map (\<lambda>(t, f, bs). (t, f)) xs))"

fun call_writes :: "'f durable_call \<Rightarrow> (string \<times> 'f \<times> bytes) list" where
  "call_writes (AtomicWrite n t f bs) = [(t, f, bs)]"
| "call_writes (BatchInstall dir_sync n xs) = xs"

text \<open>A path holds what it held at first or a complete content written for it.\<close>

definition allowed :: "(string \<times> 'f \<times> bytes) set \<Rightarrow> 'f volume \<Rightarrow> 'f \<Rightarrow> bytes option \<Rightarrow> bool" where
  "allowed W v0 f x \<longleftrightarrow> x = map_option fst (vo_final v0 f) \<or> (\<exists>t bs. x = Some bs \<and> (t, f, bs) \<in> W)"

definition whole :: "(string \<times> 'f \<times> bytes) set \<Rightarrow> 'f volume \<Rightarrow> 'f volume \<Rightarrow> bool" where
  "whole W v0 v \<longleftrightarrow> (\<forall>t bs s. vo_temp v t = Some (bs, s) \<longrightarrow> (\<exists>f. (t, f, bs) \<in> W)) \<and>
     (\<forall>f. allowed W v0 f (map_option fst (vo_final v f)) \<and> allowed W v0 f (vo_settled v f)) \<and>
     (\<forall>f bs. vo_final v f \<noteq> Some (bs, False))"

definition synced :: "'f volume \<Rightarrow> string \<Rightarrow> bool" where
  "synced v t \<longleftrightarrow> (\<forall>bs. vo_temp v t \<noteq> Some (bs, False))"

fun op_ok :: "(string \<times> 'f \<times> bytes) set \<Rightarrow> 'f volume \<Rightarrow> 'f file_op \<Rightarrow> bool" where
  "op_ok W v (StageTemp t bs) \<longleftrightarrow> (\<exists>f. (t, f, bs) \<in> W)"
| "op_ok W v (RenameTemp t f) \<longleftrightarrow> synced v t \<and> (\<exists>bs. (t, f, bs) \<in> W)"
| "op_ok W v _ \<longleftrightarrow> True"

fun ops_ok :: "(string \<times> 'f \<times> bytes) set \<Rightarrow> 'f volume \<Rightarrow> 'f file_op list \<Rightarrow> bool" where
  "ops_ok W v [] \<longleftrightarrow> True"
| "ops_ok W v (op # ops) \<longleftrightarrow> op_ok W v op \<and> ops_ok W (apply_op op v) ops"

lemma run_ops_simps [simp]:
  "run_ops [] v = v" "run_ops (op # ops) v = run_ops ops (apply_op op v)" "run_ops (a @ b) v = run_ops b (run_ops a v)"
  by (simp_all add: run_ops_def)

lemma ops_ok_append: "ops_ok W v (a @ b) \<longleftrightarrow> ops_ok W v a \<and> ops_ok W (run_ops a v) b"
  by (induction a arbitrary: v) auto

lemma ops_ok_take: "ops_ok W v ops \<Longrightarrow> ops_ok W v (take n ops)"
  using ops_ok_append [of W v "take n ops" "drop n ops"] by simp

lemma whole_step:
  assumes "whole W v0 v" "op_ok W v op"
    and one: "\<And>t f bs g cs. (t, f, bs) \<in> W \<Longrightarrow> (t, g, cs) \<in> W \<Longrightarrow> f = g \<and> bs = cs"
  shows "whole W v0 (apply_op op v)"
proof (cases op)
  case (RenameTemp t f)
  show ?thesis
  proof (cases "vo_temp v t")
    case None
    then show ?thesis using assms(1) RenameTemp by simp
  next
    case (Some x)
    obtain bs s where x: "x = (bs, s)" by (cases x)
    obtain g where g: "(t, g, bs) \<in> W" using assms(1) Some unfolding x whole_def by blast
    then have "g = f" using assms(2) one RenameTemp by auto
    moreover have "s" using assms(2) Some x RenameTemp by (cases s) (auto simp: synced_def)
    ultimately have "allowed W v0 f (Some bs)" "s" using g by (auto simp: allowed_def)
    then show ?thesis using assms(1) Some x RenameTemp by (simp add: whole_def)
  qed
qed (use assms in \<open>auto simp: whole_def split: if_splits\<close>)

lemma whole_prefix:
  assumes "\<And>t f bs g cs. (t, f, bs) \<in> W \<Longrightarrow> (t, g, cs) \<in> W \<Longrightarrow> f = g \<and> bs = cs"
  shows "whole W v0 v \<Longrightarrow> ops_ok W v ops \<Longrightarrow> whole W v0 (run_ops (take n ops) v)"
proof (induction ops arbitrary: v n)
  case (Cons op ops)
  show ?case
  proof (cases n)
    case (Suc m)
    have "whole W v0 (apply_op op v)" by (rule whole_step [OF Cons.prems(1) _ assms]) (use Cons.prems(2) in simp_all)
    then show ?thesis using Cons Suc by simp
  qed (use Cons.prems in simp)
qed simp

lemma synced_apply: "synced v t \<Longrightarrow> (\<forall>u bs. op = StageTemp u bs \<longrightarrow> u \<noteq> t) \<Longrightarrow> synced (apply_op op v) t"
  by (cases op) (auto simp: synced_def split: option.splits)

lemma stage_ops: "concat (map (\<lambda>(t, f, bs). fst (stage_write_mode True t bs)) xs) = map (\<lambda>(t, f, bs). StageTemp t bs) xs"
  by (induction xs) (auto simp: stage_write_mode_def)

lemma stage_ok: "set xs \<subseteq> W \<Longrightarrow> ops_ok W v (map (\<lambda>(t, f, bs). StageTemp t bs) xs)"
  by (induction xs arbitrary: v) auto

lemma renames_ok:
  "set xs \<subseteq> W \<Longrightarrow> \<forall>(t, f, bs) \<in> set xs. synced v t \<Longrightarrow> ops_ok W v (map (\<lambda>(t, f, bs). RenameTemp t f) xs)"
proof (induction xs arbitrary: v)
  case (Cons x xs)
  obtain t f bs where x: "x = (t, f, bs)" by (cases x)
  have "\<forall>(t', f', bs') \<in> set xs. synced (apply_op (RenameTemp t f) v) t'"
    using Cons.prems(2) by (auto intro!: synced_apply simp del: apply_op.simps)
  from Cons.IH [OF _ this] show ?case using Cons.prems x by auto
qed simp

lemma synced_syncs: "synced v t \<Longrightarrow> synced (run_ops (map SyncTemp ts) v) t"
proof (induction ts arbitrary: v)
  case (Cons u ts)
  have "synced (apply_op (SyncTemp u) v) t" by (rule synced_apply [OF Cons.prems]) simp
  from Cons.IH [OF this] show ?case by simp
qed simp

lemma sync_temps: "t \<in> set ts \<Longrightarrow> synced (run_ops (map SyncTemp ts) v) t"
proof (induction ts arbitrary: v)
  case (Cons u ts)
  have "synced (apply_op (SyncTemp t) v) t" by (auto simp: synced_def)
  from synced_syncs [OF this] Cons show ?case by (cases "t = u") auto
qed simp

lemma sync_temps_ok: "ops_ok W v (map SyncTemp ts)"
  by (induction ts arbitrary: v) auto

lemma install_maps: "(\<lambda>(t, f). RenameTemp t f) \<circ> (\<lambda>(t, f, bs). (t, f)) = (\<lambda>(t, f, bs). RenameTemp t f)"
    "(\<lambda>(t, f). SyncTemp t) \<circ> (\<lambda>(t, f, bs). (t, f)) = SyncTemp \<circ> fst"
  by auto

lemma write_staged_ok:
  assumes "(t, f, bs) \<in> W"
  shows "ops_ok W v (fst (write_staged n t f bs))"
proof -
  have "ops_ok W v (write_and_rename t f bs)" using assms by (auto simp: write_and_rename_def synced_def)
  from this ops_ok_take [OF this, of n] show ?thesis by (simp add: write_staged_def Let_def ops_ok_append)
qed

lemma install_ops_ok:
  assumes "set xs \<subseteq> W"
  shows "ops_ok W v (install_ops dir_sync (map (\<lambda>(t, f, bs). (t, f)) xs))"
proof (cases dir_sync)
  case True
  have "\<forall>(t, f, bs) \<in> set xs. synced (apply_op SyncStaging v) t" by (auto simp: synced_def)
  then show ?thesis using True assms renames_ok [of xs W "apply_op SyncStaging v"]
    by (simp add: install_ops_def ops_ok_append install_maps del: apply_op.simps)
next
  case False
  have "\<forall>(t, f, bs) \<in> set xs. synced (run_ops (map SyncTemp (map fst xs)) v) t" using sync_temps [of _ "map fst xs" v] by force
  then show ?thesis using False assms renames_ok [of xs W] sync_temps_ok [of W v "map fst xs"]
    by (simp add: install_ops_def ops_ok_append install_maps)
qed

lemma call_ops_ok: "set (call_writes c) \<subseteq> W \<Longrightarrow> ops_ok W v (call_ops c)"
  by (cases c) (simp_all add: write_staged_ok stage_ops ops_ok_append stage_ok ops_ok_take install_ops_ok)

lemma calls_ok: "set (concat (map call_writes cs)) \<subseteq> W \<Longrightarrow> ops_ok W v (concat (map call_ops cs))"
  by (induction cs arbitrary: v) (simp_all add: ops_ok_append call_ops_ok)

text \<open>A batch behind its barriers is there whatever a crash loses.\<close>

lemma stage_other: "t \<notin> fst ` set xs \<Longrightarrow> vo_temp (run_ops (map (\<lambda>(t, f, bs). StageTemp t bs) xs) v) t = vo_temp v t"
  by (induction xs arbitrary: v) auto

lemma rename_other: "f \<notin> (fst \<circ> snd) ` set xs \<Longrightarrow> vo_final (run_ops (map (\<lambda>(t, f, bs). RenameTemp t f) xs) v) f = vo_final v f"
  by (induction xs arbitrary: v) (auto split: option.splits)

lemma staged_temps:
  "distinct (map fst xs) \<Longrightarrow> (t, f, bs) \<in> set xs \<Longrightarrow> vo_temp (run_ops (map (\<lambda>(t, f, bs). StageTemp t bs) xs) v) t = Some (bs, False)"
proof (induction xs arbitrary: v)
  case (Cons x xs)
  show ?case
  proof (cases "x = (t, f, bs)")
    case True
    then show ?thesis using Cons.prems(1) by (simp add: stage_other)
  qed (use Cons in auto)
qed simp

lemma renamed_finals:
  "distinct (map fst xs) \<Longrightarrow> distinct (map (fst \<circ> snd) xs) \<Longrightarrow> \<forall>(t, f, bs) \<in> set xs. vo_temp v t = Some (bs, True) \<Longrightarrow>
   (t, f, bs) \<in> set xs \<Longrightarrow> vo_final (run_ops (map (\<lambda>(t, f, bs). RenameTemp t f) xs) v) f = Some (bs, True)"
proof (induction xs arbitrary: v)
  case (Cons x xs)
  obtain u g cs where x: "x = (u, g, cs)" by (cases x)
  let ?v = "apply_op (RenameTemp u g) v"
  have u: "vo_temp v u = Some (cs, True)" using Cons.prems(3) x by auto
  have rest: "\<forall>(t, f, bs) \<in> set xs. vo_temp ?v t = Some (bs, True)" using Cons.prems(1,3) x u by (force simp: image_iff)
  show ?case
  proof (cases "(t, f, bs) = x")
    case True
    then have "f \<notin> (fst \<circ> snd) ` set xs" using Cons.prems(2) by (cases x) simp
    then show ?thesis using u x True by (simp add: rename_other)
  next
    case False
    then show ?thesis using Cons.IH [OF _ _ rest] Cons.prems(1,2,4) x by (auto simp del: apply_op.simps)
  qed
qed simp

lemma batch_survives:
  assumes "distinct (map fst xs)" "distinct (map (fst \<circ> snd) xs)" "(t, f, bs) \<in> set xs" "length xs + 2 \<le> n"
  shows "after_crash lost torn (run_ops (call_ops (BatchInstall True n xs)) v) f = Some bs"
proof -
  let ?a = "apply_op SyncStaging (run_ops (map (\<lambda>(t, f, bs). StageTemp t bs) xs) v)"
  have "\<forall>(t, f, bs) \<in> set xs. vo_temp ?a t = Some (bs, True)" using staged_temps [OF assms(1), of _ _ _ v] by fastforce
  note renamed_finals [OF assms(1,2) this assms(3)]
  moreover have "xs \<noteq> []" using assms(3) by auto
  ultimately show ?thesis using assms(4) by (simp add: stage_ops install_ops_def install_maps after_crash_def)
qed

text \<open>C13: No file is torn. Whatever durable writes a session makes, single or in batches with or
  without the directory barrier, however many of their steps fail, and wherever in them the
  machine dies, losing the renames of any paths and the data not on disk, every path holds its
  old content or a complete content written for it; and a batch that ended with its barrier is
  all there. Relied on: syncing the staging directory puts the staged data on disk.\<close>

theorem crash_never_tears:
  assumes "vo_temp v = Map.empty" "vo_settled v = (\<lambda>f. map_option fst (vo_final v f))"
    and "\<forall>f bs. vo_final v f \<noteq> Some (bs, False)" "distinct (map fst (concat (map call_writes cs)))"
  shows "(let x = after_crash lost torn (run_ops (take n (concat (map call_ops cs))) v) f
      in x = map_option fst (vo_final v f) \<or> (\<exists>t bs. (t, f, bs) \<in> set (concat (map call_writes cs)) \<and> x = Some bs)) \<and>
    (\<forall>ys zs m xs t bs. cs = ys @ BatchInstall True m xs # zs \<and> length xs + 2 \<le> m \<and> distinct (map (fst \<circ> snd) xs) \<and> (t, f, bs) \<in> set xs \<longrightarrow>
       after_crash lost torn (run_ops (concat (map call_ops (ys @ [BatchInstall True m xs]))) v) f = Some bs)"
proof -
  let ?W = "set (concat (map call_writes cs))" and ?v = "run_ops (take n (concat (map call_ops cs))) v"
  have "whole ?W v ?v"
  proof (rule whole_prefix)
    show "f = g \<and> bs = cs'" if "(t, f, bs) \<in> ?W" "(t, g, cs') \<in> ?W" for t f bs g cs'
      using eq_key_imp_eq_value [OF assms(4) that] by simp
    show "whole ?W v v" using assms(1-3) by (auto simp: whole_def allowed_def)
  qed (rule calls_ok, rule order_refl)
  then have "allowed ?W v f (map_option fst (vo_final ?v f))" "allowed ?W v f (vo_settled ?v f)"
      "\<And>bs. vo_final ?v f \<noteq> Some (bs, False)" unfolding whole_def by blast+
  then have "allowed ?W v f (after_crash lost torn ?v f)" by (cases "vo_final ?v f") (auto simp: after_crash_def)
  moreover have "after_crash lost torn (run_ops (concat (map call_ops (ys @ [BatchInstall True m xs]))) v) f = Some bs"
    if "cs = ys @ BatchInstall True m xs # zs" "length xs + 2 \<le> m" "distinct (map (fst \<circ> snd) xs)" "(t, f, bs) \<in> set xs" for ys zs m xs t bs
  proof -
    have "distinct (map fst xs)" using assms(4) that(1) by simp
    then show ?thesis using batch_survives [of xs t f bs m] that(2-4) by simp
  qed
  ultimately show ?thesis by (auto simp: allowed_def Let_def simp del: call_ops.simps)
qed

section \<open>The older index\<close>

text \<open>What the older layout holds of an entry: all but the modification times.\<close>

definition legacy_state_of :: "entry_state \<Rightarrow> legacy_state" where
  "legacy_state_of s = (case s of
      Present g \<Rightarrow> LegacyPresent \<lparr>lg_hash = sig_hash g, lg_size = sig_size g, lg_exec = sig_exec g\<rparr>
    | Tombstone \<Rightarrow> LegacyTombstone)"

definition legacy_entry_of :: "entry \<Rightarrow> legacy_entry" where
  "legacy_entry_of e = \<lparr>lg_heads = map (\<lambda>h. \<lparr>lg_version = hd_version h, lg_state = legacy_state_of (hd_state h)\<rparr>) (heads e)\<rparr>"

definition timeless :: "entry \<Rightarrow> entry" where
  "timeless e = e\<lparr>heads := map (with_mtimes (\<lambda>_. 0)) (heads e)\<rparr>"

lemma upgrade_legacy: "upgrade_state (legacy_state_of (hd_state h)) = hd_state (with_mtimes (\<lambda>_. 0) h)"
  by (cases "hd_state h") (simp_all add: upgrade_state_def legacy_state_of_def with_mtimes_def)

lemma head_key_timeless [simp]: "head_encode (with_mtimes t h) out = head_encode h out" "head_sort_key (with_mtimes t h) = head_sort_key h"
  by (simp_all add: head_sort_key_def head_encode_def with_mtimes_def Let_def split: entry_state.split)

lemma timeless_wf: "entry_wf e \<Longrightarrow> entry_wf (timeless e)"
  by (auto simp: entry_wf_def timeless_def comp_def)

lemma rebuild_legacy:
  assumes "entry_wf e"
  shows "rebuild_entry (legacy_entry_of e) = Rebuilt (timeless e)"
proof -
  let ?z = "with_mtimes (\<lambda>_. 0)"
  obtain h hs where e: "heads e = h # hs" using entry_wf_nonempty [OF assms] by (cases "heads e") auto
  have wf: "entry_wf (timeless e)" by (rule timeless_wf [OF assms])
  define org where "org v = (case List.find (\<lambda>h. hd_version h = v) (heads (timeless e)) of Some h \<Rightarrow> hd_state h | None \<Rightarrow> Tombstone)" for v
  have org: "org (hd_version h) = hd_state h" if "h \<in> set (heads (timeless e))" for h
  proof -
    note mem = that
    obtain g where g: "List.find (\<lambda>x. hd_version x = hd_version h) (heads (timeless e)) = Some g" "g \<in> set (heads (timeless e))" "hd_version g = hd_version h"
      using mem by (cases "List.find (\<lambda>x. hd_version x = hd_version h) (heads (timeless e))") (auto simp: find_None_iff find_Some_iff)
    then have "g = h" using entry_wf_versions_inj [OF wf] mem by blast
    then show ?thesis using g by (simp add: org_def)
  qed
  let ?first = "entry_single (hd_version h) (hd_state (?z h))" and ?ds = "map (\<lambda>h. (hd_version h, hd_state (?z h))) hs"
  have mem: "?z h \<in> set (heads (timeless e))" "\<And>x. x \<in> set hs \<Longrightarrow> ?z x \<in> set (heads (timeless e))" by (simp_all add: timeless_def e)
  have vc: "vc_ok (hd_version h)" "\<And>x. x \<in> set hs \<Longrightarrow> vc_ok (hd_version x)" using entry_wf_ok [OF assms] e by simp_all
  have "coherent org ?first" using org [OF mem(1)] by (simp add: coherent_def entry_single_def)
  moreover have "\<forall>(v, s) \<in> set ?ds. vc_ok v \<and> s = org v" using vc(2) org [OF mem(2)] by auto
  ultimately obtain e' where e': "absorb_all ?first ?ds = Some e'" "entry_wf e'" "coherent org e'"
    "versions e' = clocks.maximal (versions ?first \<union> fst ` set ?ds)"
    using absorb_all_maximal [OF entry_wf_single [OF vc(1)]] by blast
  have "versions ?first \<union> fst ` set ?ds = versions (timeless e)"
    by (auto simp: versions_def entry_single_def timeless_def e image_image)
  then have "versions e' = versions (timeless e)" using e'(4) versions_maximal [OF wf] by simp
  moreover have "coherent org (timeless e)" using org by (simp add: coherent_def)
  ultimately have "e' = timeless e" using entry_determined [OF e'(2) wf e'(3)] by blast
  then show ?thesis using e'(1) by (simp add: rebuild_entry_def legacy_entry_of_def e upgrade_legacy comp_def)
qed

lemma rebuild_all:
  assumes "\<forall>(p, x) \<in> set es. \<exists>e. x = legacy_entry_of e \<and> entry_wf e" "distinct (map fst es)"
  shows "\<exists>j. rebuild_entries i es = Rebuilt j \<and> (\<forall>p. index_get j p =
    (case map_of es p of None \<Rightarrow> index_get i p | Some x \<Rightarrow> (case rebuild_entry x of Rebuilt e \<Rightarrow> Some e | _ \<Rightarrow> None)))"
  using assms
proof (induction es arbitrary: i)
  case (Cons y es)
  obtain p x where y: "y = (p, x)" by (cases y)
  obtain e where e: "x = legacy_entry_of e" "entry_wf e" using Cons.prems(1) y by auto
  obtain j where j: "rebuild_entries (index_put i p (timeless e)) es = Rebuilt j"
    "\<forall>q. index_get j q = (case map_of es q of None \<Rightarrow> index_get (index_put i p (timeless e)) q
       | Some x \<Rightarrow> (case rebuild_entry x of Rebuilt e \<Rightarrow> Some e | _ \<Rightarrow> None))"
    using Cons.IH [of "index_put i p (timeless e)"] Cons.prems by auto
  have "map_of es p = None" using Cons.prems(2) y by (simp add: map_of_eq_None_iff)
  then have "index_get j q = (case map_of (y # es) q of None \<Rightarrow> index_get i q
       | Some x \<Rightarrow> (case rebuild_entry x of Rebuilt e \<Rightarrow> Some e | _ \<Rightarrow> None))" for q
    using j(2) by (cases "q = p"; cases "map_of es q") (simp_all add: y index_get_put e rebuild_legacy)
  then show ?case using j(1) by (simp add: y e rebuild_legacy del: map_of.simps)
qed simp

text \<open>C29: An index in the older layout is read back with every clock. Whatever well-formed index it was
  written from, loading rebuilds that index without the times: never a panic, each entry with
  its heads in their order, the digest the peers compare the same, and the winner of every
  path that is not still in its first adoption the same head.\<close>

theorem legacy_index_restored:
  assumes "index_wf i" "ic_decode ic bs = None" "ic_legacy ic bs = Some (legacy, [])"
    and "\<forall>p. bm_get legacy p = map_option legacy_entry_of (index_get i p)"
  shows "\<exists>j. load_index ic (FileBytes bs) = LoadedIndex j False \<and> index_wf j \<and> canonical_bytes j = canonical_bytes i \<and>
    (\<forall>p. index_get j p = map_option timeless (index_get i p)) \<and>
    (\<forall>p e. index_get i p = Some e \<and> \<not> adoption_mode e \<longrightarrow>
       (\<exists>e'. index_get j p = Some e' \<and> winner e' = map_option (with_mtimes (\<lambda>_. 0)) (winner e)))"
proof -
  have all: "\<forall>(p, x) \<in> set (bm_entries legacy). \<exists>e. x = legacy_entry_of e \<and> entry_wf e"
    using assms(1,4) unfolding index_wf_def by (fastforce simp: bm.mem_entries)
  obtain j where j: "rebuild_entries index_new (bm_entries legacy) = Rebuilt j"
    "\<forall>p. index_get j p = (case map_of (bm_entries legacy) p of None \<Rightarrow> index_get index_new p
       | Some x \<Rightarrow> (case rebuild_entry x of Rebuilt e \<Rightarrow> Some e | _ \<Rightarrow> None))"
    using rebuild_all [OF all bm.distinct_keys] by blast
  have get: "index_get j p = map_option timeless (index_get i p)" for p
  proof (cases "index_get i p")
    case (Some e)
    then show ?thesis using j(2) assms(4) rebuild_legacy [OF index_wf_get [OF assms(1) Some]] by (simp add: bm_get_entries [symmetric])
  qed (use j(2) assms(4) in \<open>simp add: bm_get_entries [symmetric]\<close>)
  have "index_wf j" using assms(1) by (auto simp: index_wf_def get timeless_wf)
  moreover have "index_iter j = map (apsnd timeless) (index_iter i)"
  proof (rule ascending_ext)
    show "ascending (index_iter j)" by (simp add: index_iter_def bm_entries_ascending)
    have "map fst (map (apsnd timeless) (index_iter i)) = map fst (index_iter i)" by (induction "index_iter i") simp_all
    then show "ascending (map (apsnd timeless) (index_iter i))" by (simp add: index_iter_def bm_entries_ascending)
    have "map_of (map (apsnd timeless) xs) p = map_option timeless (map_of xs p)" for xs :: "(relpath \<times> entry) list" and p
      by (induction xs) auto
    then show "map_of (index_iter j) = map_of (map (apsnd timeless) (index_iter i))"
      using get by (simp add: index_iter_def index_get_def bm_get_entries fun_eq_iff)
  qed
  moreover have "record_bytes (apsnd timeless x) = record_bytes x" for x
    by (cases x) (simp add: record_bytes_def timeless_def comp_def)
  ultimately have "index_wf j" "canonical_bytes j = canonical_bytes i" by (simp_all add: canonical_bytes_records comp_def)
  moreover have "load_index ic (FileBytes bs) = LoadedIndex j False"
    using assms(2,3) j(1) by (simp add: load_index_def decode_legacy_def)
  ultimately show ?thesis using get winner_ignores_mtime [of _ "\<lambda>_. 0"] by (auto simp: timeless_def)
qed

section \<open>Versions lost by a crash\<close>

text \<open>The capture a winner without a version is noted as; only state and clock matter below.\<close>

definition capture_of :: "entry_state \<Rightarrow> vector_clock \<Rightarrow> bool \<Rightarrow> staged_capture" where
  "capture_of s v l = \<lparr>sc_state = s, sc_version = v, sc_origin_is_local = l, sc_staged_at_ms = 0, sc_due_at_ms = 0, sc_size_hint = 0\<rparr>"

lemma capture_of_simps [simp]: "sc_state (capture_of s v l) = s" "sc_version (capture_of s v l) = v" "sc_origin_is_local (capture_of s v l) = l"
  by (simp_all add: capture_of_def)

lemma same_capture:
  assumes "sc_state c = sc_state c'" "sc_version c = sc_version c'"
  shows "versioned api db p c = versioned api db p c'" "unchanged_on_disk blake3 t p c = unchanged_on_disk blake3 t p c'"
  using assms by (simp_all add: versioned_def unchanged_on_disk_def)

text \<open>A version is in the history or staged for it, unless the file has changed since.\<close>

definition held :: "('g, 's, 'e) world \<Rightarrow> disk_api \<Rightarrow> 's applier \<Rightarrow> relpath \<Rightarrow> staged_capture \<Rightarrow> bool" where
  "held w d ap p cap \<longleftrightarrow> versioned (dk_store d) (hs_db (ap_store ap)) p cap \<or>
     (\<exists>c. bm_get (pc_staging (ap_pressure ap)) p = Some c \<and> sc_state c = sc_state cap \<and> sc_version c = sc_version cap) \<or>
     \<not> unchanged_on_disk (w_blake3 w) (ap_tree ap) p cap"

text \<open>What the lemmas rely on of the store, and the applier they start from.\<close>

definition recording :: "('g, 's, 'e) world \<Rightarrow> disk_api \<Rightarrow> bytes set \<Rightarrow> bool" where
  "recording w d U \<longleftrightarrow> api_ok (dk_store d) \<and> inj_on (sa_blake3 (dk_store d)) U \<and> (\<forall>b. sa_zenc (dk_store d) b \<noteq> None) \<and>
     sa_blake3 (dk_store d) = w_blake3 w"

definition capturing :: "disk_api \<Rightarrow> bytes set \<Rightarrow> 's applier \<Rightarrow> bool" where
  "capturing d U ap \<longleftrightarrow> stored_ok (dk_store d) U ap \<and> pressure_wf (ap_pressure ap) \<and> pc_mode (ap_pressure ap) \<noteq> Off"

lemma session_record_due:
  "session_record_version w d ap p s v l = (case due_capture w d ap (p, capture_of s v l) of
      [] \<Rightarrow> Inr (ap, [])
    | r # _ \<Rightarrow> (case store_version d ap r of Inl e \<Rightarrow> Inl e | Inr (ap, _) \<Rightarrow> Inr (ap, [])))"
  by (cases s) (simp_all add: session_record_version_def due_capture_def split: option.split)

lemma session_records:
  assumes "recording w d U" "stored_ok (dk_store d) U ap"
  shows "\<exists>ap'. session_record_version w d ap p s v l = Inr (ap', []) \<and> keeps (dk_store d) U ap ap' \<and>
    ap_session ap' = ap_session ap \<and> ap_tree ap' = ap_tree ap \<and> ap_pressure ap' = ap_pressure ap \<and> held w d ap' p (capture_of s v l)"
proof (cases "due_capture w d ap (p, capture_of s v l)")
  case Nil
  then have "\<not> unchanged_on_disk (w_blake3 w) (ap_tree ap) p (capture_of s v l)" using due_capture_unchanged [of w ap p _ d] by blast
  then show ?thesis using Nil keeps_refl [OF assms(2)] by (simp add: session_record_due held_def)
next
  case (Cons r rs)
  note a = assms(1) [unfolded recording_def]
  have r: "record_ok (dk_store d) U r" "accepted (dk_store d) r"
    "entry_key (entry_of (dk_store d) r) = (as_str p, state_tag s, sa_clock_enc (dk_store d) v)"
    using due_capture_record [of r w d ap p "capture_of s v l" U] assms(2) a Cons by simp_all
  have wf: "db_wf (dk_store d) U (hs_db (ap_store ap))" using assms(2) by (simp add: stored_ok_def)
  from record_versions_journal [of "dk_store d" U "hs_db (ap_store ap)" "[r]"] a wf r
  obtain db i where db: "insert_version (dk_store d) (hs_db (ap_store ap)) r = Inr (db, i)"
      "journal_of (dk_store d) db = journal_add (journal_of (dk_store d) (hs_db (ap_store ap))) (entry_of (dk_store d) r)"
    by (auto split: sum.splits prod.splits)
  let ?ap = "ap\<lparr>ap_store := (ap_store ap)\<lparr>hs_db := db\<rparr>, ap_versions_recorded := ap_versions_recorded ap + 1\<rparr>"
  have run: "store_version d ap r = Inr (?ap, i)" using db(1) by (simp add: store_version_def record_version_def)
  have "entry_key (entry_of (dk_store d) r) \<in> entry_key ` set (journal_of (dk_store d) db)"
    unfolding db(2) using journal_add_keys [of _ "[entry_of (dk_store d) r]"] by simp
  then have "versioned (dk_store d) db p (capture_of s v l)" unfolding r(3) journal_keys by (simp add: versioned_def)
  then show ?thesis using Cons run store_version_keeps(1) [OF _ assms(2) r(1) run] a by (simp add: session_record_due held_def)
qed

lemma note_holds:
  assumes "recording w d U" "capturing d U ap"
  shows "\<exists>ap'. note_version w d ap p s v l now = Inr (ap', []) \<and> keeps (dk_store d) U ap ap' \<and> capturing d U ap' \<and>
    ap_session ap' = ap_session ap \<and> ap_tree ap' = ap_tree ap \<and> held w d ap' p (capture_of s v l) \<and>
    (\<forall>q. q \<noteq> p \<longrightarrow> bm_get (pc_staging (ap_pressure ap')) q = bm_get (pc_staging (ap_pressure ap)) q)"
proof -
  let ?pc = "ap_pressure ap"
  let ?ci = "\<lparr>ci_state = s, ci_version = v, ci_origin_is_local = l, ci_size_hint = (case s of Present g \<Rightarrow> sig_size g | Tombstone \<Rightarrow> 0)\<rparr>"
  have ok: "stored_ok (dk_store d) U (ap\<lparr>ap_pressure := pc\<rparr>)" for pc using assms(2) by (simp add: capturing_def stored_ok_def)
  have wf: "pressure_wf ?pc" "pc_mode ?pc \<noteq> Off" using assms(2) by (simp_all add: capturing_def)
  obtain pc dec where n: "pc_note ?pc p ?ci now = Some (pc, dec)" using pc_note_cases [OF wf(1)] by (metis surj_pair)
  let ?dc = "decide (noted ?pc now) p ?ci now (interval ?pc now)"
  have "(pc, dec) = (?pc, Immediate) \<or> (pc, dec) = ?dc"
    using n wf(2) by (simp add: pc_note_cases [OF wf(1)] split: history_mode.splits)
  then have "pc = ?pc \<or> pc = fst ?dc" by (metis fst_conv)
  then have "pc_mode pc = pc_mode ?pc" "\<forall>q. q \<noteq> p \<longrightarrow> bm_get (pc_staging pc) q = bm_get (pc_staging ?pc) q"
    by (auto simp: decide_other)
  then have pc: "pressure_wf pc" "pc_mode pc \<noteq> Off" "\<forall>q. q \<noteq> p \<longrightarrow> bm_get (pc_staging pc) q = bm_get (pc_staging ?pc) q"
    using pc_note_wf [OF wf(1) n] wf(2) by simp_all
  show ?thesis
  proof (cases "dec = Immediate")
    case True
    obtain ap' where "session_record_version w d (ap\<lparr>ap_pressure := pc\<rparr>) p s v l = Inr (ap', [])" "keeps (dk_store d) U (ap\<lparr>ap_pressure := pc\<rparr>) ap'"
      "ap_session ap' = ap_session ap" "ap_tree ap' = ap_tree ap" "ap_pressure ap' = pc" "held w d ap' p (capture_of s v l)"
      using session_records [OF assms(1) ok [of pc], of p s v l] by auto
    then show ?thesis using True n pc keepsD
      by (intro exI [of _ ap']) (auto simp: note_version_def Let_def capturing_def intro: keeps_frame_left)
  next
    case False
    have "\<exists>c. bm_get (pc_staging pc) p = Some c \<and> sc_state c = s \<and> sc_version c = v"
      using n False wf(2) decide_staged [of "interval ?pc now" "noted ?pc now" p ?ci now] decide_immediate [of "interval ?pc now" "noted ?pc now" p ?ci now]
      by (cases "interval ?pc now = 0 \<and> bm_get (pc_staging ?pc) p = None") (auto simp: pc_note_cases [OF wf(1)] split: history_mode.splits)
    moreover have "note_version w d ap p s v l now = Inr (ap\<lparr>ap_pressure := pc\<rparr>, [])" using n False by (cases dec) (simp_all add: note_version_def)
    ultimately show ?thesis using pc ok keepsD [of "dk_store d" U] assms(2)
      by (intro exI [of _ "ap\<lparr>ap_pressure := pc\<rparr>"]) (auto simp: capturing_def held_def keeps_def)
  qed
qed

lemma held_other:
  assumes "held w d ap p cap" "keeps (dk_store d) U ap ap'" "ap_tree ap' = ap_tree ap"
    and "bm_get (pc_staging (ap_pressure ap')) p = bm_get (pc_staging (ap_pressure ap)) p"
  shows "held w d ap' p cap"
  using assms versioned_grows [of "dk_store d" "hs_db (ap_store ap)" p cap] by (auto simp: held_def keeps_def)

lemma note_all_holds:
  assumes "recording w d U"
  shows "capturing d U ap \<Longrightarrow> distinct (map fst xs) \<Longrightarrow>
    \<exists>ap'. note_all w d now ap xs = Inr (ap', []) \<and> keeps (dk_store d) U ap ap' \<and> capturing d U ap' \<and>
      ap_session ap' = ap_session ap \<and> ap_tree ap' = ap_tree ap \<and> (\<forall>(p, s, v, l) \<in> set xs. held w d ap' p (capture_of s v l)) \<and>
      (\<forall>q. q \<notin> fst ` set xs \<longrightarrow> bm_get (pc_staging (ap_pressure ap')) q = bm_get (pc_staging (ap_pressure ap)) q)"
proof (induction xs arbitrary: ap)
  case Nil
  then show ?case using keeps_refl by (auto simp: capturing_def)
next
  case (Cons x xs)
  obtain p s v l where x: "x = (p, s, v, l)" by (cases x)
  obtain ap1 where 1: "note_version w d ap p s v l now = Inr (ap1, [])" "keeps (dk_store d) U ap ap1" "capturing d U ap1"
    "ap_session ap1 = ap_session ap" "ap_tree ap1 = ap_tree ap" "held w d ap1 p (capture_of s v l)"
    "\<forall>q. q \<noteq> p \<longrightarrow> bm_get (pc_staging (ap_pressure ap1)) q = bm_get (pc_staging (ap_pressure ap)) q"
    using note_holds [OF assms Cons.prems(1)] by blast
  obtain ap2 where 2: "note_all w d now ap1 xs = Inr (ap2, [])" "keeps (dk_store d) U ap1 ap2" "capturing d U ap2"
    "ap_session ap2 = ap_session ap1" "ap_tree ap2 = ap_tree ap1" "\<forall>(p, s, v, l) \<in> set xs. held w d ap2 p (capture_of s v l)"
    "\<forall>q. q \<notin> fst ` set xs \<longrightarrow> bm_get (pc_staging (ap_pressure ap2)) q = bm_get (pc_staging (ap_pressure ap1)) q"
    using Cons.IH [OF 1(3)] Cons.prems(2) by auto
  have "p \<notin> fst ` set xs" using Cons.prems(2) x by simp
  then have "held w d ap2 p (capture_of s v l)" using held_other [OF 1(6) 2(2,5)] 2(7) by simp
  then show ?case using 1 2 x keeps_trans [OF 1(2) 2(2)] by auto
qed

lemma lost_versions_spec:
  assumes "\<forall>(p, e) \<in> set es. winner e \<noteq> None"
  shows "\<exists>xs. lost_versions api ours I es = Some xs \<and> set (map fst xs) \<subseteq> fst ` set es \<and>
    (distinct (map fst es) \<longrightarrow> distinct (map fst xs)) \<and>
    (\<forall>p e h. (p, e) \<in> set es \<and> winner e = Some h \<and> (as_str p, sa_clock_enc api (hd_version h), state_tag (hd_state h)) \<notin> I \<longrightarrow>
       (\<exists>l. (p, hd_state h, hd_version h, l) \<in> set xs))"
  using assms
proof (induction es)
  case (Cons y es)
  obtain p e where y: "y = (p, e)" by (cases y)
  obtain h where h: "winner e = Some h" using Cons.prems y by auto
  obtain xs where xs: "lost_versions api ours I es = Some xs" "set (map fst xs) \<subseteq> fst ` set es"
    "distinct (map fst es) \<longrightarrow> distinct (map fst xs)"
    "\<And>p e h. (p, e) \<in> set es \<Longrightarrow> winner e = Some h \<Longrightarrow> (as_str p, sa_clock_enc api (hd_version h), state_tag (hd_state h)) \<notin> I \<Longrightarrow>
       \<exists>l. (p, hd_state h, hd_version h, l) \<in> set xs"
    using Cons.IH Cons.prems by auto
  let ?in = "(as_str p, sa_clock_enc api (hd_version h), state_tag (hd_state h)) \<in> I"
  define l where "l = (case clock_author (hd_version h) of None \<Rightarrow> True | Some a \<Rightarrow> a = ours)"
  define ys where "ys = (if ?in then xs else (p, hd_state h, hd_version h, l) # xs)"
  have tag: "state_tag (hd_state h) = (case hd_state h of Present _ \<Rightarrow> 1 | Tombstone \<Rightarrow> 0)" by (simp add: state_tag_def split: entry_state.split)
  have "lost_versions api ours I (y # es) = Some ys"
    using xs(1) by (simp add: y h ys_def l_def tag Let_def)
  moreover have "set (map fst ys) \<subseteq> fst ` set (y # es)" using xs(2) by (auto simp: ys_def y)
  moreover have "distinct (map fst (y # es)) \<longrightarrow> distinct (map fst ys)" using xs(2,3) by (auto simp: ys_def y)
  moreover have "\<exists>l. (q, hd_state g, hd_version g, l) \<in> set ys"
    if "(q, c) \<in> set (y # es)" "winner c = Some g" "(as_str q, sa_clock_enc api (hd_version g), state_tag (hd_state g)) \<notin> I" for q c g
  proof (cases "(q, c) \<in> set es")
    case True
    then show ?thesis using xs(4) [OF True that(2,3)] by (auto simp: ys_def)
  next
    case False
    then have "q = p" "c = e" using that(1) y by auto
    then show ?thesis using that(2,3) h by (auto simp: ys_def)
  qed
  ultimately show ?case by blast
qed simp

lemma completeness_holds:
  assumes "recording w d U" "capturing d U ap" "engine_wf (eng ap)"
  shows "\<exists>ap'. reconcile_history_completeness w d ap = Inr (ap', []) \<and> keeps (dk_store d) U ap ap' \<and> ap_tree ap' = ap_tree ap \<and>
    capturing d U ap' \<and> (\<forall>p e h. index_get (eng_index (eng ap)) p = Some e \<and> winner e = Some h \<longrightarrow>
       (\<exists>l. held w d ap' p (capture_of (hd_state h) (hd_version h) l)))"
proof -
  define ap0 where "ap0 = (if ss_peer_replica (ap_session ap) = None
     then ap\<lparr>ap_session := (ap_session ap)\<lparr>ss_peer_replica := guess_peer (eng_replica (eng ap)) (eng_index (eng ap))\<rparr>\<rparr> else ap)"
  have ap0: "capturing d U ap0" "ap_tree ap0 = ap_tree ap" "ap_store ap0 = ap_store ap" "eng ap0 = eng ap"
    using assms(2) by (simp_all add: ap0_def capturing_def stored_ok_def eng_def)
  let ?I = "version_identities (hs_db (ap_store ap0))" and ?es = "index_iter (eng_index (eng ap))"
  have wf: "\<forall>(p, e) \<in> set ?es. winner e \<noteq> None"
    using assms(3) by (auto simp: index_iter_mem engine_wf_def winner_None_iff dest!: index_wf_get entry_wf_nonempty)
  have "distinct (map fst ?es)" by (simp add: index_iter_def bm.distinct_keys)
  then obtain xs where xs: "lost_versions (dk_store d) (eng_replica (eng ap)) ?I ?es = Some xs" "distinct (map fst xs)"
    "\<And>p e h. (p, e) \<in> set ?es \<Longrightarrow> winner e = Some h \<Longrightarrow> (as_str p, sa_clock_enc (dk_store d) (hd_version h), state_tag (hd_state h)) \<notin> ?I \<Longrightarrow>
       \<exists>l. (p, hd_state h, hd_version h, l) \<in> set xs"
    using lost_versions_spec [OF wf, of "dk_store d" "eng_replica (eng ap)" ?I] by blast
  obtain ap' where n: "note_all w d (dk_now_ms d) ap0 xs = Inr (ap', [])" "keeps (dk_store d) U ap0 ap'" "capturing d U ap'"
    "ap_tree ap' = ap_tree ap0" "\<forall>(p, s, v, l) \<in> set xs. held w d ap' p (capture_of s v l)"
    using note_all_holds [OF assms(1) ap0(1) xs(2)] by blast
  have run: "reconcile_history_completeness w d ap = Inr (ap', [])"
    unfolding reconcile_history_completeness_def Let_def ap0_def [symmetric] using xs(1) n(1) ap0(4) by simp
  have "\<exists>l. held w d ap' p (capture_of (hd_state h) (hd_version h) l)" if "index_get (eng_index (eng ap)) p = Some e" "winner e = Some h" for p e h
  proof (cases "(as_str p, sa_clock_enc (dk_store d) (hd_version h), state_tag (hd_state h)) \<in> ?I")
    case True
    then have "versioned (dk_store d) (hs_db (ap_store ap0)) p (capture_of (hd_state h) (hd_version h) l)" for l
      by (auto simp: versioned_def version_identities_def)
    then have "versioned (dk_store d) (hs_db (ap_store ap')) p (capture_of (hd_state h) (hd_version h) l)" for l
      using versioned_grows n(2) unfolding keeps_def by blast
    then show ?thesis by (simp add: held_def)
  next
    case False
    note h = that
    from xs(3) [OF _ h(2) False] h(1) obtain l where "(p, hd_state h, hd_version h, l) \<in> set xs" by (auto simp: index_iter_mem)
    then have "held w d ap' p (capture_of (hd_state h) (hd_version h) l)" using n(5) by fastforce
    then show ?thesis by blast
  qed
  then show ?thesis using run n(2-4) ap0(2,3) keeps_frame_left [OF n(2), of ap] by auto
qed

text \<open>C14: A crash loses no version of what is on disk. A session that starts on any index and history,
  with a history mode other than off, notes again every winner the history has no version of;
  when its captures are drained, the history has a version with path, state and clock of every
  winner that is a deletion or whose file is still as the index says. Nothing recorded before
  is lost, and the step neither fails nor panics.\<close>

theorem restart_completes_history:
  assumes "recording w d U" "capturing d U ap" "engine_wf (eng ap)"
  shows "\<exists>ap1 ap2. reconcile_history_completeness w d ap = Inr (ap1, []) \<and> drain_history w d ap1 now = Inr (ap2, []) \<and>
    keeps (dk_store d) U ap ap2 \<and> ap_tree ap2 = ap_tree ap \<and>
    (\<forall>p e h. index_get (eng_index (eng ap)) p = Some e \<and> winner e = Some h \<and>
       (case hd_state h of Tombstone \<Rightarrow> True | Present sig \<Rightarrow> read_verified (w_blake3 w) (ap_tree ap) p sig \<noteq> None) \<longrightarrow>
       (as_str p, state_tag (hd_state h), sa_clock_enc (dk_store d) (hd_version h))
         \<in> (\<lambda>v. (vr_path v, vr_state v, vr_clock v)) ` set (db_versions (hs_db (ap_store ap2))))"
proof -
  obtain ap1 where 1: "reconcile_history_completeness w d ap = Inr (ap1, [])" "keeps (dk_store d) U ap ap1" "ap_tree ap1 = ap_tree ap"
    "capturing d U ap1" "\<And>p e h. index_get (eng_index (eng ap)) p = Some e \<Longrightarrow> winner e = Some h \<Longrightarrow>
       \<exists>l. held w d ap1 p (capture_of (hd_state h) (hd_version h) l)"
    using completeness_holds [OF assms] by blast
  note a = assms(1) [unfolded recording_def]
  have "stored_ok (dk_store d) U ap1" using 1(4) by (simp add: capturing_def)
  then obtain ap2 where 2: "drain_history w d ap1 now = Inr (ap2, [])" "ap_tree ap2 = ap_tree ap1" "keeps (dk_store d) U ap1 ap2"
    "\<And>p cap. bm_get (pc_staging (ap_pressure ap1)) p = Some cap \<Longrightarrow> unchanged_on_disk (w_blake3 w) (ap_tree ap1) p cap \<Longrightarrow>
       versioned (dk_store d) (hs_db (ap_store ap2)) p cap"
    using drain_records [of d U w ap1 now] a by blast
  have "(as_str p, state_tag (hd_state h), sa_clock_enc (dk_store d) (hd_version h))
         \<in> (\<lambda>v. (vr_path v, vr_state v, vr_clock v)) ` set (db_versions (hs_db (ap_store ap2)))"
    if "index_get (eng_index (eng ap)) p = Some e" "winner e = Some h"
      "case hd_state h of Tombstone \<Rightarrow> True | Present sig \<Rightarrow> read_verified (w_blake3 w) (ap_tree ap) p sig \<noteq> None" for p e h
  proof -
    note h = that
    obtain l where l: "held w d ap1 p (capture_of (hd_state h) (hd_version h) l)" using 1(5) h(1,2) by blast
    let ?cap = "capture_of (hd_state h) (hd_version h) l"
    have u: "unchanged_on_disk (w_blake3 w) (ap_tree ap1) p ?cap" using h(3) 1(3) by (simp add: unchanged_on_disk_def)
    have grown: "grows (hs_db (ap_store ap1)) (hs_db (ap_store ap2))" using 2(3) by (simp add: keeps_def)
    have "versioned (dk_store d) (hs_db (ap_store ap2)) p ?cap"
    proof (cases "versioned (dk_store d) (hs_db (ap_store ap1)) p ?cap")
      case False
      then obtain c where c: "bm_get (pc_staging (ap_pressure ap1)) p = Some c" "sc_state c = sc_state ?cap" "sc_version c = sc_version ?cap"
        using l u by (auto simp: held_def)
      then show ?thesis using 2(4) [OF c(1)] u same_capture [OF c(2,3)] by simp
    qed (rule versioned_grows [OF _ grown])
    then show ?thesis by (simp add: versioned_def)
  qed
  note all = this
  show ?thesis
    by (intro exI [of _ ap1] exI [of _ ap2] conjI allI impI; (elim conjE)?)
      (rule 1(1) 2(1) keeps_trans [OF 1(2) 2(3)] trans [OF 2(2) 1(3)] all | assumption)+
qed

section \<open>Starting again\<close>

lemma note_all_frame:
  "note_all w d now ap xs = Inr (ap', out) \<Longrightarrow> ap_session ap' = ap_session ap \<and> ap_tree ap' = ap_tree ap"
proof (induction xs arbitrary: ap out)
  case (Cons x xs)
  obtain p s v l where x: "x = (p, s, v, l)" by (cases x)
  obtain ap1 o1 o2 where "note_version w d ap p s v l now = Inr (ap1, o1)" "note_all w d now ap1 xs = Inr (ap', o2)"
    using Cons.prems x by (auto simp: and_then_Inr)
  then show ?case using Cons.IH note_version_frame [of w d ap p s v l now ap1 o1] by simp
qed simp

lemma completeness_frame:
  "reconcile_history_completeness w d ap = Inr (ap', out) \<Longrightarrow>
     eng ap' = eng ap \<and> ap_tree ap' = ap_tree ap \<and> ss_config (ap_session ap') = ss_config (ap_session ap)"
  by (auto simp: reconcile_history_completeness_def Let_def eng_def dest!: note_all_frame split: option.splits if_splits)

lemma clean_index_kept:
  assumes "\<not> ps_index_dirty ps" "persist w ic enc sx writes now force ap cache ps = (ps', r)"
  shows "ps_index_file ps' = ps_index_file ps"
  using assms
  by (auto simp: persist_def persist_index_step_def persist_status_step_def Let_def split: if_splits option.splits sum.splits prod.splits)

text \<open>A dirty index that is written is read back as it was.\<close>

lemma dirty_index_saved:
  assumes "\<And>i bs. ic_encode ic i = Some bs \<Longrightarrow> ic_decode ic bs = Some i"
    and "ps_index_dirty ps" "persist w ic enc sx writes now True ap cache ps = (ps', Persisted)"
  shows "load_index ic (ps_index_file ps') = LoadedIndex (eng_index (eng ap)) False \<and> \<not> ps_index_dirty ps'"
  using assms(2,3)
  by (auto simp: persist_def persist_index_step_def persist_status_step_def store_index_def load_index_def Let_def assms(1)
      split: if_splits option.splits sum.splits prod.splits)

text \<open>What a started session is made of.\<close>

lemma started_parts:
  assumes "start_session w d sn ic enc dec sx writes now pj = Inr r"
  shows "\<exists>i x hs ap1 out1 out2. load_index ic (pj_index_file pj) = LoadedIndex i x \<and> pj_history pj = Some hs \<and>
    reconcile_history_completeness w d (applier_new pj hs i) = Inr (ap1, out1) \<and>
    startup_scan w d sn (load_scan_cache dec (pj_cache_file pj)) ap1 = Inr (sr_applier r, sr_cache r, out2) \<and>
    ps_index_file (sr_persistence r) = pj_index_file pj"
proof -
  obtain i x hs ap1 out1 ap2 cache out2 ps where p: "load_index ic (pj_index_file pj) = LoadedIndex i x" "pj_history pj = Some hs"
    "reconcile_history_completeness w d (applier_new pj hs i) = Inr (ap1, out1)"
    "startup_scan w d sn (load_scan_cache dec (pj_cache_file pj)) ap1 = Inr (ap2, cache, out2)"
    "persist w ic enc sx writes now True ap2 cache ((persistence_new pj now)\<lparr>ps_cache_dirty := True\<rparr>) = (ps, Persisted)"
    "r = \<lparr>sr_applier = ap2, sr_cache = cache, sr_persistence = ps, sr_recovered = x\<rparr>"
    using assms by (auto simp: start_session_def split: loaded_index.splits option.splits sum.splits prod.splits persist_result.splits)
  have "ps_index_file ps = pj_index_file pj"
    using clean_index_kept [OF _ p(5)] by (simp add: persistence_new_def)
  then show ?thesis using p by auto
qed

text \<open>The premises of a start on a project whose index file is read as \<open>i\<close>.\<close>

definition startable ::
    "('g, 's, 'e) world \<Rightarrow> scan_api \<Rightarrow> (bytes \<Rightarrow> (u32 \<times> scan_cache) option) \<Rightarrow> index \<Rightarrow> 's project \<Rightarrow> bool" where
  "startable w sn dec i pj \<longleftrightarrow> index_wf i \<and>
     (\<forall>p. vc_get (base_clock (engine_new (pj_replica pj) i) p) (pj_replica pj) \<noteq> - 1) \<and>
     names_canonical sn (pj_tree pj) \<and> cache_honest sn (w_blake3 w) (pj_tree pj) (load_scan_cache dec (pj_cache_file pj))"

definition project_disk :: "('g, 's, 'e) world \<Rightarrow> scan_api \<Rightarrow> 's project \<Rightarrow> relpath \<Rightarrow> content_sig option" where
  "project_disk w sn pj = scanned_sig sn (path_ignored (w_globs w) (pj_config pj)) (w_blake3 w) (pj_tree pj)"

lemma started_index:
  assumes "start_session w d sn ic enc dec sx writes now pj = Inr r" "startable w sn dec i pj"
    and "load_index ic (pj_index_file pj) = LoadedIndex i x"
  shows "index_get (eng_index (eng (sr_applier r))) p =
      (case scan_change (path_ignored (w_globs w) (pj_config pj)) (project_disk w sn pj) i p of
         Some k \<Rightarrow> Some (committed (engine_new (pj_replica pj) i) p k) | None \<Rightarrow> index_get i p)"
    "engine_wf (eng (sr_applier r))" "ps_index_file (sr_persistence r) = pj_index_file pj"
proof -
  obtain hs ap1 out1 out2 where s: "reconcile_history_completeness w d (applier_new pj hs i) = Inr (ap1, out1)"
    "startup_scan w d sn (load_scan_cache dec (pj_cache_file pj)) ap1 = Inr (sr_applier r, sr_cache r, out2)"
    "ps_index_file (sr_persistence r) = pj_index_file pj"
    using started_parts [OF assms(1)] assms(3) by auto
  have ap1: "eng ap1 = engine_new (pj_replica pj) i" "ap_tree ap1 = pj_tree pj" "ss_config (ap_session ap1) = pj_config pj"
    using completeness_frame [OF s(1)] by (simp_all add: applier_new_def eng_def session_new_def)
  have e: "eng_index (engine_new (pj_replica pj) i) = i" "eng_replica (engine_new (pj_replica pj) i) = pj_replica pj"
    by (simp_all add: engine_new_def)
  have pre: "engine_wf (eng ap1)" "no_echoes (eng ap1)" "\<forall>p. vc_get (base_clock (eng ap1) p) (eng_replica (eng ap1)) \<noteq> - 1"
    "names_canonical sn (ap_tree ap1)" "cache_honest sn (w_blake3 w) (ap_tree ap1) (load_scan_cache dec (pj_cache_file pj))"
    using assms(2) by (simp_all add: startable_def ap1 e engine_wf_new)
  note win = startup_scan_winners [OF pre s(2)]
  show "index_get (eng_index (eng (sr_applier r))) p =
      (case scan_change (path_ignored (w_globs w) (pj_config pj)) (project_disk w sn pj) i p of
         Some k \<Rightarrow> Some (committed (engine_new (pj_replica pj) i) p k) | None \<Rightarrow> index_get i p)"
    using win(5) [of p] unfolding ap1 e project_disk_def .
  show "engine_wf (eng (sr_applier r))" using win(1) by blast
  show "ps_index_file (sr_persistence r) = pj_index_file pj" by (rule s(3))
qed

lemma known_version_ignored:
  assumes "index_get (eng_index e) p = Some (entry_single v s)"
  shows "handle e (Remote \<lparr>rc_path = p, rc_kind = k, rc_version = v\<rparr>) = Some (e, [])"
  using assms by (simp add: handle_def handle_remote_def absorb_remote_def absorb_def entry_single_def vc_compare_cases)

text \<open>C30: A clock is used twice. The startup scan commits the edits made while nothing was running,
  but does not mark the index dirty, so the index file stays as it was, although everything is
  written right after the scan. If the session ends before another change marks it, the file
  is edited again and the next session starts, that edit is committed with the very clock the
  first one has: two contents with one version. A peer that got the first one takes the second
  for known and never shows it.\<close>

theorem restart_reuses_version:
  assumes "start_session w d sn ic enc dec sx writes now pj = Inr r" "startable w sn dec i pj"
    and "start_session w d' sn' ic enc dec sx' writes' now' pj' = Inr r'" "startable w sn' dec i pj'"
    and "load_index ic (pj_index_file pj) = LoadedIndex i x"
    and "pj_index_file pj' = ps_index_file (sr_persistence r)" "pj_replica pj' = pj_replica pj"
    and "project_disk w sn pj p = Some sig" "scan_differs i p sig" "project_disk w sn' pj' p = Some sig'" "scan_differs i p sig'"
  shows "\<exists>v. index_get (eng_index (eng (sr_applier r))) p = Some (entry_single v (Present sig)) \<and>
    index_get (eng_index (eng (sr_applier r'))) p = Some (entry_single v (Present sig')) \<and>
    (\<forall>e. index_get (eng_index e) p = Some (entry_single v (Present sig)) \<longrightarrow>
       handle e (Remote \<lparr>rc_path = p, rc_kind = Modified sig', rc_version = v\<rparr>) = Some (e, []))"
proof -
  have "load_index ic (pj_index_file pj') = LoadedIndex i x" using assms(5,6) started_index(3) [OF assms(1,2,5)] by simp
  note second = started_index(1) [OF assms(3,4) this, of p] and first = started_index(1) [OF assms(1,2,5), of p]
  let ?v = "vc_tick (base_clock (engine_new (pj_replica pj) i) p) (pj_replica pj)"
  have "eng_replica (engine_new q i) = q" for q by (simp add: engine_new_def)
  then have "index_get (eng_index (eng (sr_applier r))) p = Some (entry_single ?v (Present sig))"
    "index_get (eng_index (eng (sr_applier r'))) p = Some (entry_single ?v (Present sig'))"
    using first second assms(7-11) by (simp_all add: scan_change_def committed_def state_from_kind_def)
  then show ?thesis using known_version_ignored by blast
qed

section \<open>What the status and the cache say\<close>

definition present :: "relpath \<times> entry \<Rightarrow> bool" where
  "present x \<longleftrightarrow> (case winner (snd x) of Some h \<Rightarrow> hd_state h \<noteq> Tombstone | None \<Rightarrow> False)"

lemma count_winners_exact:
  "\<forall>(p, e) \<in> set es. winner e \<noteq> None \<Longrightarrow> count_winners es f d =
     Some (f + of_nat (length (filter present es)), d + of_nat (length (filter (\<lambda>x. \<not> present x) es)))"
proof (induction es arbitrary: f d)
  case (Cons x es)
  obtain p e h where "x = (p, e)" "winner e = Some h" using Cons.prems by (cases x) auto
  then show ?case using Cons by (auto simp: present_def split: entry_state.splits)
qed simp

text \<open>The status of a well-formed index is its digest, the number of paths whose winner is a file,
  and the number of the others.\<close>

lemma summarize_exact:
  assumes "index_wf i"
  shows "summarize blake3 i = Some (hash_display (blake3 (canonical_bytes i)),
    of_nat (length (filter present (index_iter i))), of_nat (length (filter (\<lambda>x. \<not> present x) (index_iter i))))"
proof -
  have "\<forall>(p, e) \<in> set (index_iter i). winner e \<noteq> None"
    using assms by (auto simp: index_iter_mem winner_None_iff dest!: index_wf_get entry_wf_nonempty)
  then show ?thesis by (simp add: summarize_def count_winners_exact)
qed

text \<open>A write between the signature of an event and the metadata of its cache entry is hidden by the
  entry: a later scan takes the old hash, and reports nothing if the length is the same. This is
  so until the watcher reports that write too.\<close>

lemma stale_note_hides_edit:
  assumes "bm_get t p = Some (FileNode bs exec mtime)" "winner_state i p = Some (Present sig)"
    and "sig_size sig = of_nat (length bs)" "sig_exec sig = exec" "sat_add (sn_mtime_ns sn p) RECENT_WINDOW_NS < sn_now_ns sn"
  shows "\<exists>e. visit_file sn blake3 t (cache_note_present sn t p sig cache) p p bs exec mtime = Inr [(p, e)] \<and> \<not> scan_differs i p (ce_sig e)"
proof -
  have "\<not> sn_now_ns sn \<le> sat_add (sn_mtime_ns sn p) RECENT_WINDOW_NS" using assms(5) by simp
  then show ?thesis using assms(1-4)
    by (simp add: visit_file_def cache_note_present_def stat_entry_def bm_get_insert scan_decide_def scan_differs_def sig_eq_def Let_def)
qed

text \<open>Sixteen hex digits read back as the number they show.\<close>

lemma hex_value_digit: "n < 16 \<Longrightarrow> hex_value (hex_digit n) = Some n"
  by (auto simp: hex_value_def hex_digit_def Let_def)

lemma hex_number_digits:
  "acc * 16 ^ k + n mod 16 ^ k < 2 ^ 64 \<Longrightarrow>
     hex_number acc (map (\<lambda>i. hex_digit (n div 16 ^ i mod 16)) (rev [0..<k])) = Some (acc * 16 ^ k + n mod 16 ^ k)"
proof (induction k arbitrary: acc)
  case (Suc k)
  let ?d = "n div 16 ^ k mod 16"
  have split: "acc * 16 ^ Suc k + n mod 16 ^ Suc k = (16 * acc + ?d) * 16 ^ k + n mod 16 ^ k"
    using mod_mult2_eq [of n "16 ^ k" 16] by (simp add: algebra_simps)
  have "16 * acc + ?d \<le> (16 * acc + ?d) * 16 ^ k" by simp
  then have "16 * acc + ?d < 2 ^ 64" using Suc.prems unfolding split by linarith
  moreover have "hex_value (hex_digit ?d) = Some ?d" by (simp add: hex_value_digit)
  moreover have "hex_number (16 * acc + ?d) (map (\<lambda>i. hex_digit (n div 16 ^ i mod 16)) (rev [0..<k])) =
      Some ((16 * acc + ?d) * 16 ^ k + n mod 16 ^ k)"
    using Suc.prems unfolding split by (rule Suc.IH)
  ultimately show ?case unfolding split by simp
qed simp

lemma replica_digits:
  "replica_parse (map (\<lambda>i. hex_digit (unat (drop_bit (4 * i) w) mod 16)) (rev [0..<16])) = Some (ReplicaId w)"
proof -
  let ?s = "map (\<lambda>i. hex_digit (unat w div 16 ^ i mod 16)) (rev [0..<16])"
  have s: "map (\<lambda>i. hex_digit (unat (drop_bit (4 * i) w) mod 16)) (rev [0..<16]) = ?s"
    by (simp only: unat_drop_bit_eq) (simp add: drop_bit_eq_div power_mult)
  have space: "\<not> is_space (hex_digit n)" "hex_digit n \<noteq> CHR ''+''" if "n < 16" for n
    using hex_value_digit [OF that] by (auto simp: is_space_def hex_value_def split: if_splits)
  have ends: "hd ?s = hex_digit (unat w div 16 ^ 15 mod 16)" "last ?s = hex_digit (unat w mod 16)" "?s \<noteq> []"
    by (simp_all add: upt_rec)
  have "trim ?s = ?s" by (rule trim_tight) (simp_all add: ends space)
  moreover have "strip_prefix ''+'' ?s = None"
    using space(2) [of "unat w div 16 ^ 15 mod 16"] ends(1) by (cases ?s) (auto simp: strip_prefix_Some)
  moreover have "hex_number 0 ?s = Some (unat w)"
  proof -
    have "unat w < 2 ^ 64" using unsigned_less [of w, where 'a = nat] by simp
    then show ?thesis using hex_number_digits [of 0 16 "unat w"] by simp
  qed
  ultimately show ?thesis unfolding s using ends(3) by (simp add: replica_parse_def Let_def)
qed

section \<open>At work\<close>

text \<open>A single write that fails after its first step and a batch, on an empty volume.\<close>

definition demo_volume :: "string volume" where
  "demo_volume = \<lparr>vo_temp = Map.empty, vo_final = Map.empty, vo_settled = Map.empty\<rparr>"

definition demo_calls :: "string durable_call list" where
  "demo_calls = [AtomicWrite 1 ''t1'' ''index'' [1], BatchInstall True 4 [(''t2'', ''f'', [2]), (''t3'', ''g'', [3])]]"

theorem crash_never_tears_witness:
  "after_crash (\<lambda>_. False) (\<lambda>_. [9]) (run_ops (take 6 (concat (map call_ops demo_calls))) demo_volume) ''f'' \<in> {None, Some [2]} \<and>
   after_crash (\<lambda>_. True) (\<lambda>_. [9]) (run_ops (concat (map call_ops demo_calls)) demo_volume) ''g'' = Some [3]"
proof -
  have v: "vo_temp demo_volume = Map.empty" "vo_settled demo_volume = (\<lambda>f. map_option fst (vo_final demo_volume f))"
    "\<forall>f bs. vo_final demo_volume f \<noteq> Some (bs, False)" "distinct (map fst (concat (map call_writes demo_calls)))"
    by (simp_all add: demo_volume_def demo_calls_def)
  note f = crash_never_tears [OF v, of "\<lambda>_. False" "\<lambda>_. [9]" 6 "''f''", THEN conjunct1, unfolded Let_def]
  note g = crash_never_tears [OF v, of "\<lambda>_. True" "\<lambda>_. [9]" 0 "''g''", THEN conjunct2,
    THEN spec, of "[AtomicWrite 1 ''t1'' ''index'' [1]]", THEN spec, of "[]", THEN spec, of 4, THEN spec, of "[(''t2'', ''f'', [2]), (''t3'', ''g'', [3])]",
    THEN spec, of "''t3''", THEN spec, of "[3]", THEN mp]
  have "after_crash (\<lambda>_. True) (\<lambda>_. [9]) (run_ops (concat (map call_ops demo_calls)) demo_volume) ''g'' = Some [3]"
    using g by (simp add: demo_calls_def del: call_ops.simps)
  moreover have "after_crash (\<lambda>_. False) (\<lambda>_. [9]) (run_ops (take 6 (concat (map call_ops demo_calls))) demo_volume) ''f'' \<in> {None, Some [2]}"
    using f by (auto simp: demo_calls_def demo_volume_def simp del: call_ops.simps)
  ultimately show ?thesis by blast
qed

text \<open>An index of one file in the older layout.\<close>

definition demo_codec :: index_codec where
  "demo_codec = \<lparr>ic_encode = (\<lambda>_. None), ic_decode = (\<lambda>_. None),
     ic_legacy = (\<lambda>_. Some (bm_insert demo_path (legacy_entry_of \<lparr>heads = [demo_loser]\<rparr>) bm_empty, []))\<rparr>"

theorem legacy_index_restored_witness:
  "\<exists>j. load_index demo_codec (FileBytes []) = LoadedIndex j False \<and>
    index_get j demo_path = Some \<lparr>heads = [\<lparr>hd_version = demo_clock 1, hd_state = Present (demo_sig 1 0)\<rparr>]\<rparr>"
proof -
  let ?i = "index_put index_new demo_path \<lparr>heads = [demo_loser]\<rparr>"
  have wf: "index_wf ?i" by (simp add: tomo_inv demo_loser_def entry_wf_def)
  have "ic_decode demo_codec [] = None"
    "ic_legacy demo_codec [] = Some (bm_insert demo_path (legacy_entry_of \<lparr>heads = [demo_loser]\<rparr>) bm_empty, [])"
    "\<forall>p. bm_get (bm_insert demo_path (legacy_entry_of \<lparr>heads = [demo_loser]\<rparr>) bm_empty) p = map_option legacy_entry_of (index_get ?i p)"
    by (simp_all add: demo_codec_def index_get_put bm_get_insert)
  from legacy_index_restored [OF wf this] obtain j where "load_index demo_codec (FileBytes []) = LoadedIndex j False"
    "index_get j demo_path = map_option timeless (index_get ?i demo_path)" by blast
  moreover have "map_option timeless (index_get ?i demo_path) = Some \<lparr>heads = [\<lparr>hd_version = demo_clock 1, hd_state = Present (demo_sig 1 0)\<rparr>]\<rparr>"
    by (simp add: index_get_put timeless_def with_mtimes_def demo_loser_def demo_sig_def)
  ultimately show ?thesis by simp
qed

text \<open>The file and its index entry are there, its version was lost.\<close>

theorem restart_completes_history_witness:
  "\<exists>ap1 ap2. reconcile_history_completeness demo_world demo_disk demo_edited = Inr (ap1, []) \<and>
    drain_history demo_world demo_disk ap1 0 = Inr (ap2, []) \<and> db_versions (hs_db (ap_store demo_edited)) = [] \<and>
    (''f'', 1, [1]) \<in> (\<lambda>v. (vr_path v, vr_state v, vr_clock v)) ` set (db_versions (hs_db (ap_store ap2)))"
proof -
  have rec: "recording demo_world demo_disk demo_universe"
    using demo_api2_ok by (simp_all add: recording_def demo_disk_def demo_world_def no_collisions_def) (simp add: demo_api2_def demo_api_def)
  have "content_ok demo_api2 demo_universe [1, 1, 1]"
    by (simp add: content_ok_def slices_def demo_api2_def demo_api_def chunk_slice_def demo_universe_def)
  then have cap: "capturing demo_disk demo_universe demo_edited"
    by (simp add: capturing_def stored_ok_def demo_edited_def demo_applier_def db_wf_new file_bytes_def demo_session_def pressure_wf_new demo_disk_def split: if_splits)
      (simp add: pressure_new_def Let_def)
  have i: "eng_index (eng demo_edited) = index_put index_new demo_path \<lparr>heads = [demo_loser]\<rparr>" "ap_tree demo_edited = bm_insert demo_path (FileNode [1, 1, 1] False 1) bm_empty"
    "db_versions (hs_db (ap_store demo_edited)) = []"
    by (simp_all add: demo_edited_def demo_applier_def eng_def demo_session_def engine_new_def db_new_def)
  have wf: "engine_wf (eng demo_edited)" by (simp add: engine_wf_def i tomo_inv demo_loser_def entry_wf_def)
  from restart_completes_history [OF rec cap wf, of 0] obtain ap1 ap2 where 1: "reconcile_history_completeness demo_world demo_disk demo_edited = Inr (ap1, [])"
    "drain_history demo_world demo_disk ap1 0 = Inr (ap2, [])"
    "\<And>p e h. index_get (eng_index (eng demo_edited)) p = Some e \<and> winner e = Some h \<and>
       (case hd_state h of Tombstone \<Rightarrow> True | Present sig \<Rightarrow> read_verified (w_blake3 demo_world) (ap_tree demo_edited) p sig \<noteq> None) \<Longrightarrow>
       (as_str p, state_tag (hd_state h), sa_clock_enc (dk_store demo_disk) (hd_version h))
         \<in> (\<lambda>v. (vr_path v, vr_state v, vr_clock v)) ` set (db_versions (hs_db (ap_store ap2)))"
    by blast
  have "(as_str demo_path, state_tag (hd_state demo_loser), sa_clock_enc (dk_store demo_disk) (hd_version demo_loser))
         \<in> (\<lambda>v. (vr_path v, vr_state v, vr_clock v)) ` set (db_versions (hs_db (ap_store ap2)))"
    by (rule 1(3) [of _ "\<lparr>heads = [demo_loser]\<rparr>"])
      (simp add: i index_get_put winner_def demo_loser_def read_verified_def file_bytes_def bm_get_insert matches_sig_def demo_sig_def demo_world_def demo_blake3_def)
  then have "(''f'', 1, [1]) \<in> (\<lambda>v. (vr_path v, vr_state v, vr_clock v)) ` set (db_versions (hs_db (ap_store ap2)))"
    by (simp add: demo_path_def as_str_def demo_loser_def state_tag_def demo_disk_def demo_api2_def)
  then show ?thesis using 1(1,2) i(3) by blast
qed

text \<open>A project of one file, without an index, a cache and a history of its own; two sessions
  find it with different bytes.\<close>

definition demo_project :: "u8 \<Rightarrow> string list project" where
  "demo_project b = \<lparr>pj_config = demo_config\<lparr>cf_history := \<lparr>history_mode_of = CfgOff\<rparr>\<rparr>, pj_replica = ReplicaId 1, pj_binary_version = ''1'',
     pj_tree = bm_insert demo_path (FileNode [b, b, b] False 1) bm_empty, pj_index_file = FileAbsent, pj_cache_file = None,
     pj_status_file = None, pj_history = Some \<lparr>hs_db = db_new, hs_has_exec = True\<rparr>\<rparr>"

definition demo_status_api :: status_api where
  "demo_status_api = \<lparr>sx_net = None, sx_peer_identity = None,
     sx_fs = \<lparr>fs_case_insensitive = False, fs_normalizes_unicode = False\<rparr>, sx_unix_ms = 0\<rparr>"

definition demo_first :: "u8 \<Rightarrow> string list applier" where
  "demo_first b = applier_new (demo_project b) \<lparr>hs_db = db_new, hs_has_exec = True\<rparr> index_new"

definition demo_found :: "u8 \<Rightarrow> cache_entry" where
  "demo_found b = \<lparr>ce_mtime_ns = 5, ce_size = 3, ce_sig = demo_sig b 1\<rparr>"

abbreviation demo_start :: "u8 \<Rightarrow> start_error + string list started" where
  "demo_start b \<equiv> start_session demo_world demo_disk demo_scan demo_codec (\<lambda>_. []) (\<lambda>_. None) demo_status_api (\<lambda>_. True) 0 (demo_project b)"

lemma demo_first_fields: "eng (demo_first b) = engine_new (ReplicaId 1) index_new" "ap_tree (demo_first b) = pj_tree (demo_project b)"
  "ap_store (demo_first b) = \<lparr>hs_db = db_new, hs_has_exec = True\<rparr>" "pc_mode (ap_pressure (demo_first b)) = Off"
  "\<not> ss_transport (ap_session (demo_first b))" "ss_config (ap_session (demo_first b)) = pj_config (demo_project b)"
  by (simp_all add: demo_first_def applier_new_def session_new_def eng_def demo_project_def pressure_new_def Let_def to_engine_def)

lemma demo_project_ignores: "\<not> path_ignored literal_api (pj_config (demo_project b)) demo_path"
proof -
  have "classify literal_api (pj_config (demo_project b)) ''f'' = classify literal_api demo_config ''f''"
    by (simp add: classify_def demo_project_def demo_config_def cong: option.case_cong)
  then show ?thesis using demo_not_ignored by (simp add: path_ignored_def demo_path_def)
qed

lemma demo_relative: "scan_relativize demo_scan demo_path = Some demo_path"
  by (simp add: scan_relativize_def demo_scan_def canonicalize_fs_path_def relpath_new_def starts_with_def demo_path_def)

lemma demo_project_walk: "walk demo_scan (path_ignored literal_api (pj_config (demo_project b))) demo_blake3 (pj_tree (demo_project b)) bm_empty None =
    Inr [(demo_path, demo_found b)]"
proof -
  have t: "pj_tree (demo_project b) = bm_insert demo_path (FileNode [b, b, b] False 1) bm_empty" by (simp add: demo_project_def)
  then have "children (pj_tree (demo_project b)) None = [(demo_path, FileNode [b, b, b] False 1)]"
    by (simp add: children_def tomo_eval)
  moreover have "visit_file demo_scan demo_blake3 (pj_tree (demo_project b)) bm_empty demo_path demo_path [b, b, b] False 1 = Inr [(demo_path, demo_found b)]"
    by (simp add: visit_file_def t demo_found_def demo_scan_def demo_sig_def demo_blake3_def scan_decide_def snapshot_def bm_get_insert)
  moreover have "\<not> sn_unreadable demo_scan None" by (simp add: demo_scan_def)
  ultimately show ?thesis using demo_project_ignores [of b] by (simp add: walk.simps [of _ _ _ _ _ None] demo_relative)
qed

lemma demo_first_rescan: "rescan_with_cache demo_world demo_scan bm_empty (demo_first b) =
    Inr ([\<lparr>lc_path = demo_path, lc_kind = Modified (demo_sig b 1)\<rparr>], bm_insert demo_path (demo_found b) bm_empty)"
proof -
  have w: "w_globs demo_world = literal_api" "w_blake3 demo_world = demo_blake3" by (simp_all add: demo_world_def)
  have i: "eng_index (eng (demo_first b)) = index_new" "index_iter index_new = []" "winner_state index_new demo_path = None"
    by (simp_all add: demo_first_fields engine_new_def index_iter_def index_new_def winner_state_def index_get_def)
  show ?thesis
    by (simp add: rescan_with_cache_def scan_diff_cached_def demo_first_fields w i demo_project_walk on_disk_map_def fresh_cache_def
        scan_changes_def scan_differs_def tomo_eval) (simp add: demo_found_def)
qed

text \<open>A session without a transport and without a history takes an edit by changing its engine only.\<close>

lemma quiet_edit:
  assumes "\<not> ss_transport (ap_session ap)" "pc_mode (ap_pressure ap) = Off"
  shows "with_engine w d ap (Some (local_commit (eng ap) p v (Present sig) (Modified sig))) None None =
    Inr (ap\<lparr>ap_session := (ap_session ap)\<lparr>ss_engine := fst (local_commit (eng ap) p v (Present sig) (Modified sig))\<rparr>\<rparr>, [])"
  using assms
  by (simp add: with_engine_def local_commit_def execute_def captures_of_def Let_def do_send_def prepare_send_def send_prepared_def on_session_def
      off_notes_nothing and_then_def sent_frames_def)

definition demo_ran :: "u8 \<Rightarrow> string list applier" where
  "demo_ran b = (demo_first b)\<lparr>ap_session := (ap_session (demo_first b))\<lparr>ss_engine :=
     fst (local_commit (eng (demo_first b)) demo_path (base_clock (eng (demo_first b)) demo_path) (Present (demo_sig b 1)) (Modified (demo_sig b 1)))\<rparr>\<rparr>"

lemma demo_first_scan: "startup_scan demo_world demo_disk demo_scan bm_empty (demo_first b) = Inr (demo_ran b, bm_insert demo_path (demo_found b) bm_empty, [])"
proof -
  have e: "engine_wf (eng (demo_first b))" "\<not> is_expected_echo (eng (demo_first b)) demo_path (observed (Modified (demo_sig b 1)))"
    "disk_state (eng (demo_first b)) demo_path = Tombstone"
    by (simp_all add: demo_first_fields engine_wf_new disk_state_def) (simp_all add: is_expected_echo_def engine_new_def echo_contains_pending pending_count_def)
  then have "handle (eng (demo_first b)) (Local \<lparr>lc_path = demo_path, lc_kind = Modified (demo_sig b 1)\<rparr>) =
      Some (local_commit (eng (demo_first b)) demo_path (base_clock (eng (demo_first b)) demo_path) (Present (demo_sig b 1)) (Modified (demo_sig b 1)))"
    using handle_local_edit [OF e(1), of "\<lparr>lc_path = demo_path, lc_kind = Modified (demo_sig b 1)\<rparr>"]
    by (simp add: handle_def state_from_kind_def)
  then show ?thesis
    by (simp add: startup_scan_def demo_first_rescan demo_first_fields(4,5) quiet_edit and_then_def demo_ran_def)
qed

lemma demo_starts: "\<exists>r. demo_start b = Inr r \<and> ps_index_file (sr_persistence r) = FileAbsent"
proof -
  have l: "load_index demo_codec (pj_index_file (demo_project b)) = LoadedIndex index_new False"
    "pj_history (demo_project b) = Some \<lparr>hs_db = db_new, hs_has_exec = True\<rparr>" "load_scan_cache (\<lambda>_. None) (pj_cache_file (demo_project b)) = bm_empty"
    by (simp_all add: load_index_def demo_project_def load_scan_cache_def)
  have i: "index_iter (eng_index (eng (demo_first b))) = []"
    by (simp add: demo_first_fields engine_new_def index_iter_def index_new_def)
  have "guess_peer (eng_replica (eng (demo_first b))) (eng_index (eng (demo_first b))) = None" by (simp add: guess_peer_def i)
  moreover have "ss_peer_replica (ap_session (demo_first b)) = None" by (simp add: demo_first_def applier_new_def session_new_def)
  ultimately have c: "reconcile_history_completeness demo_world demo_disk (demo_first b) = Inr (demo_first b, [])"
    using i by (simp add: reconcile_history_completeness_def Let_def eng_def)
  have j: "index_iter (eng_index (eng (demo_ran b))) = [(demo_path, entry_single (vc_tick (base_clock (eng (demo_first b)) demo_path) (ReplicaId 1)) (Present (demo_sig b 1)))]"
    by (simp add: demo_ran_def eng_def local_commit_def Let_def) (simp add: eng_def [symmetric] demo_first_fields engine_new_def index_upsert_def index_iter_def index_new_def tomo_eval)
  have "conflicts_of (hs_db (ap_store (demo_ran b))) True = Inr []" by (simp add: demo_ran_def demo_first_fields conflicts_of_def db_new_def)
  moreover have "session_status demo_world demo_status_api (demo_ran b) 0 \<noteq> None"
    by (simp add: session_status_def status_live_def summarize_def j Let_def)
  then obtain st where "session_status demo_world demo_status_api (demo_ran b) 0 = Some st" by blast
  ultimately have "\<exists>ps. persist demo_world demo_codec (\<lambda>_. []) demo_status_api (\<lambda>_. True) 0 True (demo_ran b) (bm_insert demo_path (demo_found b) bm_empty)
      ((persistence_new (demo_project b) 0)\<lparr>ps_cache_dirty := True\<rparr>) = (ps, Persisted)"
    by (simp add: persist_def persist_index_step_def persist_status_step_def persistence_new_def store_scan_cache_def Let_def)
  then obtain ps where p: "persist demo_world demo_codec (\<lambda>_. []) demo_status_api (\<lambda>_. True) 0 True (demo_ran b) (bm_insert demo_path (demo_found b) bm_empty)
      ((persistence_new (demo_project b) 0)\<lparr>ps_cache_dirty := True\<rparr>) = (ps, Persisted)" by blast
  then have "demo_start b = Inr \<lparr>sr_applier = demo_ran b, sr_cache = bm_insert demo_path (demo_found b) bm_empty, sr_persistence = ps, sr_recovered = False\<rparr>"
    by (simp add: start_session_def l c demo_first_def [symmetric] demo_first_scan)
  moreover have "ps_index_file ps = FileAbsent"
    using clean_index_kept [OF _ p] by (simp add: persistence_new_def demo_project_def)
  ultimately show ?thesis by simp
qed

lemma demo_startable: "startable demo_world demo_scan (\<lambda>_. None) index_new (demo_project b)"
  by (simp add: startable_def tomo_inv demo_scan_names load_scan_cache_def demo_project_def)
    (simp add: engine_new_def base_clock_def index_new_def index_get_def)

lemma demo_project_disk: "project_disk demo_world demo_scan (demo_project b) demo_path = Some (demo_sig b 1)" "scan_differs index_new demo_path sig"
proof -
  have "taken demo_scan (path_ignored literal_api (pj_config (demo_project b))) demo_path"
    using demo_project_ignores [of b] by (simp add: taken_def demo_relative)
  then show "project_disk demo_world demo_scan (demo_project b) demo_path = Some (demo_sig b 1)"
    by (simp add: project_disk_def scanned_sig_def demo_world_def) (simp add: demo_project_def demo_sig_def demo_blake3_def)
  show "scan_differs index_new demo_path sig"
    by (simp add: scan_differs_def winner_state_def index_new_def index_get_def)
qed

theorem restart_reuses_version_witness:
  "\<exists>r r' v. demo_start 1 = Inr r \<and> demo_start 2 = Inr r' \<and> pj_index_file (demo_project 2) = ps_index_file (sr_persistence r) \<and>
    index_get (eng_index (eng (sr_applier r))) demo_path = Some (entry_single v (Present (demo_sig 1 1))) \<and>
    index_get (eng_index (eng (sr_applier r'))) demo_path = Some (entry_single v (Present (demo_sig 2 1)))"
proof -
  obtain r r' where r: "demo_start 1 = Inr r" "demo_start 2 = Inr r'" "pj_index_file (demo_project 2) = ps_index_file (sr_persistence r)"
    using demo_starts [of 1] demo_starts [of 2] by (auto simp: demo_project_def)
  have l: "load_index demo_codec (pj_index_file (demo_project 1)) = LoadedIndex index_new False"
    "pj_replica (demo_project 2) = pj_replica (demo_project 1)" by (simp_all add: load_index_def demo_project_def)
  from restart_reuses_version [OF r(1) demo_startable r(2) demo_startable l(1) r(3) l(2) demo_project_disk demo_project_disk] r
  show ?thesis by blast
qed

end
