(* ===== verification/Spec2Isabelle.thy ===== *)
theory Spec2Isabelle
  imports Tomo_Replicas Tomo_Stall Tomo_Watch Tomo_Route Tomo_Window Tomo_Channel Tomo_Restart
begin

text \<open>
  Verification of tomo, a continuous two-way file synchroniser over SSH written in Rust
  (\<^verbatim>\<open>src/crates\<close>). Below, \<^verbatim>\<open>engine/\<close>, \<^verbatim>\<open>proto/\<close>, \<^verbatim>\<open>config/\<close>, \<^verbatim>\<open>watch/\<close>,
  \<^verbatim>\<open>history/\<close>, \<^verbatim>\<open>transport/\<close> and \<^verbatim>\<open>tomo/\<close> stand for the \<^verbatim>\<open>src\<close> directories of the
  crates \<^verbatim>\<open>tomo-engine\<close>, \<^verbatim>\<open>tomo-proto\<close>, and so on.

  \<^bold>\<open>How the program works.\<close> Each of two peers keeps an index from paths to entries. An entry is a
  multi-value register: the list of causally maximal heads, each a version (vector clock and writer)
  with a state (a signature or a tombstone). A pure engine turns local changes, remote changes and
  the peer's index into actions: apply this state to the tree, send this change, record this
  version, report this conflict. A watcher and a scan produce the local changes; the engine's echo
  journal swallows those the engine's own writes cause. A session executes the actions: it
  stages and installs files, records losing and superseded contents in a history database, ships
  changes as length-prefixed frames, large files as chunks, and answers pause, resume, loss of the
  connection, full disks and shutdown. Frames pass a window that bounds the content in memory. A
  control channel serves commands and an event stream to other processes, among them the terminal
  interface, whose state changes in one reducer.

  \<^bold>\<open>Theories, from the bottom up.\<close>

  \<^item> Shared layer. \<open>Tomo_Prelude\<close>: 64-bit words as \<open>u64\<close> (release builds wrap), saturating
  operations, little-endian bytes, the locales \<open>prefix_code\<close>, \<open>state_machine\<close> (an inductive
  invariant holds after every run), \<open>simulation\<close> and \<open>output_machine\<close>, and the collections of
  facts. \<open>Tomo_BTreeMap\<close>: Rust's
  \<^verbatim>\<open>BTreeMap\<close> as a sorted association list with its laws.
  \<^item> Data model. \<open>Tomo_Clock\<close> (\<^verbatim>\<open>engine/clock.rs\<close>: \<open>vector_clock\<close>, tick, merge, compare),
  \<open>Tomo_Path\<close> (\<^verbatim>\<open>engine/path.rs\<close>: validated relative paths), \<open>Tomo_Head\<close>, \<open>Tomo_Entry\<close> and
  \<open>Tomo_Index\<close> (\<^verbatim>\<open>engine/index.rs\<close>: heads and their canonical order, \<open>absorb\<close>, \<open>winner\<close>, and
  the index with its canonical bytes).
  \<^item> Engine. \<open>Tomo_Engine\<close> (\<^verbatim>\<open>engine/event.rs\<close>, \<^verbatim>\<open>engine/engine.rs\<close>): the journal and
  \<open>handle\<close>, whose \<open>None\<close> is a reached \<^verbatim>\<open>unreachable!\<close>. \<open>Tomo_Reconcile\<close>: the engine never
  panics, keeps itself well formed, and converges on equal sets of changes. \<open>Tomo_Echo\<close>:
  conflicts, the tree that follows the winners, and the echoes. \<open>Tomo_Replicas\<close>: two engines
  and the frames between them as a step relation, with safety and progress.
  \<^item> Wire. \<open>Tomo_Frame\<close> (\<^verbatim>\<open>proto/\<close>): messages, \<open>encode_frame\<close>, the push decoder.
  \<open>Tomo_Window\<close> (\<^verbatim>\<open>tomo/transport.rs\<close>): the frame writer, the content window, reader and
  main loop as the step relation \<open>link_step\<close>, in which a reader that waits for the window may look
  again at any time (\<open>only_notifiers_free\<close>: nothing but the two notifying calls can let it in).
  \<^item> Configuration and history capture. \<open>Tomo_Config\<close> (\<^verbatim>\<open>config/lib.rs\<close>: rules and
  classification). \<open>Tomo_Pressure\<close> (\<^verbatim>\<open>engine/pressure.rs\<close>: the adaptive controller that delays
  and coalesces captures).
  \<^item> Session (\<^verbatim>\<open>tomo/session.rs\<close>, \<^verbatim>\<open>tomo/apply.rs\<close>, \<^verbatim>\<open>tomo/chunkxfer.rs\<close>).
  \<open>Tomo_Session\<close> holds its decisions (handshake, pause, outbound queue, watcher batches),
  \<open>Tomo_Transfer\<close> the chunked transfers, \<open>Tomo_Outbound\<close> what the decisions guarantee,
  \<open>Tomo_Execute\<close> the execution of actions on tree and history, \<open>Tomo_Bursts\<close> what a whole burst
  does, \<open>Tomo_Preserve\<close> that no losing content gets lost, \<open>Tomo_Drain\<close> the shutdown,
  \<open>Tomo_Stall\<close> the full disk.
  \<^item> Between runs. \<open>Tomo_Persist\<close> (\<^verbatim>\<open>tomo/fsutil.rs\<close>: the steps of a durable write on a volume
  that may lose what is not synced; \<^verbatim>\<open>tomo/persist.rs\<close>: the index file and its older layout;
  \<^verbatim>\<open>tomo/status.rs\<close>, \<^verbatim>\<open>tomo/replica.rs\<close>; \<open>persist\<close>, \<open>reconcile_history_completeness\<close> and the start
  of \<^verbatim>\<open>run\<close> in \<^verbatim>\<open>tomo/session.rs\<close>, from the files of a \<open>project\<close> to the first write), \<open>Tomo_Restart\<close>
  (what a crash or a restart keeps).
  \<^item> History (\<^verbatim>\<open>history/store.rs\<close>). \<open>Tomo_History\<close>: the tables as lists of rows, and every
  operation; \<open>Tomo_Ledger\<close>: they implement an append-only journal, and the integrity check
  stays clean.
  \<^item> Watching (\<^verbatim>\<open>watch/\<close>). \<open>Tomo_Scan\<close> (walk, diff, cache), \<open>Tomo_Rescan\<close> (what a scan
  settles), \<open>Tomo_Watch\<close> (live events).
  \<^item> Reaching the peer (\<^verbatim>\<open>transport/\<close>). \<open>Tomo_Target\<close> (targets, quoting, platforms,
  bootstrap), \<open>Tomo_SshConfig\<close> (reading \<^verbatim>\<open>ssh_config\<close>, routes, host keys), \<open>Tomo_Route\<close> (their
  guarantees).
  \<^item> Commands and control. \<open>Tomo_Commands\<close> (\<^verbatim>\<open>tomo/history_cmd.rs\<close>,
  \<^verbatim>\<open>tomo/conflicts_cmd.rs\<close>, \<^verbatim>\<open>tomo/diff_cmd.rs\<close>, \<^verbatim>\<open>tomo/textdiff.rs\<close>), \<open>Tomo_Resolve\<close>
  (what they do to files and history), \<open>Tomo_Tui\<close> (\<^verbatim>\<open>tomo/tui/state.rs\<close>: \<open>model\<close> and
  \<open>update\<close>), \<open>Tomo_Console\<close> (invariants of the reducer), \<open>Tomo_Json\<close> (payloads and requests as
  JSON values), \<open>Tomo_Control\<close> (\<^verbatim>\<open>tomo/ctl\<close>: fan-out, \<open>run_command\<close>, client side),
  \<open>Tomo_Channel\<close> (the event stream, and console and server together).

  \<^bold>\<open>Groups of lemmas.\<close> Each data theory proves its well-formedness predicate and its preservation
  by every operation; \<open>Tomo_Entry\<close> shows \<open>absorb\<close> to be the join of a semilattice of head sets,
  from which order and repetition of changes do not matter, in one replica (\<open>Tomo_Reconcile\<close>) and
  over a lossy, reordering link (\<open>Tomo_Replicas\<close>). \<open>Tomo_Echo\<close> relates the tree to the index.
  \<open>Tomo_Ledger\<close> and \<open>Tomo_Transfer\<close> are refinements: the abstract journal; the bytes announced.
  \<open>Tomo_Preserve\<close>, \<open>Tomo_Resolve\<close>, \<open>Tomo_Drain\<close> and \<open>Tomo_Restart\<close> show what is never lost.
  \<open>Tomo_Rescan\<close> relates disk, cache and index. \<open>Tomo_Window\<close>, \<open>Tomo_Console\<close> and \<open>Tomo_Channel\<close> are invariants of
  interleaved steps. Some properties state what the code does where this is not what it intends
  (a stale expectation swallows an edit, a restart uses a clock twice, a change below a regular
  file ends the session); further defects are lemmas of the theory of their component (a pause
  drops a received file, a scan unsyncs files below an ignored directory, a full disk turns a drop
  into a deletion).

  \<^bold>\<open>Interfaces.\<close> A locale is interpreted on the code's own definitions in the theory that
  provides them: \<open>ordered_map\<close> on the \<^verbatim>\<open>BTreeMap\<close> operations, \<open>causal_order\<close> on the vector
  clocks, \<open>prefix_code\<close> on the encodings of paths with clocks, of heads and of index records,
  \<open>state_machine\<close> on the history store and the pressure controller, \<open>simulation\<close> on the store and
  its journal, \<open>output_machine\<close> on the session that waits or is paused.

  \<^bold>\<open>Termination and fuel.\<close> Loops are structural or have a measure: the walk of the tree, the
  chain of jump hosts (visited hosts grow), included files (the depth limit of the code), glob
  matching. The search for a free sidecar name is a \<^verbatim>\<open>partial_function\<close>, whose \<open>None\<close> is a search
  that never returns; \<open>keep_both_overwrites_nothing\<close> shows that it returns. The only fuel is that of
  \<open>pull_rounds\<close>; the number of ranges of the manifest plus two always suffices, which
  \<open>chunk_transfer_completes\<close> proves. Draining and the two step relations of network and
  window are shown to end by a measure that falls with each step.

  \<^bold>\<open>Parameters.\<close> Code outside the repository is an argument: the postcard, JSON text
  and zstd codecs, BLAKE3, the content-defined chunker, glob and toml parsing, Unicode tables,
  looking a key up in one known-hosts file, the clock, the disk. Laws they need are hypotheses of the
  statements (decoding inverts encoding, chunks concatenate to the content, hashes of contents
  at hand differ), and each is discharged by a concrete function in a witness.

  \<^bold>\<open>Not modelled.\<close> Sockets, threads and processes; the SSH connection, authentication and SFTP
  (\<^verbatim>\<open>transport/ssh.rs\<close> beyond the host-key policy, on the russh crate); drawing
  (\<^verbatim>\<open>tomo/tui/view.rs\<close>, \<^verbatim>\<open>tomo/style.rs\<close>, on the ratatui crate); argument parsing and the
  threads, locks and channels of a session; human texts and log lines; symbolic links and the
  random temporary names of the file system; the SQL layer below the tables with its failures
  (but for marking a conflict after a file was written for it), opening and the older schema
  migrations. They are I/O around the modelled decisions, or belong to the crates above.
\<close>

text \<open>The replica id written at \<^verbatim>\<open>init\<close> is read back.\<close>

lemma replica_roundtrip: "replica_parse (replica_format r) = Some r"
  using replica_digits [of "replica_raw r"] by (cases r) (simp add: replica_format_def)

end
